(* ===== verification/Prelude.thy ===== *)
theory Prelude
  imports Main "HOL-Library.Word"
begin

text \<open>
  The vocabulary every component shares: Python's exceptions as values, the two
  sequencing combinators (for pure code that may raise, and for code that also
  changes a state), byte strings with slicing and indexing, big-endian packing
  with the range checks of \<^verbatim>\<open>struct.pack\<close> and \<^verbatim>\<open>int.to_bytes\<close>, and text as
  a list of code points. The collection \<open>pyeval\<close> holds the equations that run a
  model on a concrete input.
\<close>

named_theorems pyeval \<open>equations that evaluate a model\<close>

section \<open>Exceptions as values\<close>

text \<open>
  The exceptions the modelled code raises or catches. \<open>RuntimeError\<close> keeps its
  message because one peer inspects it; \<open>UnicodeError\<close> is the codec failure
  (a \<open>ValueError\<close> in Python, caught there under its own name); \<open>SystemExit\<close> is
  what the scripts raise to stop and \<open>NameError\<close> an unset local, which no handler of theirs catches.
\<close>

datatype exn =
    ValueError | TypeError | AttributeError | KeyError | IndexError | OverflowError
  | StructError | UnicodeError | AssertionError
  | TimeoutError | ConnectionResetError | BrokenPipeError | OtherOSError
  | RuntimeError string | SystemExit | NameError

type_synonym 'a result = "exn + 'a"

fun bindE :: "'a result \<Rightarrow> ('a \<Rightarrow> 'b result) \<Rightarrow> 'b result" where
  "bindE (Inl e) f = Inl e"
| "bindE (Inr a) f = f a"

definition guardE :: "bool \<Rightarrow> exn \<Rightarrow> unit result" where
  "guardE ok e = (if ok then Inr () else Inl e)"

fun mapE :: "('a \<Rightarrow> 'b result) \<Rightarrow> 'a list \<Rightarrow> 'b list result" where
  "mapE f [] = Inr []"
| "mapE f (x # xs) = bindE (f x) (\<lambda>y. bindE (mapE f xs) (\<lambda>ys. Inr (y # ys)))"

lemma bindE_cong [fundef_cong]:
  "m = m' \<Longrightarrow> (\<And>a. m' = Inr a \<Longrightarrow> f a = f' a) \<Longrightarrow> bindE m f = bindE m' f'"
  by (cases m') auto

lemma mapE_cong [fundef_cong]:
  "xs = ys \<Longrightarrow> (\<And>x. x \<in> set ys \<Longrightarrow> f x = g x) \<Longrightarrow> mapE f xs = mapE g ys"
  by (induction ys arbitrary: xs) auto

lemma bindE_Inr_iff [simp]:
  "bindE m f = Inr b \<longleftrightarrow> (\<exists>a. m = Inr a \<and> f a = Inr b)"
  by (cases m) auto

lemma bindE_Inl_iff:
  "bindE m f = Inl e \<longleftrightarrow> m = Inl e \<or> (\<exists>a. m = Inr a \<and> f a = Inl e)"
  by (cases m) auto

lemma bindE_assoc: "bindE (bindE m f) g = bindE m (\<lambda>x. bindE (f x) g)"
  by (cases m) auto

lemma guardE_True [simp, pyeval]: "guardE True e = Inr ()"
  by (simp add: guardE_def)

lemma guardE_False [simp, pyeval]: "guardE False e = Inl e"
  by (simp add: guardE_def)

lemma guardE_Inr_iff [simp]: "guardE ok e = Inr u \<longleftrightarrow> ok"
  by (simp add: guardE_def)

lemma guardE_Inl_iff [simp]: "guardE ok e = Inl e' \<longleftrightarrow> \<not> ok \<and> e' = e"
  by (auto simp: guardE_def)

lemma mapE_Inr_iff:
  "mapE f xs = Inr ys \<longleftrightarrow> list_all2 (\<lambda>x y. f x = Inr y) xs ys"
  by (induction xs arbitrary: ys) (auto simp: list_all2_Cons1)

lemma mapE_length: "mapE f xs = Inr ys \<Longrightarrow> length ys = length xs"
  by (auto simp: mapE_Inr_iff list_all2_lengthD)

lemma mapE_total: "(\<And>x. x \<in> set xs \<Longrightarrow> f x = Inr (g x)) \<Longrightarrow> mapE f xs = Inr (map g xs)"
  by (induction xs) auto

lemma mapE_all:
  "mapE f xs = Inr ys \<Longrightarrow> (\<And>x y. f x = Inr y \<Longrightarrow> P y) \<Longrightarrow> y \<in> set ys \<Longrightarrow> P y"
  by (induction xs arbitrary: ys) auto

lemma mapE_append:
  "mapE f (xs @ ys) = bindE (mapE f xs) (\<lambda>as. bindE (mapE f ys) (\<lambda>bs. Inr (as @ bs)))"
proof (induction xs)
  case Nil
  show ?case by (cases "mapE f ys") auto
next
  case (Cons x xs)
  then show ?case by (cases "f x"; cases "mapE f xs"; cases "mapE f ys") auto
qed

section \<open>State with exceptions\<close>

text \<open>
  Code that raises and changes a state: the state reached so far survives the
  exception, as the effects of a Python \<^verbatim>\<open>try\<close> body do.
\<close>

type_synonym ('s, 'a) prog = "'s \<Rightarrow> 'a result \<times> 's"

definition ret :: "'a \<Rightarrow> ('s, 'a) prog" where
  "ret a s = (Inr a, s)"

definition raise :: "exn \<Rightarrow> ('s, 'a) prog" where
  "raise e s = (Inl e, s)"

definition bindM :: "('s, 'a) prog \<Rightarrow> ('a \<Rightarrow> ('s, 'b) prog) \<Rightarrow> ('s, 'b) prog" where
  "bindM m f s = (case m s of (Inl e, s') \<Rightarrow> (Inl e, s') | (Inr a, s') \<Rightarrow> f a s')"

definition thenM :: "('s, 'a) prog \<Rightarrow> ('s, 'b) prog \<Rightarrow> ('s, 'b) prog" where
  "thenM m n = bindM m (\<lambda>_. n)"

definition liftE :: "'a result \<Rightarrow> ('s, 'a) prog" where
  "liftE r s = (r, s)"

definition guardM :: "bool \<Rightarrow> exn \<Rightarrow> ('s, unit) prog" where
  "guardM ok e = liftE (guardE ok e)"

definition catchM :: "('s, 'a) prog \<Rightarrow> (exn \<Rightarrow> ('s, 'a) prog) \<Rightarrow> ('s, 'a) prog" where
  "catchM m h s = (case m s of (Inl e, s') \<Rightarrow> h e s' | (Inr a, s') \<Rightarrow> (Inr a, s'))"

fun forM :: "'a list \<Rightarrow> ('a \<Rightarrow> ('s, unit) prog) \<Rightarrow> ('s, unit) prog" where
  "forM [] f = ret ()"
| "forM (x # xs) f = thenM (f x) (forM xs f)"

fun foldM :: "('a \<Rightarrow> 'b \<Rightarrow> ('s, 'b) prog) \<Rightarrow> 'a list \<Rightarrow> 'b \<Rightarrow> ('s, 'b) prog" where
  "foldM f [] b = ret b"
| "foldM f (x # xs) b = bindM (f x b) (foldM f xs)"

lemmas prog_defs = ret_def raise_def bindM_def thenM_def liftE_def guardM_def catchM_def

lemma bindM_cong [fundef_cong]:
  "m s = m' s' \<Longrightarrow> s = s' \<Longrightarrow> (\<And>a t. m' s' = (Inr a, t) \<Longrightarrow> f a t = f' a t)
    \<Longrightarrow> bindM m f s = bindM m' f' s'"
  by (auto simp: bindM_def split: prod.splits sum.splits)

lemma bindM_run [pyeval]:
  "m s = (Inr a, t) \<Longrightarrow> bindM m f s = f a t"
  "m s = (Inl e, t) \<Longrightarrow> bindM m f s = (Inl e, t)"
  by (simp_all add: bindM_def)

lemma thenM_run [pyeval]:
  "m s = (Inr a, t) \<Longrightarrow> thenM m n s = n t"
  "m s = (Inl e, t) \<Longrightarrow> thenM m n s = (Inl e, t)"
  by (simp_all add: thenM_def bindM_def)

lemma ret_bind [simp]: "bindM (ret a) f = f a"
  by (rule ext) (simp add: bindM_def ret_def)

lemma bindM_assoc: "bindM (bindM m f) g = bindM m (\<lambda>x. bindM (f x) g)"
  by (rule ext) (simp add: bindM_def split: prod.splits sum.splits)

section \<open>Byte strings\<close>

type_synonym byte = "8 word"
type_synonym bytes = "byte list"

text \<open>Python slicing \<^verbatim>\<open>xs[i:j]\<close> for \<open>0 \<le> i\<close>: it never raises.\<close>

definition slice :: "nat \<Rightarrow> nat \<Rightarrow> 'a list \<Rightarrow> 'a list" where
  "slice i j xs = take (j - i) (drop i xs)"

text \<open>Indexing with a non-negative index: \<^verbatim>\<open>IndexError\<close> out of range.\<close>

definition at :: "'a list \<Rightarrow> nat \<Rightarrow> 'a result" where
  "at xs i = (if i < length xs then Inr (xs ! i) else Inl IndexError)"

definition byte :: "int \<Rightarrow> byte" where
  "byte v = word_of_int v"

text \<open>\<^verbatim>\<open>bytes([..])\<close>: an element outside 0..255 is a \<^verbatim>\<open>ValueError\<close>.\<close>

definition bytes_of :: "int list \<Rightarrow> bytes result" where
  "bytes_of vs = mapE (\<lambda>v. if 0 \<le> v \<and> v < 256 then Inr (byte v) else Inl ValueError) vs"

definition ints_of :: "bytes \<Rightarrow> int list" where
  "ints_of bs = map uint bs"

fun be_bytes :: "nat \<Rightarrow> int \<Rightarrow> bytes" where
  "be_bytes 0 v = []"
| "be_bytes (Suc n) v = byte (v div 256 ^ n) # be_bytes n v"

definition be_int :: "bytes \<Rightarrow> int" where
  "be_int bs = foldl (\<lambda>acc b. acc * 256 + uint b) 0 bs"

text \<open>
  \<^verbatim>\<open>struct.pack\<close> of an unsigned \<open>n\<close>-byte big-endian field and
  \<^verbatim>\<open>int.to_bytes(n, "big")\<close> differ in the exception only.
\<close>

definition pack :: "nat \<Rightarrow> int \<Rightarrow> bytes result" where
  "pack n v = (if 0 \<le> v \<and> v < 256 ^ n then Inr (be_bytes n v) else Inl StructError)"

definition to_bytes :: "nat \<Rightarrow> int \<Rightarrow> bytes result" where
  "to_bytes n v = (if 0 \<le> v \<and> v < 256 ^ n then Inr (be_bytes n v) else Inl OverflowError)"

definition concatE :: "bytes result list \<Rightarrow> bytes result" where
  "concatE rs = bindE (mapE id rs) (\<lambda>bs. Inr (concat bs))"

definition len :: "'a list \<Rightarrow> int" where
  "len xs = int (length xs)"

lemma length_slice: "length (slice i j xs) = min (j - i) (length xs - i)"
  by (simp add: slice_def min.commute)

lemma slice_0 [simp]: "slice 0 j xs = take j xs"
  by (simp add: slice_def)

lemma slice_all: "length xs \<le> j \<Longrightarrow> slice i j xs = drop i xs"
  by (simp add: slice_def)

lemma slice_take_drop: "slice i (i + n) xs = take n (drop i xs)"
  by (simp add: slice_def)

lemma at_Inr_iff [simp]: "at xs i = Inr x \<longleftrightarrow> i < length xs \<and> xs ! i = x"
  by (auto simp: at_def)

lemma at_less [pyeval]: "i < length xs \<Longrightarrow> at xs i = Inr (xs ! i)"
  by (simp add: at_def)

lemma length_be_bytes [simp]: "length (be_bytes n v) = n"
  by (induction n) auto

lemma be_bytes_numeral [simp, pyeval]:
  "be_bytes (numeral k) v = byte (v div 256 ^ pred_numeral k) # be_bytes (pred_numeral k) v"
  by (simp add: numeral_eq_Suc)

lemma be_bytes_1 [simp, pyeval]: "be_bytes 1 v = [byte v]"
  using be_bytes.simps(2)[of 0 v] by simp

lemma uint_byte: "uint (byte v) = v mod 256"
  by (simp add: byte_def uint_word_of_int)

lemma uint_byte_id: "0 \<le> v \<Longrightarrow> v < 256 \<Longrightarrow> uint (byte v) = v"
  by (simp add: uint_byte)

lemma byte_uint [simp]: "byte (uint b) = b"
  by (simp add: byte_def)

lemma uint_eq_byte: "0 \<le> v \<Longrightarrow> v < 256 \<Longrightarrow> uint b = v \<longleftrightarrow> b = byte v"
  by (metis byte_uint uint_byte_id)

lemma uint_byte_bounds: "0 \<le> uint (b :: byte)" "uint (b :: byte) < 256"
  using uint_lt2p[of b] by simp_all

lemma foldl_be: "foldl (\<lambda>acc b. acc * 256 + uint b) a (bs :: bytes)
    = a * 256 ^ length bs + foldl (\<lambda>acc b. acc * 256 + uint b) 0 bs"
proof (induction bs arbitrary: a)
  case Nil
  show ?case by simp
next
  case (Cons b bs)
  from Cons[of "a * 256 + uint b"] Cons[of "uint b"] show ?case
    by (simp add: algebra_simps)
qed

lemma be_int_Nil [simp, pyeval]: "be_int [] = 0"
  by (simp add: be_int_def)

lemma be_int_Cons [simp, pyeval]: "be_int (b # bs) = uint b * 256 ^ length bs + be_int bs"
  using foldl_be[of "uint b" bs] by (simp add: be_int_def)

lemma be_int_append: "be_int (xs @ ys) = be_int xs * 256 ^ length ys + be_int ys"
  by (induction xs) (simp_all add: algebra_simps power_add)

lemma be_int_nonneg: "0 \<le> be_int bs"
  by (induction bs) (simp_all add: uint_byte_bounds)

lemma be_int_bound: "be_int bs < 256 ^ length bs"
proof (induction bs)
  case Nil
  show ?case by simp
next
  case (Cons b bs)
  have "uint b + 1 \<le> 256" using uint_byte_bounds(2)[of b] by simp
  then have "(uint b + 1) * 256 ^ length bs \<le> 256 * 256 ^ length bs"
    by (rule mult_right_mono) simp
  then have "uint b * 256 ^ length bs + 256 ^ length bs \<le> 256 ^ length (b # bs)"
    by (simp only: distrib_right mult_1 length_Cons power_Suc)
  with Cons show ?case by (simp only: be_int_Cons)
qed

lemma be_int_be_bytes_mod: "be_int (be_bytes n v) = v mod 256 ^ n"
proof (induction n)
  case 0
  show ?case by simp
next
  case (Suc n)
  have "v mod 256 ^ Suc n = (v div 256 ^ n mod 256) * 256 ^ n + v mod 256 ^ n"
    using zmod_zmult2_eq[of 256 v "256 ^ n"] by (simp add: mult.commute)
  with Suc show ?case by (simp add: uint_byte)
qed

lemma be_int_be_bytes: "0 \<le> v \<Longrightarrow> v < 256 ^ n \<Longrightarrow> be_int (be_bytes n v) = v"
  by (simp add: be_int_be_bytes_mod)

lemma be_bytes_mod: "be_bytes n (v mod 256 ^ n) = be_bytes n v"
proof -
  have "m \<le> n \<Longrightarrow> be_bytes m (v mod 256 ^ n) = be_bytes m v" for m
  proof (induction m)
    case 0
    show ?case by simp
  next
    case (Suc m)
    then obtain k where n: "n = m + Suc k" using less_eqE[of "Suc m" n] by auto
    have "v mod 256 ^ n div 256 ^ m mod 256 = v div 256 ^ m mod 256"
    proof -
      have "v mod 256 ^ n = 256 ^ m * (v div 256 ^ m mod 256 ^ Suc k) + v mod 256 ^ m"
        unfolding n power_add by (rule zmod_zmult2_eq) simp
      then have "v mod 256 ^ n div 256 ^ m = v div 256 ^ m mod 256 ^ Suc k"
        by simp
      then show ?thesis by (simp add: mod_mod_cancel)
    qed
    then have "byte (v mod 256 ^ n div 256 ^ m) = byte (v div 256 ^ m)"
      by (metis byte_uint uint_byte)
    with Suc show ?case by simp
  qed
  then show ?thesis by simp
qed

lemma be_bytes_be_int [simp]: "be_bytes (length bs) (be_int bs) = bs"
proof (induction bs)
  case Nil
  show ?case by simp
next
  case (Cons b bs)
  have "be_bytes (length bs) (be_int (b # bs)) = be_bytes (length bs) (be_int (b # bs) mod 256 ^ length bs)"
    by (simp only: be_bytes_mod)
  also have "be_int (b # bs) mod 256 ^ length bs = be_int bs"
    by (simp add: be_int_nonneg be_int_bound)
  finally have tail: "be_bytes (length bs) (be_int (b # bs)) = bs"
    using Cons by simp
  have "be_int (b # bs) div 256 ^ length bs = uint b"
    by (simp add: be_int_nonneg be_int_bound)
  with tail show ?case by simp
qed

lemma be_int_inj: "length xs = length ys \<Longrightarrow> be_int xs = be_int ys \<longleftrightarrow> xs = ys"
  by (metis be_bytes_be_int)

lemma pack_Inr_iff [simp]:
  "pack n v = Inr bs \<longleftrightarrow> 0 \<le> v \<and> v < 256 ^ n \<and> bs = be_bytes n v"
  by (auto simp: pack_def)

lemma to_bytes_Inr_iff [simp]:
  "to_bytes n v = Inr bs \<longleftrightarrow> 0 \<le> v \<and> v < 256 ^ n \<and> bs = be_bytes n v"
  by (auto simp: to_bytes_def)

lemma pack_ok: "0 \<le> v \<Longrightarrow> v < 256 ^ n \<Longrightarrow> pack n v = Inr (be_bytes n v)"
  by simp

lemma to_bytes_ok: "0 \<le> v \<Longrightarrow> v < 256 ^ n \<Longrightarrow> to_bytes n v = Inr (be_bytes n v)"
  by simp

lemma be_int_pack: "pack n v = Inr bs \<Longrightarrow> be_int bs = v"
  by (auto simp: be_int_be_bytes)

lemma len_simps [simp, pyeval]:
  "len [] = 0" "len (x # xs) = 1 + len xs" "len (xs @ ys) = len xs + len ys"
  by (simp_all add: len_def)

lemma len_nonneg [simp]: "0 \<le> len xs"
  by (simp add: len_def)

lemma concatE_simps [simp, pyeval]:
  "concatE [] = Inr []"
  "concatE (r # rs) = bindE r (\<lambda>b. bindE (concatE rs) (\<lambda>bs. Inr (b @ bs)))"
proof -
  show "concatE [] = Inr []" by (simp add: concatE_def)
  show "concatE (r # rs) = bindE r (\<lambda>b. bindE (concatE rs) (\<lambda>bs. Inr (b @ bs)))"
    unfolding concatE_def by (cases r; cases "mapE id rs") simp_all
qed

lemma bytes_of_Inr_iff: "bytes_of vs = Inr bs \<longleftrightarrow> (\<forall>v \<in> set vs. 0 \<le> v \<and> v < 256) \<and> bs = map byte vs"
proof -
  have "list_all2 (\<lambda>v b. (if 0 \<le> v \<and> v < 256 then Inr (byte v) else Inl ValueError) = (Inr b :: byte result)) vs bs
      \<longleftrightarrow> (\<forall>v \<in> set vs. 0 \<le> v \<and> v < 256) \<and> bs = map byte vs"
    by (induction vs arbitrary: bs) (auto simp: list_all2_Cons1 split: if_splits)
  then show ?thesis by (simp add: bytes_of_def mapE_Inr_iff)
qed

lemma bytes_of_ints_of: "bytes_of (ints_of bs) = Inr bs"
proof -
  have "\<And>v. v \<in> set (ints_of bs) \<Longrightarrow> 0 \<le> v \<and> v < 256"
    by (auto simp: ints_of_def uint_byte_bounds)
  then show ?thesis by (auto simp: bytes_of_Inr_iff ints_of_def comp_def)
qed

section \<open>Text\<close>

text \<open>
  A Python \<^verbatim>\<open>str\<close> is a list of code points. The literals of the source are
  written \<open>ascii ''..''\<close>; comparison of two literals is decided by \<open>ascii_eq\<close>.
\<close>

type_synonym ustr = "nat list"

definition ascii :: "string \<Rightarrow> ustr" where
  "ascii s = map of_char s"

lemma ascii_eq [simp, pyeval]: "ascii s = ascii t \<longleftrightarrow> s = t"
proof -
  have "inj (of_char :: char \<Rightarrow> nat)"
    by (rule injI) simp
  then show ?thesis by (simp add: ascii_def inj_map_eq_map)
qed

end
