(* ===== verification/Json.thy ===== *)
theory Json
  imports Prelude
begin

text \<open>
  The values \<^verbatim>\<open>json.loads\<close> produces, as Python sees them: Booleans, integers and
  floats are different types that \<^verbatim>\<open>==\<close> compares by number, objects compare as
  dictionaries without regard to the order of their keys. A finite float is the
  dyadic rational \<open>m * 2 ^ e\<close> (\<open>JFloat m e\<close>); NaN and the infinities are left out.
  Object keys are byte strings, text values are lists of code points.
\<close>

datatype json =
    JNull
  | JBool bool
  | JInt int
  | JFloat int int
  | JStr ustr
  | JArr "json list"
  | JObj "(string \<times> json) list"

abbreviation jtext :: "string \<Rightarrow> json" where
  "jtext s \<equiv> JStr (ascii s)"

section \<open>Access\<close>

fun jkeys :: "json \<Rightarrow> string list" where
  "jkeys (JObj kvs) = List.map fst kvs"
| "jkeys _ = []"

fun is_obj :: "json \<Rightarrow> bool" where
  "is_obj (JObj _) = True"
| "is_obj _ = False"

fun is_arr :: "json \<Rightarrow> bool" where
  "is_arr (JArr _) = True"
| "is_arr _ = False"

fun is_str :: "json \<Rightarrow> bool" where
  "is_str (JStr _) = True"
| "is_str _ = False"

text \<open>\<open>type(v) is bool\<close> and \<open>type(v) is int\<close>: a Boolean is not an integer here.\<close>

fun is_bool :: "json \<Rightarrow> bool" where
  "is_bool (JBool _) = True"
| "is_bool _ = False"

fun is_int :: "json \<Rightarrow> bool" where
  "is_int (JInt _) = True"
| "is_int _ = False"

text \<open>\<^verbatim>\<open>value[key]\<close> on a parsed value, and \<^verbatim>\<open>value.get(key)\<close> on an object.\<close>

fun jget :: "string \<Rightarrow> json \<Rightarrow> json result" where
  "jget k (JObj kvs) = (case map_of kvs k of None \<Rightarrow> Inl KeyError | Some v \<Rightarrow> Inr v)"
| "jget k _ = Inl TypeError"

fun jget_opt :: "string \<Rightarrow> json \<Rightarrow> json" where
  "jget_opt k (JObj kvs) = (case map_of kvs k of None \<Rightarrow> JNull | Some v \<Rightarrow> v)"
| "jget_opt k _ = JNull"

section \<open>Equality\<close>

text \<open>Numbers as dyadic rationals \<open>(m, e)\<close>; Python compares their values.\<close>

fun num_of :: "json \<Rightarrow> (int \<times> int) option" where
  "num_of (JBool b) = Some (if b then 1 else 0, 0)"
| "num_of (JInt i) = Some (i, 0)"
| "num_of (JFloat m e) = Some (m, e)"
| "num_of _ = None"

definition num_eq :: "int \<times> int \<Rightarrow> int \<times> int \<Rightarrow> bool" where
  "num_eq a b = (let k = min (snd a) (snd b)
                 in fst a * 2 ^ nat (snd a - k) = fst b * 2 ^ nat (snd b - k))"

text \<open>\<^verbatim>\<open>a == b\<close>.\<close>

function py_eq :: "json \<Rightarrow> json \<Rightarrow> bool" where
  "py_eq a b =
     (case (num_of a, num_of b) of
        (Some x, Some y) \<Rightarrow> num_eq x y
      | (Some _, None) \<Rightarrow> False
      | (None, Some _) \<Rightarrow> False
      | (None, None) \<Rightarrow>
          (case (a, b) of
             (JNull, JNull) \<Rightarrow> True
           | (JStr s, JStr t) \<Rightarrow> s = t
           | (JArr xs, JArr ys) \<Rightarrow>
               length xs = length ys \<and> list_all (\<lambda>(x, y). py_eq x y) (zip xs ys)
           | (JObj xs, JObj ys) \<Rightarrow>
               length xs = length ys
               \<and> list_all (\<lambda>(k, v). case map_of ys k of None \<Rightarrow> False | Some w \<Rightarrow> py_eq v w) xs
           | _ \<Rightarrow> False))"
  by pat_completeness auto

lemma size_zip_fst: "(x, y) \<in> set (zip xs ys) \<Longrightarrow> size x < Suc (size_list size xs)"
  by (meson less_SucI set_zip_leftD size_list_estimation' order_refl less_Suc_eq_le)

lemma size_pair_snd:
  "(k, v) \<in> set (xs :: (string \<times> json) list) \<Longrightarrow> size v < Suc (size_list (size_prod (\<lambda>_. 0) size) xs)"
proof (induction xs)
  case Nil
  then show ?case by simp
next
  case (Cons a xs)
  then show ?case by (cases a) auto
qed

termination py_eq
  by (relation "measure (\<lambda>(a, b). size a)") (auto dest: size_zip_fst size_pair_snd)

declare py_eq.simps [simp del]

lemma py_eq_simps [simp]:
  "py_eq JNull JNull"
  "py_eq (JStr s) (JStr t) \<longleftrightarrow> s = t"
  "py_eq (JInt i) (JInt j) \<longleftrightarrow> i = j"
  "py_eq (JBool b) (JBool c) \<longleftrightarrow> b = c"
  "py_eq (JBool b) (JInt i) \<longleftrightarrow> i = (if b then 1 else 0)"
  "py_eq (JArr xs) (JArr ys) \<longleftrightarrow>
     length xs = length ys \<and> list_all (\<lambda>(x, y). py_eq x y) (zip xs ys)"
  "py_eq (JObj as) (JObj bs) \<longleftrightarrow> length as = length bs
     \<and> list_all (\<lambda>(k, v). case map_of bs k of None \<Rightarrow> False | Some w \<Rightarrow> py_eq v w) as"
  by (simp_all add: num_eq_def py_eq.simps[of JNull] py_eq.simps[of "JStr s"]
        py_eq.simps[of "JInt i"] py_eq.simps[of "JBool b"] py_eq.simps[of "JArr xs"]
        py_eq.simps[of "JObj as"])

lemma py_eq_null: "py_eq JNull v \<longleftrightarrow> v = JNull"
  by (cases v) (auto simp: py_eq.simps[of JNull])

lemma py_eq_str: "py_eq (JStr s) v \<longleftrightarrow> v = JStr s"
  by (cases v) (auto simp: py_eq.simps[of "JStr s"])

lemma py_eq_arr:
  "py_eq (JArr xs) v \<longleftrightarrow> (\<exists>ys. v = JArr ys \<and> list_all2 py_eq xs ys)"
  by (cases v) (auto simp: py_eq.simps[of "JArr xs"] list_all2_iff list_all_iff)

lemma py_eq_obj:
  "py_eq (JObj as) v \<longleftrightarrow> (\<exists>bs. v = JObj bs \<and> length as = length bs
     \<and> (\<forall>(k, x) \<in> set as. \<exists>y. map_of bs k = Some y \<and> py_eq x y))"
  by (cases v) (auto simp: py_eq.simps[of "JObj as"] list_all_iff split: option.splits)

text \<open>Equal as JSON documents: the same types and values, objects up to key order.\<close>

function same :: "json \<Rightarrow> json \<Rightarrow> bool" where
  "same a b =
     (case (a, b) of
        (JArr xs, JArr ys) \<Rightarrow>
          length xs = length ys \<and> list_all (\<lambda>(x, y). same x y) (zip xs ys)
      | (JObj xs, JObj ys) \<Rightarrow>
          length xs = length ys
          \<and> list_all (\<lambda>(k, v). case map_of ys k of None \<Rightarrow> False | Some w \<Rightarrow> same v w) xs
      | _ \<Rightarrow> a = b)"
  by pat_completeness auto

termination same
  by (relation "measure (\<lambda>(a, b). size a)") (auto dest: size_zip_fst size_pair_snd)

declare same.simps [simp del]

lemma same_arr: "same (JArr xs) v \<longleftrightarrow> (\<exists>ys. v = JArr ys \<and> list_all2 same xs ys)"
  by (cases v) (auto simp: same.simps[of "JArr xs"] list_all2_iff list_all_iff)

lemma same_obj:
  "same (JObj as) v \<longleftrightarrow> (\<exists>bs. v = JObj bs \<and> length as = length bs
     \<and> (\<forall>(k, x) \<in> set as. \<exists>y. map_of bs k = Some y \<and> same x y))"
  by (cases v) (auto simp: same.simps[of "JObj as"] list_all_iff split: option.splits)

lemma same_atom:
  "same JNull v \<longleftrightarrow> v = JNull" "same (JBool b) v \<longleftrightarrow> v = JBool b"
  "same (JInt i) v \<longleftrightarrow> v = JInt i" "same (JStr s) v \<longleftrightarrow> v = JStr s"
  by (auto simp: same.simps[of JNull] same.simps[of "JBool b"] same.simps[of "JInt i"]
        same.simps[of "JStr s"] split: json.splits)

end
