(* ===== verification/Ledger.thy ===== *)
theory Ledger
  imports Prelude
begin

text \<open>
  The contract every write history of the oracles keeps: a write that goes out
  is open until it is settled, a settled entry is never changed or dropped, and
  no location is lost or invented on the way. The locale states it over an
  arbitrary state; the conversation and progress oracles interpret it on their own
  step functions.
\<close>

datatype outcome = Success | Failure int | ReplayedUnknown | GlobalRejected | Pending

text \<open>The locations that events made open along a run, oldest first.\<close>

fun sents :: "('s \<Rightarrow> 'e \<Rightarrow> 's) \<Rightarrow> ('s \<Rightarrow> 'e \<Rightarrow> 'l list) \<Rightarrow> 's \<Rightarrow> 'e list \<Rightarrow> 'l list" where
  "sents step sent s [] = []"
| "sents step sent s (e # es) = sent s e @ sents step sent (step s e) es"

text \<open>What a snapshot shows: the settled entries, then the open ones as pending.\<close>

definition show_attempts :: "('l \<times> outcome) list \<Rightarrow> 'l list \<Rightarrow> ('l \<times> outcome) list" where
  "show_attempts closed waiting = closed @ List.map (\<lambda>l. (l, Pending)) waiting"

lemma show_attempts_locations [simp]:
  "List.map fst (show_attempts closed waiting) = List.map fst closed @ waiting"
  by (simp add: show_attempts_def comp_def)

lemma map_fst_const [simp]: "List.map fst (List.map (\<lambda>l. (l, c)) ls) = ls"
  by (induction ls) auto

lemma zip_replicate_map: "n = length ls \<Longrightarrow> zip ls (replicate n o') = List.map (\<lambda>l. (l, o')) ls"
  by (simp add: zip_replicate2)

lemma zip_without: "x \<notin> set ys \<Longrightarrow> x \<notin> snd ` set (zip xs ys)"
  by (auto dest: set_zip_rightD)

lemma count_const: "count_list (List.map (\<lambda>_. c) xs) c = length xs"
  by (induction xs) simp_all

locale ledger =
  fixes settled :: "'s \<Rightarrow> ('l \<times> outcome) list"
    and outstanding :: "'s \<Rightarrow> 'l list"
    and step :: "'s \<Rightarrow> 'e \<Rightarrow> 's"
    and sent :: "'s \<Rightarrow> 'e \<Rightarrow> 'l list"
  assumes conserve: "List.map fst (settled (step s e)) @ outstanding (step s e)
      = List.map fst (settled s) @ outstanding s @ sent s e"
    and grows: "\<exists>new. settled (step s e) = settled s @ new \<and> Pending \<notin> snd ` set new"
    and exclusive: "sent s e \<noteq> [] \<Longrightarrow> outstanding s = []"
begin

lemma run_conserve:
  "List.map fst (settled (foldl step s es)) @ outstanding (foldl step s es)
     = List.map fst (settled s) @ outstanding s @ sents step sent s es"
proof (induction es arbitrary: s)
  case Nil
  show ?case by simp
next
  case (Cons e es)
  have "List.map fst (settled (foldl step (step s e) es)) @ outstanding (foldl step (step s e) es)
      = (List.map fst (settled (step s e)) @ outstanding (step s e)) @ sents step sent (step s e) es"
    using Cons by simp
  then show ?case by (simp add: conserve)
qed

lemma run_grows: "\<exists>new. settled (foldl step s es) = settled s @ new \<and> Pending \<notin> snd ` set new"
proof (induction es arbitrary: s)
  case Nil
  show ?case by simp
next
  case (Cons e es)
  obtain n1 where n1: "settled (step s e) = settled s @ n1" "Pending \<notin> snd ` set n1"
    using grows by blast
  obtain n2 where n2: "settled (foldl step (step s e) es) = settled (step s e) @ n2"
      "Pending \<notin> snd ` set n2"
    using Cons by blast
  have "settled (foldl step s (e # es)) = settled s @ (n1 @ n2)"
    using n1 n2 by simp
  moreover have "Pending \<notin> snd ` set (n1 @ n2)" using n1 n2 by (simp add: image_Un)
  ultimately show ?case by blast
qed

lemma settled_stays:
  "i < length (settled s) \<Longrightarrow> settled (foldl step s es) ! i = settled s ! i"
  using run_grows[of s es] by (auto simp: nth_append)

lemma attempts_from_empty:
  assumes "settled s = []" "outstanding s = []"
  shows "List.map fst (show_attempts (settled (foldl step s es)) (outstanding (foldl step s es)))
    = sents step sent s es"
  using run_conserve[of s es] assms by simp

end

end
