(* ===== verification/Wire.thy ===== *)
theory Wire
  imports Prelude
begin

text \<open>
  Classic S7 PDUs as byte strings: the header of \<^verbatim>\<open>conversation_conformance.packet\<close>
  and of the helpers of \<^verbatim>\<open>run.py\<close>, the independent section decoder of
  \<^verbatim>\<open>sequence_conformance.py\<close>, and the lemmas that relate them.
\<close>

section \<open>Building\<close>

definition packet :: "int \<Rightarrow> int \<Rightarrow> bytes \<Rightarrow> bytes \<Rightarrow> bytes result" where
  "packet kind reference parameters data =
     concatE [pack 1 0x32, pack 1 kind, pack 2 0, pack 2 reference,
       pack 2 (len parameters), pack 2 (len data),
       Inr (if kind = 3 then [0, 0] else []), Inr parameters, Inr data]"

definition s7_response :: "int \<Rightarrow> bytes \<Rightarrow> bytes \<Rightarrow> bytes result" where
  "s7_response reference parameters data =
     concatE [pack 1 0x32, pack 1 3, pack 2 0, pack 2 reference,
       pack 2 (len parameters), pack 2 (len data), pack 1 0, pack 1 0,
       Inr parameters, Inr data]"

definition s7_job :: "int \<Rightarrow> bytes \<Rightarrow> bytes \<Rightarrow> bytes result" where
  "s7_job reference parameters data =
     concatE [pack 1 0x32, pack 1 1, pack 2 0, pack 2 reference,
       pack 2 (len parameters), pack 2 (len data), Inr parameters, Inr data]"

section \<open>Taking apart\<close>

definition sections :: "bytes \<Rightarrow> int \<Rightarrow> int \<Rightarrow> (bytes \<times> bytes) result" where
  "sections pdu kind reference =
     (let header_size = (if kind = 3 then 12 else 10)
      in bindE (bytes_of [0x32, kind, 0, 0]) (\<lambda>magic.
         if length pdu < header_size \<or> take 4 pdu \<noteq> magic then Inl ValueError
         else
           let actual_reference = be_int (slice 4 6 pdu);
               parameter_size = nat (be_int (slice 6 8 pdu));
               data_size = nat (be_int (slice 8 10 pdu))
           in if actual_reference \<noteq> reference
                \<or> length pdu \<noteq> header_size + parameter_size + data_size
              then Inl ValueError
              else if kind = 3 \<and> slice 10 12 pdu \<noteq> [0, 0] then Inl ValueError
              else Inr (slice header_size (header_size + parameter_size) pdu,
                        drop (header_size + parameter_size) pdu)))"

section \<open>Layout\<close>

lemma pack1: "0 \<le> v \<Longrightarrow> v < 256 \<Longrightarrow> pack 1 v = Inr [byte v]"
  by (simp add: pack_def)

lemma pack2: "0 \<le> v \<Longrightarrow> v < 65536 \<Longrightarrow> pack 2 v = Inr (be_bytes 2 v)"
  by (simp add: pack_def)

lemma packet_ok:
  assumes "0 \<le> kind" "kind < 256" "0 \<le> reference" "reference < 65536"
    and "length parameters < 65536" "length data < 65536"
  shows "packet kind reference parameters data = Inr (byte 0x32 # byte kind # be_bytes 2 0
    @ be_bytes 2 reference @ be_bytes 2 (len parameters) @ be_bytes 2 (len data)
    @ (if kind = 3 then [0, 0] else []) @ parameters @ data)"
  using assms
  by (simp add: packet_def pack1 pack2 len_def del: be_bytes_numeral)

lemma s7_response_packet: "s7_response reference parameters data = packet 3 reference parameters data"
proof -
  have zero: "pack 1 0 = Inr [0]" by (simp add: pack_def byte_def)
  have "concatE (xs @ [pack 1 0, pack 1 0, Inr parameters, Inr data])
      = concatE (xs @ [Inr [0, 0], Inr parameters, Inr data])" for xs
    unfolding zero by (induction xs) simp_all
  from this[of "[pack 1 0x32, pack 1 3, pack 2 0, pack 2 reference,
       pack 2 (len parameters), pack 2 (len data)]"]
  show ?thesis unfolding s7_response_def packet_def by (simp only: append.simps if_True refl)
qed

lemma s7_job_packet: "s7_job reference parameters data = packet 1 reference parameters data"
  by (simp add: s7_job_def packet_def)

lemma packet_bounds:
  assumes "packet kind reference parameters data = Inr pdu"
  shows "0 \<le> kind" "kind < 256" "0 \<le> reference" "reference < 65536"
    "length parameters < 65536" "length data < 65536"
  using assms by (auto simp: packet_def len_def)

lemma packet_length:
  assumes "packet kind reference parameters data = Inr pdu"
  shows "length pdu = (if kind = 3 then 12 else 10) + length parameters + length data"
  using packet_ok[OF packet_bounds[OF assms]] assms
  by (auto simp del: be_bytes_numeral)

lemma byte_0 [simp]: "byte 0 = 0"
  by (simp add: byte_def)

lemma be_bytes_2_0 [simp]: "be_bytes 2 0 = [0, 0]"
  by (simp add: byte_def)

lemma be_int_2: "0 \<le> v \<Longrightarrow> v < 65536 \<Longrightarrow> be_int (be_bytes 2 v) = v"
  by (simp add: be_int_be_bytes del: be_bytes_numeral)

text \<open>The decoder inverts the encoder on every packet the encoder can build.\<close>

lemma sections_packet:
  assumes "packet kind reference parameters data = Inr pdu"
  shows "sections pdu kind reference = Inr (parameters, data)"
proof -
  note b = packet_bounds[OF assms]
  have pdu: "pdu = byte 0x32 # byte kind # 0 # 0 # be_bytes 2 reference
      @ be_bytes 2 (len parameters) @ be_bytes 2 (len data)
      @ (if kind = 3 then [0, 0] else []) @ parameters @ data"
    using packet_ok[OF b] assms by (simp del: be_bytes_numeral)
  obtain r1 r2 where r: "be_bytes 2 reference = [r1, r2]" by simp
  obtain p1 p2 where p: "be_bytes 2 (len parameters) = [p1, p2]" by simp
  obtain d1 d2 where d: "be_bytes 2 (len data) = [d1, d2]" by simp
  have bi: "be_int [r1, r2] = reference" "be_int [p1, p2] = len parameters" "be_int [d1, d2] = len data"
    using be_int_2[of reference] be_int_2[of "len parameters"] be_int_2[of "len data"] b r p d
    by (simp_all add: len_def del: be_bytes_numeral)
  have magic: "bytes_of [0x32, kind, 0, 0] = Inr [byte 0x32, byte kind, 0, 0]"
    using b by (simp add: bytes_of_Inr_iff)
  have drops: "drop (12 + k) (x1 # x2 # x3 # x4 # x5 # x6 # x7 # x8 # x9 # x10 # x11 # x12 # xs) = drop k xs"
    "drop (10 + k) (x1 # x2 # x3 # x4 # x5 # x6 # x7 # x8 # x9 # x10 # xs) = drop k xs"
    for k :: nat and x1 x2 x3 x4 x5 x6 x7 x8 x9 x10 x11 x12 and xs :: bytes
    by (simp_all add: numeral_eq_Suc)
  show ?thesis
    unfolding sections_def magic pdu r p d
    using bi by (simp add: slice_def Let_def len_def drops del: be_int_Cons)
qed

text \<open>What the decoder accepts is a packet: nothing else has this header.\<close>

lemma sections_split:
  assumes "sections pdu kind reference = Inr (parameters, data)"
  defines "h \<equiv> (if kind = 3 then 12 else 10)"
  defines "n \<equiv> nat (be_int (slice 6 8 pdu))"
  shows "length pdu = h + n + nat (be_int (slice 8 10 pdu))"
    and "parameters = slice h (h + n) pdu" and "data = drop (h + n) pdu"
    and "be_int (slice 4 6 pdu) = reference"
    and "kind = 3 \<Longrightarrow> slice 10 12 pdu = [0, 0]"
    and "bytes_of [0x32, kind, 0, 0] = Inr (take 4 pdu)"
  using assms(1) unfolding sections_def Let_def h_def n_def
  by (auto split: if_splits simp del: slice_0)

lemma sections_accepts:
  assumes "sections pdu kind reference = Inr (parameters, data)" "kind \<noteq> 3"
  shows "length pdu = 10 + length parameters + length data"
    and "pdu = take 10 pdu @ parameters @ data"
proof -
  note s = sections_split[OF assms(1)]
  define n where "n = nat (be_int (slice 6 8 pdu))"
  have l: "10 + n \<le> length pdu" using s(1) assms(2) by (simp add: n_def)
  have p: "parameters = take n (drop 10 pdu)" and d: "data = drop n (drop 10 pdu)"
    using s(2,3) assms(2) by (simp_all add: n_def slice_def add.commute)
  from p d have "parameters @ data = drop 10 pdu" by (simp only: append_take_drop_id)
  then show "pdu = take 10 pdu @ parameters @ data" by simp
  from p d l show "length pdu = 10 + length parameters + length data" by simp
qed

end
