(* ===== verification/Decimal.thy ===== *)
theory Decimal
  imports Prelude
begin

text \<open>
  Python's \<^verbatim>\<open>str(n)\<close> and \<^verbatim>\<open>int(s)\<close> on decimal text, zero padding, splitting and
  joining on a separator: what the plan tokens, the upload length fields and the
  canonical integer inputs are read and written with. Decimal digits outside
  ASCII, which \<^verbatim>\<open>int\<close> also accepts, are not digits here.
\<close>

section \<open>Writing\<close>

fun nat_str :: "nat \<Rightarrow> ustr" where
  "nat_str n = (if n < 10 then [48 + n] else nat_str (n div 10) @ [48 + n mod 10])"

declare nat_str.simps [simp del]

definition int_str :: "int \<Rightarrow> ustr" where
  "int_str i = (if i < 0 then 45 # nat_str (nat (- i)) else nat_str (nat i))"

text \<open>The format \<^verbatim>\<open>f"{n:0wd}"\<close> for \<open>0 \<le> n\<close>.\<close>

definition zero_pad :: "nat \<Rightarrow> nat \<Rightarrow> ustr" where
  "zero_pad w n = replicate (w - length (nat_str n)) 48 @ nat_str n"

section \<open>Reading\<close>

definition is_space :: "nat \<Rightarrow> bool" where
  "is_space c \<longleftrightarrow> 9 \<le> c \<and> c \<le> 13 \<or> 28 \<le> c \<and> c \<le> 32 \<or> c = 133 \<or> c = 160 \<or> c = 5760
     \<or> 8192 \<le> c \<and> c \<le> 8202 \<or> c \<in> {8232, 8233, 8239, 8287, 12288}"

definition is_digit :: "nat \<Rightarrow> bool" where
  "is_digit c \<longleftrightarrow> 48 \<le> c \<and> c \<le> 57"

definition strip :: "ustr \<Rightarrow> ustr" where
  "strip s = rev (dropWhile is_space (rev (dropWhile is_space s)))"

text \<open>Digits with single underscores between them; the flag says a digit came last.\<close>

fun read_digits :: "bool \<Rightarrow> nat \<Rightarrow> ustr \<Rightarrow> nat option" where
  "read_digits prev acc [] = (if prev then Some acc else None)"
| "read_digits prev acc (c # cs) =
     (if is_digit c then read_digits True (10 * acc + (c - 48)) cs
      else if c = 95 \<and> prev then read_digits False acc cs
      else None)"

definition py_int :: "ustr \<Rightarrow> int result" where
  "py_int s =
     (let read = (\<lambda>sg cs. case read_digits False 0 cs of
                    None \<Rightarrow> Inl ValueError | Some n \<Rightarrow> Inr (sg * int n))
      in case strip s of
           [] \<Rightarrow> Inl ValueError
         | c # cs \<Rightarrow> if c = 45 then read (-1) cs else if c = 43 then read 1 cs
                    else read 1 (c # cs))"

text \<open>\<^verbatim>\<open>int\<close> of a byte string: as of text, but only the ASCII spaces are stripped.\<close>

definition octet_space :: "byte \<Rightarrow> bool" where
  "octet_space b \<longleftrightarrow> 9 \<le> b \<and> b \<le> 13 \<or> b = 32"

definition octets_int :: "bytes \<Rightarrow> int result" where
  "octets_int bs =
     (let trimmed = rev (dropWhile octet_space (rev (dropWhile octet_space bs)));
          read = (\<lambda>sg cs. case read_digits False 0 (List.map unat cs) of None \<Rightarrow> Inl ValueError | Some n \<Rightarrow> Inr (sg * int n))
      in case trimmed of
           [] \<Rightarrow> Inl ValueError
         | c # cs \<Rightarrow> if c = 45 then read (-1) cs else if c = 43 then read 1 cs else read 1 (c # cs))"

section \<open>Splitting and joining\<close>

text \<open>\<^verbatim>\<open>s.split(sep)\<close> for a one-character separator and \<^verbatim>\<open>sep.join(parts)\<close>.\<close>

fun split_on :: "nat \<Rightarrow> ustr \<Rightarrow> ustr list" where
  "split_on sep [] = [[]]"
| "split_on sep (c # cs) =
     (if c = sep then [] # split_on sep cs
      else (case split_on sep cs of [] \<Rightarrow> [[c]] | p # ps \<Rightarrow> (c # p) # ps))"

fun join_with :: "nat \<Rightarrow> ustr list \<Rightarrow> ustr" where
  "join_with sep [] = []"
| "join_with sep [p] = p"
| "join_with sep (p # ps) = p @ sep # join_with sep ps"

section \<open>Round trips\<close>

lemma nat_str_small: "n < 10 \<Longrightarrow> nat_str n = [48 + n]"
  by (subst nat_str.simps) simp

lemma nat_str_step: "\<not> n < 10 \<Longrightarrow> nat_str n = nat_str (n div 10) @ [48 + n mod 10]"
  by (subst nat_str.simps) simp

lemma nat_str_digits: "\<forall>c \<in> set (nat_str n). is_digit c"
proof (induction n rule: nat_str.induct)
  case (1 n)
  have last: "is_digit (48 + n mod 10)"
    using mod_less_divisor[of 10 n] by (simp add: is_digit_def)
  show ?case
  proof (cases "n < 10")
    case True
    then show ?thesis by (simp add: nat_str_small is_digit_def)
  next
    case False
    then have "\<forall>c \<in> set (nat_str (n div 10)). is_digit c" by (rule 1)
    with False last show ?thesis by (simp add: nat_str_step)
  qed
qed

lemma nat_str_nonempty [simp]: "nat_str n \<noteq> []"
  by (cases "n < 10") (simp_all add: nat_str_small nat_str_step)

lemma read_digits_append:
  "\<forall>c \<in> set cs. is_digit c \<Longrightarrow> cs \<noteq> [] \<Longrightarrow>
     read_digits b acc (cs @ ds)
       = read_digits True (foldl (\<lambda>a c. 10 * a + (c - 48)) acc cs) ds"
proof (induction cs arbitrary: b acc)
  case Nil
  then show ?case by simp
next
  case (Cons c cs)
  then have step: "read_digits b acc ((c # cs) @ ds) = read_digits True (10 * acc + (c - 48)) (cs @ ds)"
    by simp
  show ?case
  proof (cases "cs = []")
    case True
    with step show ?thesis by simp
  next
    case False
    have "read_digits True (10 * acc + (c - 48)) (cs @ ds)
        = read_digits True (foldl (\<lambda>a c. 10 * a + (c - 48)) (10 * acc + (c - 48)) cs) ds"
      by (rule Cons.IH) (use Cons.prems False in auto)
    with step show ?thesis by simp
  qed
qed

lemma foldl_nat_str: "foldl (\<lambda>a c. 10 * a + (c - 48)) 0 (nat_str n) = n"
proof (induction n rule: nat_str.induct)
  case (1 n)
  show ?case by (cases "n < 10") (use 1 in \<open>simp_all add: nat_str_small nat_str_step\<close>)
qed

lemma read_nat_str: "read_digits b 0 (nat_str n) = Some n"
  using read_digits_append[OF nat_str_digits nat_str_nonempty, of b 0 n "[]"]
  by (simp add: foldl_nat_str)

lemma digit_not_space: "is_digit c \<Longrightarrow> \<not> is_space c"
  by (auto simp: is_digit_def is_space_def)

lemma strip_id:
  assumes "\<forall>c \<in> set s. \<not> is_space c"
  shows "strip s = s"
proof -
  have keep: "\<forall>c \<in> set t. \<not> is_space c \<Longrightarrow> dropWhile is_space t = t" for t
    by (cases t) auto
  from assms show ?thesis by (simp add: strip_def keep)
qed

lemma py_int_str: "py_int (int_str i) = Inr i"
proof (cases "i < 0")
  case True
  have "\<not> is_space (45 :: nat)" by (simp add: is_space_def)
  then have "strip (45 # nat_str (nat (- i))) = 45 # nat_str (nat (- i))"
    by (intro strip_id) (use nat_str_digits digit_not_space in auto)
  with True show ?thesis by (simp add: py_int_def int_str_def read_nat_str)
next
  case False
  have strip: "strip (nat_str n) = nat_str n" for n
    by (intro strip_id) (use nat_str_digits digit_not_space in auto)
  obtain c cs where cs: "nat_str (nat i) = c # cs" by (cases "nat_str (nat i)") auto
  then have "is_digit c" using nat_str_digits[of "nat i"] by simp
  then have "c \<noteq> 45" "c \<noteq> 43" by (auto simp: is_digit_def)
  moreover have "read_digits False 0 (c # cs) = Some (nat i)"
    using read_nat_str[of False "nat i"] cs by simp
  ultimately show ?thesis
    using False cs strip[of "nat i"] by (simp add: py_int_def int_str_def)
qed

lemma int_str_inj: "int_str i = int_str j \<longleftrightarrow> i = j"
  using py_int_str by (metis sum.inject(2))

lemma int_str_chars: "c \<in> set (int_str i) \<Longrightarrow> c = 45 \<or> is_digit c"
  using nat_str_digits by (auto simp: int_str_def split: if_splits)

lemma split_on_nonempty [simp]: "split_on sep s \<noteq> []"
  by (induction s) (auto split: list.splits)

lemma split_on_no_sep: "sep \<notin> set s \<Longrightarrow> split_on sep s = [s]"
  by (induction s) auto

lemma split_on_append: "sep \<notin> set p \<Longrightarrow> split_on sep (p @ sep # s) = p # split_on sep s"
  by (induction p) auto

lemma split_join:
  "ps \<noteq> [] \<Longrightarrow> \<forall>p \<in> set ps. sep \<notin> set p \<Longrightarrow> split_on sep (join_with sep ps) = ps"
  by (induction sep ps rule: join_with.induct) (auto simp: split_on_no_sep split_on_append)

lemma join_split: "join_with sep (split_on sep s) = s"
proof (induction s)
  case Nil
  show ?case by simp
next
  case (Cons c cs)
  obtain p ps where ps: "split_on sep cs = p # ps" by (cases "split_on sep cs") auto
  with Cons show ?case by (cases ps) auto
qed

lemma join_with_empty_iff: "join_with sep ps = [] \<longleftrightarrow> ps = [] \<or> ps = [[]]"
  by (induction sep ps rule: join_with.induct) auto

lemma nat_str_length: "n < 10 ^ w \<Longrightarrow> 0 < w \<Longrightarrow> length (nat_str n) \<le> w"
proof (induction n arbitrary: w rule: nat_str.induct)
  case (1 n)
  show ?case
  proof (cases "n < 10")
    case True
    with 1 show ?thesis by (simp add: nat_str_small)
  next
    case False
    with 1(2,3) obtain v where v: "w = Suc v" "0 < v"
      by (cases w; cases "w - 1") auto
    with 1(2) have "n div 10 < 10 ^ v" by (simp add: less_mult_imp_div_less mult.commute)
    from 1(1)[OF False this v(2)] v False show ?thesis by (simp add: nat_str_step)
  qed
qed

lemma length_zero_pad: "n < 10 ^ w \<Longrightarrow> 0 < w \<Longrightarrow> length (zero_pad w n) = w"
  using nat_str_length[of n w] by (simp add: zero_pad_def)

lemma read_zeros: "read_digits b 0 (replicate k 48 @ nat_str n) = Some n"
proof (induction k arbitrary: b)
  case 0
  show ?case by (simp add: read_nat_str)
next
  case (Suc k)
  then show ?case by (simp add: is_digit_def)
qed

lemma py_int_zero_pad: "py_int (zero_pad w n) = Inr (int n)"
proof -
  have digs: "\<forall>c \<in> set (zero_pad w n). is_digit c"
    using nat_str_digits by (auto simp: zero_pad_def is_digit_def)
  then have strip: "strip (zero_pad w n) = zero_pad w n"
    by (intro strip_id) (auto simp: digit_not_space)
  obtain c cs where cs: "zero_pad w n = c # cs"
    by (cases "zero_pad w n") (auto simp: zero_pad_def)
  with digs have "c \<noteq> 45" "c \<noteq> 43" by (auto simp: is_digit_def)
  moreover have "read_digits False 0 (c # cs) = Some n"
    using read_zeros[of False "w - length (nat_str n)" n] cs by (simp only: zero_pad_def)
  ultimately show ?thesis using strip cs by (simp add: py_int_def)
qed

end
