(* ===== verification/Conversation.thy ===== *)
theory Conversation
  imports Json Ledger Wire Decimal
begin

text \<open>
  \<^verbatim>\<open>integration/conversation_conformance.py\<close>: the validators of the corpus objects,
  the independent request encoder, and the history machine \<^verbatim>\<open>trace\<close>, with its
  lifecycle, its replay rule and its write ledger. A corpus event is first read
  into the datatype \<open>event\<close> (the branch heads and validations of \<^verbatim>\<open>trace\<close>) and
  then stepped (the branch bodies).
\<close>

section \<open>Validators\<close>

fun arr_of :: "json \<Rightarrow> json list result" where
  "arr_of (JArr xs) = Inr xs"
| "arr_of _ = Inl ValueError"

lemma arr_of_Inr_iff [simp]: "arr_of v = Inr xs \<longleftrightarrow> v = JArr xs"
  by (cases v) auto

definition shape :: "json \<Rightarrow> string list \<Rightarrow> unit result" where
  "shape v keys = guardE (is_obj v \<and> set (jkeys v) = set keys) ValueError"

definition integer :: "json \<Rightarrow> int \<Rightarrow> int result" where
  "integer v maximum =
     (case v of JInt i \<Rightarrow> if 0 \<le> i \<and> i \<le> maximum then Inr i else Inl ValueError
              | _ \<Rightarrow> Inl ValueError)"

definition octets :: "json \<Rightarrow> bytes result" where
  "octets v =
     bindE (arr_of v) (\<lambda>xs.
     bindE (guardE (length xs \<le> 65535) ValueError) (\<lambda>_.
     mapE (\<lambda>x. bindE (integer x 255) (\<lambda>i. Inr (byte i))) xs))"

record mem_range =
  mr_db :: int
  mr_start :: int
  mr_count :: int

record location =
  loc_range :: mem_range
  loc_item :: "int option"
  loc_offset :: int

definition memory_range :: "json \<Rightarrow> mem_range result" where
  "memory_range v =
     bindE (shape v [''db_number'', ''start'', ''count'']) (\<lambda>_.
     bindE (jget ''db_number'' v) (\<lambda>d. bindE (integer d 65535) (\<lambda>db.
     bindE (jget ''start'' v) (\<lambda>s. bindE (integer s 0x1FFFFF) (\<lambda>start.
     bindE (jget ''count'' v) (\<lambda>c. bindE (integer c 65535) (\<lambda>cnt.
     Inr \<lparr>mr_db = db, mr_start = start, mr_count = cnt\<rparr>)))))))"

definition location :: "json \<Rightarrow> location result" where
  "location v =
     bindE (shape v [''range'', ''item_index'', ''chunk_byte_offset'']) (\<lambda>_.
     bindE (jget ''range'' v) (\<lambda>r. bindE (memory_range r) (\<lambda>rng.
     bindE (jget ''item_index'' v) (\<lambda>i.
     bindE (if i \<noteq> JNull then bindE (integer i 0xFFFFFFFF) (\<lambda>k. Inr (Some k)) else Inr None) (\<lambda>item.
     bindE (jget ''chunk_byte_offset'' v) (\<lambda>o'. bindE (integer o' 0xFFFFFFFF) (\<lambda>off.
     Inr \<lparr>loc_range = rng, loc_item = item, loc_offset = off\<rparr>)))))))"

section \<open>The independent encoder\<close>

definition address :: "mem_range \<Rightarrow> bytes result" where
  "address v = concatE [Inr [0x12, 0x0a, 0x10, 0x02], pack 2 (mr_count v), pack 2 (mr_db v),
     pack 1 0x84, to_bytes 3 (mr_start v * 8)]"

definition payload :: "mem_range \<Rightarrow> bytes" where
  "payload v = List.map (\<lambda>index. byte ((mr_start v * 7 + int index * 29) mod 256)) [0..<nat (mr_count v)]"

fun write_items :: "mem_range list \<Rightarrow> bytes result" where
  "write_items [] = Inr []"
| "write_items (item # rest) =
     (let content = payload item
      in concatE [Inr [0, 4], pack 2 (len content * 8), Inr content,
           Inr (if rest \<noteq> [] \<and> odd (length content) then [0] else []), write_items rest])"

definition request :: "int \<Rightarrow> mem_range list \<Rightarrow> bool \<Rightarrow> bytes option result" where
  "request reference ranges write =
     (if ranges = [] \<or> length ranges > 20 then Inr None
      else if list_ex (\<lambda>item. mr_count item = 0 \<or> mr_start item + mr_count item > 0x200000
                \<or> write \<and> mr_count item * 8 > 65535) ranges then Inr None
      else
        bindE (bytes_of [if write then 5 else 4, len ranges]) (\<lambda>hd'.
        bindE (concatE (List.map address ranges)) (\<lambda>specs.
        bindE (if write then write_items ranges else Inr []) (\<lambda>data.
        if length data > 65535 then Inr None
        else bindE (packet 1 reference (hd' @ specs) data) (\<lambda>pdu. Inr (Some pdu))))))"

text \<open>\<open>wire\<close> compares the corpus bytes with the independent encoding.\<close>

definition wire :: "json \<Rightarrow> bytes option \<Rightarrow> unit result" where
  "wire v expected =
     (case expected of
        None \<Rightarrow> guardE (v = JNull) ValueError
      | Some bs \<Rightarrow> if v = JNull then Inl ValueError
                   else bindE (octets v) (\<lambda>actual. guardE (actual = bs) ValueError))"

section \<open>Events\<close>

datatype lifecycle = Connected | Disconnected | Closed

datatype lifecycle_event = Disconnect | TransportClosed | Reconnected

datatype error_kind =
    InvalidInput | ProtocolError | PlcRejected | Timeout | DisconnectedError
  | LifecycleError | TransportError | OtherError

datatype safety = ReadOnly | PotentiallyMutating

datatype event =
    Lifecycle lifecycle_event
  | Retry safety bool error_kind int
  | Send int "location list" "bytes option"
  | Acknowledge int int bytes
  | Read int mem_range bytes

fun enum_of :: "(string \<times> 'a) list \<Rightarrow> json \<Rightarrow> 'a result" where
  "enum_of [] v = Inl ValueError"
| "enum_of ((name, a) # rest) v = (if v = jtext name then Inr a else enum_of rest v)"

definition error_kinds :: "(string \<times> error_kind) list" where
  "error_kinds = [(''invalid-input'', InvalidInput), (''protocol'', ProtocolError),
     (''plc-rejected'', PlcRejected), (''timeout'', Timeout), (''disconnected'', DisconnectedError),
     (''lifecycle'', LifecycleError), (''transport'', TransportError), (''other'', OtherError)]"

fun bool_of :: "json \<Rightarrow> bool result" where
  "bool_of (JBool b) = Inr b"
| "bool_of _ = Inl ValueError"

definition parse_lifecycle :: "json \<Rightarrow> event result" where
  "parse_lifecycle e =
     bindE (shape e [''operation'', ''event'']) (\<lambda>_.
     bindE (jget ''event'' e) (\<lambda>name.
     bindE (enum_of [(''disconnect'', Disconnect), (''transport-closed'', TransportClosed),
                     (''reconnected'', Reconnected)] name) (\<lambda>ev. Inr (Lifecycle ev))))"

definition parse_retry :: "json \<Rightarrow> event result" where
  "parse_retry e =
     bindE (shape e [''operation'', ''safety'', ''allow_potentially_mutating'', ''error_kind'', ''remaining'']) (\<lambda>_.
     bindE (jget ''safety'' e) (\<lambda>s.
     bindE (jget ''allow_potentially_mutating'' e) (\<lambda>a.
     bindE (jget ''error_kind'' e) (\<lambda>k.
     bindE (enum_of [(''read-only'', ReadOnly), (''potentially-mutating'', PotentiallyMutating)] s) (\<lambda>safety.
     bindE (bool_of a) (\<lambda>allow.
     bindE (enum_of error_kinds k) (\<lambda>kind.
     bindE (jget ''remaining'' e) (\<lambda>r. bindE (integer r 0xFFFFFFFF) (\<lambda>remaining.
     Inr (Retry safety allow kind remaining))))))))))"

definition parse_send :: "json \<Rightarrow> event result" where
  "parse_send e =
     bindE (shape e [''operation'', ''reference'', ''locations'', ''request_pdu'']) (\<lambda>_.
     bindE (jget ''reference'' e) (\<lambda>r. bindE (integer r 65535) (\<lambda>reference.
     bindE (jget ''locations'' e) (\<lambda>ls. bindE (arr_of ls) (\<lambda>vs.
     bindE (guardE (length vs \<le> 20) ValueError) (\<lambda>_.
     bindE (mapE location vs) (\<lambda>locations.
     bindE (request reference (List.map loc_range locations) True) (\<lambda>encoded.
     bindE (jget ''request_pdu'' e) (\<lambda>w. bindE (wire w encoded) (\<lambda>_.
     Inr (Send reference locations encoded)))))))))))"

definition parse_acknowledge :: "json \<Rightarrow> event result" where
  "parse_acknowledge e =
     bindE (shape e [''operation'', ''reference'', ''count'', ''codes'', ''response_pdu'']) (\<lambda>_.
     bindE (jget ''reference'' e) (\<lambda>r. bindE (integer r 65535) (\<lambda>reference.
     bindE (jget ''count'' e) (\<lambda>c. bindE (integer c 255) (\<lambda>cnt.
     bindE (jget ''codes'' e) (\<lambda>cs. bindE (octets cs) (\<lambda>codes.
     bindE (bytes_of [5, cnt]) (\<lambda>parameters.
     bindE (packet 3 reference parameters codes) (\<lambda>expected.
     bindE (jget ''response_pdu'' e) (\<lambda>w. bindE (wire w (Some expected)) (\<lambda>_.
     Inr (Acknowledge reference cnt codes))))))))))))"

definition parse_read :: "json \<Rightarrow> event result" where
  "parse_read e =
     bindE (shape e [''operation'', ''reference'', ''range'', ''payload'', ''request_pdu'', ''response_pdu'']) (\<lambda>_.
     bindE (jget ''reference'' e) (\<lambda>r. bindE (integer r 65535) (\<lambda>reference.
     bindE (jget ''range'' e) (\<lambda>g. bindE (memory_range g) (\<lambda>item.
     bindE (jget ''payload'' e) (\<lambda>p. bindE (octets p) (\<lambda>content.
     bindE (request reference [item] False) (\<lambda>encoded.
     bindE (jget ''request_pdu'' e) (\<lambda>w. bindE (wire w encoded) (\<lambda>_.
     bindE (guardE (len content * 8 \<le> 65535) ValueError) (\<lambda>_.
     bindE (pack 2 (len content * 8)) (\<lambda>size.
     bindE (packet 3 reference [4, 1] ([0xff, 4] @ size @ content)) (\<lambda>expected.
     bindE (jget ''response_pdu'' e) (\<lambda>v. bindE (wire v (Some expected)) (\<lambda>_.
     Inr (Read reference item content))))))))))))))))"

definition parse_event :: "json \<Rightarrow> event result" where
  "parse_event e =
     (if \<not> is_obj e then Inl TypeError
      else let operation = jget_opt ''operation'' e
           in if operation = jtext ''lifecycle'' then parse_lifecycle e
              else if operation = jtext ''retry'' then parse_retry e
              else if operation = jtext ''send'' then parse_send e
              else if operation = jtext ''acknowledge'' then parse_acknowledge e
              else if operation = jtext ''read'' then parse_read e
              else Inl ValueError)"

section \<open>The history machine\<close>

datatype verdict =
    Accepted
  | Permitted bool
  | ReadPayload bytes
  | Rejected string

record conv =
  lifecycle_of :: lifecycle
  history :: "(location \<times> outcome) list"
  pending :: "location list"
  pending_reference :: "int option"

definition conv_init :: conv where
  "conv_init = \<lparr>lifecycle_of = Connected, history = [], pending = [], pending_reference = None\<rparr>"

definition code_outcome :: "byte \<Rightarrow> outcome" where
  "code_outcome code = (if code = 255 then Success else Failure (uint code))"

definition retryable :: "error_kind \<Rightarrow> bool" where
  "retryable kind \<longleftrightarrow> kind \<in> {Timeout, DisconnectedError, TransportError}"

definition lifecycle_step :: "lifecycle \<Rightarrow> lifecycle_event \<Rightarrow> lifecycle \<times> verdict" where
  "lifecycle_step l ev =
     (case ev of
        Disconnect \<Rightarrow> (Closed, Accepted)
      | TransportClosed \<Rightarrow> (if l \<noteq> Closed then Disconnected else l, Accepted)
      | Reconnected \<Rightarrow> if l = Disconnected then (Connected, Accepted)
                       else (l, Rejected ''lifecycle-transition''))"

definition retry_permitted :: "lifecycle \<Rightarrow> safety \<Rightarrow> bool \<Rightarrow> error_kind \<Rightarrow> int \<Rightarrow> bool" where
  "retry_permitted l safety allow kind remaining \<longleftrightarrow>
     l \<noteq> Closed \<and> remaining > 0 \<and> retryable kind \<and> (safety = ReadOnly \<or> allow)"

fun conv_step :: "conv \<Rightarrow> event \<Rightarrow> conv \<times> verdict" where
  "conv_step s (Lifecycle ev) =
     (let (l, out) = lifecycle_step (lifecycle_of s) ev in (s\<lparr>lifecycle_of := l\<rparr>, out))"
| "conv_step s (Retry safety allow kind remaining) =
     (let permitted = retry_permitted (lifecycle_of s) safety allow kind remaining
      in (if permitted \<and> safety = PotentiallyMutating
          then s\<lparr>history := history s @ List.map (\<lambda>item. (item, ReplayedUnknown)) (pending s),
                 pending := [], pending_reference := None\<rparr>
          else s, Permitted permitted))"
| "conv_step s (Send reference locations encoded) =
     (if lifecycle_of s \<noteq> Connected then (s, Rejected ''not-connected'')
      else if encoded = None then (s, Rejected ''request-codec'')
      else if pending s \<noteq> [] then (s, Rejected ''write-progress'')
      else (s\<lparr>pending := locations, pending_reference := Some reference\<rparr>, Accepted))"
| "conv_step s (Acknowledge reference cnt codes) =
     (if lifecycle_of s \<noteq> Connected then (s, Rejected ''not-connected'')
      else if (pending_reference s \<noteq> None \<and> Some reference \<noteq> pending_reference s)
           \<or> cnt \<noteq> len (pending s) \<or> length codes \<noteq> length (pending s)
      then (s, Rejected ''response-codec'')
      else (s\<lparr>history := history s @ zip (pending s) (List.map code_outcome codes),
              pending := [], pending_reference := None\<rparr>, Accepted))"
| "conv_step s (Read reference item content) =
     (s, if lifecycle_of s \<noteq> Connected then Rejected ''not-connected''
         else if pending s \<noteq> [] then Rejected ''write-pending''
         else if mr_count item = 0 then Rejected ''request-codec''
         else if len content \<noteq> mr_count item then Rejected ''response-codec''
         else ReadPayload content)"

record step =
  step_result :: verdict
  step_lifecycle :: lifecycle
  step_attempts :: "(location \<times> outcome) list"

definition snapshot :: "verdict \<Rightarrow> conv \<Rightarrow> step" where
  "snapshot out s = \<lparr>step_result = out, step_lifecycle = lifecycle_of s,
     step_attempts = show_attempts (history s) (pending s)\<rparr>"

fun trace_from :: "conv \<Rightarrow> json list \<Rightarrow> step list result" where
  "trace_from s [] = Inr []"
| "trace_from s (e # es) =
     bindE (parse_event e) (\<lambda>ev.
     let (s', out) = conv_step s ev
     in bindE (trace_from s' es) (\<lambda>rest. Inr (snapshot out s' # rest)))"

definition trace :: "json \<Rightarrow> step list result" where
  "trace v = bindE (arr_of v) (\<lambda>events.
     bindE (guardE (length events \<le> 1024) ValueError) (\<lambda>_. trace_from conv_init events))"

text \<open>The run of a list of events that have been read.\<close>

fun conv_run :: "conv \<Rightarrow> event list \<Rightarrow> step list" where
  "conv_run s [] = []"
| "conv_run s (e # es) =
     (let (s', out) = conv_step s e in snapshot out s' # conv_run s' es)"

abbreviation conv_next :: "conv \<Rightarrow> event \<Rightarrow> conv" where
  "conv_next s e \<equiv> fst (conv_step s e)"

section \<open>Reading events\<close>

text \<open>What reading guarantees: a send carries its own encoding.\<close>

fun event_ok :: "event \<Rightarrow> bool" where
  "event_ok (Send reference locations encoded) \<longleftrightarrow>
     request reference (List.map loc_range locations) True = Inr encoded \<and> length locations \<le> 20
     \<and> 0 \<le> reference \<and> reference \<le> 65535"
| "event_ok (Acknowledge reference cnt codes) \<longleftrightarrow>
     0 \<le> reference \<and> reference \<le> 65535 \<and> 0 \<le> cnt \<and> cnt \<le> 255"
| "event_ok _ \<longleftrightarrow> True"

lemma integer_Inr_iff [simp]: "integer v m = Inr i \<longleftrightarrow> v = JInt i \<and> 0 \<le> i \<and> i \<le> m"
  by (cases v) (auto simp: integer_def)

lemma parse_send_ok: "parse_send e = Inr ev \<Longrightarrow> event_ok ev"
  by (auto simp: parse_send_def mapE_Inr_iff list_all2_lengthD[symmetric])

lemma parse_acknowledge_ok: "parse_acknowledge e = Inr ev \<Longrightarrow> event_ok ev"
  by (auto simp: parse_acknowledge_def)

lemma parse_rest_ok:
  "parse_lifecycle e = Inr ev \<Longrightarrow> event_ok ev"
  "parse_retry e = Inr ev \<Longrightarrow> event_ok ev"
  "parse_read e = Inr ev \<Longrightarrow> event_ok ev"
  by (auto simp: parse_lifecycle_def parse_retry_def parse_read_def)

lemma parse_event_ok: "parse_event e = Inr ev \<Longrightarrow> event_ok ev"
  by (auto simp: parse_event_def Let_def parse_send_ok parse_acknowledge_ok parse_rest_ok
      split: if_splits)

lemma trace_from_run: "trace_from s es = bindE (mapE parse_event es) (\<lambda>evs. Inr (conv_run s evs))"
proof (induction es arbitrary: s)
  case Nil
  show ?case by simp
next
  case (Cons e es)
  then show ?case
    by (cases "parse_event e"; cases "mapE parse_event es") (auto split: prod.splits)
qed

lemma trace_run:
  "trace v = Inr steps \<longleftrightarrow> (\<exists>es evs. v = JArr es \<and> length es \<le> 1024
     \<and> mapE parse_event es = Inr evs \<and> steps = conv_run conv_init evs)"
  by (auto simp: trace_def trace_from_run)

lemma mapE_parse_ok: "mapE parse_event es = Inr evs \<Longrightarrow> \<forall>ev \<in> set evs. event_ok ev"
  by (blast intro: mapE_all parse_event_ok)

lemma conv_run_length [simp]: "length (conv_run s evs) = length evs"
  by (induction evs arbitrary: s) (auto split: prod.splits)

lemma conv_run_append:
  "conv_run s (xs @ ys) = conv_run s xs @ conv_run (foldl conv_next s xs) ys"
  by (induction xs arbitrary: s) (auto simp: Let_def split: prod.splits)

lemma conv_run_nth:
  assumes "i < length evs"
  shows "conv_run s evs ! i = (let t = foldl conv_next s (take i evs)
     in snapshot (snd (conv_step t (evs ! i))) (conv_next t (evs ! i)))"
proof -
  have "conv_run s evs = conv_run s (take i evs) @ conv_run (foldl conv_next s (take i evs)) (evs ! i # drop (Suc i) evs)"
    using assms by (metis conv_run_append id_take_nth_drop)
  then show ?thesis using assms by (simp add: nth_append Let_def split: prod.splits)
qed

lemma conv_run_attempts:
  assumes "i < length evs"
  shows "step_attempts (conv_run s evs ! i) = (let t = foldl conv_next s (take (Suc i) evs)
     in show_attempts (history t) (pending t))"
  using assms by (simp add: conv_run_nth snapshot_def Let_def take_Suc_conv_app_nth)

section \<open>The write ledger\<close>

text \<open>The locations an event makes open: those of a send the machine accepts.\<close>

fun conv_sent :: "conv \<Rightarrow> event \<Rightarrow> location list" where
  "conv_sent s (Send reference locations encoded) =
     (if snd (conv_step s (Send reference locations encoded)) = Accepted then locations else [])"
| "conv_sent s _ = []"

lemma map_fst_zip_eq [simp]:
  "length xs = length ys \<Longrightarrow> List.map fst (zip xs (List.map f ys)) = xs"
  by simp

interpretation conv_ledger: ledger history pending conv_next conv_sent
proof (unfold_locales, goal_cases)
  case (1 s e)
  then show ?case by (cases e) (auto simp: Let_def len_def comp_def split: prod.splits)
next
  case (2 s e)
  have "Pending \<notin> snd ` set (zip ls (List.map code_outcome cs))" for ls :: "location list" and cs
    by (auto simp: code_outcome_def dest!: set_zip_rightD split: if_splits)
  then show ?case by (cases e) (force simp: Let_def split: prod.splits)+
next
  case (3 s e)
  then show ?case by (cases e) (auto split: if_splits)
qed

fun accepted_locations :: "event list \<Rightarrow> step list \<Rightarrow> location list" where
  "accepted_locations (Send _ locations _ # evs) (st # steps) =
     (if step_result st = Accepted then locations else []) @ accepted_locations evs steps"
| "accepted_locations (_ # evs) (st # steps) = accepted_locations evs steps"
| "accepted_locations _ _ = []"

lemma sents_accepted: "sents conv_next conv_sent s evs = accepted_locations evs (conv_run s evs)"
proof (induction evs arbitrary: s)
  case Nil
  show ?case by simp
next
  case (Cons e es)
  then show ?case by (cases e) (auto simp: snapshot_def split: prod.splits)
qed

lemma take_conv_run: "take k (conv_run s evs) = conv_run s (take k evs)"
proof -
  have "conv_run s evs = conv_run s (take k evs) @ conv_run (foldl conv_next s (take k evs)) (drop k evs)"
    by (metis append_take_drop_id conv_run_append)
  then show ?thesis by (simp add: min_def)
qed

text \<open>C1: At every step of an accepted conversation the write attempts on show are exactly the
  locations of the sends accepted so far, in the order they were sent: no location is lost,
  repeated or invented by acknowledgements, replays and lifecycle events.\<close>
theorem conv_trace_conserves:
  assumes "trace (JArr es) = Inr steps" and "mapE parse_event es = Inr evs" and "i < length steps"
  shows "List.map fst (step_attempts (steps ! i))
    = accepted_locations (take (Suc i) evs) (take (Suc i) steps)"
proof -
  have steps: "steps = conv_run conv_init evs" using assms(1,2) by (auto simp: trace_run)
  then have i: "i < length evs" using assms(3) by simp
  show ?thesis
    using conv_ledger.attempts_from_empty[of conv_init "take (Suc i) evs"]
    by (simp add: steps conv_run_attempts[OF i] Let_def sents_accepted take_conv_run conv_init_def)
qed

text \<open>C2: An attempt that has been settled keeps its position and its outcome in every later
  snapshot.\<close>
theorem conv_settled_final:
  assumes "trace v = Inr steps" and "i \<le> j" and "j < length steps"
    and "k < length (step_attempts (steps ! i))" and "snd (step_attempts (steps ! i) ! k) \<noteq> Pending"
  shows "k < length (step_attempts (steps ! j))
    \<and> step_attempts (steps ! j) ! k = step_attempts (steps ! i) ! k"
proof -
  obtain evs where steps: "steps = conv_run conv_init evs" using assms(1) by (auto simp: trace_run)
  define s where "s = foldl conv_next conv_init (take (Suc i) evs)"
  define t where "t = foldl conv_next conv_init (take (Suc j) evs)"
  have "take (Suc j) evs = take (Suc i) evs @ take (j - i) (drop (Suc i) evs)"
    using assms(2) take_add[of "Suc i" "j - i" evs] by simp
  then have t: "t = foldl conv_next s (take (j - i) (drop (Suc i) evs))" by (simp add: t_def s_def)
  have ij: "i < length evs" "j < length evs" using assms(2,3) steps by auto
  have ai: "step_attempts (steps ! i) = show_attempts (history s) (pending s)"
    and aj: "step_attempts (steps ! j) = show_attempts (history t) (pending t)"
    using conv_run_attempts[OF ij(1)] conv_run_attempts[OF ij(2)] by (simp_all add: steps s_def t_def Let_def)
  have k: "k < length (history s)"
    using assms(4,5) by (cases "k < length (history s)") (simp_all add: ai show_attempts_def nth_append)
  obtain new where "history t = history s @ new" using conv_ledger.run_grows t by blast
  with k show ?thesis by (simp add: ai aj show_attempts_def nth_append)
qed

section \<open>Correlation\<close>

text \<open>Where the open locations of a state come from: the last accepted send.\<close>

definition pend_inv :: "event list \<Rightarrow> step list \<Rightarrow> conv \<Rightarrow> bool" where
  "pend_inv evs steps s \<longleftrightarrow> pending s = [] \<and> pending_reference s = None
     \<or> (\<exists>j r enc. j < length evs \<and> evs ! j = Send r (pending s) enc \<and> step_result (steps ! j) = Accepted
          \<and> pending_reference s = Some r)"

lemma pend_inv_mono: "pend_inv evs steps s \<Longrightarrow> length steps = length evs \<Longrightarrow> pend_inv (evs @ evs') (steps @ steps') s"
  by (auto simp: pend_inv_def nth_append)

lemma pend_inv_step:
  assumes "pend_inv evs steps s" "length steps = length evs"
  shows "pend_inv (evs @ [e]) (steps @ [snapshot (snd (conv_step s e)) (conv_next s e)]) (conv_next s e)"
proof (cases "pending (conv_next s e) = pending s \<and> pending_reference (conv_next s e) = pending_reference s")
  case True
  with pend_inv_mono[OF assms, of "[e]" "[snapshot (snd (conv_step s e)) (conv_next s e)]"]
  show ?thesis by (simp add: pend_inv_def)
next
  case False
  show ?thesis
  proof (cases e)
    case (Send r ls enc)
    with False have "conv_step s e = (s\<lparr>pending := ls, pending_reference := Some r\<rparr>, Accepted)"
      by (auto split: if_splits)
    with Send assms(2) show ?thesis
      by (auto simp: pend_inv_def snapshot_def nth_append intro!: exI[of _ "length evs"])
  qed (use False in \<open>auto simp: pend_inv_def Let_def split: prod.splits if_splits\<close>)
qed

lemma pend_inv_run: "pend_inv evs (conv_run conv_init evs) (foldl conv_next conv_init evs)"
proof (induction evs rule: rev_induct)
  case Nil
  show ?case by (simp add: pend_inv_def conv_init_def)
next
  case (snoc e es)
  from pend_inv_step[OF this, of e] show ?case
    by (cases "conv_step (foldl conv_next conv_init es) e") (simp add: conv_run_append)
qed

text \<open>C3: An acknowledgement the oracle accepts with at least one result code settles exactly the
  locations of an earlier accepted send with the same reference, one code per location in order.\<close>
theorem conv_acknowledge_correlated:
  assumes "trace (JArr es) = Inr steps" and "mapE parse_event es = Inr evs" and "i < length steps"
    and "evs ! i = Acknowledge r n codes" and "step_result (steps ! i) = Accepted" and "codes \<noteq> []"
  shows "\<exists>j ls enc before. j < i \<and> evs ! j = Send r ls enc \<and> step_result (steps ! j) = Accepted
    \<and> step_attempts (steps ! i) = before @ zip ls (List.map code_outcome codes) \<and> length ls = length codes"
proof -
  have steps: "steps = conv_run conv_init evs" using assms(1,2) by (auto simp: trace_run)
  then have i: "i < length evs" using assms(3) by simp
  define s where "s = foldl conv_next conv_init (take i evs)"
  have st: "steps ! i = snapshot (snd (conv_step s (evs ! i))) (conv_next s (evs ! i))"
    using conv_run_nth[OF i] by (simp add: steps s_def Let_def)
  with assms(4,5) have acc: "length codes = length (pending s)"
      "pending_reference s = None \<or> pending_reference s = Some r"
      "conv_next s (evs ! i) = s\<lparr>history := history s @ zip (pending s) (List.map code_outcome codes),
         pending := [], pending_reference := None\<rparr>"
    by (auto simp: snapshot_def split: if_splits)
  have "pend_inv (take i evs) (take i steps) s"
    using pend_inv_run[of "take i evs"] by (simp add: s_def steps take_conv_run)
  then obtain j enc where "j < i" "evs ! j = Send r (pending s) enc" "step_result (steps ! j) = Accepted"
    using acc assms(6) i by (auto simp: pend_inv_def)
  moreover have "step_attempts (steps ! i) = history s @ zip (pending s) (List.map code_outcome codes)"
    using st acc(3) by (simp add: snapshot_def show_attempts_def)
  ultimately show ?thesis using acc(1) by metis
qed

section \<open>Lifecycle and replay\<close>

lemma closed_step:
  assumes "lifecycle_of s = Closed"
  shows "lifecycle_of (conv_next s e) = Closed" and "history (conv_next s e) = history s"
    and "pending (conv_next s e) = pending s" and "snd (conv_step s e) \<noteq> Permitted True"
    and "snd (conv_step s e) \<noteq> ReadPayload p"
  using assms by (cases e; auto simp: lifecycle_step_def retry_permitted_def split: lifecycle_event.splits)+

lemma closed_run:
  "lifecycle_of s = Closed \<Longrightarrow> lifecycle_of (foldl conv_next s es) = Closed
     \<and> history (foldl conv_next s es) = history s \<and> pending (foldl conv_next s es) = pending s"
  by (induction es arbitrary: s) (simp_all add: closed_step)

text \<open>Closing is final: once a snapshot shows the closed lifecycle, every later snapshot is closed
  with the same attempts, no retry is permitted and no read payload is delivered.\<close>
lemma conv_closed_absorbing:
  assumes "trace v = Inr steps" and "i < j" and "j < length steps"
    and "step_lifecycle (steps ! i) = Closed"
  shows "step_lifecycle (steps ! j) = Closed \<and> step_attempts (steps ! j) = step_attempts (steps ! i)
    \<and> step_result (steps ! j) \<noteq> Permitted True \<and> (\<forall>p. step_result (steps ! j) \<noteq> ReadPayload p)"
proof -
  obtain evs where steps: "steps = conv_run conv_init evs" using assms(1) by (auto simp: trace_run)
  define s where "s = foldl conv_next conv_init (take (Suc i) evs)"
  define t where "t = foldl conv_next conv_init (take j evs)"
  have "take j evs = take (Suc i) evs @ take (j - Suc i) (drop (Suc i) evs)"
    using assms(2) take_add[of "Suc i" "j - Suc i" evs] by simp
  then have t: "t = foldl conv_next s (take (j - Suc i) (drop (Suc i) evs))" by (simp add: t_def s_def)
  have ij: "i < length evs" "j < length evs" using assms(2,3) steps by auto
  have si: "steps ! i = snapshot (snd (conv_step (foldl conv_next conv_init (take i evs)) (evs ! i))) s"
    and sj: "steps ! j = snapshot (snd (conv_step t (evs ! j))) (conv_next t (evs ! j))"
    using conv_run_nth[OF ij(1)] conv_run_nth[OF ij(2)] ij
    by (simp_all add: steps s_def t_def Let_def take_Suc_conv_app_nth)
  have cl: "lifecycle_of s = Closed" using assms(4) by (simp add: si snapshot_def)
  have ct: "lifecycle_of t = Closed" "history t = history s" "pending t = pending s"
    using closed_run[OF cl] by (simp_all add: t)
  show ?thesis using closed_step[OF ct(1), of "evs ! j"] ct
    by (simp add: si sj snapshot_def)
qed

definition allows_replay :: "event \<Rightarrow> bool" where
  "allows_replay ev = (case ev of Retry PotentiallyMutating allow _ _ \<Rightarrow> allow | _ \<Rightarrow> False)"

lemma code_outcome_not_replay: "ReplayedUnknown \<notin> snd ` set (zip ls (List.map code_outcome cs))"
  by (auto simp: code_outcome_def dest!: set_zip_rightD split: if_splits)

lemma no_replay_step:
  assumes "\<not> allows_replay e" "ReplayedUnknown \<notin> snd ` set (history s)"
  shows "ReplayedUnknown \<notin> snd ` set (history (conv_next s e))"
  using assms code_outcome_not_replay[of "pending s"]
  by (cases e) (auto simp: Let_def allows_replay_def retry_permitted_def image_Un
      split: prod.splits safety.splits)

lemma no_replay_run:
  "\<forall>e \<in> set es. \<not> allows_replay e \<Longrightarrow> ReplayedUnknown \<notin> snd ` set (history s)
     \<Longrightarrow> ReplayedUnknown \<notin> snd ` set (history (foldl conv_next s es))"
  by (induction es arbitrary: s) (simp_all add: no_replay_step)

text \<open>Unless some retry event explicitly allows a potentially mutating replay, no write attempt is
  ever recorded as replayed with an unknown outcome.\<close>

lemma conv_replay_needs_permission:
  assumes "trace (JArr es) = Inr steps" and "mapE parse_event es = Inr evs"
    and "\<forall>ev \<in> set evs. \<not> allows_replay ev" and "st \<in> set steps"
  shows "ReplayedUnknown \<notin> snd ` set (step_attempts st)"
proof -
  have steps: "steps = conv_run conv_init evs" using assms(1,2) by (auto simp: trace_run)
  obtain i where i: "i < length evs" "st = steps ! i"
    using assms(4) steps by (metis in_set_conv_nth conv_run_length)
  define t where "t = foldl conv_next conv_init (take (Suc i) evs)"
  have "ReplayedUnknown \<notin> snd ` set (history t)"
    unfolding t_def by (rule no_replay_run) (use assms(3) in \<open>auto simp: conv_init_def dest: in_set_takeD\<close>)
  then show ?thesis
    using conv_run_attempts[OF i(1)] i(2) by (auto simp: steps t_def Let_def show_attempts_def)
qed

section \<open>A conversation\<close>

definition ex_range :: json where
  "ex_range = JObj [(''db_number'', JInt 1), (''start'', JInt 10), (''count'', JInt 2)]"

definition ex_location :: json where
  "ex_location = JObj [(''range'', ex_range), (''item_index'', JInt 0), (''chunk_byte_offset'', JInt 0)]"

definition ex_loc :: location where
  "ex_loc = \<lparr>loc_range = \<lparr>mr_db = 1, mr_start = 10, mr_count = 2\<rparr>, loc_item = Some 0, loc_offset = 0\<rparr>"

definition ex_pdu :: bytes where
  "ex_pdu = [50,1,0,0,0,7,0,14,0,6,5,1,18,10,16,2,0,2,0,1,132,0,0,80,0,4,0,16,70,99]"

definition ex_send :: json where
  "ex_send = JObj [(''operation'', jtext ''send''), (''reference'', JInt 7),
     (''locations'', JArr [ex_location]),
     (''request_pdu'', JArr (List.map JInt [50,1,0,0,0,7,0,14,0,6,5,1,18,10,16,2,0,2,0,1,132,0,0,80,0,4,0,16,70,99]))]"

definition ex_acknowledge :: json where
  "ex_acknowledge = JObj [(''operation'', jtext ''acknowledge''), (''reference'', JInt 7),
     (''count'', JInt 1), (''codes'', JArr [JInt 255]),
     (''response_pdu'', JArr (List.map JInt [50,3,0,0,0,7,0,2,0,1,0,0,5,1,255]))]"

definition ex_disconnect :: json where
  "ex_disconnect = JObj [(''operation'', jtext ''lifecycle''), (''event'', jtext ''disconnect'')]"

lemmas read_defs = parse_event_def parse_send_def parse_acknowledge_def parse_lifecycle_def shape_def
  octets_def wire_def integer_def location_def memory_range_def

lemma ex_request: "request 7 [loc_range ex_loc] True = Inr (Some ex_pdu)"
  by (simp add: ex_loc_def ex_pdu_def request_def packet_def address_def payload_def bytes_of_def
      pack_def to_bytes_def byte_def upt_rec)

lemma ex_packet: "packet 3 7 [5, 1] [255] = Inr [50,3,0,0,0,7,0,2,0,1,0,0,5,1,255]"
  by (simp add: packet_def pack_def byte_def)

lemma ex_read_send: "parse_event ex_send = Inr (Send 7 [ex_loc] (Some ex_pdu))"
  using ex_request
  by (simp add: ex_send_def read_defs ex_location_def ex_range_def ex_loc_def ex_pdu_def byte_def insert_commute)

lemma ex_read_acknowledge: "parse_event ex_acknowledge = Inr (Acknowledge 7 1 [255])"
  by (simp add: ex_acknowledge_def read_defs bytes_of_def ex_packet byte_def insert_commute)

lemma ex_read_disconnect: "parse_event ex_disconnect = Inr (Lifecycle Disconnect)"
  by (simp add: ex_disconnect_def read_defs insert_commute)

definition ex_events :: "json list" where
  "ex_events = [ex_send, ex_acknowledge, ex_disconnect, ex_acknowledge]"

definition ex_evs :: "event list" where
  "ex_evs = [Send 7 [ex_loc] (Some ex_pdu), Acknowledge 7 1 [255], Lifecycle Disconnect, Acknowledge 7 1 [255]]"

definition ex_steps :: "step list" where
  "ex_steps =
     [\<lparr>step_result = Accepted, step_lifecycle = Connected, step_attempts = [(ex_loc, Pending)]\<rparr>,
      \<lparr>step_result = Accepted, step_lifecycle = Connected, step_attempts = [(ex_loc, Success)]\<rparr>,
      \<lparr>step_result = Accepted, step_lifecycle = Closed, step_attempts = [(ex_loc, Success)]\<rparr>,
      \<lparr>step_result = Rejected ''not-connected'', step_lifecycle = Closed, step_attempts = [(ex_loc, Success)]\<rparr>]"

lemma ex_read: "mapE parse_event ex_events = Inr ex_evs"
  by (simp add: ex_events_def ex_evs_def ex_read_send ex_read_acknowledge ex_read_disconnect)

lemma ex_trace: "trace (JArr ex_events) = Inr ex_steps"
proof -
  have "conv_run conv_init ex_evs = ex_steps"
    by (simp add: ex_evs_def ex_steps_def conv_init_def snapshot_def show_attempts_def code_outcome_def
        lifecycle_step_def)
  then show ?thesis using ex_read by (simp add: trace_run) (simp add: ex_events_def)
qed

theorem conv_trace_conserves_witness:
  "List.map fst (step_attempts (ex_steps ! 1)) = accepted_locations (take 2 ex_evs) (take 2 ex_steps)
     \<and> accepted_locations (take 2 ex_evs) (take 2 ex_steps) = [ex_loc]"
  using conv_trace_conserves[OF ex_trace ex_read, of 1]
  by (simp add: ex_steps_def ex_evs_def numeral_2_eq_2)

theorem conv_settled_final_witness:
  "step_attempts (ex_steps ! 3) ! 0 = (ex_loc, Success)"
  using conv_settled_final[OF ex_trace, of 1 3 0] by (simp add: ex_steps_def)

theorem conv_acknowledge_correlated_witness:
  "\<exists>j ls enc before. j < (1::nat) \<and> ex_evs ! j = Send 7 ls enc \<and> step_result (ex_steps ! j) = Accepted
    \<and> step_attempts (ex_steps ! 1) = before @ zip ls (List.map code_outcome [255]) \<and> length ls = length [255::byte]"
  by (rule conv_acknowledge_correlated[OF ex_trace ex_read, where n = 1]) (simp_all add: ex_steps_def ex_evs_def)

lemma conv_closed_absorbing_example:
  "step_lifecycle (ex_steps ! 3) = Closed \<and> step_attempts (ex_steps ! 3) = step_attempts (ex_steps ! 2)"
  using conv_closed_absorbing[OF ex_trace, of 2 3] by (simp add: ex_steps_def)

lemma conv_replay_needs_permission_example:
  "ReplayedUnknown \<notin> snd ` set (step_attempts (ex_steps ! 1))"
  by (rule conv_replay_needs_permission[OF ex_trace ex_read])
    (simp_all add: ex_evs_def ex_steps_def allows_replay_def)

end
