(* ===== verification/Sequence.thy ===== *)
theory Sequence
  imports Conversation
begin

text \<open>
  \<^verbatim>\<open>integration/sequence_conformance.py\<close>: the byte-level check of multi-item
  requests, the decoder of multi-item responses and the bounded assembly of
  USER_DATA fragments. A corpus case is a record whose fields the source reads.
\<close>

section \<open>Requests\<close>

record exchange =
  ex_reference :: int
  ex_write :: bool
  ex_ranges :: "mem_range list"
  ex_request_pdu :: bytes
  ex_response_pdu :: bytes

definition function_code :: "bool \<Rightarrow> int" where
  "function_code write = (if write then 5 else 4)"

definition item_address :: "mem_range \<Rightarrow> bytes result" where
  "item_address item = concatE [Inr [0x12, 0x0a, 0x10, 0x02], pack 2 (mr_count item), pack 2 (mr_db item),
     pack 1 0x84, to_bytes 3 (mr_start item * 8)]"

fun check_addresses :: "bytes \<Rightarrow> nat \<Rightarrow> mem_range list \<Rightarrow> unit result" where
  "check_addresses parameters index [] = Inr ()"
| "check_addresses parameters index (item # rest) =
     (let actual = slice (2 + index * 12) (14 + index * 12) parameters
      in bindE (item_address item) (\<lambda>expected.
         if actual \<noteq> expected then Inl ValueError
         else check_addresses parameters (Suc index) rest))"

fun check_payloads :: "bytes \<Rightarrow> nat \<Rightarrow> mem_range list \<Rightarrow> nat result" where
  "check_payloads data offset [] = Inr offset"
| "check_payloads data offset (item # rest) =
     bindE (pack 2 (mr_count item * 8)) (\<lambda>n.
     let size = nat (mr_count item)
     in if slice offset (offset + 4) data \<noteq> [0, 4] @ n then Inl ValueError
        else check_payloads data
               (offset + 4 + size + (if rest \<noteq> [] \<and> odd size then 1 else 0)) rest)"

definition check_request :: "exchange \<Rightarrow> unit result" where
  "check_request test =
     bindE (sections (ex_request_pdu test) 1 (ex_reference test)) (\<lambda>(parameters, data).
     let function = function_code (ex_write test); ranges = ex_ranges test
     in bindE (bytes_of [function, len ranges]) (\<lambda>hd'.
        if take 2 parameters \<noteq> hd' \<or> length parameters \<noteq> 2 + 12 * length ranges then Inl ValueError
        else bindE (check_addresses parameters 0 ranges) (\<lambda>_.
             if function = 4 \<and> data \<noteq> [] then Inl ValueError
             else if function = 5 then
               bindE (check_payloads data 0 ranges) (\<lambda>offset. guardE (offset = length data) ValueError)
             else Inr ())))"

section \<open>Multi-item responses\<close>

datatype item_result = ItemSuccess "bytes option" | ItemFailure int

definition outcome_item :: "byte \<Rightarrow> bytes option \<Rightarrow> item_result" where
  "outcome_item code content = (if code = 255 then ItemSuccess content else ItemFailure (uint code))"

definition read_item :: "bytes \<Rightarrow> nat \<Rightarrow> mem_range \<Rightarrow> bool \<Rightarrow> (item_result \<times> nat) result" where
  "read_item data offset item again =
     (if offset + 4 > length data then Inl ValueError
      else
        let code = data ! offset; transport = data ! (offset + 1);
            length' = nat (be_int (slice (offset + 2) (offset + 4) data)); offset = offset + 4
        in if transport \<noteq> 9 \<and> length' mod 8 \<noteq> 0 then Inl ValueError
           else let size = (if transport = 9 then length' else length' div 8)
                in if offset + size > length data then Inl ValueError
                   else
                     let content = slice offset (offset + size) data; offset = offset + size
                     in if again \<and> odd size \<and> offset \<ge> length data then Inl ValueError
                        else if code = 255 \<and> (transport \<noteq> 4 \<or> int size \<noteq> mr_count item) then Inl ValueError
                        else Inr (outcome_item code (Some content),
                                  offset + (if again \<and> odd size then 1 else 0)))"

definition write_item :: "bytes \<Rightarrow> nat \<Rightarrow> (item_result \<times> nat) result" where
  "write_item data offset =
     (if offset \<ge> length data then Inl ValueError
      else Inr (outcome_item (data ! offset) None, offset + 1))"

fun decode_items :: "bool \<Rightarrow> bytes \<Rightarrow> nat \<Rightarrow> mem_range list \<Rightarrow> (item_result list \<times> nat) result" where
  "decode_items write data offset [] = Inr ([], offset)"
| "decode_items write data offset (item # rest) =
     bindE (if write then write_item data offset else read_item data offset item (rest \<noteq> [])) (\<lambda>(r, offset').
     bindE (decode_items write data offset' rest) (\<lambda>(rs, last_offset). Inr (r # rs, last_offset)))"

definition decode_multi :: "exchange \<Rightarrow> item_result list result" where
  "decode_multi test =
     bindE (sections (ex_response_pdu test) 3 (ex_reference test)) (\<lambda>(parameters, data).
     bindE (bytes_of [function_code (ex_write test), len (ex_ranges test)]) (\<lambda>hd'.
     if parameters \<noteq> hd' then Inl ValueError
     else bindE (decode_items (ex_write test) data 0 (ex_ranges test)) (\<lambda>(results, offset).
          if offset \<noteq> length data then Inl ValueError else Inr results)))"

section \<open>USER_DATA conversations\<close>

record fragments =
  fr_reference :: int
  fr_group :: int
  fr_subfunction :: int
  fr_maximum_fragments :: int
  fr_maximum_bytes :: int

text \<open>The parameter and extent checks of one fragment; the flag and the payload.\<close>

definition userdata_fragment :: "fragments \<Rightarrow> bytes \<Rightarrow> (bool \<times> bytes) result" where
  "userdata_fragment test raw =
     bindE (sections raw 7 (fr_reference test)) (\<lambda>(parameters, data).
     if length parameters \<noteq> 12 \<or> take 5 parameters \<noteq> [0, 1, 0x12, 8, 0x12]
        \<or> uint (parameters ! 5) \<noteq> or 0x80 (fr_group test)
        \<or> uint (parameters ! 6) \<noteq> fr_subfunction test
        \<or> parameters ! 9 \<notin> {0, 1} \<or> drop 10 parameters \<noteq> [0, 0]
     then Inl ValueError
     else if length data < 4 \<or> take 2 data \<noteq> [0xff, 9]
        \<or> int (length data) \<noteq> 4 + be_int (slice 2 4 data)
     then Inl ValueError
     else Inr (parameters ! 9 = 1, drop 4 data))"

fun assemble :: "fragments \<Rightarrow> int \<Rightarrow> bool \<Rightarrow> bytes \<Rightarrow> bytes list \<Rightarrow> bytes result" where
  "assemble test count complete accumulated [] = (if complete then Inr accumulated else Inl ValueError)"
| "assemble test count complete accumulated (raw # rest) =
     (if complete \<or> count > fr_maximum_fragments test then Inl ValueError
      else bindE (userdata_fragment test raw) (\<lambda>(again, content).
           if again \<and> count = fr_maximum_fragments test then Inl ValueError
           else if len accumulated + len content > fr_maximum_bytes test then Inl ValueError
           else assemble test (count + 1) (\<not> again) (accumulated @ content) rest))"

definition decode_conversation :: "fragments \<Rightarrow> bytes list \<Rightarrow> bytes result" where
  "decode_conversation test response_pdus = assemble test 1 False [] response_pdus"

section \<open>The two encoders agree\<close>

lemma item_address_eq: "item_address = address"
  by (rule ext) (simp add: item_address_def address_def)

lemma address_length: "address item = Inr bs \<Longrightarrow> length bs = 12"
  by (auto simp: address_def simp del: be_bytes_numeral)

lemma address_count: "address item = Inr bs \<Longrightarrow> 0 \<le> mr_count item"
  by (auto simp: address_def)

lemma concatE_Inr_iff: "concatE rs = Inr bs \<longleftrightarrow> (\<exists>xs. list_all2 (\<lambda>r x. r = Inr x) rs xs \<and> bs = concat xs)"
  by (auto simp: concatE_def mapE_Inr_iff id_def)

lemma check_addresses_ok:
  assumes "list_all2 (\<lambda>item x. address item = Inr x) ranges xs" and "length pre = 2 + 12 * k"
  shows "check_addresses (pre @ concat xs @ post) k ranges = Inr ()"
  using assms
proof (induction ranges xs arbitrary: pre k rule: list_all2_induct)
  case Nil
  then show ?case by simp
next
  case (Cons item ranges x xs)
  have "slice (2 + k * 12) (14 + k * 12) (pre @ x @ concat xs @ post) = x"
    using Cons address_length by (simp add: slice_def)
  moreover have "check_addresses ((pre @ x) @ concat xs @ post) (Suc k) ranges = Inr ()"
    using Cons address_length by (intro Cons.IH) simp
  ultimately show ?case using Cons by (simp add: item_address_eq)
qed

lemma payload_length [simp]: "length (payload item) = nat (mr_count item)"
  by (simp add: payload_def)

lemma check_payloads_ok:
  assumes "write_items ranges = Inr bs" and "\<forall>item \<in> set ranges. 0 \<le> mr_count item"
  shows "check_payloads (pre @ bs) (length pre) ranges = Inr (length pre + length bs)"
  using assms
proof (induction ranges arbitrary: pre bs)
  case Nil
  then show ?case by simp
next
  case (Cons item rest)
  define pad where "pad = (if rest \<noteq> [] \<and> odd (nat (mr_count item)) then [0 :: byte] else [])"
  obtain n tail where n: "pack 2 (mr_count item * 8) = Inr n" and tail: "write_items rest = Inr tail"
    and bs: "bs = [0, 4] @ n @ payload item @ pad @ tail"
    using Cons.prems by (auto simp: Let_def len_def pad_def simp del: be_bytes_numeral)
  have ln: "length n = 2" using n by (auto simp del: be_bytes_numeral)
  define next_offset where "next_offset = length pre + 4 + nat (mr_count item) + length pad"
  have off: "length (pre @ [0, 4] @ n @ payload item @ pad) = next_offset"
    by (simp add: next_offset_def ln)
  have rec: "check_payloads ((pre @ [0, 4] @ n @ payload item @ pad) @ tail) next_offset rest
      = Inr (next_offset + length tail)"
    unfolding off[symmetric] by (rule Cons.IH) (use Cons.prems tail in auto)
  have pre: "slice (length pre) (length pre + 4) (pre @ bs) = [0, 4] @ n"
    using ln by (simp add: bs slice_def)
  have pad: "length pre + 4 + nat (mr_count item) + (if rest \<noteq> [] \<and> odd (nat (mr_count item)) then 1 else 0)
      = next_offset"
    by (simp add: next_offset_def pad_def)
  have "check_payloads (pre @ bs) (length pre) (item # rest) = check_payloads (pre @ bs) next_offset rest"
    using n pre pad by (simp add: Let_def del: be_bytes_numeral pack_Inr_iff)
  also have "\<dots> = Inr (next_offset + length tail)"
    using rec by (simp add: bs)
  also have "next_offset + length tail = length pre + length bs"
    by (simp add: next_offset_def bs ln)
  finally show ?case .
qed

text \<open>Every request the conversation oracle encodes passes the independent request check of the
  sequence oracle, byte for byte: same item count, addresses, payload headers and padding.\<close>

lemma request_passes_check:
  assumes "request reference ranges write = Inr (Some pdu)"
  shows "check_request \<lparr>ex_reference = reference, ex_write = write, ex_ranges = ranges,
    ex_request_pdu = pdu, ex_response_pdu = resp\<rparr> = Inr ()"
proof -
  obtain h specs data where h: "bytes_of [function_code write, len ranges] = Inr h"
    and specs: "concatE (List.map address ranges) = Inr specs"
    and data: "(if write then write_items ranges else Inr []) = Inr data"
    and pdu: "packet 1 reference (h @ specs) data = Inr pdu"
    using assms by (auto simp: request_def function_code_def split: if_splits)
  obtain xs where xs: "list_all2 (\<lambda>item x. address item = Inr x) ranges xs" and sx: "specs = concat xs"
    using specs by (auto simp: concatE_Inr_iff list_all2_map1)
  have lh: "length h = 2" using h by (auto simp: bytes_of_Inr_iff)
  have lx: "length (concat xs) = 12 * length ranges"
    using xs by (induction rule: list_all2_induct) (auto simp: address_length)
  have cnt: "\<forall>item \<in> set ranges. 0 \<le> mr_count item"
    using xs by (induction rule: list_all2_induct) (auto simp: address_count)
  have "check_addresses (h @ concat xs @ []) 0 ranges = Inr ()"
    by (rule check_addresses_ok[OF xs]) (simp add: lh)
  moreover have "write \<Longrightarrow> check_payloads data 0 ranges = Inr (length data)"
    using check_payloads_ok[of ranges data "[]"] data cnt by simp
  ultimately show ?thesis
    using sections_packet[OF pdu] h lh lx data
    by (cases "write") (simp_all add: check_request_def sx function_code_def)
qed

lemma assemble_accepts:
  assumes "assemble test c complete acc pdus = Inr bs" and "len acc \<le> fr_maximum_bytes test"
  shows "\<exists>parts. mapE (userdata_fragment test) pdus = Inr parts \<and> bs = acc @ concat (List.map snd parts)
    \<and> len bs \<le> fr_maximum_bytes test
    \<and> (pdus \<noteq> [] \<longrightarrow> \<not> complete \<and> c + len pdus - 1 \<le> fr_maximum_fragments test)
    \<and> (if pdus = [] then complete else List.map fst parts = replicate (length pdus - 1) True @ [False])"
  using assms
proof (induction pdus arbitrary: c complete acc)
  case Nil
  then show ?case by (auto split: if_splits)
next
  case (Cons raw rest)
  obtain again content where f: "userdata_fragment test raw = Inr (again, content)"
    and g: "\<not> complete" "c \<le> fr_maximum_fragments test" "len acc + len content \<le> fr_maximum_bytes test"
      "\<not> (again \<and> c = fr_maximum_fragments test)"
    and r: "assemble test (c + 1) (\<not> again) (acc @ content) rest = Inr bs"
    using Cons.prems by (auto split: if_splits)
  from Cons.IH[OF r] g(3) obtain parts where
    p: "mapE (userdata_fragment test) rest = Inr parts" "bs = (acc @ content) @ concat (List.map snd parts)"
      "len bs \<le> fr_maximum_bytes test"
      "rest \<noteq> [] \<Longrightarrow> again \<and> c + len rest \<le> fr_maximum_fragments test"
      "if rest = [] then \<not> again else List.map fst parts = replicate (length rest - 1) True @ [False]"
    by auto
  show ?case
  proof (cases "rest = []")
    case True
    with f g p show ?thesis by (auto simp: len_def)
  next
    case False
    then obtain k where "length rest = Suc k" by (cases rest) auto
    with False f g p show ?thesis by (intro exI[of _ "(again, content) # parts"]) auto
  qed
qed

text \<open>C4: A fragmented USER_DATA conversation is accepted only when its last fragment alone clears the
  continuation flag; the payload is the concatenation of the fragments in order and respects both
  the byte and the fragment bound.\<close>
theorem decode_conversation_bounded:
  assumes "decode_conversation test pdus = Inr bs"
  shows "\<exists>parts. mapE (userdata_fragment test) pdus = Inr parts \<and> bs = concat (List.map snd parts)
    \<and> List.map fst parts = replicate (length pdus - 1) True @ [False]
    \<and> len bs \<le> fr_maximum_bytes test \<and> len pdus \<le> fr_maximum_fragments test"
proof -
  have a: "assemble test 1 False [] pdus = Inr bs" using assms by (simp add: decode_conversation_def)
  then have ne: "pdus \<noteq> []" by auto
  with a have "len [] \<le> fr_maximum_bytes test"
    by (cases pdus) (auto simp: len_def split: if_splits)
  from assemble_accepts[OF a this] ne show ?thesis by auto
qed

definition ex_fragments :: fragments where
  "ex_fragments = \<lparr>fr_reference = 5, fr_group = 4, fr_subfunction = 1,
     fr_maximum_fragments = 2, fr_maximum_bytes = 3\<rparr>"

definition ex_fragment_pdus :: "bytes list" where
  "ex_fragment_pdus =
     [[50,7,0,0,0,5,0,12,0,6, 0,1,18,8,18,132,1,1,0,1,0,0, 255,9,0,2,170,187],
      [50,7,0,0,0,5,0,12,0,5, 0,1,18,8,18,132,1,2,0,0,0,0, 255,9,0,1,204]]"

lemma ex_fragments_decode: "decode_conversation ex_fragments ex_fragment_pdus = Inr [170, 187, 204]"
  by (simp add: decode_conversation_def ex_fragments_def ex_fragment_pdus_def userdata_fragment_def
      sections_def bytes_of_def slice_def byte_def)

theorem decode_conversation_bounded_witness:
  "len [170, 187, 204 :: byte] \<le> fr_maximum_bytes ex_fragments \<and> len ex_fragment_pdus \<le> fr_maximum_fragments ex_fragments"
  using decode_conversation_bounded[OF ex_fragments_decode] by blast

lemma request_passes_check_example:
  "check_request \<lparr>ex_reference = 7, ex_write = True, ex_ranges = [loc_range ex_loc],
     ex_request_pdu = ex_pdu, ex_response_pdu = []\<rparr> = Inr ()"
  by (rule request_passes_check[OF ex_request])

end
