(* ===== verification/Management.thy ===== *)
theory Management
  imports Sequence
begin

text \<open>
  \<^verbatim>\<open>integration/management_conformance.py\<close>: the decoder of one USER_DATA management
  reply, the requests that open and continue a fragmented conversation, the
  replay of a recorded conversation that must echo the token of the previous
  reply, and the check of the corpus of both.
\<close>

section \<open>Replies\<close>

record reply_body =
  rb_payload :: bytes
  rb_sequence :: byte
  rb_unit :: byte
  rb_more :: bool
  rb_code :: byte
  rb_transport :: byte

datatype reply = Reject error_kind | Accept reply_body

text \<open>A null acknowledgement: the empty final reply of the three services that have one.\<close>

definition null_ack :: "byte \<Rightarrow> int \<Rightarrow> int \<Rightarrow> bool" where
  "null_ack code grp subfunction \<longleftrightarrow> code = 10 \<and> (grp, subfunction) \<in> {(7, 2), (5, 1), (5, 2)}"

definition decode_data :: "bytes \<Rightarrow> bytes \<Rightarrow> int \<Rightarrow> int \<Rightarrow> reply" where
  "decode_data parameters data grp subfunction =
     (if length data < 4 then Reject ProtocolError
      else
        let code = data ! 0; transport = data ! 1; size = nat (be_int (slice 2 4 data));
            null = null_ack code grp subfunction
        in if code \<noteq> 255 \<and> \<not> null then Reject PlcRejected
           else if (if null then transport \<noteq> 0 \<or> size \<noteq> 0 \<or> parameters ! 9 \<noteq> 0 else transport \<noteq> 9)
           then Reject ProtocolError
           else if length data \<noteq> 4 + size then Reject ProtocolError
           else Accept \<lparr>rb_payload = drop 4 data, rb_sequence = parameters ! 7, rb_unit = parameters ! 8,
                  rb_more = (parameters ! 9 \<noteq> 0), rb_code = code, rb_transport = transport\<rparr>)"

definition mgmt_decode :: "bytes \<Rightarrow> int \<Rightarrow> int \<Rightarrow> int \<Rightarrow> reply" where
  "mgmt_decode pdu reference grp subfunction =
     (if length pdu < 10 then Reject ProtocolError
      else
        let protocol = pdu ! 0; kind = pdu ! 1; actual_ref = be_int (slice 4 6 pdu);
            parameter_size = nat (be_int (slice 6 8 pdu)); data_size = nat (be_int (slice 8 10 pdu))
        in if protocol \<noteq> 0x32 \<or> kind \<noteq> 7 \<or> actual_ref \<noteq> reference \<or> parameter_size \<noteq> 12
              \<or> length pdu \<noteq> 10 + parameter_size + data_size
           then Reject ProtocolError
           else
             let parameters = slice 10 22 pdu
             in if take 5 parameters \<noteq> [0, 1, 0x12, 8, 0x12]
                  \<or> drop_bit 4 (uint (parameters ! 5)) \<noteq> 8 \<or> and (uint (parameters ! 5)) 15 \<noteq> grp
                  \<or> uint (parameters ! 6) \<noteq> subfunction \<or> parameters ! 9 \<notin> {0, 1}
                then Reject ProtocolError
                else if be_int (slice 10 12 parameters) \<noteq> 0 then Reject PlcRejected
                else decode_data parameters (drop 22 pdu) grp subfunction)"

section \<open>Requests\<close>

definition mgmt_request :: "int \<Rightarrow> int \<Rightarrow> int \<Rightarrow> int option \<Rightarrow> bytes result" where
  "mgmt_request reference grp subfunction token =
     bindE (case token of
        None \<Rightarrow> bindE (bytes_of [0, 1, 0x12, 4, 0x11, or 0x40 grp, subfunction, 0]) (\<lambda>parameters.
                Inr (parameters, if grp = 4 then [0xff, 0x09, 0, 0x04, 0x04, 0x24, 0, 0]
                                 else [0xff, 0x09, 0, 0x02, 0x30, 0x41]))
      | Some t \<Rightarrow> bindE (bytes_of [0, 1, 0x12, 8, 0x12, or 0x40 grp, subfunction, t, 0, 0, 0, 0]) (\<lambda>parameters.
                  Inr (parameters, [0x0a, 0, 0, 0]))) (\<lambda>(parameters, data).
     packet 7 reference parameters data)"

section \<open>Continuations\<close>

record cont =
  ct_payload :: bytes
  ct_unit :: "byte option"
  ct_token :: "byte option"
  ct_failure :: "(error_kind \<times> nat) option"

definition cont_init :: cont where
  "cont_init = \<lparr>ct_payload = [], ct_unit = None, ct_token = None, ct_failure = None\<rparr>"

text \<open>One recorded exchange, read from the corpus.\<close>

record leg =
  lg_reference :: int
  lg_request :: bytes
  lg_response :: bytes

definition parse_leg :: "json \<Rightarrow> leg result" where
  "parse_leg step =
     bindE (shape step [''reference'', ''request_pdu'', ''response_pdu'']) (\<lambda>_.
     bindE (jget ''reference'' step) (\<lambda>r. bindE (integer r 65535) (\<lambda>reference.
     bindE (jget ''request_pdu'' step) (\<lambda>q. bindE (octets q) (\<lambda>sent.
     bindE (jget ''response_pdu'' step) (\<lambda>p. bindE (octets p) (\<lambda>received.
     Inr \<lparr>lg_reference = reference, lg_request = sent, lg_response = received\<rparr>)))))))"

text \<open>
  The loop body after the fields are read. The request must be the one the
  previous token asks for; the reply is folded in unless a reply failed before.
\<close>

definition cont_step :: "int \<Rightarrow> int \<Rightarrow> nat \<Rightarrow> nat \<Rightarrow> leg \<Rightarrow> cont \<Rightarrow> cont result" where
  "cont_step grp subfunction n index leg s =
     bindE (mgmt_request (lg_reference leg) grp subfunction (map_option uint (ct_token s))) (\<lambda>expected.
     if lg_request leg \<noteq> expected then Inl ValueError
     else
       let decoded = mgmt_decode (lg_response leg) (lg_reference leg) grp subfunction
       in if ct_failure s \<noteq> None then Inr s
          else (case decoded of
                  Reject category \<Rightarrow> Inr (s\<lparr>ct_failure := Some (category, index)\<rparr>)
                | Accept body \<Rightarrow>
                    if ct_unit s \<noteq> None \<and> ct_unit s \<noteq> Some (rb_unit body)
                    then Inr (s\<lparr>ct_failure := Some (ProtocolError, index)\<rparr>)
                    else
                      let s = s\<lparr>ct_unit := Some (rb_unit body), ct_token := Some (rb_sequence body),
                                ct_payload := ct_payload s @ rb_payload body\<rparr>
                      in if length (ct_payload s) > 16 * 1024 * 1024 \<or> rb_more body \<noteq> (index + 1 < n)
                         then Inl ValueError else Inr s))"

fun cont_run :: "int \<Rightarrow> int \<Rightarrow> nat \<Rightarrow> nat \<Rightarrow> leg list \<Rightarrow> cont \<Rightarrow> cont result" where
  "cont_run grp subfunction n index [] s = Inr s"
| "cont_run grp subfunction n index (leg # rest) s =
     bindE (cont_step grp subfunction n index leg s) (\<lambda>s'.
     cont_run grp subfunction n (index + 1) rest s')"

fun cont_steps :: "int \<Rightarrow> int \<Rightarrow> nat \<Rightarrow> nat \<Rightarrow> json list \<Rightarrow> cont \<Rightarrow> cont result" where
  "cont_steps grp subfunction n index [] s = Inr s"
| "cont_steps grp subfunction n index (step # rest) s =
     bindE (parse_leg step) (\<lambda>leg.
     bindE (cont_step grp subfunction n index leg s) (\<lambda>s'.
     cont_steps grp subfunction n (index + 1) rest s'))"

section \<open>The corpus\<close>

definition category_name :: "error_kind \<Rightarrow> json" where
  "category_name k = (if k = PlcRejected then jtext ''plc-rejected'' else jtext ''protocol'')"

definition byte_list :: "bytes \<Rightarrow> json" where
  "byte_list bs = JArr (List.map JInt (ints_of bs))"

fun reply_json :: "reply \<Rightarrow> json" where
  "reply_json (Reject category) = JObj [(''status'', jtext ''reject''), (''category'', category_name category)]"
| "reply_json (Accept b) = JObj [(''status'', jtext ''accept''), (''payload'', byte_list (rb_payload b)),
     (''sequence'', JInt (uint (rb_sequence b))), (''data_unit_reference'', JInt (uint (rb_unit b))),
     (''has_more_data'', JBool (rb_more b)), (''return_code'', JInt (uint (rb_code b))),
     (''transport_size'', JInt (uint (rb_transport b)))]"

definition cont_json :: "cont \<Rightarrow> json" where
  "cont_json s = (case ct_failure s of
     Some (category, index) \<Rightarrow> JObj [(''status'', jtext ''reject''), (''category'', category_name category),
       (''failed_step'', JInt (int index))]
   | None \<Rightarrow> JObj [(''status'', jtext ''accept''), (''assembled_payload'', byte_list (ct_payload s))])"

text \<open>The identity of a case: a new, non-empty text.\<close>

definition identity :: "json \<Rightarrow> ustr list \<Rightarrow> ustr list result" where
  "identity test seen =
     bindE (jget ''id'' test) (\<lambda>v. case v of
        JStr s \<Rightarrow> if s = [] \<or> s \<in> set seen then Inl ValueError else Inr (s # seen)
      | _ \<Rightarrow> Inl ValueError)"

definition decoder_case :: "json \<Rightarrow> ustr list \<Rightarrow> ustr list result" where
  "decoder_case test seen =
     bindE (shape test [''id'', ''reference'', ''group'', ''subfunction'', ''pdu'', ''expected'']) (\<lambda>_.
     bindE (identity test seen) (\<lambda>seen'.
     bindE (jget ''pdu'' test) (\<lambda>p. bindE (octets p) (\<lambda>pdu.
     bindE (jget ''reference'' test) (\<lambda>r. bindE (integer r 65535) (\<lambda>reference.
     bindE (jget ''group'' test) (\<lambda>g. bindE (integer g 15) (\<lambda>grp.
     bindE (jget ''subfunction'' test) (\<lambda>f. bindE (integer f 255) (\<lambda>subfunction.
     bindE (jget ''expected'' test) (\<lambda>expected.
     bindE (guardE (same (reply_json (mgmt_decode pdu reference grp subfunction)) expected) ValueError) (\<lambda>_.
     Inr seen'))))))))))))"

definition continuation_case :: "json \<Rightarrow> ustr list \<Rightarrow> ustr list result" where
  "continuation_case test seen =
     bindE (shape test [''id'', ''group'', ''subfunction'', ''steps'', ''expected'']) (\<lambda>_.
     bindE (identity test seen) (\<lambda>seen'.
     bindE (jget ''group'' test) (\<lambda>g. bindE (integer g 15) (\<lambda>grp.
     bindE (jget ''subfunction'' test) (\<lambda>f. bindE (integer f 255) (\<lambda>subfunction.
     bindE (guardE ((grp, subfunction) \<in> {(4, 1), (3, 2)}) ValueError) (\<lambda>_.
     bindE (jget ''steps'' test) (\<lambda>v. bindE (arr_of v) (\<lambda>steps.
     bindE (guardE (1 \<le> length steps \<and> length steps \<le> 256) ValueError) (\<lambda>_.
     bindE (cont_steps grp subfunction (length steps) 0 steps cont_init) (\<lambda>s.
     bindE (jget ''expected'' test) (\<lambda>expected.
     bindE (guardE (same (cont_json s) expected) ValueError) (\<lambda>_.
     Inr seen')))))))))))))"

fun each_case :: "(json \<Rightarrow> ustr list \<Rightarrow> ustr list result) \<Rightarrow> json list \<Rightarrow> ustr list \<Rightarrow> ustr list result" where
  "each_case check [] seen = Inr seen"
| "each_case check (t # ts) seen = bindE (check t seen) (\<lambda>seen'. each_case check ts seen')"

definition mgmt_validate :: "json \<Rightarrow> (nat \<times> nat) result" where
  "mgmt_validate corpus =
     bindE (shape corpus [''schema_version'', ''protocol'', ''decoder_cases'', ''continuation_cases'']) (\<lambda>_.
     bindE (jget ''schema_version'' corpus) (\<lambda>version.
     bindE (jget ''protocol'' corpus) (\<lambda>protocol.
     bindE (guardE (version = JInt 1 \<and> protocol = jtext ''classic S7 management codec conversations'') ValueError) (\<lambda>_.
     bindE (jget ''decoder_cases'' corpus) (\<lambda>d. bindE (arr_of d) (\<lambda>decoders.
     bindE (guardE (1 \<le> length decoders \<and> length decoders \<le> 10000) ValueError) (\<lambda>_.
     bindE (jget ''continuation_cases'' corpus) (\<lambda>c. bindE (arr_of c) (\<lambda>continuations.
     bindE (guardE (1 \<le> length continuations \<and> length continuations \<le> 10000) ValueError) (\<lambda>_.
     bindE (each_case decoder_case decoders []) (\<lambda>seen.
     bindE (each_case continuation_case continuations seen) (\<lambda>_.
     Inr (length decoders, length continuations)))))))))))))"

section \<open>The layout of a reply\<close>

lemma nibbles:
  "drop_bit 4 (uint (b :: byte)) = 8 \<and> and (uint b) 15 = g \<longleftrightarrow> 0 \<le> g \<and> g < 16 \<and> b = byte (128 + g)"
proof -
  have m: "and (uint b) 15 = uint b mod 16"
    using take_bit_eq_mask[of 4 "uint b"] by (simp add: take_bit_eq_mod mask_eq_exp_minus_1)
  have "uint b = 16 * (uint b div 16) + uint b mod 16" by simp
  moreover have "0 \<le> uint b mod 16" "uint b mod 16 < 16" by simp_all
  moreover have "uint b = 16 * 8 + g \<Longrightarrow> 0 \<le> g \<Longrightarrow> g < 16 \<Longrightarrow> uint b div 16 = 8 \<and> uint b mod 16 = g"
    by (simp add: int_div_pos_eq int_mod_pos_eq)
  ultimately have "uint b div 16 = 8 \<and> uint b mod 16 = g \<longleftrightarrow> 0 \<le> g \<and> g < 16 \<and> uint b = 128 + g"
    by linarith
  moreover have "0 \<le> g \<Longrightarrow> g < 16 \<Longrightarrow> uint b = 128 + g \<longleftrightarrow> b = byte (128 + g)"
    by (rule uint_eq_byte) simp_all
  ultimately show ?thesis by (auto simp: drop_bit_eq_div m)
qed


text \<open>A reply of 22 octets or more, octet by octet.\<close>

lemma long_list:
  assumes "26 \<le> length (pdu :: bytes)"
  obtains a0 a1 a2 a3 a4 a5 a6 a7 a8 a9 b0 b1 b2 b3 b4 b5 b6 b7 b8 b9 b10 b11 d0 d1 d2 d3 rest
  where "pdu = [a0,a1,a2,a3,a4,a5,a6,a7,a8,a9] @ [b0,b1,b2,b3,b4,b5,b6,b7,b8,b9,b10,b11] @ [d0,d1,d2,d3] @ rest"
proof -
  have "take 26 pdu = List.map ((!) pdu) [0..<26]"
    using assms by (intro nth_equalityI) simp_all
  then have "pdu = List.map ((!) pdu) [0..<26] @ drop 26 pdu" by (metis append_take_drop_id)
  also have "[0..<26] = [0,1,2,3,4,5,6,7,8,9,10,11,12,13,14,15,16,17,18,19,20,21,22,23,24,25::nat]"
    by (simp add: upt_rec)
  finally show ?thesis by (intro that) simp
qed

definition reply_layout :: "bytes \<Rightarrow> int \<Rightarrow> int \<Rightarrow> int \<Rightarrow> reply_body \<Rightarrow> bytes" where
  "reply_layout reserved reference grp subfunction b =
     [0x32, 7] @ reserved @ be_bytes 2 reference @ be_bytes 2 12 @ be_bytes 2 (4 + len (rb_payload b))
     @ [0, 1, 0x12, 8, 0x12, byte (128 + grp), byte subfunction, rb_sequence b, rb_unit b,
        if rb_more b then 1 else 0, 0, 0]
     @ [rb_code b, rb_transport b] @ be_bytes 2 (len (rb_payload b)) @ rb_payload b"

definition reply_fits :: "int \<Rightarrow> int \<Rightarrow> int \<Rightarrow> reply_body \<Rightarrow> bool" where
  "reply_fits reference grp subfunction b \<longleftrightarrow>
     0 \<le> reference \<and> reference < 65536 \<and> 0 \<le> grp \<and> grp < 16 \<and> 0 \<le> subfunction \<and> subfunction < 256
     \<and> length (rb_payload b) + 4 < 65536
     \<and> (if null_ack (rb_code b) grp subfunction
         then rb_transport b = 0 \<and> rb_payload b = [] \<and> \<not> rb_more b
         else rb_code b = 255 \<and> rb_transport b = 9)"

lemma be_pair: "be_int [x, y] = v \<longleftrightarrow> 0 \<le> v \<and> v < 65536 \<and> [x, y] = be_bytes 2 v"
proof
  assume v: "be_int [x, y] = v"
  have "be_bytes (length [x, y]) (be_int [x, y]) = [x, y]" by (rule be_bytes_be_int)
  then show "0 \<le> v \<and> v < 65536 \<and> [x, y] = be_bytes 2 v"
    using v be_int_nonneg[of "[x, y]"] be_int_bound[of "[x, y]"]
    by (simp add: numeral_2_eq_2 del: be_int_Cons be_bytes.simps)
next
  assume "0 \<le> v \<and> v < 65536 \<and> [x, y] = be_bytes 2 v"
  then show "be_int [x, y] = v" using be_int_2 by (metis)
qed

lemma nat_be_pair:
  "nat (be_int [x, y]) = n \<longleftrightarrow> n < 65536 \<and> [x, y] = be_bytes 2 (int n)"
  "n = nat (be_int [x, y]) \<longleftrightarrow> n < 65536 \<and> [x, y] = be_bytes 2 (int n)"
proof -
  have "nat (be_int [x, y]) = n \<longleftrightarrow> be_int [x, y] = int n"
    using be_int_nonneg[of "[x, y]"] by (simp add: nat_eq_iff del: be_int_Cons)
  then show "nat (be_int [x, y]) = n \<longleftrightarrow> n < 65536 \<and> [x, y] = be_bytes 2 (int n)"
    using be_pair[of x y "int n"] by simp
  then show "n = nat (be_int [x, y]) \<longleftrightarrow> n < 65536 \<and> [x, y] = be_bytes 2 (int n)"
    by (simp only: eq_commute)
qed

lemma mgmt_decode_bytes:
  "mgmt_decode ([a0,a1,a2,a3,a4,a5,a6,a7,a8,a9] @ [b0,b1,b2,b3,b4,b5,b6,b7,b8,b9,b10,b11] @ [d0,d1,d2,d3] @ rest)
      reference grp subfunction = Accept b \<longleftrightarrow>
     [a0, a1] = [0x32, 7] \<and> be_int [a4, a5] = reference \<and> nat (be_int [a6, a7]) = 12
      \<and> nat (be_int [a8, a9]) = 4 + length rest
      \<and> [b0, b1, b2, b3, b4] = [0, 1, 0x12, 8, 0x12] \<and> drop_bit 4 (uint b5) = 8 \<and> and (uint b5) 15 = grp
      \<and> uint b6 = subfunction \<and> b9 \<in> {0, 1} \<and> be_int [b10, b11] = 0
      \<and> nat (be_int [d2, d3]) = length rest
      \<and> (if null_ack d0 grp subfunction then d1 = 0 \<and> length rest = 0 \<and> b9 = 0 else d0 = 255 \<and> d1 = 9)
      \<and> b = \<lparr>rb_payload = rest, rb_sequence = b7, rb_unit = b8, rb_more = (b9 \<noteq> 0), rb_code = d0, rb_transport = d1\<rparr>"
  by (auto simp: mgmt_decode_def decode_data_def slice_def Let_def
      split: if_splits simp del: be_int_Cons nat_0_iff)

lemma accept_length: "mgmt_decode pdu reference grp subfunction = Accept b \<Longrightarrow> 26 \<le> length pdu"
  by (auto simp: mgmt_decode_def decode_data_def Let_def split: if_splits)

lemma decode_accepts_layout:
  assumes "mgmt_decode pdu reference grp subfunction = Accept b"
  shows "reply_fits reference grp subfunction b
    \<and> pdu = reply_layout (slice 2 4 pdu) reference grp subfunction b"
proof -
  obtain a0 a1 a2 a3 a4 a5 a6 a7 a8 a9 b0 b1 b2 b3 b4 b5 b6 b7 b8 b9 b10 b11 d0 d1 d2 d3 rest where
    pdu: "pdu = [a0,a1,a2,a3,a4,a5,a6,a7,a8,a9] @ [b0,b1,b2,b3,b4,b5,b6,b7,b8,b9,b10,b11] @ [d0,d1,d2,d3] @ rest"
    using accept_length[OF assms] by (rule long_list)
  have f: "[a0, a1] = [0x32, 7] \<and> be_int [a4, a5] = reference \<and> nat (be_int [a6, a7]) = 12
      \<and> nat (be_int [a8, a9]) = 4 + length rest
      \<and> [b0, b1, b2, b3, b4] = [0, 1, 0x12, 8, 0x12] \<and> drop_bit 4 (uint b5) = 8 \<and> and (uint b5) 15 = grp
      \<and> uint b6 = subfunction \<and> b9 \<in> {0, 1} \<and> be_int [b10, b11] = 0
      \<and> nat (be_int [d2, d3]) = length rest
      \<and> (if null_ack d0 grp subfunction then d1 = 0 \<and> length rest = 0 \<and> b9 = 0 else d0 = 255 \<and> d1 = 9)
      \<and> b = \<lparr>rb_payload = rest, rb_sequence = b7, rb_unit = b8, rb_more = (b9 \<noteq> 0), rb_code = d0, rb_transport = d1\<rparr>"
    using assms unfolding pdu mgmt_decode_bytes .
  then have g: "0 \<le> grp" "grp < 16" "b5 = byte (128 + grp)" "b6 = byte subfunction"
    "0 \<le> subfunction" "subfunction < 256" "b10 = 0" "b11 = 0"
    using nibbles[of b5 grp] uint_byte_bounds[of b6] be_pair[of b10 b11 0] by auto
  from f have h: "0 \<le> reference" "reference < 65536" "[a4, a5] = be_bytes 2 reference" "[a6, a7] = be_bytes 2 12"
    "4 + length rest < 65536" "[a8, a9] = be_bytes 2 (int (4 + length rest))" "[d2, d3] = be_bytes 2 (int (length rest))"
    unfolding be_pair nat_be_pair by simp_all
  have bytes: "pdu = [a0, a1] @ [a2, a3] @ [a4, a5] @ [a6, a7] @ [a8, a9]
      @ ([b0, b1, b2, b3, b4] @ [b5, b6, b7, b8, b9, b10, b11]) @ [d0, d1] @ [d2, d3] @ rest"
    by (simp add: pdu)
  from f have f1: "[a0, a1] = [0x32, 7]" "[b0, b1, b2, b3, b4] = [0, 1, 0x12, 8, 0x12]" "b9 = 0 \<or> b9 = 1"
    "b = \<lparr>rb_payload = rest, rb_sequence = b7, rb_unit = b8, rb_more = (b9 \<noteq> 0), rb_code = d0, rb_transport = d1\<rparr>"
    "if null_ack d0 grp subfunction then d1 = 0 \<and> rest = [] \<and> b9 = 0 else d0 = 255 \<and> d1 = 9"
    by (simp_all split: if_splits)
  have sl: "slice 2 4 pdu = [a2, a3]" by (simp add: pdu slice_def)
  have "pdu = reply_layout [a2, a3] reference grp subfunction b"
    unfolding bytes h(3,4,6,7) f1(1,2,4) g(3,4,7,8) using f1(3)
    by (auto simp: reply_layout_def len_def simp del: be_bytes_numeral)
  moreover have "reply_fits reference grp subfunction b"
    using f1(4,5) g(1,2,5,6) h(1,2,5) by (auto simp: reply_fits_def split: if_splits)
  ultimately show ?thesis using sl by simp
qed

lemma layout_decodes:
  assumes "length reserved = 2" "reply_fits reference grp subfunction b"
  shows "mgmt_decode (reply_layout reserved reference grp subfunction b) reference grp subfunction = Accept b"
proof -
  obtain r0 r1 where r: "reserved = [r0, r1]" using assms(1) by (auto simp: numeral_2_eq_2 length_Suc_conv)
  have two: "\<exists>x y. be_bytes 2 v = [x, y]" for v by simp
  obtain a4 a5 where a4: "be_bytes 2 reference = [a4, a5]" using two by blast
  obtain a6 a7 where a6: "be_bytes 2 12 = [a6, a7]" using two by blast
  obtain a8 a9 where a8: "be_bytes 2 (4 + len (rb_payload b)) = [a8, a9]" using two by blast
  obtain d2 d3 where d2: "be_bytes 2 (len (rb_payload b)) = [d2, d3]" using two by blast
  have f: "0 \<le> reference" "reference < 65536" "4 + length (rb_payload b) < 65536" "0 \<le> grp" "grp < 16"
    "0 \<le> subfunction" "subfunction < 256"
    using assms(2) by (simp_all add: reply_fits_def)
  have v: "be_int [a4, a5] = reference" "nat (be_int [a6, a7]) = 12"
    "nat (be_int [a8, a9]) = 4 + length (rb_payload b)" "nat (be_int [d2, d3]) = length (rb_payload b)"
    using f be_pair[of a4 a5 reference] nat_be_pair(1)[of a6 a7 12] a4 a6 a8 d2
      nat_be_pair(1)[of a8 a9 "4 + length (rb_payload b)"] nat_be_pair(1)[of d2 d3 "length (rb_payload b)"]
    by (simp_all add: len_def del: be_int_Cons be_bytes_numeral)
  have zero: "be_int [0, 0] = 0" by simp
  have nb: "drop_bit 4 (uint (byte (128 + grp))) = 8" "and (uint (byte (128 + grp))) 15 = grp"
    "uint (byte subfunction) = subfunction"
    using nibbles[of "byte (128 + grp)" grp] f by (simp_all add: uint_byte_id)
  show ?thesis
    using v nb zero assms(2) unfolding reply_layout_def a4 a6 a8 d2 r
    by (cases "null_ack (rb_code b) grp subfunction")
      (simp_all add: mgmt_decode_def decode_data_def slice_def reply_fits_def del: be_int_Cons)
qed

text \<open>The management decoder accepts exactly the well-formed replies: an accepted reply is the layout of
  the fields it reports (reserved octets apart), and every layout whose fields fit is accepted with
  those fields. A null acknowledgement carries no payload and no continuation.\<close>

lemma mgmt_decode_exact:
  "mgmt_decode pdu reference grp subfunction = Accept b \<longleftrightarrow>
     reply_fits reference grp subfunction b
     \<and> (\<exists>reserved. length reserved = 2 \<and> pdu = reply_layout reserved reference grp subfunction b)"
proof
  assume a: "mgmt_decode pdu reference grp subfunction = Accept b"
  then have "4 \<le> length pdu" by (auto simp: mgmt_decode_def split: if_splits)
  then have "length (slice 2 4 pdu) = 2" by (simp add: length_slice)
  with decode_accepts_layout[OF a] show "reply_fits reference grp subfunction b
     \<and> (\<exists>reserved. length reserved = 2 \<and> pdu = reply_layout reserved reference grp subfunction b)"
    by blast
next
  assume "reply_fits reference grp subfunction b
     \<and> (\<exists>reserved. length reserved = 2 \<and> pdu = reply_layout reserved reference grp subfunction b)"
  then show "mgmt_decode pdu reference grp subfunction = Accept b" using layout_decodes by blast
qed

section \<open>Two fragment decoders\<close>

lemma or_128: "0 \<le> g \<Longrightarrow> g < 16 \<Longrightarrow> or 128 g = 128 + g" for g :: int
proof -
  assume "0 \<le> g" "g < 16"
  then have "g \<in> {0,1,2,3,4,5,6,7,8,9,10,11,12,13,14,15}" by simp presburger
  then show ?thesis by (elim insertE) (simp_all)
qed

lemma fragment_bytes:
  "userdata_fragment test ([a0,a1,a2,a3,a4,a5,a6,a7,a8,a9] @ [b0,b1,b2,b3,b4,b5,b6,b7,b8,b9,b10,b11]
      @ [d0,d1,d2,d3] @ rest) = Inr (again, content) \<longleftrightarrow>
     [a0, a1, a2, a3] = [0x32, 7, 0, 0] \<and> be_int [a4, a5] = fr_reference test \<and> nat (be_int [a6, a7]) = 12
      \<and> nat (be_int [a8, a9]) = 4 + length rest
      \<and> [b0, b1, b2, b3, b4] = [0, 1, 0x12, 8, 0x12] \<and> uint b5 = or 128 (fr_group test)
      \<and> uint b6 = fr_subfunction test \<and> b9 \<in> {0, 1} \<and> [b10, b11] = [0, 0]
      \<and> be_int [d2, d3] = int (length rest) \<and> d0 = 255 \<and> d1 = 9
      \<and> again = (b9 = 1) \<and> content = rest"
  (is "userdata_fragment test ?raw = _ \<longleftrightarrow> ?rhs")
proof (cases "nat (be_int [a6, a7]) = 12")
  case True
  have magic: "bytes_of [0x32, 7, 0, 0] = Inr [0x32, 7, 0, 0]" by (simp add: bytes_of_Inr_iff byte_def)
  show ?thesis unfolding userdata_fragment_def sections_def magic using True
    by (auto simp: slice_def Let_def simp del: be_int_Cons)
next
  case False
  have "length p \<noteq> 12" if "sections ?raw 7 (fr_reference test) = Inr (p, d)" for p d
    using sections_split(1,2)[OF that] False by (auto simp: slice_def simp del: be_int_Cons)
  with False show ?thesis
    by (cases "sections ?raw 7 (fr_reference test)") (auto simp: userdata_fragment_def simp del: be_int_Cons)
qed

lemma fragment_length: "userdata_fragment test raw = Inr r \<Longrightarrow> 26 \<le> length raw"
  by (auto simp: userdata_fragment_def split: if_splits dest!: sections_accepts(1))

text \<open>The two independent fragment decoders agree: the sequence oracle accepts a fragment with a
  continuation flag and content exactly when the management oracle accepts it with the success code,
  the same flag and payload, and the reserved header octets are zero.\<close>

lemma fragment_decoders_agree:
  assumes "0 \<le> fr_group test" and "fr_group test < 16"
  shows "userdata_fragment test raw = Inr (again, content) \<longleftrightarrow>
     (\<exists>b. mgmt_decode raw (fr_reference test) (fr_group test) (fr_subfunction test) = Accept b
        \<and> rb_more b = again \<and> rb_payload b = content \<and> rb_code b = 255)
     \<and> slice 2 4 raw = [0, 0]"
proof (cases "26 \<le> length raw")
  case False
  then show ?thesis using fragment_length accept_length by blast
next
  case True
  then obtain a0 a1 a2 a3 a4 a5 a6 a7 a8 a9 b0 b1 b2 b3 b4 b5 b6 b7 b8 b9 b10 b11 d0 d1 d2 d3 rest where
    raw: "raw = [a0,a1,a2,a3,a4,a5,a6,a7,a8,a9] @ [b0,b1,b2,b3,b4,b5,b6,b7,b8,b9,b10,b11] @ [d0,d1,d2,d3] @ rest"
    by (rule long_list)
  have five: "uint b5 = or 128 (fr_group test)
      \<longleftrightarrow> drop_bit 4 (uint b5) = 8 \<and> and (uint b5) 15 = fr_group test"
    using assms by (simp add: nibbles or_128 uint_eq_byte)
  have zero: "be_int [b10, b11] = 0 \<longleftrightarrow> b10 = 0 \<and> b11 = 0"
    by (simp add: be_pair del: be_int_Cons)
  have sz: "be_int [d2, d3] = int (length rest) \<longleftrightarrow> nat (be_int [d2, d3]) = length rest"
    using be_int_nonneg[of "[d2, d3]"] by (simp add: nat_eq_iff del: be_int_Cons)
  have ack: "\<not> null_ack 255 g f" for g f by (simp add: null_ack_def)
  have sl: "slice 2 4 raw = [a2, a3]" by (simp add: raw slice_def)
  show ?thesis unfolding sl unfolding raw fragment_bytes mgmt_decode_bytes five zero sz
    using ack by (auto simp del: be_int_Cons)
qed

section \<open>Continuations\<close>

text \<open>Each request is the one the reply before it asks for: the first opens, the others echo its token.\<close>

fun echoes :: "int \<Rightarrow> int \<Rightarrow> byte option \<Rightarrow> leg list \<Rightarrow> reply_body list \<Rightarrow> bool" where
  "echoes grp subfunction token (leg # legs) (b # bs) \<longleftrightarrow>
     mgmt_request (lg_reference leg) grp subfunction (map_option uint token) = Inr (lg_request leg)
     \<and> echoes grp subfunction (Some (rb_sequence b)) legs bs"
| "echoes grp subfunction token legs bs \<longleftrightarrow> legs = [] \<and> bs = []"

abbreviation leg_reply :: "int \<Rightarrow> int \<Rightarrow> leg \<Rightarrow> reply" where
  "leg_reply grp subfunction leg \<equiv> mgmt_decode (lg_response leg) (lg_reference leg) grp subfunction"

lemma cont_failed_stays:
  "cont_run grp subfunction n k legs s = Inr s' \<Longrightarrow> ct_failure s \<noteq> None \<Longrightarrow> s' = s"
  by (induction legs arbitrary: k s) (auto simp: cont_step_def Let_def split: if_splits)

lemma cont_step_cases:
  assumes "cont_step grp subfunction n k leg s = Inr s'" "ct_failure s = None"
  obtains (fail) category where "ct_failure s' = Some (category, k)" "ct_payload s' = ct_payload s"
      "leg_reply grp subfunction leg = Reject category
       \<or> category = ProtocolError \<and> (\<exists>b u. leg_reply grp subfunction leg = Accept b \<and> ct_unit s = Some u \<and> u \<noteq> rb_unit b)"
  | (accept) b where "leg_reply grp subfunction leg = Accept b" "ct_unit s = None \<or> ct_unit s = Some (rb_unit b)"
      "mgmt_request (lg_reference leg) grp subfunction (map_option uint (ct_token s)) = Inr (lg_request leg)"
      "s' = s\<lparr>ct_unit := Some (rb_unit b), ct_token := Some (rb_sequence b), ct_payload := ct_payload s @ rb_payload b\<rparr>"
      "rb_more b = (k + 1 < n)" "length (ct_payload s') \<le> 16 * 1024 * 1024"
proof (cases "leg_reply grp subfunction leg")
  case (Reject category)
  with assms fail show ?thesis by (auto simp: cont_step_def Let_def split: if_splits)
next
  case (Accept b)
  show ?thesis
  proof (cases "ct_unit s \<noteq> None \<and> ct_unit s \<noteq> Some (rb_unit b)")
    case True
    with assms Accept fail[of ProtocolError] show ?thesis by (auto simp: cont_step_def Let_def split: if_splits)
  next
    case False
    with assms Accept accept[of b] show ?thesis by (auto simp: cont_step_def Let_def split: if_splits)
  qed
qed

lemma cont_run_accepts:
  assumes "cont_run grp subfunction n k legs s = Inr s'" "ct_failure s' = None"
  shows "\<exists>bs. list_all2 (\<lambda>leg b. leg_reply grp subfunction leg = Accept b) legs bs
    \<and> ct_payload s' = ct_payload s @ concat (List.map rb_payload bs)
    \<and> (\<forall>b \<in> set bs. Some (rb_unit b) = ct_unit s' \<and> (ct_unit s = None \<or> ct_unit s = ct_unit s'))
    \<and> List.map rb_more bs = List.map (\<lambda>i. i + 1 < n) [k..<k + length legs]
    \<and> echoes grp subfunction (ct_token s) legs bs
    \<and> (legs = [] \<longrightarrow> ct_unit s' = ct_unit s)
    \<and> (legs \<noteq> [] \<longrightarrow> length (ct_payload s') \<le> 16 * 1024 * 1024)"
  using assms
proof (induction legs arbitrary: k s)
  case Nil
  then show ?case by simp
next
  case (Cons leg legs)
  then obtain t where t: "cont_step grp subfunction n k leg s = Inr t" "cont_run grp subfunction n (k + 1) legs t = Inr s'"
    by auto
  have "ct_failure s = None"
    using cont_failed_stays[OF Cons.prems(1)] Cons.prems(2) by (cases "ct_failure s") auto
  from t(1) this show ?case
  proof (cases rule: cont_step_cases)
    case (fail category)
    with cont_failed_stays[OF t(2)] Cons.prems show ?thesis by simp
  next
    case (accept b)
    from Cons.IH[OF t(2) Cons.prems(2)] obtain bs where bs:
      "list_all2 (\<lambda>leg b. leg_reply grp subfunction leg = Accept b) legs bs"
      "ct_payload s' = ct_payload t @ concat (List.map rb_payload bs)"
      "\<forall>b \<in> set bs. Some (rb_unit b) = ct_unit s' \<and> (ct_unit t = None \<or> ct_unit t = ct_unit s')"
      "List.map rb_more bs = List.map (\<lambda>i. i + 1 < n) [k + 1..<k + 1 + length legs]"
      "echoes grp subfunction (ct_token t) legs bs"
      "legs = [] \<longrightarrow> ct_unit s' = ct_unit t" "legs \<noteq> [] \<longrightarrow> length (ct_payload s') \<le> 16 * 1024 * 1024"
      by auto
    have unit: "ct_unit s' = Some (rb_unit b)"
      using bs(1,3,6) accept(4) by (cases bs) auto
    have "list_all2 (\<lambda>leg b. leg_reply grp subfunction leg = Accept b) (leg # legs) (b # bs)
      \<and> ct_payload s' = ct_payload s @ concat (List.map rb_payload (b # bs))"
      using bs(1,2) accept(1,4) by simp
    moreover have "\<forall>x \<in> set (b # bs). Some (rb_unit x) = ct_unit s' \<and> (ct_unit s = None \<or> ct_unit s = ct_unit s')"
      using bs(3) unit accept(2,4) by auto
    moreover have "[k..<k + length (leg # legs)] = k # [k + 1..<k + 1 + length legs]"
      by (simp add: upt_conv_Cons del: upt_Suc)
    then have "List.map rb_more (b # bs) = List.map (\<lambda>i. i + 1 < n) [k..<k + length (leg # legs)]"
      using bs(4) accept(5) by (simp only: list.map)
    moreover have "echoes grp subfunction (ct_token s) (leg # legs) (b # bs)"
      using bs(5) accept(3,4) by simp
    moreover have "length (ct_payload s') \<le> 16 * 1024 * 1024"
      using bs(1,2,7) accept(4,6) by (cases legs) auto
    ultimately show ?thesis by (intro exI[of _ "b # bs"]) simp
  qed
qed

lemma cont_steps_iff:
  "cont_steps grp subfunction n k steps s = Inr s' \<longleftrightarrow>
     (\<exists>legs. mapE parse_leg steps = Inr legs \<and> cont_run grp subfunction n k legs s = Inr s')"
  by (induction steps arbitrary: k s) auto

lemma cont_steps_run:
  "cont_steps grp subfunction n k steps s = Inr s' \<Longrightarrow>
     \<exists>legs. mapE parse_leg steps = Inr legs \<and> cont_run grp subfunction n k legs s = Inr s'"
  by (simp add: cont_steps_iff)

text \<open>C7: A recorded continuation that ends without a failure is complete and correctly driven: every reply
  is accepted, all replies name the same data unit, exactly the last one clears the continuation
  flag, each request is the opening request or echoes the token of the reply before it, and the
  assembled payload is the bounded concatenation of the payloads in order.\<close>
theorem continuation_complete:
  assumes "cont_steps grp subfunction (length steps) 0 steps cont_init = Inr s" and "ct_failure s = None"
  shows "\<exists>legs bs. mapE parse_leg steps = Inr legs
    \<and> list_all2 (\<lambda>leg b. leg_reply grp subfunction leg = Accept b) legs bs
    \<and> ct_payload s = concat (List.map rb_payload bs) \<and> length (ct_payload s) \<le> 16 * 1024 * 1024
    \<and> (\<forall>b \<in> set bs. Some (rb_unit b) = ct_unit s)
    \<and> List.map rb_more bs = List.map (\<lambda>i. i + 1 < length legs) [0..<length legs]
    \<and> echoes grp subfunction None legs bs"
proof -
  obtain legs where l: "mapE parse_leg steps = Inr legs" "cont_run grp subfunction (length steps) 0 legs cont_init = Inr s"
    using cont_steps_run[OF assms(1)] by blast
  have n: "length legs = length steps" using mapE_length[OF l(1)] .
  show ?thesis using cont_run_accepts[OF l(2) assms(2)] l(1) n by (auto simp: cont_init_def)
qed

text \<open>The requests of a run whose first replies are \<open>bs\<close>: each echoes the token of the last accepted reply before it.\<close>

fun driven :: "int \<Rightarrow> int \<Rightarrow> byte option \<Rightarrow> leg list \<Rightarrow> reply_body list \<Rightarrow> bool" where
  "driven grp subfunction token legs [] \<longleftrightarrow>
     list_all (\<lambda>leg. mgmt_request (lg_reference leg) grp subfunction (map_option uint token) = Inr (lg_request leg)) legs"
| "driven grp subfunction token (leg # legs) (b # bs) \<longleftrightarrow>
     mgmt_request (lg_reference leg) grp subfunction (map_option uint token) = Inr (lg_request leg)
     \<and> driven grp subfunction (Some (rb_sequence b)) legs bs"
| "driven grp subfunction token [] (b # bs) \<longleftrightarrow> False"

text \<open>A reply that does not continue a history of the data unit \<open>unit'\<close>, and the category it ends it with.\<close>

definition stops :: "int \<Rightarrow> int \<Rightarrow> byte option \<Rightarrow> leg \<Rightarrow> error_kind \<Rightarrow> bool" where
  "stops grp subfunction unit' leg category \<longleftrightarrow>
     leg_reply grp subfunction leg = Reject category
     \<or> category = ProtocolError \<and> (\<exists>b u. leg_reply grp subfunction leg = Accept b \<and> unit' = Some u \<and> u \<noteq> rb_unit b)"

definition cont_after :: "cont \<Rightarrow> reply_body list \<Rightarrow> cont" where
  "cont_after = foldl (\<lambda>s b. s\<lparr>ct_unit := Some (rb_unit b), ct_token := Some (rb_sequence b),
     ct_payload := ct_payload s @ rb_payload b\<rparr>)"

lemma cont_after_simps [simp]:
  "cont_after s [] = s"
  "cont_after s (b # bs) = cont_after (s\<lparr>ct_unit := Some (rb_unit b), ct_token := Some (rb_sequence b),
     ct_payload := ct_payload s @ rb_payload b\<rparr>) bs"
  by (simp_all add: cont_after_def)

lemma cont_after_payload: "ct_payload (cont_after s bs) = ct_payload s @ concat (map rb_payload bs)"
  by (induction bs arbitrary: s) auto

lemma cont_after_ends:
  "ct_failure (cont_after s bs) = ct_failure s"
  "ct_unit (cont_after s bs) = (if bs = [] then ct_unit s else Some (rb_unit (last bs)))"
  "ct_token (cont_after s bs) = (if bs = [] then ct_token s else Some (rb_sequence (last bs)))"
  by (induction bs arbitrary: s) auto

lemma cont_step_iff:
  assumes "ct_failure s = None"
  shows "cont_step grp subfunction n k leg s = Inr t \<longleftrightarrow>
     mgmt_request (lg_reference leg) grp subfunction (map_option uint (ct_token s)) = Inr (lg_request leg)
     \<and> ((\<exists>category. stops grp subfunction (ct_unit s) leg category \<and> t = s\<lparr>ct_failure := Some (category, k)\<rparr>)
        \<or> (\<exists>b. leg_reply grp subfunction leg = Accept b \<and> (ct_unit s = None \<or> ct_unit s = Some (rb_unit b))
             \<and> t = cont_after s [b] \<and> length (ct_payload t) \<le> 16 * 1024 * 1024 \<and> rb_more b = (k + 1 < n)))"
  using assms by (cases "leg_reply grp subfunction leg") (auto simp: cont_step_def stops_def Let_def)

lemma cont_run_failed:
  assumes "ct_failure s \<noteq> None"
  shows "cont_run grp subfunction n k legs s = Inr s' \<longleftrightarrow> driven grp subfunction (ct_token s) legs [] \<and> s' = s"
proof (induction legs arbitrary: k)
  case (Cons leg legs)
  have "cont_step grp subfunction n k leg s = Inr t \<longleftrightarrow>
      mgmt_request (lg_reference leg) grp subfunction (map_option uint (ct_token s)) = Inr (lg_request leg) \<and> t = s" for t
    using assms by (auto simp: cont_step_def Let_def)
  then show ?case using Cons.IH by auto
qed auto

text \<open>The whole run of a history that fails at step \<open>k + length bs\<close>.\<close>

definition failing_run where
  "failing_run grp subfunction n k legs s s' category bs \<longleftrightarrow>
     k + length bs < n
     \<and> list_all2 (\<lambda>leg b. leg_reply grp subfunction leg = Accept b) (take (length bs) legs) bs
     \<and> list_all rb_more bs \<and> (\<exists>u. (ct_unit s = None \<or> ct_unit s = Some u) \<and> (\<forall>b \<in> set bs. rb_unit b = u))
     \<and> (bs \<noteq> [] \<longrightarrow> length (ct_payload (cont_after s bs)) \<le> 16 * 1024 * 1024)
     \<and> driven grp subfunction (ct_token s) legs bs
     \<and> stops grp subfunction (ct_unit (cont_after s bs)) (legs ! length bs) category
     \<and> s' = (cont_after s bs)\<lparr>ct_failure := Some (category, k + length bs)\<rparr>"

lemma failing_run_Nil:
  "failing_run grp subfunction n k (leg # legs) s s' category [] \<longleftrightarrow> k < n
     \<and> mgmt_request (lg_reference leg) grp subfunction (map_option uint (ct_token s)) = Inr (lg_request leg)
     \<and> driven grp subfunction (ct_token s) legs []
     \<and> stops grp subfunction (ct_unit s) leg category \<and> s' = s\<lparr>ct_failure := Some (category, k)\<rparr>"
  by (cases "ct_unit s") (auto simp: failing_run_def)

lemma failing_run_Cons:
  "failing_run grp subfunction n k (leg # legs) s s' category (b # bs) \<longleftrightarrow>
     mgmt_request (lg_reference leg) grp subfunction (map_option uint (ct_token s)) = Inr (lg_request leg)
     \<and> leg_reply grp subfunction leg = Accept b \<and> (ct_unit s = None \<or> ct_unit s = Some (rb_unit b)) \<and> rb_more b
     \<and> length (ct_payload (cont_after s [b])) \<le> 16 * 1024 * 1024
     \<and> failing_run grp subfunction n (k + 1) legs (cont_after s [b]) s' category bs"
proof -
  have "length (ct_payload (cont_after s (b # bs))) \<le> m \<longleftrightarrow> length (ct_payload (cont_after s [b])) \<le> m
      \<and> (bs \<noteq> [] \<longrightarrow> length (ct_payload (cont_after (cont_after s [b]) bs)) \<le> m)" for m
    by (cases bs) (auto simp: cont_after_payload)
  then show ?thesis unfolding failing_run_def by (auto simp del: mult_Suc)
qed

lemma cont_run_fails:
  assumes "ct_failure s = None" "n = k + length legs"
  shows "cont_run grp subfunction n k legs s = Inr s' \<and> ct_failure s' = Some (category, i) \<longleftrightarrow>
    (\<exists>bs. i = k + length bs \<and> failing_run grp subfunction n k legs s s' category bs)"
  using assms
proof (induction legs arbitrary: k s)
  case Nil
  then show ?case by (auto simp: failing_run_def)
next
  case (Cons leg legs)
  let ?req = "mgmt_request (lg_reference leg) grp subfunction (map_option uint (ct_token s)) = Inr (lg_request leg)"
  let ?ok = "\<lambda>b. leg_reply grp subfunction leg = Accept b \<and> (ct_unit s = None \<or> ct_unit s = Some (rb_unit b))
    \<and> length (ct_payload (cont_after s [b])) \<le> 16 * 1024 * 1024"
  have n: "n = k + 1 + length legs" "ct_failure (cont_after s [b]) = None" for b using Cons.prems by simp_all
  have IH: "cont_run grp subfunction n (k + 1) legs (cont_after s [b]) = Inr s' \<and> ct_failure s' = Some (category, i) \<longleftrightarrow>
      (\<exists>bs. i = k + 1 + length bs \<and> failing_run grp subfunction n (k + 1) legs (cont_after s [b]) s' category bs)" for b
    by (rule Cons.IH) (use n in auto)
  have more: "failing_run grp subfunction n (k + 1) legs t s' category bs \<Longrightarrow> k + 1 < n" for t bs
    by (auto simp: failing_run_def)
  have "cont_run grp subfunction n k (leg # legs) s = Inr s' \<and> ct_failure s' = Some (category, i) \<longleftrightarrow>
     ?req \<and> ((stops grp subfunction (ct_unit s) leg category \<and> i = k \<and> driven grp subfunction (ct_token s) legs []
               \<and> s' = s\<lparr>ct_failure := Some (category, k)\<rparr>)
        \<or> (\<exists>b. ?ok b \<and> rb_more b = (k + 1 < n) \<and> cont_run grp subfunction n (k + 1) legs (cont_after s [b]) = Inr s'
             \<and> ct_failure s' = Some (category, i)))"
    by (auto simp: cont_step_iff[OF Cons.prems(1)] cont_run_failed simp del: cont_after_simps mult_Suc)
  also have "\<dots> \<longleftrightarrow> (\<exists>bs. i = k + length bs \<and> failing_run grp subfunction n k (leg # legs) s s' category bs)"
    (is "?l \<longleftrightarrow> (\<exists>bs. ?r bs)")
  proof -
    have "(\<exists>bs. ?r bs) \<longleftrightarrow> ?r [] \<or> (\<exists>b bs. ?r (b # bs))" by (metis neq_Nil_conv)
    then show ?thesis using n(1) more unfolding failing_run_Nil failing_run_Cons IH by auto
  qed
  finally show ?case .
qed


lemma cont_run_continues:
  assumes "ct_failure s = None" "list_all2 (\<lambda>leg b. leg_reply grp subfunction leg = Accept b) legs bs"
    and "driven grp subfunction (ct_token s) legs bs" "List.map rb_more bs = List.map (\<lambda>i. i + 1 < n) [k..<k + length bs]"
    and "list_all (\<lambda>b. rb_unit b = u) bs" "ct_unit s = None \<or> ct_unit s = Some u"
    and "length (ct_payload s @ concat (List.map rb_payload bs)) \<le> 16 * 1024 * 1024"
  shows "cont_run grp subfunction n k legs s = Inr (cont_after s bs)"
  using assms
proof (induction bs arbitrary: legs s k)
  case Nil
  then show ?case by simp
next
  case (Cons b bs)
  obtain leg legs' where l: "legs = leg # legs'" "leg_reply grp subfunction leg = Accept b"
    "list_all2 (\<lambda>leg b. leg_reply grp subfunction leg = Accept b) legs' bs"
    using Cons.prems(2) by (cases legs) auto
  have m: "rb_more b = (k + 1 < n)" "List.map rb_more bs = List.map (\<lambda>i. i + 1 < n) [k + 1..<k + 1 + length bs]"
    using Cons.prems(4) by (simp_all add: upt_conv_Cons del: upt_Suc)
  have "cont_step grp subfunction n k leg s = Inr (cont_after s [b])"
    unfolding cont_step_iff[OF Cons.prems(1)]
    using Cons.prems(3,5,6,7) l(2) m(1) by (auto simp: l(1))
  moreover have "cont_run grp subfunction n (k + 1) legs' (cont_after s [b]) = Inr (cont_after (cont_after s [b]) bs)"
    by (rule Cons.IH[OF _ l(3)]) (use Cons.prems m(2) in \<open>auto simp: l(1)\<close>)
  ultimately show ?case by (simp add: l(1))
qed

lemma same_unit: "(\<exists>u. \<forall>b \<in> set bs. rb_unit b = u) \<longleftrightarrow> list_all (\<lambda>b. rb_unit b = rb_unit (hd bs)) bs"
  by (cases bs) (auto simp: list_all_iff)

text \<open>C8: A continuation fails at step i with a category exactly when the first i replies are accepted with
  the continuation flag set, all of one data unit and within the bound, the reply of step i is rejected by the decoder with that
  category or, as a protocol error, names another data unit than they did, and every request, those after the failure too, is
  the opening request or echoes the token of the last accepted reply. The payload kept is that of the accepted replies.\<close>
theorem continuation_first_failure:
  "cont_steps grp subfunction (length steps) 0 steps cont_init = Inr s \<and> ct_failure s = Some (category, i) \<longleftrightarrow>
    (\<exists>legs bs. mapE parse_leg steps = Inr legs \<and> length bs = i \<and> i < length legs
      \<and> list_all2 (\<lambda>leg b. leg_reply grp subfunction leg = Accept b) (take i legs) bs
      \<and> list_all rb_more bs \<and> list_all (\<lambda>b. rb_unit b = rb_unit (hd bs)) bs
      \<and> length (concat (List.map rb_payload bs)) \<le> 16 * 1024 * 1024
      \<and> driven grp subfunction None legs bs
      \<and> stops grp subfunction (if bs = [] then None else Some (rb_unit (last bs))) (legs ! i) category
      \<and> s = \<lparr>ct_payload = concat (List.map rb_payload bs), ct_unit = (if bs = [] then None else Some (rb_unit (last bs))),
              ct_token = (if bs = [] then None else Some (rb_sequence (last bs))), ct_failure = Some (category, i)\<rparr>)"
proof -
  have run: "cont_run grp subfunction (length steps) 0 legs cont_init = Inr s \<and> ct_failure s = Some (category, i) \<longleftrightarrow>
      (\<exists>bs. i = length bs \<and> failing_run grp subfunction (length legs) 0 legs cont_init s category bs)"
    if "mapE parse_leg steps = Inr legs" for legs
    using cont_run_fails[of cont_init "length legs" 0 legs grp subfunction s category i] mapE_length[OF that]
    by (simp add: cont_init_def)
  have e: "(cont_after cont_init bs)\<lparr>ct_failure := Some (category, length bs)\<rparr> =
      \<lparr>ct_payload = concat (List.map rb_payload bs), ct_unit = (if bs = [] then None else Some (rb_unit (last bs))),
         ct_token = (if bs = [] then None else Some (rb_sequence (last bs))), ct_failure = Some (category, length bs)\<rparr>" for bs
    by (rule cont.equality) (simp_all add: cont_after_ends cont_after_payload cont_init_def del: cont_after_simps)
  have f: "failing_run grp subfunction (length legs) 0 legs cont_init s category bs \<longleftrightarrow> length bs < length legs
      \<and> list_all2 (\<lambda>leg b. leg_reply grp subfunction leg = Accept b) (take (length bs) legs) bs
      \<and> list_all rb_more bs \<and> list_all (\<lambda>b. rb_unit b = rb_unit (hd bs)) bs
      \<and> length (concat (List.map rb_payload bs)) \<le> 16 * 1024 * 1024
      \<and> driven grp subfunction None legs bs
      \<and> stops grp subfunction (if bs = [] then None else Some (rb_unit (last bs))) (legs ! length bs) category
      \<and> s = (cont_after cont_init bs)\<lparr>ct_failure := Some (category, length bs)\<rparr>" for legs bs
    unfolding failing_run_def by (auto simp: cont_init_def cont_after_ends cont_after_payload same_unit)
  note f = f[unfolded e]
  show ?thesis unfolding cont_steps_iff using run f by (smt (verit, best))
qed

section \<open>A continuation\<close>

definition ex_legs :: "leg list" where
  "ex_legs =
    [\<lparr>lg_reference = 5,
       lg_request = [50,7,0,0,0,5,0,8,0,8, 0,1,18,4,17,68,1,0, 255,9,0,4,4,36,0,0],
       lg_response = [50,7,0,0,0,5,0,12,0,6, 0,1,18,8,18,132,1,3,9,1,0,0, 255,9,0,2,170,187]\<rparr>,
     \<lparr>lg_reference = 6,
       lg_request = [50,7,0,0,0,6,0,12,0,4, 0,1,18,8,18,68,1,3,0,0,0,0, 10,0,0,0],
       lg_response = [50,7,0,0,0,6,0,12,0,5, 0,1,18,8,18,132,1,4,9,0,0,0, 255,9,0,1,204]\<rparr>]"

definition leg_json :: "leg \<Rightarrow> json" where
  "leg_json l = JObj [(''reference'', JInt (lg_reference l)), (''request_pdu'', byte_list (lg_request l)),
     (''response_pdu'', byte_list (lg_response l))]"

definition ex_body :: "byte \<Rightarrow> bool \<Rightarrow> bytes \<Rightarrow> reply_body" where
  "ex_body token again content = \<lparr>rb_payload = content, rb_sequence = token, rb_unit = 9, rb_more = again,
     rb_code = 255, rb_transport = 9\<rparr>"

lemmas mgmt_eval = mgmt_decode_def decode_data_def slice_def null_ack_def mgmt_request_def packet_def pack_def
  bytes_of_def byte_def

lemma ex_replies:
  "leg_reply 4 1 (ex_legs ! 0) = Accept (ex_body 3 True [170, 187])"
  "leg_reply 4 1 (ex_legs ! 1) = Accept (ex_body 4 False [204])"
  by (simp_all add: ex_legs_def ex_body_def mgmt_eval)

lemma octets_byte_list: "length bs \<le> 65535 \<Longrightarrow> octets (byte_list bs) = Inr bs"
proof -
  have "mapE (\<lambda>x. bindE (integer x 255) (\<lambda>i. Inr (byte i))) (List.map JInt (ints_of bs)) = Inr bs"
  proof (induction bs)
    case Nil
    show ?case by (simp add: ints_of_def)
  next
    case (Cons b bs)
    then show ?case using uint_byte_bounds[of b] by (simp add: ints_of_def integer_def)
  qed
  then show "length bs \<le> 65535 \<Longrightarrow> octets (byte_list bs) = Inr bs"
    by (simp add: octets_def byte_list_def ints_of_def)
qed

lemma parse_leg_json:
  "0 \<le> lg_reference l \<Longrightarrow> lg_reference l \<le> 65535 \<Longrightarrow> length (lg_request l) \<le> 65535
     \<Longrightarrow> length (lg_response l) \<le> 65535 \<Longrightarrow> parse_leg (leg_json l) = Inr l"
  by (simp add: parse_leg_def leg_json_def shape_def octets_byte_list integer_def insert_commute)

lemma ex_cont:
  "cont_steps 4 1 2 0 (List.map leg_json ex_legs) cont_init = Inr \<lparr>ct_payload = [170, 187, 204],
     ct_unit = Some 9, ct_token = Some 4, ct_failure = None\<rparr>"
proof -
  have p: "parse_leg (leg_json (ex_legs ! 0)) = Inr (ex_legs ! 0)" "parse_leg (leg_json (ex_legs ! 1)) = Inr (ex_legs ! 1)"
    by (rule parse_leg_json; simp add: ex_legs_def)+
  have q: "mgmt_request 5 4 1 None = Inr (lg_request (ex_legs ! 0))"
    "mgmt_request 6 4 1 (Some 3) = Inr (lg_request (ex_legs ! 1))"
    "lg_reference (ex_legs ! 0) = 5" "lg_reference (ex_legs ! 1) = 6"
    by (simp_all add: ex_legs_def mgmt_eval)
  have l: "ex_legs = [ex_legs ! 0, ex_legs ! 1]" by (simp add: ex_legs_def)
  show ?thesis
    using p q ex_replies by (subst l) (simp add: cont_step_def cont_init_def ex_body_def Let_def)
qed

theorem continuation_complete_witness:
  "\<exists>bs. list_all2 (\<lambda>leg b. leg_reply 4 1 leg = Accept b) ex_legs bs
     \<and> [170, 187, 204] = concat (List.map rb_payload bs) \<and> echoes 4 1 None ex_legs bs"
proof -
  have "mapE parse_leg (List.map leg_json ex_legs) = Inr ex_legs"
    by (simp add: ex_legs_def parse_leg_json)
  moreover have "length ex_legs = 2" by (simp add: ex_legs_def)
  ultimately show ?thesis
    using continuation_complete[of 4 1 "List.map leg_json ex_legs" "\<lparr>ct_payload = [170, 187, 204],
     ct_unit = Some 9, ct_token = Some 4, ct_failure = None\<rparr>"] ex_cont
    by auto
qed

text \<open>The same opening reply followed by one of another data unit.\<close>

definition ex_strays :: "leg list" where
  "ex_strays = [ex_legs ! 0, (ex_legs ! 1)\<lparr>lg_response :=
     [50,7,0,0,0,6,0,12,0,5, 0,1,18,8,18,132,1,4,8,0,0,0, 255,9,0,1,204]\<rparr>]"

theorem continuation_first_failure_witness:
  "\<exists>s. cont_steps 4 1 2 0 (List.map leg_json ex_strays) cont_init = Inr s \<and> ct_failure s = Some (ProtocolError, 1)
     \<and> ct_payload s = [170, 187]"
proof -
  have "mapE parse_leg (List.map leg_json ex_strays) = Inr ex_strays" "length (List.map leg_json ex_strays) = 2"
    by (simp_all add: ex_strays_def ex_legs_def parse_leg_json)
  moreover have "leg_reply 4 1 (ex_strays ! 0) = Accept (ex_body 3 True [170, 187])"
    "leg_reply 4 1 (ex_strays ! 1) = Accept ((ex_body 4 False [204])\<lparr>rb_unit := 8\<rparr>)"
    by (simp_all add: ex_strays_def ex_legs_def ex_body_def mgmt_eval)
  moreover have "driven 4 1 None ex_strays [ex_body 3 True [170, 187]]"
    by (simp add: ex_strays_def ex_legs_def ex_body_def mgmt_eval)
  moreover have "ex_strays = [ex_strays ! 0, ex_strays ! 1]" by (simp add: ex_strays_def)
  then have "length ex_strays = 2" "take 1 ex_strays = [ex_strays ! 0]" by (metis length_Cons list.size(3) numeral_2_eq_2, simp add: ex_strays_def)
  ultimately show ?thesis
    using continuation_first_failure[of 4 1 "List.map leg_json ex_strays" "\<lparr>ct_payload = [170, 187], ct_unit = Some 9,
      ct_token = Some 3, ct_failure = Some (ProtocolError, 1)\<rparr>" ProtocolError 1]
    by (auto simp: stops_def ex_body_def intro!: exI[of _ "[ex_body 3 True [170, 187]]"])
qed

lemma fragment_decoders_agree_example:
  "\<exists>b. mgmt_decode (hd ex_fragment_pdus) 5 4 1 = Accept b \<and> rb_more b \<and> rb_payload b = [170, 187]"
proof -
  have "userdata_fragment ex_fragments (hd ex_fragment_pdus) = Inr (True, [170, 187])"
    by (simp add: ex_fragments_def ex_fragment_pdus_def userdata_fragment_def sections_def bytes_of_def
        slice_def byte_def)
  then show ?thesis
    using fragment_decoders_agree[of ex_fragments "hd ex_fragment_pdus" True "[170, 187]"]
    by (auto simp: ex_fragments_def)
qed

end
