(* ===== verification/Text_Codec.thy ===== *)
theory Text_Codec
  imports Decimal
begin

text \<open>
  The standard library's codecs the value and operation oracles use: Latin-1 and
  big-endian UTF-16 (strict, surrogates rejected), signed big-endian integers,
  and two hexadecimal digits of an octet.
\<close>

datatype encoding = Latin1 | Utf16be

fun width :: "encoding \<Rightarrow> nat" where
  "width Latin1 = 1"
| "width Utf16be = 2"

fun capacity :: "encoding \<Rightarrow> nat" where
  "capacity Latin1 = 254"
| "capacity Utf16be = 16382"

definition latin1_point :: "nat \<Rightarrow> bytes result" where
  "latin1_point c = (if c < 256 then Inr [byte (int c)] else Inl UnicodeError)"

definition utf16_point :: "nat \<Rightarrow> bytes result" where
  "utf16_point c =
     (if c < 0xD800 \<or> 0xE000 \<le> c \<and> c < 0x10000 then Inr (be_bytes 2 (int c))
      else if 0x10000 \<le> c \<and> c < 0x110000 then
        Inr (be_bytes 2 (int (0xD800 + (c - 0x10000) div 0x400)) @ be_bytes 2 (int (0xDC00 + (c - 0x10000) mod 0x400)))
      else Inl UnicodeError)"

fun encode_text :: "encoding \<Rightarrow> ustr \<Rightarrow> bytes result" where
  "encode_text e s = concatE (List.map (case e of Latin1 \<Rightarrow> latin1_point | Utf16be \<Rightarrow> utf16_point) s)"

fun utf16_units :: "nat list \<Rightarrow> ustr result" where
  "utf16_units [] = Inr []"
| "utf16_units (u # us) =
     (if 0xD800 \<le> u \<and> u < 0xDC00 then
        (case us of
           [] \<Rightarrow> Inl UnicodeError
         | v # vs \<Rightarrow> if 0xDC00 \<le> v \<and> v < 0xE000
             then bindE (utf16_units vs) (\<lambda>s. Inr ((0x10000 + (u - 0xD800) * 0x400 + (v - 0xDC00)) # s))
             else Inl UnicodeError)
      else if 0xDC00 \<le> u \<and> u < 0xE000 then Inl UnicodeError
      else bindE (utf16_units us) (\<lambda>s. Inr (u # s)))"

fun units :: "bytes \<Rightarrow> nat list result" where
  "units [] = Inr []"
| "units [x] = Inl UnicodeError"
| "units (x # y # rest) = bindE (units rest) (\<lambda>us. Inr (nat (be_int [x, y]) # us))"

fun decode_text :: "encoding \<Rightarrow> bytes \<Rightarrow> ustr result" where
  "decode_text Latin1 bs = Inr (List.map unat bs)"
| "decode_text Utf16be bs = bindE (units bs) utf16_units"

section \<open>Round trips\<close>

lemma latin1_decode: "encode_text Latin1 s = Inr bs \<Longrightarrow> decode_text Latin1 bs = Inr s \<and> length bs = length s"
proof (induction s arbitrary: bs)
  case Nil
  then show ?case by simp
next
  case (Cons c s)
  then show ?case by (auto simp: latin1_point_def unat_eq_nat_uint uint_byte_id split: if_splits)
qed

lemma latin1_encode: "encode_text Latin1 (List.map unat bs) = Inr (bs :: bytes)"
proof (induction bs)
  case Nil
  then show ?case by simp
next
  case (Cons b bs)
  have "int (unat b) = uint b" by simp
  then have "unat b < 256" using uint_byte_bounds(2)[of b] by linarith
  moreover have "byte (int (unat b)) = b" by (simp add: byte_def)
  ultimately show ?case using Cons by (simp add: latin1_point_def)
qed

lemma units_pair: "0 \<le> v \<Longrightarrow> v < 65536 \<Longrightarrow> units (be_bytes 2 v @ rest) = bindE (units rest) (\<lambda>us. Inr (nat v # us))"
proof -
  assume v: "0 \<le> v" "v < 65536"
  obtain x y where xy: "be_bytes 2 v = [x, y]" by simp
  have "be_int (be_bytes 2 v) = v" using v by (simp add: be_int_be_bytes del: be_bytes_numeral)
  then show ?thesis by (simp add: xy del: be_int_Cons)
qed

lemma utf16_decode: "encode_text Utf16be s = Inr bs \<Longrightarrow> decode_text Utf16be bs = Inr s \<and> even (length bs)"
proof (induction s arbitrary: bs)
  case Nil
  then show ?case by simp
next
  case (Cons c s)
  obtain p t where p: "utf16_point c = Inr p" "encode_text Utf16be s = Inr t" and bs: "bs = p @ t"
    using Cons.prems by auto
  have ih: "decode_text Utf16be t = Inr s" "even (length t)" using Cons.IH p(2) by auto
  then obtain us where us: "units t = Inr us" "utf16_units us = Inr s" by auto
  show ?case
  proof (cases "c < 0xD800 \<or> 0xE000 \<le> c \<and> c < 0x10000")
    case True
    then have "p = be_bytes 2 (int c)" using p(1) by (simp add: utf16_point_def del: be_bytes_numeral)
    then have "units bs = Inr (c # us)" and "length p = 2"
      using True us(1) units_pair[of "int c" t] by (auto simp: bs simp del: be_bytes_numeral)
    with True us(2) ih(2) show ?thesis by (auto simp: bs)
  next
    case False
    then have c: "0x10000 \<le> c" "c < 0x110000"
      and pp: "p = be_bytes 2 (int (0xD800 + (c - 0x10000) div 0x400)) @ be_bytes 2 (int (0xDC00 + (c - 0x10000) mod 0x400))"
      using p(1) by (auto simp: utf16_point_def simp del: be_bytes_numeral split: if_splits)
    define k where "k = c - 0x10000"
    have k: "c = 0x10000 + k" "k < 0x100000" using c by (simp_all add: k_def)
    have hi: "k div 0x400 < 0x400" using k(2) by (simp add: less_mult_imp_div_less)
    have lo: "k mod 0x400 < 0x400" by simp
    have "units bs = Inr ((0xD800 + k div 0x400) # (0xDC00 + k mod 0x400) # us)"
      using hi lo us(1) unfolding bs pp k_def[symmetric] append_assoc
      by (subst units_pair; simp add: units_pair nat_add_distrib del: be_bytes_numeral)+
    moreover have "0x10000 + (k div 0x400) * 0x400 + k mod 0x400 = c" using k by simp
    ultimately show ?thesis using us(2) hi lo ih(2) by (simp add: bs pp)
  qed
qed

lemma text_decode:
  "encode_text e s = Inr bs \<Longrightarrow> decode_text e bs = Inr s"
  using latin1_decode utf16_decode by (cases e) blast+

lemma text_length: "encode_text e s = Inr bs \<Longrightarrow> length bs mod width e = 0"
  using utf16_decode by (cases e) (auto simp: mod2_eq_if)

lemma units_encode: "units bs = Inr us \<Longrightarrow> concat (List.map (\<lambda>u. be_bytes 2 (int u)) us) = bs
    \<and> (\<forall>u \<in> set us. u < 65536)"
proof (induction bs arbitrary: us rule: units.induct)
  case (3 x y rest)
  then obtain vs where v: "units rest = Inr vs" "us = nat (be_int [x, y]) # vs" by auto
  have "be_bytes (length [x, y]) (be_int [x, y]) = [x, y]" by (rule be_bytes_be_int)
  then have "be_bytes 2 (int (nat (be_int [x, y]))) = [x, y]"
    using be_int_nonneg[of "[x, y]"] by (simp add: numeral_2_eq_2 del: be_int_Cons be_bytes.simps)
  moreover have "nat (be_int [x, y]) < 65536" using be_int_bound[of "[x, y]"] be_int_nonneg[of "[x, y]"]
    by (simp del: be_int_Cons)
  ultimately show ?case using 3 v by (simp del: be_bytes_numeral be_int_Cons)
qed auto

lemma utf16_units_encode:
  "utf16_units us = Inr s \<Longrightarrow> \<forall>u \<in> set us. u < 65536 \<Longrightarrow>
     encode_text Utf16be s = Inr (concat (List.map (\<lambda>u. be_bytes 2 (int u)) us))"
proof (induction us arbitrary: s rule: utf16_units.induct)
  case 1
  then show ?case by simp
next
  case (2 u us)
  show ?case
  proof (cases "0xD800 \<le> u \<and> u < 0xDC00")
    case True
    then obtain v vs t where v: "us = v # vs" "0xDC00 \<le> v" "v < 0xE000" "utf16_units vs = Inr t"
      and s: "s = (0x10000 + (u - 0xD800) * 0x400 + (v - 0xDC00)) # t"
      using 2(3) by (auto split: list.splits if_splits)
    define c where "c = 0x10000 + (u - 0xD800) * 0x400 + (v - 0xDC00)"
    have ih: "encode_text Utf16be t = Inr (concat (List.map (\<lambda>u. be_bytes 2 (int u)) vs))"
      by (rule 2(1)) (use True v 2(4) in auto)
    have d: "(c - 0x10000) div 0x400 = u - 0xD800" "(c - 0x10000) mod 0x400 = v - 0xDC00" "0x10000 \<le> c" "c < 0x110000"
    proof -
      define x w where "x = u - 0xD800" and "w = v - 0xDC00"
      then have xw: "u = 0xD800 + x" "v = 0xDC00 + w" "x < 0x400" "w < 0x400"
        using True v(2,3) by auto
      then show "(c - 0x10000) div 0x400 = u - 0xD800" "(c - 0x10000) mod 0x400 = v - 0xDC00" "0x10000 \<le> c" "c < 0x110000"
        by (simp_all add: c_def)
    qed
    then have "utf16_point c = Inr (be_bytes 2 (int u) @ be_bytes 2 (int v))"
      using True v(2,3) by (simp add: utf16_point_def del: be_bytes_numeral)
    then show ?thesis using ih by (simp add: s c_def[symmetric] v(1) del: be_bytes_numeral)
  next
    case False
    then obtain t where t: "utf16_units us = Inr t" "s = u # t" and u: "\<not> (0xDC00 \<le> u \<and> u < 0xE000)"
      using 2(3) by (auto split: if_splits)
    have "encode_text Utf16be t = Inr (concat (List.map (\<lambda>u. be_bytes 2 (int u)) us))"
      by (rule 2(2)[OF False u t(1)]) (use 2(4) in simp)
    moreover have "utf16_point u = Inr (be_bytes 2 (int u))"
      using False u 2(4) by (auto simp: utf16_point_def simp del: be_bytes_numeral)
    ultimately show ?thesis by (simp add: t(2) del: be_bytes_numeral)
  qed
qed

lemma text_encode: "decode_text e bs = Inr s \<Longrightarrow> encode_text e s = Inr bs"
proof (cases e)
  case Latin1
  assume "decode_text e bs = Inr s"
  then show ?thesis using latin1_encode[of bs] Latin1 by simp
next
  case Utf16be
  assume "decode_text e bs = Inr s"
  then obtain us where us: "units bs = Inr us" "utf16_units us = Inr s" using Utf16be by auto
  then show ?thesis using utf16_units_encode[OF us(2)] units_encode[OF us(1)] Utf16be by simp
qed

section \<open>Signed integers\<close>

definition signed_int :: "bool \<Rightarrow> bytes \<Rightarrow> int" where
  "signed_int sgn' bs =
     (if sgn' \<and> bs \<noteq> [] \<and> 2 * be_int bs \<ge> 256 ^ length bs then be_int bs - 256 ^ length bs else be_int bs)"

definition signed_bytes :: "bool \<Rightarrow> nat \<Rightarrow> int \<Rightarrow> bytes result" where
  "signed_bytes sgn' n v =
     (if sgn' then
        (if - (256 ^ n) \<le> 2 * v \<and> 2 * v < 256 ^ n then Inr (be_bytes n (v mod 256 ^ n)) else Inl OverflowError)
      else to_bytes n v)"

lemma signed_bytes_length: "signed_bytes sgn' n v = Inr bs \<Longrightarrow> length bs = n"
  by (auto simp: signed_bytes_def split: if_splits)

lemma signed_int_bytes:
  assumes "signed_bytes sgn' n v = Inr bs" "0 < n"
  shows "signed_int sgn' bs = v"
proof (cases sgn')
  case False
  with assms show ?thesis by (auto simp: signed_bytes_def signed_int_def be_int_be_bytes)
next
  case True
  then have r: "- (256 ^ n) \<le> 2 * v" "2 * v < 256 ^ n" and bs: "bs = be_bytes n (v mod 256 ^ n)"
    using assms by (auto simp: signed_bytes_def split: if_splits)
  have b: "be_int bs = v mod 256 ^ n" "length bs = n" "bs \<noteq> []"
    using assms(2) by (auto simp: bs be_int_be_bytes_mod simp flip: length_0_conv)
  show ?thesis
  proof (cases "0 \<le> v")
    case pos: True
    have "v < 256 ^ n" using r pos by linarith
    then have "v mod 256 ^ n = v" using pos by simp
    then show ?thesis using r b by (simp add: signed_int_def)
  next
    case neg: False
    have "(v + 256 ^ n) mod 256 ^ n = v + 256 ^ n"
      by (rule mod_pos_pos_trivial) (use neg r in linarith)+
    then have "v mod 256 ^ n = v + 256 ^ n" by simp
    then show ?thesis using r b True neg by (simp add: signed_int_def)
  qed
qed

lemma signed_bytes_int:
  assumes "bs \<noteq> []"
  shows "signed_bytes sgn' (length bs) (signed_int sgn' bs) = Inr bs"
proof (cases "sgn' \<and> 2 * be_int bs \<ge> 256 ^ length bs")
  case True
  have "be_int bs < 256 ^ length bs" by (rule be_int_bound)
  moreover have "(be_int bs - 256 ^ length bs) mod 256 ^ length bs = be_int bs mod 256 ^ length bs"
    by simp
  ultimately show ?thesis using True assms
    by (simp add: signed_int_def signed_bytes_def be_bytes_mod)
next
  case False
  then have i: "signed_int sgn' bs = be_int bs" by (auto simp: signed_int_def)
  have b: "0 \<le> be_int bs" "be_int bs < 256 ^ length bs" using be_int_nonneg be_int_bound by auto
  then have m: "be_int bs mod 256 ^ length bs = be_int bs" by simp
  show ?thesis
  proof (cases sgn')
    case True
    then have "2 * be_int bs < 256 ^ length bs" using False by linarith
    moreover have "- (256 ^ length bs) \<le> 2 * be_int bs" using b by linarith
    ultimately show ?thesis using True unfolding i signed_bytes_def m by simp
  next
    case False
    then show ?thesis using b unfolding i signed_bytes_def by (simp add: to_bytes_def)
  qed
qed

lemma signed_bytes_inj:
  assumes "signed_bytes sgn' n v = Inr bs" "0 < n" "length cs = n"
  shows "signed_int sgn' cs = v \<longleftrightarrow> cs = bs"
proof
  assume "signed_int sgn' cs = v"
  moreover have "cs \<noteq> []" using assms(2,3) by auto
  ultimately have "signed_bytes sgn' n v = Inr cs" using signed_bytes_int[of cs sgn'] assms(3) by blast
  then show "cs = bs" using assms(1) by (metis Inr_inject)
next
  assume "cs = bs"
  then show "signed_int sgn' cs = v" using signed_int_bytes[OF assms(1,2)] by blast
qed

section \<open>Hexadecimal digits\<close>

definition hex_digit :: "nat \<Rightarrow> nat" where
  "hex_digit d = (if d < 10 then 48 + d else 87 + d)"

definition hex2 :: "byte \<Rightarrow> ustr" where
  "hex2 b = [hex_digit (unat b div 16), hex_digit (unat b mod 16)]"

end
