(* ===== verification/Values.thy ===== *)
theory Values
  imports Conversation Text_Codec
begin

text \<open>
  \<^verbatim>\<open>integration/value_conformance.py\<close>: compact byte specifications, and the decoders
  of portable integer, text and clock cases with the encoders of their round-trip form.
\<close>

section \<open>Byte specifications\<close>

definition literal_octets :: "json \<Rightarrow> bytes result" where
  "literal_octets v =
     bindE (arr_of v) (\<lambda>xs.
     mapE (\<lambda>x. case x of JInt i \<Rightarrow> if 0 \<le> i \<and> i \<le> 255 then Inr (byte i) else Inl ValueError
                        | _ \<Rightarrow> Inl ValueError) xs)"

definition repeated_octets :: "json \<Rightarrow> bytes result" where
  "repeated_octets v =
     (if \<not> is_obj v \<or> set (jkeys v) \<noteq> {''byte'', ''count''} then Inl ValueError
      else bindE (jget ''byte'' v) (\<lambda>b. bindE (jget ''count'' v) (\<lambda>c.
           case (b, c) of
             (JInt i, JInt n) \<Rightarrow>
               if 0 \<le> i \<and> i \<le> 255 \<and> 0 \<le> n \<and> n \<le> 1000000 then Inr (replicate (nat n) (byte i)) else Inl ValueError
           | _ \<Rightarrow> Inl ValueError)))"

definition chunk_octets :: "json \<Rightarrow> bytes result" where
  "chunk_octets chunk =
     (if \<not> is_obj chunk then Inl TypeError
      else if set (jkeys chunk) = {''bytes''} then bindE (jget ''bytes'' chunk) literal_octets
      else if set (jkeys chunk) = {''repeat''} then bindE (jget ''repeat'' chunk) repeated_octets
      else Inl ValueError)"

fun gather :: "bytes \<Rightarrow> json list \<Rightarrow> bytes result" where
  "gather acc [] = Inr acc"
| "gather acc (chunk # rest) =
     bindE (chunk_octets chunk) (\<lambda>bs.
     if length (acc @ bs) > 1000000 then Inl ValueError else gather (acc @ bs) rest)"

definition spec_octets :: "json \<Rightarrow> bytes result" where
  "spec_octets v =
     (if \<not> is_obj v \<or> set (jkeys v) \<noteq> {''chunks''} then Inl ValueError
      else bindE (jget ''chunks'' v) (\<lambda>cs. bindE (arr_of cs) (gather [])))"

section \<open>Integers\<close>

record clock =
  ck_year :: int
  ck_month :: int
  ck_day :: int
  ck_hour :: int
  ck_minute :: int
  ck_second :: int
  ck_millisecond :: int
  ck_weekday :: int

datatype value_result =
    VReject string
  | VInteger bytes ustr
  | VText "bytes option" ustr
  | VClock "bytes option" clock

definition integer_codecs :: "(string \<times> (bool \<times> nat)) list" where
  "integer_codecs =
     [(''int8'', True, 1), (''int16'', True, 2), (''int32'', True, 4), (''int64'', True, 8),
      (''uint8'', False, 1), (''uint16'', False, 2), (''uint32'', False, 4), (''uint64'', False, 8)]"

text \<open>A dictionary look-up hashes its key: a list or a dictionary is a \<open>TypeError\<close>.\<close>

definition hashable :: "json \<Rightarrow> unit result" where
  "hashable v = guardE (\<not> is_arr v \<and> \<not> is_obj v) TypeError"

text \<open>Decimal text that is its own canonical form; \<^verbatim>\<open>int\<close> refuses more than 4300 digits.\<close>

definition canonical_int :: "json \<Rightarrow> (ustr \<times> int) result" where
  "canonical_int v = (case v of
     JStr s \<Rightarrow> bindE (py_int s) (\<lambda>i.
       if length (nat_str (nat \<bar>i\<bar>)) \<le> 4300 \<and> s = int_str i then Inr (s, i) else Inl ValueError)
   | _ \<Rightarrow> Inl ValueError)"

definition offset_of :: "json \<Rightarrow> nat result" where
  "offset_of v = (case v of JInt i \<Rightarrow> if 0 \<le> i then Inr (nat i) else Inl ValueError | _ \<Rightarrow> Inl ValueError)"

definition decode_integer :: "json \<Rightarrow> value_result result" where
  "decode_integer test =
     bindE (jget ''codec'' test) (\<lambda>codec. bindE (hashable codec) (\<lambda>_.
     bindE (enum_of integer_codecs codec) (\<lambda>(sgn', w).
     bindE (jget ''input_value'' test) (\<lambda>raw. bindE (canonical_int raw) (\<lambda>(_, input).
     bindE (jget ''data'' test) (\<lambda>d. bindE (spec_octets d) (\<lambda>data.
     bindE (jget ''offset'' test) (\<lambda>o'. bindE (offset_of o') (\<lambda>offset.
     if length data < offset + w then Inr (VReject ''truncated-value'')
     else
       let value = signed_int sgn' (slice offset (offset + w) data)
       in bindE (signed_bytes sgn' w input) (\<lambda>encoded.
          Inr (VInteger encoded (int_str value))))))))))))"

section \<open>Text fields\<close>

definition encodings :: "(string \<times> encoding) list" where
  "encodings = [(''latin-1'', Latin1), (''utf-16-be'', Utf16be)]"

text \<open>The round-trip form: the encoded field, or \<open>None\<close> for \<open>encode-value\<close>.\<close>

definition encode_field :: "encoding \<Rightarrow> int \<Rightarrow> ustr \<Rightarrow> bytes option result" where
  "encode_field e maximum value =
     (case encode_text e value of
        Inl _ \<Rightarrow> Inr None
      | Inr raw \<Rightarrow>
          let current = length raw div width e
          in if maximum > int (capacity e) \<or> int current > maximum then Inr None
             else bindE (to_bytes (width e) maximum) (\<lambda>m. bindE (to_bytes (width e) (int current)) (\<lambda>c.
                  Inr (Some (m @ c @ raw @ replicate ((nat maximum - current) * width e) 0)))))"

definition read_field :: "encoding \<Rightarrow> bytes \<Rightarrow> ustr option" where
  "read_field e data =
     (if length data < width e * 2 then None
      else
        let maximum = nat (be_int (take (width e) data));
            current = nat (be_int (slice (width e) (width e * 2) data))
        in if maximum > capacity e \<or> current > maximum \<or> length data < (maximum + 2) * width e then None
           else case decode_text e (slice (width e * 2) (width e * (current + 2)) data) of
                  Inl _ \<Rightarrow> None | Inr value \<Rightarrow> Some value)"

definition roundtrip_field :: "encoding \<Rightarrow> json \<Rightarrow> bytes option result" where
  "roundtrip_field e test =
     bindE (jget ''maximum'' test) (\<lambda>m. bindE (jget ''input_value'' test) (\<lambda>v.
     case (m, v) of
       (JInt maximum, JStr value) \<Rightarrow> if maximum < 0 then Inl ValueError else encode_field e maximum value
     | _ \<Rightarrow> Inl ValueError))"

definition decode_string :: "json \<Rightarrow> value_result result" where
  "decode_string test =
     bindE (jget ''encoding'' test) (\<lambda>name. bindE (enum_of encodings name) (\<lambda>e.
     bindE (jget ''operation'' test) (\<lambda>operation.
     let decode = (\<lambda>fields.
           bindE (jget ''data'' test) (\<lambda>d. bindE (spec_octets d) (\<lambda>data.
           bindE (jget ''offset'' test) (\<lambda>o'. bindE (offset_of o') (\<lambda>offset.
           Inr (case read_field e (drop offset data) of
                  None \<Rightarrow> VReject ''value-codec'' | Some value \<Rightarrow> VText fields value))))))
     in if operation = jtext ''roundtrip'' then
          bindE (roundtrip_field e test) (\<lambda>encoded.
          case encoded of None \<Rightarrow> Inr (VReject ''encode-value'') | Some bs \<Rightarrow> decode (Some bs))
        else if operation \<noteq> jtext ''decode'' then Inl ValueError
        else decode None)))"

section \<open>Clocks\<close>

definition leap :: "int \<Rightarrow> bool" where
  "leap y \<longleftrightarrow> y mod 4 = 0 \<and> (y mod 100 \<noteq> 0 \<or> y mod 400 = 0)"

definition month_days :: "int \<Rightarrow> int \<Rightarrow> int" where
  "month_days y m = (if m = 2 then (if leap y then 29 else 28) else if m \<in> {4, 6, 9, 11} then 30 else 31)"

text \<open>
  The constructor \<^verbatim>\<open>datetime.datetime\<close>: its arguments become C integers first.
\<close>

definition datetime_check :: "clock \<Rightarrow> unit result" where
  "datetime_check c =
     (if list_ex (\<lambda>v. v < - (2 ^ 31) \<or> 2 ^ 31 \<le> v)
          [ck_year c, ck_month c, ck_day c, ck_hour c, ck_minute c, ck_second c]
      then Inl OverflowError
      else guardE (1 \<le> ck_year c \<and> ck_year c \<le> 9999 \<and> 1 \<le> ck_month c \<and> ck_month c \<le> 12
             \<and> 1 \<le> ck_day c \<and> ck_day c \<le> month_days (ck_year c) (ck_month c)
             \<and> 0 \<le> ck_hour c \<and> ck_hour c \<le> 23 \<and> 0 \<le> ck_minute c \<and> ck_minute c \<le> 59
             \<and> 0 \<le> ck_second c \<and> ck_second c \<le> 59) ValueError)"

definition clock_range :: "clock \<Rightarrow> unit result" where
  "clock_range c =
     (if \<not> (1990 \<le> ck_year c \<and> ck_year c \<le> 2089) \<or> \<not> (0 \<le> ck_millisecond c \<and> ck_millisecond c \<le> 999)
        \<or> \<not> (1 \<le> ck_weekday c \<and> ck_weekday c \<le> 7)
      then Inl ValueError else datetime_check c)"

definition clock_keys :: "string list" where
  "clock_keys = [''year'', ''month'', ''day'', ''hour'', ''minute'', ''second'', ''millisecond'', ''weekday'']"

definition int_field :: "string \<Rightarrow> json \<Rightarrow> int result" where
  "int_field k v = bindE (jget k v) (\<lambda>x. case x of JInt i \<Rightarrow> Inr i | _ \<Rightarrow> Inl ValueError)"

text \<open>
  \<^verbatim>\<open>validate_clock\<close> on a corpus value: \<^verbatim>\<open>set(value)\<close> needs an iterable of hashable
  elements, and only a dictionary has \<^verbatim>\<open>values\<close>.
\<close>

definition validate_clock :: "json \<Rightarrow> clock result" where
  "validate_clock v = (case v of
     JObj kvs \<Rightarrow>
       bindE (guardE (set (List.map fst kvs) = set clock_keys) ValueError) (\<lambda>_.
       bindE (int_field ''year'' v) (\<lambda>y. bindE (int_field ''month'' v) (\<lambda>m. bindE (int_field ''day'' v) (\<lambda>d.
       bindE (int_field ''hour'' v) (\<lambda>h. bindE (int_field ''minute'' v) (\<lambda>mi. bindE (int_field ''second'' v) (\<lambda>s.
       bindE (int_field ''millisecond'' v) (\<lambda>ms. bindE (int_field ''weekday'' v) (\<lambda>w.
       let c = \<lparr>ck_year = y, ck_month = m, ck_day = d, ck_hour = h, ck_minute = mi, ck_second = s,
                ck_millisecond = ms, ck_weekday = w\<rparr>
       in bindE (clock_range c) (\<lambda>_. Inr c))))))))))
   | JArr xs \<Rightarrow> if list_ex (\<lambda>x. is_arr x \<or> is_obj x) xs then Inl TypeError
               else if set xs = set (List.map jtext clock_keys) then Inl AttributeError else Inl ValueError
   | JStr s \<Rightarrow> Inl ValueError
   | _ \<Rightarrow> Inl TypeError)"

definition bcd :: "int \<Rightarrow> int" where
  "bcd v =
     (let hex = (\<lambda>ds. foldl (\<lambda>acc c. 16 * acc + (int c - 48)) 0 ds)
      in if v < 0 then - hex (nat_str (nat (- v))) else hex (zero_pad 2 (nat v)))"

definition clock_bytes :: "clock \<Rightarrow> bytes result" where
  "clock_bytes c = bytes_of [0, 0x19, bcd (ck_year c mod 100), bcd (ck_month c), bcd (ck_day c), bcd (ck_hour c),
     bcd (ck_minute c), bcd (ck_second c), bcd (ck_millisecond c div 10),
     (ck_millisecond c mod 10) * 16 + ck_weekday c]"

definition read_clock :: "bytes \<Rightarrow> clock option result" where
  "read_clock data =
     (if length data \<noteq> 10 then Inr None
      else
        let digits = List.map hex2 (slice 2 9 data); final = data ! 9
        in if list_ex (\<lambda>d. \<not> list_all is_digit d) digits \<or> unat final div 16 > 9 then Inr None
           else bindE (mapE py_int digits) (\<lambda>ns.
             let year = ns ! 0;
                 c = \<lparr>ck_year = (if year < 90 then 2000 + year else 1900 + year), ck_month = ns ! 1, ck_day = ns ! 2,
                      ck_hour = ns ! 3, ck_minute = ns ! 4, ck_second = ns ! 5,
                      ck_millisecond = ns ! 6 * 10 + int (unat final div 16), ck_weekday = int (unat final mod 16)\<rparr>
             in case clock_range c of
                  Inr _ \<Rightarrow> Inr (Some c)
                | Inl e \<Rightarrow> if e = ValueError then Inr None else Inl e))"

definition decode_clock :: "json \<Rightarrow> value_result result" where
  "decode_clock test =
     bindE (jget ''operation'' test) (\<lambda>operation.
     let decode = (\<lambda>fields.
           bindE (jget ''data'' test) (\<lambda>d. bindE (spec_octets d) (\<lambda>data.
           bindE (read_clock data) (\<lambda>c.
           Inr (case c of None \<Rightarrow> VReject ''clock-validation'' | Some c \<Rightarrow> VClock fields c)))))
     in if operation = jtext ''roundtrip'' then
          bindE (jget ''input_value'' test) (\<lambda>v.
          case validate_clock v of
            Inl e \<Rightarrow> if e = ValueError then Inr (VReject ''encode-clock'') else Inl e
          | Inr c \<Rightarrow> bindE (clock_bytes c) (\<lambda>bs. decode (Some bs)))
        else if operation \<noteq> jtext ''decode'' then Inl ValueError
        else decode None)"

section \<open>Integers read back\<close>

lemma enum_of_member: "enum_of tbl v = Inr a \<Longrightarrow> a \<in> set (List.map snd tbl)"
  by (induction tbl v rule: enum_of.induct) (auto split: if_splits)

text \<open>An accepted integer case is a faithful codec: the reported value is the input text exactly when the
  octets at the offset are the reported encoding of that input, so encoding and decoding are
  mutually inverse at every width and signedness.\<close>
lemma integer_case_roundtrip:
  assumes "decode_integer test = Inr (VInteger encoded value)"
    and "jget ''data'' test = Inr d" and "spec_octets d = Inr data"
    and "jget ''offset'' test = Inr (JInt off)" and "jget ''input_value'' test = Inr (JStr raw)"
  shows "value = raw \<longleftrightarrow> slice (nat off) (nat off + length encoded) data = encoded"
proof -
  obtain sgn' w input where w: "(sgn', w) \<in> set (List.map snd integer_codecs)"
    and raw: "raw = int_str input" and off: "0 \<le> off" "nat off + w \<le> length data"
    and enc: "signed_bytes sgn' w input = Inr encoded"
    and val: "value = int_str (signed_int sgn' (slice (nat off) (nat off + w) data))"
    using assms
    by (auto simp: decode_integer_def Let_def canonical_int_def offset_of_def linorder_not_less
        split: if_splits dest!: enum_of_member)
  have "0 < w" using w by (auto simp: integer_codecs_def)
  moreover have "length (slice (nat off) (nat off + w) data) = w"
    using off(2) by (simp add: length_slice)
  moreover have "length encoded = w" using enc by (rule signed_bytes_length)
  ultimately show ?thesis
    using signed_bytes_inj[OF enc] by (simp add: val raw int_str_inj)
qed

section \<open>Text fields read back\<close>

text \<open>C9: A text field that the encoder produces is read back as the same text whatever follows it, has
  exactly the advertised extent, and the encoder itself never raises for a non-negative capacity.\<close>
theorem text_field_roundtrip:
  assumes "0 \<le> maximum"
  shows "\<exists>r. encode_field e maximum value = Inr r
    \<and> (\<forall>bs. r = Some bs \<longrightarrow> length bs = width e * (nat maximum + 2) \<and> read_field e (bs @ rest) = Some value)"
proof (cases "encode_text e value")
  case (Inl x)
  then show ?thesis by (simp add: encode_field_def)
next
  case (Inr raw)
  define cur where "cur = length raw div width e"
  have w: "width e = 1 \<or> width e = 2" by (cases e) simp_all
  have lr: "length raw = cur * width e"
    using text_length[OF Inr] by (simp add: cur_def dvd_eq_mod_eq_0[symmetric])
  show ?thesis
  proof (cases "maximum > int (capacity e) \<or> int cur > maximum")
    case True
    then show ?thesis using Inr by (simp add: encode_field_def cur_def)
  next
    case False
    have cap: "int (capacity e) < 256 ^ width e" by (cases e) simp_all
    then have m: "maximum < 256 ^ width e" "int cur < 256 ^ width e" using False by linarith+
    define bs where "bs = be_bytes (width e) maximum @ be_bytes (width e) (int cur) @ raw
        @ replicate ((nat maximum - cur) * width e) 0"
    have enc: "encode_field e maximum value = Inr (Some bs)"
      using Inr m False assms by (simp add: encode_field_def cur_def[symmetric] to_bytes_ok bs_def)
    have cm: "cur \<le> nat maximum" using False assms by linarith
    have len: "length bs = width e * (nat maximum + 2)"
      using cm by (simp add: bs_def lr algebra_simps diff_mult_distrib)
    have t: "take (width e) (bs @ rest) = be_bytes (width e) maximum"
      "slice (width e) (width e * 2) (bs @ rest) = be_bytes (width e) (int cur)"
      "slice (width e * 2) (width e * (cur + 2)) (bs @ rest) = raw"
      using lr by (simp_all add: bs_def slice_def algebra_simps)
    have v: "nat (be_int (be_bytes (width e) maximum)) = nat maximum"
      "nat (be_int (be_bytes (width e) (int cur))) = cur"
      using m assms by (simp_all add: be_int_be_bytes)
    have le: "(nat maximum + 2) * width e \<le> length (bs @ rest)" "width e * 2 \<le> length (bs @ rest)"
      using len by (simp_all add: algebra_simps)
    have "read_field e (bs @ rest) = Some value"
      using le False assms cm text_decode[OF Inr] unfolding read_field_def t v Let_def
      by (simp add: nat_le_iff linorder_not_less)
    with enc len show ?thesis by simp
  qed
qed

section \<open>Clocks read back\<close>

lemma nat_str_two: "10 \<le> n \<Longrightarrow> n < 100 \<Longrightarrow> nat_str n = [48 + n div 10, 48 + n mod 10]"
proof -
  assume "10 \<le> n" "n < 100"
  then have "\<not> n < 10" "n div 10 < 10" by auto
  then show ?thesis by (simp add: nat_str_step nat_str_small)
qed

lemma zero_pad2: "n < 100 \<Longrightarrow> zero_pad 2 n = [48 + n div 10, 48 + n mod 10]"
  by (cases "n < 10") (simp_all add: zero_pad_def nat_str_small nat_str_two)

lemma bcd_val: "0 \<le> v \<Longrightarrow> v < 100 \<Longrightarrow> bcd v = 16 * (v div 10) + v mod 10"
proof -
  assume "0 \<le> v" "v < 100"
  then obtain n where n: "v = int n" "n < 100" by (metis nat_less_iff nonneg_int_cases of_nat_less_iff of_nat_numeral)
  then show ?thesis by (simp add: bcd_def zero_pad2 zdiv_int zmod_int)
qed

lemma hex2_byte: "a < 16 \<Longrightarrow> b < 16 \<Longrightarrow> hex2 (byte (int (16 * a + b))) = [hex_digit a, hex_digit b]"
proof -
  assume ab: "a < 16" "b < 16"
  have "uint (byte (int (16 * a + b))) = int (16 * a + b)" by (rule uint_byte_id) (use ab in auto)
  then have "unat (byte (int (16 * a + b))) = 16 * a + b" by (metis nat_int nat_uint_eq)
  then show ?thesis using ab by (simp add: hex2_def)
qed

lemma hex2_bcd: "0 \<le> v \<Longrightarrow> v < 100 \<Longrightarrow> hex2 (byte (bcd v)) = zero_pad 2 (nat v)"
proof -
  assume "0 \<le> v" "v < 100"
  then obtain n where n: "v = int n" "n < 100" by (metis nat_less_iff nonneg_int_cases of_nat_less_iff of_nat_numeral)
  have "bcd v = int (16 * (n div 10) + n mod 10)"
    using n by (simp add: bcd_val zdiv_int zmod_int)
  then show ?thesis using n hex2_byte[of "n div 10" "n mod 10"]
    by (simp add: zero_pad2 hex_digit_def)
qed

lemma hex2_digits:
  assumes "list_all is_digit (hex2 b)"
  obtains v where "0 \<le> v" "v < 100" "b = byte (bcd v)"
proof -
  define hi lo where "hi = unat b div 16" and "lo = unat b mod 16"
  have d: "is_digit (hex_digit d) \<Longrightarrow> d < 10" for d by (auto simp: is_digit_def hex_digit_def split: if_splits)
  have hl: "hi < 10" "lo < 10" using assms d by (simp_all add: hex2_def hi_def lo_def)
  have "bcd (int (10 * hi + lo)) = int (16 * hi + lo)"
    using hl by (subst bcd_val) (simp_all add: zdiv_int zmod_int)
  also have "16 * hi + lo = unat b" by (simp add: hi_def lo_def)
  finally have "b = byte (bcd (int (10 * hi + lo)))" by (simp add: byte_def)
  then show ?thesis using hl by (intro that[of "int (10 * hi + lo)"]) simp_all
qed

lemma clock_range_bounds:
  assumes "clock_range c = Inr ()"
  shows "1990 \<le> ck_year c" "ck_year c \<le> 2089" "0 \<le> ck_month c" "ck_month c < 100"
    "0 \<le> ck_day c" "ck_day c < 100" "0 \<le> ck_hour c" "ck_hour c < 100" "0 \<le> ck_minute c" "ck_minute c < 100"
    "0 \<le> ck_second c" "ck_second c < 100" "0 \<le> ck_millisecond c" "ck_millisecond c \<le> 999"
    "1 \<le> ck_weekday c" "ck_weekday c \<le> 7"
proof -
  have "month_days y m \<le> 31" for y m by (simp add: month_days_def)
  then have "ck_day c \<le> 31" using assms order_trans
    by (fastforce simp: clock_range_def datetime_check_def split: if_splits)
  then show "ck_day c < 100" by simp
qed (use assms in \<open>auto simp: clock_range_def datetime_check_def split: if_splits\<close>)

definition packed_clock :: "clock \<Rightarrow> bytes" where
  "packed_clock c = List.map (\<lambda>v. byte (bcd v))
     [ck_year c mod 100, ck_month c, ck_day c, ck_hour c, ck_minute c, ck_second c, ck_millisecond c div 10]
   @ [byte ((ck_millisecond c mod 10) * 16 + ck_weekday c)]"

lemma bcd_bounds: "0 \<le> v \<Longrightarrow> v < 100 \<Longrightarrow> 0 \<le> bcd v \<and> bcd v < 256"
  by (simp add: bcd_val)

lemma clock_bytes_packed:
  assumes "clock_range c = Inr ()"
  shows "clock_bytes c = Inr (0 # 0x19 # packed_clock c)"
proof -
  note b = clock_range_bounds[OF assms]
  have "0 \<le> ck_millisecond c div 10" "ck_millisecond c div 10 < 100" using b(13,14) by presburger+
  moreover have "0 \<le> ck_year c mod 100" "ck_year c mod 100 < 100" by simp_all
  ultimately have "\<forall>v \<in> {ck_year c mod 100, ck_month c, ck_day c, ck_hour c, ck_minute c, ck_second c,
      ck_millisecond c div 10}. 0 \<le> bcd v \<and> bcd v < 256"
    using b bcd_bounds by blast
  moreover have "0 \<le> (ck_millisecond c mod 10) * 16 + ck_weekday c" "(ck_millisecond c mod 10) * 16 + ck_weekday c < 256"
    using b(15,16) by presburger+
  ultimately show ?thesis by (simp add: clock_bytes_def bytes_of_Inr_iff packed_clock_def byte_def)
qed

lemma mapE_py_int_pads: "mapE py_int (List.map (\<lambda>v. zero_pad 2 (nat v)) vs) = Inr (List.map (\<lambda>v. int (nat v)) vs)"
  by (induction vs) (simp_all add: py_int_zero_pad)

lemma zero_pad2_digits: "n < 100 \<Longrightarrow> list_all is_digit (zero_pad 2 n)"
  by (simp add: zero_pad2 is_digit_def less_mult_imp_div_less) presburger

lemma final_nibbles:
  "0 \<le> m \<Longrightarrow> m < 16 \<Longrightarrow> 0 \<le> w \<Longrightarrow> w < 16 \<Longrightarrow> f = byte (m * 16 + w) \<longleftrightarrow>
     int (unat f div 16) = m \<and> int (unat f mod 16) = w"
proof -
  assume mw: "0 \<le> m" "m < 16" "0 \<le> w" "w < 16"
  have e: "uint f = m * 16 + w \<longleftrightarrow> f = byte (m * 16 + w)"
    by (rule uint_eq_byte) (use mw in linarith)+
  have n: "u = m * 16 + w \<longleftrightarrow> u div 16 = m \<and> u mod 16 = w" for u
  proof
    assume "u = m * 16 + w"
    then have "u = 16 * m + w" by simp
    with mw show "u div 16 = m \<and> u mod 16 = w" using int_div_pos_eq int_mod_pos_eq by blast
  next
    assume "u div 16 = m \<and> u mod 16 = w"
    then show "u = m * 16 + w" using div_mult_mod_eq[of u 16] by simp
  qed
  have u: "int (unat f) = uint f" by simp
  have "int (unat f div 16) = uint f div 16" "int (unat f mod 16) = uint f mod 16"
    unfolding u[symmetric] by (metis zdiv_int of_nat_numeral) (metis zmod_int of_nat_numeral)
  then show ?thesis using e n[of "uint f"] by metis
qed

lemma read_packed:
  assumes "length digits = 7" "\<forall>v \<in> set digits. 0 \<le> v \<and> v < 100"
  shows "read_clock (a # b # List.map (\<lambda>v. byte (bcd v)) digits @ [f]) =
    (if unat f div 16 > 9 then Inr None
     else let year = digits ! 0;
              c = \<lparr>ck_year = (if year < 90 then 2000 + year else 1900 + year), ck_month = digits ! 1,
                   ck_day = digits ! 2, ck_hour = digits ! 3, ck_minute = digits ! 4, ck_second = digits ! 5,
                   ck_millisecond = digits ! 6 * 10 + int (unat f div 16), ck_weekday = int (unat f mod 16)\<rparr>
          in case clock_range c of Inr _ \<Rightarrow> Inr (Some c) | Inl e \<Rightarrow> if e = ValueError then Inr None else Inl e)"
proof -
  let ?data = "a # b # List.map (\<lambda>v. byte (bcd v)) digits @ [f]"
  have sl: "List.map hex2 (slice 2 9 ?data) = List.map (\<lambda>v. zero_pad 2 (nat v)) digits"
    using assms by (simp add: slice_def hex2_bcd)
  have dig: "\<not> list_ex (\<lambda>d. \<not> list_all is_digit d) (List.map (\<lambda>v. zero_pad 2 (nat v)) digits)"
    using assms(2) by (auto simp: list_ex_iff zero_pad2_digits nat_less_iff)
  have ints: "List.map (\<lambda>v. int (nat v)) digits = digits" using assms(2) by (simp add: map_idI)
  have len: "length ?data = 10" and fin: "?data ! 9 = f" using assms(1) by (simp_all add: nth_append)
  show ?thesis
    unfolding read_clock_def Let_def sl len fin using dig mapE_py_int_pads[of digits] unfolding ints by simp
qed

text \<open>The decimal digits of an accepted clock value, and the clock they spell.\<close>

lemma read_clock_layout:
  assumes r: "read_clock data = Inr (Some c)"
  obtains a b ds f where "length ds = 7" "\<forall>v \<in> set ds. 0 \<le> v \<and> v < 100"
    "data = a # b # List.map (\<lambda>v. byte (bcd v)) ds @ [f]"
proof -
  have len: "length data = 10" using r by (auto simp: read_clock_def split: if_splits)
  have "data = List.map ((!) data) [0..<10]" using len by (metis map_nth)
  then have dl: "data = [data ! 0, data ! 1, data ! 2, data ! 3, data ! 4, data ! 5, data ! 6, data ! 7, data ! 8, data ! 9]"
    by (simp add: upt_rec eval_nat_numeral)
  have "\<not> list_ex (\<lambda>d. \<not> list_all is_digit d) (List.map hex2 (slice 2 9 data))"
    using r len by (simp only: read_clock_def Let_def split: if_split_asm) simp_all
  then have dec: "\<forall>b \<in> set (slice 2 9 data). list_all is_digit (hex2 b)"
    unfolding list_ex_iff set_map by blast
  have "list_all is_digit (hex2 (data ! i))" if r29: "2 \<le> i" "i < 9" for i
  proof -
    obtain k where i: "i = 2 + k" using r29(1) by (metis le_Suc_ex)
    then have k: "k < 7" using r29(2) by simp
    have "slice 2 9 data ! k = data ! i"
      unfolding slice_def i using k len by (subst nth_take) (simp, subst nth_drop, simp_all)
    moreover have "k < length (slice 2 9 data)" using k len by (simp add: length_slice)
    ultimately have "data ! i \<in> set (slice 2 9 data)" by (metis nth_mem)
    with dec show ?thesis by blast
  qed
  then have "\<exists>v. 0 \<le> v \<and> v < 100 \<and> data ! i = byte (bcd v)" if "2 \<le> i" "i < 9" for i
    using that hex2_digits by metis
  then obtain g where g: "\<And>i. 2 \<le> i \<Longrightarrow> i < 9 \<Longrightarrow> 0 \<le> g i \<and> g i < 100 \<and> data ! i = byte (bcd (g i))"
    by metis
  define ds where "ds = [g 2, g 3, g 4, g 5, g 6, g 7, g 8]"
  have ds: "length ds = 7" "\<forall>v \<in> set ds. 0 \<le> v \<and> v < 100" using g by (auto simp: ds_def)
  have "data = data ! 0 # data ! 1 # List.map (\<lambda>v. byte (bcd v)) ds @ [data ! 9]"
    by (subst dl) (simp add: ds_def g)
  with ds show thesis by (rule that)
qed

lemma read_clock_fields:
  assumes "read_clock data = Inr (Some c)"
  obtains a b ds f where "length ds = 7" "\<forall>v \<in> set ds. 0 \<le> v \<and> v < 100"
    "data = a # b # List.map (\<lambda>v. byte (bcd v)) ds @ [f]" "clock_range c = Inr ()" "int (unat f div 16) \<le> 9"
    "c = \<lparr>ck_year = (if ds ! 0 < 90 then 2000 + ds ! 0 else 1900 + ds ! 0), ck_month = ds ! 1, ck_day = ds ! 2,
       ck_hour = ds ! 3, ck_minute = ds ! 4, ck_second = ds ! 5, ck_millisecond = ds ! 6 * 10 + int (unat f div 16),
       ck_weekday = int (unat f mod 16)\<rparr>"
proof -
  obtain a b ds f where l: "length ds = 7" "\<forall>v \<in> set ds. 0 \<le> v \<and> v < 100"
    "data = a # b # List.map (\<lambda>v. byte (bcd v)) ds @ [f]"
    using read_clock_layout[OF assms] .
  show thesis
    using assms unfolding l(3) read_packed[OF l(1,2)] Let_def
    by (intro that[OF l]) (auto split: if_splits sum.splits)
qed

text \<open>The clock decoder and the clock encoder are exact inverses: a ten-octet value decodes to a clock
  precisely when that clock is valid and the octets after the two-octet prefix are its packed-decimal
  encoding.\<close>

lemma clock_exact:
  "read_clock data = Inr (Some c) \<longleftrightarrow>
     clock_range c = Inr () \<and> (\<exists>a b bs. clock_bytes c = Inr bs \<and> data = a # b # drop 2 bs)"
proof
  assume "read_clock data = Inr (Some c)"
  then obtain a b ds f where l: "length ds = 7" "\<forall>v \<in> set ds. 0 \<le> v \<and> v < 100"
    "data = a # b # List.map (\<lambda>v. byte (bcd v)) ds @ [f]" and ok: "clock_range c = Inr ()"
    and hi9: "int (unat f div 16) \<le> 9" and c: "c = \<lparr>ck_year = (if ds ! 0 < 90 then 2000 + ds ! 0 else 1900 + ds ! 0),
       ck_month = ds ! 1, ck_day = ds ! 2, ck_hour = ds ! 3, ck_minute = ds ! 4, ck_second = ds ! 5,
       ck_millisecond = ds ! 6 * 10 + int (unat f div 16), ck_weekday = int (unat f mod 16)\<rparr>"
    by (rule read_clock_fields)
  define hi lo where "hi = int (unat f div 16)" and "lo = int (unat f mod 16)"
  have n: "0 \<le> hi" "hi \<le> 9" "0 \<le> lo" "lo < 16" using hi9 by (simp_all add: hi_def lo_def)
  then have f: "f = byte (hi * 16 + lo)" using final_nibbles[of hi lo f] by (simp add: hi_def lo_def)
  have g: "0 \<le> ds ! 0" "ds ! 0 < 100" using l(1,2) by simp_all
  have "(if ds ! 0 < 90 then 2000 + ds ! 0 else 1900 + ds ! 0) mod 100 = ds ! 0"
  proof -
    have "0 \<le> y \<Longrightarrow> y < 100 \<Longrightarrow> (2000 + y) mod 100 = y \<and> (1900 + y) mod 100 = y" for y :: int
      using int_mod_pos_eq[of "2000 + y" 100 20 y] int_mod_pos_eq[of "1900 + y" 100 19 y] by simp
    then show ?thesis using g by simp
  qed
  moreover have "(ds ! 6 * 10 + hi) div 10 = ds ! 6" "(ds ! 6 * 10 + hi) mod 10 = hi" using n by simp_all
  moreover have "ds = [ds ! 0, ds ! 1, ds ! 2, ds ! 3, ds ! 4, ds ! 5, ds ! 6]"
    using l(1) by (simp add: list_eq_iff_nth_eq less_Suc_eq numeral_eq_Suc)
  ultimately have "packed_clock c = List.map (\<lambda>v. byte (bcd v)) ds @ [f]"
    by (metis (no_types, lifting) c f hi_def lo_def packed_clock_def clock.select_convs)
  with ok clock_bytes_packed[OF ok] show "clock_range c = Inr () \<and> (\<exists>a b bs. clock_bytes c = Inr bs \<and> data = a # b # drop 2 bs)"
    by (simp add: l(3))
next
  assume "clock_range c = Inr () \<and> (\<exists>a b bs. clock_bytes c = Inr bs \<and> data = a # b # drop 2 bs)"
  then obtain a b where ok: "clock_range c = Inr ()" and data: "data = a # b # packed_clock c"
    using clock_bytes_packed by fastforce
  note bd = clock_range_bounds[OF ok]
  define ds where "ds = [ck_year c mod 100, ck_month c, ck_day c, ck_hour c, ck_minute c, ck_second c, ck_millisecond c div 10]"
  define f where "f = byte ((ck_millisecond c mod 10) * 16 + ck_weekday c)"
  have ds: "length ds = 7" "\<forall>v \<in> set ds. 0 \<le> v \<and> v < 100" using bd by (auto simp: ds_def)
  have fn: "int (unat f div 16) = ck_millisecond c mod 10" "int (unat f mod 16) = ck_weekday c"
    using final_nibbles[of "ck_millisecond c mod 10" "ck_weekday c" f] bd(15,16) by (simp_all add: f_def)
  have "\<not> unat f div 16 > 9" using fn(1) by linarith
  moreover have "(if ck_year c mod 100 < 90 then 2000 + ck_year c mod 100 else 1900 + ck_year c mod 100) = ck_year c"
    using bd(1,2) by presburger
  moreover have "ck_millisecond c div 10 * 10 + ck_millisecond c mod 10 = ck_millisecond c" by simp
  moreover have "data = a # b # List.map (\<lambda>v. byte (bcd v)) ds @ [f]"
    by (simp add: data packed_clock_def ds_def f_def)
  ultimately show "read_clock data = Inr (Some c)"
    using read_packed[OF ds, of a b f] ok fn
    by (cases c; cases "ck_year c mod 100 < 90") (simp_all add: ds_def Let_def)
qed

section \<open>Examples\<close>

definition ex_integer :: json where
  "ex_integer = JObj [(''codec'', jtext ''int16''), (''input_value'', jtext ''-2''),
     (''data'', JObj [(''chunks'', JArr [JObj [(''bytes'', JArr [JInt 9, JInt 255, JInt 254])]])]),
     (''offset'', JInt 1)]"

lemma ex_integer_decode: "decode_integer ex_integer = Inr (VInteger [255, 254] (int_str (-2)))"
proof -
  have n2: "nat_str 2 = [50]" by (simp add: nat_str_small)
  then have "canonical_int (jtext ''-2'') = Inr (int_str (-2), -2)"
    using py_int_str[of "-2"] by (simp add: canonical_int_def int_str_def ascii_def)
  then show ?thesis
    by (simp add: ex_integer_def decode_integer_def hashable_def integer_codecs_def spec_octets_def
        chunk_octets_def literal_octets_def offset_of_def signed_int_def signed_bytes_def slice_def byte_def)
qed

lemma integer_case_roundtrip_example:
  "ascii ''-2'' = int_str (-2) \<longleftrightarrow> slice 1 3 [9, 255, 254 :: byte] = [255, 254]"
proof -
  have n2: "nat_str 2 = [50]" by (simp add: nat_str_small)
  have a: "ascii ''-2'' = int_str (-2)" by (simp add: ascii_def int_str_def n2)
  show ?thesis
    using integer_case_roundtrip[OF ex_integer_decode, of _ "[9, 255, 254]" 1 "ascii ''-2''"] a
    by (simp add: ex_integer_def spec_octets_def chunk_octets_def literal_octets_def byte_def slice_def)
qed

theorem text_field_roundtrip_witness:
  "\<exists>r. encode_field Utf16be 3 [0x1F600] = Inr r
    \<and> (\<forall>bs. r = Some bs \<longrightarrow> length bs = 10 \<and> read_field Utf16be (bs @ [1, 2]) = Some [0x1F600])"
  using text_field_roundtrip[of 3 Utf16be "[0x1F600]" "[1, 2]"] by simp

end
