(* ===== verification/Operation.thy ===== *)
theory Operation
  imports Management Values
begin

text \<open>
  \<^verbatim>\<open>integration/operation_conformance.py\<close>: bounded text reads in two steps, single
  USER_DATA replies, and the write-progress histories with their counts. The
  corpus values are used as Python uses them: \<^verbatim>\<open>bytes(value)\<close>, \<^verbatim>\<open>==\<close> and \<^verbatim>\<open>|\<close> work on
  any parsed value of a fitting type.
\<close>

section \<open>Python on parsed values\<close>

fun int_of :: "json \<Rightarrow> int result" where
  "int_of (JInt i) = Inr i"
| "int_of (JBool b) = Inr (if b then 1 else 0)"
| "int_of _ = Inl TypeError"

definition octet_of :: "json \<Rightarrow> byte result" where
  "octet_of v = bindE (int_of v) (\<lambda>i. if 0 \<le> i \<and> i < 256 then Inr (byte i) else Inl ValueError)"

text \<open>\<^verbatim>\<open>bytes(value)\<close>: of an integer it is that many zero octets.\<close>

fun py_bytes :: "json \<Rightarrow> bytes result" where
  "py_bytes (JArr xs) = mapE octet_of xs"
| "py_bytes (JObj kvs) = (if kvs = [] then Inr [] else Inl TypeError)"
| "py_bytes (JInt i) = (if 0 \<le> i then Inr (replicate (nat i) 0) else Inl ValueError)"
| "py_bytes (JBool b) = Inr (if b then [0] else [])"
| "py_bytes _ = Inl TypeError"

section \<open>Text reads\<close>

datatype op_counts = Counts (acknowledged: nat) (rejected: nat) (replayed: nat) (uncertain: nat)

datatype op_result =
    OReject string
  | OText ustr
  | OPayload bytes
  | OProgress "(json \<times> outcome) list" op_counts

definition read_text :: "encoding \<Rightarrow> bytes \<Rightarrow> bytes \<Rightarrow> op_result" where
  "read_text e header body =
     (let w = width e
      in if length header < w * 2 then OReject ''initial-header''
         else
           let maximum = nat (be_int (take w header)); current = nat (be_int (slice w (w * 2) header))
           in if maximum > capacity e \<or> current > maximum then OReject ''initial-header''
              else if length body < w then OReject ''body-header''
              else if nat (be_int (take w body)) \<noteq> maximum then OReject ''capacity-changed''
              else if length body < w * 2 then OReject ''value-codec''
              else
                let current = nat (be_int (slice w (w * 2) body))
                in if current > maximum \<or> length body < w * (maximum + 2) then OReject ''value-codec''
                   else case decode_text e (slice (w * 2) (w * (current + 2)) body) of
                          Inl _ \<Rightarrow> OReject ''value-codec''
                        | Inr value \<Rightarrow> OText value)"

definition string_case :: "json \<Rightarrow> op_result result" where
  "string_case test =
     bindE (jget ''encoding'' test) (\<lambda>name. bindE (enum_of encodings name) (\<lambda>e.
     bindE (jget ''initial_header'' test) (\<lambda>h. bindE (py_bytes h) (\<lambda>header.
     bindE (jget ''body'' test) (\<lambda>b. bindE (py_bytes b) (\<lambda>body.
     Inr (read_text e header body)))))))"

section \<open>Single USER_DATA replies\<close>

definition userdata_case :: "json \<Rightarrow> op_result result" where
  "userdata_case test =
     (let invalid = Inr (OReject ''pdu-validation'')
      in bindE (jget ''pdu'' test) (\<lambda>p. bindE (py_bytes p) (\<lambda>pdu.
         if length pdu < 10 \<or> take 2 pdu \<noteq> [0x32, 7] then invalid
         else
           let reference = be_int (slice 4 6 pdu); parameter_size = nat (be_int (slice 6 8 pdu));
               data_size = nat (be_int (slice 8 10 pdu)); parameters = slice 10 22 pdu; data = drop 22 pdu
           in bindE (jget ''reference'' test) (\<lambda>expected.
              if \<not> py_eq (JInt reference) expected \<or> parameter_size \<noteq> 12
                 \<or> length pdu \<noteq> 10 + parameter_size + data_size then invalid
              else if take 5 parameters \<noteq> [0, 1, 0x12, 8, 0x12] then invalid
              else bindE (jget ''group'' test) (\<lambda>g. bindE (int_of g) (\<lambda>grp.
                if uint (parameters ! 5) \<noteq> or 0x80 grp then invalid
                else bindE (jget ''subfunction'' test) (\<lambda>f.
                  if \<not> py_eq (JInt (uint (parameters ! 6))) f \<or> parameters ! 9 \<notin> {0, 1}
                     \<or> drop 10 parameters \<noteq> [0, 0] \<or> length data < 4 \<or> data ! 0 \<noteq> 255
                     \<or> int (length data) \<noteq> 4 + be_int (slice 2 4 data) then invalid
                  else if parameters ! 9 \<noteq> 0 then Inr (OReject ''incomplete-single-response'')
                  else Inr (OPayload (drop 4 data)))))))))"

section \<open>Write progress\<close>

text \<open>
  Locations that are not an array are refused when they are sent; the source
  would only fail where it first counts or walks them. A failure code that is
  not an integer is refused, where the source prints whatever it is.
\<close>

record progress =
  pg_attempts :: "(json \<times> outcome) list"
  pg_pending :: "json list"

fun list_of :: "json \<Rightarrow> json list result" where
  "list_of (JArr xs) = Inr xs"
| "list_of _ = Inl TypeError"

fun code_failure :: "json \<Rightarrow> outcome result" where
  "code_failure (JInt code) = Inr (Failure code)"
| "code_failure _ = Inl TypeError"

definition result_outcome :: "json \<Rightarrow> outcome result" where
  "result_outcome r =
     bindE (jget ''status'' r) (\<lambda>s.
     if s = jtext ''success'' then Inr Success
     else bindE (jget ''code'' r) code_failure)"

definition settle_all :: "outcome \<Rightarrow> progress \<Rightarrow> progress" where
  "settle_all o' s = \<lparr>pg_attempts = pg_attempts s @ List.map (\<lambda>l. (l, o')) (pg_pending s), pg_pending = []\<rparr>"

text \<open>One event; \<open>None\<close> is the early return of a rejected transition.\<close>

definition send_step :: "progress \<Rightarrow> json \<Rightarrow> progress option result" where
  "send_step s event =
     (if pg_pending s \<noteq> [] then Inr None
      else bindE (jget ''locations'' event) (\<lambda>v. bindE (list_of v) (\<lambda>locations.
           if locations = [] then Inr None else Inr (Some (s\<lparr>pg_pending := locations\<rparr>)))))"

definition acknowledge_step :: "progress \<Rightarrow> json \<Rightarrow> progress option result" where
  "acknowledge_step s event =
     bindE (jget ''results'' event) (\<lambda>v. bindE (list_of v) (\<lambda>results.
     if length results \<noteq> length (pg_pending s) then Inr None
     else bindE (mapE result_outcome results) (\<lambda>outcomes.
          Inr (Some \<lparr>pg_attempts = pg_attempts s @ zip (pg_pending s) outcomes, pg_pending = []\<rparr>))))"

definition progress_step :: "progress \<Rightarrow> json \<Rightarrow> progress option result" where
  "progress_step s event =
     bindE (jget ''operation'' event) (\<lambda>operation.
     if operation = jtext ''send'' then send_step s event
     else if operation = jtext ''acknowledge'' then acknowledge_step s event
     else if operation = jtext ''replay'' then Inr (Some (settle_all ReplayedUnknown s))
     else if operation = jtext ''global-reject'' then Inr (Some (settle_all GlobalRejected s))
     else Inl ValueError)"

fun progress_run :: "progress \<Rightarrow> json list \<Rightarrow> progress option result" where
  "progress_run s [] = Inr (Some s)"
| "progress_run s (e # es) =
     bindE (progress_step s e) (\<lambda>r. case r of None \<Rightarrow> Inr None | Some s' \<Rightarrow> progress_run s' es)"

definition acknowledged_outcome :: "outcome \<Rightarrow> bool" where
  "acknowledged_outcome o' = (case o' of Success \<Rightarrow> True | Failure _ \<Rightarrow> True | _ \<Rightarrow> False)"

definition counts_of :: "outcome list \<Rightarrow> op_counts" where
  "counts_of os = Counts (length (filter acknowledged_outcome os)) (count_list os GlobalRejected)
     (count_list os ReplayedUnknown) (count_list os Pending)"

definition progress_init :: progress where
  "progress_init = \<lparr>pg_attempts = [], pg_pending = []\<rparr>"

definition progress_case :: "json \<Rightarrow> op_result result" where
  "progress_case test =
     bindE (jget ''events'' test) (\<lambda>v. bindE (list_of v) (\<lambda>events.
     bindE (progress_run progress_init events) (\<lambda>r. Inr (case r of
        None \<Rightarrow> OReject ''progress-transition''
      | Some s \<Rightarrow> let attempts = show_attempts (pg_attempts s) (pg_pending s)
                  in OProgress attempts (counts_of (List.map snd attempts))))))"

section \<open>The corpus\<close>

fun outcome_json :: "outcome \<Rightarrow> json" where
  "outcome_json Success = jtext ''success''"
| "outcome_json (Failure code) = JStr (ascii ''failure:'' @ int_str code)"
| "outcome_json ReplayedUnknown = jtext ''replayed-unknown''"
| "outcome_json GlobalRejected = jtext ''global-rejected''"
| "outcome_json Pending = jtext ''pending''"

fun op_json :: "op_result \<Rightarrow> json" where
  "op_json (OReject category) = JObj [(''status'', jtext ''reject''), (''category'', jtext category)]"
| "op_json (OText value) = JObj [(''status'', jtext ''accept''), (''value'', JStr value)]"
| "op_json (OPayload content) = JObj [(''status'', jtext ''accept''), (''payload'', byte_list content)]"
| "op_json (OProgress attempts c) = JObj [(''status'', jtext ''accept''),
     (''attempts'', JArr (List.map (\<lambda>(l, o'). JObj [(''location'', l), (''outcome'', outcome_json o')]) attempts)),
     (''acknowledged_count'', JInt (int (acknowledged c))), (''rejected_count'', JInt (int (rejected c))),
     (''replayed_uncertain_count'', JInt (int (replayed c))), (''uncertain_count'', JInt (int (uncertain c)))]"

definition op_case :: "(json \<Rightarrow> op_result result) \<Rightarrow> json \<Rightarrow> json list \<Rightarrow> json list result" where
  "op_case decode test ids =
     bindE (jget ''id'' test) (\<lambda>i. bindE (hashable i) (\<lambda>_.
     if list_ex (py_eq i) ids then Inl ValueError
     else bindE (decode test) (\<lambda>actual. bindE (jget ''expected'' test) (\<lambda>expected.
          if \<not> py_eq (op_json actual) expected then Inl AssertionError else Inr (i # ids)))))"

fun op_cases :: "(json \<Rightarrow> op_result result) \<Rightarrow> json list \<Rightarrow> json list \<Rightarrow> json list result" where
  "op_cases decode [] ids = Inr ids"
| "op_cases decode (t # ts) ids = bindE (op_case decode t ids) (op_cases decode ts)"

definition retry_case :: "json \<Rightarrow> unit result" where
  "retry_case test =
     bindE (jget ''safety'' test) (\<lambda>safety.
     if safety \<noteq> jtext ''read-only'' \<and> safety \<noteq> jtext ''potentially-mutating'' then Inl ValueError
     else bindE (if safety = jtext ''read-only'' then Inr (JBool True)
                 else jget ''allow_potentially_mutating'' test) (\<lambda>actual.
          bindE (jget ''expected_permitted'' test) (\<lambda>expected.
          guardE (py_eq actual expected) AssertionError)))"

definition op_group :: "string \<Rightarrow> (json \<Rightarrow> op_result result) \<Rightarrow> json \<Rightarrow> json list \<Rightarrow> json list result" where
  "op_group name decode corpus ids =
     bindE (jget name corpus) (\<lambda>v. bindE (list_of v) (\<lambda>tests. op_cases decode tests ids))"

definition op_check :: "json \<Rightarrow> nat result" where
  "op_check corpus =
     bindE (jget ''schema_version'' corpus) (\<lambda>version.
     if \<not> py_eq version (JInt 1) then Inl ValueError
     else bindE (jget ''protocol'' corpus) (\<lambda>protocol.
       if protocol \<noteq> jtext ''classic S7 operation guards and write diagnostics'' then Inl ValueError
       else bindE (op_group ''string_read_cases'' string_case corpus []) (\<lambda>ids.
            bindE (op_group ''single_userdata_cases'' userdata_case corpus ids) (\<lambda>ids.
            bindE (op_group ''write_progress_cases'' progress_case corpus ids) (\<lambda>ids.
            bindE (jget ''retry_policy_cases'' corpus) (\<lambda>v. bindE (list_of v) (\<lambda>tests.
            bindE (mapE retry_case tests) (\<lambda>_. Inr (length ids + length tests)))))))))"

section \<open>The text readers agree\<close>

text \<open>The two-step text read of the operation oracle accepts exactly when the value oracle's one-step
  decoder accepts the second read, the first read shows a consistent header, and the capacity did not
  change between the two; the text is the same.\<close>
lemma text_readers_agree:
  "read_text e header body = OText value \<longleftrightarrow>
     read_field e body = Some value \<and> width e * 2 \<le> length header
     \<and> take (width e) header = take (width e) body
     \<and> be_int (slice (width e) (width e * 2) header) \<le> be_int (take (width e) header)"
proof -
  define w where "w = width e"
  have same: "nat (be_int (take w body)) = nat (be_int (take w header)) \<longleftrightarrow> take w header = take w body"
    if "w \<le> length header" "w \<le> length body"
  proof -
    have "nat (be_int (take w body)) = nat (be_int (take w header)) \<longleftrightarrow> be_int (take w body) = be_int (take w header)"
      using be_int_nonneg by (metis int_nat_eq)
    then show ?thesis using be_int_inj[of "take w body" "take w header"] that by auto
  qed
  have cur: "nat (be_int (slice w (w * 2) header)) \<le> nat (be_int (take w header))
      \<longleftrightarrow> be_int (slice w (w * 2) header) \<le> be_int (take w header)"
    using be_int_nonneg by (simp add: nat_le_eq_zle)
  define mh ch mb cb where "mh = nat (be_int (take w header))" and "ch = nat (be_int (slice w (w * 2) header))"
    and "mb = nat (be_int (take w body))" and "cb = nat (be_int (slice w (w * 2) body))"
  note defs = w_def[symmetric] mh_def[symmetric] ch_def[symmetric] mb_def[symmetric] cb_def[symmetric]
  define content where "content = decode_text e (slice (w * 2) (w * (cb + 2)) body)"
  have l: "read_text e header body = OText value \<longleftrightarrow> w * 2 \<le> length header \<and> mh \<le> capacity e \<and> ch \<le> mh
      \<and> w \<le> length body \<and> mb = mh \<and> w * 2 \<le> length body \<and> cb \<le> mh \<and> w * (mh + 2) \<le> length body
      \<and> content = Inr value"
    unfolding read_text_def Let_def defs content_def[symmetric] by (cases content) auto
  have r: "read_field e body = Some value \<longleftrightarrow> w * 2 \<le> length body \<and> mb \<le> capacity e \<and> cb \<le> mb
      \<and> (mb + 2) * w \<le> length body \<and> content = Inr value"
    unfolding read_field_def Let_def defs content_def[symmetric] by (cases content) auto
  have hdr: "mb = mh \<longleftrightarrow> take w header = take w body" if "w * 2 \<le> length header" "w * 2 \<le> length body"
    using same that by (simp add: mb_def mh_def)
  have ch: "ch \<le> mh \<longleftrightarrow> be_int (slice w (w * 2) header) \<le> be_int (take w header)"
    using cur by (simp add: ch_def mh_def)
  have sz: "(mb + 2) * w = w * (mb + 2)" by (rule mult.commute)
  have half: "w * 2 \<le> n \<Longrightarrow> w \<le> n" for n by simp
  show ?thesis
    unfolding w_def[symmetric] l r ch[symmetric] sz using hdr half by metis
qed

section \<open>Progress histories\<close>

definition progress_next :: "progress \<Rightarrow> json \<Rightarrow> progress" where
  "progress_next s e = (case progress_step s e of Inr (Some s') \<Rightarrow> s' | _ \<Rightarrow> s)"

definition event_locations :: "json \<Rightarrow> json list" where
  "event_locations e = (if jget ''operation'' e = Inr (jtext ''send'') then
     (case jget ''locations'' e of Inr (JArr ls) \<Rightarrow> ls | _ \<Rightarrow> []) else [])"

definition progress_sent :: "progress \<Rightarrow> json \<Rightarrow> json list" where
  "progress_sent s e = (case progress_step s e of Inr (Some _) \<Rightarrow> event_locations e | _ \<Rightarrow> [])"

lemma list_of_Inr_iff [simp]: "list_of v = Inr xs \<longleftrightarrow> v = JArr xs"
  by (cases v) auto

lemma result_outcome_settled: "result_outcome r = Inr o' \<Longrightarrow> o' \<noteq> Pending"
  by (auto simp: result_outcome_def split: if_splits elim: code_failure.elims)

lemma results_settled: "mapE result_outcome rs = Inr os \<Longrightarrow> Pending \<notin> set os"
  by (induction rs arbitrary: os) (auto dest: result_outcome_settled)

lemma send_step_some:
  "send_step s e = Inr (Some s') \<longleftrightarrow> (\<exists>ls. jget ''locations'' e = Inr (JArr ls) \<and> ls \<noteq> [] \<and> pg_pending s = []
     \<and> s' = s\<lparr>pg_pending := ls\<rparr>)"
  unfolding send_step_def by (auto split: if_splits)

lemma acknowledge_step_some:
  "acknowledge_step s e = Inr (Some s') \<longleftrightarrow> (\<exists>rs os. jget ''results'' e = Inr (JArr rs) \<and> mapE result_outcome rs = Inr os
     \<and> length rs = length (pg_pending s) \<and> s' = \<lparr>pg_attempts = pg_attempts s @ zip (pg_pending s) os, pg_pending = []\<rparr>)"
  unfolding acknowledge_step_def by (auto split: if_splits)

lemma choice:
  "(if a then x else if b then y else if c then Inr (Some z) else if d then Inr (Some w) else Inl v) = Inr (Some r)
     \<Longrightarrow> a \<and> x = Inr (Some r) \<or> \<not> a \<and> (y = Inr (Some r) \<or> z = r \<or> w = r)"
  by (simp split: if_split_asm)

lemma progress_step_cases:
  assumes "progress_step s e = Inr (Some s')"
  obtains (send) "event_locations e \<noteq> []" "pg_pending s = []" "s' = s\<lparr>pg_pending := event_locations e\<rparr>"
  | (settle) os where "event_locations e = []" "length os = length (pg_pending s)" "Pending \<notin> set os"
      "s' = \<lparr>pg_attempts = pg_attempts s @ zip (pg_pending s) os, pg_pending = []\<rparr>"
proof -
  obtain op where op: "jget ''operation'' e = Inr op" using assms by (auto simp: progress_step_def)
  have st: "(if op = jtext ''send'' then send_step s e
     else if op = jtext ''acknowledge'' then acknowledge_step s e
     else if op = jtext ''replay'' then Inr (Some (settle_all ReplayedUnknown s))
     else if op = jtext ''global-reject'' then Inr (Some (settle_all GlobalRejected s))
     else Inl ValueError) = Inr (Some s')"
    using assms unfolding progress_step_def op bindE.simps .
  have all: thesis if "s' = settle_all o' s" "o' \<noteq> Pending" "op \<noteq> jtext ''send''" for o'
  proof -
    have "event_locations e = []" using op that(3) by (simp add: event_locations_def)
    with that show ?thesis
      by (intro settle[of "replicate (length (pg_pending s)) o'"]) (simp_all add: settle_all_def zip_replicate_map)
  qed
  have "op = jtext ''send'' \<and> send_step s e = Inr (Some s')
    \<or> op \<noteq> jtext ''send'' \<and> (acknowledge_step s e = Inr (Some s')
       \<or> settle_all ReplayedUnknown s = s' \<or> settle_all GlobalRejected s = s')"
    using choice[OF st] by blast
  then consider "op = jtext ''send''" "send_step s e = Inr (Some s')"
    | "op \<noteq> jtext ''send''" "acknowledge_step s e = Inr (Some s')"
    | "op \<noteq> jtext ''send''" "s' = settle_all ReplayedUnknown s"
    | "op \<noteq> jtext ''send''" "s' = settle_all GlobalRejected s"
    by blast
  then show ?thesis
  proof cases
    case 1
    with op show ?thesis by (intro send) (auto simp: event_locations_def send_step_some)
  next
    case 2
    then obtain rs os where r: "mapE result_outcome rs = Inr os" "length rs = length (pg_pending s)"
      "s' = \<lparr>pg_attempts = pg_attempts s @ zip (pg_pending s) os, pg_pending = []\<rparr>"
      unfolding acknowledge_step_some by blast
    have "event_locations e = []" using op 2(1) by (simp add: event_locations_def)
    moreover have "Pending \<notin> set os" using results_settled[OF r(1)] .
    moreover have "length os = length (pg_pending s)" using mapE_length[OF r(1)] r(2) by simp
    ultimately show ?thesis using r(3) by (intro settle)
  next
    case 3
    then show ?thesis using all[of ReplayedUnknown] by simp
  next
    case 4
    then show ?thesis using all[of GlobalRejected] by simp
  qed
qed

lemma progress_grows:
  "progress_step s e = Inr (Some s') \<Longrightarrow> \<exists>new. pg_attempts s' = pg_attempts s @ new \<and> Pending \<notin> snd ` set new"
proof (elim progress_step_cases)
  fix os
  assume "Pending \<notin> set os" "s' = \<lparr>pg_attempts = pg_attempts s @ zip (pg_pending s) os, pg_pending = []\<rparr>"
  with zip_without[of Pending os "pg_pending s"] show ?thesis by (intro exI[of _ "zip (pg_pending s) os"]) simp
qed simp

lemma progress_conserves:
  "progress_step s e = Inr (Some s') \<Longrightarrow> List.map fst (pg_attempts s') @ pg_pending s'
     = List.map fst (pg_attempts s) @ pg_pending s @ event_locations e"
  by (elim progress_step_cases) auto

lemma progress_exclusive:
  "progress_step s e = Inr (Some s') \<Longrightarrow> event_locations e \<noteq> [] \<Longrightarrow> pg_pending s = []"
  by (elim progress_step_cases) auto

interpretation progress_ledger: ledger pg_attempts pg_pending progress_next progress_sent
proof
  fix s e
  show "List.map fst (pg_attempts (progress_next s e)) @ pg_pending (progress_next s e)
      = List.map fst (pg_attempts s) @ pg_pending s @ progress_sent s e"
    using progress_conserves[of s e]
    by (auto simp: progress_next_def progress_sent_def split: sum.splits option.splits)
  show "\<exists>new. pg_attempts (progress_next s e) = pg_attempts s @ new \<and> Pending \<notin> snd ` set new"
    using progress_grows[of s e] by (auto simp: progress_next_def split: sum.splits option.splits)
  show "progress_sent s e \<noteq> [] \<Longrightarrow> pg_pending s = []"
    using progress_exclusive[of s e] by (auto simp: progress_sent_def split: sum.splits option.splits)
qed

lemma progress_run_ledger:
  "progress_run s es = Inr (Some s') \<Longrightarrow> foldl progress_next s es = s'
     \<and> sents progress_next progress_sent s es = concat (List.map event_locations es)"
  by (induction es arbitrary: s) (auto simp: progress_next_def progress_sent_def split: option.splits)

lemma counts_partition:
  "(case counts_of os of Counts a r p u \<Rightarrow> a + r + p + u) = length os"
proof -
  have "length (filter acknowledged_outcome os) + count_list os GlobalRejected + count_list os ReplayedUnknown
      + count_list os Pending = length os"
  proof (induction os)
    case (Cons o' os)
    then show ?case by (cases o') (simp_all add: acknowledged_outcome_def)
  qed simp
  then show ?thesis by (simp add: counts_of_def)
qed

text \<open>An accepted write-progress history accounts for every location: the attempts are the locations of
  all sends in order, the settled ones first in their original order, and the four reported counts
  partition them; the uncertain ones are exactly the locations of an unanswered last send.\<close>

lemma progress_accounts:
  assumes "progress_case test = Inr (OProgress attempts c)" and "jget ''events'' test = Inr (JArr es)"
  shows "List.map fst attempts = concat (List.map event_locations es)
    \<and> acknowledged c + rejected c + replayed c + uncertain c = length attempts
    \<and> uncertain c = length (takeWhile (\<lambda>(l, o'). o' = Pending) (rev attempts))"
proof -
  obtain s where run: "progress_run progress_init es = Inr (Some s)"
    and att: "attempts = show_attempts (pg_attempts s) (pg_pending s)"
    and c: "c = counts_of (List.map snd attempts)"
    using assms by (auto simp: progress_case_def Let_def split: option.splits)
  note led = progress_run_ledger[OF run]
  have locs: "List.map fst attempts = concat (List.map event_locations es)"
    using progress_ledger.attempts_from_empty[of progress_init es] led by (simp add: att progress_init_def)
  have sum: "acknowledged c + rejected c + replayed c + uncertain c = length attempts"
    using counts_partition[of "List.map snd attempts"] by (cases c) (simp add: c[symmetric])
  obtain new where "pg_attempts s = pg_attempts progress_init @ new" "Pending \<notin> snd ` set new"
    using progress_ledger.run_grows[of progress_init es] led by metis
  then have settled: "Pending \<notin> snd ` set (pg_attempts s)" by (simp add: progress_init_def)
  define open' where "open' = List.map (\<lambda>l. (l, Pending)) (pg_pending s)"
  have tw: "takeWhile (\<lambda>(l, o'). o' = Pending) (rev (pg_attempts s @ open')) = rev open'"
  proof -
    have "takeWhile (\<lambda>(l, o'). o' = Pending) (rev open' @ rev (pg_attempts s))
        = rev open' @ takeWhile (\<lambda>(l, o'). o' = Pending) (rev (pg_attempts s))"
      by (rule takeWhile_append2) (auto simp: open'_def)
    moreover have "takeWhile (\<lambda>(l, o'). o' = Pending) (rev (pg_attempts s)) = []"
      using settled by (cases "rev (pg_attempts s)") (auto simp: rev_swap image_iff)
    ultimately show ?thesis by simp
  qed
  have cl: "count_list (List.map snd (pg_attempts s)) Pending = 0"
    using settled by (simp add: count_list_0_iff)
  have "uncertain c = length open'"
    by (simp add: c att show_attempts_def counts_of_def cl open'_def comp_def count_const)
  then show ?thesis using locs sum tw by (simp add: att show_attempts_def open'_def)
qed

section \<open>A history\<close>

definition ex_progress :: json where
  "ex_progress = JObj [(''events'', JArr
     [JObj [(''operation'', jtext ''send''), (''locations'', JArr [JInt 1, JInt 2])],
      JObj [(''operation'', jtext ''acknowledge''),
        (''results'', JArr [JObj [(''status'', jtext ''success'')], JObj [(''status'', jtext ''failure''), (''code'', JInt 5)]])],
      JObj [(''operation'', jtext ''send''), (''locations'', JArr [JInt 3])]])]"

lemma ex_progress_case:
  "progress_case ex_progress = Inr (OProgress [(JInt 1, Success), (JInt 2, Failure 5), (JInt 3, Pending)] (Counts 2 0 0 1))"
  by (simp add: ex_progress_def progress_case_def progress_step_def send_step_def acknowledge_step_def
      result_outcome_def progress_init_def show_attempts_def counts_of_def acknowledged_outcome_def)

lemma progress_accounts_example:
  "[JInt 1, JInt 2, JInt 3] = concat (List.map event_locations
     (case ex_progress of JObj [(_, JArr es)] \<Rightarrow> es | _ \<Rightarrow> [])) \<and> uncertain (Counts 2 0 0 1) = 1"
  using progress_accounts[OF ex_progress_case] by (simp add: ex_progress_def)

end
