(* ===== verification/Sockets.thy ===== *)
theory Sockets
  imports Wire
begin

text \<open>
  The sockets of the peers. What a client does is the environment: the connections
  that arrive, each a script of what \<^verbatim>\<open>recv\<close> meets (a chunk of octets as TCP happened
  to deliver it, end of file, a reset, or silence until the time limit), the sends
  that fail and the answers of the barrier events. Everything a peer does to the
  outside is logged. The sections after that are the helpers of
  \<^verbatim>\<open>multi_batching.py\<close> and \<^verbatim>\<open>run.py\<close> for TPKT, COTP and S7 frames, and the
  relation that makes precise that a program cannot tell how TCP cut the stream.
\<close>

section \<open>The environment\<close>

datatype arrival = Chunk bytes | Eof | Reset | Silence

datatype io = Accepted | Sent bytes | Shutdown | Closed | Signalled

record net =
  backlog :: "arrival list list"
  rx :: "arrival list"
  handles :: nat
  faults :: "bool list"
  signals :: "bool list"
  io_log :: "io list"

abbreviation log_io :: "io \<Rightarrow> net \<Rightarrow> net" where
  "log_io i s \<equiv> s\<lparr>io_log := io_log s @ [i]\<rparr>"

definition start :: "arrival list list \<Rightarrow> net" where
  "start conns = \<lparr>backlog = conns, rx = [], handles = 0, faults = [], signals = [], io_log = []\<rparr>"

section \<open>Socket operations\<close>

text \<open>
  \<^verbatim>\<open>recv(n)\<close> for positive \<open>n\<close>; at the end of the script nothing more arrives in time. End of file
  stays, a reset and a silence are reported once.
\<close>

fun arrive :: "nat \<Rightarrow> arrival list \<Rightarrow> bytes result \<times> arrival list" where
  "arrive n [] = (Inl TimeoutError, [])"
| "arrive n (Chunk bs # rest) =
     (if bs = [] then arrive n rest
      else (Inr (take n bs), if length bs \<le> n then rest else Chunk (drop n bs) # rest))"
| "arrive n (Eof # rest) = (Inr [], Eof # rest)"
| "arrive n (Reset # rest) = (Inl ConnectionResetError, rest)"
| "arrive n (Silence # rest) = (Inl TimeoutError, rest)"

definition recv :: "nat \<Rightarrow> (net, bytes) prog" where
  "recv n s = (let (r, rest) = arrive n (rx s) in (r, s\<lparr>rx := rest\<rparr>))"

definition sendall :: "bytes \<Rightarrow> (net, unit) prog" where
  "sendall bs s =
     (case faults s of
        True # fs \<Rightarrow> (Inl BrokenPipeError, s\<lparr>faults := fs\<rparr>)
      | False # fs \<Rightarrow> (Inr (), log_io (Sent bs) (s\<lparr>faults := fs\<rparr>))
      | [] \<Rightarrow> (Inr (), log_io (Sent bs) s))"

definition accept :: "(net, unit) prog" where
  "accept s =
     (case backlog s of
        [] \<Rightarrow> (Inl TimeoutError, s)
      | c # cs \<Rightarrow> (Inr (), log_io Accepted (s\<lparr>backlog := cs, rx := c, handles := handles s + 1\<rparr>)))"

definition note_io :: "io \<Rightarrow> (net, unit) prog" where
  "note_io i s = (Inr (), log_io i s)"

text \<open>Closing the last open connection; a closed socket (or \<^verbatim>\<open>None\<close>) may be closed again.\<close>

definition close :: "(net, unit) prog" where
  "close s = (Inr (), if handles s = 0 then s else log_io Closed (s\<lparr>handles := handles s - 1\<rparr>))"

definition wait :: "(net, bool) prog" where
  "wait s = (case signals s of [] \<Rightarrow> (Inr False, s) | b # bs \<Rightarrow> (Inr b, s\<lparr>signals := bs\<rparr>))"

text \<open>\<^verbatim>\<open>try .. except\<close> with the branches told apart by the value of \<open>attempt\<close>.\<close>

definition attempt :: "('s, 'a) prog \<Rightarrow> ('s, exn + 'a) prog" where
  "attempt m s = (case m s of (r, t) \<Rightarrow> (Inr r, t))"

text \<open>\<^verbatim>\<open>with connection: body\<close> and \<^verbatim>\<open>try: .. finally: close()\<close>.\<close>

definition finallyM :: "('s, 'a) prog \<Rightarrow> ('s, unit) prog \<Rightarrow> ('s, 'a) prog" where
  "finallyM m cleanup s =
     (case m s of (r, t) \<Rightarrow> case cleanup t of (Inl e, u) \<Rightarrow> (Inl e, u) | (Inr _, u) \<Rightarrow> (r, u))"

definition with_connection :: "(net, 'a) prog \<Rightarrow> (net, 'a) prog" where
  "with_connection m = finallyM m close"

definition accepting :: "(net, 'a) prog \<Rightarrow> (net, 'a) prog" where
  "accepting m = thenM accept (with_connection m)"

text \<open>The classes the peers catch, and the error list they append to.\<close>

fun caught :: "exn \<Rightarrow> bool" where
  "caught TimeoutError = True"
| "caught ConnectionResetError = True"
| "caught BrokenPipeError = True"
| "caught OtherOSError = True"
| "caught (RuntimeError _) = True"
| "caught ValueError = True"
| "caught UnicodeError = True"
| "caught IndexError = True"
| "caught StructError = True"
| "caught _ = False"

definition collects :: "('s, unit) prog \<Rightarrow> ('s, exn list) prog" where
  "collects m = catchM (bindM m (\<lambda>_. ret [])) (\<lambda>e. if caught e then ret [e] else raise e)"

definition failing :: "string \<Rightarrow> ('s, 'a) prog" where
  "failing msg = raise (RuntimeError msg)"

definition expect :: "bool \<Rightarrow> string \<Rightarrow> ('s, unit) prog" where
  "expect ok msg = guardM ok (RuntimeError msg)"

section \<open>Frames\<close>

text \<open>The receive loop: ask for what is missing until it is there.\<close>

function exact :: "string \<Rightarrow> nat \<Rightarrow> (net, bytes) prog" where
  "exact msg n s =
     (if n = 0 then (Inr [], s)
      else case recv n s of
        (Inl e, t) \<Rightarrow> (Inl e, t)
      | (Inr chunk, t) \<Rightarrow>
          if chunk = [] then (Inl (RuntimeError msg), t)
          else case exact msg (n - length chunk) t of
                 (Inl e, u) \<Rightarrow> (Inl e, u)
               | (Inr rest, u) \<Rightarrow> (Inr (chunk @ rest), u))"
  by pat_completeness auto

termination exact
  by (relation "measure (\<lambda>(msg, n, s). n)") auto

declare exact.simps [simp del]

definition tpkt_receive :: "string \<Rightarrow> string \<Rightarrow> (net, bytes) prog" where
  "tpkt_receive closed_msg invalid_msg =
     bindM (exact closed_msg 4) (\<lambda>header.
     let version = header ! 0; reserved = header ! 1; size = nat (be_int (slice 2 4 header))
     in thenM (expect (\<not> (version \<noteq> 3 \<or> reserved \<noteq> 0 \<or> size < 4)) invalid_msg)
          (exact closed_msg (size - 4)))"

definition tpkt_frame :: "bytes \<Rightarrow> bytes result" where
  "tpkt_frame payload = concatE [pack 1 3, pack 1 0, pack 2 (len payload + 4), Inr payload]"

definition tpkt_send :: "bytes \<Rightarrow> (net, unit) prog" where
  "tpkt_send payload = bindM (liftE (tpkt_frame payload)) sendall"

definition cotp_data :: bytes where
  "cotp_data = [2, 0xf0, 0x80]"

text \<open>\<^verbatim>\<open>multi_batching.py\<close>\<close>

definition receive :: "(net, bytes) prog" where
  "receive = tpkt_receive ''multi-batching client closed an incomplete frame'' ''invalid multi-batching TPKT''"

definition take_request :: "(net, bytes) prog" where
  "take_request = bindM receive (\<lambda>frame.
     thenM (expect (take 3 frame = cotp_data) ''expected multi-batching S7 request'') (ret (drop 3 frame)))"

definition send_pdu :: "bytes \<Rightarrow> (net, unit) prog" where
  "send_pdu pdu = tpkt_send (cotp_data @ pdu)"

definition ack :: "int \<Rightarrow> bytes \<Rightarrow> bytes \<Rightarrow> bytes result" where
  "ack reference parameters data =
     concatE [pack 1 0x32, pack 1 3, pack 2 0, pack 2 reference, pack 2 (len parameters), pack 2 (len data),
       pack 1 0, pack 1 0, Inr parameters, Inr data]"

definition reply :: "bytes result \<Rightarrow> (net, unit) prog" where
  "reply pdu = bindM (liftE pdu) send_pdu"

text \<open>\<^verbatim>\<open>run.py\<close>\<close>

definition receive_tpkt :: "(net, bytes) prog" where
  "receive_tpkt = tpkt_receive ''peer closed an incomplete test frame'' ''invalid TPKT test frame''"

definition receive_s7 :: "(net, bytes) prog" where
  "receive_s7 = bindM receive_tpkt (\<lambda>cotp.
     thenM (expect (take 3 cotp = cotp_data) ''expected a COTP data TPDU'') (ret (drop 3 cotp)))"

definition send_s7 :: "bytes result \<Rightarrow> (net, unit) prog" where
  "send_s7 pdu = bindM (liftE pdu) (\<lambda>bs. tpkt_send (cotp_data @ bs))"

definition send_s7_segmented :: "bytes \<Rightarrow> nat \<Rightarrow> (net, unit) prog" where
  "send_s7_segmented pdu split_at =
     thenM (tpkt_send ([2, 0xf0, 0] @ take split_at pdu)) (tpkt_send (cotp_data @ drop split_at pdu))"

text \<open>The answer to a connection request, \<^verbatim>\<open>bytes([0x11, 0xD0, cr[4], cr[5], 0, 1, 0]) + cr[7:]\<close>.\<close>

definition confirm :: "bytes \<Rightarrow> bytes result" where
  "confirm cr = bindE (at cr 4) (\<lambda>a. bindE (at cr 5) (\<lambda>b. Inr ([0x11, 0xd0, a, b, 0, 1, 0] @ drop 7 cr)))"

definition reference_of :: "bytes \<Rightarrow> int" where
  "reference_of pdu = be_int (slice 4 6 pdu)"

section \<open>What a program sees of the stream\<close>

datatype item = B byte | E arrival

fun flat :: "arrival list \<Rightarrow> item list" where
  "flat [] = []"
| "flat (Chunk bs # rest) = List.map B bs @ flat rest"
| "flat (x # rest) = E x # flat rest"

definition sim :: "net \<Rightarrow> net \<Rightarrow> bool" where
  "sim s t \<longleftrightarrow> flat (rx s) = flat (rx t) \<and> List.map flat (backlog s) = List.map flat (backlog t)
     \<and> handles s = handles t \<and> faults s = faults t \<and> signals s = signals t \<and> io_log s = io_log t"

text \<open>A program is seamless if its result and its effects do not depend on the chunking.\<close>

definition seamless :: "(net, 'a) prog \<Rightarrow> bool" where
  "seamless m \<longleftrightarrow> (\<forall>s t. sim s t \<longrightarrow> fst (m s) = fst (m t) \<and> sim (snd (m s)) (snd (m t)))"

named_theorems stream_intros \<open>programs that cannot tell how the stream was cut\<close>

lemma seamlessI:
  "(\<And>s t. sim s t \<Longrightarrow> fst (m s) = fst (m t) \<and> sim (snd (m s)) (snd (m t))) \<Longrightarrow> seamless m"
  by (simp add: seamless_def)

lemma seamlessD:
  assumes "seamless m" "sim s t" "m s = (r, s')" "m t = (q, t')"
  shows "q = r" "sim s' t'"
  using assms unfolding seamless_def by (metis fst_conv snd_conv)+

lemma seamless_ret [stream_intros]: "seamless (ret a)"
  by (simp add: seamless_def ret_def)

lemma seamless_raise [stream_intros]: "seamless (raise e)"
  by (simp add: seamless_def raise_def)

lemma seamless_liftE [stream_intros]: "seamless (liftE r)"
  by (simp add: seamless_def liftE_def)

lemma seamless_guardM [stream_intros]: "seamless (guardM ok e)"
  by (simp add: seamless_def guardM_def liftE_def)

lemma seamless_expect [stream_intros]: "seamless (expect ok msg)"
  by (simp add: expect_def seamless_guardM)

lemma seamless_failing [stream_intros]: "seamless (failing msg)"
  by (simp add: failing_def seamless_raise)

lemma seamless_bindM [stream_intros]:
  assumes "seamless m" "\<And>a. seamless (f a)"
  shows "seamless (bindM m f)"
proof (rule seamlessI)
  fix s t
  assume st: "sim s t"
  obtain r s' q t' where m: "m s = (r, s')" "m t = (q, t')" by fastforce
  note d = seamlessD[OF assms(1) st m]
  then show "fst (bindM m f s) = fst (bindM m f t) \<and> sim (snd (bindM m f s)) (snd (bindM m f t))"
    using assms(2) m by (cases r) (auto simp: bindM_def seamless_def)
qed

lemma seamless_thenM [stream_intros]: "seamless m \<Longrightarrow> seamless n \<Longrightarrow> seamless (thenM m n)"
  by (simp add: thenM_def seamless_bindM)

lemma seamless_catchM [stream_intros]:
  assumes "seamless m" "\<And>e. seamless (h e)"
  shows "seamless (catchM m h)"
proof (rule seamlessI)
  fix s t
  assume st: "sim s t"
  obtain r s' q t' where m: "m s = (r, s')" "m t = (q, t')" by fastforce
  note d = seamlessD[OF assms(1) st m]
  then show "fst (catchM m h s) = fst (catchM m h t) \<and> sim (snd (catchM m h s)) (snd (catchM m h t))"
    using assms(2) m by (cases r) (auto simp: catchM_def seamless_def)
qed

lemma seamless_finallyM [stream_intros]:
  assumes "seamless m" "seamless c"
  shows "seamless (finallyM m c)"
proof (rule seamlessI)
  fix s t
  assume st: "sim s t"
  obtain r s' q t' where m: "m s = (r, s')" "m t = (q, t')" by fastforce
  note d = seamlessD[OF assms(1) st m]
  obtain r2 s2 q2 t2 where c: "c s' = (r2, s2)" "c t' = (q2, t2)" by fastforce
  note d2 = seamlessD[OF assms(2) d(2) c]
  show "fst (finallyM m c s) = fst (finallyM m c t) \<and> sim (snd (finallyM m c s)) (snd (finallyM m c t))"
    using d d2 m c by (cases r2) (auto simp: finallyM_def)
qed

lemma seamless_if [stream_intros]: "seamless m \<Longrightarrow> seamless n \<Longrightarrow> seamless (if b then m else n)"
  by simp

lemma seamless_forM [stream_intros]: "(\<And>x. seamless (f x)) \<Longrightarrow> seamless (forM xs f)"
  by (induction xs) (simp_all add: stream_intros)

lemma seamless_option [stream_intros]:
  "seamless m \<Longrightarrow> (\<And>x. seamless (f x)) \<Longrightarrow> seamless (case v of None \<Rightarrow> m | Some x \<Rightarrow> f x)"
  by (cases v) simp_all

lemma seamless_sendall [stream_intros]: "seamless (sendall bs)"
  by (auto simp: seamless_def sendall_def sim_def split: list.splits bool.splits)

lemma seamless_accept [stream_intros]: "seamless accept"
  by (auto simp: seamless_def accept_def sim_def split: list.splits)

lemma seamless_note [stream_intros]: "seamless (note_io i)"
  by (simp add: seamless_def note_io_def sim_def)

lemma seamless_close [stream_intros]: "seamless close"
  by (simp add: seamless_def close_def sim_def)

lemma seamless_attempt [stream_intros]:
  assumes "seamless m"
  shows "seamless (attempt m)"
proof (rule seamlessI)
  fix s t
  assume st: "sim s t"
  obtain r s' q t' where m: "m s = (r, s')" "m t = (q, t')" by fastforce
  from seamlessD[OF assms st m] m
  show "fst (attempt m s) = fst (attempt m t) \<and> sim (snd (attempt m s)) (snd (attempt m t))"
    by (simp add: attempt_def)
qed

lemma seamless_sum [stream_intros]:
  "(\<And>e. seamless (f e)) \<Longrightarrow> (\<And>x. seamless (g x)) \<Longrightarrow> seamless (case v of Inl e \<Rightarrow> f e | Inr x \<Rightarrow> g x)"
  by (cases v) simp_all

lemma seamless_foldM [stream_intros]: "(\<And>x b. seamless (f x b)) \<Longrightarrow> seamless (foldM f xs b)"
  by (induction xs arbitrary: b) (simp_all add: stream_intros)

lemma seamless_wait [stream_intros]: "seamless wait"
  by (auto simp: seamless_def wait_def sim_def split: list.splits)

text \<open>What the receive loop does to the stream, octet by octet.\<close>

fun pull :: "string \<Rightarrow> nat \<Rightarrow> item list \<Rightarrow> bytes result \<times> item list" where
  "pull msg 0 xs = (Inr [], xs)"
| "pull msg (Suc n) [] = (Inl TimeoutError, [])"
| "pull msg (Suc n) (B b # xs) =
     (case pull msg n xs of (Inl e, ys) \<Rightarrow> (Inl e, ys) | (Inr bs, ys) \<Rightarrow> (Inr (b # bs), ys))"
| "pull msg (Suc n) (E Eof # xs) = (Inl (RuntimeError msg), E Eof # xs)"
| "pull msg (Suc n) (E Reset # xs) = (Inl ConnectionResetError, xs)"
| "pull msg (Suc n) (E x # xs) = (Inl TimeoutError, xs)"

lemma pull_chunk:
  "length c \<le> n \<Longrightarrow> pull msg n (List.map B c @ xs) =
     (case pull msg (n - length c) xs of (Inl e, ys) \<Rightarrow> (Inl e, ys) | (Inr bs, ys) \<Rightarrow> (Inr (c @ bs), ys))"
proof (induction c arbitrary: n)
  case Nil
  show ?case by (auto split: prod.splits sum.splits)
next
  case (Cons b c)
  then obtain k where k: "n = Suc k" by (cases n) auto
  with Cons show ?case by (auto split: prod.splits sum.splits)
qed

lemma arrive_flat:
  assumes "0 < n"
  shows "case arrive n a of
    (Inl e, a') \<Rightarrow> (\<forall>msg k. pull msg (Suc k) (flat a) = (Inl e, flat a'))
  | (Inr c, a') \<Rightarrow> if c = [] then (\<forall>msg k. pull msg (Suc k) (flat a) = (Inl (RuntimeError msg), flat a'))
                   else length c \<le> n \<and> flat a = List.map B c @ flat a'"
  using assms
proof (induction n a rule: arrive.induct)
  case (2 n bs rest)
  show ?case
  proof (cases "bs = []")
    case True
    then have "flat (Chunk bs # rest) = flat rest" "arrive n (Chunk bs # rest) = arrive n rest" by simp_all
    then show ?thesis using 2 True by (simp only:)
  next
    case False
    have "List.map B bs = List.map B (take n bs) @ List.map B (drop n bs)"
      by (metis append_take_drop_id map_append)
    with False 2(2) show ?thesis by simp
  qed
qed simp_all

lemma exact_pull:
  "exact msg n s = (r, t) \<Longrightarrow> pull msg n (flat (rx s)) = (r, flat (rx t)) \<and> t = s\<lparr>rx := rx t\<rparr>"
proof (induction msg n s arbitrary: r t rule: exact.induct)
  case (1 msg n s)
  show ?case
  proof (cases n)
    case 0
    with 1(2) show ?thesis by (simp add: exact.simps[of msg 0])
  next
    case (Suc k)
    obtain q a' where ar: "arrive n (rx s) = (q, a')" by fastforce
    then have rc: "recv n s = (q, s\<lparr>rx := a'\<rparr>)" by (simp add: recv_def)
    note af = arrive_flat[of n "rx s", unfolded ar]
    show ?thesis
    proof (cases q)
      case (Inl e)
      with 1(2) rc Suc af show ?thesis by (auto simp: exact.simps[of msg "Suc k"])
    next
      case (Inr c)
      show ?thesis
      proof (cases "c = []")
        case True
        with 1(2) rc Suc af Inr show ?thesis by (auto simp: exact.simps[of msg "Suc k"])
      next
        case False
        obtain q2 u where ex: "exact msg (n - length c) (s\<lparr>rx := a'\<rparr>) = (q2, u)" by fastforce
        have ih: "pull msg (n - length c) (flat a') = (q2, flat (rx u)) \<and> u = s\<lparr>rx := rx u\<rparr>"
          using 1(1)[OF _ rc[symmetric] Inr False ex] Suc by simp
        have fl: "length c \<le> n" "flat (rx s) = List.map B c @ flat a'" using af Inr False Suc by simp_all
        have "pull msg n (flat (rx s)) = (case q2 of Inl e \<Rightarrow> (Inl e, flat (rx u)) | Inr bs \<Rightarrow> (Inr (c @ bs), flat (rx u)))"
          using pull_chunk[OF fl(1)] ih by (simp add: fl(2))
        moreover have "exact msg n s = (case q2 of Inl e \<Rightarrow> (Inl e, u) | Inr bs \<Rightarrow> (Inr (c @ bs), u))"
          using Suc rc Inr False ex by (simp add: exact.simps[of msg "Suc k"])
        ultimately show ?thesis using 1(2) ih by (cases q2) simp_all
      qed
    qed
  qed
qed

lemma seamless_exact [stream_intros]: "seamless (exact msg n)"
proof (rule seamlessI)
  fix s t
  assume st: "sim s t"
  obtain r s' q t' where ex: "exact msg n s = (r, s')" "exact msg n t = (q, t')" by fastforce
  note p = exact_pull[OF ex(1)] exact_pull[OF ex(2)]
  then have "r = q" "flat (rx s') = flat (rx t')" using st by (auto simp: sim_def)
  moreover have "sim s' t'"
    using p st calculation(2) by (cases s'; cases t') (auto simp: sim_def)
  ultimately show "fst (exact msg n s) = fst (exact msg n t) \<and> sim (snd (exact msg n s)) (snd (exact msg n t))"
    by (simp add: ex)
qed

text \<open>A single octet can be asked for without a loop.\<close>

lemma arrive_one: "(case arrive 1 a of (r, a') \<Rightarrow> (r, flat a')) =
    (case flat a of
       [] \<Rightarrow> (Inl TimeoutError, [])
     | B b # xs \<Rightarrow> (Inr [b], xs)
     | E Eof # xs \<Rightarrow> (Inr [], E Eof # xs)
     | E Reset # xs \<Rightarrow> (Inl ConnectionResetError, xs)
     | E _ # xs \<Rightarrow> (Inl TimeoutError, xs))"
proof (induction a rule: flat.induct)
  case (2 bs rest)
  then show ?case by (cases bs) simp_all
qed simp_all

lemma seamless_recv_one [stream_intros]: "seamless (recv 1)"
proof (rule seamlessI)
  fix s t
  assume st: "sim s t"
  obtain r a' q b' where ar: "arrive 1 (rx s) = (r, a')" "arrive 1 (rx t) = (q, b')" by fastforce
  then have "(r, flat a') = (q, flat b')"
    using arrive_one[of "rx s"] arrive_one[of "rx t"] st by (simp add: sim_def)
  then show "fst (recv 1 s) = fst (recv 1 t) \<and> sim (snd (recv 1 s)) (snd (recv 1 t))"
    using ar st by (simp add: recv_def sim_def)
qed

section \<open>Framing as an interface\<close>

text \<open>
  A transport delivers and emits whole payloads. Whoever only uses these two operations cannot tell
  how the stream was cut, and what one side sends the other receives.
\<close>

fun receive_n :: "(net, bytes) prog \<Rightarrow> nat \<Rightarrow> (net, bytes list) prog" where
  "receive_n get 0 = ret []"
| "receive_n get (Suc n) = bindM get (\<lambda>p. bindM (receive_n get n) (\<lambda>ps. ret (p # ps)))"

locale transport =
  fixes get :: "(net, bytes) prog"
    and put :: "bytes \<Rightarrow> (net, unit) prog"
    and frame :: "bytes \<Rightarrow> bytes result"
  assumes get_seamless: "seamless get"
    and put_seamless: "seamless (put p)"
    and put_sends: "put p s = (case frame p of Inl e \<Rightarrow> (Inl e, s) | Inr bs \<Rightarrow> sendall bs s)"
    and get_frame: "frame p = Inr bs \<Longrightarrow> flat (rx s) = List.map B bs @ rest
      \<Longrightarrow> \<exists>t. get s = (Inr p, t) \<and> flat (rx t) = rest \<and> t = s\<lparr>rx := rx t\<rparr>"
begin

lemma get_all:
  "list_all2 (\<lambda>p bs. frame p = Inr bs) ps fs \<Longrightarrow> flat (rx s) = List.map B (concat fs) @ rest \<Longrightarrow>
     \<exists>t. receive_n get (length ps) s = (Inr ps, t) \<and> flat (rx t) = rest \<and> t = s\<lparr>rx := rx t\<rparr>"
proof (induction ps fs arbitrary: s rule: list_all2_induct)
  case Nil
  then show ?case by (simp add: ret_def)
next
  case (Cons p ps f fs)
  obtain t where t: "get s = (Inr p, t)" "flat (rx t) = List.map B (concat fs) @ rest" "t = s\<lparr>rx := rx t\<rparr>"
    using get_frame[OF Cons(1), of s "List.map B (concat fs) @ rest"] Cons.prems by auto
  obtain u where u: "receive_n get (length ps) t = (Inr ps, u)" "flat (rx u) = rest" "u = t\<lparr>rx := rx u\<rparr>"
    using Cons.IH[OF t(2)] by blast
  have "u = s\<lparr>rx := rx u\<rparr>" using t(3) u(3) by (metis net.update_convs(2) net.surjective)
  then show ?case using t(1) u by (simp add: bindM_def ret_def)
qed

lemma receive_n_seamless: "seamless (receive_n get n)"
  by (induction n) (auto intro!: stream_intros get_seamless)

lemma put_get:
  assumes "put p s = (Inr (), s')" "faults s = []"
  shows "\<exists>bs. io_log s' = io_log s @ [Sent bs]
    \<and> (\<forall>t rest. flat (rx t) = List.map B bs @ rest \<longrightarrow> fst (get t) = Inr p)"
proof -
  obtain bs where bs: "frame p = Inr bs" "s' = log_io (Sent bs) s"
    using assms put_sends[of p s] by (cases "frame p") (auto simp: sendall_def)
  have "fst (get t) = Inr p" if "flat (rx t) = List.map B bs @ rest" for t rest
    using get_frame[OF bs(1) that] by auto
  with bs show ?thesis by auto
qed

end

section \<open>TPKT is such a transport\<close>

lemma pull_all: "pull msg (length bs) (List.map B bs @ rest) = (Inr bs, rest)"
  by (induction bs) simp_all

lemma exact_ok:
  assumes "flat (rx s) = List.map B bs @ rest" "length bs = n"
  obtains t where "exact msg n s = (Inr bs, t)" "flat (rx t) = rest" "t = s\<lparr>rx := rx t\<rparr>"
proof -
  obtain r t where ex: "exact msg n s = (r, t)" by fastforce
  from exact_pull[OF ex] pull_all[of msg bs rest] assms that[of t] ex show ?thesis by simp
qed

lemma tpkt_frame_layout:
  "tpkt_frame payload = Inr bs \<longleftrightarrow> length payload + 4 < 65536 \<and> bs = [3, 0] @ be_bytes 2 (len payload + 4) @ payload"
  by (auto simp: tpkt_frame_def len_def byte_def simp del: be_bytes_numeral)

lemma tpkt_receive_frame:
  assumes "tpkt_frame p = Inr bs" "flat (rx s) = List.map B bs @ rest"
  shows "\<exists>t. tpkt_receive c i s = (Inr p, t) \<and> flat (rx t) = rest \<and> t = s\<lparr>rx := rx t\<rparr>"
proof -
  define hdr where "hdr = [3, 0] @ be_bytes 2 (len p + 4)"
  have bs: "bs = hdr @ p" and small: "length p + 4 < 65536"
    using assms(1) by (simp_all add: tpkt_frame_layout hdr_def del: be_bytes_numeral)
  obtain t where t: "exact c 4 s = (Inr hdr, t)" "flat (rx t) = List.map B p @ rest" "t = s\<lparr>rx := rx t\<rparr>"
    by (rule exact_ok[of s hdr "List.map B p @ rest" 4 c]) (use assms(2) in \<open>simp_all add: bs hdr_def del: be_bytes_numeral\<close>)
  obtain u where u: "exact c (length p) t = (Inr p, u)" "flat (rx u) = rest" "u = t\<lparr>rx := rx u\<rparr>"
    by (rule exact_ok[OF t(2) refl, of c])
  have size: "nat (be_int (slice 2 4 hdr)) = length p + 4"
    using small by (simp add: hdr_def slice_def len_def be_int_2 del: be_bytes_numeral)
  have h: "hdr ! 0 = 3" "hdr ! 1 = 0" by (simp_all add: hdr_def)
  have "tpkt_receive c i s = (Inr p, u)"
    using t(1) u(1) h size by (simp add: tpkt_receive_def bindM_def thenM_def expect_def guardM_def liftE_def)
  moreover have "u = s\<lparr>rx := rx u\<rparr>" using t(3) u(3) by (metis net.update_convs(2) net.surjective)
  ultimately show ?thesis using u(2) by blast
qed

lemma seamless_tpkt_receive [stream_intros]: "seamless (tpkt_receive c i)"
  unfolding tpkt_receive_def Let_def by (intro stream_intros)

lemma seamless_tpkt_send [stream_intros]: "seamless (tpkt_send p)"
  unfolding tpkt_send_def by (intro stream_intros)

lemma tpkt_send_frame: "tpkt_send p s = (case tpkt_frame p of Inl e \<Rightarrow> (Inl e, s) | Inr bs \<Rightarrow> sendall bs s)"
  by (simp add: tpkt_send_def bindM_def liftE_def split: sum.splits)

interpretation mb: transport receive tpkt_send tpkt_frame
  by unfold_locales (auto simp: receive_def tpkt_send_frame intro: stream_intros intro!: tpkt_receive_frame)

interpretation rt: transport receive_tpkt tpkt_send tpkt_frame
  by unfold_locales (auto simp: receive_tpkt_def tpkt_send_frame intro: stream_intros intro!: tpkt_receive_frame)

text \<open>One layer up: S7 in COTP data units.\<close>

definition s7_frame :: "bytes \<Rightarrow> bytes result" where
  "s7_frame pdu = tpkt_frame (cotp_data @ pdu)"

lemma seamless_take_request [stream_intros]: "seamless take_request"
  unfolding take_request_def by (intro stream_intros mb.get_seamless)

lemma seamless_receive [stream_intros]: "seamless receive"
  by (rule mb.get_seamless)

lemma seamless_receive_tpkt [stream_intros]: "seamless receive_tpkt"
  by (rule rt.get_seamless)

lemma seamless_receive_s7 [stream_intros]: "seamless receive_s7"
  unfolding receive_s7_def by (intro stream_intros)

lemma seamless_send_pdu [stream_intros]: "seamless (send_pdu p)"
  unfolding send_pdu_def by (intro stream_intros)

lemma seamless_reply [stream_intros]: "seamless (reply p)"
  unfolding reply_def by (intro stream_intros)

lemma seamless_send_s7 [stream_intros]: "seamless (send_s7 p)"
  unfolding send_s7_def by (intro stream_intros)

lemma seamless_send_s7_segmented [stream_intros]: "seamless (send_s7_segmented p n)"
  unfolding send_s7_segmented_def by (intro stream_intros)

lemma seamless_with_connection [stream_intros]: "seamless m \<Longrightarrow> seamless (with_connection m)"
  unfolding with_connection_def by (intro stream_intros)

lemma seamless_accepting [stream_intros]: "seamless m \<Longrightarrow> seamless (accepting m)"
  unfolding accepting_def by (intro stream_intros)

lemma seamless_collects [stream_intros]: "seamless m \<Longrightarrow> seamless (collects m)"
  unfolding collects_def by (intro stream_intros)

lemma s7_get:
  assumes "s7_frame p = Inr bs" "flat (rx s) = List.map B bs @ rest"
  shows "\<exists>t. take_request s = (Inr p, t) \<and> flat (rx t) = rest \<and> t = s\<lparr>rx := rx t\<rparr>"
    and "\<exists>t. receive_s7 s = (Inr p, t) \<and> flat (rx t) = rest \<and> t = s\<lparr>rx := rx t\<rparr>"
proof -
  have f: "tpkt_frame (cotp_data @ p) = Inr bs" using assms(1) by (simp add: s7_frame_def)
  have c: "take 3 (cotp_data @ p) = cotp_data" "drop 3 (cotp_data @ p) = p" by (simp_all add: cotp_data_def)
  obtain t where "receive s = (Inr (cotp_data @ p), t)" "flat (rx t) = rest" "t = s\<lparr>rx := rx t\<rparr>"
    using mb.get_frame[OF f assms(2)] by blast
  then show "\<exists>t. take_request s = (Inr p, t) \<and> flat (rx t) = rest \<and> t = s\<lparr>rx := rx t\<rparr>"
    using c by (simp add: take_request_def bindM_def thenM_def expect_def guardM_def liftE_def ret_def)
  obtain u where "receive_tpkt s = (Inr (cotp_data @ p), u)" "flat (rx u) = rest" "u = s\<lparr>rx := rx u\<rparr>"
    using rt.get_frame[OF f assms(2)] by blast
  then show "\<exists>t. receive_s7 s = (Inr p, t) \<and> flat (rx t) = rest \<and> t = s\<lparr>rx := rx t\<rparr>"
    using c by (simp add: receive_s7_def bindM_def thenM_def expect_def guardM_def liftE_def ret_def)
qed

lemma send_pdu_frame: "send_pdu p s = (case s7_frame p of Inl e \<Rightarrow> (Inl e, s) | Inr bs \<Rightarrow> sendall bs s)"
  by (simp add: send_pdu_def s7_frame_def tpkt_send_frame)

interpretation mb_s7: transport take_request send_pdu s7_frame
  by unfold_locales (auto simp: send_pdu_frame intro: stream_intros s7_get)

lemma ack_s7_response: "ack reference parameters data = s7_response reference parameters data"
  by (simp add: ack_def s7_response_def)

end
