(* ===== verification/Peers.thy ===== *)
theory Peers
  imports Sockets Decimal "HOL-Library.Multiset"
begin

text \<open>
  What the peers of \<^verbatim>\<open>overlap_operations.py\<close>, \<^verbatim>\<open>boundary_operations.py\<close>,
  \<^verbatim>\<open>mixed_operations.py\<close>, \<^verbatim>\<open>queued_batches.py\<close>, \<^verbatim>\<open>live_correlation.py\<close>
  and \<^verbatim>\<open>concurrency.py\<close> share: handshakes, the wire check that masks the reference,
  transfers cut into chunks, the cleanup checks after a terminal event, plan tokens,
  and the seeded generator as a stream of draws.
\<close>

section \<open>Random draws\<close>

text \<open>
  \<^verbatim>\<open>random.Random(seed)\<close>: an arbitrary stream of numbers, consumed one per call. The
  library's \<^verbatim>\<open>randrange\<close> and \<^verbatim>\<open>choice\<close> reduce a number to the range asked for, so what holds
  for every stream holds for every seed.
\<close>

type_synonym draws = "nat \<Rightarrow> nat"

definition rest_of :: "nat \<Rightarrow> draws \<Rightarrow> draws" where
  "rest_of k d = (\<lambda>i. d (k + i))"

definition randrange :: "int \<Rightarrow> int \<Rightarrow> nat \<Rightarrow> int" where
  "randrange lo hi x = lo + int x mod (hi - lo)"

definition choice_of :: "'a list \<Rightarrow> nat \<Rightarrow> 'a" where
  "choice_of xs x = xs ! (x mod length xs)"

lemma randrange_bounds:
  assumes "lo < hi"
  shows "lo \<le> randrange lo hi x" "randrange lo hi x < hi"
proof -
  have "0 < hi - lo" using assms by simp
  from pos_mod_sign[OF this, of "int x"] pos_mod_bound[OF this, of "int x"]
  show "lo \<le> randrange lo hi x" "randrange lo hi x < hi" unfolding randrange_def by linarith+
qed

lemma choice_of_in: "xs \<noteq> [] \<Longrightarrow> choice_of xs x \<in> set xs"
  by (simp add: choice_of_def)

text \<open>\<^verbatim>\<open>random.shuffle\<close>: the Fisher--Yates exchange, from the last position down.\<close>

fun shuffle_from :: "nat \<Rightarrow> draws \<Rightarrow> 'a list \<Rightarrow> 'a list" where
  "shuffle_from 0 d xs = xs"
| "shuffle_from (Suc i) d xs =
     (let j = d 0 mod (Suc i + 1) in
      shuffle_from i (rest_of 1 d) (xs[Suc i := xs ! j, j := xs ! Suc i]))"

definition shuffle :: "draws \<Rightarrow> 'a list \<Rightarrow> 'a list" where
  "shuffle d xs = shuffle_from (length xs - 1) d xs"

lemma mset_exchange: "i < length xs \<Longrightarrow> j < length xs \<Longrightarrow> mset (xs[i := xs ! j, j := xs ! i]) = mset xs"
  using mset_swap[of j xs i] by simp

lemma mset_shuffle_from: "i < length xs \<or> xs = [] \<and> i = 0 \<Longrightarrow> mset (shuffle_from i d xs) = mset xs"
proof (induction i arbitrary: d xs)
  case 0
  show ?case by simp
next
  case (Suc i)
  then have l: "Suc i < length xs" by auto
  let ?j = "d 0 mod (Suc i + 1)"
  have "?j < Suc i + 1" by (rule mod_less_divisor) simp
  then have j: "?j < length xs" using l by linarith
  have "mset (shuffle_from (Suc i) d xs) = mset (xs[Suc i := xs ! ?j, ?j := xs ! Suc i])"
    using Suc.IH l by (simp add: Let_def)
  then show ?case using mset_exchange[OF l j] by simp
qed

lemma mset_shuffle [simp]: "mset (shuffle d xs) = mset xs"
  unfolding shuffle_def by (rule mset_shuffle_from) (cases xs; simp)

lemma set_shuffle [simp]: "set (shuffle d xs) = set xs"
  using mset_shuffle[of d xs] mset_eq_setD by blast

lemma length_shuffle [simp]: "length (shuffle d xs) = length xs"
  using mset_shuffle[of d xs] mset_eq_length by blast

section \<open>Transfers in chunks\<close>

text \<open>
  The loop \<^verbatim>\<open>while offset < total: .. size = min(limit, total - offset) .. offset += size\<close> as the list of
  its rounds. A limit below one, where that loop would not advance, is outside the model: the peers
  run at 240 and 480 octets.
\<close>

function chunks_from :: "int \<Rightarrow> int \<Rightarrow> int \<Rightarrow> (int \<times> int) list" where
  "chunks_from limit amount offset =
     (if offset < amount \<and> 0 < limit
      then (offset, min limit (amount - offset)) # chunks_from limit amount (offset + min limit (amount - offset))
      else [])"
  by pat_completeness auto

termination chunks_from
  by (relation "measure (\<lambda>(limit, amount, offset). nat (amount - offset))") auto

declare chunks_from.simps [simp del]

definition chunks :: "int \<Rightarrow> int \<Rightarrow> (int \<times> int) list" where
  "chunks limit amount = chunks_from limit amount 0"

lemma chunks_from_step:
  "offset < amount \<Longrightarrow> 0 < limit \<Longrightarrow> chunks_from limit amount offset
     = (offset, min limit (amount - offset)) # chunks_from limit amount (offset + min limit (amount - offset))"
  by (subst chunks_from.simps) simp

lemma chunks_from_stop: "\<not> (offset < amount \<and> 0 < limit) \<Longrightarrow> chunks_from limit amount offset = []"
  by (subst chunks_from.simps) (simp only: if_False)

lemma chunks_from_bounds:
  "(p, n) \<in> set (chunks_from limit amount offset) \<Longrightarrow> offset \<le> p \<and> 0 < n \<and> n \<le> limit \<and> p + n \<le> amount"
proof (induction limit amount offset rule: chunks_from.induct)
  case (1 limit amount offset)
  show ?case
  proof (cases "offset < amount \<and> 0 < limit")
    case True
    with 1 show ?thesis by (auto simp: chunks_from_step)
  next
    case False
    with 1(2) show ?thesis by (simp add: chunks_from_stop)
  qed
qed

lemma slice_drop: "i \<le> j \<Longrightarrow> slice i j xs @ drop j xs = drop i xs"
  using append_take_drop_id[of "j - i" "drop i xs"] by (simp add: slice_def)

lemma take_slice_drop: "i \<le> j \<Longrightarrow> xs = take i xs @ slice i j xs @ drop j xs"
  by (simp add: slice_drop)

text \<open>The rounds cover the transfer once, in order.\<close>

lemma concat_slices:
  "0 \<le> offset \<Longrightarrow> 0 < limit \<Longrightarrow> amount = len xs \<Longrightarrow>
     concat (List.map (\<lambda>(p, n). slice (nat p) (nat (p + n)) xs) (chunks_from limit amount offset)) = drop (nat offset) xs"
proof (induction limit amount offset rule: chunks_from.induct)
  case (1 limit amount offset)
  show ?case
  proof (cases "offset < amount")
    case True
    let ?n = "min limit (amount - offset)"
    have n: "0 < ?n" "offset + ?n \<le> amount" using True 1(3) by auto
    have "slice (nat offset) (nat (offset + ?n)) xs @ drop (nat (offset + ?n)) xs = drop (nat offset) xs"
      by (rule slice_drop) (use n(1) in linarith)
    with 1 True n show ?thesis by (simp add: chunks_from_step)
  next
    case False
    with 1 show ?thesis by (simp add: chunks_from_stop len_def nat_le_iff)
  qed
qed

section \<open>Plan tokens\<close>

text \<open>Records between bars, fields between colons.\<close>

definition colon :: nat where "colon = 58"
definition bar :: nat where "bar = 124"

definition encode_tokens :: "ustr list list \<Rightarrow> ustr" where
  "encode_tokens rows = join_with bar (List.map (join_with colon) rows)"

definition decode_tokens :: "ustr \<Rightarrow> ustr list list" where
  "decode_tokens plan = (if plan = [] then [] else List.map (split_on colon) (split_on bar plan))"

lemma join_chars: "c \<in> set (join_with sep ps) \<Longrightarrow> c = sep \<or> (\<exists>p \<in> set ps. c \<in> set p)"
  by (induction sep ps rule: join_with.induct) auto

lemma tokens_roundtrip:
  assumes "\<And>row. row \<in> set rows \<Longrightarrow> 2 \<le> length row"
    and "\<And>row f. row \<in> set rows \<Longrightarrow> f \<in> set row \<Longrightarrow> colon \<notin> set f \<and> bar \<notin> set f"
  shows "decode_tokens (encode_tokens rows) = rows"
proof (cases "rows = []")
  case True
  then show ?thesis by (simp add: encode_tokens_def decode_tokens_def)
next
  case False
  have nobar: "bar \<notin> set (join_with colon row)" if "row \<in> set rows" for row
    using assms(2)[OF that] join_chars[of bar colon row] by (auto simp: colon_def bar_def)
  have fields: "split_on colon (join_with colon row) = row" if "row \<in> set rows" for row
    using split_join[of row colon] assms(1,2)[OF that] by fastforce
  have "join_with colon row \<noteq> []" if "row \<in> set rows" for row
    using assms(1)[OF that] by (auto simp: join_with_empty_iff)
  with False have "encode_tokens rows \<noteq> []" by (auto simp: encode_tokens_def join_with_empty_iff)
  then show ?thesis
    using split_join[of "List.map (join_with colon) rows" bar] False nobar fields
    by (simp add: encode_tokens_def decode_tokens_def map_idI)
qed

lemma int_str_no_sep: "colon \<notin> set (int_str i) \<and> bar \<notin> set (int_str i)"
  by (auto dest!: int_str_chars simp: colon_def bar_def is_digit_def)

section \<open>Checking a request up to its reference\<close>

text \<open>
  \<^verbatim>\<open>len(request) > pdu or request[:4] != expected[:4] or request[6:] != expected[6:]\<close>, against a packet
  built with reference zero; the answer is the reference, whatever it is.
\<close>

definition same_masked :: "bytes \<Rightarrow> bytes \<Rightarrow> bool" where
  "same_masked request expected \<longleftrightarrow> take 4 request = take 4 expected \<and> drop 6 request = drop 6 expected"

definition masked_check :: "string \<Rightarrow> int \<Rightarrow> bytes \<Rightarrow> bytes \<Rightarrow> int result" where
  "masked_check msg pdu request expected =
     (if len request > pdu \<or> \<not> same_masked request expected then Inl (RuntimeError msg) else Inr (be_int (slice 4 6 request)))"

lemma packet_parts:
  assumes "packet 1 0 parameters data = Inr expected" "0 \<le> r" "r < 65536"
  shows "packet 1 r parameters data = Inr (take 4 expected @ be_bytes 2 r @ drop 6 expected)"
proof -
  note b = packet_bounds[OF assms(1)]
  define head_part where "head_part = [byte 0x32, byte 1, 0, 0]"
  define tail_part where "tail_part = be_bytes 2 (len parameters) @ be_bytes 2 (len data) @ parameters @ data"
  have p: "packet 1 v parameters data = Inr (head_part @ be_bytes 2 v @ tail_part)" if "0 \<le> v" "v < 65536" for v
    using packet_ok[of 1 v parameters data] that b(5,6) by (simp add: head_part_def tail_part_def del: be_bytes_numeral)
  have "expected = head_part @ be_bytes 2 0 @ tail_part" using p[of 0] assms(1) by simp
  moreover have "length head_part = 4" by (simp add: head_part_def)
  ultimately show ?thesis using p[OF assms(2,3)] by simp
qed

lemma masked_check_iff:
  assumes "packet 1 0 parameters data = Inr expected"
  shows "masked_check msg pdu request expected = Inr r \<longleftrightarrow> packet 1 r parameters data = Inr request \<and> len request \<le> pdu"
proof
  have l: "10 \<le> length expected" using packet_length[OF assms] by simp
  assume "masked_check msg pdu request expected = Inr r"
  then have h: "len request \<le> pdu" "take 4 request = take 4 expected" "drop 6 request = drop 6 expected"
      "r = be_int (slice 4 6 request)"
    by (simp_all add: masked_check_def same_masked_def split: if_splits)
  have "length (drop 6 request) = length (drop 6 expected)" using h(3) by (rule arg_cong)
  then have "6 < length request" using l by simp
  then have s: "length (slice 4 6 request) = 2" by (simp add: length_slice)
  then have "be_bytes 2 r = slice 4 6 request" using be_bytes_be_int[of "slice 4 6 request"] h(4) by simp
  moreover have "0 \<le> r" "r < 65536" using be_int_nonneg be_int_bound[of "slice 4 6 request"] s h(4) by simp_all
  moreover have "request = take 4 request @ slice 4 6 request @ drop 6 request" by (rule take_slice_drop) simp
  ultimately show "packet 1 r parameters data = Inr request \<and> len request \<le> pdu"
    using packet_parts[OF assms] h(1,2,3) by (simp del: be_bytes_numeral)
next
  have l: "10 \<le> length expected" using packet_length[OF assms] by simp
  assume r: "packet 1 r parameters data = Inr request \<and> len request \<le> pdu"
  then have b: "0 \<le> r" "r < 65536" using packet_bounds by blast+
  have eq: "request = take 4 expected @ be_bytes 2 r @ drop 6 expected"
    using packet_parts[OF assms b] r by simp
  have "take 4 request = take 4 expected" "drop 6 request = drop 6 expected" "slice 4 6 request = be_bytes 2 r"
    using l by (simp_all add: eq slice_def del: be_bytes_numeral)
  then show "masked_check msg pdu request expected = Inr r"
    using r be_int_2[OF b] by (simp add: masked_check_def same_masked_def del: be_bytes_numeral)
qed

section \<open>Reads and writes of one range\<close>

text \<open>
  The request both peers of single ranges expect: function 4 or 5, one item, the octet transport,
  data block 1; a write carries its data with the bit length.
\<close>

definition transfer_parameters :: "bool \<Rightarrow> int \<Rightarrow> int \<Rightarrow> bytes result" where
  "transfer_parameters write_op amount address =
     concatE [Inr ([if write_op then 5 else 4, 1] @ [0x12, 0x0a, 0x10, 2]), pack 2 amount, pack 2 1, Inr [0x84],
       to_bytes 3 (address * 8)]"

definition transfer_data :: "bool \<Rightarrow> int \<Rightarrow> bytes \<Rightarrow> bytes result" where
  "transfer_data write_op amount data =
     (if write_op then concatE [Inr [0, 4], pack 2 (amount * 8), Inr data] else Inr [])"

definition check_transfer :: "string \<Rightarrow> int \<Rightarrow> bytes \<Rightarrow> bool \<Rightarrow> int \<Rightarrow> int \<Rightarrow> bytes \<Rightarrow> int result" where
  "check_transfer msg pdu request write_op amount address data =
     bindE (transfer_parameters write_op amount address) (\<lambda>parameters.
     bindE (transfer_data write_op amount data) (\<lambda>content.
     bindE (packet 1 0 parameters content) (masked_check msg pdu request)))"

lemma packet_reference: "packet 1 r parameters data = Inr p \<Longrightarrow> \<exists>q. packet 1 0 parameters data = Inr q"
  using packet_bounds[of 1 r parameters data p] packet_ok[of 1 0 parameters data] by auto

lemma check_transfer_iff:
  "check_transfer msg pdu request write_op amount address data = Inr r \<longleftrightarrow>
     (\<exists>parameters content. transfer_parameters write_op amount address = Inr parameters
        \<and> transfer_data write_op amount data = Inr content
        \<and> packet 1 r parameters content = Inr request \<and> len request \<le> pdu)"
proof -
  have "bindE (packet 1 0 p d) (masked_check msg pdu request) = Inr r \<longleftrightarrow> packet 1 r p d = Inr request \<and> len request \<le> pdu"
    for p d
  proof (cases "packet 1 0 p d")
    case (Inl e)
    then show ?thesis using packet_reference[of r p d request] by auto
  next
    case (Inr q)
    then show ?thesis by (simp add: masked_check_iff del: bindE_Inr_iff)
  qed
  then show ?thesis by (simp add: check_transfer_def)
qed

section \<open>Loops that may return\<close>

text \<open>A \<^verbatim>\<open>for\<close> loop whose body may execute \<^verbatim>\<open>return\<close> (the value \<open>True\<close>) or go on.\<close>

fun loopM :: "('a \<Rightarrow> ('s, bool) prog) \<Rightarrow> 'a list \<Rightarrow> ('s, bool) prog" where
  "loopM f [] = ret False"
| "loopM f (x # xs) = bindM (f x) (\<lambda>returned. if returned then ret True else loopM f xs)"

lemma seamless_loopM [stream_intros]: "(\<And>x. seamless (f x)) \<Longrightarrow> seamless (loopM f xs)"
  by (induction xs) (auto intro!: stream_intros)

text \<open>The same with a value carried along; \<open>None\<close> is the \<^verbatim>\<open>return\<close>.\<close>

fun loopS :: "('a \<Rightarrow> 'b \<Rightarrow> ('s, 'b option) prog) \<Rightarrow> 'a list \<Rightarrow> 'b \<Rightarrow> ('s, 'b option) prog" where
  "loopS f [] b = ret (Some b)"
| "loopS f (x # xs) b = bindM (f x b) (\<lambda>r. case r of None \<Rightarrow> ret None | Some b \<Rightarrow> loopS f xs b)"

lemma seamless_loopS [stream_intros]: "(\<And>x b. seamless (f x b)) \<Longrightarrow> seamless (loopS f xs b)"
  by (induction xs arbitrary: b) (auto intro!: stream_intros)

definition unless :: "bool \<Rightarrow> ('s, unit) prog \<Rightarrow> ('s, unit) prog" where
  "unless b m = (if b then ret () else m)"

lemma seamless_unless [stream_intros]: "seamless m \<Longrightarrow> seamless (unless b m)"
  by (simp add: unless_def stream_intros)

section \<open>Small pieces of the source language\<close>

text \<open>\<^verbatim>\<open>xs[i:j] = new\<close> on a byte array.\<close>

definition overwrite :: "nat \<Rightarrow> nat \<Rightarrow> bytes \<Rightarrow> bytes \<Rightarrow> bytes" where
  "overwrite i j new xs = take i xs @ new @ drop j xs"

text \<open>\<^verbatim>\<open>needle in text\<close> on strings.\<close>

fun contains :: "'a list \<Rightarrow> 'a list \<Rightarrow> bool" where
  "contains needle [] = (needle = [])"
| "contains needle (c # cs) = (take (length needle) (c # cs) = needle \<or> contains needle cs)"

lemma contains_single: "contains [c] s \<longleftrightarrow> c \<in> set s"
  by (induction s) auto

section \<open>After a terminal event\<close>

text \<open>Nobody may connect again within the grace period.\<close>

definition no_reconnect :: "string \<Rightarrow> (net, unit) prog" where
  "no_reconnect msg = bindM (attempt accept) (\<lambda>r. case r of
       Inl e \<Rightarrow> if e = TimeoutError then ret () else raise e
     | Inr _ \<Rightarrow> thenM close (failing msg))"

text \<open>One more octet, where a reset counts as the end.\<close>

definition last_octet :: "(net, bytes) prog" where
  "last_octet = catchM (recv 1) (\<lambda>e. if e = ConnectionResetError then ret [] else raise e)"

lemma seamless_no_reconnect [stream_intros]: "seamless (no_reconnect msg)"
  unfolding no_reconnect_def by (intro stream_intros)

lemma seamless_last_octet [stream_intros]: "seamless last_octet"
  unfolding last_octet_def by (intro stream_intros)

section \<open>Confirming a connection\<close>

text \<open>\<^verbatim>\<open>_send(connection, bytes([0x11, 0xD0, cr[4], cr[5], 0, 1, 0]) + cr[7:])\<close>\<close>

definition send_confirm :: "bytes \<Rightarrow> (net, unit) prog" where
  "send_confirm cr = bindM (liftE (confirm cr)) tpkt_send"

lemma seamless_send_confirm [stream_intros]: "seamless (send_confirm cr)"
  unfolding send_confirm_def by (intro stream_intros)

text \<open>\<^verbatim>\<open>concurrency._handshake\<close>\<close>

definition plain_handshake :: "(net, unit) prog" where
  "plain_handshake =
     bindM receive (\<lambda>cr. thenM (send_confirm cr)
     (bindM take_request (\<lambda>setup_pdu.
        reply (ack (reference_of setup_pdu) [0xf0, 0, 0, 1, 0, 1, 0, 0xf0] []))))"

lemma seamless_plain_handshake [stream_intros]: "seamless plain_handshake"
  unfolding plain_handshake_def by (intro stream_intros)

text \<open>The first octets of a reply decide whether the client is disconnecting.\<close>

definition disconnecting :: "bytes \<Rightarrow> bool" where
  "disconnecting frame \<longleftrightarrow> 2 \<le> length frame \<and> frame ! 1 = 0x80"

text \<open>A disconnect request: seven octets with code \<open>0x80\<close>.\<close>

definition is_disconnect :: "bytes \<Rightarrow> bool" where
  "is_disconnect frame \<longleftrightarrow> length frame = 7 \<and> frame ! 1 = 0x80"

definition final_disconnect :: "string \<Rightarrow> (net, unit) prog" where
  "final_disconnect msg = bindM receive (\<lambda>frame. expect (is_disconnect frame) msg)"

lemma seamless_final_disconnect [stream_intros]: "seamless (final_disconnect msg)"
  unfolding final_disconnect_def by (intro stream_intros)

section \<open>The verdict of a run\<close>

text \<open>
  How the client process ended: killed at its time limit, or with a return code and its output. What
  the \<^verbatim>\<open>_case\<close> functions make of it, of the peer's errors and of the peer's thread differs in the
  order of the checks only.
\<close>

datatype process = Timed_out | Exited int ustr

datatype check = Native_exit string | Peer_alive | Peer_errors

fun verdict_of :: "check \<Rightarrow> process \<Rightarrow> bool \<Rightarrow> ustr list \<Rightarrow> ustr option" where
  "verdict_of (Native_exit late) Timed_out alive errors = Some (ascii late)"
| "verdict_of (Native_exit late) (Exited code output) alive errors =
     (if code \<noteq> 0 then Some (ascii ''native: '' @ output) else None)"
| "verdict_of Peer_alive p alive errors = (if alive then Some (ascii ''peer: unfinished conversation'') else None)"
| "verdict_of Peer_errors p alive errors =
     (case errors of [] \<Rightarrow> None | e # _ \<Rightarrow> Some (ascii ''peer: '' @ e))"

fun verdict :: "check list \<Rightarrow> process \<Rightarrow> bool \<Rightarrow> ustr list \<Rightarrow> ustr option" where
  "verdict [] p alive errors = None"
| "verdict (c # cs) p alive errors =
     (case verdict_of c p alive errors of None \<Rightarrow> verdict cs p alive errors | Some v \<Rightarrow> Some v)"

lemma verdict_None:
  "verdict cs p alive errors = None \<longleftrightarrow> (\<forall>c \<in> set cs. verdict_of c p alive errors = None)"
  by (induction cs) (auto split: option.splits)

lemma verdict_clean:
  "set cs = {Native_exit late, Peer_alive, Peer_errors} \<Longrightarrow>
     verdict cs p alive errors = None \<longleftrightarrow> (\<exists>output. p = Exited 0 output) \<and> \<not> alive \<and> errors = []"
  by (cases p) (auto simp: verdict_None split: list.splits)

section \<open>Which exceptions a program can raise\<close>

text \<open>What sockets, packing and the peers' own checks raise; a predicate that allows these is sturdy.\<close>

definition sturdy :: "(exn \<Rightarrow> bool) \<Rightarrow> bool" where
  "sturdy P \<longleftrightarrow> P TimeoutError \<and> P ConnectionResetError \<and> P BrokenPipeError \<and> P StructError \<and> P OverflowError
     \<and> P IndexError \<and> (\<forall>msg. P (RuntimeError msg))"

definition raises_only :: "(exn \<Rightarrow> bool) \<Rightarrow> (net, 'a) prog \<Rightarrow> bool" where
  "raises_only P m \<longleftrightarrow> (\<forall>s e t. m s = (Inl e, t) \<longrightarrow> P e)"

named_theorems raise_intros \<open>programs that raise expected exceptions only\<close>

lemma sturdy_not [raise_intros]: "sturdy (\<lambda>e. e \<noteq> AssertionError)" "sturdy (\<lambda>e. e \<noteq> ValueError)"
  by (simp_all add: sturdy_def)

lemma raises_bindM [raise_intros]: "raises_only P m \<Longrightarrow> (\<And>a. raises_only P (f a)) \<Longrightarrow> raises_only P (bindM m f)"
  unfolding raises_only_def bindM_def by (auto split: prod.splits sum.splits)

lemma raises_thenM [raise_intros]: "raises_only P m \<Longrightarrow> raises_only P n \<Longrightarrow> raises_only P (thenM m n)"
  unfolding thenM_def by (rule raises_bindM)

lemma raises_ret [raise_intros]: "raises_only P (ret a)"
  by (simp add: raises_only_def ret_def)

lemma raises_raise [raise_intros]: "P e \<Longrightarrow> raises_only P (raise e)"
  by (simp add: raises_only_def raise_def)

lemma raises_if [raise_intros]: "raises_only P m \<Longrightarrow> raises_only P n \<Longrightarrow> raises_only P (if b then m else n)"
  by simp

lemma raises_forM [raise_intros]: "(\<And>x. raises_only P (f x)) \<Longrightarrow> raises_only P (forM xs f)"
  by (induction xs) (simp_all add: raise_intros)

lemma raises_expect [raise_intros]: "sturdy P \<Longrightarrow> raises_only P (expect ok msg)"
  by (auto simp: raises_only_def expect_def guardM_def liftE_def sturdy_def)

lemma raises_recv [raise_intros]:
  assumes "sturdy P"
  shows "raises_only P (recv n)"
proof -
  have "fst (arrive n a) = Inl e \<Longrightarrow> P e" for a e
    by (induction n a rule: arrive.induct) (use assms in \<open>auto simp: sturdy_def split: if_splits\<close>)
  then show ?thesis unfolding raises_only_def recv_def by (auto split: prod.splits) (metis fst_conv)
qed

lemma raises_exact [raise_intros]:
  assumes "sturdy P"
  shows "raises_only P (exact msg n)"
proof -
  have "exact msg n s = (Inl e, t) \<Longrightarrow> P e" for s e t
  proof (induction msg n s arbitrary: e t rule: exact.induct)
    case (1 msg n s)
    then show ?case using raises_recv[OF assms, of n] assms
      by (subst (asm) (2) exact.simps) (auto simp: raises_only_def sturdy_def split: if_splits prod.splits sum.splits)
  qed
  then show ?thesis by (simp add: raises_only_def)
qed

lemma raises_receive [raise_intros]: "sturdy P \<Longrightarrow> raises_only P receive"
  unfolding receive_def tpkt_receive_def Let_def by (intro raise_intros)

lemma raises_take_request [raise_intros]: "sturdy P \<Longrightarrow> raises_only P take_request"
  unfolding take_request_def by (intro raise_intros)

lemma raises_sendall [raise_intros]: "sturdy P \<Longrightarrow> raises_only P (sendall bs)"
  by (auto simp: raises_only_def sendall_def sturdy_def split: list.splits bool.splits)

lemma pack_Inl: "pack n v = Inl e \<Longrightarrow> e = StructError"
  by (auto simp: pack_def split: if_splits)

lemma concatE_Inl: "concatE rs = Inl e \<Longrightarrow> \<exists>r \<in> set rs. r = Inl e"
  by (induction rs) (auto simp: bindE_Inl_iff)

lemma raises_liftE [raise_intros]: "(\<And>e. r = Inl e \<Longrightarrow> P e) \<Longrightarrow> raises_only P (liftE r)"
  by (auto simp: raises_only_def liftE_def)

lemma ack_Inl: "ack r p d = Inl e \<Longrightarrow> e = StructError"
  unfolding ack_def by (drule concatE_Inl) (auto dest: pack_Inl sym)

lemma tpkt_frame_Inl: "tpkt_frame p = Inl e \<Longrightarrow> e = StructError"
  unfolding tpkt_frame_def by (drule concatE_Inl) (auto dest: pack_Inl sym)

lemma raises_tpkt_send [raise_intros]:
  assumes "sturdy P"
  shows "raises_only P (tpkt_send p)"
proof -
  have "P e" if "tpkt_frame p = Inl e" for e using tpkt_frame_Inl[OF that] assms by (simp add: sturdy_def)
  then show ?thesis unfolding tpkt_send_def using assms by (intro raise_intros)
qed

lemma raises_reply [raise_intros]: "sturdy P \<Longrightarrow> (\<And>e. p = Inl e \<Longrightarrow> P e) \<Longrightarrow> raises_only P (reply p)"
  unfolding reply_def send_pdu_def by (intro raise_intros)

lemma raises_accept [raise_intros]: "sturdy P \<Longrightarrow> raises_only P accept"
  by (auto simp: raises_only_def accept_def sturdy_def split: list.splits)

lemma raises_wait [raise_intros]: "raises_only P wait"
  by (auto simp: raises_only_def wait_def split: list.splits)

lemma raises_quiet [raise_intros]: "raises_only P (note_io i)" "raises_only P close"
  by (simp_all add: raises_only_def note_io_def close_def)

lemma raises_catchM [raise_intros]: "(\<And>e. P e \<Longrightarrow> raises_only P (h e)) \<Longrightarrow> raises_only P m \<Longrightarrow> raises_only P (catchM m h)"
  unfolding raises_only_def catchM_def by (auto split: prod.splits sum.splits)

lemma confirm_Inl: "confirm cr = Inl e \<Longrightarrow> e = IndexError"
  by (auto simp: confirm_def bindE_Inl_iff at_def split: if_splits)

lemma raises_send_confirm [raise_intros]:
  assumes "sturdy P"
  shows "raises_only P (send_confirm cr)"
proof -
  have "P e" if "confirm cr = Inl e" for e using confirm_Inl[OF that] assms by (simp add: sturdy_def)
  then show ?thesis unfolding send_confirm_def using assms by (intro raise_intros)
qed

lemma raises_plain_handshake [raise_intros]:
  assumes "sturdy P"
  shows "raises_only P plain_handshake"
proof -
  have "P e" if "ack r p d = Inl e" for e r p d using ack_Inl[OF that] assms by (simp add: sturdy_def)
  then show ?thesis unfolding plain_handshake_def using assms by (intro raise_intros)
qed

end
