(* ===== verification/Reduction.thy ===== *)
theory Reduction
  imports Prelude "HOL-Library.Sublist"
begin

text \<open>
  The two deletion reducers: \<^verbatim>\<open>mixed_operations.minimize\<close> with its budget, the plan
  reducers of \<^verbatim>\<open>overlap_operations.py\<close> and \<^verbatim>\<open>boundary_operations.py\<close> that run it on
  opaque characters, and \<^verbatim>\<open>session_fuzz.minimize\<close>, which runs to a fixed point. The
  predicate is a parameter: it runs the system under test.
\<close>

section \<open>The bounded reducer\<close>

text \<open>\<^verbatim>\<open>range(0, n, step)\<close>\<close>

definition py_range :: "nat \<Rightarrow> nat \<Rightarrow> nat list" where
  "py_range n step = List.map (\<lambda>i. i * step) [0..<(n + step - 1) div step]"

definition without :: "nat \<Rightarrow> nat \<Rightarrow> 'a list \<Rightarrow> 'a list" where
  "without offset width plan = take offset plan @ drop (offset + width) plan"

fun scan :: "('a list \<Rightarrow> bool) \<Rightarrow> nat \<Rightarrow> nat \<Rightarrow> 'a list \<Rightarrow> nat list \<Rightarrow> nat \<Rightarrow> 'a list option \<times> nat" where
  "scan fails budget width plan [] attempts = (None, attempts)"
| "scan fails budget width plan (offset # rest) attempts =
     (let candidate = without offset width plan; attempts = attempts + 1
      in if fails candidate then (Some candidate, attempts)
         else if attempts \<ge> budget then (None, attempts)
         else scan fails budget width plan rest attempts)"

lemma scan_attempts:
  "scan fails budget width plan os attempts = (r, n) \<Longrightarrow> attempts \<le> n \<and> (os \<noteq> [] \<longrightarrow> attempts < n)
     \<and> (attempts < budget \<longrightarrow> n \<le> budget)"
  by (induction os arbitrary: attempts) (auto simp: Let_def split: if_splits, force+)

lemma py_range_nonempty: "0 < n \<Longrightarrow> 0 < step \<Longrightarrow> py_range n step \<noteq> []"
  by (auto simp: py_range_def div_greater_zero_iff)

text \<open>The loop; the width is at least one from the start, as the guard records.\<close>

function reduce_loop :: "('a list \<Rightarrow> bool) \<Rightarrow> nat \<Rightarrow> nat \<Rightarrow> 'a list \<Rightarrow> nat \<Rightarrow> 'a list \<times> nat" where
  "reduce_loop fails budget width plan attempts =
     (if plan \<noteq> [] \<and> attempts < budget \<and> 0 < width then
        (case scan fails budget width plan (py_range (length plan) width) attempts of
           (None, n) \<Rightarrow> if width = 1 then (plan, n) else reduce_loop fails budget (max 1 (width div 2)) plan n
         | (Some candidate, n) \<Rightarrow> reduce_loop fails budget (min width (max 1 (length candidate))) candidate n)
      else (plan, attempts))"
  by pat_completeness auto

lemma scan_progress:
  "(r, n) = scan fails budget width plan (py_range (length plan) width) attempts \<Longrightarrow>
     plan \<noteq> [] \<Longrightarrow> attempts < budget \<Longrightarrow> 0 < width \<Longrightarrow> attempts < n \<and> n \<le> budget"
  using scan_attempts[of fails budget width plan "py_range (length plan) width" attempts r n]
    py_range_nonempty[of "length plan" width] by auto

termination reduce_loop
  by (relation "measure (\<lambda>(fails, budget, width, plan, attempts). budget - attempts)")
    (auto dest: scan_progress)

declare reduce_loop.simps [simp del]

definition minimize :: "('a list \<Rightarrow> bool) \<Rightarrow> nat \<Rightarrow> 'a list \<Rightarrow> 'a list result" where
  "minimize fails budget plan =
     (if \<not> fails plan then Inl ValueError
      else Inr (fst (reduce_loop fails budget (max 1 (length plan div 2)) plan 0)))"

text \<open>Whole operations under one character each, \<^verbatim>\<open>chr(0x100 + index)\<close>.\<close>

definition plan_keys :: "'a list \<Rightarrow> nat list" where
  "plan_keys operations = List.map (\<lambda>i. 0x100 + i) [0..<length operations]"

definition from_key :: "'a list \<Rightarrow> nat \<Rightarrow> 'a" where
  "from_key operations key = operations ! (key - 0x100)"

definition reduce_plan :: "('a list \<Rightarrow> bool) \<Rightarrow> nat \<Rightarrow> 'a list \<Rightarrow> 'a list result" where
  "reduce_plan fails budget operations =
     bindE (guardE (length operations \<le> 0x110000 - 0x100) ValueError) (\<lambda>_.
     bindE (minimize (\<lambda>candidate. fails (List.map (from_key operations) candidate)) budget (plan_keys operations))
       (\<lambda>reduced. Inr (List.map (from_key operations) reduced)))"

section \<open>The exhaustive reducer\<close>

function sweep :: "('a list \<Rightarrow> bool) \<Rightarrow> nat \<Rightarrow> 'a list \<Rightarrow> nat \<Rightarrow> 'a list" where
  "sweep fails width result index =
     (if index < length result \<and> 0 < width then
        let candidate = without index width result
        in if candidate \<noteq> [] \<and> fails candidate then sweep fails width candidate 0
           else sweep fails width result (index + width)
      else result)"
  by pat_completeness auto

lemma without_shorter: "index < length result \<Longrightarrow> 0 < width \<Longrightarrow> length (without index width result) < length result"
  by (simp add: without_def)

termination sweep
  by (relation "measures [\<lambda>(fails, width, result, index). length result,
        \<lambda>(fails, width, result, index). length result - index]")
    (use without_shorter in auto)

declare sweep.simps [simp del]

function sweeps :: "('a list \<Rightarrow> bool) \<Rightarrow> nat \<Rightarrow> 'a list \<Rightarrow> 'a list" where
  "sweeps fails width result =
     (if width = 0 then result else sweeps fails (width div 2) (sweep fails width result 0))"
  by pat_completeness auto

termination sweeps
  by (relation "measure (\<lambda>(fails, width, result). width)") auto

declare sweeps.simps [simp del]

definition fuzz_minimize :: "('a list \<Rightarrow> bool) \<Rightarrow> 'a list \<Rightarrow> 'a list" where
  "fuzz_minimize fails events = sweeps fails (max 1 (length events div 2)) events"

lemma subseq_set: "subseq xs ys \<Longrightarrow> x \<in> set xs \<Longrightarrow> x \<in> set ys"
  by (induction rule: list_emb.induct) auto

lemma subseq_distinct_mem: "subseq xs ys \<Longrightarrow> distinct ys \<Longrightarrow> distinct xs"
  by (induction rule: list_emb.induct) (auto dest: subseq_set)

section \<open>What a reducer promises\<close>

text \<open>
  Reducing keeps the failure and only deletes: what remains is in the original order. Every property
  of a plan that survives deletion survives reduction.
\<close>

locale reducer =
  fixes reduce :: "('a list \<Rightarrow> bool) \<Rightarrow> 'a list \<Rightarrow> 'a list"
  assumes keeps_failure: "fails plan \<Longrightarrow> fails (reduce fails plan)"
    and only_deletes: "fails plan \<Longrightarrow> subseq (reduce fails plan) plan"
begin

lemma keeps_members: "fails plan \<Longrightarrow> set (reduce fails plan) \<subseteq> set plan"
  using only_deletes[of fails plan] by (auto dest: subseq_set)

lemma keeps_distinct: "fails plan \<Longrightarrow> distinct plan \<Longrightarrow> distinct (reduce fails plan)"
  using only_deletes[of fails plan] by (auto dest: subseq_distinct_mem)

lemma required_stays:
  assumes "fails = (\<lambda>candidate. set required \<subseteq> set candidate)" "fails plan"
  shows "set required \<subseteq> set (reduce fails plan)"
  using keeps_failure[of fails plan, OF assms(2)] assms(1) by simp

end

lemma subseq_without: "subseq (without offset width plan) plan"
  unfolding without_def by (metis append_take_drop_id drop_drop add.commute list_emb_append_mono
      subseq_drop_many subseq_order.refl suffix_drop suffix_imp_subseq)

lemma scan_candidate:
  "scan fails budget width plan os attempts = (Some c, n) \<Longrightarrow> fails c \<and> subseq c plan"
  by (induction os arbitrary: attempts) (auto simp: Let_def subseq_without split: if_splits)

lemma reduce_loop_stop:
  "\<not> (plan \<noteq> [] \<and> attempts < budget \<and> 0 < width) \<Longrightarrow> reduce_loop fails budget width plan attempts = (plan, attempts)"
  by (subst reduce_loop.simps) (simp only: if_False)

lemma sweep_stop: "\<not> (index < length result \<and> 0 < width) \<Longrightarrow> sweep fails width result index = result"
  by (subst sweep.simps) (simp only: if_False)

lemma sweep_delete:
  "index < length result \<Longrightarrow> 0 < width \<Longrightarrow> without index width result \<noteq> [] \<Longrightarrow> fails (without index width result)
     \<Longrightarrow> sweep fails width result index = sweep fails width (without index width result) 0"
  by (subst sweep.simps) simp

lemma sweep_keep:
  "index < length result \<Longrightarrow> 0 < width \<Longrightarrow> \<not> (without index width result \<noteq> [] \<and> fails (without index width result))
     \<Longrightarrow> sweep fails width result index = sweep fails width result (index + width)"
  by (subst sweep.simps) (auto simp: Let_def)

lemma reduce_loop_sound:
  "fails plan \<Longrightarrow> fails (fst (reduce_loop fails budget width plan attempts))
     \<and> subseq (fst (reduce_loop fails budget width plan attempts)) plan"
proof (induction fails budget width plan attempts rule: reduce_loop.induct)
  case (1 fails budget width plan attempts)
  show ?case
  proof (cases "plan \<noteq> [] \<and> attempts < budget \<and> 0 < width")
    case False
    with 1(3) show ?thesis by (simp add: reduce_loop_stop)
  next
    case True
    obtain r n where sc: "scan fails budget width plan (py_range (length plan) width) attempts = (r, n)"
      by fastforce
    show ?thesis
    proof (cases r)
      case None
      with 1 True sc show ?thesis by (simp add: reduce_loop.simps[of fails budget width plan])
    next
      case (Some c)
      have c: "fails c" "subseq c plan" using scan_candidate sc Some by blast+
      with 1(2)[OF True sc[symmetric] Some] True sc Some show ?thesis
        by (auto simp: reduce_loop.simps[of fails budget width plan] intro: subseq_order.trans)
    qed
  qed
qed

lemma reduce_loop_attempts:
  "attempts \<le> budget \<Longrightarrow> snd (reduce_loop fails budget width plan attempts) \<le> budget"
proof (induction fails budget width plan attempts rule: reduce_loop.induct)
  case (1 fails budget width plan attempts)
  show ?case
  proof (cases "plan \<noteq> [] \<and> attempts < budget \<and> 0 < width")
    case False
    with 1(3) show ?thesis by (simp add: reduce_loop_stop)
  next
    case True
    obtain r n where sc: "scan fails budget width plan (py_range (length plan) width) attempts = (r, n)"
      by fastforce
    then have "n \<le> budget" using scan_attempts True by blast
    with 1 True sc show ?thesis
      by (cases r) (auto simp: reduce_loop.simps[of fails budget width plan])
  qed
qed

lemma sweep_sound:
  "fails result \<Longrightarrow> fails (sweep fails width result index) \<and> subseq (sweep fails width result index) result
     \<and> (result \<noteq> [] \<longrightarrow> sweep fails width result index \<noteq> [])"
proof (induction fails width result index rule: sweep.induct)
  case (1 fails width result index)
  let ?c = "without index width result"
  consider "\<not> (index < length result \<and> 0 < width)"
    | "index < length result" "0 < width" "?c \<noteq> []" "fails ?c"
    | "index < length result" "0 < width" "\<not> (?c \<noteq> [] \<and> fails ?c)" by blast
  then show ?case
  proof cases
    case 2
    with 1 subseq_without[of index width result] show ?thesis
      by (auto simp: sweep_delete intro: subseq_order.trans)
  qed (use 1 in \<open>simp_all add: sweep_stop sweep_keep\<close>)
qed

text \<open>What a pass leaves behind: no deletion at an offset it visits keeps the failure.\<close>

definition stuck :: "('a list \<Rightarrow> bool) \<Rightarrow> nat \<Rightarrow> 'a list \<Rightarrow> bool" where
  "stuck fails index result \<longleftrightarrow> without index 1 result = [] \<or> \<not> fails (without index 1 result)"

lemma sweep_stuck:
  "\<forall>i < index. i < length result \<longrightarrow> stuck fails i result \<Longrightarrow> j < length (sweep fails 1 result index)
     \<Longrightarrow> stuck fails j (sweep fails 1 result index)"
proof (induction fails "1 :: nat" result index rule: sweep.induct)
  case (1 fails result index)
  let ?c = "without index 1 result"
  consider "\<not> index < length result"
    | "index < length result" "?c \<noteq> []" "fails ?c"
    | "index < length result" "\<not> (?c \<noteq> [] \<and> fails ?c)" by blast
  then show ?case
  proof cases
    case 1
    with "1.prems" show ?thesis by (simp add: sweep_stop)
  next
    case 2
    with "1.prems" "1.hyps"(1) show ?thesis by (simp add: sweep_delete)
  next
    case 3
    then have "stuck fails index result" by (auto simp: stuck_def)
    then have "\<forall>i < index + 1. i < length result \<longrightarrow> stuck fails i result" using "1.prems"(1) by (auto simp: less_Suc_eq)
    with 3 "1.prems"(2) "1.hyps"(2)[OF _ refl] show ?thesis by (simp add: sweep_keep del: One_nat_def)
  qed
qed

lemma sweeps_step: "sweeps fails width result = (if width = 0 then result else sweeps fails (width div 2) (sweep fails width result 0))"
  by (rule sweeps.simps)

lemma sweeps_sound:
  "fails result \<Longrightarrow> fails (sweeps fails width result) \<and> subseq (sweeps fails width result) result
     \<and> (result \<noteq> [] \<longrightarrow> sweeps fails width result \<noteq> [])"
proof (induction fails width result rule: sweeps.induct)
  case (1 fails width result)
  show ?case
  proof (cases "width = 0")
    case True
    with 1(2) show ?thesis by (simp add: sweeps_step[of fails 0])
  next
    case False
    with 1 sweep_sound[of fails result width 0] show ?thesis
      by (auto simp: sweeps_step[of fails width] intro: subseq_order.trans)
  qed
qed

lemma sweeps_stuck:
  "0 < width \<Longrightarrow> j < length (sweeps fails width result) \<Longrightarrow> stuck fails j (sweeps fails width result)"
proof (induction fails width result rule: sweeps.induct)
  case (1 fails width result)
  show ?case
  proof (cases "width div 2 = 0")
    case True
    then have "width = 1" using 1(2) by (simp add: div_eq_0_iff)
    with 1(3) show ?thesis using sweep_stuck[of 0 result fails j]
      by (simp add: sweeps_step[of fails "Suc 0"] sweeps_step[of fails 0])
  next
    case False
    then have eq: "sweeps fails width result = sweeps fails (width div 2) (sweep fails width result 0)"
      using 1(2) by (simp add: sweeps_step[of fails width])
    show ?thesis unfolding eq
      by (rule 1(1)) (use False 1(2,3) eq in auto)
  qed
qed

interpretation fuzz: reducer fuzz_minimize
  by unfold_locales (auto simp: fuzz_minimize_def dest: sweeps_sound)

definition bounded_reduce :: "nat \<Rightarrow> ('a list \<Rightarrow> bool) \<Rightarrow> 'a list \<Rightarrow> 'a list" where
  "bounded_reduce budget fails plan = (case minimize fails budget plan of Inl _ \<Rightarrow> plan | Inr r \<Rightarrow> r)"

interpretation bounded: reducer "bounded_reduce budget"
  by unfold_locales (auto simp: bounded_reduce_def minimize_def dest: reduce_loop_sound)

section \<open>Properties of the reducers\<close>

text \<open>The bounded reducer raises exactly when the initial plan does not fail. Otherwise its result still fails
  and is the plan with parts deleted, the order kept, and the predicate is asked at most as many more times as the budget allows.\<close>
lemma minimize_bounded:
  "(case minimize fails budget plan of
      Inl e \<Rightarrow> e = ValueError \<and> \<not> fails plan
    | Inr reduced \<Rightarrow> fails plan \<and> fails reduced \<and> subseq reduced plan)
   \<and> snd (reduce_loop fails budget (max 1 (length plan div 2)) plan 0) \<le> budget"
  using reduce_loop_sound[of fails plan budget "max 1 (length plan div 2)" 0]
    reduce_loop_attempts[of 0 budget fails "max 1 (length plan div 2)" plan]
  by (auto simp: minimize_def)

lemma subseq_map_image: "subseq xs ys \<Longrightarrow> subseq (List.map f xs) (List.map f ys)"
  by (induction rule: list_emb.induct) auto

lemma plan_keys_inverse: "List.map (from_key operations) (plan_keys operations) = operations"
  by (rule nth_equalityI) (simp_all add: plan_keys_def from_key_def)

lemma reduce_plan_sound:
  assumes "fails operations" "length operations \<le> 0x110000 - 0x100"
  obtains reduced where "reduce_plan fails budget operations = Inr reduced" "fails reduced" "subseq reduced operations"
proof -
  let ?fails = "\<lambda>candidate. fails (List.map (from_key operations) candidate)"
  have f: "?fails (plan_keys operations)" using assms(1) by (simp add: plan_keys_inverse)
  have "subseq (List.map (from_key operations) r) operations" if "subseq r (plan_keys operations)" for r
    using subseq_map_image[OF that, of "from_key operations"] by (simp add: plan_keys_inverse)
  with f that assms(2) show ?thesis
    using reduce_loop_sound[of ?fails "plan_keys operations" budget "max 1 (length (plan_keys operations) div 2)" 0]
    by (simp add: reduce_plan_def minimize_def)
qed

text \<open>Reducing a plan through opaque characters deletes whole operations only: the reduced plan fails the same
  predicate and every operation kept is one of the plan's, unchanged and in order. It raises exactly when the plan
  does not fail (or has more operations than there are characters).\<close>
lemma reduce_plan_whole_operations:
  "case reduce_plan fails budget operations of
     Inl e \<Rightarrow> e = ValueError \<and> (\<not> fails operations \<or> 0x110000 - 0x100 < length operations)
   | Inr reduced \<Rightarrow> fails operations \<and> fails reduced \<and> subseq reduced operations"
proof (cases "fails operations \<and> length operations \<le> 0x110000 - 0x100")
  case True
  then show ?thesis using reduce_plan_sound[of fails operations budget] by fastforce
next
  case False
  then have "reduce_plan fails budget operations = Inl ValueError"
    by (auto simp: reduce_plan_def minimize_def guardE_def plan_keys_inverse)
  with False show ?thesis by auto
qed

lemma reduce_plan_whole_operations_example:
  "case reduce_plan (\<lambda>p. 2 \<in> set p) 12 [1, 2, 3 :: nat] of
     Inl e \<Rightarrow> False
   | Inr reduced \<Rightarrow> 2 \<in> set reduced \<and> subseq reduced [1, 2, 3]"
  using reduce_plan_whole_operations[where fails = "\<lambda>p. 2 \<in> set p" and budget = 12 and operations = "[1, 2, 3 :: nat]"] by (simp split: sum.splits)

text \<open>C10: The exhaustive reducer ends, and its result is one-minimal: it still fails, it is the history with events
  deleted, and no single further event can be deleted leaving a failing history that is not empty.\<close>
theorem fuzz_minimize_one_minimal:
  assumes "fails events" "events \<noteq> []"
  defines "reduced \<equiv> fuzz_minimize fails events"
  shows "fails reduced \<and> subseq reduced events \<and> reduced \<noteq> []
    \<and> (\<forall>j < length reduced. without j 1 reduced = [] \<or> \<not> fails (without j 1 reduced))"
  using sweeps_sound[of fails events "max 1 (length events div 2)"]
    sweeps_stuck[of "max 1 (length events div 2)" _ fails events] assms
  by (auto simp: fuzz_minimize_def stuck_def)

theorem fuzz_minimize_one_minimal_witness:
  "3 \<in> set (fuzz_minimize (\<lambda>xs. 3 \<in> set xs) [1, 2, 3, 4 :: nat])
   \<and> fuzz_minimize (\<lambda>xs. 3 \<in> set xs) [1, 2, 3, 4 :: nat] \<noteq> []"
  using fuzz_minimize_one_minimal[of "\<lambda>xs. 3 \<in> set xs" "[1, 2, 3, 4 :: nat]"] by auto

end
