(* ===== verification/Boundary.thy ===== *)
theory Boundary
  imports Peers Reduction Text_Codec
begin

text \<open>
  \<^verbatim>\<open>boundary_operations.py\<close>: plans of reads, writes and text transfers around the
  negotiated size, their generator, encoding and reduction, and the peer that serves
  a plan over one or two connections and checks every request on the wire.
\<close>

section \<open>Plans\<close>

record boundary_op =
  op_id :: int
  kind :: ustr
  extent :: int

definition boundary_token :: "boundary_op \<Rightarrow> ustr list" where
  "boundary_token op' = [int_str (op_id op'), kind op', int_str (extent op')]"

definition boundary_encode :: "boundary_op list \<Rightarrow> ustr" where
  "boundary_encode ops = encode_tokens (List.map boundary_token ops)"

definition boundary_untoken :: "ustr list \<Rightarrow> boundary_op result" where
  "boundary_untoken row =
     (case row of
        [i, k, n] \<Rightarrow> bindE (py_int i) (\<lambda>i. bindE (py_int n) (\<lambda>n. Inr \<lparr>op_id = i, kind = k, extent = n\<rparr>))
      | _ \<Rightarrow> Inl ValueError)"

definition boundary_decode :: "ustr \<Rightarrow> boundary_op list result" where
  "boundary_decode plan = mapE boundary_untoken (decode_tokens plan)"

definition is_kind :: "boundary_op \<Rightarrow> string \<Rightarrow> bool" where
  "is_kind op' names \<longleftrightarrow> contains (kind op') (ascii names)"

definition transfer_sizes :: "int \<Rightarrow> int list" where
  "transfer_sizes m = [0, 1, m - 1, m, m + 1, 2 * m + 1]"

definition narrow_capacities :: "int \<Rightarrow> int list" where
  "narrow_capacities r = sort (remdups [0, 1, 2, min 254 (r - 3), min 254 (r - 2), min 254 (r - 1), 254])"

definition wide_capacities :: "int \<Rightarrow> int list" where
  "wide_capacities r = sort (remdups [0, 1, 2, (r - 4) div 2, (r - 4) div 2 + 1, r div 2 + 1])"

definition boundary_specs :: "int \<Rightarrow> (string \<times> int) list" where
  "boundary_specs pdu =
     (let r = pdu - 18; w = pdu - 28
      in List.map (Pair ''r'') (transfer_sizes r) @ List.map (Pair ''w'') (transfer_sizes w)
         @ List.map (Pair ''s'') (narrow_capacities r) @ List.map (Pair ''S'') (narrow_capacities r)
         @ List.map (Pair ''t'') (wide_capacities r) @ List.map (Pair ''T'') (wide_capacities r)
         @ [(''R'', r + 1), (''j'', r), (''r'', r + 1)])"

definition number :: "(string \<times> int) list \<Rightarrow> boundary_op list" where
  "number specs = List.map (\<lambda>(i, k, n). \<lparr>op_id = i + 1, kind = ascii k, extent = n\<rparr>)
     (zip (List.map int [0..<length specs]) specs)"

definition boundary_generate :: "draws \<Rightarrow> int \<Rightarrow> string \<Rightarrow> boundary_op list" where
  "boundary_generate d pdu terminal =
     (let operations = shuffle d (number (boundary_specs pdu)); w = pdu - 28;
          terminal_size = (if terminal = ''u'' then 1 else if terminal = ''q'' then min 254 w else w)
      in operations @ [\<lparr>op_id = len operations + 1, kind = ascii terminal, extent = terminal_size\<rparr>])"

section \<open>The peer\<close>

definition boundary_handshake :: "int \<Rightarrow> (net, unit) prog" where
  "boundary_handshake pdu =
     bindM receive (\<lambda>cr. thenM (send_confirm cr)
     (bindM take_request (\<lambda>setup_pdu.
      thenM (expect (drop 10 setup_pdu = [0xf0, 0, 0, 1, 0, 1, 1, 0xe0]) ''boundary client requested unexpected PDU'')
        (reply (bindE (pack 2 pdu) (\<lambda>size_field. ack (reference_of setup_pdu) (slice 10 16 setup_pdu @ size_field) []))))))"

definition boundary_accept :: "int \<Rightarrow> (net, unit) prog" where
  "boundary_accept pdu = thenM accept (catchM (boundary_handshake pdu) (\<lambda>e. thenM close (raise e)))"

definition boundary_payload :: "boundary_op \<Rightarrow> bytes result" where
  "boundary_payload op' =
     (let n = extent op' in
      if is_kind op' ''sSq'' then bindE (bytes_of [n, n]) (\<lambda>head. Inr (head @ replicate (nat n) 0xe9))
      else if is_kind op' ''tTu'' then
        concatE [pack 2 n, pack 2 n,
          encode_text Utf16be ((if n mod 2 \<noteq> 0 then [120] else []) @ replicate (nat (n div 2)) 0x1f30d)]
      else Inr (List.map (\<lambda>index. byte ((op_id op' * 19 + int index * 37) mod 256)) [0..<nat n]))"

definition boundary_check :: "bytes \<Rightarrow> boundary_op \<Rightarrow> bool \<Rightarrow> int \<Rightarrow> int \<Rightarrow> int \<Rightarrow> bytes \<Rightarrow> int result" where
  "boundary_check request op' write_op offset amount pdu payload =
     check_transfer ''boundary wire mismatch'' pdu request write_op amount (op_id op' * 4096 + offset)
       (slice (nat offset) (nat (offset + amount)) payload)"

text \<open>Only silence before the first octet, or one whole disconnect request, is a clean end.\<close>

definition disconnect_frame :: bytes where
  "disconnect_frame = [3, 0, 0, 0x0b, 6, 0x80, 0, 1, 0, 1, 0]"

definition closed_check :: "(net, unit) prog" where
  "closed_check =
     bindM (attempt (recv 1)) (\<lambda>first. case first of
       Inl e \<Rightarrow> if e = ConnectionResetError then ret () else raise e
     | Inr first \<Rightarrow>
         if first = [] then ret ()
         else bindM (catchM (exact ''boundary terminal failure closed after partial traffic'' (length disconnect_frame - 1))
                (\<lambda>e. if e = ConnectionResetError
                     then failing ''boundary terminal failure reset after partial traffic'' else raise e)) (\<lambda>rest.
              thenM (expect (first @ rest = disconnect_frame) ''boundary terminal failure allowed later IO'')
             (bindM last_octet (\<lambda>remaining.
                expect (remaining = []) ''boundary terminal failure sent IO after disconnect''))))"

definition boundary_answer :: "boundary_op \<Rightarrow> bool \<Rightarrow> nat \<Rightarrow> int \<Rightarrow> int \<Rightarrow> int \<Rightarrow> bytes \<Rightarrow> bytes result" where
  "boundary_answer op' write_op phase reference offset amount payload =
     (if kind op' = ascii ''j'' then bindE (ack reference [4, 1] []) (\<lambda>p. Inr (overwrite 10 12 [0x81, 4] p))
      else if write_op then ack reference [5, 1] [0xff]
      else
        bindE (if kind op' = ascii ''q'' \<and> phase = 0 then bytes_of [extent op', extent op' + 1]
               else if kind op' = ascii ''u'' \<and> phase = 1 then concatE [pack 2 1, pack 2 1, pack 2 0xd800]
               else Inr (slice (nat offset) (nat (offset + amount)) payload)) (\<lambda>content.
        let content = (if kind op' = ascii ''z'' then content @ [0] else content)
        in bindE (concatE [Inr [0xff, 4], pack 2 (len content * 8), Inr content]) (\<lambda>data.
           ack reference [4, 1] data)))"

definition boundary_drop :: "(net, bool) prog" where
  "boundary_drop = thenM (note_io Shutdown) (thenM close
     (thenM (no_reconnect ''boundary lost write ACK was replayed'') (ret True)))"

definition boundary_replay :: "int \<Rightarrow> bytes \<Rightarrow> (net, unit) prog" where
  "boundary_replay pdu request = thenM close (thenM (boundary_accept pdu) (bindM take_request (\<lambda>replay.
     expect (replay = request) ''boundary read retry changed request'')))"

definition boundary_chunk :: "int \<Rightarrow> boundary_op \<Rightarrow> bool \<Rightarrow> bytes \<Rightarrow> nat \<Rightarrow> int \<times> int \<Rightarrow> (net, bool) prog" where
  "boundary_chunk pdu op' write_op payload phase round =
     (case round of (offset, amount) \<Rightarrow>
      bindM take_request (\<lambda>request.
      bindM (liftE (boundary_check request op' write_op offset amount pdu payload)) (\<lambda>reference.
      thenM (if kind op' = ascii ''R'' \<and> offset = 0 then boundary_replay pdu request else ret ())
        (if kind op' = ascii ''d'' then boundary_drop
         else thenM (reply (boundary_answer op' write_op phase reference offset amount payload))
           (if is_kind op' ''qz'' \<or> kind op' = ascii ''u'' \<and> phase = 1
            then thenM closed_check (ret True) else ret False)))))"

definition boundary_segments :: "boundary_op \<Rightarrow> bytes \<Rightarrow> (nat \<times> int) list" where
  "boundary_segments op' payload =
     (if is_kind op' ''stqu'' then [(0, if is_kind op' ''tu'' then 4 else 2), (1, len payload)]
      else [(0, len payload)])"

definition boundary_operation :: "int \<Rightarrow> boundary_op \<Rightarrow> (net, bool) prog" where
  "boundary_operation pdu op' =
     bindM (liftE (boundary_payload op')) (\<lambda>payload.
       let write_op = is_kind op' ''wSTd''
       in loopM (\<lambda>(phase, amount). loopM (boundary_chunk pdu op' write_op payload phase)
            (chunks (pdu - (if write_op then 28 else 18)) amount)) (boundary_segments op' payload))"

definition boundary_serve :: "int \<Rightarrow> boundary_op list \<Rightarrow> (net, exn list) prog" where
  "boundary_serve pdu operations =
     finallyM
       (collects (thenM (boundary_accept pdu) (bindM (loopM (boundary_operation pdu) operations) (\<lambda>returned.
          unless returned (final_disconnect ''boundary plan omitted final disconnect'')))))
       close"

definition boundary_case :: "process \<Rightarrow> bool \<Rightarrow> ustr list \<Rightarrow> ustr option" where
  "boundary_case outcome alive errors =
     verdict [Native_exit ''native: timeout'', Peer_alive, Peer_errors] outcome alive errors"

section \<open>Round trip\<close>

lemma boundary_untoken_token: "boundary_untoken (boundary_token op') = Inr op'"
  by (cases op') (simp add: boundary_untoken_def boundary_token_def py_int_str)

lemma boundary_decode_encode:
  assumes "\<And>op'. op' \<in> set ops \<Longrightarrow> colon \<notin> set (kind op') \<and> bar \<notin> set (kind op')"
  shows "boundary_decode (boundary_encode ops) = Inr ops"
proof -
  have "decode_tokens (boundary_encode ops) = List.map boundary_token ops"
    unfolding boundary_encode_def
    by (rule tokens_roundtrip) (use assms int_str_no_sep in \<open>auto simp: boundary_token_def\<close>)
  then show ?thesis
    by (simp add: boundary_decode_def mapE_Inr_iff list_all2_map1 boundary_untoken_token list.rel_refl)
qed

section \<open>What the generator always covers\<close>

lemma number_kind_extent: "List.map (\<lambda>op'. (kind op', extent op')) (number specs) = List.map (\<lambda>(k, n). (ascii k, n)) specs"
  by (rule nth_equalityI) (auto simp: number_def split: prod.splits)

lemma number_identifiers: "List.map op_id (number specs) = List.map (\<lambda>i. int i + 1) [0..<length specs]"
  by (rule nth_equalityI) (auto simp: number_def split: prod.splits)

lemma number_covers: "(\<exists>op' \<in> set (number specs). kind op' = ascii k \<and> extent op' = n) \<longleftrightarrow> (k, n) \<in> set specs"
proof -
  have "(ascii k, n) \<in> set (List.map (\<lambda>op'. (kind op', extent op')) (number specs)) \<longleftrightarrow> (k, n) \<in> set specs"
    unfolding number_kind_extent by auto
  then show ?thesis unfolding set_map image_iff prod.inject eq_commute[of "ascii k"] eq_commute[of n] .
qed

lemma is_kind_single: "kind op' = ascii [c] \<Longrightarrow> is_kind op' names \<longleftrightarrow> c \<in> set names"
proof -
  have "inj (of_char :: char \<Rightarrow> nat)" by (rule injI) simp
  moreover assume "kind op' = ascii [c]"
  ultimately show ?thesis by (simp add: is_kind_def ascii_def contains_single inj_image_mem_iff)
qed

lemma boundary_spec_kinds:
  "(k, n) \<in> set (boundary_specs pdu) \<Longrightarrow> k \<in> {''r'', ''w'', ''s'', ''S'', ''t'', ''T'', ''R'', ''j''}"
  by (auto simp: boundary_specs_def Let_def)

lemma boundary_spec_sizes:
  "n \<in> set (transfer_sizes (pdu - 18)) \<Longrightarrow> (''r'', n) \<in> set (boundary_specs pdu)"
  "n \<in> set (transfer_sizes (pdu - 28)) \<Longrightarrow> (''w'', n) \<in> set (boundary_specs pdu)"
  by (simp_all add: boundary_specs_def Let_def)

lemma boundary_op_kind:
  "op' \<in> set (number (boundary_specs pdu)) \<Longrightarrow> \<exists>c \<in> set ''rwsStTRj''. kind op' = ascii [c]"
proof -
  assume o: "op' \<in> set (number (boundary_specs pdu))"
  have "(kind op', extent op') \<in> set (List.map (\<lambda>(k, n). (ascii k, n)) (boundary_specs pdu))"
    using o unfolding number_kind_extent[symmetric] by auto
  then obtain k n where "(k, n) \<in> set (boundary_specs pdu)" "kind op' = ascii k" by auto
  with boundary_spec_kinds show ?thesis by fastforce
qed

text \<open>C11: Whatever is drawn, a generated plan has every operation the specifications list, shuffled, with identifiers
  that are never shared, and ends in its only terminal operation; every size around the chunk limits is read and
  written; and the plan survives being encoded.\<close>
theorem boundary_generate_covers:
  assumes "terminal \<in> {''q'', ''u'', ''z'', ''d''}"
    and plan_def: "plan = boundary_generate d pdu terminal"
  shows "mset (butlast plan) = mset (number (boundary_specs pdu))
    \<and> distinct (List.map op_id plan)
    \<and> List.filter (\<lambda>op'. is_kind op' ''quzd'') plan = [last plan]
    \<and> kind (last plan) = ascii terminal
    \<and> (\<forall>(k, m) \<in> {(''r'', pdu - 18), (''w'', pdu - 28)}. \<forall>n \<in> set [0, 1, m - 1, m, m + 1, 2 * m + 1].
         \<exists>op' \<in> set plan. kind op' = ascii k \<and> extent op' = n)
    \<and> boundary_decode (boundary_encode plan) = Inr plan"
proof (intro conjI)
  let ?specs = "boundary_specs pdu"
  define body where "body = shuffle d (number ?specs)"
  obtain final where plan: "plan = body @ [final]" and final: "kind final = ascii terminal" "op_id final = len body + 1"
    by (simp add: plan_def boundary_generate_def Let_def body_def)
  have body: "set body = set (number ?specs)" "mset body = mset (number ?specs)" by (simp_all add: body_def)
  have chars: "\<exists>c \<in> set ''quzd''. kind final = ascii [c]" using assms(1) final by auto
  have terminal_kind: "is_kind final ''quzd''" using chars is_kind_single by blast
  have no_terminal: "\<not> is_kind op' ''quzd''" if "op' \<in> set body" for op'
    using boundary_op_kind[of op' pdu] that is_kind_single[of op' _ "''quzd''"] body(1) by fastforce
  show "mset (butlast plan) = mset (number ?specs)" by (simp add: plan body)
  have ids: "mset (List.map op_id body) = mset (List.map (\<lambda>i. int i + 1) [0..<length ?specs])"
    by (simp only: mset_map body(2)) (simp only: number_identifiers flip: mset_map)
  have "distinct (List.map op_id body)" by (rule mset_eq_imp_distinct_iff[OF ids, THEN iffD2]) (simp add: distinct_map inj_on_def)
  moreover have "\<forall>i \<in> set (List.map op_id body). i < len body + 1"
    using mset_eq_setD[OF ids] mset_eq_length[OF ids] by (auto simp: len_def)
  ultimately show "distinct (List.map op_id plan)" using final(2) by (auto simp: plan)
  show "List.filter (\<lambda>op'. is_kind op' ''quzd'') plan = [last plan]"
    using terminal_kind no_terminal by (simp add: plan)
  show "kind (last plan) = ascii terminal" by (simp add: plan final)
  have "\<exists>op' \<in> set body. kind op' = ascii k \<and> extent op' = n" if "(k, n) \<in> set ?specs" for k n
    using that number_covers[of ?specs k n] body(1) by simp
  then have "\<exists>op' \<in> set plan. kind op' = ascii k \<and> extent op' = n" if "(k, n) \<in> set ?specs" for k n
    using that by (auto simp: plan)
  then show "\<forall>(k, m) \<in> {(''r'', pdu - 18), (''w'', pdu - 28)}. \<forall>n \<in> set [0, 1, m - 1, m, m + 1, 2 * m + 1].
         \<exists>op' \<in> set plan. kind op' = ascii k \<and> extent op' = n"
    unfolding transfer_sizes_def[symmetric] using boundary_spec_sizes by blast
  have "colon \<notin> set (kind op') \<and> bar \<notin> set (kind op')" if "\<exists>c \<in> set ''rwsStTRjquzd''. kind op' = ascii [c]" for op'
    using that by (auto simp: ascii_def colon_def bar_def)
  moreover have "\<exists>c \<in> set ''rwsStTRjquzd''. kind op' = ascii [c]" if "op' \<in> set plan" for op'
    using that boundary_op_kind[of op' pdu] chars body(1) by (auto simp: plan)
  ultimately show "boundary_decode (boundary_encode plan) = Inr plan"
    by (intro boundary_decode_encode) blast
qed

theorem boundary_generate_covers_witness:
  "List.filter (\<lambda>op'. is_kind op' ''quzd'') (boundary_generate (\<lambda>i. 3 * i) 240 ''d'')
     = [last (boundary_generate (\<lambda>i. 3 * i) 240 ''d'')]"
  using boundary_generate_covers[of "''d''" "boundary_generate (\<lambda>i. 3 * i) 240 ''d''" "\<lambda>i. 3 * i" 240] by simp

section \<open>The clean end\<close>

lemma pull_Inr_iff: "pull msg n xs = (Inr bs, ys) \<longleftrightarrow> length bs = n \<and> xs = List.map B bs @ ys"
proof
  show "pull msg n xs = (Inr bs, ys) \<Longrightarrow> length bs = n \<and> xs = List.map B bs @ ys"
    by (induction msg n xs arbitrary: bs rule: pull.induct) (auto split: prod.splits sum.splits)
qed (use pull_all in auto)

lemma recv_one:
  assumes "recv 1 s = (r, t)"
  shows "(r, flat (rx t)) = (case flat (rx s) of
       [] \<Rightarrow> (Inl TimeoutError, [])
     | B b # xs \<Rightarrow> (Inr [b], xs)
     | E Eof # xs \<Rightarrow> (Inr [], E Eof # xs)
     | E Reset # xs \<Rightarrow> (Inl ConnectionResetError, xs)
     | E _ # xs \<Rightarrow> (Inl TimeoutError, xs))"
  using arrive_one[of "rx s"] assms by (auto simp: recv_def split: prod.splits)

definition ended :: "item list \<Rightarrow> bool" where
  "ended xs \<longleftrightarrow> (\<exists>rest. xs = E Eof # rest \<or> xs = E Reset # rest)"

lemma ended_simps [simp]: "\<not> ended []" "\<not> ended (B b # xs)" "ended (E Eof # xs)" "ended (E Reset # xs)"
  "\<not> ended (E Silence # xs)" "\<not> ended (E (Chunk c) # xs)"
  by (auto simp: ended_def)

lemma last_octet_ended: "fst (last_octet s) = Inr [] \<longleftrightarrow> ended (flat (rx s))"
proof -
  obtain r t where "recv 1 s = (r, t)" by fastforce
  with recv_one[OF this] show ?thesis
    by (auto simp: last_octet_def catchM_def ret_def raise_def split: list.splits item.splits arrival.splits)
qed

lemma expect_run:
  "thenM (expect True m) k s = k s" "thenM (expect False m) k s = (Inl (RuntimeError m), s)"
  by (simp_all add: thenM_def bindM_def expect_def guardM_def liftE_def)

lemma closed_tail:
  "fst (bindM (catchM (exact msg n) (\<lambda>e. if e = ConnectionResetError then failing reset_msg else raise e)) (\<lambda>rest.
      thenM (expect (first @ rest = frame) later_msg) (bindM last_octet (\<lambda>remaining.
        expect (remaining = []) extra_msg))) s) = Inr ()
   \<longleftrightarrow> (\<exists>rest xs. length rest = n \<and> flat (rx s) = List.map B rest @ xs \<and> first @ rest = frame \<and> ended xs)"
proof -
  obtain q u where ex: "exact msg n s = (q, u)" by fastforce
  note p = exact_pull[OF ex, THEN conjunct1]
  show ?thesis
  proof (cases q)
    case (Inl e)
    then have "\<not> (\<exists>rest xs. length rest = n \<and> flat (rx s) = List.map B rest @ xs)"
      using p pull_Inr_iff[of msg n "flat (rx s)"] by auto
    with ex Inl show ?thesis by (auto simp: bindM_def catchM_def failing_def raise_def)
  next
    case (Inr rest)
    then have rest: "length rest = n" "flat (rx s) = List.map B rest @ flat (rx u)" using p by (simp_all add: pull_Inr_iff)
    have uniq: "r' = rest \<and> xs = flat (rx u)" if "length r' = n" "flat (rx s) = List.map B r' @ xs" for r' xs
      using pull_Inr_iff[of msg n "flat (rx s)" r' xs] that p Inr by simp
    obtain l v where lo: "last_octet u = (l, v)" by fastforce
    then have l: "ended (flat (rx u)) \<longleftrightarrow> l = Inr []" using last_octet_ended[of u] by simp
    have tail_ok: "fst (bindM last_octet (\<lambda>remaining. expect (remaining = []) extra_msg) u) = Inr () \<longleftrightarrow> l = Inr []"
      using lo by (cases l) (simp_all add: bindM_def expect_def guardM_def liftE_def)
    have c: "catchM (exact msg n) h s = (Inr rest, u)" for h by (simp add: catchM_def ex Inr)
    have "(\<exists>r' xs. length r' = n \<and> flat (rx s) = List.map B r' @ xs \<and> first @ r' = frame \<and> ended xs)
        \<longleftrightarrow> first @ rest = frame \<and> l = Inr []"
      using rest uniq l by metis
    then show ?thesis
      by (cases "first @ rest = frame") (simp_all add: bindM_run(1)[of "catchM (exact msg n) _", OF c] expect_run tail_ok)
  qed
qed

text \<open>C12: The clean-end check passes exactly on three streams: nothing but end of file or a reset, or one whole
  disconnect request followed by one of the two.\<close>
theorem closed_check_exact:
  "fst (closed_check s) = Inr () \<longleftrightarrow>
     (\<exists>e rest. e \<in> {Eof, Reset} \<and> (flat (rx s) = E e # rest \<or> flat (rx s) = List.map B disconnect_frame @ E e # rest))"
proof -
  obtain r t where r: "recv 1 s = (r, t)" by fastforce
  note one = recv_one[OF r]
  obtain T where frame: "disconnect_frame = 3 # T" "length T = 10" "length disconnect_frame - 1 = 10"
    by (simp add: disconnect_frame_def)
  have "fst (closed_check s) = Inr () \<longleftrightarrow>
      ended (flat (rx s)) \<or> (\<exists>xs. flat (rx s) = List.map B disconnect_frame @ xs \<and> ended xs)"
  proof (cases "flat (rx s)")
    case Nil
    with one r show ?thesis by (simp add: closed_check_def bindM_def attempt_def raise_def)
  next
    case (Cons i xs)
    show ?thesis
    proof (cases i)
      case (B b)
      with Cons one have t: "r = Inr [b]" "flat (rx t) = xs" by simp_all
      have "fst (closed_check s) = Inr () \<longleftrightarrow> (\<exists>rest ys. length rest = 10 \<and> xs = List.map B rest @ ys
          \<and> [b] @ rest = disconnect_frame \<and> ended ys)"
        using closed_tail[of _ 10 _ "[b]" disconnect_frame _ _ t] r t
        by (simp only: closed_check_def bindM_def[of "attempt _"] attempt_def frame(3) prod.case sum.case not_Cons_self2 if_False
            list.distinct)
      then show ?thesis by (auto simp: Cons B frame(1)) (use frame(2) in auto)
    next
      case (E e)
      with Cons one r show ?thesis
        by (cases e) (simp_all add: closed_check_def bindM_def attempt_def raise_def ret_def frame)
    qed
  qed
  then show ?thesis by (auto simp: ended_def)
qed

lemma seamless_boundary_handshake [stream_intros]: "seamless (boundary_handshake pdu)"
  unfolding boundary_handshake_def by (intro stream_intros)

lemma seamless_boundary_accept [stream_intros]: "seamless (boundary_accept pdu)"
  unfolding boundary_accept_def by (intro stream_intros)

lemma seamless_closed_check [stream_intros]: "seamless closed_check"
  unfolding closed_check_def by (intro stream_intros)

lemma seamless_boundary_replay [stream_intros]: "seamless (boundary_replay pdu request)"
  unfolding boundary_replay_def by (intro stream_intros)

lemma seamless_boundary_drop [stream_intros]: "seamless boundary_drop"
  unfolding boundary_drop_def by (intro stream_intros)

lemma seamless_boundary_chunk [stream_intros]: "seamless (boundary_chunk pdu op' write_op payload phase round)"
  unfolding boundary_chunk_def by (cases round) (simp only: prod.case, intro stream_intros)

lemma seamless_boundary_operation [stream_intros]: "seamless (boundary_operation pdu op')"
  unfolding boundary_operation_def Let_def split_beta by (intro stream_intros)

lemma seamless_boundary_serve: "seamless (boundary_serve pdu operations)"
  unfolding boundary_serve_def by (intro stream_intros)

end
