(* ===== verification/Overlap.thy ===== *)
theory Overlap
  imports Boundary
begin

text \<open>
  \<^verbatim>\<open>overlap_operations.py\<close>: histories of overlapping reads, writes and bit updates over
  one memory. The peer keeps the memory itself, checks every request against it and
  answers from it; the generator keeps its histories inside the memory.
\<close>

section \<open>Plans\<close>

record overlap_op =
  ov_id :: int
  ov_kind :: ustr
  ov_start :: int
  ov_size :: int
  ov_argument :: int

definition memory_size :: nat where
  "memory_size = 2048"

definition overlap_token :: "overlap_op \<Rightarrow> ustr list" where
  "overlap_token op' = [int_str (ov_id op'), ov_kind op', int_str (ov_start op'), int_str (ov_size op'), int_str (ov_argument op')]"

definition overlap_encode :: "overlap_op list \<Rightarrow> ustr" where
  "overlap_encode ops = encode_tokens (List.map overlap_token ops)"

definition overlap_untoken :: "ustr list \<Rightarrow> overlap_op result" where
  "overlap_untoken row =
     (case row of
        [i, k, a, n, v] \<Rightarrow>
          bindE (py_int i) (\<lambda>i. bindE (py_int a) (\<lambda>a. bindE (py_int n) (\<lambda>n. bindE (py_int v) (\<lambda>v.
            Inr \<lparr>ov_id = i, ov_kind = k, ov_start = a, ov_size = n, ov_argument = v\<rparr>))))
      | _ \<Rightarrow> Inl ValueError)"

definition overlap_decode :: "ustr \<Rightarrow> overlap_op list result" where
  "overlap_decode plan = mapE overlap_untoken (decode_tokens plan)"

section \<open>The generator\<close>

type_synonym overlap_spec = "string \<times> int \<times> int \<times> int"

definition overlap_duplicates :: "int \<Rightarrow> int \<Rightarrow> int \<Rightarrow> nat \<Rightarrow> overlap_spec list" where
  "overlap_duplicates base m n x =
     (let salt = randrange 1 100000 x
      in [(''w'', base, n, salt), (''w'', base, n, salt), (''r'', base, n, 0)]
         @ (if n \<ge> m then [(''w'', base + m - 1, 3, salt + 1), (''r'', base, n + 2, 0)] else []))"

definition overlap_nested :: "int \<Rightarrow> int \<Rightarrow> draws \<Rightarrow> nat \<Rightarrow> overlap_spec list" where
  "overlap_nested base m d index =
     (let origin = randrange base (base + m) (d (3 * index));
          n = choice_of [1, 3, 17, m + 1] (d (3 * index + 1))
      in [(''w'', origin, n, randrange 1 100000 (d (3 * index + 2))), (''r'', max 0 (origin - 3), n + 6, 0)]
         @ (if index mod 3 = 0 then [(''r'', 0, int memory_size, 0)] else []))"

definition overlap_bits :: "int \<Rightarrow> overlap_spec list" where
  "overlap_bits bit_start =
     concat (List.map (\<lambda>position. concat (List.map (\<lambda>enabled.
       [(''b'', bit_start, position, enabled), (''r'', bit_start - 2, 5, 0)]) [1, 1, 0])) [0, 1, 2, 3, 4, 5, 6, 7])"

fun overlap_mixed :: "int \<Rightarrow> nat \<Rightarrow> draws \<Rightarrow> overlap_spec list" where
  "overlap_mixed bit_start 0 d = []"
| "overlap_mixed bit_start (Suc k) d =
     (if randrange 0 2 (d 0) \<noteq> 0
      then (''b'', bit_start, randrange 0 8 (d 1), randrange 0 2 (d 2)) # (''r'', bit_start - 3, 7, 0)
           # overlap_mixed bit_start k (rest_of 3 d)
      else (''w'', bit_start - 1, 3, randrange 1 100000 (d 1)) # (''r'', bit_start - 3, 7, 0)
           # overlap_mixed bit_start k (rest_of 2 d))"

definition overlap_specs :: "draws \<Rightarrow> int \<Rightarrow> overlap_spec list" where
  "overlap_specs d pdu =
     (let m = pdu - 28; r = pdu - 18; base = randrange 16 64 (d 0);
          after_salts = rest_of 7 d; after_nested = rest_of 43 d
      in concat (List.map (\<lambda>(k, n). overlap_duplicates base m n (d (1 + k)))
           (List.zip [0, 1, 2, 3, 4, 5] (transfer_sizes m)))
         @ List.map (\<lambda>n. (''r'', base, n, 0)) (transfer_sizes r)
         @ concat (List.map (overlap_nested base m after_salts) [0..<12])
         @ overlap_bits (base + m)
         @ overlap_mixed (base + m) 12 after_nested)"

definition overlap_generate :: "draws \<Rightarrow> int \<Rightarrow> overlap_op list" where
  "overlap_generate d pdu =
     List.map (\<lambda>(i, k, a, n, v). \<lparr>ov_id = i + 1, ov_kind = ascii k, ov_start = a, ov_size = n, ov_argument = v\<rparr>)
       (zip (List.map int [0..<length (overlap_specs d pdu)]) (overlap_specs d pdu))"

section \<open>The memory\<close>

definition initial_memory :: bytes where
  "initial_memory = List.map (\<lambda>index. byte ((int index * 29 + 113) mod 256)) [0..<memory_size]"

definition overlap_payload :: "int \<Rightarrow> int \<Rightarrow> bytes" where
  "overlap_payload salt amount = List.map (\<lambda>index. byte ((salt * 17 + int index * 43) mod 256)) [0..<nat amount]"

text \<open>Python's \<^verbatim>\<open>|\<close>, \<^verbatim>\<open>&\<close> and \<^verbatim>\<open><<\<close> on integers; a negative shift raises.\<close>

definition update_bit :: "int \<Rightarrow> int \<Rightarrow> int \<Rightarrow> int result" where
  "update_bit value position enabled =
     (if position < 0 then Inl ValueError
      else let mask = push_bit (nat position) 1
           in Inr (if enabled \<noteq> 0 then or value mask else and value (xor 255 mask)))"

text \<open>\<^verbatim>\<open>memory[i]\<close> for any integer \<open>i\<close>.\<close>

definition py_at :: "'a list \<Rightarrow> int \<Rightarrow> 'a result" where
  "py_at xs i = (let j = (if i < 0 then i + len xs else i)
     in if 0 \<le> j \<and> j < len xs then Inr (xs ! nat j) else Inl IndexError)"

section \<open>The peer\<close>

definition overlap_check :: "bytes \<Rightarrow> bool \<Rightarrow> int \<Rightarrow> int \<Rightarrow> int \<Rightarrow> bytes \<Rightarrow> int result" where
  "overlap_check request write_op origin amount pdu data =
     check_transfer ''wire mismatch'' pdu request write_op amount origin data"

definition overlap_read :: "bytes \<Rightarrow> int \<Rightarrow> int \<Rightarrow> int \<Rightarrow> (net, unit) prog" where
  "overlap_read memory origin amount pdu =
     forM (chunks (pdu - 18) amount) (\<lambda>(offset, size').
       bindM take_request (\<lambda>request.
       bindM (liftE (overlap_check request False (origin + offset) size' pdu [])) (\<lambda>reference.
         reply (bindE (concatE [Inr [0xff, 4], pack 2 (size' * 8),
             Inr (slice (nat (origin + offset)) (nat (origin + offset + size')) memory)]) (\<lambda>data.
           ack reference [4, 1] data)))))"

definition overlap_write_chunk :: "int \<Rightarrow> bytes \<Rightarrow> int \<Rightarrow> int \<times> int \<Rightarrow> bytes \<Rightarrow> (net, bytes) prog" where
  "overlap_write_chunk origin data pdu round memory =
     (case round of (offset, size') \<Rightarrow>
       bindM take_request (\<lambda>request.
       bindM (liftE (overlap_check request True (origin + offset) size' pdu
           (slice (nat offset) (nat (offset + size')) data))) (\<lambda>reference.
       let memory = overwrite (nat (origin + offset)) (nat (origin + offset + size'))
             (drop (length request - nat size') request) memory
       in thenM (reply (ack reference [5, 1] [0xff])) (ret memory))))"

definition overlap_write :: "bytes \<Rightarrow> int \<Rightarrow> bytes \<Rightarrow> int \<Rightarrow> (net, bytes) prog" where
  "overlap_write memory origin data pdu =
     foldM (overlap_write_chunk origin data pdu) (chunks (pdu - 28) (len data)) memory"

definition overlap_perform :: "int \<Rightarrow> overlap_op \<Rightarrow> bytes \<Rightarrow> (net, bytes) prog" where
  "overlap_perform pdu op' memory =
     (if ov_kind op' = ascii ''r'' then thenM (overlap_read memory (ov_start op') (ov_size op') pdu) (ret memory)
      else if ov_kind op' = ascii ''w''
        then overlap_write memory (ov_start op') (overlap_payload (ov_argument op') (ov_size op')) pdu
      else if ov_kind op' = ascii ''b'' then
        bindM (liftE (py_at memory (ov_start op'))) (\<lambda>previous.
        thenM (overlap_read memory (ov_start op') 1 pdu)
          (bindM (liftE (update_bit (uint previous) (ov_size op') (ov_argument op'))) (\<lambda>updated.
           bindM (liftE (bytes_of [updated])) (\<lambda>data.
           bindM (overlap_write memory (ov_start op') data pdu) (\<lambda>memory.
           thenM (overlap_read memory (ov_start op') 1 pdu) (ret memory))))))
      else failing ''unknown operation kind'')"

text \<open>An error is reported with the stage it happened at.\<close>

definition staged :: "'l \<Rightarrow> ('s, 'a) prog \<Rightarrow> ('s, ('l \<times> exn) + 'a) prog" where
  "staged stage m = bindM (attempt m) (\<lambda>r. case r of
       Inl e \<Rightarrow> if caught e then ret (Inl (stage, e)) else raise e
     | Inr a \<Rightarrow> ret (Inr a))"

definition bindS :: "('s, 'f + 'a) prog \<Rightarrow> ('a \<Rightarrow> ('s, 'f + 'b) prog) \<Rightarrow> ('s, 'f + 'b) prog" where
  "bindS m f = bindM m (\<lambda>r. case r of Inl e \<Rightarrow> ret (Inl e) | Inr a \<Rightarrow> f a)"

fun overlap_run :: "int \<Rightarrow> overlap_op list \<Rightarrow> bytes \<Rightarrow> (net, (ustr \<times> exn) + bytes) prog" where
  "overlap_run pdu [] memory = ret (Inr memory)"
| "overlap_run pdu (op' # ops) memory =
     bindS (staged (join_with colon (overlap_token op')) (overlap_perform pdu op' memory)) (overlap_run pdu ops)"

definition errors_of :: "('s, 'f + 'a) prog \<Rightarrow> ('s, 'f list) prog" where
  "errors_of m = bindM m (\<lambda>r. ret (case r of Inl e \<Rightarrow> [e] | Inr _ \<Rightarrow> []))"

definition overlap_serve :: "int \<Rightarrow> overlap_op list \<Rightarrow> (net, (ustr \<times> exn) list) prog" where
  "overlap_serve pdu operations = errors_of
     (bindS (staged (ascii ''handshake'') accept) (\<lambda>_.
      with_connection
       (bindS (staged (ascii ''handshake'') (boundary_handshake pdu)) (\<lambda>_.
        bindS (overlap_run pdu operations initial_memory) (\<lambda>memory.
        staged (ascii ''final full-memory observation'')
          (thenM (overlap_read memory 0 (int memory_size) pdu) closed_check))))))"

definition overlap_case :: "process \<Rightarrow> bool \<Rightarrow> ustr list \<Rightarrow> ustr option" where
  "overlap_case outcome alive errors =
     verdict [Peer_errors, Native_exit ''native: timeout'', Peer_alive] outcome alive errors"


section \<open>Round trip\<close>

lemma overlap_untoken_token: "overlap_untoken (overlap_token op') = Inr op'"
  by (cases op') (simp add: overlap_untoken_def overlap_token_def py_int_str)

text \<open>An overlap plan whose kinds hold no separator reads back from its text unchanged: every identifier, kind,
  address, size and argument, and the order of the operations.\<close>

lemma overlap_plan_roundtrip:
  assumes "\<And>op'. op' \<in> set ops \<Longrightarrow> colon \<notin> set (ov_kind op') \<and> bar \<notin> set (ov_kind op')"
  shows "overlap_decode (overlap_encode ops) = Inr ops"
proof -
  have "decode_tokens (overlap_encode ops) = List.map overlap_token ops"
    unfolding overlap_encode_def
    by (rule tokens_roundtrip) (use assms int_str_no_sep in \<open>auto simp: overlap_token_def\<close>)
  then show ?thesis
    by (simp add: overlap_decode_def mapE_Inr_iff list_all2_map1 overlap_untoken_token list.rel_refl)
qed

lemma overlap_plan_roundtrip_example:
  "overlap_decode (overlap_encode [\<lparr>ov_id = 7, ov_kind = ascii ''w'', ov_start = -3, ov_size = 12, ov_argument = 99\<rparr>])
    = Inr [\<lparr>ov_id = 7, ov_kind = ascii ''w'', ov_start = -3, ov_size = 12, ov_argument = 99\<rparr>]"
  by (rule overlap_plan_roundtrip) (simp add: ascii_def colon_def bar_def)

section \<open>Generated histories stay inside the memory\<close>

definition inside :: "overlap_spec \<Rightarrow> bool" where
  "inside spec = (case spec of (k, a, n, v) \<Rightarrow>
     0 \<le> a \<and> 0 \<le> n \<and> a + (if k = ''b'' then 1 else n) \<le> int memory_size
     \<and> (k = ''b'' \<longrightarrow> n < 8 \<and> 0 \<le> v \<and> v < 2) \<and> k \<in> {''r'', ''w'', ''b''})"

lemma duplicates_inside:
  assumes "16 \<le> base" "base < 64" "1 \<le> m" "m \<le> 982" "n \<in> set (transfer_sizes m)" "spec \<in> set (overlap_duplicates base m n x)"
  shows "inside spec"
  using assms by (auto simp: overlap_duplicates_def transfer_sizes_def inside_def memory_size_def Let_def split: if_splits)

lemma nested_inside:
  assumes "16 \<le> base" "base < 64" "1 \<le> m" "m \<le> 982" "spec \<in> set (overlap_nested base m d index)"
  shows "inside spec"
proof -
  define origin where "origin = randrange base (base + m) (d (3 * index))"
  define n where "n = choice_of [1, 3, 17, m + 1] (d (3 * index + 1))"
  have "base \<le> origin" "origin < base + m"
    using randrange_bounds[of base "base + m" "d (3 * index)"] assms(3) by (simp_all add: origin_def)
  moreover have "1 \<le> n" "n \<le> 17 \<or> n = m + 1"
    using choice_of_in[of "[1, 3, 17, m + 1]" "d (3 * index + 1)"] assms(3) by (auto simp: n_def)
  moreover have "spec \<in> {(''w'', origin, n, randrange 1 100000 (d (3 * index + 2))), (''r'', max 0 (origin - 3), n + 6, 0),
      (''r'', 0, int memory_size, 0)}"
    using assms(5) by (auto simp: overlap_nested_def Let_def origin_def n_def split: if_splits)
  ultimately show ?thesis using assms(1-4) by (auto simp: inside_def memory_size_def)
qed

lemma bits_inside:
  "16 \<le> bit_start \<Longrightarrow> bit_start < 2000 \<Longrightarrow> spec \<in> set (overlap_bits bit_start) \<Longrightarrow> inside spec"
  by (auto simp: overlap_bits_def inside_def memory_size_def)

lemma mixed_inside:
  "16 \<le> bit_start \<Longrightarrow> bit_start < 2000 \<Longrightarrow> spec \<in> set (overlap_mixed bit_start k d) \<Longrightarrow> inside spec"
proof (induction k arbitrary: d)
  case 0
  then show ?case by simp
next
  case (Suc k)
  have "0 \<le> randrange 0 8 (d 1)" "randrange 0 8 (d 1) < 8" "0 \<le> randrange 0 2 (d 2)" "randrange 0 2 (d 2) < 2"
    using randrange_bounds by simp_all
  with Suc show ?case by (auto simp: inside_def memory_size_def split: if_splits)
qed

lemma specs_inside:
  assumes "29 \<le> pdu" "pdu \<le> 1010" "spec \<in> set (overlap_specs d pdu)"
  shows "inside spec"
proof -
  define base where "base = randrange 16 64 (d 0)"
  have b: "16 \<le> base" "base < 64" using randrange_bounds[of 16 64 "d 0"] by (simp_all add: base_def)
  have m: "1 \<le> pdu - 28" "pdu - 28 \<le> 982" using assms by simp_all
  have r: "inside (''r'', base, n, 0)" if "n \<in> set (transfer_sizes (pdu - 18))" for n
    using that b assms(1,2) by (auto simp: transfer_sizes_def inside_def memory_size_def)
  have z: "n \<in> set (transfer_sizes (pdu - 28))" if "(k, n) \<in> set (List.zip ks (transfer_sizes (pdu - 28)))" for k n and ks :: "nat list"
    using that by (rule set_zip_rightD)
  consider (duplicates) k n where "(k, n) \<in> set (List.zip [0, 1, 2, 3, 4, 5] (transfer_sizes (pdu - 28)))"
        "spec \<in> set (overlap_duplicates base (pdu - 28) n (d (1 + k)))"
    | (reads) n where "n \<in> set (transfer_sizes (pdu - 18))" "spec = (''r'', base, n, 0)"
    | (nested) i where "spec \<in> set (overlap_nested base (pdu - 28) (rest_of 7 d) i)"
    | (bits) "spec \<in> set (overlap_bits (base + (pdu - 28)))"
    | (mixed) "spec \<in> set (overlap_mixed (base + (pdu - 28)) 12 (rest_of 43 d))"
    using assms(3) unfolding overlap_specs_def Let_def base_def[symmetric] set_append set_concat set_map Un_iff
    by auto
  then show ?thesis
  proof cases
    case duplicates
    then show ?thesis using duplicates_inside[OF b m] z by blast
  next
    case reads
    then show ?thesis using r by simp
  next
    case nested
    then show ?thesis using nested_inside[OF b m] by blast
  next
    case bits
    then show ?thesis using bits_inside[of "base + (pdu - 28)"] b m by simp
  next
    case mixed
    then show ?thesis using mixed_inside[of "base + (pdu - 28)"] b m by simp
  qed
qed


lemma overlap_generate_specs:
  "List.map (\<lambda>op'. (ov_kind op', ov_start op', ov_size op', ov_argument op')) (overlap_generate d pdu)
     = List.map (\<lambda>(k, a, n, v). (ascii k, a, n, v)) (overlap_specs d pdu)"
  by (rule nth_equalityI) (auto simp: overlap_generate_def split: prod.splits)

lemma overlap_generate_ids:
  "List.map ov_id (overlap_generate d pdu) = List.map (\<lambda>i. int i + 1) [0..<length (overlap_specs d pdu)]"
  by (rule nth_equalityI) (auto simp: overlap_generate_def split: prod.splits)

text \<open>C13: Whatever is drawn, every operation of a generated overlap history stays inside the memory for any size between
  29 and 1010 octets (the driver uses 240 and 480), bit operations name a bit of one octet, and the identifiers are the
  positions, counted from one.\<close>
theorem overlap_generate_inside:
  assumes "29 \<le> pdu" "pdu \<le> 1010"
  shows "(\<forall>op' \<in> set (overlap_generate d pdu).
      0 \<le> ov_start op' \<and> 0 \<le> ov_size op'
      \<and> ov_start op' + (if ov_kind op' = ascii ''b'' then 1 else ov_size op') \<le> int memory_size
      \<and> (ov_kind op' = ascii ''b'' \<longrightarrow> ov_size op' < 8 \<and> ov_argument op' \<in> {0, 1}))
    \<and> List.map ov_id (overlap_generate d pdu) = List.map (\<lambda>i. int i + 1) [0..<length (overlap_generate d pdu)]"
proof (intro conjI ballI)
  fix op'
  assume o: "op' \<in> set (overlap_generate d pdu)"
  have "(ov_kind op', ov_start op', ov_size op', ov_argument op') \<in> set (List.map (\<lambda>(k, a, n, v). (ascii k, a, n, v)) (overlap_specs d pdu))"
    using o unfolding overlap_generate_specs[symmetric] by auto
  then obtain k a n v where spec: "(k, a, n, v) \<in> set (overlap_specs d pdu)"
      "ov_kind op' = ascii k" "ov_start op' = a" "ov_size op' = n" "ov_argument op' = v" by auto
  from specs_inside[OF assms spec(1)] spec(2-)
  show "0 \<le> ov_start op'" "0 \<le> ov_size op'"
    "ov_start op' + (if ov_kind op' = ascii ''b'' then 1 else ov_size op') \<le> int memory_size"
    "ov_kind op' = ascii ''b'' \<longrightarrow> ov_size op' < 8 \<and> ov_argument op' \<in> {0, 1}"
    by (auto simp: inside_def)
next
  have "length (overlap_generate d pdu) = length (overlap_specs d pdu)" by (simp add: overlap_generate_def)
  then show "List.map ov_id (overlap_generate d pdu) = List.map (\<lambda>i. int i + 1) [0..<length (overlap_generate d pdu)]"
    by (simp add: overlap_generate_ids)
qed

theorem overlap_generate_inside_witness:
  "list_all (\<lambda>op'. 0 \<le> ov_start op' \<and> 0 \<le> ov_size op') (overlap_generate (\<lambda>i. i * i) 480)"
  using overlap_generate_inside[of 480 "\<lambda>i. i * i"] by (simp add: list_all_iff)


section \<open>The peer refines an array\<close>

text \<open>The abstract memory: a read observes, a write replaces, a bit update changes one octet.\<close>

definition put :: "int \<Rightarrow> bytes \<Rightarrow> bytes \<Rightarrow> bytes" where
  "put a data memory = overwrite (nat a) (nat a + length data) data memory"

definition bit_octet :: "overlap_op \<Rightarrow> bytes \<Rightarrow> byte" where
  "bit_octet op' memory =
     (let value = uint (memory ! nat (ov_start op')); mask = push_bit (nat (ov_size op')) 1
      in byte (if ov_argument op' \<noteq> 0 then or value mask else and value (xor 255 mask)))"

definition abstract_op :: "bytes \<Rightarrow> overlap_op \<Rightarrow> bytes" where
  "abstract_op memory op' =
     (if ov_kind op' = ascii ''w'' then put (ov_start op') (overlap_payload (ov_argument op') (ov_size op')) memory
      else if ov_kind op' = ascii ''b'' then put (ov_start op') [bit_octet op' memory] memory
      else memory)"

text \<open>What it answers: parameters and data of the responses, in order.\<close>

definition read_answers :: "bytes \<Rightarrow> int \<Rightarrow> int \<Rightarrow> int \<Rightarrow> (bytes \<times> bytes) list" where
  "read_answers memory a n pdu = List.map (\<lambda>(offset, z). ([4, 1],
     [0xff, 4] @ be_bytes 2 (z * 8) @ slice (nat (a + offset)) (nat (a + offset + z)) memory)) (chunks (pdu - 18) n)"

definition write_answers :: "int \<Rightarrow> int \<Rightarrow> (bytes \<times> bytes) list" where
  "write_answers n pdu = List.map (\<lambda>_. ([5, 1], [0xff])) (chunks (pdu - 28) n)"

definition op_answers :: "int \<Rightarrow> bytes \<Rightarrow> overlap_op \<Rightarrow> (bytes \<times> bytes) list" where
  "op_answers pdu memory op' =
     (if ov_kind op' = ascii ''r'' then read_answers memory (ov_start op') (ov_size op') pdu
      else if ov_kind op' = ascii ''w'' then write_answers (len (overlap_payload (ov_argument op') (ov_size op'))) pdu
      else read_answers memory (ov_start op') 1 pdu @ write_answers 1 pdu
        @ read_answers (abstract_op memory op') (ov_start op') 1 pdu)"

fun run_answers :: "int \<Rightarrow> bytes \<Rightarrow> overlap_op list \<Rightarrow> (bytes \<times> bytes) list" where
  "run_answers pdu memory [] = []"
| "run_answers pdu memory (op' # ops) = op_answers pdu memory op' @ run_answers pdu (abstract_op memory op') ops"

definition answers :: "(bytes \<times> bytes) list \<Rightarrow> net \<Rightarrow> net \<Rightarrow> bool" where
  "answers pairs s t \<longleftrightarrow> (\<exists>ios. io_log t = io_log s @ ios
     \<and> list_all2 (\<lambda>(p, d) i. \<exists>r pdu f. ack r p d = Inr pdu \<and> s7_frame pdu = Inr f \<and> i = Sent f) pairs ios)"

lemma answers_Nil: "io_log t = io_log s \<Longrightarrow> answers [] s t"
  by (simp add: answers_def)

lemma answers_append: "answers xs s u \<Longrightarrow> answers ys u t \<Longrightarrow> answers (xs @ ys) s t"
  unfolding answers_def by (elim exE conjE, rule exI) (auto intro: list_all2_appendI)

lemma bindM_Inr: "bindM m f s = (Inr b, t) \<longleftrightarrow> (\<exists>a u. m s = (Inr a, u) \<and> f a u = (Inr b, t))"
  by (auto simp: bindM_def split: prod.splits sum.splits)

lemma thenM_Inr: "thenM m n s = (Inr b, t) \<longleftrightarrow> (\<exists>a u. m s = (Inr a, u) \<and> n u = (Inr b, t))"
  by (simp add: thenM_def bindM_Inr)

lemma liftE_Inr: "liftE r s = (Inr a, t) \<longleftrightarrow> r = Inr a \<and> t = s"
  by (auto simp: liftE_def)

lemma ret_Inr: "ret a s = (Inr b, t) \<longleftrightarrow> b = a \<and> t = s"
  by (auto simp: ret_def)

lemmas success = bindM_Inr thenM_Inr liftE_Inr ret_Inr

lemma exact_log: "exact msg n s = (r, t) \<Longrightarrow> io_log t = io_log s"
  using exact_pull by (metis net.select_convs(6) net.surjective net.update_convs(2))

lemma take_request_log: "take_request s = (Inr p, t) \<Longrightarrow> io_log t = io_log s"
  by (auto simp: take_request_def receive_def tpkt_receive_def success expect_def guardM_def Let_def dest!: exact_log)

lemma reply_answers:
  assumes "reply (ack r p d) s = (Inr (), t)"
  shows "answers [(p, d)] s t"
proof -
  obtain pdu where pdu: "ack r p d = Inr pdu" "send_pdu pdu s = (Inr (), t)"
    using assms by (auto simp: reply_def success)
  then obtain f where f: "s7_frame pdu = Inr f" "sendall f s = (Inr (), t)"
    by (auto simp: send_pdu_frame split: sum.splits)
  then have "io_log t = io_log s @ [Sent f]" by (auto simp: sendall_def split: list.splits bool.splits)
  with pdu(1) f(1) show ?thesis unfolding answers_def by auto
qed


lemma forM_answers:
  "(\<And>x s t. x \<in> set xs \<Longrightarrow> f x s = (Inr (), t) \<Longrightarrow> answers (g x) s t) \<Longrightarrow> forM xs f s = (Inr (), t)
     \<Longrightarrow> answers (concat (List.map g xs)) s t"
proof (induction xs arbitrary: s)
  case Nil
  then show ?case by (simp add: answers_Nil ret_Inr)
next
  case (Cons x xs)
  then obtain u where u: "f x s = (Inr (), u)" "forM xs f u = (Inr (), t)" by (auto simp: success)
  have "answers (g x) s u" using Cons.prems(1) u(1) by simp
  moreover have "answers (concat (List.map g xs)) u t" using Cons.IH Cons.prems(1) u(2) by simp
  ultimately show ?case using answers_append by simp
qed

lemma overlap_read_answers:
  assumes "overlap_read memory a n pdu s = (Inr (), t)"
  shows "answers (read_answers memory a n pdu) s t"
proof -
  let ?g = "\<lambda>(offset, z). [([4, 1], [0xff, 4] @ be_bytes 2 (z * 8) @ slice (nat (a + offset)) (nat (a + offset + z)) memory)]"
  have "answers (concat (List.map ?g (chunks (pdu - 18) n))) s t"
  proof (rule forM_answers[OF _ assms[unfolded overlap_read_def]])
    fix x s t
    assume step: "(case x of (offset, z) \<Rightarrow>
       bindM take_request (\<lambda>request.
       bindM (liftE (overlap_check request False (a + offset) z pdu [])) (\<lambda>reference.
         reply (bindE (concatE [Inr [0xff, 4], pack 2 (z * 8),
             Inr (slice (nat (a + offset)) (nat (a + offset + z)) memory)]) (\<lambda>data.
           ack reference [4, 1] data))))) s = (Inr (), t)"
    obtain offset z where x: "x = (offset, z)" by fastforce
    let ?data = "[0xff, 4] @ be_bytes 2 (z * 8) @ slice (nat (a + offset)) (nat (a + offset + z)) memory"
    from step obtain request r u where u: "take_request s = (Inr request, u)"
        "reply (bindE (concatE [Inr [0xff, 4], pack 2 (z * 8),
             Inr (slice (nat (a + offset)) (nat (a + offset + z)) memory)]) (ack r [4, 1])) u = (Inr (), t)"
      unfolding x by (auto simp only: success prod.case)
    from u(2) have "bindE (concatE [Inr [0xff, 4], pack 2 (z * 8),
             Inr (slice (nat (a + offset)) (nat (a + offset + z)) memory)]) (ack r [4, 1]) = ack r [4, 1] ?data"
      by (cases "pack 2 (z * 8)") (auto simp: reply_def success simp del: be_bytes_numeral)
    with u(2) have "answers [([4, 1], ?data)] u t" by (intro reply_answers) simp
    moreover have "answers [] s u" by (rule answers_Nil) (rule take_request_log[OF u(1)])
    ultimately show "answers (?g x) s t" using answers_append[of "[]" s u _ t] by (simp only: x prod.case append_Nil)
  qed
  moreover have "concat (List.map ?g xs) = List.map (\<lambda>(offset, z). ([4, 1],
     [0xff, 4] @ be_bytes 2 (z * 8) @ slice (nat (a + offset)) (nat (a + offset + z)) memory) :: bytes \<times> bytes) xs" for xs
    by (induction xs) auto
  ultimately show ?thesis unfolding read_answers_def by (simp only:)
qed

lemma packet_suffix: "packet k r p c = Inr q \<Longrightarrow> \<exists>h. q = h @ c"
  using packet_ok[OF packet_bounds] by fastforce

lemma overlap_check_write:
  assumes "overlap_check request True a n pdu data = Inr r" "len data = n"
  shows "0 \<le> a \<and> drop (length request - nat n) request = data"
proof -
  obtain p c where pc: "transfer_parameters True n a = Inr p" "transfer_data True n data = Inr c" "packet 1 r p c = Inr request"
    using assms(1) by (auto simp: overlap_check_def check_transfer_iff)
  from pc(1) have "0 \<le> a" by (simp add: transfer_parameters_def)
  moreover obtain h where "request = h @ c" using packet_suffix[OF pc(3)] by blast
  moreover obtain h' where "c = h' @ data" using pc(2) by (auto simp: transfer_data_def)
  moreover have "nat n = length data" using assms(2) by (simp add: len_def)
  ultimately show ?thesis by simp
qed

lemma put_put:
  assumes "0 \<le> a"
  shows "put (a + len d) e (put a d m) = put a (d @ e) m"
proof -
  have n: "nat (a + len d) = nat a + length d" using assms by (simp add: len_def)
  show ?thesis unfolding put_def n overwrite_def by (cases "nat a \<le> length m") (simp_all add: ac_simps)
qed

lemma overlap_chunk_puts:
  assumes "overlap_write_chunk a data pdu (offset, n) memory s = (Inr memory', t)"
    and "len (slice (nat offset) (nat (offset + n)) data) = n"
  shows "0 \<le> a + offset" and "memory' = put (a + offset) (slice (nat offset) (nat (offset + n)) data) memory"
    and "answers [([5, 1], [0xff])] s t"
proof -
  define piece where "piece = slice (nat offset) (nat (offset + n)) data"
  obtain request r u where step: "take_request s = (Inr request, u)"
      "overlap_check request True (a + offset) n pdu piece = Inr r"
      "reply (ack r [5, 1] [0xff]) u = (Inr (), t)"
      "memory' = overwrite (nat (a + offset)) (nat (a + offset + n)) (drop (length request - nat n) request) memory"
    using assms(1) unfolding overlap_write_chunk_def piece_def success Let_def prod.case by auto
  have piece_len: "len piece = n" using assms(2) by (simp add: piece_def)
  note w = overlap_check_write[OF step(2) piece_len]
  then show "0 \<le> a + offset" by simp
  have "nat (a + offset + n) = nat (a + offset) + length piece" using w piece_len unfolding len_def by linarith
  then show "memory' = put (a + offset) (slice (nat offset) (nat (offset + n)) data) memory"
    using w step(4) by (simp add: put_def piece_def)
  show "answers [([5, 1], [0xff])] s t"
    using answers_append[OF answers_Nil[OF take_request_log[OF step(1)]] reply_answers[OF step(3)]] by simp
qed

lemma overlap_write_from:
  assumes "0 \<le> offset" "offset \<le> amount" "0 < limit" "amount = len data"
    and "foldM (overlap_write_chunk a data pdu) (chunks_from limit amount offset) memory s = (Inr memory', t)"
  shows "memory' = put (a + offset) (drop (nat offset) data) memory
    \<and> answers (List.map (\<lambda>_. ([5, 1], [0xff])) (chunks_from limit amount offset)) s t"
  using assms
proof (induction limit amount offset arbitrary: memory s rule: chunks_from.induct)
  case (1 limit amount offset)
  show ?case
  proof (cases "offset < amount")
    case False
    then have "drop (nat offset) data = []" "chunks_from limit amount offset = []"
      using 1(3-5) by (simp_all add: chunks_from_stop len_def)
    with 1(6) show ?thesis by (simp add: ret_Inr answers_Nil put_def overwrite_def)
  next
    case True
    define n where "n = min limit (amount - offset)"
    have n: "0 < n" "offset + n \<le> amount" using True 1(4) by (auto simp: n_def)
    have chunk: "chunks_from limit amount offset = (offset, n) # chunks_from limit amount (offset + n)"
      using True 1(4) by (simp add: chunks_from_step n_def)
    define piece where "piece = slice (nat offset) (nat (offset + n)) data"
    have piece_len: "len piece = n" using n 1(2,5) by (simp add: piece_def len_def length_slice nat_add_distrib)
    obtain m v where step: "overlap_write_chunk a data pdu (offset, n) memory s = (Inr m, v)"
        "foldM (overlap_write_chunk a data pdu) (chunks_from limit amount (offset + n)) m v = (Inr memory', t)"
      using 1(6) unfolding chunk by (auto simp: success)
    note c = overlap_chunk_puts[OF step(1) piece_len[unfolded piece_def], folded piece_def]
    have ih: "memory' = put (a + (offset + n)) (drop (nat (offset + n)) data) m
        \<and> answers (List.map (\<lambda>_. ([5, 1], [0xff])) (chunks_from limit amount (offset + n))) v t"
      unfolding n_def by (rule 1(1)) (use True 1(2,4,5) n step(2) in \<open>simp_all add: n_def\<close>)
    have cut: "piece @ drop (nat (offset + n)) data = drop (nat offset) data"
      unfolding piece_def by (rule slice_drop) (use n(1) in linarith)
    have "memory' = put (a + offset) (drop (nat offset) data) memory"
      using ih put_put[OF c(1), of piece "drop (nat (offset + n)) data" memory] c(2) piece_len cut
      by (simp add: add.assoc)
    then show ?thesis
      using ih answers_append[OF c(3)] by (simp add: chunk)
  qed
qed

lemma overlap_write_puts:
  assumes "overlap_write memory a data pdu s = (Inr memory', t)" "28 < pdu"
  shows "memory' = put a data memory \<and> answers (write_answers (len data) pdu) s t"
  using overlap_write_from[of 0 "len data" "pdu - 28" data a pdu memory s memory' t] assms
  by (simp add: overlap_write_def write_answers_def chunks_def)


lemma overlap_perform_refines:
  assumes "overlap_perform pdu op' memory s = (Inr memory', t)" "28 < pdu" "0 \<le> ov_start op'"
  shows "memory' = abstract_op memory op' \<and> answers (op_answers pdu memory op') s t"
proof -
  consider (r) "ov_kind op' = ascii ''r''" | (w) "ov_kind op' = ascii ''w''" | (b) "ov_kind op' = ascii ''b''"
    | (other) "ov_kind op' \<notin> {ascii ''r'', ascii ''w'', ascii ''b''}" by blast
  then show ?thesis
  proof cases
    case r
    with assms(1) obtain u where "overlap_read memory (ov_start op') (ov_size op') pdu s = (Inr (), t)" "memory' = memory"
      by (auto simp: overlap_perform_def success)
    with r overlap_read_answers show ?thesis by (simp add: abstract_op_def op_answers_def)
  next
    case w
    with assms overlap_write_puts show ?thesis by (simp add: overlap_perform_def abstract_op_def op_answers_def)
  next
    case b
    then obtain previous updated data u v where step: "py_at memory (ov_start op') = Inr previous"
        "overlap_read memory (ov_start op') 1 pdu s = (Inr (), u)"
        "update_bit (uint previous) (ov_size op') (ov_argument op') = Inr updated" "bytes_of [updated] = Inr data"
        "overlap_write memory (ov_start op') data pdu u = (Inr memory', v)"
        "overlap_read memory' (ov_start op') 1 pdu v = (Inr (), t)"
      using assms(1) by (auto simp: overlap_perform_def success)
    have "previous = memory ! nat (ov_start op')"
      using step(1) assms(3) by (simp add: py_at_def Let_def split: if_splits)
    moreover have "data = [byte updated]" using step(4) by (simp add: bytes_of_Inr_iff)
    ultimately have data: "data = [bit_octet op' memory]"
      using step(3) by (auto simp: update_bit_def bit_octet_def Let_def split: if_splits)
    note w = overlap_write_puts[OF step(5) assms(2)]
    then have m: "memory' = abstract_op memory op'" using b data by (simp add: abstract_op_def)
    have "answers (read_answers memory (ov_start op') 1 pdu @ write_answers 1 pdu
        @ read_answers memory' (ov_start op') 1 pdu) s t"
      using answers_append[OF overlap_read_answers[OF step(2)] answers_append[OF w[THEN conjunct2] overlap_read_answers[OF step(6)]]]
      by (simp add: data)
    with m b show ?thesis by (simp add: op_answers_def)
  next
    case other
    with assms(1) show ?thesis by (simp add: overlap_perform_def failing_def raise_def)
  qed
qed

lemma staged_Inr: "staged stage m s = (Inr (Inr a), t) \<longleftrightarrow> m s = (Inr a, t)"
  by (auto simp: staged_def attempt_def success raise_def split: prod.splits sum.splits if_splits)

lemma bindS_Inr: "bindS m f s = (Inr (Inr b), t) \<longleftrightarrow> (\<exists>a u. m s = (Inr (Inr a), u) \<and> f a u = (Inr (Inr b), t))"
proof
  assume "bindS m f s = (Inr (Inr b), t)"
  then obtain r u where "m s = (Inr r, u)" "(case r of Inl e \<Rightarrow> ret (Inl e) | Inr a \<Rightarrow> f a) u = (Inr (Inr b), t)"
    unfolding bindS_def bindM_Inr by blast
  then show "\<exists>a u. m s = (Inr (Inr a), u) \<and> f a u = (Inr (Inr b), t)" by (cases r) (auto simp: ret_Inr)
qed (auto simp: bindS_def bindM_Inr)

text \<open>C14: The memory peer refines an array. Whenever it gets through a history (operations at non-negative addresses,
  a size that leaves room for a write), the memory it ends with is the array after the history's writes and bit updates
  in order, and what it sent on the way are the array's answers: for a read the octets the array holds at that point,
  cut into chunks, for a write one acknowledgement per chunk, for a bit update the octet before, the acknowledgement
  and the octet after.\<close>
theorem overlap_refines_array:
  assumes "overlap_run pdu ops memory s = (Inr (Inr memory'), t)" "28 < pdu" "\<And>op'. op' \<in> set ops \<Longrightarrow> 0 \<le> ov_start op'"
  shows "memory' = foldl abstract_op memory ops \<and> answers (run_answers pdu memory ops) s t"
  using assms
proof (induction ops arbitrary: memory s)
  case Nil
  then show ?case by (simp add: ret_Inr answers_Nil)
next
  case (Cons op' ops)
  from Cons.prems(1) obtain m u where step: "overlap_perform pdu op' memory s = (Inr m, u)"
      "overlap_run pdu ops m u = (Inr (Inr memory'), t)"
    by (auto simp: bindS_Inr staged_Inr)
  have p: "m = abstract_op memory op'" "answers (op_answers pdu memory op') s u"
    using overlap_perform_refines[OF step(1) Cons.prems(2)] Cons.prems(3) by simp_all
  have "memory' = foldl abstract_op m ops \<and> answers (run_answers pdu m ops) u t"
    using Cons.IH[OF step(2)] Cons.prems(2,3) by simp
  with p answers_append show ?case by simp
qed

lemma slice_slice: "k + j \<le> l \<Longrightarrow> slice i j (slice k l xs) = slice (k + i) (k + j) xs"
  by (simp add: slice_def drop_take min_def add.commute)

text \<open>A read shows the octets of its range, whatever the chunks.\<close>

lemma read_answers_cover:
  assumes "28 < pdu" "0 \<le> a" "0 \<le> n" "a + n \<le> len memory"
  shows "concat (List.map (\<lambda>(p, d). drop 4 d) (read_answers memory a n pdu)) = slice (nat a) (nat (a + n)) memory"
proof -
  let ?range = "slice (nat a) (nat (a + n)) memory"
  have l: "n = len ?range" using assms by (simp add: len_def length_slice)
  have "slice (nat (a + p)) (nat (a + p + z)) memory = slice (nat p) (nat (p + z)) ?range"
    if "(p, z) \<in> set (chunks (pdu - 18) n)" for p z
    proof -
    note b = chunks_from_bounds[OF that[unfolded chunks_def]]
    have "nat (a + p) = nat a + nat p" "nat (a + p + z) = nat a + nat (p + z)" "nat a + nat (p + z) \<le> nat (a + n)"
      using b assms(2) by linarith+
    then show ?thesis using slice_slice by metis
  qed
  then have "concat (List.map (\<lambda>(p, d). drop 4 d) (read_answers memory a n pdu))
      = concat (List.map (\<lambda>(p, z). slice (nat p) (nat (p + z)) ?range) (chunks (pdu - 18) n))"
    by (intro arg_cong[of _ _ concat]) (simp add: read_answers_def, fastforce)
  also have "\<dots> = ?range" using concat_slices[of 0 "pdu - 18" n ?range] assms(1) l by (simp add: chunks_def)
  finally show ?thesis .
qed


definition ex_stream :: "arrival list" where
  "ex_stream =
     [Chunk [3, 0, 0, 36, 2, 0xf0, 0x80, 0x32, 1, 0, 0, 0, 8, 0, 14, 0, 5, 5, 1, 0x12, 0x0a, 0x10, 2, 0, 1, 0, 1,
        0x84, 0, 0, 24, 0, 4, 0, 8],
      Chunk [0x33, 3, 0, 0, 31, 2, 0xf0, 0x80, 0x32, 1, 0, 0, 0, 9, 0, 14, 0, 0, 4, 1, 0x12, 0x0a, 0x10, 2, 0, 1, 0, 1,
        0x84, 0, 0, 24]]"

definition ex_ops :: "overlap_op list" where
  "ex_ops = [\<lparr>ov_id = 1, ov_kind = ascii ''w'', ov_start = 3, ov_size = 1, ov_argument = 3\<rparr>,
     \<lparr>ov_id = 2, ov_kind = ascii ''r'', ov_start = 3, ov_size = 1, ov_argument = 0\<rparr>]"

lemma ex_run: "fst (overlap_run 240 ex_ops [1, 2, 3, 4, 5] ((start [])\<lparr>rx := ex_stream\<rparr>)) = Inr (Inr [1, 2, 3, 0x33, 5])"
  by code_simp

theorem overlap_refines_array_witness:
  "foldl abstract_op [1, 2, 3, 4, 5] ex_ops = [1, 2, 3, 0x33, 5]
   \<and> (\<exists>t. answers (run_answers 240 [1, 2, 3, 4, 5] ex_ops) ((start [])\<lparr>rx := ex_stream\<rparr>) t)"
proof -
  obtain t where "overlap_run 240 ex_ops [1, 2, 3, 4, 5] ((start [])\<lparr>rx := ex_stream\<rparr>) = (Inr (Inr [1, 2, 3, 0x33, 5]), t)"
    using ex_run by (metis prod.collapse)
  moreover have "0 \<le> ov_start op'" if "op' \<in> set ex_ops" for op' using that by (auto simp: ex_ops_def)
  ultimately have "[1, 2, 3, 0x33, 5] = foldl abstract_op [1, 2, 3, 4, 5] ex_ops
      \<and> answers (run_answers 240 [1, 2, 3, 4, 5] ex_ops) ((start [])\<lparr>rx := ex_stream\<rparr>) t"
    by (intro overlap_refines_array) simp_all
  then show ?thesis by auto
qed

section \<open>Bit updates\<close>

lemma octet_bits:
  assumes "0 \<le> (v :: int)" "v < 256"
  shows "bit v p \<Longrightarrow> p < 8"
proof -
  have "take_bit 8 v = v" using assms by (simp add: take_bit_int_eq_self_iff)
  then show "bit v p \<Longrightarrow> p < 8" by (metis bit_take_bit_iff)
qed

text \<open>Updating a bit of an octet sets or clears that bit and no other, stays an octet, and doing it again changes
  nothing.\<close>

lemma update_bit_exact:
  assumes "0 \<le> v" "v < 256" "0 \<le> position" "position < 8"
  shows "\<exists>u. update_bit v position enabled = Inr u \<and> 0 \<le> u \<and> u < 256
    \<and> (\<forall>p. bit u p \<longleftrightarrow> (if p = nat position then enabled \<noteq> 0 else bit v p))
    \<and> update_bit u position enabled = Inr u"
proof -
  define mask :: int where "mask = push_bit (nat position) 1"
  define u where "u = (if enabled \<noteq> 0 then or v mask else and v (xor 255 mask))"
  have m: "bit mask p \<longleftrightarrow> p = nat position" for p by (auto simp: mask_def bit_push_bit_iff_int bit_1_iff bit_exp_iff)
  have full: "bit (255 :: int) p \<longleftrightarrow> p < 8" for p
    using bit_mask_iff[where 'a = int, of 8 p] by (simp add: mask_eq_exp_minus_1)
  have bits: "bit u p \<longleftrightarrow> (if p = nat position then enabled \<noteq> 0 else bit v p)" for p
    using octet_bits[OF assms(1,2)] assms(3,4)
    by (auto simp: u_def bit_or_iff bit_and_iff bit_xor_iff m full)
  have "take_bit 8 u = u"
    by (rule bit_eqI) (use bits octet_bits[OF assms(1,2)] assms(3,4) in \<open>auto simp: bit_take_bit_iff split: if_splits\<close>)
  then have range: "0 \<le> u" "u < 256" by (simp_all add: take_bit_int_eq_self_iff)
  have again: "(if enabled \<noteq> 0 then or u mask else and u (xor 255 mask)) = u"
    by (rule bit_eqI) (use bits octet_bits[OF range] assms(3,4) in
        \<open>auto simp: bit_or_iff bit_and_iff bit_xor_iff m full split: if_splits\<close>)
  have "update_bit v position enabled = Inr u" "update_bit u position enabled = Inr u"
    using assms(3) again by (simp_all add: update_bit_def u_def mask_def Let_def)
  with range bits show ?thesis by blast
qed

lemma update_bit_exact_example: "\<exists>u. update_bit 0x55 3 1 = Inr u \<and> bit u 3 \<and> \<not> bit u 1"
  using update_bit_exact[of 85 3 1] by (auto simp: bit_numeral_rec)

end
