(* ===== verification/Faults.thy ===== *)
theory Faults
  imports Overlap Management
begin

text \<open>
  The fault peers of \<^verbatim>\<open>run.py\<close>: connections that are confirmed wrongly, USER_DATA and
  upload replies with one thing wrong, downloads the PLC drives, interrupts or spoils,
  reconnects, reference wrap-around, segmented replies, and streams that trickle or
  flood. Each is one function from the client's script to the errors it records.
\<close>

section \<open>Shared steps\<close>

definition unpack2 :: "bytes \<Rightarrow> int result" where
  "unpack2 bs = (if length bs = 2 then Inr (be_int bs) else Inl StructError)"

text \<open>\<^verbatim>\<open>with\<close> an accepted connection, errors collected.\<close>

definition serving :: "(net, unit) prog \<Rightarrow> (net, exn list) prog" where
  "serving body = collects (accepting body)"

definition setup_reply :: "int \<Rightarrow> int \<Rightarrow> bytes result" where
  "setup_reply reference pdu_length =
     bindE (to_bytes 2 pdu_length) (\<lambda>size_field. s7_response reference ([0xf0, 0, 0, 1, 0, 1] @ size_field) [])"

definition confirm_and_setup :: "int \<Rightarrow> (net, unit) prog" where
  "confirm_and_setup pdu_length =
     bindM receive_tpkt (\<lambda>cr. thenM (send_confirm cr)
     (bindM receive_s7 (\<lambda>setup_pdu. send_s7 (setup_reply (reference_of setup_pdu) pdu_length))))"

text \<open>
  \<^verbatim>\<open>with _accept_session(listener, n) as connection: body\<close>. A failure inside \<^verbatim>\<open>_accept_session\<close>
  leaves the connection to the garbage collector.
\<close>

definition with_session :: "int \<Rightarrow> (net, 'a) prog \<Rightarrow> (net, 'a) prog" where
  "with_session pdu_length body = thenM accept (thenM (confirm_and_setup pdu_length) (with_connection body))"

definition expect_disconnect :: "string \<Rightarrow> (net, unit) prog" where
  "expect_disconnect msg = bindM receive_tpkt (\<lambda>frame. expect (disconnecting frame) msg)"

section \<open>Handshakes with one thing wrong\<close>

definition handshake_modes :: "(string \<times> string) list" where
  "handshake_modes =
     [(''wrong-reference'', ''expected COTP destination reference''), (''wrong-class'', ''expected COTP class option''),
      (''oversized-tpdu'', ''exceeds requested''), (''pdu-too-small'', ''negotiated PDU length is too small''),
      (''pdu-exceeds-tpdu'', ''cannot contain 480 payload bytes'')]"

definition wrong_confirm :: "string \<Rightarrow> bytes \<Rightarrow> bytes \<Rightarrow> bytes result" where
  "wrong_confirm mode cr cc =
     (if mode = ''wrong-reference'' then
        Inr (overwrite 2 4 (be_bytes 2 ((be_int (slice 4 6 cr) + 1) mod 65536)) cc)
      else if mode = ''wrong-class'' then Inr (cc[6 := 1])
      else if mode = ''oversized-tpdu'' then Inr (cc[length cc - 1 := 0x0b])
      else if mode = ''pdu-too-small'' then Inr cc
      else if mode = ''pdu-exceeds-tpdu'' then Inr (cc[length cc - 1 := 8])
      else Inl ValueError)"

definition serve_handshake_rejection :: "string \<Rightarrow> (net, exn list) prog" where
  "serve_handshake_rejection mode = serving
     (bindM receive_tpkt (\<lambda>cr.
      bindM (liftE (bindE (confirm cr) (wrong_confirm mode cr))) (\<lambda>cc.
      thenM (tpkt_send cc)
        (if mode \<in> {''pdu-too-small'', ''pdu-exceeds-tpdu''} then
           bindM receive_s7 (\<lambda>setup_pdu.
             send_s7 (setup_reply (reference_of setup_pdu) (if mode = ''pdu-too-small'' then 239 else 480)))
         else ret ()))))"

section \<open>USER_DATA and upload replies\<close>

definition userdata_response :: "int \<Rightarrow> int \<Rightarrow> int \<Rightarrow> bytes \<Rightarrow> int option \<Rightarrow> int \<Rightarrow> bool \<Rightarrow> int \<Rightarrow> bytes result" where
  "userdata_response reference grp subfunction content declared_length fragment has_more_data error_code =
     bindE (bytes_of [0, 1, 0x12, 8, 0x12, or 0x80 grp, subfunction, fragment, 0, of_bool has_more_data,
         error_code div 256 mod 256, error_code mod 256]) (\<lambda>parameters.
     bindE (concatE [Inr [0xff, 9], to_bytes 2 (case declared_length of None \<Rightarrow> len content | Some n \<Rightarrow> n), Inr content]) (\<lambda>data.
       packet 7 reference parameters data))"

text \<open>The replies of the modes that answer once and return.\<close>

definition szl_reply :: "string \<Rightarrow> int \<Rightarrow> bytes result option" where
  "szl_reply mode reference =
     (let plain = (\<lambda>grp subfunction content. userdata_response reference grp subfunction content None 0 False 0) in
      if mode = ''szl-wrong-group'' then Some (plain 3 1 [4, 0x24, 0, 0])
      else if mode \<in> {''szl-invalid-flag-two'', ''szl-invalid-flag-ff''} then
        Some (bindE (plain 4 1 [4, 0x24, 0, 0]) (\<lambda>p. Inr (p[19 := (if mode = ''szl-invalid-flag-two'' then 2 else 0xff)])))
      else if mode = ''szl-truncated-payload'' then Some (userdata_response reference 4 1 [0xaa, 0xbb] (Some 4) 0 False 0)
      else if mode = ''szl-invalid-final-records'' then Some (plain 4 1 [4, 0x24, 0, 0, 0, 4, 0, 1, 0xaa])
      else if mode = ''userdata-invalid-final-entries'' then Some (plain 3 2 [0xaa])
      else None)"

definition serve_szl_error :: "int \<Rightarrow> (net, unit) prog" where
  "serve_szl_error reference =
     thenM (send_s7 (userdata_response reference 4 1 [] None 0 False 0x8104))
       (no_reconnect ''client retried a PLC-rejected request'')"

definition serve_endless :: "int \<Rightarrow> (net, unit) prog" where
  "serve_endless reference =
     bindM (foldM (\<lambda>fragment reference.
        thenM (send_s7 (userdata_response reference 4 1 (if fragment = 0 then [4, 0x24, 0, 0] else []) None
          (int fragment mod 256) True 0))
        (if fragment \<noteq> 255 then bindM receive_s7 (\<lambda>req. ret (reference_of req)) else ret reference)) [0..<256] reference)
       (\<lambda>_. ret ())"

definition legacy_modes :: "string list" where
  "legacy_modes = [''upload-invalid-marker'', ''upload-length-mismatch'', ''upload-wrong-function'']"

definition digits5 :: "nat \<Rightarrow> bytes" where
  "digits5 n = List.map (\<lambda>c. byte (int c)) (zero_pad 5 n)"

definition upload_start :: "string \<Rightarrow> bytes" where
  "upload_start mode =
     [0x1d] @ replicate 6 0 @ [1]
     @ (if mode \<in> set legacy_modes then [] else replicate 3 0 @ digits5 (if mode = ''upload-end-bad-ack'' then 2 else 4))"

text \<open>Parameters and data of the reply to the upload request, or \<open>None\<close> for a mode without one here.\<close>

definition upload_reply :: "string \<Rightarrow> (bytes \<times> bytes) option" where
  "upload_reply mode =
     (if mode = ''upload-invalid-marker'' then Some ([0x1e, 0], [0, 2, 0, 0xfa, 0xde, 0xad])
      else if mode = ''upload-length-mismatch'' then Some ([0x1e, 0], [0, 3, 0, 0xfb, 0xde, 0xad])
      else if mode = ''upload-wrong-function'' then Some ([0x1d, 0], [0, 2, 0, 0xfb, 0xde, 0xad])
      else if mode \<in> {''upload-invalid-flag'', ''upload-cleanup-bad-ack''} then Some ([0x1e, 2], [0, 2, 0, 0xfb, 0xde, 0xad])
      else if mode = ''upload-empty-continuation'' then Some ([0x1e, 1], [0, 0, 0, 0xfb])
      else if mode = ''upload-short-final'' then Some ([0x1e, 0], [0, 2, 0, 0xfb, 0xde, 0xad])
      else if mode = ''upload-long-final'' then Some ([0x1e, 0], [0, 5, 0, 0xfb, 1, 2, 3, 4, 5])
      else if mode = ''upload-more-at-declared-length'' then Some ([0x1e, 1], [0, 4, 0, 0xfb, 1, 2, 3, 4])
      else if mode = ''upload-end-bad-ack'' then Some ([0x1e, 0], [0, 2, 0, 0xfb, 0xde, 0xad])
      else None)"

text \<open>The reference of a request whose function and upload identifier are checked.\<close>

definition upload_request :: "byte \<Rightarrow> string \<Rightarrow> bytes \<Rightarrow> int result" where
  "upload_request function msg req =
     bindE (at req 10) (\<lambda>f. bindE (if f \<noteq> function then Inr True else bindE (at req 17) (\<lambda>i. Inr (i \<noteq> 1))) (\<lambda>wrong.
     bindE (guardE (\<not> wrong) (RuntimeError msg)) (\<lambda>_. Inr (reference_of req))))"

definition upload_midstream :: "string \<Rightarrow> int \<Rightarrow> (net, int \<times> bytes \<times> bytes) prog" where
  "upload_midstream mode reference =
     thenM (send_s7 (s7_response reference [0x1e, 1] [0, 2, 0, 0xfb, 1, 2]))
     (bindM receive_s7 (\<lambda>upload.
      bindM (liftE (upload_request 0x1e ''upload continuation used the wrong function or ID'' upload)) (\<lambda>reference.
      let chunk = (if mode = ''upload-midstream-short'' then [3] else [3, 4, 5])
      in ret (reference, [0x1e, 0], be_bytes 2 (len chunk) @ [0, 0xfb] @ chunk))))"

definition serve_upload :: "string \<Rightarrow> int \<Rightarrow> (net, unit) prog" where
  "serve_upload mode reference =
     thenM (send_s7 (s7_response reference (upload_start mode) []))
     (bindM receive_s7 (\<lambda>upload. let reference = reference_of upload in
      bindM (case upload_reply mode of
               Some (parameters, data) \<Rightarrow> ret (reference, parameters, data)
             | None \<Rightarrow> if mode \<in> {''upload-midstream-short'', ''upload-midstream-overflow''}
                       then upload_midstream mode reference else raise ValueError) (\<lambda>(reference, parameters, data).
      thenM (send_s7 (s7_response reference parameters data))
     (bindM receive_s7 (\<lambda>cleanup.
      bindM (liftE (upload_request 0x1f ''client omitted end-upload cleanup or used the wrong ID'' cleanup)) (\<lambda>cleanup_reference.
      send_s7 (s7_response cleanup_reference
        (if mode \<in> {''upload-end-bad-ack'', ''upload-cleanup-bad-ack''} then [0x1f, 0] else [0x1f]) [])))))))"

definition serve_service_rejection :: "string \<Rightarrow> (net, exn list) prog" where
  "serve_service_rejection mode = serving
     (thenM (confirm_and_setup 480)
     (bindM receive_s7 (\<lambda>req. let reference = reference_of req in
      case szl_reply mode reference of
        Some p \<Rightarrow> send_s7 p
      | None \<Rightarrow>
          if mode = ''szl-plc-error'' then serve_szl_error reference
          else if mode = ''szl-endless-fragments'' then serve_endless reference
          else if take 7 mode \<noteq> ''upload-'' then raise ValueError
          else serve_upload mode reference)))"

definition service_modes :: "(string \<times> string \<times> string) list" where
  "service_modes =
     [(''szl-wrong-group'', ''szl'', ''unexpected USER_DATA type or function group''),
      (''szl-invalid-flag-two'', ''szl'', ''invalid USER_DATA continuation flag''),
      (''szl-invalid-flag-ff'', ''szl'', ''invalid USER_DATA continuation flag''),
      (''szl-truncated-payload'', ''szl'', ''unexpectedEnd''),
      (''szl-invalid-final-records'', ''szl'', ''SZL header describes''),
      (''userdata-invalid-final-entries'', ''userdata'', ''not aligned to four-byte entries''),
      (''szl-plc-error'', ''szl'', ''request failed with code''),
      (''szl-endless-fragments'', ''szl'', ''256-fragment safety limit''),
      (''upload-invalid-marker'', ''upload'', ''invalid upload data marker''),
      (''upload-length-mismatch'', ''upload'', ''upload data length does not match its section''),
      (''upload-wrong-function'', ''upload'', ''unexpected S7 response function''),
      (''upload-invalid-flag'', ''upload'', ''invalid upload continuation flag''),
      (''upload-empty-continuation'', ''upload'', ''made no progress''),
      (''upload-short-final'', ''upload'', ''does not match the declared block length''),
      (''upload-long-final'', ''upload'', ''exceeds the declared block length''),
      (''upload-more-at-declared-length'', ''upload'', ''reached the declared block length''),
      (''upload-midstream-short'', ''upload'', ''does not match the declared block length''),
      (''upload-midstream-overflow'', ''upload'', ''exceeds the declared block length''),
      (''upload-end-bad-ack'', ''upload'', ''invalid end-upload response''),
      (''upload-cleanup-bad-ack'', ''upload'', ''invalid upload continuation flag'')]"

section \<open>Reconnects\<close>

definition serve_reconnect_shrink :: "(net, exn list) prog" where
  "serve_reconnect_shrink = collects
     (thenM (with_session 480 (bindM receive_s7 (\<lambda>_. ret ())))
       (with_session 240 (expect_disconnect ''shrinking reconnect was not disconnected'')))"

definition serve_reconnect_recovery :: "(net, exn list) prog" where
  "serve_reconnect_recovery = collects
     (bindM (with_session 480 receive_s7) (\<lambda>first_request.
      with_session 480 (bindM receive_s7 (\<lambda>retried_request.
        thenM (expect (\<not> (reference_of retried_request \<noteq> reference_of first_request \<or> retried_request \<noteq> first_request))
          ''reconnect did not retry the original request'')
        (thenM (send_s7 (s7_response (reference_of retried_request) [4, 1] [0xff, 4, 0, 32, 0xde, 0xad, 0xbe, 0xef]))
          (expect_disconnect ''reconnect-recovery client omitted disconnect''))))))"

definition serve_reference_wrap :: "(net, exn list) prog" where
  "serve_reference_wrap = collects (with_session 480
     (thenM (forM [(0xffff, 0xaa), (0, 0xbb)] (\<lambda>(expected_reference, v).
        bindM receive_s7 (\<lambda>req. let reference = reference_of req in
        thenM (expect (reference = expected_reference) ''expected reference'')
          (send_s7 (s7_response reference [4, 1] [0xff, 4, 0, 8, v])))))
     (expect_disconnect ''reference-wrap client omitted COTP disconnect'')))"

definition serve_interrupted_userdata :: "(net, exn list) prog" where
  "serve_interrupted_userdata = collects (with_session 480
     (bindM receive_s7 (\<lambda>req.
      thenM (send_s7 (userdata_response (reference_of req) 3 2 [0, 1, 0x10, 2] None 7 True 0))
     (bindM receive_s7 (\<lambda>continuation.
      bindM (liftE (at continuation 1)) (\<lambda>k.
      expect (\<not> (k \<noteq> 7 \<or> slice 15 18 continuation \<noteq> [0x43, 2, 7])) ''client sent an invalid USER_DATA continuation''))))))"

section \<open>Downloads\<close>

definition download_params :: "byte \<Rightarrow> nat \<Rightarrow> bytes" where
  "download_params function block_number =
     [function] @ replicate 7 0 @ [9, 0x5f, 0x30, 0x41] @ digits5 block_number @ [0x50]"

definition download_job :: "int \<Rightarrow> byte \<Rightarrow> bytes result" where
  "download_job fragment function = s7_job fragment (download_params function 7) []"

definition classic_handshake :: "int \<Rightarrow> (net, unit) prog" where
  "classic_handshake pdu_length =
     bindM receive_tpkt (\<lambda>cr.
     thenM (expect (\<not> (length cr < 7 \<or> cr ! 1 \<noteq> 0xe0)) ''expected COTP connection request'')
     (thenM (send_confirm cr)
     (bindM receive_s7 (\<lambda>setup_pdu.
      bindM (liftE (unpack2 (slice 4 6 setup_pdu))) (\<lambda>reference. send_s7 (setup_reply reference pdu_length))))))"

text \<open>The data of one fragment, once its length, reference, function and header are right.\<close>

definition download_fragment :: "int \<Rightarrow> int \<Rightarrow> bytes \<Rightarrow> bytes result" where
  "download_fragment pdu_length fragment response =
     bindE (guardE (\<not> len response > pdu_length) (RuntimeError ''download fragment exceeded negotiated PDU'')) (\<lambda>_.
     bindE (unpack2 (slice 6 8 response)) (\<lambda>parameter_length.
     bindE (unpack2 (slice 8 10 response)) (\<lambda>data_length.
     let parameters = slice 12 (12 + nat parameter_length) response;
         data = slice (12 + nat parameter_length) (12 + nat parameter_length + nat data_length) response in
     bindE (unpack2 (slice 4 6 response)) (\<lambda>reference.
     bindE (if reference \<noteq> fragment then Inr True else bindE (at parameters 0) (\<lambda>f. Inr (f \<noteq> 0x1b))) (\<lambda>wrong.
     bindE (guardE (\<not> wrong) (RuntimeError ''invalid download-fragment response'')) (\<lambda>_.
     bindE (unpack2 (take 2 data)) (\<lambda>declared.
     bindE (guardE (\<not> (slice 2 4 data \<noteq> [0, 0xfb] \<or> declared \<noteq> len data - 4)) (RuntimeError ''invalid download-fragment data header'')) (\<lambda>_.
       Inr (drop 4 data)))))))))"

text \<open>
  The loop until enough octets arrived. A fragment may be empty, so only the sixteen-bit reference bounds the
  rounds: after \<open>0x9000\<close> of them \<^verbatim>\<open>_s7_job\<close> raises \<^verbatim>\<open>struct.error\<close>, which ends the loop.
\<close>

function download_loop :: "int \<Rightarrow> int \<Rightarrow> bytes \<Rightarrow> int \<Rightarrow> (net, int \<times> bytes) prog" where
  "download_loop pdu_length amount received fragment =
     (if len received < amount then
        (case download_job fragment 0x1b of
           Inl e \<Rightarrow> raise e
         | Inr job \<Rightarrow>
             thenM (send_s7 (Inr job))
             (bindM receive_s7 (\<lambda>response.
              bindM (liftE (download_fragment pdu_length fragment response)) (\<lambda>data.
                download_loop pdu_length amount (received @ data) (fragment + 1)))))
      else ret (fragment, received))"
  by pat_completeness auto

lemma download_job_bound: "download_job fragment f = Inr job \<Longrightarrow> 0 \<le> fragment \<and> fragment < 65536"
  using packet_bounds[of 1 fragment] by (auto simp: download_job_def s7_job_packet)

termination download_loop
  by (relation "measure (\<lambda>(pdu_length, amount, received, fragment). nat (65536 - fragment))")
    (auto dest: download_job_bound)

declare download_loop.simps [simp del]

definition serve_plc_driven_download :: "bytes \<Rightarrow> int \<Rightarrow> (net, exn list) prog" where
  "serve_plc_driven_download expected pdu_length = serving
     (thenM (classic_handshake pdu_length)
     (bindM receive_s7 (\<lambda>opening.
      bindM (liftE (unpack2 (slice 4 6 opening))) (\<lambda>reference.
      thenM (send_s7 (s7_response reference [0x1a] []))
     (bindM (download_loop pdu_length (len expected) [] 0x7000) (\<lambda>(fragment, received).
      thenM (expect (received = expected) ''downloaded block data mismatch'')
     (thenM (send_s7 (download_job fragment 0x1c))
     (bindM receive_s7 (\<lambda>ended.
      thenM (expect (drop 12 ended = [0x1c]) ''invalid download-ended response'')
     (bindM receive_s7 (\<lambda>insertion.
      bindM (liftE (unpack2 (slice 4 6 insertion))) (\<lambda>insert_reference.
      thenM (expect (contains [0x5f, 0x49, 0x4e, 0x53, 0x45] insertion) ''download did not insert the transferred block'')
        (send_s7 (s7_response insert_reference [0x28] []))))))))))))))"

definition serve_interrupted_download :: "(net, exn list) prog" where
  "serve_interrupted_download = collects (with_session 480
     (bindM receive_s7 (\<lambda>opening.
      thenM (send_s7 (s7_response (reference_of opening) [0x1a] []))
     (thenM (send_s7 (download_job 0x7000 0x1b))
     (bindM receive_s7 (\<lambda>response.
      expect (slice 12 13 response = [0x1b]) ''interrupted download returned an invalid fragment''))))))"

definition expect_download_rejection :: "(net, unit) prog" where
  "expect_download_rejection =
     bindM (attempt receive_tpkt) (\<lambda>r. case r of
       Inl e \<Rightarrow> if e = ConnectionResetError \<or> e = RuntimeError ''peer closed an incomplete test frame'' then ret () else raise e
     | Inr frame \<Rightarrow> expect (\<not> (2 \<le> length frame \<and> frame ! 1 = 0xf0)) ''client accepted malformed download job'')"

definition malformed_download_job :: "string \<Rightarrow> bytes result" where
  "malformed_download_job mutation =
     (let parameters = download_params 0x1b 7 in
      s7_job 0x7000
        (if mutation = ''wrong-block'' then parameters[16 := 0x38]
         else if mutation = ''reserved'' then parameters[1 := 1]
         else if mutation = ''truncated'' then butlast parameters
         else parameters)
        (if mutation = ''data'' then [1] else []))"

definition serve_malformed_download_service :: "string \<Rightarrow> (net, exn list) prog" where
  "serve_malformed_download_service mutation = collects (with_session 480
     (bindM receive_s7 (\<lambda>opening. let reference = reference_of opening in
      thenM (if mutation = ''ack-extra'' then send_s7 (s7_response reference [0x1a, 0] [])
             else if mutation = ''ack-data'' then send_s7 (s7_response reference [0x1a] [1])
             else thenM (send_s7 (s7_response reference [0x1a] [])) (send_s7 (malformed_download_job mutation)))
        expect_download_rejection)))"

text \<open>The same loop with the looser checks of the phase peer.\<close>

function phase_loop :: "bytes \<Rightarrow> int \<Rightarrow> (net, int) prog" where
  "phase_loop received fragment =
     (if length received < 636 then
        (case download_job fragment 0x1b of
           Inl e \<Rightarrow> raise e
         | Inr job \<Rightarrow>
             thenM (send_s7 (Inr job))
             (bindM receive_s7 (\<lambda>response.
              bindM (liftE (if reference_of response \<noteq> fragment then Inr True
                            else bindE (at response 12) (\<lambda>f. Inr (f \<noteq> 0x1b)))) (\<lambda>wrong.
              thenM (expect (\<not> wrong) ''invalid response to valid download request'')
                (phase_loop (received @ drop 4 (drop (12 + nat (be_int (slice 6 8 response))) response)) (fragment + 1))))))
      else ret fragment)"
  by pat_completeness auto

termination phase_loop
  by (relation "measure (\<lambda>(received, fragment). nat (65536 - fragment))") (auto dest: download_job_bound)

declare phase_loop.simps [simp del]

definition serve_invalid_download_phase :: "string \<Rightarrow> (net, exn list) prog" where
  "serve_invalid_download_phase mutation = collects (with_session 480
     (bindM receive_s7 (\<lambda>opening.
      thenM (send_s7 (s7_response (reference_of opening) [0x1a] []))
     (thenM (if mutation = ''early-ended'' then send_s7 (download_job 0x7000 0x1c)
             else bindM (phase_loop [] 0x7000) (\<lambda>fragment. send_s7 (download_job fragment 0x1b)))
       expect_download_rejection))))"

definition download_mutations :: "string list" where
  "download_mutations = [''ack-extra'', ''ack-data'', ''wrong-block'', ''reserved'', ''truncated'', ''data'', ''early-ended'', ''extra-fragment'']"

definition serve_download_rejection :: "string \<Rightarrow> (net, exn list) prog" where
  "serve_download_rejection mutation =
     (if mutation \<in> {''early-ended'', ''extra-fragment''} then serve_invalid_download_phase mutation
      else serve_malformed_download_service mutation)"

section \<open>Segmented replies\<close>

definition serve_segmented_responses :: "(net, exn list) prog" where
  "serve_segmented_responses = serving
     (bindM receive_tpkt (\<lambda>cr.
      thenM (expect (\<not> (length cr < 7 \<or> cr ! 1 \<noteq> 0xe0)) ''expected COTP connection request'')
     (thenM (send_confirm cr)
     (bindM receive_s7 (\<lambda>setup_pdu.
      bindM (liftE (unpack2 (slice 4 6 setup_pdu))) (\<lambda>setup_reference.
      bindM (liftE (setup_reply setup_reference 480)) (\<lambda>setup_response.
      thenM (send_s7_segmented setup_response 7)
     (bindM receive_s7 (\<lambda>read_pdu.
      bindM (liftE (unpack2 (slice 4 6 read_pdu))) (\<lambda>read_reference.
      bindM (liftE (s7_response read_reference [4, 1] [0xff, 4, 0, 32, 0xde, 0xad, 0xbe, 0xef])) (\<lambda>read_response.
        send_s7_segmented read_response 13)))))))))))"

section \<open>Streams that trickle, flood or stop\<close>

definition transport_cleanup :: "(net, bytes) prog" where
  "transport_cleanup = catchM (recv 1024) (\<lambda>e. if e = ConnectionResetError then ret [] else raise e)"

text \<open>Whether the connection is readable within the interval is the environment's answer, one of its signals.\<close>

fun send_trickle :: "bytes list \<Rightarrow> (net, unit) prog" where
  "send_trickle [] = ret ()"
| "send_trickle (p # ps) =
     bindM wait (\<lambda>readable. if readable then bindM transport_cleanup (\<lambda>_. ret ()) else thenM (sendall p) (send_trickle ps))"

text \<open>\<^verbatim>\<open>while _receive_transport_cleanup(connection): pass\<close>: every round takes octets off the stream.\<close>

lemma transport_cleanup_shrinks:
  assumes "(Inr c, t) = transport_cleanup s" "c \<noteq> []"
  shows "length (flat (rx t)) < length (flat (rx s))"
proof -
  obtain r a where a: "arrive 1024 (rx s) = (r, a)" by fastforce
  with assms have "r = Inr c" "t = s\<lparr>rx := a\<rparr>"
    by (auto simp: transport_cleanup_def catchM_def recv_def ret_def raise_def split: sum.splits if_splits)
  with arrive_flat[of 1024 "rx s"] a assms(2) show ?thesis by simp
qed

function drain :: "(net, unit) prog" where
  "drain s =
     (case transport_cleanup s of
        (Inl e, t) \<Rightarrow> (Inl e, t)
      | (Inr c, t) \<Rightarrow> if c = [] then (Inr (), t) else drain t)"
  by pat_completeness auto

termination drain
  by (relation "measure (\<lambda>s. length (flat (rx s)))") (auto simp: transport_cleanup_shrinks)

declare drain.simps [simp del]

definition singles_of :: "bytes \<Rightarrow> bytes list" where
  "singles_of bs = List.map (\<lambda>b. [b]) bs"

definition transport_read :: "int \<Rightarrow> bytes result" where
  "transport_read reference = s7_response reference [4, 1] [255, 4, 0, 32, 1, 2, 3, 4]"

definition transport_large :: "int \<Rightarrow> bytes result" where
  "transport_large reference = s7_response reference [4, 1] ([255, 4, 14, 112] @ replicate 462 0xaa)"

text \<open>The slow replies: what goes out at once, then the pieces.\<close>

definition drip_pieces :: "string \<Rightarrow> int \<Rightarrow> bytes \<Rightarrow> (bytes \<times> bytes list) result" where
  "drip_pieces mode reference packet' =
     (if mode = ''drip-header'' then Inr ([], singles_of packet')
      else if mode = ''drip-body'' then Inr (take 4 packet', singles_of (drop 4 packet'))
      else if mode = ''drip-segments'' then Inr ([], replicate 8 [3, 0, 0, 7, 2, 0xf0, 0] @ [packet'])
      else bindE (to_bytes 2 (reference + 1)) (\<lambda>r. Inr ([], replicate 4 (overwrite 11 13 r packet') @ [packet'])))"

text \<open>The value \<open>True\<close> is the \<^verbatim>\<open>return\<close> of the truncated header.\<close>

definition transport_reply :: "string \<Rightarrow> int \<Rightarrow> (net, bool) prog" where
  "transport_reply mode reference =
     (if mode = ''single-overflow'' then thenM (tpkt_send (cotp_data @ replicate 481 0)) (ret False)
      else if mode = ''cumulative-overflow'' then
        thenM (tpkt_send ([2, 0xf0, 0] @ replicate 300 0)) (thenM (tpkt_send ([2, 0xf0, 0] @ replicate 181 0)) (ret False))
      else if mode = ''missing-eot'' then thenM (tpkt_send ([2, 0xf0, 0] @ replicate 20 0)) (ret False)
      else if mode = ''truncated-header'' then thenM (sendall [3, 0]) (ret True)
      else if mode = ''stale-flood'' then
        bindM (liftE (transport_read (reference + 1))) (\<lambda>response.
          thenM (forM [0 :: nat, 1, 2, 3, 4] (\<lambda>_. send_s7 (Inr response))) (ret False))
      else if mode \<in> {''exact-budget'', ''fragmented-tcp''} then
        bindM (liftE (transport_large reference)) (\<lambda>response.
          thenM (if mode = ''exact-budget'' then send_s7_segmented response 300
                 else bindM (liftE (tpkt_frame (cotp_data @ response))) (\<lambda>p.
                   send_trickle [take 1 p, slice 1 3 p, slice 3 8 p, drop 8 p])) (ret False))
      else if mode \<in> {''drip-header'', ''drip-body'', ''drip-segments'', ''drip-stale''} then
        bindM (liftE (bindE (transport_read reference) (\<lambda>response. tpkt_frame (cotp_data @ response)))) (\<lambda>p.
        bindM (liftE (drip_pieces mode reference p)) (\<lambda>(at_once, pieces).
          thenM (if at_once = [] then ret () else sendall at_once) (thenM (send_trickle pieces) (ret False))))
      else raise ValueError)"

definition serve_transport_case :: "string \<Rightarrow> (net, exn list) prog" where
  "serve_transport_case mode = collects
     (bindM (accepting
       (thenM (confirm_and_setup 480)
       (bindM receive_s7 (\<lambda>req.
        bindM (transport_reply mode (reference_of req)) (\<lambda>returned.
          thenM (if returned then ret () else drain) (ret returned)))))) (\<lambda>returned.
      if \<not> returned \<and> mode = ''stale-flood'' then no_reconnect ''client retried a malformed stale-response exchange''
      else ret ()))"

definition transport_modes :: "(string \<times> string) list" where
  "transport_modes =
     [(''exact-budget'', ''accept''), (''fragmented-tcp'', ''accept''),
      (''single-overflow'', ''COTP reassembly exceeds payload limit 480''),
      (''cumulative-overflow'', ''COTP reassembly exceeds payload limit 480''), (''missing-eot'', ''socket receive timed out''),
      (''truncated-header'', ''bytes still expected''), (''stale-flood'', ''too many stale S7 responses''),
      (''drip-header'', ''socket receive timed out''), (''drip-body'', ''socket receive timed out''),
      (''drip-segments'', ''socket receive timed out''), (''drip-stale'', ''socket receive timed out'')]"

section \<open>Properties\<close>

lemma one_of_five:
  "\<lbrakk>m \<in> {a, b, c, d, e}; m = a \<Longrightarrow> P; m = b \<Longrightarrow> P; m = c \<Longrightarrow> P; m = d \<Longrightarrow> P; m = e \<Longrightarrow> P\<rbrakk> \<Longrightarrow> P"
  by blast

text \<open>A fault in the connection confirm is the one its mode names and nothing else: the confirm keeps its length and
  every octet outside the named place, and the wrong reference is really another one. Every mode the driver lists has
  such a fault.\<close>
lemma wrong_confirm_local:
  assumes "confirm cr = Inr cc" "mode \<in> set (List.map fst handshake_modes)" "8 \<le> length cr"
  shows "\<exists>bad. wrong_confirm mode cr cc = Inr bad \<and> length bad = length cc
    \<and> (\<forall>i < length cc. bad ! i \<noteq> cc ! i \<longrightarrow>
         mode = ''wrong-reference'' \<and> i \<in> {2, 3} \<or> mode = ''wrong-class'' \<and> i = 6
         \<or> mode \<in> {''oversized-tpdu'', ''pdu-exceeds-tpdu''} \<and> i = length cc - 1)
    \<and> (mode = ''wrong-reference'' \<longrightarrow> slice 2 4 bad \<noteq> slice 2 4 cc)"
proof -
  have cc: "cc = [0x11, 0xd0, cr ! 4, cr ! 5, 0, 1, 0] @ drop 7 cr"
    using assms(1,3) by (auto simp: confirm_def)
  define n where "n = (be_int (slice 4 6 cr) + 1) mod 65536"
  have ref: "slice 2 4 cc = slice 4 6 cr"
  proof -
    have "slice 4 6 cr = [cr ! 4, cr ! 5]"
      using assms(3) by (intro nth_equalityI) (auto simp: length_slice slice_def less_Suc_eq numeral_2_eq_2)
    then show ?thesis by (simp add: cc slice_def)
  qed
  have "be_int (be_bytes 2 n) = n" by (rule be_int_2) (simp_all add: n_def)
  moreover have "n \<noteq> be_int (slice 4 6 cr)"
  proof -
    have l: "length (slice 4 6 cr) = 2" using assms(3) by (simp add: length_slice)
    have b: "0 \<le> be_int (slice 4 6 cr)" "be_int (slice 4 6 cr) < 65536"
      using be_int_nonneg be_int_bound[of "slice 4 6 cr"] l by simp_all
    show ?thesis
    proof (cases "be_int (slice 4 6 cr) = 65535")
      case False
      then have "n = be_int (slice 4 6 cr) + 1" using b by (simp add: n_def)
      then show ?thesis by simp
    qed (simp add: n_def)
  qed
  ultimately have other: "be_bytes 2 n \<noteq> slice 2 4 cc" unfolding ref by metis
  have wr: "wrong_confirm ''wrong-reference'' cr cc = Inr (overwrite 2 4 (be_bytes 2 n) cc)"
    by (simp add: wrong_confirm_def n_def del: be_bytes_numeral)
  have two: "\<exists>x y. be_bytes 2 n = [x, y]" by simp
  then obtain x y where xy: "be_bytes 2 n = [x, y]" by blast
  have bad: "overwrite 2 4 (be_bytes 2 n) cc = cc[2 := x, 3 := y]"
    unfolding xy by (simp add: overwrite_def cc numeral_2_eq_2 numeral_3_eq_3)
  have "slice 2 4 (cc[2 := x, 3 := y]) = be_bytes 2 n"
    unfolding xy by (simp add: slice_def cc numeral_2_eq_2 numeral_3_eq_3)
  then have moved: "slice 2 4 (cc[2 := x, 3 := y]) \<noteq> slice 2 4 cc" using other by simp
  have keep: "xs[k := v] ! i = xs ! i" if "i \<noteq> k" for xs :: bytes and k v i using that by simp
  have "mode \<in> {''wrong-reference'', ''wrong-class'', ''oversized-tpdu'', ''pdu-too-small'', ''pdu-exceeds-tpdu''}"
    using assms(2) by (simp add: handshake_modes_def)
  then consider "mode = ''wrong-reference''" | "mode = ''wrong-class''" | "mode = ''oversized-tpdu''"
      | "mode = ''pdu-too-small''" | "mode = ''pdu-exceeds-tpdu''"
    by (rule one_of_five)
  then show ?thesis
  proof cases
    case 1
    have w: "wrong_confirm mode cr cc = Inr (cc[2 := x, 3 := y])" using 1 wr bad by simp
    have "\<forall>i < length cc. cc[2 := x, 3 := y] ! i \<noteq> cc ! i \<longrightarrow> i \<in> {2, 3}" using keep by fastforce
    then show ?thesis unfolding w using 1 moved by simp
  next
    case 2
    have w: "wrong_confirm mode cr cc = Inr (cc[6 := 1])" using 2 by (simp add: wrong_confirm_def)
    have "\<forall>i < length cc. cc[6 := 1] ! i \<noteq> cc ! i \<longrightarrow> i = 6" using keep by blast
    then show ?thesis unfolding w using 2 by simp
  next
    case 3
    have w: "wrong_confirm mode cr cc = Inr (cc[length cc - 1 := 0x0b])" using 3 by (simp add: wrong_confirm_def)
    have "\<forall>i < length cc. cc[length cc - 1 := 0x0b] ! i \<noteq> cc ! i \<longrightarrow> i = length cc - 1" using keep by blast
    then show ?thesis unfolding w using 3 by simp
  next
    case 4
    have w: "wrong_confirm mode cr cc = Inr cc" using 4 by (simp add: wrong_confirm_def)
    show ?thesis unfolding w using 4 by simp
  next
    case 5
    have w: "wrong_confirm mode cr cc = Inr (cc[length cc - 1 := 8])" using 5 by (simp add: wrong_confirm_def)
    have "\<forall>i < length cc. cc[length cc - 1 := 8] ! i \<noteq> cc ! i \<longrightarrow> i = length cc - 1" using keep by blast
    then show ?thesis unfolding w using 5 by simp
  qed
qed

lemma error_octets: "be_int [byte (e div 256 mod 256), byte (e mod 256)] = e mod 65536"
proof -
  have "e mod (256 * 256) = 256 * (e div 256 mod 256) + e mod 256" by (rule zmod_zmult2_eq) simp
  then show ?thesis by (simp add: uint_byte)
qed

lemma userdata_pdu:
  assumes "userdata_response reference grp subfunction content declared fragment has_more error_code = Inr pdu"
    and "0 \<le> grp" "grp < 16"
  defines "n \<equiv> (case declared of None \<Rightarrow> len content | Some n \<Rightarrow> n)"
  shows "pdu = [0x32, 7, 0, 0] @ be_bytes 2 reference @ be_bytes 2 12 @ be_bytes 2 (4 + len content)
      @ [0, 1, 0x12, 8, 0x12, byte (128 + grp), byte subfunction, byte fragment, 0, of_bool has_more,
         byte (error_code div 256 mod 256), byte (error_code mod 256)]
      @ [0xff, 9] @ be_bytes 2 n @ content"
    and "0 \<le> reference" "reference < 65536" "0 \<le> subfunction" "subfunction < 256" "0 \<le> n" "n < 65536" "length content + 4 < 65536"
proof -
  obtain ps data where pd: "bytes_of [0, 1, 0x12, 8, 0x12, or 0x80 grp, subfunction, fragment, 0, of_bool has_more,
         error_code div 256 mod 256, error_code mod 256] = Inr ps"
      "concatE [Inr [0xff, 9], to_bytes 2 n, Inr content] = Inr data" "packet 7 reference ps data = Inr pdu"
    using assms(1) by (auto simp: userdata_response_def n_def simp del: be_bytes_numeral)
  note b = packet_bounds[OF pd(3)]
  have data: "data = [0xff, 9] @ be_bytes 2 n @ content" and n: "0 \<le> n" "n < 65536" using pd(2) by (auto simp del: be_bytes_numeral)
  have ps: "ps = [0, 1, 0x12, 8, 0x12, byte (128 + grp), byte subfunction, byte fragment, 0, of_bool has_more,
         byte (error_code div 256 mod 256), byte (error_code mod 256)]"
    using pd(1) or_128[OF assms(2,3)] by (cases has_more) (auto simp: bytes_of_Inr_iff byte_def)
  show "0 \<le> reference" "reference < 65536" "0 \<le> n" "n < 65536" using b n by simp_all
  show "0 \<le> subfunction" "subfunction < 256" using pd(1) by (simp_all add: bytes_of_Inr_iff)
  show "length content + 4 < 65536" using b(6) by (simp add: data del: be_bytes_numeral)
  show "pdu = [0x32, 7, 0, 0] @ be_bytes 2 reference @ be_bytes 2 12 @ be_bytes 2 (4 + len content)
      @ [0, 1, 0x12, 8, 0x12, byte (128 + grp), byte subfunction, byte fragment, 0, of_bool has_more,
         byte (error_code div 256 mod 256), byte (error_code mod 256)]
      @ [0xff, 9] @ be_bytes 2 n @ content"
  proof -
    have "byte 50 = 50" "byte 7 = 7" by (simp_all add: byte_def)
    then show ?thesis using packet_ok[OF b] pd(3) by (simp add: data ps len_def del: be_bytes_numeral)
  qed
qed

text \<open>What the emulated PLC sends as a USER_DATA reply is read back by the management oracle: a reply without an
  error code and with its true length is accepted with that payload, fragment number and continuation flag, a reply with
  an error code is a PLC rejection, and a reply whose declared length is not the length of its payload is a protocol error.\<close>

lemma userdata_response_read:
  assumes "userdata_response reference grp subfunction content declared fragment has_more error_code = Inr pdu"
    and "0 \<le> grp" "grp < 16"
  shows "mgmt_decode pdu reference grp subfunction =
     (if error_code mod 65536 \<noteq> 0 then Reject PlcRejected
      else if declared \<noteq> None \<and> declared \<noteq> Some (len content) then Reject ProtocolError
      else Accept \<lparr>rb_payload = content, rb_sequence = byte fragment, rb_unit = 0, rb_more = has_more, rb_code = 255,
             rb_transport = 9\<rparr>)"
proof -
  define n where "n = (case declared of None \<Rightarrow> len content | Some n \<Rightarrow> n)"
  note u = userdata_pdu[OF assms, folded n_def]
  have two: "\<exists>x y. be_bytes 2 v = [x, y]" for v by simp
  obtain r0 r1 where r: "be_bytes 2 reference = [r0, r1]" using two by blast
  obtain p0 p1 where p: "be_bytes 2 12 = [p0, p1]" using two by blast
  obtain d0 d1 where d: "be_bytes 2 (4 + len content) = [d0, d1]" using two by blast
  obtain n0 n1 where nn: "be_bytes 2 n = [n0, n1]" using two by blast
  have v: "be_int [r0, r1] = reference" "be_int [p0, p1] = 12" "be_int [d0, d1] = 4 + len content" "be_int [n0, n1] = n"
    using be_int_2[of reference] be_int_2[of 12] be_int_2[of "4 + len content"] be_int_2[of n] u(2,3,6-8) r p d nn
    by (simp_all add: len_def del: be_bytes_numeral be_int_Cons)
  have nb: "drop_bit 4 (uint (byte (128 + grp))) = 8" "and (uint (byte (128 + grp))) 15 = grp"
    "uint (byte subfunction) = subfunction"
    using nibbles[of "byte (128 + grp)" grp] assms(2,3) u(4,5) by (simp_all add: uint_byte_id)
  have e: "be_int [byte (error_code div 256 mod 256), byte (error_code mod 256)] = error_code mod 65536" by (rule error_octets)
  have flag: "of_bool has_more \<in> {0, 1 :: byte}" "(of_bool has_more :: byte) \<noteq> 0 \<longleftrightarrow> has_more" by (cases has_more; simp)+
  have code: "\<not> null_ack 255 grp subfunction" by (simp add: null_ack_def)
  have l: "nat (4 + len content) = 4 + length content" "nat 12 = (12 :: nat)" by (simp_all add: len_def)
  have dec: "mgmt_decode pdu reference grp subfunction =
      (if error_code mod 65536 \<noteq> 0 then Reject PlcRejected
       else if length content \<noteq> nat n then Reject ProtocolError
       else Accept \<lparr>rb_payload = content, rb_sequence = byte fragment, rb_unit = 0, rb_more = has_more, rb_code = 255,
             rb_transport = 9\<rparr>)"
  proof -
    define ps where "ps = [0, 1, 0x12, 8, 0x12, byte (128 + grp), byte subfunction, byte fragment, 0, of_bool has_more,
         byte (error_code div 256 mod 256), byte (error_code mod 256)]"
    have pdu: "pdu = [0x32, 7, 0, 0, r0, r1, p0, p1, d0, d1] @ ps @ [0xff, 9, n0, n1] @ content"
      unfolding u(1) r p d nn ps_def by simp
    have lps: "length ps = 12" by (simp add: ps_def)
    have fields: "pdu ! 0 = 0x32" "pdu ! Suc 0 = 7" "slice 4 6 pdu = [r0, r1]" "slice 6 8 pdu = [p0, p1]" "slice 8 10 pdu = [d0, d1]"
        "slice 10 22 pdu = ps" "drop 22 pdu = [0xff, 9, n0, n1] @ content" "length pdu = 26 + length content"
      unfolding pdu slice_def using lps by simp_all
    have parts: "take 5 ps = [0, 1, 0x12, 8, 0x12]" "ps ! 5 = byte (128 + grp)" "ps ! 6 = byte subfunction"
        "ps ! 7 = byte fragment" "ps ! 8 = 0" "ps ! 9 = of_bool has_more"
        "slice 10 12 ps = [byte (error_code div 256 mod 256), byte (error_code mod 256)]"
      by (simp_all add: ps_def slice_def)
    have body: "decode_data ps ([0xff, 9, n0, n1] @ content) grp subfunction =
        (if length content \<noteq> nat n then Reject ProtocolError
         else Accept \<lparr>rb_payload = content, rb_sequence = byte fragment, rb_unit = 0, rb_more = has_more, rb_code = 255,
             rb_transport = 9\<rparr>)"
    proof -
      have "slice 2 4 ([0xff, 9, n0, n1] @ content) = [n0, n1]" by (simp add: slice_def)
      then show ?thesis using v(4) flag code by (simp add: decode_data_def Let_def parts del: be_int_Cons)
    qed
    have heads: "\<not> length pdu < 10" "be_int (slice 4 6 pdu) = reference" "nat (be_int (slice 6 8 pdu)) = 12"
        "nat (be_int (slice 8 10 pdu)) = 4 + length content"
      using fields v l by simp_all
    show ?thesis
      unfolding mgmt_decode_def Let_def heads fields parts e nb body using flag(1)
      by (simp add: heads fields parts e nb body v l del: be_int_Cons)
  qed
  have "length content \<noteq> nat n \<longleftrightarrow> declared \<noteq> None \<and> declared \<noteq> Some (len content)"
    using u(6) by (cases declared) (auto simp: n_def len_def)
  with dec show ?thesis by simp
qed

lemma s7_response_Inl: "s7_response r p d = Inl e \<Longrightarrow> e = StructError"
  unfolding s7_response_def by (drule concatE_Inl) (auto dest: pack_Inl sym)

lemma raises_send_s7 [raise_intros]: "sturdy P \<Longrightarrow> (\<And>e. p = Inl e \<Longrightarrow> P e) \<Longrightarrow> raises_only P (send_s7 p)"
  unfolding send_s7_def by (intro raise_intros)

lemma raises_segmented [raise_intros]: "sturdy P \<Longrightarrow> raises_only P (send_s7_segmented p n)"
  unfolding send_s7_segmented_def by (intro raise_intros)

lemma raises_transport_cleanup [raise_intros]: "sturdy P \<Longrightarrow> raises_only P transport_cleanup"
proof -
  assume "sturdy P"
  have c: "raises_only P (if e = ConnectionResetError then ret [] else raise e)" if "P e" for e :: exn
    using that by (auto intro: raise_intros)
  show ?thesis unfolding transport_cleanup_def by (intro raise_intros c \<open>sturdy P\<close>)
qed

lemma raises_send_trickle [raise_intros]: "sturdy P \<Longrightarrow> raises_only P (send_trickle ps)"
proof (induction ps)
  case (Cons p ps)
  then show ?case unfolding send_trickle.simps by (intro raise_intros) auto
qed (simp add: raise_intros)

lemma transport_reply_raises:
  assumes "mode \<in> set (List.map fst transport_modes)"
  shows "raises_only (\<lambda>e. e \<noteq> ValueError) (transport_reply mode reference)"
proof -
  have e: "e \<noteq> ValueError" if "s7_response r p d = Inl e" for e r p d using s7_response_Inl[OF that] by simp
  have f: "e \<noteq> ValueError" if "tpkt_frame p = Inl e" for e p using tpkt_frame_Inl[OF that] by simp
  have p: "e \<noteq> ValueError" if "drip_pieces mode reference bs = Inl e" for e bs
    using that by (auto simp: drip_pieces_def bindE_Inl_iff to_bytes_def split: if_splits)
  have ef: "e \<noteq> ValueError" if "bindE (s7_response r p d) (\<lambda>response. tpkt_frame (x @ response)) = Inl e" for e r p d x
    using that by (auto simp: bindE_Inl_iff dest: s7_response_Inl tpkt_frame_Inl)
  note faults = e[unfolded transport_read_def] p f ef
  have "mode \<in> {''exact-budget'', ''fragmented-tcp'', ''single-overflow'', ''cumulative-overflow'', ''missing-eot'',
      ''truncated-header'', ''stale-flood''} \<or> mode \<in> {''drip-header'', ''drip-body'', ''drip-segments'', ''drip-stale''}"
    using assms by (auto simp: transport_modes_def)
  then show ?thesis
  proof
    assume "mode \<in> {''exact-budget'', ''fragmented-tcp'', ''single-overflow'', ''cumulative-overflow'', ''missing-eot'',
      ''truncated-header'', ''stale-flood''}"
    then show ?thesis
      apply (elim insertE emptyE)
      apply (simp_all add: transport_reply_def transport_read_def transport_large_def)
      apply (intro raise_intros; (erule e f)?; simp)+
      done
  next
    assume "mode \<in> {''drip-header'', ''drip-body'', ''drip-segments'', ''drip-stale''}"
    then have "transport_reply mode reference =
        bindM (liftE (bindE (transport_read reference) (\<lambda>response. tpkt_frame (cotp_data @ response)))) (\<lambda>p.
        bindM (liftE (drip_pieces mode reference p)) (\<lambda>v.
          thenM (if fst v = [] then ret () else sendall (fst v)) (thenM (send_trickle (snd v)) (ret False))))"
      by (elim insertE emptyE) (simp_all add: transport_reply_def case_prod_unfold)
    then show ?thesis unfolding transport_read_def
      by (simp only:) (intro raise_intros; (erule ef p)?; simp)
  qed
qed

lemma userdata_response_read_example:
  "\<exists>pdu. userdata_response 5 4 1 [4, 36, 0, 0] None 3 True 0 = Inr pdu
    \<and> mgmt_decode pdu 5 4 1 = Accept \<lparr>rb_payload = [4, 36, 0, 0], rb_sequence = 3, rb_unit = 0, rb_more = True,
         rb_code = 255, rb_transport = 9\<rparr>"
proof -
  define pdu :: bytes where "pdu = [50, 7, 0, 0, 0, 5, 0, 12, 0, 8, 0, 1, 18, 8, 18, 132, 1, 3, 0, 1, 0, 0, 255, 9, 0, 4, 4, 36, 0, 0]"
  have r: "userdata_response 5 4 1 [4, 36, 0, 0] None 3 True 0 = Inr pdu" unfolding pdu_def by code_simp
  from userdata_response_read[OF r] have "mgmt_decode pdu 5 4 1 = Accept \<lparr>rb_payload = [4, 36, 0, 0], rb_sequence = byte 3, rb_unit = 0,
      rb_more = True, rb_code = 255, rb_transport = 9\<rparr>" by simp
  then show ?thesis using r by (simp add: byte_def)
qed

lemma wrong_confirm_local_example:
  "\<exists>cc bad. confirm [17, 224, 0, 0, 0, 1, 0, 192, 1, 10] = Inr cc \<and> wrong_confirm ''wrong-reference'' [17, 224, 0, 0, 0, 1, 0, 192, 1, 10] cc = Inr bad
     \<and> length bad = length cc \<and> slice 2 4 bad \<noteq> slice 2 4 cc"
proof -
  define cr :: bytes where "cr = [17, 224, 0, 0, 0, 1, 0, 192, 1, 10]"
  have cc: "confirm cr = Inr ([17, 208, 0, 1, 0, 1, 0] @ [192, 1, 10])" by (simp add: confirm_def cr_def)
  have m: "''wrong-reference'' \<in> set (List.map fst handshake_modes)" by (simp add: handshake_modes_def)
  from wrong_confirm_local[OF cc m] cc show ?thesis unfolding cr_def by auto
qed

text \<open>Every case a driver runs is implemented by its peer: no listed mode falls through to the unknown-case error.\<close>

lemma driver_modes_known:
  "(\<forall>mode \<in> set (List.map fst handshake_modes). \<forall>cr cc. wrong_confirm mode cr cc \<noteq> Inl ValueError)
   \<and> (\<forall>mode \<in> set (List.map fst service_modes). szl_reply mode 0 \<noteq> None \<or> mode \<in> {''szl-plc-error'', ''szl-endless-fragments''}
        \<or> take 7 mode = ''upload-'' \<and> (upload_reply mode \<noteq> None \<or> mode \<in> {''upload-midstream-short'', ''upload-midstream-overflow''}))
   \<and> (\<forall>mode \<in> set (List.map fst transport_modes). \<forall>reference s. fst (transport_reply mode reference s) \<noteq> Inl ValueError)"
proof (intro conjI)
  show "\<forall>mode \<in> set (List.map fst handshake_modes). \<forall>cr cc. wrong_confirm mode cr cc \<noteq> Inl ValueError"
    by (simp add: handshake_modes_def wrong_confirm_def)
  show "\<forall>mode \<in> set (List.map fst service_modes). szl_reply mode 0 \<noteq> None \<or> mode \<in> {''szl-plc-error'', ''szl-endless-fragments''}
        \<or> take 7 mode = ''upload-'' \<and> (upload_reply mode \<noteq> None \<or> mode \<in> {''upload-midstream-short'', ''upload-midstream-overflow''})"
    unfolding list_all_iff [symmetric] by code_simp
  show "\<forall>mode \<in> set (List.map fst transport_modes). \<forall>reference s. fst (transport_reply mode reference s) \<noteq> Inl ValueError"
  proof (intro ballI allI notI)
    fix mode reference s
    assume m: "mode \<in> set (List.map fst transport_modes)"
    assume f: "fst (transport_reply mode reference s) = Inl ValueError"
    obtain t where "transport_reply mode reference s = (Inl ValueError, t)" using f by (metis prod.collapse)
    with transport_reply_raises[OF m, of reference] show False unfolding raises_only_def by blast
  qed
qed

end
