(* ===== verification/Mixed.thy ===== *)
theory Mixed
  imports Overlap
begin

text \<open>
  \<^verbatim>\<open>mixed_operations.py\<close>: plans of one-letter operations, the peer that serves them
  across reconnects, rejections and terminal failures, and what a campaign reports when a
  plan fails. The campaigns of \<^verbatim>\<open>boundary_operations.py\<close> and
  \<^verbatim>\<open>overlap_operations.py\<close> report the same way.
\<close>

section \<open>Requests\<close>

definition mixed_spec :: "int \<Rightarrow> bytes result" where
  "mixed_spec start_octet = concatE [Inr [0x12, 0x0a, 0x10, 2, 0, 1, 0, 1, 0x84], to_bytes 3 (start_octet * 8)]"

definition mixed_value :: "nat \<Rightarrow> byte" where
  "mixed_value index = byte ((int index * 17 + 3) mod 256)"

definition mixed_parameters :: "char \<Rightarrow> nat \<Rightarrow> bytes result" where
  "mixed_parameters op' index =
     (let two = op' \<in> set ''mn''; first = 10 + int index
      in concatE [Inr [if op' \<in> set ''wnxd'' then 5 else 4, if two then 2 else 1], mixed_spec first,
           if two then mixed_spec (if op' = CHR ''m'' then first + 1 else first) else Inr []])"

definition mixed_data :: "char \<Rightarrow> nat \<Rightarrow> bytes" where
  "mixed_data op' index =
     (if op' \<in> set ''wnxd'' then [0, 4, 0, 8, mixed_value index] else [])
     @ (if op' = CHR ''n'' then [0, 0, 4, 0, 8, byte ((uint (mixed_value index) + 1) mod 256)] else [])"

definition mixed_check :: "bytes \<Rightarrow> char \<Rightarrow> nat \<Rightarrow> unit result" where
  "mixed_check request op' index =
     bindE (mixed_parameters op' index) (\<lambda>parameters.
     bindE (packet 1 0 parameters (mixed_data op' index)) (\<lambda>expected.
       guardE (same_masked request expected) (RuntimeError ''mixed wire oracle mismatch'')))"

section \<open>The peer\<close>

definition mixed_accept :: "(net, unit) prog" where
  "mixed_accept = thenM accept (catchM plain_handshake (\<lambda>e. if caught e then thenM close (raise e) else raise e))"

definition mixed_answer :: "char \<Rightarrow> nat \<Rightarrow> int \<Rightarrow> bytes result" where
  "mixed_answer op' index reference =
     (let value = mixed_value index in
      if op' = CHR ''z'' then ack reference [5, 1] [0xff]
      else if op' = CHR ''x'' then bindE (ack reference [5, 1] []) (\<lambda>p. Inr (overwrite 10 12 [0x81, 4] p))
      else if op' \<in> set ''wmnd'' then
        (if op' = CHR ''m'' then ack reference [4, 2] [0xff, 4, 0, 8, value, 0, 5, 0, 0, 0]
         else ack reference [5, if op' = CHR ''n'' then 2 else 1] (if op' = CHR ''n'' then [0xff, 5] else [0xff]))
      else ack reference [4, 1] [0xff, 4, 0, 8, value])"

definition mixed_reconnect :: "(net, bool) prog" where
  "mixed_reconnect =
     bindM receive (\<lambda>frame. thenM (expect (is_disconnect frame) ''mixed reconnect omitted disconnect'')
     (thenM close (thenM mixed_accept (ret False))))"

definition mixed_retry :: "char \<Rightarrow> nat \<Rightarrow> (net, bytes) prog" where
  "mixed_retry op' index =
     thenM close (thenM mixed_accept (bindM take_request (\<lambda>request.
       thenM (liftE (mixed_check request op' index)) (ret request))))"

definition mixed_drop :: "(net, bool) prog" where
  "mixed_drop = thenM (note_io Shutdown) (thenM close
     (thenM (no_reconnect ''mixed lost write acknowledgement was replayed'') (ret True)))"

text \<open>After a malformed reply the client may only disconnect, once, or let the connection break.\<close>

definition mixed_poisoned :: "(net, unit) prog" where
  "mixed_poisoned =
     bindM (attempt receive) (\<lambda>r. case r of
       Inl e \<Rightarrow>
         (case e of
            ConnectionResetError \<Rightarrow> ret ()
          | RuntimeError msg \<Rightarrow> if contains ''closed an incomplete frame'' msg then ret () else raise e
          | _ \<Rightarrow> raise e)
     | Inr frame \<Rightarrow>
         thenM (expect (is_disconnect frame) ''mixed malformed reply allowed later IO'')
         (bindM last_octet (\<lambda>unexpected. expect (unexpected = []) ''mixed malformed reply allowed IO after DR'')))"

definition mixed_step :: "nat \<times> char \<Rightarrow> (net, bool) prog" where
  "mixed_step = (\<lambda>(index, op').
     if op' = CHR ''c'' then mixed_reconnect
     else bindM take_request (\<lambda>request.
       thenM (liftE (mixed_check request op' index))
       (bindM (if op' = CHR ''R'' then mixed_retry op' index else ret request) (\<lambda>request.
        if op' = CHR ''d'' then mixed_drop
        else thenM (reply (mixed_answer op' index (reference_of request)))
          (if op' = CHR ''z'' then thenM mixed_poisoned (ret True) else ret False)))))"

definition mixed_serve :: "string \<Rightarrow> (net, exn list) prog" where
  "mixed_serve plan =
     finallyM
       (collects (thenM mixed_accept (bindM (loopM mixed_step (zip [0..<length plan] plan)) (\<lambda>returned.
          unless returned (final_disconnect ''mixed plan did not terminate with disconnect'')))))
       close"

definition mixed_case :: "process \<Rightarrow> bool \<Rightarrow> ustr list \<Rightarrow> ustr option" where
  "mixed_case outcome alive errors =
     verdict [Native_exit ''native: process timeout'', Peer_alive, Peer_errors] outcome alive errors"

definition mixed_plan :: "draws \<Rightarrow> nat \<Rightarrow> string" where
  "mixed_plan d index =
     shuffle d ''rwmnxRc'' @ List.map (\<lambda>k. choice_of ''rwmnx'' (d (6 + k))) [0..<8] @ (if index mod 2 = 0 then ''z'' else ''d'')"

section \<open>Campaigns\<close>

text \<open>
  A campaign runs its plans until one fails and then reports the plan, a reduced plan and the failure.
  Running a plan involves the client, which is a parameter.
\<close>

type_synonym 'p report = "'p list \<times> 'p list \<times> ustr"

fun campaign :: "(('p list \<Rightarrow> bool) \<Rightarrow> 'p list \<Rightarrow> 'p list result) \<Rightarrow> ('p list \<Rightarrow> ustr option) \<Rightarrow> 'p list list
    \<Rightarrow> 'p report option result" where
  "campaign reduce run_case [] = Inr None"
| "campaign reduce run_case (plan # plans) =
     (case run_case plan of
        None \<Rightarrow> campaign reduce run_case plans
      | Some failure \<Rightarrow> bindE (reduce (\<lambda>candidate. run_case candidate = Some failure) plan) (\<lambda>reduced.
          Inr (Some (plan, reduced, failure))))"

definition run_mixed :: "(string \<Rightarrow> ustr option) \<Rightarrow> draws list \<Rightarrow> char report option result" where
  "run_mixed run_case streams =
     campaign (\<lambda>fails. minimize fails 12) run_case (List.map (\<lambda>(index, d). mixed_plan d index) (zip [0..<length streams] streams))"

definition run_boundary :: "(int \<Rightarrow> boundary_op list \<Rightarrow> ustr option) \<Rightarrow> draws list \<Rightarrow> int \<Rightarrow> boundary_op report option result" where
  "run_boundary run_case streams pdu =
     campaign (\<lambda>fails. reduce_plan fails 12) (run_case pdu)
       (List.map (\<lambda>(d, terminal). boundary_generate d pdu terminal) (zip streams [''q'', ''u'', ''z'', ''d'']))"

definition run_overlap :: "(int \<Rightarrow> overlap_op list \<Rightarrow> ustr option) \<Rightarrow> draws list \<Rightarrow> int \<Rightarrow> overlap_op report option result" where
  "run_overlap run_case streams pdu =
     campaign (\<lambda>fails. reduce_plan fails 12) (run_case pdu) (List.map (\<lambda>d. overlap_generate d pdu) streams)"

definition reproduces :: "('p list \<Rightarrow> ustr option) \<Rightarrow> 'p list list \<Rightarrow> 'p report option result \<Rightarrow> bool" where
  "reproduces run_case plans r =
     (case r of
        Inl e \<Rightarrow> False
      | Inr None \<Rightarrow> \<forall>plan \<in> set plans. run_case plan = None
      | Inr (Some (plan, reduced, failure)) \<Rightarrow> plan \<in> set plans \<and> run_case plan = Some failure
          \<and> run_case reduced = Some failure \<and> subseq reduced plan)"

lemma campaign_reproduces:
  assumes "\<And>fails plan. fails plan \<Longrightarrow> length plan \<le> limit \<Longrightarrow> \<exists>r. reduce fails plan = Inr r \<and> fails r \<and> subseq r plan"
    and "\<forall>plan \<in> set plans. length plan \<le> limit"
  shows "reproduces run_case plans (campaign reduce run_case plans)"
  using assms(2)
proof (induction plans)
  case Nil
  show ?case by (simp add: reproduces_def)
next
  case (Cons plan plans)
  show ?case
  proof (cases "run_case plan")
    case None
    with Cons show ?thesis by (auto simp: reproduces_def split: sum.splits option.splits)
  next
    case (Some failure)
    then obtain r where "reduce (\<lambda>c. run_case c = Some failure) plan = Inr r" "run_case r = Some failure" "subseq r plan"
      using assms(1)[of "\<lambda>c. run_case c = Some failure" plan] Cons.prems by auto
    with Some show ?thesis by (simp add: reproduces_def)
  qed
qed

lemma minimize_reduces: "fails plan \<Longrightarrow> \<exists>r. minimize fails budget plan = Inr r \<and> fails r \<and> subseq r plan"
  using reduce_loop_sound[of fails plan] by (simp add: minimize_def)

lemma reduce_plan_reduces:
  "fails plan \<Longrightarrow> length plan \<le> 1000 \<Longrightarrow> \<exists>r. reduce_plan fails budget plan = Inr r \<and> fails r \<and> subseq r plan"
  by (rule reduce_plan_sound[of fails plan budget]) auto

lemma capacities_length: "length (narrow_capacities r) \<le> 7" "length (wide_capacities r) \<le> 6"
  unfolding narrow_capacities_def wide_capacities_def length_sort
  by (rule order_trans[OF length_remdups_leq]; simp)+

lemma boundary_generate_length: "length (boundary_generate d pdu terminal) \<le> 1000"
  using capacities_length[of "pdu - 18"]
  by (simp add: boundary_generate_def Let_def number_def boundary_specs_def transfer_sizes_def)

lemma length_concat_le: "(\<And>x. x \<in> set xs \<Longrightarrow> length (f x) \<le> k) \<Longrightarrow> length (concat (List.map f xs)) \<le> k * length xs"
proof (induction xs)
  case (Cons x xs)
  then have "length (f x) \<le> k" "length (concat (List.map f xs)) \<le> k * length xs" by simp_all
  then show ?case by simp
qed simp

lemma overlap_mixed_length: "length (overlap_mixed bit_start k d) = 2 * k"
  by (induction k arbitrary: d) simp_all

lemma overlap_generate_length: "length (overlap_generate d pdu) \<le> 1000"
proof -
  let ?m = "pdu - 28" and ?base = "randrange 16 64 (d 0)"
  have "length (overlap_generate d pdu) = length (overlap_specs d pdu)" by (simp add: overlap_generate_def)
  moreover have "length (overlap_bits (?base + ?m)) = 48" by (simp add: overlap_bits_def)
  moreover have "length (concat (List.map (overlap_nested ?base ?m (rest_of 7 d)) [0..<12])) \<le> 3 * length [0..<12]"
    by (rule length_concat_le) (simp add: overlap_nested_def Let_def)
  moreover have "length (concat (List.map (\<lambda>(k, n). overlap_duplicates ?base ?m n (d (1 + k)))
           (List.zip [0, 1, 2, 3, 4, 5] (transfer_sizes ?m)))) \<le> 5 * length (List.zip [0 :: nat, 1, 2, 3, 4, 5] (transfer_sizes ?m))"
    by (rule length_concat_le) (simp add: overlap_duplicates_def Let_def split: prod.splits)
  ultimately show ?thesis
    by (simp add: overlap_specs_def Let_def overlap_mixed_length transfer_sizes_def del: upt_rec_numeral)
qed

text \<open>C15: A campaign is quiet exactly when every plan passed; otherwise the plan it reports fails, and the reduced plan it
  prints for replay is a part of it, in order, that fails with the very same text. It never dies in the reducer. This
  holds of the three campaigns, whatever the client does as long as running a plan twice gives the same verdict.\<close>
theorem campaigns_reproduce:
  "reproduces mixed_verdict (List.map (\<lambda>(index, d). mixed_plan d index) (zip [0..<length streams] streams))
      (run_mixed mixed_verdict streams)
   \<and> reproduces (boundary_verdict pdu) (List.map (\<lambda>(d, terminal). boundary_generate d pdu terminal)
        (zip streams [''q'', ''u'', ''z'', ''d''])) (run_boundary boundary_verdict streams pdu)
   \<and> reproduces (overlap_verdict pdu) (List.map (\<lambda>d. overlap_generate d pdu) streams)
        (run_overlap overlap_verdict streams pdu)"
  unfolding run_mixed_def run_boundary_def run_overlap_def
proof (intro conjI)
  have "length (mixed_plan d i) \<le> 1000" for d i by (simp add: mixed_plan_def)
  then show "reproduces mixed_verdict (List.map (\<lambda>(index, d). mixed_plan d index) (zip [0..<length streams] streams))
      (campaign (\<lambda>fails. minimize fails 12) mixed_verdict (List.map (\<lambda>(index, d). mixed_plan d index) (zip [0..<length streams] streams)))"
    by (intro campaign_reproduces[of 1000] minimize_reduces) auto
qed (intro campaign_reproduces[of 1000] reduce_plan_reduces; auto simp: boundary_generate_length overlap_generate_length)+

lemma seamless_mixed_accept [stream_intros]: "seamless mixed_accept"
  unfolding mixed_accept_def by (intro stream_intros)

lemma seamless_mixed_poisoned [stream_intros]: "seamless mixed_poisoned"
proof -
  have "seamless (case e of ConnectionResetError \<Rightarrow> ret ()
          | RuntimeError msg \<Rightarrow> if contains ''closed an incomplete frame'' msg then ret () else raise e
          | _ \<Rightarrow> raise e)" for e
    by (cases e) (auto intro: stream_intros)
  then show ?thesis unfolding mixed_poisoned_def by (intro stream_intros)
qed

lemma seamless_mixed_step [stream_intros]: "seamless (mixed_step x)"
  unfolding mixed_step_def mixed_reconnect_def mixed_retry_def mixed_drop_def split_beta by (intro stream_intros)

lemma seamless_mixed_serve: "seamless (mixed_serve plan)"
  unfolding mixed_serve_def by (intro stream_intros)

end
