(* ===== verification/Queued.thy ===== *)
theory Queued
  imports Overlap
begin

text \<open>
  \<^verbatim>\<open>queued_batches.py\<close>: the planner that cuts a list of transfers into multi-item
  exchanges under the negotiated size, the exchanges' wire form, and the peer that
  checks a client against that plan through drops and retries.
\<close>

section \<open>The planner\<close>

record piece =
  p_item :: int
  p_start :: int
  p_offset :: int
  p_size :: int

record planner =
  batches_done :: "piece list list"
  selected :: "piece list"
  request_size :: int
  response_size :: int

definition contribution :: "int \<Rightarrow> int" where
  "contribution size' = 4 + size' + size' mod 2"

definition request_cost :: "bool \<Rightarrow> int \<Rightarrow> int" where
  "request_cost write_op size' = 12 + (if write_op then contribution size' else 0)"

definition response_cost :: "bool \<Rightarrow> int \<Rightarrow> int" where
  "response_cost write_op size' = (if write_op then 1 else contribution size')"

definition alone_fits :: "bool \<Rightarrow> int \<Rightarrow> int \<Rightarrow> bool" where
  "alone_fits write_op pdu size' \<longleftrightarrow> 12 + request_cost write_op size' \<le> pdu \<and> 14 + response_cost write_op size' \<le> pdu"

definition item_start :: "int \<Rightarrow> int \<Rightarrow> int" where
  "item_start amount item = (if item + 1 = amount then 0 else item * 2048)"

definition maximum_of :: "bool \<Rightarrow> int \<Rightarrow> int" where
  "maximum_of write_op pdu = pdu - (if write_op then 28 else 18)"

definition flush :: "planner \<Rightarrow> planner" where
  "flush st = st\<lparr>batches_done := batches_done st @ (if selected st = [] then [] else [selected st]), selected := [],
     request_size := 12, response_size := 14\<rparr>"

definition singles :: "int \<Rightarrow> int \<Rightarrow> int \<Rightarrow> int \<Rightarrow> piece list" where
  "singles item origin limit size' = List.map (\<lambda>(offset, n).
     \<lparr>p_item = item, p_start = origin + offset, p_offset = offset, p_size = n\<rparr>) (chunks limit size')"

definition plan_item :: "bool \<Rightarrow> int \<Rightarrow> int \<Rightarrow> int \<times> int \<Rightarrow> planner \<Rightarrow> planner" where
  "plan_item write_op pdu amount = (\<lambda>(item, size') st.
     let origin = item_start amount item in
     if \<not> alone_fits write_op pdu size' then
       let st = flush st
       in st\<lparr>batches_done := batches_done st @ List.map (\<lambda>p. [p]) (singles item origin (maximum_of write_op pdu) size')\<rparr>
     else
       let next_request = request_size st + request_cost write_op size';
           next_response = response_size st + response_cost write_op size';
           st = (if length (selected st) = 20 \<or> next_request > pdu \<or> next_response > pdu
                 then st\<lparr>batches_done := batches_done st @ [selected st], selected := [], request_size := 12, response_size := 14\<rparr>
                 else st)
       in st\<lparr>selected := selected st @ [\<lparr>p_item = item, p_start = origin, p_offset = 0, p_size = size'\<rparr>],
            request_size := request_size st + request_cost write_op size',
            response_size := response_size st + response_cost write_op size'\<rparr>)"

definition planner_init :: planner where
  "planner_init = \<lparr>batches_done = [], selected = [], request_size = 12, response_size = 14\<rparr>"

definition items_of :: "int list \<Rightarrow> (int \<times> int) list" where
  "items_of sizes = zip (List.map int [0..<length sizes]) sizes"

definition batches :: "int list \<Rightarrow> int \<Rightarrow> bool \<Rightarrow> piece list list" where
  "batches sizes pdu write_op =
     batches_done (flush (fold (plan_item write_op pdu (len sizes)) (items_of sizes) planner_init))"

definition queued_generate :: "draws \<Rightarrow> int \<Rightarrow> int list" where
  "queued_generate d pdu =
     (let tiny = List.map (\<lambda>i. choice_of [1, 2, 3] (d i)) [0..<21];
          boundaries = shuffle (rest_of 21 d) [pdu - 29, pdu - 28, pdu - 27, pdu - 19, pdu - 18, pdu - 17]
      in tiny @ boundaries @ [2 * (pdu - 28) + 3, tiny ! 0])"

section \<open>On the wire\<close>

definition piece_payload :: "piece \<Rightarrow> bytes" where
  "piece_payload p = List.map (\<lambda>k. byte ((p_item p * 29 + (p_offset p + int k) * 37 + 11) mod 256)) [0..<nat (p_size p)]"

definition piece_parameters :: "piece \<Rightarrow> bytes result" where
  "piece_parameters p = concatE [Inr [0x12, 0x0a, 0x10, 2], pack 2 (p_size p), pack 2 1, pack 1 0x84, to_bytes 3 (p_start p * 8)]"

text \<open>One value with its header; an odd value is padded unless it is the last.\<close>

definition piece_value :: "byte \<Rightarrow> bool \<Rightarrow> piece \<Rightarrow> bytes result" where
  "piece_value code followed p =
     concatE [Inr [code, 4], pack 2 (p_size p * 8), Inr (piece_payload p),
       Inr (if followed \<and> p_size p mod 2 \<noteq> 0 then [0] else [])]"

fun piece_values :: "(bool \<Rightarrow> piece \<Rightarrow> bytes result) \<Rightarrow> piece list \<Rightarrow> bytes result" where
  "piece_values value [] = Inr []"
| "piece_values value (p # ps) = concatE [value (ps \<noteq> []) p, piece_values value ps]"

definition queued_wire :: "piece list \<Rightarrow> bool \<Rightarrow> bytes result" where
  "queued_wire batch write_op =
     bindE (concatE [bytes_of [if write_op then 5 else 4, len batch], concatE (List.map piece_parameters batch)]) (\<lambda>parameters.
     bindE (if write_op then piece_values (piece_value 0) batch else Inr []) (\<lambda>data.
       packet 1 0 parameters data))"

definition queued_check :: "bytes \<Rightarrow> piece list \<Rightarrow> int \<Rightarrow> bool \<Rightarrow> int result" where
  "queued_check request batch pdu write_op =
     bindE (queued_wire batch write_op) (masked_check ''wire/order/padding mismatch'' pdu request)"

definition reply_value :: "bool \<Rightarrow> bool \<Rightarrow> piece \<Rightarrow> bytes result" where
  "reply_value write_op followed p =
     (let rejected = p_item p = 2 in
      if write_op then Inr [if rejected then 5 else 0xff]
      else if rejected then Inr [5, 0, 0, 0]
      else piece_value 0xff followed p)"

definition queued_reply :: "int \<Rightarrow> piece list \<Rightarrow> bool \<Rightarrow> bytes result" where
  "queued_reply reference batch write_op =
     bindE (piece_values (reply_value write_op) batch) (\<lambda>data.
     bindE (bytes_of [if write_op then 5 else 4, len batch]) (\<lambda>parameters. ack reference parameters data))"

section \<open>What a plan is\<close>

definition pieces_of :: "bool \<Rightarrow> int \<Rightarrow> int \<Rightarrow> int \<times> int \<Rightarrow> piece list" where
  "pieces_of write_op pdu amount = (\<lambda>(item, size').
     let origin = item_start amount item in
     if alone_fits write_op pdu size' then [\<lparr>p_item = item, p_start = origin, p_offset = 0, p_size = size'\<rparr>]
     else singles item origin (maximum_of write_op pdu) size')"

definition flat_plan :: "planner \<Rightarrow> piece list" where
  "flat_plan st = concat (batches_done st) @ selected st"

definition requests_cost :: "bool \<Rightarrow> piece list \<Rightarrow> int" where
  "requests_cost write_op ps = sum_list (List.map (\<lambda>p. request_cost write_op (p_size p)) ps)"

definition responses_cost :: "bool \<Rightarrow> piece list \<Rightarrow> int" where
  "responses_cost write_op ps = sum_list (List.map (\<lambda>p. response_cost write_op (p_size p)) ps)"

text \<open>A batch fits if its worst-case costs do; a lone chunk needs no padding.\<close>

definition batch_fits :: "bool \<Rightarrow> int \<Rightarrow> piece list \<Rightarrow> bool" where
  "batch_fits write_op pdu b \<longleftrightarrow> b \<noteq> [] \<and> length b \<le> 20 \<and> (\<forall>p \<in> set b. 0 \<le> p_size p)
     \<and> (12 + requests_cost write_op b \<le> pdu \<and> 14 + responses_cost write_op b \<le> pdu
        \<or> (\<exists>p. b = [p] \<and> 0 < p_size p \<and> p_size p \<le> maximum_of write_op pdu))"

definition plan_inv :: "bool \<Rightarrow> int \<Rightarrow> planner \<Rightarrow> bool" where
  "plan_inv write_op pdu st \<longleftrightarrow>
     (\<forall>b \<in> set (batches_done st). batch_fits write_op pdu b)
     \<and> (selected st \<noteq> [] \<longrightarrow> batch_fits write_op pdu (selected st))
     \<and> length (selected st) \<le> 20
     \<and> request_size st = 12 + requests_cost write_op (selected st)
     \<and> response_size st = 14 + responses_cost write_op (selected st)"

lemma flush_flat: "flat_plan (flush st) = flat_plan st"
  by (simp add: flat_plan_def flush_def)

lemma flush_inv: "plan_inv write_op pdu st \<Longrightarrow> plan_inv write_op pdu (flush st) \<and> selected (flush st) = []"
  by (auto simp: plan_inv_def flush_def requests_cost_def responses_cost_def)

lemma concat_single: "concat (List.map (\<lambda>p. [p]) ps) = ps"
  by (induction ps) simp_all

lemma plan_item_flat: "flat_plan (plan_item write_op pdu amount x st) = flat_plan st @ pieces_of write_op pdu amount x"
proof -
  obtain item size' where x: "x = (item, size')" by fastforce
  show ?thesis
  proof (cases "alone_fits write_op pdu size'")
    case True
    then show ?thesis by (auto simp: x plan_item_def pieces_of_def Let_def flat_plan_def)
  next
    case False
    have "flat_plan (plan_item write_op pdu amount x st) = flat_plan (flush st) @ singles item (item_start amount item) (maximum_of write_op pdu) size'"
      using False by (simp add: x plan_item_def Let_def flat_plan_def concat_single flush_def)
    with False show ?thesis by (simp add: flush_flat x pieces_of_def Let_def)
  qed
qed

lemma plan_item_inv:
  assumes "plan_inv write_op pdu st" "0 \<le> snd x"
  shows "plan_inv write_op pdu (plan_item write_op pdu amount x st)"
proof -
  obtain item size' where x: "x = (item, size')" by fastforce
  let ?p = "\<lparr>p_item = item, p_start = item_start amount item, p_offset = 0, p_size = size'\<rparr>"
  show ?thesis
  proof (cases "alone_fits write_op pdu size'")
    case False
    have "batch_fits write_op pdu [p]" if "p \<in> set (singles item (item_start amount item) (maximum_of write_op pdu) size')" for p
      using that chunks_from_bounds[of _ _ "maximum_of write_op pdu" size' 0]
      by (fastforce simp: singles_def chunks_def batch_fits_def)
    moreover have "plan_inv write_op pdu (flush st)" "selected (flush st) = []" using flush_inv[OF assms(1)] by simp_all
    ultimately show ?thesis using False by (auto simp: x plan_item_def Let_def plan_inv_def)
  next
    case True
    define st1 where "st1 = (if length (selected st) = 20 \<or> request_size st + request_cost write_op size' > pdu
        \<or> response_size st + response_cost write_op size' > pdu
      then st\<lparr>batches_done := batches_done st @ [selected st], selected := [], request_size := 12, response_size := 14\<rparr> else st)"
    have step: "plan_item write_op pdu amount x st = st1\<lparr>selected := selected st1 @ [?p],
            request_size := request_size st1 + request_cost write_op size',
            response_size := response_size st1 + response_cost write_op size'\<rparr>"
      using True by (simp add: x plan_item_def Let_def st1_def)
    have full: "selected st \<noteq> []" if "length (selected st) = 20 \<or> request_size st + request_cost write_op size' > pdu
        \<or> response_size st + response_cost write_op size' > pdu"
      using that True assms(1) by (auto simp: plan_inv_def alone_fits_def requests_cost_def responses_cost_def)
    have inv: "plan_inv write_op pdu st1"
      using assms(1) full by (auto simp: st1_def plan_inv_def requests_cost_def responses_cost_def)
    have room: "length (selected st1) < 20" "request_size st1 + request_cost write_op size' \<le> pdu"
        "response_size st1 + response_cost write_op size' \<le> pdu"
      using assms(1) True by (auto simp: st1_def plan_inv_def alone_fits_def)
    have "\<forall>p \<in> set (selected st1). 0 \<le> p_size p"
      using inv by (cases "selected st1 = []") (auto simp: plan_inv_def batch_fits_def)
    then show ?thesis unfolding step
      using inv room assms(2) by (auto simp: plan_inv_def batch_fits_def requests_cost_def responses_cost_def x)
  qed
qed

lemma plan_fold:
  "plan_inv write_op pdu st \<Longrightarrow> \<forall>x \<in> set xs. 0 \<le> snd x \<Longrightarrow>
     plan_inv write_op pdu (fold (plan_item write_op pdu amount) xs st)
     \<and> flat_plan (fold (plan_item write_op pdu amount) xs st) = flat_plan st @ concat (List.map (pieces_of write_op pdu amount) xs)"
  by (induction xs arbitrary: st) (simp_all add: plan_item_inv plan_item_flat)

lemma batches_plan:
  assumes "\<forall>n \<in> set sizes. 0 \<le> n"
  shows "concat (batches sizes pdu write_op) = concat (List.map (pieces_of write_op pdu (len sizes)) (items_of sizes))"
    and "b \<in> set (batches sizes pdu write_op) \<Longrightarrow> batch_fits write_op pdu b"
proof -
  let ?st = "fold (plan_item write_op pdu (len sizes)) (items_of sizes) planner_init"
  have i: "plan_inv write_op pdu planner_init" "flat_plan planner_init = []"
    by (simp_all add: plan_inv_def planner_init_def flat_plan_def requests_cost_def responses_cost_def)
  have "\<forall>x \<in> set (items_of sizes). 0 \<le> snd x" using assms by (auto simp: items_of_def dest: set_zip_rightD)
  note f = plan_fold[OF i(1) this, of "len sizes"]
  have g: "plan_inv write_op pdu (flush ?st)" "selected (flush ?st) = []" using flush_inv f by blast+
  have "concat (batches sizes pdu write_op) = flat_plan (flush ?st)" using g by (simp add: flat_plan_def batches_def)
  then show "concat (batches sizes pdu write_op) = concat (List.map (pieces_of write_op pdu (len sizes)) (items_of sizes))"
    using f by (simp add: flush_flat i)
  show "b \<in> set (batches sizes pdu write_op) \<Longrightarrow> batch_fits write_op pdu b"
    using g by (auto simp: batches_def plan_inv_def)
qed

section \<open>Sizes on the wire\<close>

lemma piece_parameters_length: "piece_parameters p = Inr bs \<Longrightarrow> length bs = 12"
  by (auto simp: piece_parameters_def)

lemma parameters_length: "concatE (List.map piece_parameters b) = Inr bs \<Longrightarrow> length bs = 12 * length b"
  by (induction b arbitrary: bs) (auto dest: piece_parameters_length)

lemma piece_value_length:
  "piece_value code followed p = Inr bs \<Longrightarrow> 0 \<le> p_size p \<Longrightarrow> len bs = 4 + p_size p + (if followed \<and> p_size p mod 2 \<noteq> 0 then 1 else 0)"
  by (auto simp: piece_value_def len_def piece_payload_def)

lemma values_length:
  "piece_values value b = Inr bs \<Longrightarrow> (\<And>followed p v. p \<in> set b \<Longrightarrow> value followed p = Inr v \<Longrightarrow> len v \<le> cost (p_size p))
     \<Longrightarrow> len bs \<le> sum_list (List.map (\<lambda>p. cost (p_size p)) b)"
proof (induction b arbitrary: bs)
  case Nil
  then show ?case by simp
next
  case (Cons p b)
  then obtain v vs where v: "value (b \<noteq> []) p = Inr v" "piece_values value b = Inr vs" "bs = v @ vs" by auto
  have "len v \<le> cost (p_size p)" using Cons.prems(2) v(1) by simp
  moreover have "len vs \<le> sum_list (List.map (\<lambda>p. cost (p_size p)) b)" using Cons.IH[OF v(2)] Cons.prems(2) by simp
  ultimately show ?case using v(3) by simp
qed

lemma piece_value_cost: "piece_value code followed p = Inr v \<Longrightarrow> 0 \<le> p_size p \<Longrightarrow> len v \<le> contribution (p_size p)"
proof -
  assume "piece_value code followed p = Inr v" "0 \<le> p_size p"
  from piece_value_length[OF this] have l: "len v = 4 + p_size p + (if followed \<and> p_size p mod 2 \<noteq> 0 then 1 else 0)" .
  have "p_size p mod 2 = 0 \<or> p_size p mod 2 = 1" by presburger
  with l show ?thesis by (auto simp: contribution_def)
qed

lemma reply_value_cost:
  "reply_value write_op followed p = Inr v \<Longrightarrow> 0 \<le> p_size p \<Longrightarrow> len v \<le> response_cost write_op (p_size p)"
  using piece_value_cost[of 255 followed p v]
  by (auto simp: reply_value_def response_cost_def contribution_def Let_def split: if_splits)

lemma wire_length:
  assumes "queued_wire b write_op = Inr w"
  obtains data where "(if write_op then piece_values (piece_value 0) b else Inr []) = Inr data"
    "len w = 12 + 12 * len b + len data"
proof -
  obtain parameters data where pd: "concatE [bytes_of [if write_op then 5 else 4, len b], concatE (List.map piece_parameters b)] = Inr parameters"
      "(if write_op then piece_values (piece_value 0) b else Inr []) = Inr data" "packet 1 0 parameters data = Inr w"
    using assms unfolding queued_wire_def by auto
  obtain ps where "concatE (List.map piece_parameters b) = Inr ps" "length parameters = 2 + length ps"
    using pd(1) by (auto simp: bytes_of_Inr_iff)
  then have "length parameters = 2 + 12 * length b" using parameters_length by simp
  then have "len w = 12 + 12 * len b + len data" using packet_length[OF pd(3)] by (simp add: len_def)
  with pd(2) show ?thesis by (rule that)
qed

lemma reply_length:
  assumes "queued_reply r b write_op = Inr w"
  obtains data where "piece_values (reply_value write_op) b = Inr data" "len w = 14 + len data"
proof -
  obtain parameters data where pd: "bytes_of [if write_op then 5 else 4, len b] = Inr parameters"
      "piece_values (reply_value write_op) b = Inr data" "ack r parameters data = Inr w"
    using assms unfolding queued_reply_def by auto
  have "length parameters = 2" using pd(1) by (auto simp: bytes_of_Inr_iff)
  then have "len w = 14 + len data"
    using packet_length[of 3 r parameters data w] pd(3) by (simp add: ack_s7_response s7_response_packet len_def)
  with pd(2) show ?thesis by (rule that)
qed

lemma requests_cost_split: "requests_cost write_op b = 12 * len b + (if write_op then sum_list (List.map (\<lambda>p. contribution (p_size p)) b) else 0)"
  by (induction b) (auto simp: requests_cost_def request_cost_def)

lemma fits_wire:
  assumes "batch_fits write_op pdu b" "28 < pdu" "queued_wire b write_op = Inr w"
  shows "len w \<le> pdu"
proof -
  have pos: "\<forall>p \<in> set b. 0 \<le> p_size p" using assms(1) by (simp add: batch_fits_def)
  obtain data where d: "(if write_op then piece_values (piece_value 0) b else Inr []) = Inr data"
      "len w = 12 + 12 * len b + len data" using wire_length[OF assms(3)] .
  consider "12 + requests_cost write_op b \<le> pdu" | p where "b = [p]" "0 < p_size p" "p_size p \<le> maximum_of write_op pdu"
    using assms(1) by (auto simp: batch_fits_def)
  then show ?thesis
  proof cases
    case 1
    have "write_op \<Longrightarrow> len data \<le> sum_list (List.map (\<lambda>p. contribution (p_size p)) b)"
      using d(1) values_length[of "piece_value 0" b data contribution] piece_value_cost pos by simp
    with 1 d show ?thesis by (auto simp: requests_cost_split split: if_splits)
  next
    case 2
    then show ?thesis using d assms(2) piece_value_length[of 0 False p]
      by (auto simp: maximum_of_def split: if_splits)
  qed
qed

lemma fits_reply:
  assumes "batch_fits write_op pdu b" "28 < pdu" "queued_reply r b write_op = Inr w"
  shows "len w \<le> pdu"
proof -
  have pos: "\<forall>p \<in> set b. 0 \<le> p_size p" using assms(1) by (simp add: batch_fits_def)
  obtain data where d: "piece_values (reply_value write_op) b = Inr data" "len w = 14 + len data"
    using reply_length[OF assms(3)] .
  consider "14 + responses_cost write_op b \<le> pdu" | p where "b = [p]" "0 < p_size p" "p_size p \<le> maximum_of write_op pdu"
    using assms(1) by (auto simp: batch_fits_def)
  then show ?thesis
  proof cases
    case 1
    have "len data \<le> responses_cost write_op b" unfolding responses_cost_def
      using d(1) values_length[of "reply_value write_op" b data "response_cost write_op"] reply_value_cost pos by blast
    with 1 d show ?thesis by simp
  next
    case 2
    then show ?thesis using d assms(2) piece_value_length[of 255 False p]
      by (auto simp: maximum_of_def reply_value_def Let_def split: if_splits)
  qed
qed

text \<open>C16: The planner cuts, but never drops, repeats or reorders: its exchanges, in order, are the caller's items in order,
  each whole or as its consecutive chunks. Every exchange has one to twenty items, and neither its request nor its
  successful response exceeds the negotiated size, padding included.\<close>
theorem batches_within_budget:
  assumes "\<forall>n \<in> set sizes. 0 \<le> n" "28 < pdu"
  shows "concat (batches sizes pdu write_op) = concat (List.map (pieces_of write_op pdu (len sizes)) (items_of sizes))
    \<and> (\<forall>b \<in> set (batches sizes pdu write_op). 1 \<le> length b \<and> length b \<le> 20
        \<and> (\<forall>w. queued_wire b write_op = Inr w \<longrightarrow> len w \<le> pdu)
        \<and> (\<forall>r w. queued_reply r b write_op = Inr w \<longrightarrow> len w \<le> pdu))"
proof (intro conjI ballI)
  show "concat (batches sizes pdu write_op) = concat (List.map (pieces_of write_op pdu (len sizes)) (items_of sizes))"
    by (rule batches_plan(1)[OF assms(1)])
next
  fix b
  assume "b \<in> set (batches sizes pdu write_op)"
  then have b: "batch_fits write_op pdu b" by (rule batches_plan(2)[OF assms(1)])
  then show "1 \<le> length b" "length b \<le> 20" by (auto simp: batch_fits_def Suc_le_eq)
  show "\<forall>w. queued_wire b write_op = Inr w \<longrightarrow> len w \<le> pdu" using fits_wire[OF b assms(2)] by blast
  show "\<forall>r w. queued_reply r b write_op = Inr w \<longrightarrow> len w \<le> pdu" using fits_reply[OF b assms(2)] by blast
qed

theorem batches_within_budget_witness:
  "concat (batches [1, 300, 2] 240 True) = concat (List.map (pieces_of True 240 3) (items_of [1, 300, 2]))"
  using batches_within_budget[of "[1, 300, 2]" 240 True] by simp

section \<open>The peer\<close>

definition queued_handshake :: "int \<Rightarrow> (net, unit) prog" where
  "queued_handshake pdu =
     bindM receive (\<lambda>cr.
     thenM (expect (\<not> (length cr < 7 \<or> cr ! 1 \<noteq> 0xe0)) ''missing classic COTP connection request'')
     (thenM (send_confirm cr)
     (bindM take_request (\<lambda>setup_pdu.
     thenM (expect (take 4 setup_pdu = [0x32, 1, 0, 0]
          \<and> drop 6 setup_pdu = [0, 8, 0, 0, 0xf0, 0, 0, 1, 0, 1, 1, 0xe0]) ''unexpected classic SETUP request'')
       (reply (bindE (pack 2 pdu) (\<lambda>size_field. ack (reference_of setup_pdu) ([0xf0, 0, 0, 1, 0, 1] @ size_field) [])))))))"

definition queued_no_reconnect :: "(net, unit) prog" where
  "queued_no_reconnect = no_reconnect ''queued operation reconnected/replayed after closure''"

definition queued_drops :: "string \<Rightarrow> int list \<Rightarrow> int \<Rightarrow> nat \<Rightarrow> nat \<Rightarrow> piece list \<Rightarrow> bool" where
  "queued_drops mode sizes pdu operation position batch =
     (let at_piece = (\<lambda>offset. case batch of [] \<Rightarrow> False | p # _ \<Rightarrow> p_item p = len sizes - 2 \<and> p_offset p = offset) in
      mode = ''read-partial-drop'' \<and> operation = 0 \<and> at_piece (pdu - 18)
      \<or> mode = ''write-drop'' \<and> operation = 1 \<and> position = 0
      \<or> mode = ''write-partial-drop'' \<and> operation = 1 \<and> at_piece (pdu - 28))"

definition queued_exchange :: "int list \<Rightarrow> int \<Rightarrow> string \<Rightarrow> bytes \<Rightarrow> nat \<Rightarrow> bool \<Rightarrow> nat \<times> piece list \<Rightarrow> int list
    \<Rightarrow> (net, int list option) prog" where
  "queued_exchange sizes pdu mode first operation write_op = (\<lambda>(position, batch) references.
     bindM (if operation = 0 \<and> position = 0 then ret first else take_request) (\<lambda>request.
     bindM (liftE (queued_check request batch pdu write_op)) (\<lambda>reference.
     thenM (expect (reference \<notin> set references) ''completed exchanges reused a reference'')
       (if queued_drops mode sizes pdu operation position batch
        then thenM close (thenM queued_no_reconnect (ret None))
        else bindM (liftE (queued_reply reference batch write_op)) (\<lambda>pdu_out.
          thenM (expect (\<not> len pdu_out > pdu) ''independent response exceeds negotiated budget'')
          (thenM (send_pdu pdu_out) (ret (Some (reference # references)))))))))"

definition queued_operation :: "int list \<Rightarrow> int \<Rightarrow> string \<Rightarrow> bytes \<Rightarrow> nat \<times> bool \<Rightarrow> int list \<Rightarrow> (net, int list option) prog" where
  "queued_operation sizes pdu mode first = (\<lambda>(operation, write_op) references.
     let bs = batches sizes pdu write_op
     in loopS (queued_exchange sizes pdu mode first operation write_op) (zip [0..<length bs] bs) references)"

definition queued_retry :: "int \<Rightarrow> bytes \<Rightarrow> (net, unit) prog" where
  "queued_retry pdu first = thenM close (thenM accept (thenM (queued_handshake pdu) (bindM take_request (\<lambda>retry.
     expect (retry = first) ''early retry changed reference/items or yielded its FIFO place''))))"

definition queued_finish :: "(net, unit) prog" where
  "queued_finish =
     bindM receive (\<lambda>frame.
     thenM (expect (frame = [6, 0x80, 0, 1, 0, 1, 0]) ''queued late write overtook disconnect'')
     (bindM last_octet (\<lambda>remaining.
     thenM (expect (remaining = []) ''late write or repeated disconnect sent further traffic'')
     (thenM close queued_no_reconnect))))"

text \<open>
  The barrier events are \<open>Signalled\<close> (set) and \<open>wait\<close> (its answer is the environment's). The error list
  holds the error itself; the code wraps it in a text that adds the size, the mode and the stage.
\<close>

definition queued_conversation :: "int list \<Rightarrow> int \<Rightarrow> string \<Rightarrow> (net, unit) prog" where
  "queued_conversation sizes pdu mode =
     thenM accept (thenM (queued_handshake pdu)
     (bindM take_request (\<lambda>first.
     bindM (liftE (bindE (at (batches sizes pdu False) 0) (\<lambda>b. queued_check first b pdu False))) (\<lambda>_.
     thenM (note_io Signalled)
     (bindM wait (\<lambda>released.
     thenM (expect released ''process did not admit all queued calls'')
     (thenM (if mode = ''early-retry'' then queued_retry pdu first else ret ())
     (bindM (loopS (queued_operation sizes pdu mode first) [(0, False), (1, True), (2, False)] []) (\<lambda>r.
       unless (r = None) queued_finish)))))))))"

definition queued_serve :: "int list \<Rightarrow> int \<Rightarrow> string \<Rightarrow> (net, exn list) prog" where
  "queued_serve sizes pdu mode =
     finallyM (bindM (collects (queued_conversation sizes pdu mode)) (\<lambda>errors.
       thenM (if errors = [] then ret () else note_io Signalled) (ret errors))) close"

lemma seamless_queued_handshake [stream_intros]: "seamless (queued_handshake pdu)"
  unfolding queued_handshake_def by (intro stream_intros)

lemma seamless_queued_exchange [stream_intros]:
  "seamless (queued_exchange sizes pdu mode first operation write_op x references)"
  unfolding queued_exchange_def queued_no_reconnect_def split_beta by (intro stream_intros)

lemma seamless_queued_operation [stream_intros]: "seamless (queued_operation sizes pdu mode first x references)"
  unfolding queued_operation_def Let_def split_beta by (intro stream_intros)

lemma seamless_queued_serve: "seamless (queued_serve sizes pdu mode)"
  unfolding queued_serve_def queued_conversation_def queued_retry_def queued_finish_def queued_no_reconnect_def
  by (intro stream_intros)

end
