(* ===== verification/Concurrent.thy ===== *)
theory Concurrent
  imports Overlap
begin

text \<open>
  The peers that watch a client serialise competing calls: \<^verbatim>\<open>concurrency.py\<close> (any
  order of sixteen chunked reads, never interleaved) and \<^verbatim>\<open>queued_lifecycle.py\<close>
  (a fixed queue, with a drop, a rejection, a retry or a protocol failure in front).
  Each ends in a terminal state after which nobody may come back.
\<close>

section \<open>Competing reads\<close>

record conc =
  completed :: "nat list"
  active :: "nat option"
  next_offset :: nat
  is_first :: bool
  seen :: "int list"

definition conc_init :: conc where
  "conc_init = \<lparr>completed = [], active = None, next_offset = 0, is_first = True, seen = []\<rparr>"

text \<open>The first read waits behind the barrier; the value \<open>True\<close> leaves the loop.\<close>

definition conc_failure :: "int \<Rightarrow> (net, bool) prog" where
  "conc_failure reference =
     thenM (reply (ack reference [5, 1] []))
     (bindM (catchM receive (\<lambda>e. case e of
         RuntimeError msg \<Rightarrow> if contains ''closed an incomplete frame'' msg then ret [] else raise e
       | _ \<Rightarrow> raise e)) (\<lambda>leftover.
      thenM (expect (leftover = [] \<or> disconnecting leftover) ''queued read sent after protocol failure'') (ret True)))"

definition conc_first :: "string \<Rightarrow> bytes \<Rightarrow> int \<Rightarrow> nat \<Rightarrow> nat \<Rightarrow> (net, bool) prog" where
  "conc_first mode req reference index offset =
     thenM (expect (index = 0 \<and> offset = 0) ''first operation was not the synchronized read'')
     (thenM (note_io Signalled)
     (bindM wait (\<lambda>released.
     thenM (expect released ''concurrency process barrier did not release'')
       (if mode = ''failure'' then conc_failure reference
        else if mode = ''reconnect'' then
          thenM close (thenM accept (thenM plain_handshake (bindM take_request (\<lambda>retried.
            thenM (expect (retried = req) ''reconnect changed the original read'') (ret False)))))
        else ret False))))"

definition conc_payload :: "nat \<Rightarrow> nat \<Rightarrow> nat \<Rightarrow> bytes" where
  "conc_payload index offset amount = List.map (\<lambda>v. byte ((int index * 19 + int v * 37) mod 256)) [offset..<offset + amount]"

definition conc_data :: "nat \<Rightarrow> nat \<Rightarrow> nat \<Rightarrow> bytes result" where
  "conc_data index offset amount = concatE [Inr [0xff, 4], pack 2 (int amount * 8), Inr (conc_payload index offset amount)]"

definition conc_serve_read :: "nat \<Rightarrow> nat \<Rightarrow> nat \<Rightarrow> int \<Rightarrow> conc \<Rightarrow> (net, conc \<times> bool) prog" where
  "conc_serve_read index offset amount reference st =
     thenM (expect (reference \<notin> set (seen st)) ''concurrent requests reused a reference'')
     (thenM (expect (active st \<noteq> None \<or> \<not> (offset \<noteq> 0 \<or> index \<in> set (completed st) \<or> \<not> index < 16))
         ''duplicate/out-of-order logical read'')
     (let st = st\<lparr>seen := reference # seen st\<rparr>;
          st = (if active st = None then st\<lparr>active := Some index, next_offset := 0\<rparr> else st) in
      thenM (expect (\<not> (active st \<noteq> Some index \<or> offset \<noteq> next_offset st)) ''concurrent chunked transfers interleaved'')
     (thenM (expect (int amount = min 222 (700 - int offset)) ''concurrent read chunk length mismatch'')
     (thenM (reply (bindE (conc_data index offset amount) (ack reference [4, 1])))
       (let st = st\<lparr>next_offset := next_offset st + amount\<rparr> in
        ret (if next_offset st = 700 then st\<lparr>completed := index # completed st, active := None\<rparr> else st, False))))))"

definition conc_step :: "string \<Rightarrow> conc \<Rightarrow> (net, conc \<times> bool) prog" where
  "conc_step mode st =
     bindM receive (\<lambda>frame.
     if disconnecting frame then
       thenM (expect (active st = None) ''disconnect interleaved an active transfer'') (ret (st, True))
     else
       thenM (expect (take 3 frame = cotp_data) ''unexpected concurrency frame'')
       (let req = drop 3 frame in
        thenM (expect (\<not> (length req \<noteq> 24 \<or> slice 10 16 req \<noteq> [4, 1, 0x12, 0x0a, 0x10, 2])) ''unexpected concurrent read codec'')
        (let reference = reference_of req; amount = nat (be_int (slice 16 18 req)); address = nat (be_int (slice 21 24 req)) in
         thenM (expect (address mod 8 = 0) ''unaligned concurrent byte read'')
         (let index = address div 8 div 1000; offset = address div 8 mod 1000 in
          bindM (if is_first st then conc_first mode req reference index offset else ret False) (\<lambda>broken.
            let st = st\<lparr>is_first := False\<rparr> in
            if broken then ret (st, True) else conc_serve_read index offset amount reference st)))))"

text \<open>
  The loop \<^verbatim>\<open>while True\<close> on a bound: sixteen transfers of four chunks, so the sixty-fifth request is refused
  at the latest. Reaching the bound is \<open>AssertionError\<close>, which the source never raises.
\<close>

fun conc_loop :: "string \<Rightarrow> nat \<Rightarrow> conc \<Rightarrow> (net, conc) prog" where
  "conc_loop mode 0 st = raise AssertionError"
| "conc_loop mode (Suc fuel) st =
     bindM (conc_step mode st) (\<lambda>(st, broken). if broken then ret st else conc_loop mode fuel st)"

definition conc_fuel :: nat where
  "conc_fuel = 66"

definition conc_finish :: "string \<Rightarrow> conc \<Rightarrow> (net, unit) prog" where
  "conc_finish mode st =
     thenM (expect (\<not> (mode \<in> {''success'', ''reconnect''} \<and> set (completed st) \<noteq> {0..<16})) ''concurrency peer lost an operation'')
       (expect (\<not> (mode = ''disconnect'' \<and> 0 \<notin> set (completed st))) ''disconnect interrupted its earlier active operation'')"

text \<open>The error list holds the error itself; the code wraps it in a text with the mode and the stage.\<close>

definition conc_serve :: "string \<Rightarrow> (net, exn list) prog" where
  "conc_serve mode =
     bindM (collects (thenM accept (finallyM
       (thenM plain_handshake (bindM (conc_loop mode conc_fuel conc_init) (conc_finish mode))) close))) (\<lambda>errors.
     thenM (if errors = [] then ret () else note_io Signalled) (ret errors))"

section \<open>A queue in front of its end\<close>

definition life_check :: "bytes \<Rightarrow> int \<Rightarrow> int \<Rightarrow> (int \<times> int) result" where
  "life_check req index offset =
     (let amount = min 222 (700 - offset) in
      bindE (concatE [Inr [4, 1, 0x12, 0x0a, 0x10, 2], pack 2 amount, pack 2 1, pack 1 0x84,
          to_bytes 3 ((index * 1000 + offset) * 8)]) (\<lambda>parameters.
      bindE (guardE (\<not> (length req \<noteq> 24 \<or> take 4 req \<noteq> [0x32, 1, 0, 0] \<or> slice 6 10 req \<noteq> [0, 0x0e, 0, 0]
          \<or> drop 10 req \<noteq> parameters)) (RuntimeError ''queued read reordered/interleaved'')) (\<lambda>_.
        Inr (reference_of req, amount))))"

definition life_data :: "int \<Rightarrow> int \<Rightarrow> int \<Rightarrow> bytes result" where
  "life_data index offset amount =
     concatE [Inr [0xff, 4], pack 2 (amount * 8),
       Inr (List.map (\<lambda>k. byte ((index * 23 + (offset + int k) * 31) mod 256)) [0..<nat amount])]"

text \<open>The chunks of one read; a rejected read ends after its first chunk. The value is the references seen.\<close>

fun life_chunks :: "string \<Rightarrow> bytes \<Rightarrow> int \<Rightarrow> (int \<times> int) list \<Rightarrow> int list \<Rightarrow> (net, int list) prog" where
  "life_chunks mode first index [] references = ret references"
| "life_chunks mode first index ((offset, n) # rounds) references =
     bindM (if index = 0 \<and> offset = 0 then ret first else take_request) (\<lambda>req.
     bindM (liftE (life_check req index offset)) (\<lambda>(reference, amount).
     thenM (expect (reference \<notin> set references) ''queued requests reused a reference'')
       (if mode = ''plc'' \<and> index = 0
        then thenM (reply (bindE (ack reference [4, 1] []) (\<lambda>p. Inr (overwrite 10 12 [0x81, 4] p)))) (ret (reference # references))
        else thenM (reply (bindE (life_data index offset amount) (ack reference [4, 1])))
          (life_chunks mode first index rounds (reference # references)))))"

definition life_first :: "string \<Rightarrow> bytes \<Rightarrow> unit result" where
  "life_first mode first =
     (if mode = ''write-drop'' then
        guardE (\<not> (drop 10 first \<noteq> [5, 1, 0x12, 0x0a, 0x10, 2, 0, 1, 0, 1, 0x84, 0, 0, 0, 0, 4, 0, 8, 0x2a]
            \<or> slice 6 10 first \<noteq> [0, 0x0e, 0, 5])) (RuntimeError ''unexpected queued mutation'')
      else bindE (life_check first 0 0) (\<lambda>_. Inr ()))"

definition life_protocol :: "bytes \<Rightarrow> (net, unit) prog" where
  "life_protocol first =
     thenM (reply (ack (reference_of first) [5, 1] []))
       (bindM receive (\<lambda>frame. expect (disconnecting frame) ''queued call sent after protocol failure''))"

definition life_reads :: "string \<Rightarrow> bytes \<Rightarrow> (net, unit) prog" where
  "life_reads mode first =
     thenM (if mode = ''reconnect''
            then thenM close (thenM accept (thenM plain_handshake (bindM take_request (\<lambda>req.
              expect (req = first) ''retry changed the active read or overtook its queue''))))
            else ret ())
     (bindM (foldM (\<lambda>index references. life_chunks mode first index (chunks 222 700) references)
         (if mode = ''invalid'' then [0, 2] else [0, 1, 2]) []) (\<lambda>_.
      bindM receive (\<lambda>frame. expect (disconnecting frame) ''explicit close overtaken by a queued call'')))"

definition life_conversation :: "string \<Rightarrow> (net, unit) prog" where
  "life_conversation mode =
     thenM accept (thenM plain_handshake
     (bindM take_request (\<lambda>first.
     thenM (liftE (life_first mode first))
     (thenM (note_io Signalled)
     (bindM wait (\<lambda>released.
     thenM (expect released ''six operations did not enter the client gate'')
     (thenM (if mode = ''write-drop'' then close
             else thenM (if mode = ''protocol'' then life_protocol first else life_reads mode first)
               (bindM (recv 1) (\<lambda>extra. thenM (expect (extra = []) ''closed client sent an additional frame'') close)))
       (no_reconnect ''queued call reconnected after terminal failure/closure''))))))))"

definition life_serve :: "string \<Rightarrow> (net, exn list) prog" where
  "life_serve mode =
     finallyM (bindM (collects (life_conversation mode)) (\<lambda>errors.
       thenM (if errors = [] then ret () else note_io Signalled) (ret errors))) close"

section \<open>The loop ends\<close>

text \<open>Octets served so far: they bound the rounds, each of which serves some more.\<close>

definition conc_inv :: "conc \<Rightarrow> bool" where
  "conc_inv st \<longleftrightarrow> distinct (completed st) \<and> set (completed st) \<subseteq> {0..<16}
     \<and> (case active st of None \<Rightarrow> True
        | Some i \<Rightarrow> i < 16 \<and> i \<notin> set (completed st) \<and> next_offset st \<in> {0, 222, 444, 666})"

definition conc_rounds :: "conc \<Rightarrow> nat" where
  "conc_rounds st = 4 * length (completed st) + (case active st of None \<Rightarrow> 0 | Some _ \<Rightarrow> next_offset st div 222)"

lemma conc_inv_rounds: "conc_inv st \<Longrightarrow> conc_rounds st \<le> 64"
proof -
  assume inv: "conc_inv st"
  show ?thesis
  proof (cases "active st")
    case None
    have "length (completed st) = card (set (completed st))" using inv by (simp add: conc_inv_def distinct_card)
    also have "\<dots> \<le> card {0..<16 :: nat}" using inv by (intro card_mono) (auto simp: conc_inv_def)
    finally show ?thesis using None by (simp add: conc_rounds_def)
  next
    case (Some i)
    then have "distinct (i # completed st)" "set (i # completed st) \<subseteq> {0..<16}" using inv by (auto simp: conc_inv_def)
    then have "length (i # completed st) \<le> card {0..<16 :: nat}" by (metis card_mono distinct_card finite_atLeastLessThan)
    moreover have "next_offset st div 222 \<le> 3" using inv Some by (auto simp: conc_inv_def)
    ultimately show ?thesis using Some by (simp add: conc_rounds_def)
  qed
qed

lemma expect_Inr: "expect ok msg s = (Inr u, t) \<longleftrightarrow> ok \<and> t = s"
  by (auto simp: expect_def guardM_def liftE_def guardE_def)

lemma conc_read_progress:
  assumes "conc_serve_read index offset amount reference st s = (Inr (st', broken), t)" "conc_inv st"
  shows "conc_inv st' \<and> conc_rounds st' = conc_rounds st + 1 \<and> \<not> broken"
proof -
  define st1 where "st1 = (let st = st\<lparr>seen := reference # seen st\<rparr>
    in if active st = None then st\<lparr>active := Some index, next_offset := 0\<rparr> else st)"
  have g: "active st \<noteq> None \<or> \<not> (offset \<noteq> 0 \<or> index \<in> set (completed st) \<or> \<not> index < 16)"
      "active st1 = Some index" "offset = next_offset st1" "int amount = min 222 (700 - int offset)" "\<not> broken"
      "st' = (let st2 = st1\<lparr>next_offset := next_offset st1 + amount\<rparr>
         in if next_offset st2 = 700 then st2\<lparr>completed := index # completed st2, active := None\<rparr> else st2)"
    using assms(1) unfolding conc_serve_read_def Let_def success expect_Inr st1_def by auto
  have inv1: "conc_inv st1" "conc_rounds st1 = conc_rounds st" "completed st1 = completed st"
    using assms(2) g(1) by (auto simp: st1_def Let_def conc_inv_def conc_rounds_def split: option.splits)
  then have o: "offset \<in> {0, 222, 444, 666}" and i: "index < 16" "index \<notin> set (completed st1)"
    using g(2,3) by (auto simp: conc_inv_def)
  from o g(4) have amount: "amount = (if offset = 666 then 34 else 222)" by auto
  show ?thesis
  proof (cases "offset = 666")
    case True
    then have "st' = st1\<lparr>next_offset := 700, completed := index # completed st1, active := None\<rparr>"
      using g(3,6) amount by (simp add: Let_def)
    with inv1 i g(2,3,5) True show ?thesis by (auto simp: conc_inv_def conc_rounds_def)
  next
    case False
    then have "st' = st1\<lparr>next_offset := offset + 222\<rparr>" using g(3,6) amount o by (auto simp: Let_def)
    with inv1 i g(2,3,5) False o show ?thesis by (auto simp: conc_inv_def conc_rounds_def)
  qed
qed

lemma conc_step_progress:
  assumes "conc_step mode st s = (Inr (st', False), t)" "conc_inv st"
  shows "conc_inv st' \<and> conc_rounds st' = conc_rounds st + 1"
proof -
  have frame: "conc_inv (st\<lparr>is_first := False\<rparr>)" "conc_rounds (st\<lparr>is_first := False\<rparr>) = conc_rounds st"
    using assms(2) by (cases "active st"; simp add: conc_inv_def conc_rounds_def)+
  obtain index offset amount reference u where
    "conc_serve_read index offset amount reference (st\<lparr>is_first := False\<rparr>) u = (Inr (st', False), t)"
    using assms(1) unfolding conc_step_def Let_def success
    by (auto simp: success split: if_splits)
  from conc_read_progress[OF this frame(1)] frame(2) show ?thesis by simp
qed

abbreviation regular :: "exn \<Rightarrow> bool" where
  "regular e \<equiv> e \<noteq> AssertionError"

lemma raises_conc_first [raise_intros]: "raises_only regular (conc_first mode req reference index offset)"
proof -
  have "raises_only regular (case e of RuntimeError msg \<Rightarrow> if contains ''closed an incomplete frame'' msg then ret [] else raise e
       | _ \<Rightarrow> raise e)" if "regular e" for e
    using that by (cases e) (auto intro: raise_intros)
  moreover have "regular e" if "ack r p d = Inl e" for r p d e using ack_Inl[OF that] by simp
  ultimately show ?thesis unfolding conc_first_def conc_failure_def by (intro raise_intros)
qed

lemma raises_conc_read [raise_intros]: "raises_only regular (conc_serve_read index offset amount reference st)"
proof -
  have "bindE (conc_data index offset amount) (ack reference [4, 1]) = Inl e \<Longrightarrow> regular e" for e
    by (auto simp: bindE_Inl_iff conc_data_def dest: ack_Inl pack_Inl)
  then show ?thesis unfolding conc_serve_read_def Let_def by (intro raise_intros)
qed

lemma raises_conc_step: "raises_only regular (conc_step mode st)"
  unfolding conc_step_def Let_def by (intro raise_intros)

text \<open>C17: The loop of the concurrency peer ends within its bound whatever the client sends: it never reaches the bound,
  and any larger bound gives the same result, because every request it answers serves a chunk that was still missing
  from one of the sixteen transfers.\<close>
theorem conc_loop_ends:
  assumes "conc_fuel \<le> fuel"
  shows "conc_loop mode fuel conc_init s = conc_loop mode conc_fuel conc_init s
    \<and> fst (conc_loop mode conc_fuel conc_init s) \<noteq> Inl AssertionError"
proof -
  have ends: "conc_loop mode f st s = conc_loop mode g st s \<and> fst (conc_loop mode g st s) \<noteq> Inl AssertionError"
    if "conc_inv st" "64 - conc_rounds st < f" "64 - conc_rounds st < g" for f g st s
    using that
  proof (induction f arbitrary: g st s)
    case 0
    then show ?case by simp
  next
    case (Suc f)
    then obtain g' where g: "g = Suc g'" by (cases g) auto
    obtain r t where step: "conc_step mode st s = (r, t)" by fastforce
    show ?case
    proof (cases r)
      case (Inl e)
      then have "regular e" using raises_conc_step[of mode st] step by (auto simp: raises_only_def)
      with Inl show ?thesis by (simp add: g bindM_def step)
    next
      case (Inr x)
      obtain st' broken where x: "x = (st', broken)" by fastforce
      show ?thesis
      proof (cases broken)
        case True
        with Inr x show ?thesis by (simp add: g bindM_def step ret_def)
      next
        case False
        have p: "conc_inv st' \<and> conc_rounds st' = conc_rounds st + 1"
          using conc_step_progress[of mode st s st' t] step Inr x False Suc.prems(1) by simp
        then have "conc_rounds st < 64" using conc_inv_rounds[of st'] by simp
        then have "64 - conc_rounds st' < f" "64 - conc_rounds st' < g'" using p Suc.prems(2,3) g by linarith+
        with Suc.IH[of st' g' t] p show ?thesis using Inr x False by (simp add: g bindM_def step)
      qed
    qed
  qed
  have "conc_inv conc_init" by (simp add: conc_inv_def conc_init_def)
  with ends[of conc_init fuel conc_fuel] assms show ?thesis by (simp add: conc_fuel_def)
qed

theorem conc_loop_ends_witness:
  "fst (conc_loop ''success'' conc_fuel conc_init (start [])) \<noteq> Inl AssertionError"
  using conc_loop_ends[of 70 "''success''" "start []"] by (simp add: conc_fuel_def)

lemma seamless_conc_first [stream_intros]: "seamless (conc_first mode req reference index offset)"
proof -
  have "seamless (case e of RuntimeError msg \<Rightarrow> if contains ''closed an incomplete frame'' msg then ret [] else raise e
       | _ \<Rightarrow> raise e)" for e
    by (cases e) (auto intro: stream_intros)
  then show ?thesis unfolding conc_first_def conc_failure_def by (intro stream_intros)
qed

lemma seamless_conc_step [stream_intros]: "seamless (conc_step mode st)"
  unfolding conc_step_def conc_serve_read_def Let_def by (intro stream_intros)

lemma seamless_conc_loop [stream_intros]: "seamless (conc_loop mode fuel st)"
  by (induction fuel arbitrary: st) (auto intro!: stream_intros simp: split_beta)

lemma seamless_conc_serve: "seamless (conc_serve mode)"
  unfolding conc_serve_def conc_finish_def by (intro stream_intros)

lemma seamless_life_chunks [stream_intros]: "seamless (life_chunks mode first index rounds references)"
  by (induction rounds arbitrary: references) (auto intro!: stream_intros simp: split_beta)

lemma seamless_life_serve: "seamless (life_serve mode)"
  unfolding life_serve_def life_conversation_def life_reads_def life_protocol_def by (intro stream_intros)

end
