(* ===== verification/Live.thy ===== *)
theory Live
  imports Overlap Values
begin

text \<open>
  Three peers that hold one conversation to a fixed script: \<^verbatim>\<open>live_correlation.py\<close>
  (stale replies before the real one), \<^verbatim>\<open>clock_assurance.py\<close> (a clock reply with any
  last digit) and \<^verbatim>\<open>multi_batching.py\<close> (batched items with failures in between).
\<close>

section \<open>Live correlation\<close>

record live_op =
  l_write :: bool
  l_status :: string
  l_stale :: nat
  l_value :: int

text \<open>The kind is \<^verbatim>\<open>"r"\<close> or \<^verbatim>\<open>"w"\<close>; the source only asks whether it is \<^verbatim>\<open>"w"\<close>.\<close>

definition live_specs :: "(bool \<times> string) list" where
  "live_specs = concat (List.map (\<lambda>w. List.map (Pair w) [''ok'', ''global'', ''item'']) [False, True])"

definition live_generate :: "int \<Rightarrow> draws \<Rightarrow> string \<Rightarrow> live_op list result" where
  "live_generate seed d terminal =
     bindE (guardE (0 \<le> seed \<and> seed \<le> 0xffffffff \<and> terminal \<in> {''overflow'', ''protocol''}) ValueError) (\<lambda>_.
     let val = (\<lambda>k. randrange 0 256 (d (5 + k))); specs = shuffle d live_specs
     in Inr (List.map (\<lambda>(index, w, status). \<lparr>l_write = w, l_status = status, l_stale = index mod 3, l_value = val index\<rparr>)
            (zip [0..<length specs] specs)
          @ [\<lparr>l_write = True, l_status = ''ok'', l_stale = 2, l_value = val 6\<rparr>,
             \<lparr>l_write = False, l_status = ''ok'', l_stale = 2, l_value = val 7\<rparr>,
             \<lparr>l_write = seed mod 2 \<noteq> 0, l_status = terminal, l_stale = (if terminal = ''overflow'' then 3 else 2),
              l_value = val 8\<rparr>]))"

definition live_reference :: "nat \<Rightarrow> int" where
  "live_reference index = (0xffff + int index) mod 65536"

definition live_request :: "nat \<Rightarrow> live_op \<Rightarrow> bytes result" where
  "live_request index op' =
     bindE (concatE [Inr ([if l_write op' then 5 else 4, 1] @ [0x12, 0x0a, 0x10, 2]), pack 2 1, pack 2 1, pack 1 0x84,
         to_bytes 3 (int index * 128)]) (\<lambda>parameters.
     bindE (if l_write op' then concatE [Inr [0, 4, 0, 8], bytes_of [l_value op']] else Inr []) (\<lambda>data.
       packet 1 (live_reference index) parameters data))"

definition live_validate :: "bytes \<Rightarrow> nat \<Rightarrow> live_op \<Rightarrow> unit result" where
  "live_validate req index op' =
     bindE (live_request index op') (\<lambda>expected.
       guardE (req = expected) (RuntimeError ''request/reference/order/payload mismatch''))"

definition reject_globally :: "bytes \<Rightarrow> bytes" where
  "reject_globally p = take 10 p @ [0x81, 4] @ drop 12 p"

definition live_response :: "int \<Rightarrow> live_op \<Rightarrow> bytes result" where
  "live_response reference op' =
     (let w = l_write op' in
      if l_status op' = ''global'' then bindE (ack reference [if w then 5 else 4, 1] []) (\<lambda>p. Inr (reject_globally p))
      else
        bindE (if l_status op' = ''item'' then Inr (if w then [5] else [5, 0, 0, 0])
               else if w then Inr [0xff] else concatE [Inr [0xff, 4, 0, 8], bytes_of [l_value op']]) (\<lambda>data.
          ack reference [if (l_status op' = ''protocol'') \<noteq> w then 5 else 4, 1] data))"

definition live_stale :: "int \<Rightarrow> nat \<Rightarrow> bytes result" where
  "live_stale reference k =
     bindE (ack ((reference - int k - 1) mod 65536) [5, 1] [0xff]) (\<lambda>p. Inr (if odd k then reject_globally p else p))"

text \<open>One operation; the value \<open>True\<close> is the \<^verbatim>\<open>break\<close> after a terminal one.\<close>

definition live_step :: "nat \<times> live_op \<Rightarrow> (net, bool) prog" where
  "live_step = (\<lambda>(index, op').
     bindM take_request (\<lambda>req.
     thenM (liftE (live_validate req index op'))
     (thenM (forM [0..<l_stale op'] (\<lambda>k. reply (live_stale (live_reference index) k)))
       (if l_status op' = ''overflow'' then ret True
        else thenM (reply (live_response (live_reference index) op')) (ret (l_status op' = ''protocol''))))))"

definition live_serve :: "int \<Rightarrow> live_op list \<Rightarrow> (net, exn list) prog" where
  "live_serve pdu operations = collects
     (thenM (accepting
       (thenM (boundary_handshake pdu)
       (bindM (loopM live_step (zip [0..<length operations] operations)) (\<lambda>_.
        thenM closed_check
        (bindM (recv 1) (\<lambda>extra. expect (extra = []) ''terminal client sent an extra frame''))))))
      (no_reconnect ''terminal protocol failure retried or resurrected client''))"

section \<open>Clock replies\<close>

definition clock_query_ok :: "bytes \<Rightarrow> bool" where
  "clock_query_ok req \<longleftrightarrow>
     length req = 22 \<and> take 4 req = [0x32, 7, 0, 0] \<and> slice 6 10 req = [0, 8, 0, 4]
     \<and> drop 10 req = [0, 1, 0x12, 4, 0x11, 0x47, 1, 0, 0x0a, 0, 0, 0]"

definition clock_payload :: "int \<Rightarrow> bytes result" where
  "clock_payload digit =
     bytes_of [0, 0x19, 0x24, 0x02, 0x29, 0x23, 0x59, 0x58, 0x12, digit * 16 + (digit mod 7 + 1)]"

definition clock_reply :: "int \<Rightarrow> int \<Rightarrow> bytes result" where
  "clock_reply digit reference =
     bindE (clock_payload digit) (\<lambda>payload.
     bindE (concatE [Inr [0xff, 9], pack 2 (len payload), Inr payload]) (\<lambda>data.
       packet 7 reference [0, 1, 0x12, 8, 0x12, 0x87, 1, 1, 1, 0, 0, 0] data))"

definition clock_serve :: "int \<Rightarrow> (net, exn list) prog" where
  "clock_serve digit = collects
     (thenM (accepting
       (thenM plain_handshake
       (bindM take_request (\<lambda>req.
       thenM (expect (clock_query_ok req) ''clock peer expected read-only clock query'')
       (bindM (liftE (clock_reply digit (reference_of req))) (\<lambda>pdu.
       thenM (send_pdu pdu)
       (bindM receive (\<lambda>frame.
       thenM (expect (disconnecting frame) ''clock peer saw a later read after malformed typed reply'')
       (bindM last_octet (\<lambda>extra. expect (extra = []) ''closed clock client sent another frame''))))))))))
      (no_reconnect ''clock protocol rejection reconnected despite terminal failure''))"

section \<open>Batched items\<close>

definition padded :: "int \<Rightarrow> int" where
  "padded size' = size' + size' mod 2"

definition batch_budget :: "bool \<Rightarrow> int \<Rightarrow> int \<Rightarrow> int \<Rightarrow> int" where
  "batch_budget write_op pdu size' left =
     (if write_op then min (min 20 left) ((pdu - 12) div (16 + padded size'))
      else min (min (min 20 left) ((pdu - 12) div 12)) ((pdu - 14) div (4 + padded size')))"

definition batch_spec :: "int \<Rightarrow> int \<Rightarrow> bytes result" where
  "batch_spec size' index = concatE [Inr [0x12, 0x0a, 0x10, 2], pack 2 size', pack 2 1, Inr [0x84], to_bytes 3 (index * 256 * 8)]"

definition batch_failure :: "int \<Rightarrow> bool" where
  "batch_failure index \<longleftrightarrow> index mod 7 = 3"

text \<open>One item of a request: the offset into the data and the response data so far.\<close>

definition batch_item :: "bool \<Rightarrow> int \<Rightarrow> int \<Rightarrow> bytes \<Rightarrow> int \<Rightarrow> nat \<Rightarrow> int \<times> bytes \<Rightarrow> (int \<times> bytes) result" where
  "batch_item write_op size' completed req amount position = (\<lambda>(data_offset, response).
     let index = completed + int position; followed = int position + 1 < amount \<and> size' mod 2 \<noteq> 0 in
     bindE (batch_spec size' index) (\<lambda>spec.
     bindE (guardE (slice (12 + position * 12) (24 + position * 12) req = spec)
         (RuntimeError ''multi-batching item lost, repeated, or reordered'')) (\<lambda>_.
     if write_op then
       bindE (concatE [Inr [0, 4], pack 2 (size' * 8), bindE (bytes_of [index]) (\<lambda>b. Inr (concat (replicate (nat size') b)))]) (\<lambda>expected.
       bindE (guardE (slice (nat data_offset) (nat (data_offset + 4 + size')) req = expected)
           (RuntimeError ''multi-batching write payload changed order'')) (\<lambda>_.
       let data_offset = data_offset + 4 + size' in
       bindE (if followed
              then bindE (guardE (slice (nat data_offset) (nat (data_offset + 1)) req = [0])
                     (RuntimeError ''multi-batching write padding mismatch'')) (\<lambda>_. Inr (data_offset + 1))
              else Inr data_offset) (\<lambda>data_offset.
         Inr (data_offset, response @ [if batch_failure index then 5 else 0xff]))))
     else if batch_failure index then Inr (data_offset, response @ [5, 0, 0, 0])
     else
       bindE (concatE [Inr [0xff, 4], pack 2 (size' * 8), bindE (bytes_of [index]) (\<lambda>b. Inr (concat (replicate (nat size') b)))]) (\<lambda>v.
         Inr (data_offset, response @ v @ (if followed then [0] else []))))))"

fun foldE :: "('a \<Rightarrow> 'b \<Rightarrow> 'b result) \<Rightarrow> 'a list \<Rightarrow> 'b \<Rightarrow> 'b result" where
  "foldE f [] b = Inr b"
| "foldE f (x # xs) b = bindE (f x b) (foldE f xs)"

text \<open>One request: the number of items it held and the response.\<close>

definition batch_exchange :: "bool \<Rightarrow> int \<Rightarrow> int \<Rightarrow> int \<Rightarrow> int \<Rightarrow> bytes \<Rightarrow> (int \<times> bytes) result" where
  "batch_exchange write_op pdu size' item_count completed req =
     (let fail = (\<lambda>ok msg. guardE ok (RuntimeError msg)); header = slice 4 10 req;
          function = (if write_op then 5 else 4) in
      bindE (fail (\<not> (len req > pdu \<or> take 2 req \<noteq> [0x32, 1])) ''multi-batching request exceeded negotiated PDU'') (\<lambda>_.
      bindE (guardE (length header = 6) StructError) (\<lambda>_.
      let reference = be_int (slice 0 2 header); parameters_size = be_int (slice 2 4 header); data_size = be_int (slice 4 6 header) in
      bindE (fail (len req = 10 + parameters_size + data_size) ''multi-batching request length mismatch'') (\<lambda>_.
      bindE (at req 10) (\<lambda>f.
      bindE (fail (f = function) ''multi-batching request function/order mismatch'') (\<lambda>_.
      bindE (fail (write_op \<or> data_size = 0) ''multi-batching read request had unexpected data'') (\<lambda>_.
      bindE (at req 11) (\<lambda>n.
      let amount = uint n in
      bindE (fail (amount = batch_budget write_op pdu size' (item_count - completed) \<and> parameters_size = 2 + 12 * amount)
          ''multi-batching count did not match independent budget'') (\<lambda>_.
      bindE (foldE (batch_item write_op size' completed req amount) [0..<nat amount] (10 + parameters_size, [])) (\<lambda>(data_offset, response).
      bindE (fail (\<not> write_op \<or> data_offset = len req) ''multi-batching write request had trailing bytes'') (\<lambda>_.
      bindE (ack reference [function, n] response) (\<lambda>out.
      bindE (fail (\<not> len out > pdu) ''multi-batching peer response exceeded negotiated PDU'') (\<lambda>_.
        Inr (amount, out))))))))))))))"

text \<open>
  The loop \<^verbatim>\<open>while completed < item_count\<close>. A request of no items passes only where not one item fits the
  size; the code would then wait for the next such request, here it is \<open>AssertionError\<close>, which the source never
  raises. The driver's sizes always leave room for an item.
\<close>

function batch_loop :: "bool \<Rightarrow> int \<Rightarrow> int \<Rightarrow> int \<Rightarrow> int \<Rightarrow> nat \<Rightarrow> (net, nat) prog" where
  "batch_loop write_op pdu size' item_count completed rounds =
     (if completed < item_count then
        bindM take_request (\<lambda>req.
        bindM (liftE (batch_exchange write_op pdu size' item_count completed req)) (\<lambda>r.
        thenM (send_pdu (snd r))
          (if 0 < fst r then batch_loop write_op pdu size' item_count (completed + fst r) (rounds + 1)
           else raise AssertionError)))
      else ret rounds)"
  by pat_completeness auto

termination batch_loop
  by (relation "measure (\<lambda>(w, pdu, z, item_count, completed, rounds). nat (item_count - completed))") auto

declare batch_loop.simps [simp del]

definition batch_phase :: "int \<Rightarrow> int \<Rightarrow> int \<Rightarrow> bool \<Rightarrow> (net, unit) prog" where
  "batch_phase pdu item_count size' write_op =
     bindM (batch_loop write_op pdu size' item_count 0 0) (\<lambda>rounds.
       expect (\<not> rounds < 3) ''multi-batching fixture did not exercise multiple boundaries'')"

definition batch_handshake :: "int \<Rightarrow> (net, unit) prog" where
  "batch_handshake pdu =
     bindM receive (\<lambda>cr. thenM (send_confirm cr)
     (bindM take_request (\<lambda>setup_pdu.
      bindM (liftE (at setup_pdu 10)) (\<lambda>f.
      thenM (expect (f = 0xf0) ''expected multi-batching SETUP'')
        (reply (bindE (pack 2 pdu) (\<lambda>size_field. ack (reference_of setup_pdu) ([0xf0, 0, 0, 1, 0, 1] @ size_field) [])))))))"

definition batch_serve :: "int \<Rightarrow> int \<Rightarrow> int \<Rightarrow> (net, exn list) prog" where
  "batch_serve pdu item_count item_size = collects
     (accepting
       (thenM (batch_handshake pdu)
       (thenM (forM [True, False] (batch_phase pdu item_count item_size))
       (bindM receive (\<lambda>frame.
         expect (disconnecting frame) ''multi-batching client did not disconnect'')))))"

section \<open>Properties\<close>

text \<open>A generated correlation history has nine operations: the six kinds of outcome once each in some order, two
  healthy ones, and a terminal one. Every request of it can be encoded, no stale reply carries the reference it
  precedes, and only an overflow is preceded by more than two of them.\<close>

lemma live_history:
  assumes "live_generate seed d terminal = Inr operations"
  shows "length operations = 9
    \<and> mset (List.map (\<lambda>op'. (l_write op', l_status op')) (take 6 operations)) = mset live_specs
    \<and> l_status (last operations) = terminal
    \<and> (\<forall>index < 9. \<exists>req. live_request index (operations ! index) = Inr req)
    \<and> (\<forall>op' \<in> set operations. l_stale op' \<le> (if l_status op' = ''overflow'' then 3 else 2)
         \<and> (\<forall>index. \<forall>k < l_stale op'. (live_reference index - int k - 1) mod 65536 \<noteq> live_reference index))"
proof -
  define specs where "specs = shuffle d live_specs"
  have len_specs: "length specs = 6" by (simp add: specs_def live_specs_def)
  have statuses: "snd x \<in> {''ok'', ''global'', ''item''}" if "x \<in> set specs" for x
    using that by (auto simp: specs_def live_specs_def)
  define val where "val = (\<lambda>k. randrange 0 256 (d (5 + k)))"
  have bytes: "0 \<le> val k" "val k < 256" for k using randrange_bounds[of 0 256] by (simp_all add: val_def)
  define early where "early = List.map (\<lambda>(index, w, status). \<lparr>l_write = w, l_status = status, l_stale = index mod 3, l_value = val index\<rparr>)
      (zip [0..<6] specs)"
  define late where "late = [\<lparr>l_write = True, l_status = ''ok'', l_stale = 2, l_value = val 6\<rparr>,
      \<lparr>l_write = False, l_status = ''ok'', l_stale = 2, l_value = val 7\<rparr>,
      \<lparr>l_write = seed mod 2 \<noteq> 0, l_status = terminal, l_stale = (if terminal = ''overflow'' then 3 else 2), l_value = val 8\<rparr>]"
  have ops: "operations = early @ late"
    using assms len_specs by (auto simp: live_generate_def Let_def guardE_def specs_def val_def early_def late_def split: if_splits)
  have l6: "length early = 6" by (simp add: early_def len_specs)
  have op: "0 \<le> l_value op' \<and> l_value op' < 256 \<and> l_stale op' \<le> (if l_status op' = ''overflow'' then 3 else 2)"
    if o: "op' \<in> set operations" for op'
  proof -
    consider "op' \<in> set early" | "op' \<in> set late" using o ops by auto
    then show ?thesis
    proof cases
      case 1
      then obtain i where i: "i < 6" "op' = early ! i" using l6 by (auto simp: in_set_conv_nth)
      obtain w st where wst: "specs ! i = (w, st)" by fastforce
      have "op' = \<lparr>l_write = w, l_status = st, l_stale = i mod 3, l_value = val i\<rparr>"
        using i wst len_specs by (simp add: early_def)
      moreover have "i mod 3 \<le> 2" using mod_less_divisor[of 3 i] by linarith
      ultimately show ?thesis using bytes[of i] by simp
    next
      case 2
      then show ?thesis using bytes by (auto simp: late_def)
    qed
  qed
  have encode: "\<exists>req. live_request index op' = Inr req" if "op' \<in> set operations" "index < 9" for index op'
  proof -
    have v: "bytes_of [l_value op'] = Inr [byte (l_value op')]" using op[OF that(1)] by (simp add: bytes_of_Inr_iff)
    have "0 \<le> live_reference index" "live_reference index < 65536" by (simp_all add: live_reference_def)
    moreover have "0 \<le> int index * 128" "int index * 128 < 256 ^ 3" using that(2) by simp_all
    ultimately show ?thesis
      using packet_ok[of 1 "live_reference index"] that(2)
      by (simp add: live_request_def v pack_ok to_bytes_ok del: be_bytes_numeral be_bytes.simps)
  qed
  have fresh: "(r - int k - 1) mod 65536 \<noteq> r" if r: "0 \<le> r" "r < 65536" "k < 4" for r k
  proof
    assume "(r - int k - 1) mod 65536 = r"
    then have "(r - int k - 1) mod 65536 = r mod 65536" using r by simp
    then have "65536 dvd r - int k - 1 - r" by (simp only: mod_eq_dvd_iff)
    then have "65536 dvd - (int k + 1)" by (simp add: algebra_simps)
    then have "65536 dvd int k + 1" by (simp only: dvd_minus_iff)
    with zdvd_not_zless[of "int k + 1" 65536] r(3) show False by simp
  qed
  show ?thesis
  proof (intro conjI allI impI ballI)
    show "length operations = 9" by (simp add: ops l6 late_def)
    have "List.map (\<lambda>op'. (l_write op', l_status op')) early = specs"
      by (rule nth_equalityI) (auto simp: early_def len_specs split: prod.splits)
    then show "mset (List.map (\<lambda>op'. (l_write op', l_status op')) (take 6 operations)) = mset live_specs"
      by (simp add: ops l6 specs_def)
    show "l_status (last operations) = terminal" by (simp add: ops late_def)
    show "\<exists>req. live_request index (operations ! index) = Inr req" if "index < 9" for index
      by (rule encode[OF nth_mem that]) (simp add: ops l6 late_def that)
    fix op'
    assume o: "op' \<in> set operations"
    then show "l_stale op' \<le> (if l_status op' = ''overflow'' then 3 else 2)" using op by blast
    show "(live_reference index - int k - 1) mod 65536 \<noteq> live_reference index" if "k < l_stale op'" for index k
      by (rule fresh) (use op[OF o] that in \<open>auto simp: live_reference_def split: if_splits\<close>)
  qed
qed

lemma live_history_example:
  "\<exists>operations. live_generate 7 (\<lambda>i. i) ''overflow'' = Inr operations \<and> length operations = 9"
proof -
  obtain operations where "live_generate 7 (\<lambda>i. i) ''overflow'' = Inr operations" by (simp add: live_generate_def Let_def)
  with live_history[OF this] show ?thesis by blast
qed

text \<open>For every digit from 0 to 15 the clock peer can build its reply, and the value oracle reads the reply's clock as
  the leap-day time with that last millisecond digit when the digit is decimal, and rejects it otherwise.\<close>
lemma clock_peer_digits:
  assumes "0 \<le> digit" "digit < 16"
  shows "\<exists>payload. clock_payload digit = Inr payload \<and> read_clock payload =
    Inr (if digit < 10
         then Some \<lparr>ck_year = 2024, ck_month = 2, ck_day = 29, ck_hour = 23, ck_minute = 59, ck_second = 58,
                ck_millisecond = 120 + digit, ck_weekday = digit mod 7 + 1\<rparr>
         else None)"
proof -
  define w where "w = digit mod 7 + 1"
  have w: "1 \<le> w" "w \<le> 7" "w < 16" by (simp_all add: w_def)
  define final where "final = byte (digit * 16 + w)"
  have nibbles: "int (unat final div 16) = digit" "int (unat final mod 16) = w"
    using final_nibbles[of digit w final] assms w by (simp_all add: final_def)
  have bcds: "List.map (\<lambda>v. byte (bcd v)) [24, 2, 29, 23, 59, 58, 12] = [0x24, 0x02, 0x29, 0x23, 0x59, 0x58, 0x12]"
    by (simp add: bcd_val byte_def)
  define payload where "payload = 0 # 0x19 # List.map (\<lambda>v. byte (bcd v)) [24, 2, 29, 23, 59, 58, 12] @ [final]"
  have "digit * 16 + w < 256" "0 \<le> digit * 16 + w" using assms w by linarith+
  then have "clock_payload digit = Inr payload"
    unfolding payload_def bcds by (simp add: clock_payload_def bytes_of_Inr_iff final_def byte_def flip: w_def)
  moreover have "read_clock payload = Inr (if digit < 10
         then Some \<lparr>ck_year = 2024, ck_month = 2, ck_day = 29, ck_hour = 23, ck_minute = 59, ck_second = 58,
                ck_millisecond = 120 + digit, ck_weekday = w\<rparr>
         else None)"
    using read_packed[of "[24, 2, 29, 23, 59, 58, 12]" 0 "0x19" final] nibbles assms w
    by (auto simp: payload_def Let_def clock_range_def datetime_check_def month_days_def leap_def)
  ultimately show ?thesis by (simp add: w_def)
qed

lemma clock_peer_digits_example: "\<exists>payload. clock_payload 12 = Inr payload \<and> read_clock payload = Inr None"
  using clock_peer_digits[of 12] by simp

lemma foldE_Inr:
  "foldE f xs b = Inr c \<Longrightarrow> (\<And>x b c. x \<in> set xs \<Longrightarrow> f x b = Inr c \<Longrightarrow> P x) \<Longrightarrow> x \<in> set xs \<Longrightarrow> P x"
  by (induction xs arbitrary: b) auto

lemma batch_item_spec:
  assumes "batch_item write_op size' completed req amount position b = Inr c"
  shows "batch_spec size' (completed + int position) = Inr (slice (12 + position * 12) (24 + position * 12) req)"
proof -
  obtain offset response where "b = (offset, response)" by fastforce
  with assms show ?thesis by (auto simp: batch_item_def Let_def)
qed

text \<open>An exchange the batching peer accepts has as many items as its own budget allows, and they are the next ones of
  the caller's list in order, none lost, repeated or swapped; request and response fit the negotiated size, and the
  response is a success or an item failure for each.\<close>

lemma batch_exchange_sound:
  assumes "batch_exchange write_op pdu size' item_count completed req = Inr (amount, out)"
  shows "amount = batch_budget write_op pdu size' (item_count - completed) \<and> amount \<le> 20
    \<and> (\<forall>i < nat amount. batch_spec size' (completed + int i) = Inr (slice (12 + i * 12) (24 + i * 12) req))
    \<and> len req \<le> pdu \<and> len out \<le> pdu
    \<and> (\<exists>response. ack (reference_of req) [if write_op then 5 else 4, byte amount] response = Inr out)"
proof -
  have bounds: "len req \<le> pdu" "len out \<le> pdu" and n: "amount = uint (req ! 11)"
      "amount = batch_budget write_op pdu size' (item_count - completed)"
    using assms by (auto simp: batch_exchange_def Let_def simp del: slice_0 split: prod.splits)
  have "\<exists>offset response.
      foldE (batch_item write_op size' completed req (uint (req ! 11))) [0..<unat (req ! 11)]
         (10 + be_int (slice 2 4 (slice 4 10 req)), []) = Inr (offset, response)
      \<and> ack (be_int (slice 0 2 (slice 4 10 req))) [if write_op then 5 else 4, req ! 11] response = Inr out"
    using assms by (auto simp: batch_exchange_def Let_def simp del: slice_0 split: prod.splits if_splits)
  then obtain offset response where
      x: "foldE (batch_item write_op size' completed req amount) [0..<nat amount]
         (10 + be_int (slice 2 4 (slice 4 10 req)), []) = Inr (offset, response)"
      "ack (be_int (slice 0 2 (slice 4 10 req))) [if write_op then 5 else 4, byte amount] response = Inr out"
    using n(1) by auto
  have "batch_spec size' (completed + int i) = Inr (slice (12 + i * 12) (24 + i * 12) req)" if "i < nat amount" for i
    using foldE_Inr[OF x(1), of "\<lambda>i. batch_spec size' (completed + int i) = Inr (slice (12 + i * 12) (24 + i * 12) req)" i]
      batch_item_spec that by fastforce
  moreover have "slice 0 2 (slice 4 10 req) = slice 4 6 req" using slice_slice[of 4 2 10 0 req] by simp
  moreover have "amount \<le> 20" using n(2) by (simp add: batch_budget_def split: if_splits)
  ultimately show ?thesis using x(2) bounds n(2) by (auto simp: reference_of_def simp del: slice_0)
qed

definition ex_batch :: bytes where
  "ex_batch = [0x32, 1, 0, 0, 0, 7, 0, 14, 0, 5, 5, 1, 0x12, 0x0a, 0x10, 2, 0, 1, 0, 1, 0x84, 0, 0, 0, 0, 4, 0, 8, 0]"

lemma ex_batch_exchange: "\<exists>out. batch_exchange True 240 1 1 0 ex_batch = Inr (1, out)"
proof -
  have "(case batch_exchange True 240 1 1 0 ex_batch of Inr (n, out) \<Rightarrow> n = 1 | _ \<Rightarrow> False)" by code_simp
  then show ?thesis by (auto split: sum.splits prod.splits)
qed

lemma batch_exchange_sound_example: "batch_spec 1 0 = Inr (slice 12 24 ex_batch)"
proof -
  obtain out where "batch_exchange True 240 1 1 0 ex_batch = Inr (1, out)" using ex_batch_exchange by blast
  from batch_exchange_sound[OF this] show ?thesis by simp
qed

lemma seamless_batch_loop [stream_intros]: "seamless (batch_loop write_op pdu size' item_count completed rounds)"
proof (induction write_op pdu size' item_count completed rounds rule: batch_loop.induct)
  case (1 write_op pdu size' item_count completed rounds)
  show ?case
  proof (cases "completed < item_count")
    case True
    have rest: "seamless (if 0 < fst r then batch_loop write_op pdu size' item_count (completed + fst r) (rounds + 1)
        else raise AssertionError)" for r :: "int \<times> bytes"
      using 1[OF True] by (auto intro: stream_intros)
    show ?thesis using True by (subst batch_loop.simps) (simp only: if_True, intro stream_intros rest)
  qed (simp add: batch_loop.simps stream_intros)
qed

lemma seamless_live_step [stream_intros]: "seamless (live_step x)"
  unfolding live_step_def split_beta by (intro stream_intros)

lemma seamless_live_serve: "seamless (live_serve pdu operations)"
  unfolding live_serve_def by (intro stream_intros)

lemma seamless_clock_serve: "seamless (clock_serve digit)"
  unfolding clock_serve_def by (intro stream_intros)

lemma seamless_batch_serve: "seamless (batch_serve pdu item_count item_size)"
  unfolding batch_serve_def batch_handshake_def batch_phase_def by (intro stream_intros)

end
