(* ===== verification/Retries.thy ===== *)
theory Retries
  imports Live
begin

text \<open>
  \<^verbatim>\<open>retry_budgets.py\<close>, \<^verbatim>\<open>reconnect_faults.py\<close> and \<^verbatim>\<open>generative_reconnect.py\<close>: how many
  connections and sends a client with a retry budget may make, the peers that hold it to that number, and the
  generated cases.
\<close>

section \<open>Repeated failures\<close>

definition expected_attempts :: "string \<Rightarrow> int \<Rightarrow> int \<Rightarrow> int \<times> bool" where
  "expected_attempts mode budget drops =
     (let replay = mode \<in> {''read'', ''raw-opt-in'', ''write-opt-in''};
          success = drops = 0 \<or> replay \<and> drops \<le> budget
      in (if success then drops + 1 else if replay then budget + 1 else 1, success))"

definition is_write :: "string \<Rightarrow> bool" where
  "is_write mode \<longleftrightarrow> take 5 mode = ''write''"

text \<open>A request compared with the expected one but for its reference.\<close>

definition wire_check :: "string \<Rightarrow> bytes \<Rightarrow> bytes \<Rightarrow> bytes \<Rightarrow> int result" where
  "wire_check msg parameters data req =
     bindE (packet 1 0 parameters data) (\<lambda>expected.
     bindE (guardE (same_masked req expected) (RuntimeError msg)) (\<lambda>_. Inr (reference_of req)))"

definition retry_parameters :: "bool \<Rightarrow> bytes" where
  "retry_parameters w = [if w then 5 else 4, 1, 0x12, 0x0a, 0x10, 2, 0, 1, 0, 1, 0x84, 0, 0, 0]"

definition retry_data :: "bool \<Rightarrow> bytes" where
  "retry_data w = (if w then [0, 4, 0, 8, 0x2a] else [])"

definition retry_check :: "bytes \<Rightarrow> bool \<Rightarrow> int result" where
  "retry_check req w =
     wire_check ''retry-budget request changed operation/address/payload'' (retry_parameters w) (retry_data w) req"

text \<open>One attempt; the state is the first request, once there is one.\<close>

definition retry_attempt :: "string \<Rightarrow> int \<Rightarrow> int \<Rightarrow> bool \<Rightarrow> nat \<Rightarrow> bytes option \<Rightarrow> (net, bytes option) prog" where
  "retry_attempt mode drops attempts success index original = accepting
     (thenM (boundary_handshake 480)
     (bindM take_request (\<lambda>req.
      bindM (liftE (retry_check req (is_write mode))) (\<lambda>reference.
      thenM (expect (original = None \<or> original = Some req) ''repeated retry changed exact request/reference'')
      (let original = (if original = None then Some req else original) in
       if int index < drops then thenM (note_io Shutdown) (ret original)
       else
         thenM (expect (\<not> (\<not> success \<or> int index + 1 \<noteq> attempts)) ''independent attempt accounting diverged'')
        (thenM (reply (ack reference [if is_write mode then 5 else 4, 1]
           (if is_write mode then [0xff] else [0xff, 4, 0, 8, 0x2a])))
        (thenM closed_check (ret original))))))))"

definition retry_serve :: "string \<Rightarrow> int \<Rightarrow> int \<Rightarrow> (net, exn list) prog" where
  "retry_serve mode budget drops = collects
     (case expected_attempts mode budget drops of (attempts, success) \<Rightarrow>
        thenM (foldM (retry_attempt mode drops attempts success) [0..<nat attempts] None)
          (no_reconnect ''retry allowance exceeded or exhausted client resurrected''))"

section \<open>Failures while reconnecting\<close>

record rcase =
  rc_mode :: string
  rc_fault :: string
  rc_budget :: int
  rc_failures :: int

definition ends_eof :: "string \<Rightarrow> bool" where
  "ends_eof s \<longleftrightarrow> 3 \<le> length s \<and> drop (length s - 3) s = ''eof''"

definition rc_succeeds :: "rcase \<Rightarrow> bool" where
  "rc_succeeds c \<longleftrightarrow> ends_eof (rc_fault c) \<and> rc_failures c < rc_budget c"

definition rc_sessions :: "rcase \<Rightarrow> int" where
  "rc_sessions c =
     (if rc_budget c = 0 then 1
      else if \<not> ends_eof (rc_fault c) then 2
      else 1 + (if rc_succeeds c then rc_failures c + 1 else rc_budget c))"

abbreviation rcase_of :: "string \<Rightarrow> string \<Rightarrow> int \<Rightarrow> int \<Rightarrow> rcase" where
  "rcase_of m f b n \<equiv> \<lparr>rc_mode = m, rc_fault = f, rc_budget = b, rc_failures = n\<rparr>"

definition modes :: "string list" where
  "modes = [''read'', ''raw'', ''write'', ''multi'']"

definition transient :: "string list" where
  "transient = [''cotp-eof'', ''setup-eof'']"

definition terminal :: "string list" where
  "terminal = [''cotp-invalid'', ''setup-invalid'', ''setup-reject'', ''setup-shrink'']"

definition fixed_of :: "string \<Rightarrow> rcase list" where
  "fixed_of mode =
     concat (List.map (\<lambda>fault. concat (List.map (\<lambda>budget.
        List.map (rcase_of mode fault budget) (if max 0 (budget - 1) = budget then [budget] else [max 0 (budget - 1), budget]))
       [0, 1, 2, 4])) transient)
     @ List.map (\<lambda>fault. rcase_of mode fault 4 1) terminal
     @ (if mode \<noteq> ''raw'' then [rcase_of mode ''deadline'' 4 1] else [])"

definition fixed_cases :: "rcase list" where
  "fixed_cases = concat (List.map fixed_of modes)"

definition op_width :: "string \<Rightarrow> nat" where
  "op_width mode = (if mode = ''multi'' then 2 else 1)"

definition op_writes :: "string \<Rightarrow> bool" where
  "op_writes mode \<longleftrightarrow> mode \<in> {''write'', ''multi''}"

definition op_parameters :: "string \<Rightarrow> bytes result" where
  "op_parameters mode =
     concatE (Inr [if op_writes mode then 5 else 4, byte (int (op_width mode))]
       # List.map (\<lambda>index. concatE [Inr [0x12, 0x0a, 0x10, 2, 0, 1, 0, 1, 0x84], to_bytes 3 (int index * 32)]) [0..<op_width mode])"

definition op_data :: "string \<Rightarrow> bytes" where
  "op_data mode =
     (if op_writes mode
      then concat (List.map (\<lambda>index. [0, 4, 0, 8, byte (42 + int index)] @ (if index + 1 < op_width mode then [0] else []))
             [0..<op_width mode])
      else [])"

definition operation_check :: "bytes \<Rightarrow> string \<Rightarrow> int result" where
  "operation_check req mode =
     bindE (op_parameters mode) (\<lambda>parameters.
       wire_check ''reconnect operation changed address/order/payload'' parameters (op_data mode) req)"

definition reconnect_setup :: bytes where
  "reconnect_setup = [0x32, 1, 0, 0, 0, 1, 0, 8, 0, 0, 0xf0, 0, 0, 1, 0, 1, 1, 0xe0]"

definition reconnect_response :: "string option \<Rightarrow> bytes \<Rightarrow> bytes result" where
  "reconnect_response fault setup_pdu =
     bindE (ack (if fault = Some ''setup-invalid'' then 2 else 1)
        (slice 10 16 setup_pdu @ (if fault = Some ''setup-shrink'' then [0, 240] else [1, 224])) []) (\<lambda>response.
     Inr (if fault = Some ''setup-reject'' then reject_globally response else response))"

definition reconnect :: "string option \<Rightarrow> (net, bool) prog" where
  "reconnect fault =
     bindM receive (\<lambda>cr.
     thenM (expect (\<not> (length cr \<noteq> 18 \<or> take 2 cr \<noteq> [0x11, 0xe0])) ''reconnect COTP request malformed'')
     (if fault = Some ''cotp-eof'' then thenM (note_io Shutdown) (ret False)
      else bindM (liftE (confirm cr)) (\<lambda>cc.
        if fault = Some ''cotp-invalid''
        then thenM (tpkt_send (take 2 cc @ [0xff, 0xff] @ drop 4 cc)) (thenM closed_check (ret False))
        else thenM (tpkt_send cc)
         (bindM take_request (\<lambda>setup_pdu.
          thenM (expect (setup_pdu = reconnect_setup) ''reconnect setup request changed'')
          (if fault = Some ''setup-eof'' then thenM (note_io Shutdown) (ret False)
           else thenM (reply (reconnect_response fault setup_pdu))
            (if fault \<noteq> None then thenM closed_check (ret False) else ret True)))))))"

definition lost_operation :: "string \<Rightarrow> (net, bytes \<times> int) prog" where
  "lost_operation mode = accepting
     (thenM (boundary_handshake 480)
     (bindM take_request (\<lambda>original.
      bindM (liftE (operation_check original mode)) (\<lambda>reference.
      thenM (note_io Shutdown) (ret (original, reference))))))"

definition reconnect_session :: "rcase \<Rightarrow> bytes \<Rightarrow> int \<Rightarrow> nat \<Rightarrow> nat \<Rightarrow> (net, nat) prog" where
  "reconnect_session c original reference index sends = accepting
     (let recovery = rc_succeeds c \<and> int index = rc_sessions c - 1; mode = rc_mode c in
      bindM (reconnect (if recovery then None else Some (rc_fault c))) (\<lambda>ready.
      thenM (expect (ready = recovery) ''reconnect stage unexpectedly ready'')
      (if \<not> ready then ret sends
       else bindM take_request (\<lambda>req.
         thenM (liftE (operation_check req mode))
        (thenM (expect (req = original) ''reconnect changed exact original request/reference'')
        (thenM (reply (ack reference [if op_writes mode then 5 else 4, byte (int (op_width mode))]
           (if op_writes mode then replicate (op_width mode) 0xff else [0xff, 4, 0, 8, 0x2a])))
        (thenM closed_check (ret (sends + 1)))))))))"

definition reconnect_serve :: "rcase \<Rightarrow> (net, exn list) prog" where
  "reconnect_serve c = collects
     (bindM (lost_operation (rc_mode c)) (\<lambda>(original, reference).
      bindM (foldM (reconnect_session c original reference) [1..<nat (rc_sessions c)] 1) (\<lambda>sends.
      thenM (expect (sends = (if rc_succeeds c then 2 else 1)) ''operation sends differ from independent count'')
        (no_reconnect ''reconnect allowance exceeded''))))"

section \<open>Generated cases\<close>

record gates =
  g_recovered :: bool
  g_connections :: int
  g_sends :: int
  g_write_attempts :: int
  g_acknowledged :: int
  g_pending :: int
  g_replayed :: int
  g_chronology :: "string list"

definition gates_of :: "rcase \<Rightarrow> gates" where
  "gates_of c =
     (let tr = rc_fault c \<in> set transient;
          recovered = tr \<and> rc_budget c > rc_failures c;
          reconnects = (if rc_budget c = 0 then 0 else if tr then min (rc_budget c) (rc_failures c + 1) else 1);
          sends = 1 + of_bool recovered;
          width = (if rc_mode c = ''multi'' then 2 else of_bool (rc_mode c = ''write''));
          replayed = rc_budget c > 0;
          original = (if replayed then ''replayed-unknown'' else ''pending'');
          chronology = replicate (nat width) original @ (if recovered then replicate (nat width) ''acknowledged'' else [])
      in \<lparr>g_recovered = recovered, g_connections = 1 + reconnects, g_sends = sends, g_write_attempts = width * sends,
          g_acknowledged = width * of_bool recovered, g_pending = width * of_bool (\<not> replayed),
          g_replayed = width * of_bool replayed, g_chronology = chronology\<rparr>)"

definition case_count :: nat where
  "case_count = 32"

text \<open>\<^verbatim>\<open>list(dict.fromkeys(xs))\<close>: the first of equal elements stays.\<close>

definition dedup :: "'a list \<Rightarrow> 'a list" where
  "dedup xs = rev (remdups (rev xs))"

definition case_pool :: "rcase list" where
  "case_pool =
     List.filter (\<lambda>c. c \<notin> set fixed_cases)
       (List.map (\<lambda>((m, f), b, n). rcase_of m f b n)
         (List.product (List.product modes transient) (List.product [0, 1, 2, 3, 4] [0, 1, 2, 3, 4])))
     @ List.map (\<lambda>((m, f), b). rcase_of m f b 1) (List.product (List.product modes terminal) [1, 2, 3])"

definition case_strata :: "draws \<Rightarrow> rcase list" where
  "case_strata d = dedup
     (List.map (\<lambda>(k, m, f). rcase_of m f 3 (randrange 0 5 (d k))) (zip [0..<8] (List.product modes transient))
      @ [rcase_of ''read'' ''cotp-eof'' 0 4, rcase_of ''write'' ''setup-eof'' 4 0]
      @ List.map (\<lambda>(k, m, f). rcase_of m f (randrange 1 4 (d (8 + k))) 1) (zip [0..<4] (zip modes terminal))
      @ [rcase_of ''multi'' ''cotp-eof'' 3 4])"

definition generate_cases :: "int \<Rightarrow> draws \<Rightarrow> rcase list result" where
  "generate_cases seed d =
     bindE (guardE (0 \<le> seed \<and> seed \<le> 0xffffffff) ValueError) (\<lambda>_.
     let selected = case_strata d;
         remaining = List.filter (\<lambda>c. c \<notin> set selected) case_pool
     in Inr (shuffle (rest_of (12 + (length remaining - 1)) d)
          (selected @ take (case_count - length selected) (shuffle (rest_of 12 d) remaining))))"

section \<open>The two accountings agree\<close>

lemma eof_faults: "f \<in> set transient \<Longrightarrow> ends_eof f" "f \<in> set terminal \<Longrightarrow> \<not> ends_eof f \<and> f \<notin> set transient"
  by (auto simp: transient_def terminal_def ends_eof_def)

text \<open>A case the generator may choose.\<close>

definition plain_case :: "rcase \<Rightarrow> bool" where
  "plain_case c \<longleftrightarrow> rc_mode c \<in> set modes \<and> rc_fault c \<in> set transient \<union> set terminal \<and> 0 \<le> rc_budget c \<and> 0 \<le> rc_failures c"

definition accounted :: "rcase \<Rightarrow> bool" where
  "accounted c \<longleftrightarrow>
     (let g = gates_of c in
      g_recovered g = rc_succeeds c \<and> g_connections g = rc_sessions c
      \<and> 1 \<le> g_connections g \<and> g_connections g \<le> rc_budget c + 1
      \<and> g_sends g = (if rc_succeeds c then 2 else 1)
      \<and> len (g_chronology g) = g_write_attempts g
      \<and> g_acknowledged g + g_pending g + g_replayed g = g_write_attempts g
      \<and> len (List.filter (\<lambda>e. e = ''acknowledged'') (g_chronology g)) = g_acknowledged g)"

lemma plain_accounted: "plain_case c \<Longrightarrow> accounted c"
proof -
  assume p: "plain_case c"
  define w :: int where "w = (if rc_mode c = ''multi'' then 2 else of_bool (rc_mode c = ''write''))"
  have w: "0 \<le> w" by (simp add: w_def)
  consider "rc_fault c \<in> set transient" "ends_eof (rc_fault c)" | "rc_fault c \<notin> set transient" "\<not> ends_eof (rc_fault c)"
    using p eof_faults by (auto simp: plain_case_def)
  then show ?thesis
  proof cases
    case 1
    with p w show ?thesis
      by (simp add: accounted_def gates_of_def Let_def w_def[symmetric] rc_succeeds_def rc_sessions_def plain_case_def len_def
          filter_replicate)
  next
    case 2
    with p w show ?thesis
      by (simp add: accounted_def gates_of_def Let_def w_def[symmetric] rc_succeeds_def rc_sessions_def plain_case_def len_def
          filter_replicate)
  qed
qed

section \<open>What is generated\<close>

lemma distinct_dedup [simp]: "distinct (dedup xs)"
  by (simp add: dedup_def)

lemma set_dedup [simp]: "set (dedup xs) = set xs"
  by (simp add: dedup_def)

lemma length_dedup: "length (dedup xs) \<le> length xs"
  using length_remdups_leq[of "rev xs"] by (simp add: dedup_def)

lemma fixed_case:
  assumes "c \<in> set fixed_cases"
  shows "rc_fault c \<in> set transient \<and> rc_budget c \<in> {0, 1, 2, 4} \<and> rc_failures c \<in> {max 0 (rc_budget c - 1), rc_budget c}
    \<or> rc_fault c \<notin> set transient \<and> rc_budget c = 4"
  using assms by (auto simp: fixed_cases_def fixed_of_def transient_def terminal_def split: if_splits)

lemma strata_plain:
  assumes "c \<in> set (case_strata d)"
  shows "plain_case c \<and> c \<notin> set fixed_cases"
proof -
  consider (drawn) k m f where "c = rcase_of m f 3 (randrange 0 5 (d k))" "(k, m, f) \<in> set (zip [0..<8] (List.product modes transient))"
    | (first) "c = rcase_of ''read'' ''cotp-eof'' 0 4" | (second) "c = rcase_of ''write'' ''setup-eof'' 4 0"
    | (ends) k m f where "c = rcase_of m f (randrange 1 4 (d (8 + k))) 1" "(k, m, f) \<in> set (zip [0..<4] (zip modes terminal))"
    | (last) "c = rcase_of ''multi'' ''cotp-eof'' 3 4"
    using assms unfolding case_strata_def by auto
  then show ?thesis
  proof cases
    case drawn
    then have "m \<in> set modes" "f \<in> set transient" using set_zip_rightD[OF drawn(2)] by auto
    then show ?thesis using drawn(1) fixed_case[of c] randrange_bounds[of 0 5 "d k"] by (auto simp: plain_case_def)
  next
    case ends
    have "(m, f) \<in> set (zip modes terminal)" by (rule set_zip_rightD[OF ends(2)])
    then have "m \<in> set modes" "f \<in> set terminal" by (auto dest: set_zip_leftD set_zip_rightD)
    then show ?thesis
      using ends(1) fixed_case[of c] randrange_bounds[of 1 4 "d (8 + k)"] eof_faults(2) by (auto simp: plain_case_def)
  qed (use fixed_case[of c] in \<open>auto simp: plain_case_def modes_def transient_def\<close>)
qed

lemma pool_plain: "c \<in> set case_pool \<Longrightarrow> plain_case c \<and> c \<notin> set fixed_cases"
proof -
  assume c: "c \<in> set case_pool"
  then consider m f b n where "c = rcase_of m f b n" "m \<in> set modes" "f \<in> set transient" "b \<in> {0, 1, 2, 3, 4}" "n \<in> {0, 1, 2, 3, 4}"
      "c \<notin> set fixed_cases"
    | m f b where "c = rcase_of m f b 1" "m \<in> set modes" "f \<in> set terminal" "b \<in> {1, 2, 3}"
    unfolding case_pool_def by auto
  then show ?thesis
  proof cases
    case 1
    then show ?thesis by (auto simp: plain_case_def)
  next
    case 2
    then have "f \<notin> set transient" using eof_faults(2) by blast
    with 2 show ?thesis using fixed_case[of c] by (auto simp: plain_case_def)
  qed
qed

lemma distinct_pool: "distinct case_pool"
proof -
  have names: "distinct modes" "distinct transient" "distinct terminal" by (simp_all add: modes_def transient_def terminal_def)
  have "inj_on (\<lambda>((m, f), b, n). rcase_of m f b n) A" for A by (auto simp: inj_on_def)
  then have a: "distinct (List.map (\<lambda>((m, f), b, n). rcase_of m f b n)
         (List.product (List.product modes transient) (List.product [0, 1, 2, 3, 4] [0, 1, 2, 3, 4])))"
    using names by (simp add: distinct_map distinct_product)
  have "inj_on (\<lambda>((m, f), b). rcase_of m f b 1) A" for A by (auto simp: inj_on_def)
  then have b: "distinct (List.map (\<lambda>((m, f), b). rcase_of m f b 1) (List.product (List.product modes terminal) [1, 2, 3]))"
    using names by (simp add: distinct_map distinct_product)
  have "set transient \<inter> set terminal = {}" using eof_faults by blast
  then show ?thesis unfolding case_pool_def distinct_append using a b by fastforce
qed

lemma distinct_strata: "distinct (case_strata d)"
  unfolding case_strata_def by (rule distinct_dedup)

lemma length_strata: "length (case_strata d) \<le> 15"
  unfolding case_strata_def by (rule order_trans[OF length_dedup]) (simp add: modes_def transient_def terminal_def)

lemma length_pool: "48 \<le> length case_pool"
  by (simp add: case_pool_def modes_def terminal_def)

lemma strata_modes:
  assumes "m \<in> set modes" "f \<in> set transient"
  shows "\<exists>c \<in> set (case_strata d). rc_mode c = m \<and> rc_fault c = f"
proof -
  have l: "length (List.product modes transient) = 8" by (simp add: modes_def transient_def)
  have "(m, f) \<in> set (List.product modes transient)" using assms by simp
  then obtain k where k: "k < 8" "List.product modes transient ! k = (m, f)" using l by (metis in_set_conv_nth)
  then have "(k, m, f) \<in> set (zip [0..<8] (List.product modes transient))" using l by (auto simp: in_set_zip intro!: exI[of _ k])
  then have "rcase_of m f 3 (randrange 0 5 (d k)) \<in> set (case_strata d)"
    unfolding case_strata_def set_dedup set_append set_map by (intro UnI1 image_eqI[where x = "(k, m, f)"]) simp_all
  then show ?thesis by force
qed

lemma strata_terminal:
  assumes "f \<in> set terminal"
  shows "\<exists>c \<in> set (case_strata d). rc_fault c = f"
proof -
  have l: "length terminal = 4" "length modes = 4" by (simp_all add: modes_def terminal_def)
  obtain k where k: "k < 4" "terminal ! k = f" using assms l by (metis in_set_conv_nth)
  then have "(k, modes ! k, f) \<in> set (zip [0..<4] (zip modes terminal))" using l by (auto simp: in_set_zip intro!: exI[of _ k])
  then have "rcase_of (modes ! k) f (randrange 1 4 (d (8 + k))) 1 \<in> set (case_strata d)"
    unfolding case_strata_def set_dedup set_append set_map
    by (intro UnI2 UnI1 image_eqI[where x = "(k, modes ! k, f)"]) simp_all
  then show ?thesis by force
qed

text \<open>Whatever is drawn, the generator returns 32 different cases, none of them one of the 75 fixed ones, with every mode
  under every transient fault and every terminal fault among them. On each of them the case's own count of sessions and
  its verdict agree with the independent accounting of connections, sends and write attempts.\<close>

lemma generated_cases:
  assumes "generate_cases seed d = Inr cases"
  shows "length cases = case_count \<and> distinct cases \<and> set cases \<inter> set fixed_cases = {}
    \<and> set modes \<times> set transient \<subseteq> {(rc_mode c, rc_fault c) | c. c \<in> set cases} \<and> set terminal \<subseteq> rc_fault ` set cases
    \<and> (\<forall>c \<in> set cases. accounted c)"
proof -
  define selected where "selected = case_strata d"
  define remaining where "remaining = List.filter (\<lambda>c. c \<notin> set selected) case_pool"
  define added where "added = take (case_count - length selected) (shuffle (rest_of 12 d) remaining)"
  have "cases = shuffle (rest_of (12 + (length remaining - 1)) d) (selected @ added)"
    using assms unfolding generate_cases_def Let_def
    by (auto simp only: bindE_Inr_iff sum.inject selected_def remaining_def added_def)
  then have m: "mset cases = mset (selected @ added)" by simp
  then have set: "set cases = set selected \<union> set added" using mset_eq_setD[OF m] by (simp only: set_append)
  have sl: "length selected \<le> 15" by (simp add: selected_def length_strata)
  have "card (set case_pool) - card (set selected) \<le> card (set case_pool - set selected)" by (rule diff_card_le_card_Diff) simp
  moreover have "card (set case_pool - set selected) = length remaining"
    using distinct_pool 
    by (simp only: remaining_def distinct_length_filter) (rule arg_cong[where f = card], blast)
  moreover have "card (set case_pool) = length case_pool" using distinct_pool by (rule distinct_card)
  moreover have "card (set selected) = length selected" unfolding selected_def using distinct_strata by (rule distinct_card)
  ultimately have rl: "33 \<le> length remaining" using length_pool sl by linarith
  have al: "length added = case_count - length selected" using rl sl by (simp add: added_def case_count_def)
  have "length cases = case_count" using m mset_eq_length[OF m] al sl by (simp add: case_count_def)
  moreover have "distinct cases"
  proof -
    have a: "set added \<subseteq> set remaining" unfolding added_def using set_take_subset by fastforce
    have "mset (shuffle (rest_of 12 d) remaining) = mset remaining" by simp
    then have "distinct (shuffle (rest_of 12 d) remaining)"
      using distinct_pool mset_eq_imp_distinct_iff by (fastforce simp: remaining_def)
    then have "distinct added" by (simp add: added_def)
    moreover have "distinct selected" unfolding selected_def by (rule distinct_strata)
    ultimately have "distinct (selected @ added)" using a by (auto simp: remaining_def)
    then show ?thesis using m mset_eq_imp_distinct_iff by blast
  qed
  moreover have plain: "plain_case c \<and> c \<notin> set fixed_cases" if "c \<in> set cases" for c
  proof -
    have "set added \<subseteq> set case_pool" unfolding added_def remaining_def using set_take_subset by fastforce
    then show ?thesis using that strata_plain pool_plain unfolding set selected_def by blast
  qed
  moreover have "set modes \<times> set transient \<subseteq> {(rc_mode c, rc_fault c) | c. c \<in> set cases}" "set terminal \<subseteq> rc_fault ` set cases"
    using strata_modes[where d = d] strata_terminal[where d = d] unfolding set selected_def by blast+
  ultimately show ?thesis using plain_accounted by blast
qed

lemma generated_cases_example:
  "\<exists>cases. generate_cases 7 (\<lambda>i. i) = Inr cases \<and> length cases = 32"
proof -
  obtain cases where "generate_cases 7 (\<lambda>i. i) = Inr cases" by (simp add: generate_cases_def Let_def)
  from generated_cases[OF this] this show ?thesis by (auto simp: case_count_def)
qed

section \<open>A client that makes the allowed attempts\<close>

text \<open>What an attempt leaves alone.\<close>

definition calm :: "net \<Rightarrow> net \<Rightarrow> bool" where
  "calm s t \<longleftrightarrow> backlog t = backlog s \<and> faults t = faults s"

lemma calm_trans: "calm s t \<Longrightarrow> calm t u \<Longrightarrow> calm s u"
  by (simp add: calm_def)

lemma bindM_at: "m s = (Inr a, t) \<Longrightarrow> bindM m f s = f a t"
  by (simp add: bindM_def)

lemma thenM_at: "m s = (Inr a, t) \<Longrightarrow> thenM m n s = n t"
  by (simp add: thenM_def bindM_def)

lemma expect_at: "ok \<Longrightarrow> thenM (expect ok msg) n s = n s"
  by (simp add: expect_def guardM_def guardE_def liftE_def thenM_def bindM_def)

lemma tpkt_send_at:
  assumes "length p + 4 < 65536" "faults s = []"
  shows "\<exists>t. tpkt_send p s = (Inr (), t) \<and> calm s t \<and> rx t = rx s"
proof -
  obtain f where f: "tpkt_frame p = Inr f" using assms(1) by (simp add: tpkt_frame_layout)
  show ?thesis using assms(2) by (simp add: tpkt_send_frame f sendall_def calm_def)
qed

lemma reply_at:
  assumes "pdu = Inr p" "length p + 7 < 65536" "faults s = []"
  shows "\<exists>t. reply pdu s = (Inr (), t) \<and> calm s t \<and> rx t = rx s"
proof -
  have "length (cotp_data @ p) + 4 < 65536" using assms(2) by (simp add: cotp_data_def)
  from tpkt_send_at[OF this assms(3)] show ?thesis
    by (simp add: assms(1) reply_def send_pdu_def bindM_def liftE_def)
qed

lemma ack_length: "length p < 60000 \<Longrightarrow> length d < 1000 \<Longrightarrow> 0 \<le> r \<Longrightarrow> r < 65536 \<Longrightarrow>
    \<exists>q. ack r p d = Inr q \<and> length q = 12 + length p + length d"
  by (simp add: ack_def pack_def len_def)

lemma handshake_at:
  assumes "tpkt_frame cr = Inr crf" "6 \<le> length cr" "s7_frame setup_pdu = Inr sf"
    and "drop 10 setup_pdu = [0xf0, 0, 0, 1, 0, 1, 1, 0xe0]"
    and "flat (rx s) = List.map B (crf @ sf) @ rest" "faults s = []"
  shows "\<exists>t. boundary_handshake 480 s = (Inr (), t) \<and> calm s t \<and> flat (rx t) = rest"
proof -
  obtain t1 where t1: "receive s = (Inr cr, t1)" "flat (rx t1) = List.map B sf @ rest" "t1 = s\<lparr>rx := rx t1\<rparr>"
    using mb.get_frame[OF assms(1), of s "List.map B sf @ rest"] assms(5) by auto
  have f1: "faults t1 = []" "backlog t1 = backlog s" using assms(6) by (subst t1(3), simp)+
  define cc where "cc = [0x11, 0xd0, cr ! 4, cr ! 5, 0, 1, 0] @ drop 7 cr"
  have cc: "confirm cr = Inr cc" using assms(2) by (simp add: confirm_def at_def cc_def)
  have "length cc + 4 < 65536" using assms(1) by (auto simp: cc_def tpkt_frame_layout)
  then obtain t2 where t2: "tpkt_send cc t1 = (Inr (), t2)" "calm t1 t2" "rx t2 = rx t1" using tpkt_send_at[OF _ f1(1)] by blast
  obtain t3 where t3: "take_request t2 = (Inr setup_pdu, t3)" "flat (rx t3) = rest" "t3 = t2\<lparr>rx := rx t3\<rparr>"
    using s7_get(1)[OF assms(3), of t2 rest] t1(2) t2(3) by auto
  have f3: "faults t3 = []" "backlog t3 = backlog s" using f1 t2(2) unfolding calm_def by (subst t3(3), simp)+
  have sl: "length setup_pdu = 18"
  proof -
    have "length (drop 10 setup_pdu) = 8" unfolding assms(4) by simp
    then show ?thesis by simp
  qed
  have sp: "slice 10 16 setup_pdu = [0xf0, 0, 0, 1, 0, 1]" by (simp add: slice_def assms(4))
  have rb: "0 \<le> reference_of setup_pdu" "reference_of setup_pdu < 65536"
    using be_int_nonneg be_int_bound[of "slice 4 6 setup_pdu"] sl by (simp_all add: reference_of_def length_slice)
  obtain q where q: "ack (reference_of setup_pdu) ([0xf0, 0, 0, 1, 0, 1] @ be_bytes 2 480) [] = Inr q" "length q = 20"
    using ack_length[of "[0xf0, 0, 0, 1, 0, 1] @ be_bytes 2 480" "[]", OF _ _ rb] by auto
  have r: "bindE (pack 2 480) (\<lambda>size_field. ack (reference_of setup_pdu) (slice 10 16 setup_pdu @ size_field) []) = Inr q"
    using q(1) by (simp add: sp pack_def del: be_bytes_numeral)
  obtain t4 where t4: "reply (Inr q) t3 = (Inr (), t4)" "calm t3 t4" "rx t4 = rx t3"
    using reply_at[OF refl _ f3(1), of q] q(2) by auto
  have "boundary_handshake 480 s = (Inr (), t4)"
    unfolding boundary_handshake_def send_confirm_def
    by (simp add: bindM_def thenM_def liftE_def expect_def guardM_def guardE_def t1(1) cc t2(1) t3(1) assms(4) r t4(1))
  moreover have "calm s t4" using f3 t4(2) assms(6) by (simp add: calm_def)
  ultimately show ?thesis using t3(2) t4(3) by auto
qed


lemma retry_check_ok:
  assumes "packet 1 r (retry_parameters w) (retry_data w) = Inr req"
  shows "retry_check req w = Inr r"
proof -
  obtain expected where e: "packet 1 0 (retry_parameters w) (retry_data w) = Inr expected" using packet_reference[OF assms] by blast
  have "masked_check ''wire'' (len req) req expected = Inr r" using masked_check_iff[OF e] assms by simp
  then have "same_masked req expected" "be_int (slice 4 6 req) = r" by (simp_all add: masked_check_def split: if_splits)
  then show ?thesis by (simp add: retry_check_def wire_check_def e guardE_def reference_of_def)
qed

lemma closed_at:
  assumes "flat (rx s) = E Eof # rest"
  shows "\<exists>t. closed_check s = (Inr (), t) \<and> calm s t"
proof -
  obtain q a where a: "arrive 1 (rx s) = (q, a)" by fastforce
  with arrive_one[of "rx s"] assms have "q = Inr []" by simp
  with a show ?thesis
    by (simp add: closed_check_def attempt_def recv_def bindM_def ret_def calm_def)
qed

lemma accepting_at:
  assumes "backlog s = conn # later"
    and "\<And>u :: net. backlog u = later \<Longrightarrow> faults u = faults s \<Longrightarrow> rx u = conn \<Longrightarrow> \<exists>t. m u = (Inr a, t) \<and> calm u t"
  shows "\<exists>t. accepting m s = (Inr a, t) \<and> backlog t = later \<and> faults t = faults s"
proof -
  define u where "u = log_io io.Accepted (s\<lparr>backlog := later, rx := conn, handles := handles s + 1\<rparr>)"
  have "accept s = (Inr (), u)" using assms(1) by (simp add: accept_def u_def)
  moreover obtain t where "m u = (Inr a, t)" "calm u t" using assms(2)[of u] by (auto simp: u_def)
  ultimately show ?thesis
    by (auto simp: accepting_def with_connection_def finallyM_def close_def thenM_def bindM_def calm_def u_def)
qed

lemma attempt_at:
  assumes hello: "tpkt_frame cr = Inr crf" "6 \<le> length cr"
    and negotiate: "s7_frame setup_pdu = Inr sf" "drop 10 setup_pdu = [0xf0, 0, 0, 1, 0, 1, 1, 0xe0]"
    and asks: "packet 1 r (retry_parameters (is_write mode)) (retry_data (is_write mode)) = Inr req" "s7_frame req = Inr rf"
    and stream: "flat conn = List.map B (crf @ sf @ rf) @ E Eof # rest"
    and s: "backlog s = conn # later" "faults s = []"
    and original: "original = None \<or> original = Some req"
    and place: "int index < drops \<or> success \<and> int index + 1 = attempts"
  shows "\<exists>t. retry_attempt mode drops attempts success index original s = (Inr (Some req), t) \<and> backlog t = later \<and> faults t = []"
proof -
  have "\<exists>t. retry_attempt mode drops attempts success index original s = (Inr (Some req), t) \<and> backlog t = later \<and> faults t = faults s"
    unfolding retry_attempt_def
  proof (rule accepting_at[where conn = conn])
    show "backlog s = conn # later" by (rule s(1))
    fix u :: net
    assume u: "backlog u = later" "faults u = faults s" "rx u = conn"
    obtain t1 where t1: "boundary_handshake 480 u = (Inr (), t1)" "calm u t1" "flat (rx t1) = List.map B rf @ E Eof # rest"
      using handshake_at[OF hello negotiate, of u "List.map B rf @ E Eof # rest"] stream u s(2) by auto
    obtain t2 where t2: "take_request t1 = (Inr req, t2)" "flat (rx t2) = E Eof # rest" "t2 = t1\<lparr>rx := rx t2\<rparr>"
      using s7_get(1)[OF asks(2) t1(3)] by blast
    have c2: "calm u t2" using t1(2) unfolding calm_def by (subst t2(3), simp)+
    then have f2: "faults t2 = []" using u s(2) by (simp add: calm_def)
    have orig: "(if original = None then Some req else original) = Some req" using original by auto
    have b: "0 \<le> r" "r < 65536" using packet_bounds[OF asks(1)] by simp_all
    show "\<exists>t. thenM (boundary_handshake 480)
     (bindM take_request (\<lambda>req.
      bindM (liftE (retry_check req (is_write mode))) (\<lambda>reference.
      thenM (expect (original = None \<or> original = Some req) ''repeated retry changed exact request/reference'')
      (let original = (if original = None then Some req else original) in
       if int index < drops then thenM (note_io Shutdown) (ret original)
       else
         thenM (expect (\<not> (\<not> success \<or> int index + 1 \<noteq> attempts)) ''independent attempt accounting diverged'')
        (thenM (reply (ack reference [if is_write mode then 5 else 4, 1]
           (if is_write mode then [0xff] else [0xff, 4, 0, 8, 0x2a])))
        (thenM closed_check (ret original))))))) u = (Inr (Some req), t) \<and> calm u t" (is "\<exists>t. ?m u = _ \<and> _")
    proof (cases "int index < drops")
      case True
      then have "?m u = (Inr (Some req), log_io Shutdown t2)"
        using original by (simp add: thenM_def bindM_def t1(1) t2(1) liftE_def retry_check_ok[OF asks(1)] expect_def guardM_def guardE_def
            note_io_def ret_def Let_def orig)
      then show ?thesis using c2 by (simp add: calm_def)
    next
      case False
      then have last: "success" "int index + 1 = attempts" using place by simp_all
      obtain q where q: "ack r [if is_write mode then 5 else 4, 1] (if is_write mode then [0xff] else [0xff, 4, 0, 8, 0x2a]) = Inr q"
          "length q + 7 < 65536"
        using ack_length[of "[if is_write mode then 5 else 4, 1]" "if is_write mode then [0xff] else [0xff, 4, 0, 8, 0x2a]", OF _ _ b]
        by (cases "is_write mode") auto
      obtain t3 where t3: "reply (Inr q) t2 = (Inr (), t3)" "calm t2 t3" "rx t3 = rx t2" using reply_at[OF refl q(2) f2] by blast
      obtain t4 where t4: "closed_check t3 = (Inr (), t4)" "calm t3 t4" using closed_at[of t3 rest] t2(2) t3(3) by auto
      have "?m u = (Inr (Some req), t4)"
        using original last False by (simp add: thenM_def bindM_def t1(1) t2(1) liftE_def retry_check_ok[OF asks(1)] expect_def guardM_def guardE_def
            ret_def Let_def orig q(1) t3(1) t4(1))
      then show ?thesis using calm_trans[OF calm_trans[OF c2 t3(2)] t4(2)] by blast
    qed
  qed
  then show ?thesis using s(2) by simp
qed


lemma attempts_at:
  assumes hello: "tpkt_frame cr = Inr crf" "6 \<le> length cr"
    and negotiate: "s7_frame setup_pdu = Inr sf" "drop 10 setup_pdu = [0xf0, 0, 0, 1, 0, 1, 1, 0xe0]"
    and asks: "packet 1 r (retry_parameters (is_write mode)) (retry_data (is_write mode)) = Inr req" "s7_frame req = Inr rf"
    and stream: "flat conn = List.map B (crf @ sf @ rf) @ E Eof # rest"
    and s: "backlog s = replicate n conn" "faults s = []"
    and original: "original = None \<or> original = Some req"
    and place: "\<forall>index < amount. int index < drops \<or> success \<and> int index + 1 = attempts"
    and i: "i \<le> amount"
  shows "if amount - i \<le> n
    then \<exists>o' t. foldM (retry_attempt mode drops attempts success) [i..<amount] original s = (Inr o', t)
        \<and> backlog t = replicate (n - (amount - i)) conn
    else \<exists>t. foldM (retry_attempt mode drops attempts success) [i..<amount] original s = (Inl TimeoutError, t)"
  using s original i
proof (induction "amount - i" arbitrary: i n s original)
  case 0
  then have "[i..<amount] = []" by simp
  with 0 show ?case by (simp add: ret_def)
next
  case (Suc k)
  then have i: "i < amount" "[i..<amount] = i # [Suc i..<amount]" by (simp_all add: upt_conv_Cons)
  show ?case
  proof (cases n)
    case 0
    then have "accept s = (Inl TimeoutError, s)" using Suc.prems(1) by (simp add: accept_def)
    then have "retry_attempt mode drops attempts success i original s = (Inl TimeoutError, s)"
      by (simp add: retry_attempt_def accepting_def thenM_def bindM_def)
    then show ?thesis using 0 i by (simp add: bindM_def)
  next
    case (Suc m)
    then have b: "backlog s = conn # replicate m conn" using Suc.prems(1) by simp
    obtain t where t: "retry_attempt mode drops attempts success i original s = (Inr (Some req), t)"
        "backlog t = replicate m conn" "faults t = []"
      using attempt_at[OF hello negotiate asks stream b Suc.prems(2,3) place[rule_format, OF i(1)]] by blast
    have run: "foldM (retry_attempt mode drops attempts success) [i..<amount] original s
        = foldM (retry_attempt mode drops attempts success) [Suc i..<amount] (Some req) t"
      unfolding i(2) using t(1) by (simp add: bindM_def)
    have "k = amount - Suc i" using Suc.hyps(2) by simp
    from Suc.hyps(1)[OF this t(2,3), of "Some req"] i(1) show ?thesis
      unfolding run Suc by (auto simp: Suc_diff_Suc split: if_splits)
  qed
qed

text \<open>C19: The retry peer passes a client exactly when it makes the allowed number of attempts, no fewer and no more. Take any
  client that on each connection sends a handshake and the same valid request, cut by TCP in any way, and then closes: the peer
  reports nothing if and only if the connections are one more than the drops, as far as the budget goes, or one where the
  mode does not replay.\<close>
theorem retry_budget_exact:
  assumes hello: "tpkt_frame cr = Inr crf" "6 \<le> length cr"
    and negotiate: "s7_frame setup_pdu = Inr sf" "drop 10 setup_pdu = [0xf0, 0, 0, 1, 0, 1, 1, 0xe0]"
    and asks: "packet 1 r (retry_parameters (is_write mode)) (retry_data (is_write mode)) = Inr req" "s7_frame req = Inr rf"
    and stream: "flat conn = List.map B (crf @ sf @ rf) @ E Eof # rest"
    and "0 \<le> budget" "0 \<le> drops"
  shows "fst (retry_serve mode budget drops (start (replicate n conn))) = Inr []
    \<longleftrightarrow> int n = (if mode \<in> {''read'', ''raw-opt-in'', ''write-opt-in''} then min drops budget + 1 else 1)"
proof -
  define replay where "replay \<longleftrightarrow> mode \<in> {''read'', ''raw-opt-in'', ''write-opt-in''}"
  define success where "success \<longleftrightarrow> drops = 0 \<or> replay \<and> drops \<le> budget"
  define attempts where "attempts = (if success then drops + 1 else if replay then budget + 1 else 1)"
  have e: "expected_attempts mode budget drops = (attempts, success)"
    by (simp add: expected_attempts_def Let_def attempts_def success_def replay_def)
  have a: "attempts = (if replay then min drops budget + 1 else 1)" using assms(8,9) by (auto simp: attempts_def success_def)
  have "1 \<le> attempts" using a assms(8,9) by (simp split: if_splits)
  then have ia: "int (nat attempts) = attempts" by simp
  have place: "\<forall>index < nat attempts. int index < drops \<or> success \<and> int index + 1 = attempts"
    using assms(8,9) by (auto simp: attempts_def success_def split: if_splits)
  have f: "faults (start (replicate n conn)) = []" "backlog (start (replicate n conn)) = replicate n conn" by (simp_all add: start_def)
  have run: "if nat attempts \<le> n
    then \<exists>o' t. foldM (retry_attempt mode drops attempts success) [0..<nat attempts] None (start (replicate n conn)) = (Inr o', t)
        \<and> backlog t = replicate (n - nat attempts) conn
    else \<exists>t. foldM (retry_attempt mode drops attempts success) [0..<nat attempts] None (start (replicate n conn)) = (Inl TimeoutError, t)"
    using attempts_at[where amount = "nat attempts" and i = 0 and original = None,
        OF hello negotiate asks stream f(2,1) disjI1[OF refl] place le0]
    by (simp only: diff_zero)
  have "fst (retry_serve mode budget drops (start (replicate n conn))) = Inr [] \<longleftrightarrow> n = nat attempts"
  proof (cases "nat attempts \<le> n")
    case False
    with run obtain t where
      "foldM (retry_attempt mode drops attempts success) [0..<nat attempts] None (start (replicate n conn)) = (Inl TimeoutError, t)"
      by auto
    then show ?thesis using False by (simp add: retry_serve_def e collects_def catchM_def thenM_def bindM_def ret_def)
  next
    case True
    with run obtain o' t where t:
      "foldM (retry_attempt mode drops attempts success) [0..<nat attempts] None (start (replicate n conn)) = (Inr o', t)"
      "backlog t = replicate (n - nat attempts) conn" by auto
    show ?thesis
    proof (cases "n - nat attempts")
      case 0
      then show ?thesis using t True
        by (simp add: retry_serve_def e collects_def catchM_def thenM_def bindM_def ret_def no_reconnect_def attempt_def accept_def)
    next
      case (Suc m)
      then show ?thesis using t
        by (simp add: retry_serve_def e collects_def catchM_def thenM_def bindM_def ret_def no_reconnect_def attempt_def accept_def
            failing_def raise_def close_def)
    qed
  qed
  also have "\<dots> \<longleftrightarrow> int n = attempts" using ia by auto
  finally show ?thesis unfolding a replay_def .
qed


definition ex_cr :: bytes where
  "ex_cr = [17, 224, 0, 0, 0, 1, 0, 192, 1, 10, 193, 2, 1, 0, 194, 2, 1, 2]"

definition ex_req :: bytes where
  "ex_req = [50, 1, 0, 0, 0, 7, 0, 14, 0, 0, 4, 1, 18, 10, 16, 2, 0, 1, 0, 1, 132, 0, 0, 0]"

definition ex_attempt :: "arrival list" where
  "ex_attempt = [Chunk ([3, 0, 0, 22] @ ex_cr), Chunk ([3, 0, 0, 25, 2, 240, 128] @ reconnect_setup),
     Chunk ([3, 0, 0, 31, 2, 240, 128] @ ex_req), Eof]"

theorem retry_budget_exact_witness:
  "fst (retry_serve ''read'' 1 1 (start (replicate 2 ex_attempt))) = Inr []
   \<and> fst (retry_serve ''read'' 1 1 (start (replicate 3 ex_attempt))) \<noteq> Inr []"
proof -
  have f: "tpkt_frame ex_cr = Inr ([3, 0, 0, 22] @ ex_cr)" "s7_frame reconnect_setup = Inr ([3, 0, 0, 25, 2, 240, 128] @ reconnect_setup)"
      "s7_frame ex_req = Inr ([3, 0, 0, 31, 2, 240, 128] @ ex_req)"
    by (simp_all add: s7_frame_def cotp_data_def tpkt_frame_layout len_def ex_cr_def reconnect_setup_def ex_req_def byte_def)
  have p: "packet 1 7 (retry_parameters (is_write ''read'')) (retry_data (is_write ''read'')) = Inr ex_req"
    unfolding ex_req_def by code_simp
  have c: "6 \<le> length ex_cr" "drop 10 reconnect_setup = [0xf0, 0, 0, 1, 0, 1, 1, 0xe0]"
    by (simp_all add: ex_cr_def reconnect_setup_def)
  have s: "flat ex_attempt = List.map B (([3, 0, 0, 22] @ ex_cr) @ ([3, 0, 0, 25, 2, 240, 128] @ reconnect_setup)
      @ [3, 0, 0, 31, 2, 240, 128] @ ex_req) @ E Eof # []"
    by (simp add: ex_attempt_def)
  have two: "int 2 = (2 :: int)" "int 3 = (3 :: int)" by simp_all
  show ?thesis
    using retry_budget_exact[OF f(1) c(1) f(2) c(2) p f(3) s, of 1 1 2] retry_budget_exact[OF f(1) c(1) f(2) c(2) p f(3) s, of 1 1 3]
    by simp
qed

end
