(* ===== verification/Deadlines.thy ===== *)
theory Deadlines
  imports Faults Live
begin

text \<open>
  The slow peers of \<^verbatim>\<open>transfer_deadlines.py\<close> and \<^verbatim>\<open>extended_deadlines.py\<close>, the peers of
  \<^verbatim>\<open>stateful_faults.py\<close>, \<^verbatim>\<open>retry_progress.py\<close>, \<^verbatim>\<open>timeout_cleanup.py\<close> and \<^verbatim>\<open>write_provenance.py\<close>.
  Time is the environment's: whether the client spoke within an interval is one of the signals
  of \<^verbatim>\<open>Sockets\<close>. A listener that waits for ever counts as one that timed out.
\<close>

section \<open>Frames and hang-ups\<close>

definition dl_receive :: "(net, bytes) prog" where
  "dl_receive = tpkt_receive ''deadline client closed an incomplete frame'' ''invalid deadline-test TPKT''"

definition dl_request :: "(net, bytes) prog" where
  "dl_request = bindM dl_receive (\<lambda>frame.
     thenM (expect (take 3 frame = cotp_data) ''expected deadline-test S7 request'') (ret (drop 3 frame)))"

definition dl_userdata :: "int \<Rightarrow> string \<Rightarrow> nat \<Rightarrow> bytes \<Rightarrow> bytes result" where
  "dl_userdata reference operation index chunk =
     (let (grp, subfunction) = (if operation = ''szl'' then (4, 1) else (3, 2));
          parameters = [0, 1, 0x12, 8, 0x12, or 0x80 grp, subfunction, 7, 0] @ [of_bool (index < 3), 0, 0];
          chunk = (if operation = ''szl'' \<and> index = 0 then [4, 0x24, 0, 0] else []) @ chunk
      in bindE (concatE [Inr [0xff, 9], to_bytes 2 (len chunk), Inr chunk]) (packet 7 reference parameters))"

definition dl_disconnected :: "bytes \<Rightarrow> unit result" where
  "dl_disconnected frame =
     guardE (\<not> (length frame \<noteq> 7 \<or> take 2 frame \<noteq> [6, 0x80]))
       (RuntimeError ''deadline client sent another request instead of disconnecting'')"

definition dl_decode_next :: "bytes \<Rightarrow> bytes option result" where
  "dl_decode_next frame =
     (if 2 \<le> length frame \<and> frame ! 1 = 0x80 then bindE (dl_disconnected frame) (\<lambda>_. Inr None)
      else if length frame < 13 \<or> take 3 frame \<noteq> cotp_data
      then Inl (RuntimeError ''expected deadline-test S7 request or disconnect'')
      else Inr (Some (drop 3 frame)))"

definition dl_next :: "(net, bytes option) prog" where
  "dl_next = bindM dl_receive (\<lambda>frame. liftE (dl_decode_next frame))"

definition dl_hangup :: "(net, unit) prog" where
  "dl_hangup = bindM dl_receive (\<lambda>frame. liftE (dl_disconnected frame))"

text \<open>\<^verbatim>\<open>_delay\<close>: \<open>True\<close> when the interval passes in silence.\<close>

definition dl_delay :: "(net, bool) prog" where
  "dl_delay = bindM wait (\<lambda>readable. if readable then thenM dl_hangup (ret False) else ret True)"

text \<open>
  The two early returns of these peers: a client that disconnects in place of its next request, and one
  that disconnects during the delay. The value \<open>True\<close> is the \<^verbatim>\<open>return\<close>.
\<close>

definition on_request :: "(bytes \<Rightarrow> (net, bool) prog) \<Rightarrow> (net, bool) prog" where
  "on_request k = bindM dl_next (\<lambda>r. case r of None \<Rightarrow> ret True | Some req \<Rightarrow> k req)"

definition after_delay :: "(net, bool) prog \<Rightarrow> (net, bool) prog" where
  "after_delay m = bindM dl_delay (\<lambda>silent. if silent then m else ret True)"

definition send_then :: "bytes result \<Rightarrow> (net, bool) prog" where
  "send_then pdu = thenM (reply pdu) (ret False)"

definition dl_setup :: "bytes \<Rightarrow> (net, unit) prog" where
  "dl_setup pdu_size =
     bindM dl_receive (\<lambda>cr. thenM (send_confirm cr)
     (bindM dl_request (\<lambda>setup_pdu. reply (ack (reference_of setup_pdu) ([0xf0, 0, 0, 1, 0, 1] @ pdu_size) []))))"

section \<open>Transfers with a deadline\<close>

definition transfer_start :: "string \<Rightarrow> (net, bool) prog" where
  "transfer_start operation =
     (if operation = ''upload'' then
        on_request (\<lambda>opening. bindM (liftE (at opening 10)) (\<lambda>f. thenM (expect (f = 0x1d) ''expected START_UPLOAD'')
          (send_then (ack (reference_of opening) ([0x1d, 0, 0, 0, 0, 0, 0, 1, 7, 0, 5] @ digits5 4) []))))
      else ret False)"

definition transfer_content :: "string \<Rightarrow> bytes" where
  "transfer_content operation = (if operation = ''szl'' then [0, 1, 0, 4, 0xaa, 0xbb, 0xcc, 0xdd] else [0, 1, 0x10, 2])"

definition transfer_reply :: "string \<Rightarrow> nat \<Rightarrow> bytes \<Rightarrow> bytes result" where
  "transfer_reply operation index req =
     (if operation = ''upload'' then
        bindE (upload_request 0x1e ''invalid UPLOAD request'' req) (\<lambda>reference.
          ack reference [0x1e, of_bool (index < 3)] [0, 1, 0, 0xfb, byte (0xaa + 0x11 * int index)])
      else
        let (grp, subfunction) = (if operation = ''szl'' then (4, 1) else (3, 2));
            chunk_size = (if operation = ''szl'' then 2 else 1)
        in bindE (guardE (slice 15 17 req = [or 0x40 grp, subfunction]) (RuntimeError ''invalid segmented USER_DATA request'')) (\<lambda>_.
           bindE (if 0 < index then bindE (at req 17) (\<lambda>q. guardE (q = 7) (RuntimeError ''invalid continuation sequence'')) else Inr ()) (\<lambda>_.
             dl_userdata (reference_of req) operation index
               (slice (chunk_size * index) (chunk_size * (index + 1)) (transfer_content operation)))))"

definition transfer_round :: "string \<Rightarrow> nat \<Rightarrow> (net, bool) prog" where
  "transfer_round operation index =
     on_request (\<lambda>req. bindM (liftE (transfer_reply operation index req)) (\<lambda>response. after_delay (send_then (Inr response))))"

definition transfer_end :: "string \<Rightarrow> (net, bool) prog" where
  "transfer_end operation =
     (if operation = ''upload'' then
        on_request (\<lambda>ending. bindM (liftE (upload_request 0x1f ''invalid END_UPLOAD request'' ending)) (\<lambda>reference.
          after_delay (send_then (ack reference [0x1f] []))))
      else ret False)"

text \<open>The steps in order, each of which may return.\<close>

fun steps_then :: "('s, bool) prog list \<Rightarrow> ('s, unit) prog \<Rightarrow> ('s, unit) prog" where
  "steps_then [] final = final"
| "steps_then (m # ms) final = bindM m (\<lambda>returned. if returned then ret () else steps_then ms final)"

definition transfer_conversation :: "string \<Rightarrow> bool \<Rightarrow> (net, unit) prog" where
  "transfer_conversation operation no_request =
     thenM (dl_setup [1, 0xe0])
       (if no_request then dl_hangup
        else steps_then ([transfer_start operation] @ List.map (transfer_round operation) [0..<4] @ [transfer_end operation]) dl_hangup)"

definition transfer_serve :: "string \<Rightarrow> bool \<Rightarrow> (net, exn list) prog" where
  "transfer_serve operation no_request = serving (transfer_conversation operation no_request)"

section \<open>Shared budgets\<close>

definition ends_in :: "string \<Rightarrow> string \<Rightarrow> bool" where
  "ends_in ending s \<longleftrightarrow> length ending \<le> length s \<and> drop (length s - length ending) s = ending"

definition ext_session :: "(net, 'a) prog \<Rightarrow> (net, 'a) prog" where
  "ext_session body = thenM accept (thenM (dl_setup [0, 240]) (with_connection body))"

definition ext_job :: "int \<Rightarrow> byte \<Rightarrow> bytes result" where
  "ext_job reference function = s7_job reference ([function] @ replicate 7 0 @ [9, 0x5f, 0x30, 0x41] @ digits5 1 @ [0x50]) []"

definition ext_fragment :: "int \<Rightarrow> bytes \<Rightarrow> bytes result" where
  "ext_fragment reference response =
     bindE (at response 1) (\<lambda>k.
     bindE (guardE (\<not> (k \<noteq> 3 \<or> reference_of response \<noteq> reference)) (RuntimeError ''invalid deadline download fragment reference'')) (\<lambda>_.
     let data = drop (12 + nat (be_int (slice 6 8 response))) response in
     bindE (guardE (\<not> (slice 2 4 data \<noteq> [0, 0xfb] \<or> be_int (take 2 data) \<noteq> len data - 4))
       (RuntimeError ''invalid deadline download fragment data'')) (\<lambda>_. Inr (drop 4 data))))"

text \<open>The loop over fragments; the value \<open>None\<close> is the \<^verbatim>\<open>return\<close>. Fragments may be empty: the loop ends
  when \<^verbatim>\<open>_job\<close> can no longer pack the reference.\<close>

function ext_download_loop :: "bytes \<Rightarrow> int \<Rightarrow> (net, (bytes \<times> int) option) prog" where
  "ext_download_loop received reference =
     (if len received < 1000 then
        (case ext_job reference 0x1b of
           Inl e \<Rightarrow> bindM dl_delay (\<lambda>silent. if silent then raise e else ret None)
         | Inr job \<Rightarrow>
            bindM dl_delay (\<lambda>silent. if \<not> silent then ret None
            else thenM (reply (Inr job))
              (bindM dl_next (\<lambda>r. case r of None \<Rightarrow> ret None
                 | Some response \<Rightarrow> bindM (liftE (ext_fragment reference response)) (\<lambda>data.
                     ext_download_loop (received @ data) (reference + 1))))))
      else ret (Some (received, reference)))"
  by pat_completeness auto

lemma ext_job_bound: "ext_job reference f = Inr job \<Longrightarrow> 0 \<le> reference \<and> reference < 65536"
  using packet_bounds[of 1 reference] by (auto simp: ext_job_def s7_job_packet)

termination ext_download_loop
  by (relation "measure (\<lambda>(received, reference). nat (65536 - reference))") (auto dest: ext_job_bound)

declare ext_download_loop.simps [simp del]

definition ext_block :: bytes where
  "ext_block = overwrite 34 36 (be_bytes 2 964) (replicate 1000 0xaa)"

definition ext_download_end :: "int \<Rightarrow> (net, bool) prog" where
  "ext_download_end reference =
     after_delay (thenM (reply (ext_job reference 0x1c))
     (on_request (\<lambda>ended. thenM (expect (drop 12 ended = [0x1c]) ''invalid deadline DOWNLOAD_ENDED acknowledgment'')
     (on_request (\<lambda>insertion. thenM (expect (contains [0x5f, 0x49, 0x4e, 0x53, 0x45] insertion) ''deadline download did not insert block'')
       (after_delay (send_then (ack (reference_of insertion) [0x28] []))))))))"

definition ext_download_start :: "(net, bool) prog" where
  "ext_download_start = on_request (\<lambda>opening.
     bindM (liftE (at opening 10)) (\<lambda>f. thenM (expect (f = 0x1a) ''expected deadline REQUEST_DOWNLOAD'')
       (send_then (ack (reference_of opening) [0x1a] []))))"

definition ext_download :: "(net, unit) prog" where
  "ext_download = steps_then [ext_download_start,
     bindM (ext_download_loop [] 0x7000) (\<lambda>r. case r of None \<Rightarrow> ret True
       | Some (received, reference) \<Rightarrow>
           thenM (expect (received = ext_block) ''deadline download changed block data'') (ext_download_end reference))] dl_hangup"


text \<open>The items of one memory request: octets completed so far, reply data, write offset, and the local \<^verbatim>\<open>size\<close>,
  which stays unset while no item was seen.\<close>

type_synonym mem_state = "int \<times> bytes \<times> nat \<times> int option"

definition mem_item :: "bytes \<Rightarrow> byte \<Rightarrow> nat \<Rightarrow> nat \<Rightarrow> mem_state \<Rightarrow> mem_state result" where
  "mem_item req function items index st =
     (case st of (completed, response, offset, _) \<Rightarrow>
        let spec = slice (12 + index * 12) (24 + index * 12) req; amount = be_int (slice 4 6 spec); last_one = \<not> index + 1 < items in
        bindE (guardE (amount \<noteq> 0) (RuntimeError ''zero-sized deadline memory item'')) (\<lambda>_.
        if function = 4 then
          bindE (concatE [pack 1 0xff, pack 1 4, pack 2 (amount * 8)]) (\<lambda>header.
            Inr (completed + amount,
              response @ header @ replicate (nat amount) 0xaa @ (if \<not> last_one \<and> odd amount then [0] else []), offset, Some amount))
        else
          bindE (concatE [pack 1 0, pack 1 4, pack 2 (amount * 8)]) (\<lambda>header.
          bindE (guardE (slice offset (offset + 4 + nat amount) req = header @ replicate (nat amount) 0xaa)
              (RuntimeError ''deadline write payload changed'')) (\<lambda>_.
            Inr (completed + amount, response @ [0xff],
              offset + 4 + nat amount + (if \<not> last_one then nat (amount mod 2) else 0), Some amount)))))"

fun mem_items :: "bytes \<Rightarrow> byte \<Rightarrow> nat \<Rightarrow> nat list \<Rightarrow> mem_state \<Rightarrow> mem_state result" where
  "mem_items req function items [] st = Inr st"
| "mem_items req function items (index # rest) st = bindE (mem_item req function items index st) (mem_items req function items rest)"

definition mem_header :: "string \<Rightarrow> bytes \<Rightarrow> (byte \<times> nat) result" where
  "mem_header operation req =
     (case slice 10 12 req of
        [function, items] \<Rightarrow>
          bindE (guardE (\<not> (function \<noteq> (if take 5 operation = ''write'' then 5 else 4) \<or> 240 < length req))
            (RuntimeError ''invalid memory deadline request'')) (\<lambda>_. Inr (function, unat items))
      | _ \<Rightarrow> Inl ValueError)"

text \<open>One request up to its delay, whose length looks at \<^verbatim>\<open>size\<close> in the continuation modes.\<close>

definition mem_request :: "string \<Rightarrow> bytes \<Rightarrow> int \<Rightarrow> int option \<Rightarrow> (int \<times> int option \<times> bytes result) result" where
  "mem_request operation req completed amount =
     bindE (mem_header operation req) (\<lambda>(function, items).
     bindE (mem_items req function items [0..<items] (completed, [], 10 + nat (be_int (slice 6 8 req)), amount))
       (\<lambda>(completed, response, _, amount).
     bindE (guardE (\<not> (ends_in ''-continuation-retry'' operation \<and> amount = None)) NameError) (\<lambda>_.
       Inr (completed, amount, ack (reference_of req) [function, word_of_nat items] response))))"

definition refreshed :: "string \<Rightarrow> int \<Rightarrow> bool" where
  "refreshed operation interval \<longleftrightarrow> operation \<in> {''read-retry'', ''write-retry''} \<and> 200 \<le> interval"

definition mem_total :: "string \<Rightarrow> int" where
  "mem_total operation = (if contains ''multi'' operation then 800 else 1000)"

text \<open>One round; the value \<open>None\<close> is the \<^verbatim>\<open>return\<close>.\<close>

definition mem_round :: "string \<Rightarrow> int \<Rightarrow> int \<Rightarrow> int option \<Rightarrow> (net, (int \<times> int option) option) prog" where
  "mem_round operation interval completed amount =
     bindM dl_next (\<lambda>r. case r of None \<Rightarrow> ret None | Some req \<Rightarrow>
     bindM (liftE (mem_request operation req completed amount)) (\<lambda>(completed, amount, response).
     bindM dl_delay (\<lambda>silent. if \<not> silent then ret None else
       thenM (expect (\<not> refreshed operation interval) ''reconnect refreshed the already-spent transfer budget'')
      (thenM (reply response) (ret (Some (completed, amount)))))))"

text \<open>Reading a frame takes at least its header off the stream, so the loop ends even if no request ever adds octets.\<close>

lemma exact_shrinks:
  assumes "exact msg n s = (Inr bs, t)"
  shows "length (flat (rx s)) = n + length (flat (rx t))"
proof -
  have "pull msg n xs = (Inr bs, ys) \<Longrightarrow> length xs = n + length ys" for xs ys
    by (induction msg n xs arbitrary: bs ys rule: pull.induct) (auto split: prod.splits sum.splits)
  with exact_pull[OF assms] show ?thesis by blast
qed

definition shrinks :: "(net, 'a) prog \<Rightarrow> bool" where
  "shrinks m \<longleftrightarrow> (\<forall>s a t. m s = (Inr a, t) \<longrightarrow> length (flat (rx t)) \<le> length (flat (rx s)))"

definition eats :: "(net, 'a) prog \<Rightarrow> bool" where
  "eats m \<longleftrightarrow> (\<forall>s a t. m s = (Inr a, t) \<longrightarrow> length (flat (rx t)) < length (flat (rx s)))"

lemma shrinks_bindM: "shrinks m \<Longrightarrow> (\<And>a. shrinks (f a)) \<Longrightarrow> shrinks (bindM m f)"
  unfolding shrinks_def bindM_def by (auto split: prod.splits sum.splits) (meson le_trans)

lemma shrinks_thenM: "shrinks m \<Longrightarrow> shrinks n \<Longrightarrow> shrinks (thenM m n)"
  unfolding thenM_def by (rule shrinks_bindM)

lemma shrinks_quiet:
  "shrinks (ret a)" "shrinks (raise e)" "shrinks (liftE r)" "shrinks (expect ok msg)" "shrinks (sendall bs)" "shrinks wait"
  by (auto simp: shrinks_def ret_def raise_def liftE_def expect_def guardM_def sendall_def wait_def split: list.splits bool.splits)

lemma shrinks_exact: "shrinks (exact msg n)"
  using exact_shrinks by (fastforce simp: shrinks_def)

lemma shrinks_receive: "shrinks (tpkt_receive m1 m2)"
  unfolding tpkt_receive_def Let_def by (intro shrinks_bindM shrinks_thenM shrinks_quiet shrinks_exact)

lemma shrinks_reply: "shrinks (reply p)"
  unfolding reply_def send_pdu_def tpkt_send_def by (intro shrinks_bindM shrinks_quiet)

lemma shrinks_delay: "shrinks dl_delay"
  unfolding dl_delay_def dl_hangup_def dl_receive_def
  by (intro shrinks_bindM) (auto intro!: shrinks_bindM shrinks_thenM shrinks_quiet shrinks_receive)

lemma eats_receive: "eats (tpkt_receive m1 m2)"
  unfolding eats_def
proof (intro allI impI)
  fix s a t
  assume r: "tpkt_receive m1 m2 s = (Inr a, t)"
  obtain q u where ex: "exact m1 4 s = (q, u)" by fastforce
  with r obtain h where h: "q = Inr h" by (cases q) (auto simp: tpkt_receive_def bindM_def)
  let ?rest = "thenM (expect (\<not> (h ! 0 \<noteq> 3 \<or> h ! 1 \<noteq> 0 \<or> nat (be_int (slice 2 4 h)) < 4)) m2) (exact m1 (nat (be_int (slice 2 4 h)) - 4))"
  have "?rest u = (Inr a, t)" using r ex h by (simp add: tpkt_receive_def bindM_def Let_def)
  moreover have "shrinks ?rest" by (intro shrinks_thenM shrinks_quiet shrinks_exact)
  ultimately have "length (flat (rx t)) \<le> length (flat (rx u))" unfolding shrinks_def by blast
  with exact_shrinks[OF ex[unfolded h]] show "length (flat (rx t)) < length (flat (rx s))" by linarith
qed

lemma eats_bindM: "eats m \<Longrightarrow> (\<And>a. shrinks (f a)) \<Longrightarrow> eats (bindM m f)"
  unfolding eats_def shrinks_def bindM_def by (auto split: prod.splits sum.splits) (meson le_less_trans)

lemma eats_next: "eats dl_next"
  unfolding dl_next_def dl_receive_def by (intro eats_bindM eats_receive shrinks_quiet)

lemma eats_mem_round: "eats (mem_round operation interval completed amount)"
  unfolding mem_round_def
  by (intro eats_bindM eats_next)
    (auto intro!: shrinks_bindM shrinks_thenM shrinks_quiet shrinks_delay shrinks_reply split: option.splits)

function mem_loop :: "string \<Rightarrow> int \<Rightarrow> int \<Rightarrow> int option \<Rightarrow> net \<Rightarrow> int option result \<times> net" where
  "mem_loop operation interval completed amount s =
     (if completed < mem_total operation then
        (case mem_round operation interval completed amount s of
           (Inl e, t) \<Rightarrow> (Inl e, t)
         | (Inr None, t) \<Rightarrow> (Inr None, t)
         | (Inr (Some (completed', amount')), t) \<Rightarrow> mem_loop operation interval completed' amount' t)
      else (Inr (Some completed), s))"
  by pat_completeness auto

termination mem_loop
  by (relation "measure (\<lambda>(operation, interval, completed, amount, s). length (flat (rx s)))")
    (auto, metis eats_mem_round eats_def)

declare mem_loop.simps [simp del]

definition ext_memory :: "string \<Rightarrow> int \<Rightarrow> (net, unit) prog" where
  "ext_memory operation interval =
     bindM (mem_loop operation interval 0 None) (\<lambda>r. case r of None \<Rightarrow> ret ()
       | Some completed \<Rightarrow>
           thenM (expect (completed = mem_total operation) ''memory deadline transfer coverage mismatch'') dl_hangup)"


definition late_connection :: "string \<Rightarrow> (net, unit) prog" where
  "late_connection msg = bindM wait (\<lambda>readable. if readable then thenM accept (thenM close (failing msg)) else ret ())"

definition ext_first_connection :: "string \<Rightarrow> (net, bool) prog" where
  "ext_first_connection operation =
     (if ends_in ''-retry'' operation \<and> \<not> ends_in ''-continuation-retry'' operation
      then ext_session (on_request (\<lambda>_. after_delay (ret False))) else ret False)"

definition ext_transfer :: "string \<Rightarrow> int \<Rightarrow> bool \<Rightarrow> (net, unit) prog" where
  "ext_transfer operation interval zero =
     (if zero then dl_hangup else if operation = ''download'' then ext_download else ext_memory operation interval)"

definition ext_serve :: "string \<Rightarrow> int \<Rightarrow> bool \<Rightarrow> (net, exn list) prog" where
  "ext_serve operation interval zero = collects
     (steps_then [ext_first_connection operation]
       (thenM (ext_session (ext_transfer operation interval zero))
         (late_connection ''deadline transfer retried after a continuation'')))"

section \<open>A fault in every phase\<close>

text \<open>\<^verbatim>\<open>stateful_faults.py\<close> and \<^verbatim>\<open>timeout_cleanup.py\<close> do not catch \<^verbatim>\<open>struct.error\<close>.\<close>

definition collects_narrow :: "('s, unit) prog \<Rightarrow> ('s, exn list) prog" where
  "collects_narrow m = catchM (bindM m (\<lambda>_. ret [])) (\<lambda>e. if caught e \<and> e \<noteq> StructError then ret [e] else raise e)"

definition is_upload :: "string \<Rightarrow> bool" where
  "is_upload operation \<longleftrightarrow> take 6 operation = ''upload''"

definition fault_reply :: "string \<Rightarrow> bool \<Rightarrow> string \<Rightarrow> nat \<Rightarrow> bytes \<Rightarrow> bytes result" where
  "fault_reply operation here mutation index req =
     (if is_upload operation then
        bindE (at req 10) (\<lambda>f.
        bindE (guardE (f = (if index = 0 then 0x1d else if index = 5 then 0x1f else 0x1e))
          (RuntimeError ''upload sequence requested wrong phase'')) (\<lambda>_.
        let (parameters, data) =
              (if index = 0 then ([0x1d, 0, 0, 0, 0, 0, 0, 1, 7, 0, 5] @ digits5 4, [])
               else if index = 5 then ([0x1f], [])
               else ([0x1e, of_bool (index < 4)], [0, 1, 0, 0xfb, byte (int index)]))
        in ack (reference_of req) (if here \<and> mutation = ''wrong-service'' then [4] @ drop 1 parameters else parameters) data))
      else
        bindE (dl_userdata (reference_of req) ''szl'' index (slice (index * 2) (index * 2 + 2) (transfer_content ''szl''))) (\<lambda>response.
          Inr (if here then take 16 response @ [2] @ drop 17 response else response)))"

definition fault_cleanup :: "string \<Rightarrow> nat \<Rightarrow> bytes \<Rightarrow> (net, bytes) prog" where
  "fault_cleanup operation index frame =
     (if take 3 frame = cotp_data \<and> is_upload operation \<and> 0 < index \<and> index < 5 then
        let cleanup = drop 3 frame in
        bindM (liftE (at cleanup 10)) (\<lambda>f. thenM (expect (f = 0x1f) ''faulted upload continued transferring'')
          (thenM (reply (ack (reference_of cleanup) [0x1f] [])) dl_receive))
      else ret frame)"

definition fault_round :: "string \<Rightarrow> nat \<Rightarrow> string \<Rightarrow> nat \<Rightarrow> (net, bool) prog" where
  "fault_round operation phase mutation index =
     bindM dl_request (\<lambda>req.
       if index = phase \<and> mutation = ''disconnect'' then thenM (note_io Shutdown) (ret True)
       else thenM (reply (fault_reply operation (index = phase) mutation index req))
         (if index \<noteq> phase then ret False
          else bindM dl_receive (\<lambda>frame. bindM (fault_cleanup operation index frame) (\<lambda>frame.
            thenM (expect (disconnecting frame) ''faulted conversation did not disconnect'') (ret True)))))"

definition fault_conversation :: "string \<Rightarrow> nat \<Rightarrow> string \<Rightarrow> (net, bool) prog" where
  "fault_conversation operation phase mutation =
     loopM (fault_round operation phase mutation) [0..<if is_upload operation then 6 else 4]"

definition fault_serve :: "string \<Rightarrow> nat \<Rightarrow> string \<Rightarrow> (net, exn list) prog" where
  "fault_serve operation phase mutation =
     collects_narrow (bindM (ext_session (fault_conversation operation phase mutation)) (\<lambda>_. ret ()))"

definition fault_scenarios :: "(string \<times> nat \<times> string) list" where
  "fault_scenarios =
     concat (List.map (\<lambda>(operation, steps). concat (List.map (\<lambda>phase. List.map (\<lambda>mutation. (operation, phase, mutation))
       [''disconnect'', ''wrong-service'']) [0..<steps])) [(''upload'', 6), (''szl'', 4)])
     @ [(''upload-compact'', 5, ''compact-header'')]"

section \<open>Lost acknowledgements\<close>

definition progress_reply :: "bytes \<Rightarrow> byte \<Rightarrow> bytes result" where
  "progress_reply req outcome =
     (case slice 10 12 req of
        [function, items] \<Rightarrow>
          ack (reference_of req) [function, items] (if function = 4 then [0xff, 4, 0, 8, 0x2a] else replicate (unat items) outcome)
      | _ \<Rightarrow> Inl ValueError)"

definition rejected_ack :: "int \<Rightarrow> bytes \<Rightarrow> bytes \<Rightarrow> bytes result" where
  "rejected_ack reference parameters data = bindE (ack reference parameters data) (\<lambda>p. Inr (overwrite 10 12 [0x81, 4] p))"

definition rejected_setup :: "(net, unit) prog" where
  "rejected_setup = accepting
     (bindM dl_receive (\<lambda>cr. thenM (send_confirm cr)
     (bindM dl_request (\<lambda>setup_pdu.
      thenM (reply (rejected_ack (reference_of setup_pdu) [0xf0, 0, 0, 1, 0, 1, 0, 0xf0] []))
     (bindM last_octet (\<lambda>continued. expect (continued = []) ''rejected S7 setup continued sending traffic''))))))"

definition replayed :: "string \<Rightarrow> bytes \<Rightarrow> (net, unit) prog" where
  "replayed mode first = ext_session
     (bindM dl_request (\<lambda>replay.
      thenM (expect (replay = first) ''retry changed request'')
     (thenM (reply (if mode = ''replay-scalar-reject'' then rejected_ack (reference_of replay) [5, 1] [0xff]
         else progress_reply replay (if mode = ''replay-multi-reject'' then 5 else 0xff)))
     (bindM dl_receive (\<lambda>_. ret ())))))"

definition first_chunk :: "bytes \<Rightarrow> bool result" where
  "first_chunk req = bindE (at req 10) (\<lambda>f. if f \<noteq> 5 then Inr False else bindE (at req 11) (\<lambda>n. Inr (n = 1)))"

text \<open>The value \<open>True\<close> is the \<^verbatim>\<open>return\<close>.\<close>

definition progress_conversation :: "string \<Rightarrow> (net, bool) prog" where
  "progress_conversation mode =
     bindM dl_request (\<lambda>first.
     if mode \<in> {''read-retry'', ''write-opt-in''} \<or> take 7 mode = ''replay-'' then
       thenM close (thenM (if mode = ''replay-reconnect-reject'' then rejected_setup else replayed mode first) (ret True))
     else if ends_in ''no-retry'' mode then thenM close (ret False)
     else bindM (liftE (first_chunk first)) (\<lambda>ok. thenM (expect ok ''expected first singleton write chunk'')
       (thenM (reply (progress_reply first 0xff))
       (bindM dl_request (\<lambda>second.
        thenM (expect (be_int (slice 21 24 second) div 8 = 212) ''expected second chunk at acknowledged boundary'')
          (if mode = ''multi-reject'' then thenM (reply (progress_reply second 5)) (bindM dl_receive (\<lambda>_. ret False))
           else if mode = ''scalar-reject''
             then thenM (reply (rejected_ack (reference_of second) [5, 1] [0xff])) (bindM dl_receive (\<lambda>_. ret False))
           else thenM close (ret False)))))))"

definition progress_serve :: "string \<Rightarrow> (net, exn list) prog" where
  "progress_serve mode = collects
     (bindM (ext_session (progress_conversation mode)) (\<lambda>returned.
        if returned then ret () else no_reconnect ''potentially mutating operation unexpectedly retried''))"

section \<open>Connections that fail\<close>

definition closed_quietly :: "(net, unit) prog" where
  "closed_quietly = bindM last_octet (\<lambda>data. expect (data = []) ''failed connection continued its handshake'')"

definition cleanup_connection :: "string \<Rightarrow> nat \<Rightarrow> (net, unit) prog" where
  "cleanup_connection mode index = accepting
     (bindM receive (\<lambda>cr.
      thenM (expect (\<not> (length cr < 7 \<or> cr ! 1 \<noteq> 0xe0)) ''cleanup peer expected COTP connection request'')
        (if mode = ''stalled'' then closed_quietly
         else if index mod 3 = 1 then thenM (tpkt_send [1, 0xd0]) closed_quietly
         else thenM (send_confirm cr)
          (bindM take_request (\<lambda>setup_pdu.
           thenM (reply (ack (reference_of setup_pdu) [0xf0, 0, 0, 1, 0, 1, 0, 0xf0] []))
          (bindM receive (\<lambda>frame. expect (disconnecting frame) ''successful connection did not disconnect'')))))))"

definition cleanup_serve :: "string \<Rightarrow> (net, exn list) prog" where
  "cleanup_serve mode = collects_narrow
     (forM [0..<if mode = ''stalled'' then 4 else 24] (cleanup_connection mode))"

section \<open>Who wrote what\<close>

definition prov_address :: "int \<times> bytes \<Rightarrow> bytes result" where
  "prov_address e = (case e of (place, content) \<Rightarrow>
     concatE [Inr [0x12, 0x0a, 0x10, 2], pack 2 (len content), pack 2 1, pack 1 0x84, to_bytes 3 (place * 8)])"

definition prov_data :: "nat \<Rightarrow> nat \<times> int \<times> bytes \<Rightarrow> bytes result" where
  "prov_data items e = (case e of (index, _, content) \<Rightarrow>
     concatE [Inr [0, 4], pack 2 (len content * 8), Inr content, Inr (if index + 1 < items \<and> odd (length content) then [0] else [])])"

definition prov_check :: "bytes \<Rightarrow> int \<Rightarrow> (int \<times> bytes) list \<Rightarrow> unit result" where
  "prov_check req pdu expected =
     bindE (bytes_of [5, len expected]) (\<lambda>head_part.
     bindE (concatE (Inr head_part # List.map prov_address expected)) (\<lambda>addresses.
     bindE (concatE (List.map (prov_data (length expected)) (List.enumerate 0 expected))) (\<lambda>data.
     let wrong = RuntimeError ''provenance peer saw changed request/order/padding/PDU'' in
     bindE (guardE (\<not> len req > pdu) wrong) (\<lambda>_.
     bindE (concatE [pack 2 (len addresses), pack 2 (len data)]) (\<lambda>sizes.
       guardE (slice 6 10 req = sizes \<and> drop 10 req = addresses @ data) wrong)))))"

definition prov_reply :: "bytes \<Rightarrow> bytes \<Rightarrow> (net, unit) prog" where
  "prov_reply req statuses = reply (bindE (bytes_of [5, len statuses]) (\<lambda>p. ack (reference_of req) p statuses))"

definition prov_exchange :: "int \<Rightarrow> (int \<times> bytes) list \<Rightarrow> bytes \<Rightarrow> (net, unit) prog" where
  "prov_exchange pdu expected statuses =
     bindM take_request (\<lambda>req. thenM (liftE (prov_check req pdu expected)) (prov_reply req statuses))"

text \<open>The batches of the duplicates, \<^verbatim>\<open>min(20, (pdu - 12) // 18, 41 - done)\<close> at a time, as their starts and sizes.\<close>

definition prov_batches :: "int \<Rightarrow> (int \<times> int) list" where
  "prov_batches pdu = chunks (min 20 ((pdu - 12) div 18)) 41"

definition prov_indices :: "int \<times> int \<Rightarrow> int list" where
  "prov_indices b = (case b of (done, items) \<Rightarrow> [done..done + items - 1])"

definition prov_duplicates :: "int \<Rightarrow> (net, unit) prog" where
  "prov_duplicates pdu = forM (prov_batches pdu) (\<lambda>b.
     prov_exchange pdu (List.map (\<lambda>i. (10, [byte i])) (prov_indices b))
       (List.map (\<lambda>i. if i mod 7 = 3 then 5 else 255) (prov_indices b)))"

text \<open>One chunk of the long write. The value \<open>True\<close> is the \<^verbatim>\<open>return\<close> of the drop or the \<^verbatim>\<open>break\<close> of the rejection.\<close>

definition prov_chunk :: "string \<Rightarrow> int \<Rightarrow> int \<times> int \<Rightarrow> (net, bool) prog" where
  "prov_chunk mode pdu c = (case c of (offset, amount) \<Rightarrow>
     bindM take_request (\<lambda>req.
     thenM (liftE (prov_check req pdu [(offset, replicate (nat amount) 0x2a)]))
       (if mode = ''drop'' \<and> offset = pdu - 28 then thenM (note_io Shutdown) (ret True)
        else let failure = mode = ''reject'' \<and> offset = pdu - 28
          in thenM (prov_reply req [if failure then 5 else 255]) (ret failure))))"

definition prov_marker :: "string \<Rightarrow> int \<Rightarrow> (net, unit) prog" where
  "prov_marker mode pdu = unless (mode = ''scalar'') (prov_exchange pdu [(2000, [0x63])] [0xff])"

definition prov_hangup :: "(net, unit) prog" where
  "prov_hangup = bindM receive (\<lambda>frame. expect (disconnecting frame) ''provenance peer received unexpected extra write'')"

definition prov_long :: "string \<Rightarrow> int \<Rightarrow> (net, unit) prog" where
  "prov_long mode pdu =
     thenM (prov_marker mode pdu)
     (bindM (loopM (prov_chunk mode pdu) (chunks (pdu - 28) 700)) (\<lambda>stopped.
        if stopped \<and> mode = ''drop'' then ret () else thenM (prov_marker mode pdu) prov_hangup))"

definition prov_setup :: "int \<Rightarrow> bytes \<Rightarrow> bytes result" where
  "prov_setup pdu setup_pdu =
     bindE (concatE [Inr [0xf0, 0, 0, 1, 0, 1], pack 2 pdu]) (\<lambda>p. ack (reference_of setup_pdu) p [])"

definition prov_serve :: "string \<Rightarrow> int \<Rightarrow> (net, exn list) prog" where
  "prov_serve mode pdu = serving
     (bindM receive (\<lambda>cr. thenM (send_confirm cr)
     (bindM take_request (\<lambda>setup_pdu.
      thenM (reply (prov_setup pdu setup_pdu))
        (if mode = ''duplicates'' then thenM (prov_duplicates pdu) prov_hangup else prov_long mode pdu)))))"

end
