(* ===== verification/Services.thy ===== *)
theory Services
  imports Deadlines Text_Codec
begin

text \<open>
  The peers of \<^verbatim>\<open>userdata_assurance.py\<close>, \<^verbatim>\<open>userdata_completion.py\<close>, \<^verbatim>\<open>connection_budget.py\<close>,
  \<^verbatim>\<open>compound_operations.py\<close> and \<^verbatim>\<open>multi_semantics.py\<close>.
\<close>

section \<open>USER_DATA with opaque tokens\<close>

definition ud_reply :: "int \<Rightarrow> int \<Rightarrow> int \<Rightarrow> int \<Rightarrow> int \<Rightarrow> int \<Rightarrow> bytes \<Rightarrow> int \<Rightarrow> int \<Rightarrow> bytes result" where
  "ud_reply reference grp subfunction sequence unit_ref flag content carrier code =
     bindE (bytes_of [0, 1, 0x12, 8, 0x12, or 0x80 grp, subfunction, sequence, unit_ref, flag, 0, 0]) (\<lambda>parameters.
     bindE (bytes_of [code, carrier]) (\<lambda>head_part. bindE (concatE [Inr head_part, pack 2 (len content), Inr content]) (\<lambda>data.
       packet 7 reference parameters data)))"

text \<open>What the client may send after the end: nothing, or one exact disconnect request.\<close>

definition ud_chunk :: "(net, bytes) prog" where
  "ud_chunk = catchM (recv 32) (\<lambda>e. if e = ConnectionResetError then ret [] else raise e)"

lemma ud_chunk_shrinks:
  assumes "(Inr c, t) = ud_chunk s" "c \<noteq> []"
  shows "length (flat (rx t)) < length (flat (rx s))"
proof -
  obtain r a where a: "arrive 32 (rx s) = (r, a)" by fastforce
  with assms have "r = Inr c" "t = s\<lparr>rx := a\<rparr>"
    by (auto simp: ud_chunk_def catchM_def recv_def ret_def raise_def split: sum.splits if_splits)
  with arrive_flat[of 32 "rx s"] a assms(2) show ?thesis by simp
qed

function ud_closed :: "bytes \<Rightarrow> net \<Rightarrow> unit result \<times> net" where
  "ud_closed incoming s =
     (case ud_chunk s of
        (Inl e, t) \<Rightarrow> (Inl e, t)
      | (Inr c, t) \<Rightarrow>
          if c = [] then expect (incoming = [] \<or> incoming = disconnect_frame) ''USER_DATA client sent invalid closing traffic'' t
          else if 11 < length (incoming @ c)
          then (Inl (RuntimeError ''USER_DATA client sent extra traffic after completion/rejection''), t)
          else ud_closed (incoming @ c) t)"
  by pat_completeness auto

termination ud_closed
  by (relation "measure (\<lambda>(incoming, s). length (flat (rx s)))") (auto simp: ud_chunk_shrinks)

declare ud_closed.simps [simp del]

definition password_code :: "bytes \<Rightarrow> bytes" where
  "password_code word =
     foldl (\<lambda>encoded b. encoded @ [xor (xor b 0x55) (if 2 \<le> length encoded then encoded ! (length encoded - 2) else 0)]) [] word"

definition ud_expected_data :: "string \<Rightarrow> bytes" where
  "ud_expected_data operation =
     (if operation = ''szl'' then [0xff, 9, 0, 4, 4, 0x24, 0, 0]
      else if operation = ''blocks'' then [0xff, 9, 0, 2, 0x30, 0x41]
      else if operation = ''clear-password'' then [0x0a, 0, 0, 0]
      else if operation = ''set-clock'' then [0xff, 9, 0, 0x0a, 0, 0x19, 0x24, 2, 0x29, 0x23, 0x59, 0x58, 0x12, 0x31]
      else [0xff, 9, 0, 8] @ password_code [0x31, 0x32, 0x33, 0x34, 0x35, 0x36, 0x37, 0x38])"

definition ud_check_request :: "bytes \<Rightarrow> int \<Rightarrow> int \<Rightarrow> int option \<Rightarrow> string \<Rightarrow> int result" where
  "ud_check_request req grp subfunction sequence operation =
     (let parameter_length = (if sequence = None then 8 else 12 :: nat) in
      bindE (guardE (take 4 req = [0x32, 7, 0, 0] \<and> be_int (slice 6 8 req) = int parameter_length
          \<and> be_int (slice 8 10 req) = len req - 10 - int parameter_length) (RuntimeError ''USER_DATA request header mismatch'')) (\<lambda>_.
      bindE (bytes_of [0, 1, 0x12, int parameter_length - 4, if sequence \<noteq> None then 0x12 else 0x11, or 0x40 grp, subfunction,
          case sequence of None \<Rightarrow> 0 | Some q \<Rightarrow> q]) (\<lambda>expected.
      bindE (guardE (slice 10 (10 + parameter_length) req = expected @ (if sequence \<noteq> None then replicate 4 0 else []))
          (RuntimeError ''USER_DATA continuation did not echo opaque token'')) (\<lambda>_.
      bindE (guardE (drop (10 + parameter_length) req = (if sequence \<noteq> None then [0x0a, 0, 0, 0] else ud_expected_data operation))
          (RuntimeError ''USER_DATA request data mismatch'')) (\<lambda>_. Inr (reference_of req))))))"

definition ud_service :: "string \<Rightarrow> (int \<times> int) result" where
  "ud_service operation =
     (case map_of [(''szl'', (4, 1)), (''blocks'', (3, 2)), (''set-clock'', (7, 2)), (''set-password'', (5, 1)), (''clear-password'', (5, 2))]
        operation of None \<Rightarrow> Inl KeyError | Some v \<Rightarrow> Inr v)"

text \<open>The acknowledgement of a native service.\<close>

definition ud_acknowledge :: "string \<Rightarrow> int \<Rightarrow> int \<Rightarrow> int \<Rightarrow> bytes result" where
  "ud_acknowledge scenario reference grp subfunction =
     (let (content, carrier, code, flag) =
            (if scenario = ''octet-ack'' then ([], 9, 0xff, 0)
             else if scenario = ''nonempty-null'' then ([0xaa], 0, 0x0a, 0)
             else if scenario = ''wrong-null-transport'' then ([], 9, 0x0a, 0)
             else if scenario = ''continuing-null'' then ([], 0, 0x0a, 1)
             else ([], 0, 0x0a, 0))
      in ud_reply reference grp subfunction 0 0 flag content carrier code)"

definition ud_sequences :: "int list" where
  "ud_sequences = [0xff, 1, 1, 0x80]"

definition ud_pieces :: "string \<Rightarrow> bytes list" where
  "ud_pieces operation =
     (if operation = ''szl'' then [[4, 0x24, 0, 0, 0, 2], [0, 4, 1], [2, 3, 4], [5, 6, 7, 8]]
      else [[0], [1, 0x11], [0x22, 2], [1, 0x33, 0x44]])"

definition ud_unit :: "string \<Rightarrow> int" where
  "ud_unit scenario = (if scenario = ''zero-unit'' then 0 else 0x51)"

definition ud_fragment :: "string \<Rightarrow> int \<Rightarrow> int \<Rightarrow> int \<Rightarrow> nat \<Rightarrow> int \<times> bytes \<Rightarrow> bytes result" where
  "ud_fragment scenario reference grp subfunction index piece' =
     (case piece' of (sequence, content) \<Rightarrow>
        let more_flag = of_bool (index \<noteq> 3);
            faulty = (\<lambda>name. index = 1 \<and> scenario = name)
        in ud_reply (if faulty ''stale-reference'' then (reference - 1) mod 65536 else reference)
             (if faulty ''wrong-group'' then (if grp = 4 then 3 else 4) else grp)
             (if faulty ''wrong-subfunction'' then subfunction + 1 else subfunction)
             sequence
             (if faulty ''changed-unit'' then (ud_unit scenario + 1) mod 256 else ud_unit scenario)
             (if faulty ''invalid-flag'' then 2 else more_flag)
             content
             (if faulty ''wrong-transport'' then 4 else 9) 0xff)"

text \<open>One fragment; the value \<open>None\<close> is the \<^verbatim>\<open>break\<close>.\<close>

definition ud_round :: "string \<Rightarrow> string \<Rightarrow> int \<Rightarrow> int \<Rightarrow> nat \<times> int \<times> bytes \<Rightarrow> int \<Rightarrow> (net, int option) prog" where
  "ud_round operation scenario grp subfunction x reference =
     (case x of (index, sequence, content) \<Rightarrow>
        thenM (reply (ud_fragment scenario reference grp subfunction index (sequence, content)))
          (if index = 1 \<and> scenario \<notin> {''valid'', ''zero-unit''} then ret None
           else if index \<noteq> 3 then bindM take_request (\<lambda>req.
             bindM (liftE (ud_check_request req grp subfunction (Some sequence) operation)) (\<lambda>reference. ret (Some reference)))
           else ret (Some reference)))"

definition ud_conversation :: "string \<Rightarrow> string \<Rightarrow> (net, unit) prog" where
  "ud_conversation operation scenario =
     thenM plain_handshake
     (bindM (liftE (ud_service operation)) (\<lambda>(grp, subfunction).
      bindM take_request (\<lambda>req.
      bindM (liftE (ud_check_request req grp subfunction None operation)) (\<lambda>reference.
      thenM
        (if operation \<notin> {''szl'', ''blocks''} then reply (ud_acknowledge scenario reference grp subfunction)
         else bindM (loopS (ud_round operation scenario grp subfunction)
                (zip [0..<4] (zip ud_sequences (ud_pieces operation))) reference) (\<lambda>_. ret ()))
        (ud_closed [])))))"

definition ud_serve :: "string \<Rightarrow> string \<Rightarrow> (net, exn list) prog" where
  "ud_serve operation scenario = collects
     (thenM (accepting (ud_conversation operation scenario))
       (no_reconnect ''USER_DATA terminal failure triggered a reconnect''))"

section \<open>Services that complete in one reply\<close>

definition comp_service :: "string \<Rightarrow> (int \<times> int) result" where
  "comp_service service =
     (case map_of [(''read-clock'', (7, 1)), (''set-clock'', (7, 2)), (''blocks'', (3, 1)), (''set-password'', (5, 1)),
         (''clear-password'', (5, 2))] service of None \<Rightarrow> Inl KeyError | Some v \<Rightarrow> Inr v)"

definition comp_content :: "string \<Rightarrow> bytes" where
  "comp_content service =
     (if service = ''read-clock'' then [0, 0x20, 0x26, 9, 0x23, 0x12, 0, 0, 0, 4]
      else if service = ''blocks'' then
        concat (List.map (\<lambda>code. [0x30, code] @ be_bytes 2 (of_bool (code = 0x41))) [0x38, 0x41, 0x42, 0x43, 0x44, 0x45, 0x46])
      else [])"

definition comp_reply :: "string \<Rightarrow> string \<Rightarrow> bytes \<Rightarrow> bytes result" where
  "comp_reply service mode req =
     bindE (comp_service service) (\<lambda>(grp, subfunction).
     bindE (at req 1) (\<lambda>k.
     bindE (bytes_of [or 0x40 grp, subfunction]) (\<lambda>named.
     bindE (guardE (\<not> (k \<noteq> 7 \<or> slice 15 17 req \<noteq> named)) (RuntimeError ''completion peer saw wrong USER_DATA service'')) (\<lambda>_.
       ud_reply (reference_of req) grp subfunction 1 1 (of_bool (mode = ''incomplete'')) (comp_content service) 9 0xff))))"

definition comp_serve :: "string \<Rightarrow> string \<Rightarrow> (net, exn list) prog" where
  "comp_serve service mode = collects
     (thenM (ext_session (bindM take_request (\<lambda>req. thenM (reply (comp_reply service mode req))
        (bindM receive (\<lambda>frame. expect (disconnecting frame) ''completion peer saw unexpected continuation or write'')))))
       (no_reconnect ''incomplete service was retried despite protocol failure''))"

section \<open>One budget for a connection\<close>

text \<open>How long the peer sleeps is the client's affair and leaves no trace here.\<close>

definition budget_closed :: "(net, unit) prog" where
  "budget_closed = bindM last_octet (\<lambda>data. expect (data = []) ''failed negotiation sent more data'')"

definition budget_confirm :: "bytes \<Rightarrow> (net, unit) prog" where
  "budget_confirm cr =
     thenM (expect (\<not> (length cr \<noteq> 18 \<or> cr ! 1 \<noteq> 0xe0)) ''budget peer expected COTP connection request'') (send_confirm cr)"

definition budget_disconnect :: "(net, unit) prog" where
  "budget_disconnect = bindM receive (\<lambda>frame. expect (disconnecting frame) ''successful negotiation did not disconnect'')"

definition is_candidate :: "string \<Rightarrow> bool" where
  "is_candidate mode \<longleftrightarrow> take 10 mode = ''candidate-''"

definition budget_conversation :: "string \<Rightarrow> nat \<Rightarrow> (net, unit) prog" where
  "budget_conversation mode position =
     bindM receive (\<lambda>cr.
     if mode = ''candidate-protocol'' then thenM (tpkt_send [1, 0xd0]) budget_closed
     else if mode \<in> {''candidate-disconnected'', ''candidate-budget''} \<and> position = 0 then ret ()
     else if mode = ''candidate-budget'' then budget_closed
     else thenM (budget_confirm cr)
       (if is_candidate mode then budget_disconnect
        else bindM take_request (\<lambda>setup_pdu.
          if mode \<in> {''combined'', ''operation''} then budget_closed
          else thenM (reply (ack (reference_of setup_pdu) [0xf0, 0, 0, 1, 0, 1, 0, 0xf0] [])) budget_disconnect)))"

definition budget_serve :: "string \<Rightarrow> nat \<Rightarrow> (net, exn list) prog" where
  "budget_serve mode position = collects_narrow
     (if mode = ''candidate-protocol'' \<and> position = 1 then no_reconnect ''protocol failure fell back to another address''
      else accepting (budget_conversation mode position))"


section \<open>Whole calls of several requests\<close>

definition co_barriers :: "string list" where
  "co_barriers = [''bit-db'', ''bit-input'', ''bit-output'', ''bit-db-clear'', ''bit-output-clear'', ''string-success'', ''wstring-success'']"

definition co_refresh :: "string \<Rightarrow> string" where
  "co_refresh mode =
     (if mode = ''bit-deadline'' then ''bit write refreshed its receive budget'' else ''compound body refreshed its receive budget'')"

definition co_read_reply :: "bytes \<Rightarrow> bytes \<Rightarrow> bytes result" where
  "co_read_reply req data =
     bindE (concatE [pack 1 255, pack 1 4, pack 2 (len data * 8), Inr data]) (ack (reference_of req) [4, 1])"

definition co_check :: "bytes \<Rightarrow> int \<Rightarrow> int \<Rightarrow> int \<Rightarrow> int \<Rightarrow> unit result" where
  "co_check req function place amount area =
     bindE (bytes_of [function, 1, 0x12, 0x0a, 0x10, 2]) (\<lambda>head_part.
     bindE (concatE [Inr head_part, pack 2 amount, pack 2 (of_bool (area = 0x84)), pack 1 area, to_bytes 3 (place * 8)]) (\<lambda>expected.
       guardE (slice 10 24 req = expected) (RuntimeError ''compound operation interleaved or encoded wrong range'')))"

definition co_disconnect :: "(net, unit) prog" where
  "co_disconnect = bindM receive (\<lambda>frame.
     expect (disconnecting frame) ''compound operation sent unexpected IO instead of disconnect'')"

definition co_area :: "string \<Rightarrow> int" where
  "co_area mode = (if take 9 mode = ''bit-input'' then 0x81 else if take 10 mode = ''bit-output'' then 0x82 else 0x84)"

definition co_clearing :: "string \<Rightarrow> bool" where
  "co_clearing mode \<longleftrightarrow> ends_in ''clear'' mode"

text \<open>The octet a bit write carries must differ from the current one in a single bit, in the wanted direction.\<close>

definition bit_update :: "bool \<Rightarrow> byte \<Rightarrow> byte \<Rightarrow> bool" where
  "bit_update clearing old new \<longleftrightarrow>
     (let difference = xor new old in
      \<not> ((if clearing then or new old \<noteq> old else and new old \<noteq> old) \<or> difference = 0 \<or> and difference (difference - 1) \<noteq> 0))"

definition bit_written :: "string \<Rightarrow> byte \<Rightarrow> bytes \<Rightarrow> byte result" where
  "bit_written mode old req =
     bindE (co_check req 5 0 1 (co_area mode)) (\<lambda>_.
     bindE (guardE (\<not> (length req \<noteq> 29 \<or> slice 24 28 req \<noteq> [0, 4, 0, 8])) (RuntimeError ''compound bit write payload mismatch'')) (\<lambda>_.
     bindE (guardE (bit_update (co_clearing mode) old (req ! 28)) (RuntimeError ''compound bit update lost or changed another bit'')) (\<lambda>_.
       Inr (req ! 28))))"

text \<open>One read and one write; the value \<open>None\<close> is the \<^verbatim>\<open>return\<close> at the deadline or the \<^verbatim>\<open>break\<close> after the drop.\<close>

definition bit_round :: "string \<Rightarrow> bytes \<Rightarrow> nat \<Rightarrow> byte \<Rightarrow> (net, byte option) prog" where
  "bit_round mode first index old =
     bindM (if index = 0 then ret first else take_request) (\<lambda>req.
     thenM (liftE (co_check req 4 0 1 (co_area mode)))
     (thenM (if mode = ''bit-deadline''
             then bindM dl_delay (\<lambda>silent. expect silent ''bit deadline expired before its initial response'') else ret ())
     (thenM (reply (co_read_reply req [old]))
     (bindM take_request (\<lambda>write_request.
      bindM (liftE (bit_written mode old write_request)) (\<lambda>new.
        if mode = ''bit-deadline''
        then bindM dl_delay (\<lambda>silent. thenM (expect (\<not> silent) (co_refresh mode)) (ret None))
        else if mode = ''bit-drop'' then thenM (note_io Shutdown) (ret None)
        else thenM (reply (ack (reference_of write_request) [5, 1] [0xff])) (ret (Some new))))))))"

definition bit_rounds :: "string \<Rightarrow> nat" where
  "bit_rounds mode = (if mode \<in> {''bit-drop'', ''bit-deadline''} then 1 else 8)"

definition co_bits :: "string \<Rightarrow> bytes \<Rightarrow> (net, unit) prog" where
  "co_bits mode first =
     bindM (loopS (bit_round mode first) [0..<bit_rounds mode] (if co_clearing mode then 255 else 0)) (\<lambda>r. case r of
       None \<Rightarrow> ret ()
     | Some octet \<Rightarrow> bindM take_request (\<lambda>final.
         thenM (liftE (co_check final 4 0 1 (co_area mode)))
        (thenM (expect (octet = (if co_clearing mode then 0 else 255)) ''compound bit updates were incomplete'')
        (thenM (reply (co_read_reply final [octet])) co_disconnect))))"

definition co_wide :: "string \<Rightarrow> bool" where
  "co_wide mode \<longleftrightarrow> take 7 mode = ''wstring''"

definition co_maximum :: "bool \<Rightarrow> int" where
  "co_maximum wide = (if wide then 150 else 250)"

definition co_text_header :: "bool \<Rightarrow> int \<Rightarrow> bytes \<Rightarrow> bytes result" where
  "co_text_header wide limit content =
     (if wide then concatE [pack 2 limit, pack 2 (int (length content div 2))] else bytes_of [limit, len content])"

definition co_field :: "bool \<Rightarrow> bytes \<Rightarrow> bytes result" where
  "co_field wide content =
     bindE (co_text_header wide (co_maximum wide) content) (\<lambda>header.
       Inr (header @ content @ replicate (nat (co_maximum wide * (if wide then 2 else 1) - len content)) 0))"

definition co_text :: "bool \<Rightarrow> bool \<Rightarrow> bytes result" where
  "co_text wide updated =
     (if wide then encode_text Utf16be (if updated then ascii ''updated '' @ [0x1f30d] else ascii ''PLC '' @ [0x1f680])
      else encode_text Latin1 (if updated then ascii ''updated'' else ascii ''lean''))"

definition co_first_field :: "string \<Rightarrow> bytes result" where
  "co_first_field mode =
     (if mode = ''wstring-bad-utf16'' then Inr [0, 1, 0, 1, 0xd8, 0]
      else bindE (co_text (co_wide mode) False) (co_field (co_wide mode)))"

text \<open>The field as it is when its body is read.\<close>

definition co_body :: "string \<Rightarrow> bytes \<Rightarrow> bytes result" where
  "co_body mode data =
     (if ends_in ''capacity-shrink'' mode \<or> ends_in ''capacity-grow'' mode then
        let changed = co_maximum (co_wide mode) + (if ends_in ''shrink'' mode then -1 else 1)
        in if co_wide mode then bindE (pack 2 changed) (\<lambda>c. Inr (c @ drop 2 data))
           else bindE (bytes_of [changed]) (\<lambda>c. Inr (c @ drop 1 data))
      else if ends_in ''length-update'' mode then bindE (co_text (co_wide mode) True) (co_field (co_wide mode))
      else Inr data)"

text \<open>One chunk of the body; the value \<open>True\<close> is the \<^verbatim>\<open>return\<close> at the deadline.\<close>

definition co_chunk :: "string \<Rightarrow> bytes \<Rightarrow> int \<times> int \<Rightarrow> (net, bool) prog" where
  "co_chunk mode data c = (case c of (offset, amount) \<Rightarrow>
     bindM take_request (\<lambda>req.
     thenM (liftE (co_check req 4 offset amount 0x84))
       (if ends_in ''deadline'' mode
        then bindM dl_delay (\<lambda>silent. thenM (expect (\<not> silent) (co_refresh mode)) (ret True))
        else thenM (reply (co_read_reply req (slice (nat offset) (nat (offset + amount)) data))) (ret False))))"

definition co_competing :: "(net, unit) prog" where
  "co_competing = bindM take_request (\<lambda>competing.
     thenM (liftE (co_check competing 5 2000 1 0x84))
    (thenM (expect (drop 24 competing = [0, 4, 0, 8, 0x63]) ''competing compound test write mismatch'')
      (reply (ack (reference_of competing) [5, 1] [0xff]))))"

definition co_strings :: "string \<Rightarrow> bytes \<Rightarrow> (net, unit) prog" where
  "co_strings mode first =
     (let header_size = (if co_wide mode then 4 else 2 :: nat) in
      thenM (liftE (co_check first 4 0 (int header_size) 0x84))
      (if ends_in ''bad-header'' mode
       then thenM (reply (co_read_reply first (if co_wide mode then [0, 1, 0, 2] else [1, 2]))) co_disconnect
       else bindM (liftE (co_first_field mode)) (\<lambda>data.
         thenM (if ends_in ''deadline'' mode
                then bindM dl_delay (\<lambda>silent. expect silent ''compound timed out before valid first response'') else ret ())
        (thenM (reply (co_read_reply first (take header_size data)))
        (bindM (liftE (co_body mode data)) (\<lambda>data.
         bindM (loopM (co_chunk mode data) (chunks 222 (len data))) (\<lambda>returned.
           if returned then ret ()
           else thenM (if mode \<in> set co_barriers then co_competing else ret ()) co_disconnect)))))))"

definition co_barrier :: "string \<Rightarrow> (net, unit) prog" where
  "co_barrier mode =
     (if mode \<in> set co_barriers
      then thenM (note_io Signalled) (bindM wait (\<lambda>released. expect released ''compound process barrier did not release''))
      else ret ())"

definition co_conversation :: "string \<Rightarrow> (net, unit) prog" where
  "co_conversation mode =
     thenM plain_handshake
     (bindM take_request (\<lambda>first.
      thenM (co_barrier mode)
        (if take 3 mode = ''bit'' then co_bits mode first else co_strings mode first)))"

definition co_serve :: "string \<Rightarrow> (net, exn list) prog" where
  "co_serve mode =
     bindM (collects (thenM (accepting (co_conversation mode))
       (if mode = ''bit-drop'' then no_reconnect ''compound write reconnected after completed read'' else ret ()))) (\<lambda>errors.
     thenM (if errors = [] then ret () else note_io Signalled) (ret errors))"

section \<open>Oversized items\<close>

definition sem_limit :: "string \<Rightarrow> int \<Rightarrow> int" where
  "sem_limit mode pdu = pdu - (if take 5 mode = ''read-'' then 18 else 28)"

definition sem_stages :: "string \<Rightarrow> int \<Rightarrow> (int \<times> int \<times> bool) list" where
  "sem_stages mode pdu =
     (let limit = sem_limit mode pdu in
      (if ends_in ''success'' mode then List.map (\<lambda>(offset, amount). (offset, amount, False)) (chunks limit 700)
       else [(0, limit, ends_in ''first'' mode)])
      @ (if ends_in ''mid'' mode then [(limit, min limit (700 - limit), True)] else [])
      @ [(1000, 1, False)])"

definition sem_payload :: "string \<Rightarrow> int \<Rightarrow> int \<Rightarrow> bytes" where
  "sem_payload mode place amount =
     (if ends_in ''success'' mode \<and> place \<noteq> 1000
      then List.map (\<lambda>index. byte ((index * 37 + 7) mod 256)) [place..place + amount - 1]
      else replicate (nat amount) (if place = 1000 then 99 else 42))"

definition sem_layout :: "bytes \<Rightarrow> int \<Rightarrow> int \<Rightarrow> int \<Rightarrow> int \<Rightarrow> (int \<times> int) result" where
  "sem_layout req pdu function place amount =
     bindE (guardE (\<not> len req > pdu) (RuntimeError ''oversized multi request exceeds PDU'')) (\<lambda>_.
     bindE (guardE (length (slice 4 10 req) = 6) StructError) (\<lambda>_.
     let parameters_size = be_int (slice 6 8 req); data_size = be_int (slice 8 10 req) in
     bindE (bytes_of [function, 1, 0x12, 0x0a, 0x10, 2]) (\<lambda>head_part.
     bindE (concatE [Inr head_part, pack 2 amount, pack 2 1, Inr [0x84], to_bytes 3 (place * 8)]) (\<lambda>expected.
     bindE (guardE (\<not> (parameters_size \<noteq> 14 \<or> slice 10 24 req \<noteq> expected)) (RuntimeError ''oversized multi chunk/order mismatch'')) (\<lambda>_.
     bindE (guardE (len req = 10 + parameters_size + data_size) (RuntimeError ''oversized multi request lengths mismatch'')) (\<lambda>_.
       Inr (reference_of req, data_size)))))))"

definition sem_answer :: "string \<Rightarrow> int \<Rightarrow> int \<times> int \<times> bool \<Rightarrow> bytes \<Rightarrow> bytes result" where
  "sem_answer mode pdu stage req =
     (case stage of (place, amount, failure) \<Rightarrow>
        let function = (if take 5 mode = ''read-'' then 4 else 5); content = sem_payload mode place amount in
        bindE (sem_layout req pdu function place amount) (\<lambda>(reference, data_size).
        bindE
          (if function = 5 then
             bindE (concatE [pack 1 0, pack 1 4, pack 2 (amount * 8), Inr content]) (\<lambda>expected.
             bindE (guardE (drop 24 req = expected) (RuntimeError ''oversized multi write slice mismatch'')) (\<lambda>_.
               Inr [if failure then 5 else 0xff]))
           else if failure then concatE [pack 1 5, pack 1 0, pack 2 0]
           else bindE (guardE (data_size = 0) (RuntimeError ''oversized multi read sent data'')) (\<lambda>_.
             concatE [pack 1 0xff, pack 1 4, pack 2 (amount * 8), Inr content])) (\<lambda>data.
        bindE (bytes_of [function, 1]) (\<lambda>parameters. ack reference parameters data))))"

definition sem_conversation :: "string \<Rightarrow> int \<Rightarrow> (net, unit) prog" where
  "sem_conversation mode pdu =
     bindM receive (\<lambda>cr. thenM (send_confirm cr)
     (bindM take_request (\<lambda>setup_pdu.
      thenM (reply (prov_setup pdu setup_pdu))
     (thenM (if take 8 mode = ''invalid-'' then ret ()
             else forM (sem_stages mode pdu) (\<lambda>stage. bindM take_request (\<lambda>req. reply (sem_answer mode pdu stage req))))
       (bindM receive (\<lambda>frame. expect (disconnecting frame) ''unexpected operation after validation/failure''))))))"

definition sem_serve :: "string \<Rightarrow> int \<Rightarrow> (net, exn list) prog" where
  "sem_serve mode pdu = serving (sem_conversation mode pdu)"

section \<open>The clean end, octet by octet\<close>

fun close_verdict :: "bytes \<Rightarrow> item list \<Rightarrow> unit result" where
  "close_verdict incoming (B b # xs) =
     (if 11 < length (incoming @ [b])
      then Inl (RuntimeError ''USER_DATA client sent extra traffic after completion/rejection'')
      else close_verdict (incoming @ [b]) xs)"
| "close_verdict incoming (E e # xs) =
     (if e \<in> {Eof, Reset}
      then guardE (incoming = [] \<or> incoming = disconnect_frame) (RuntimeError ''USER_DATA client sent invalid closing traffic'')
      else Inl TimeoutError)"
| "close_verdict incoming [] = Inl TimeoutError"

lemma close_verdict_chunk:
  "c \<noteq> [] \<Longrightarrow> length incoming \<le> 11 \<Longrightarrow> close_verdict incoming (List.map B c @ ys) =
     (if 11 < length (incoming @ c) then Inl (RuntimeError ''USER_DATA client sent extra traffic after completion/rejection'')
      else close_verdict (incoming @ c) ys)"
proof (induction c arbitrary: incoming)
  case (Cons b c)
  then show ?case by (cases "c = []") auto
qed simp

lemma pull_one: "pull msg 1 xs = (case xs of [] \<Rightarrow> (Inl TimeoutError, []) | B b # xs \<Rightarrow> (Inr [b], xs)
    | E Eof # xs \<Rightarrow> (Inl (RuntimeError msg), E Eof # xs) | E Reset # xs \<Rightarrow> (Inl ConnectionResetError, xs) | E _ # xs \<Rightarrow> (Inl TimeoutError, xs))"
  by (auto split: list.splits item.splits arrival.splits)

lemma ud_chunk_flat:
  assumes "ud_chunk s = (r, t)"
  shows "t = s\<lparr>rx := rx t\<rparr>"
    and "case r of
      Inr c \<Rightarrow> if c = [] then (\<exists>e rest. e \<in> {Eof, Reset} \<and> flat (rx s) = E e # rest) else flat (rx s) = List.map B c @ flat (rx t)
    | Inl e \<Rightarrow> e = TimeoutError \<and> (flat (rx s) = [] \<or> (\<exists>x rest. x \<notin> {Eof, Reset} \<and> flat (rx s) = E x # rest))"
proof -
  obtain q a where a: "arrive 32 (rx s) = (q, a)" by fastforce
  show "t = s\<lparr>rx := rx t\<rparr>"
    using assms a by (auto simp: ud_chunk_def catchM_def recv_def ret_def raise_def split: sum.splits if_splits)
  note f = arrive_flat[of 32 "rx s", unfolded a, simplified]
  show "case r of
      Inr c \<Rightarrow> if c = [] then (\<exists>e rest. e \<in> {Eof, Reset} \<and> flat (rx s) = E e # rest) else flat (rx s) = List.map B c @ flat (rx t)
    | Inl e \<Rightarrow> e = TimeoutError \<and> (flat (rx s) = [] \<or> (\<exists>x rest. x \<notin> {Eof, Reset} \<and> flat (rx s) = E x # rest))"
  proof (cases q)
    case (Inl e)
    then have p: "pull msg 1 (flat (rx s)) = (Inl e, flat a)" for msg using f by simp
    show ?thesis
      using assms a Inl p[of "''x''"] p[of "''y''"] unfolding pull_one
      by (auto simp: ud_chunk_def catchM_def recv_def ret_def raise_def split: list.splits item.splits arrival.splits if_splits)
  next
    case (Inr c)
    then have r: "r = Inr c" "t = s\<lparr>rx := a\<rparr>"
      using assms a by (auto simp: ud_chunk_def catchM_def recv_def)
    show ?thesis
    proof (cases "c = []")
      case True
      then have "pull ''x'' 1 (flat (rx s)) = (Inl (RuntimeError ''x''), flat a)" using f Inr by simp
      then have "\<exists>rest. flat (rx s) = E Eof # rest"
        unfolding pull_one by (cases "flat (rx s)") (auto split: item.splits arrival.splits)
      with r True show ?thesis by auto
    next
      case False
      with f Inr r show ?thesis by simp
    qed
  qed
qed

lemma ud_closed_verdict:
  "length incoming \<le> 11 \<Longrightarrow> fst (ud_closed incoming s) = close_verdict incoming (flat (rx s))
     \<and> (\<exists>xs. snd (ud_closed incoming s) = s\<lparr>rx := xs\<rparr>)"
proof (induction incoming s rule: ud_closed.induct)
  case (1 incoming s)
  obtain r t where c: "ud_chunk s = (r, t)" by fastforce
  note f = ud_chunk_flat[OF c]
  show ?case
  proof (cases r)
    case (Inl e)
    with f c show ?thesis by (auto simp: ud_closed.simps[of incoming s])
  next
    case (Inr d)
    show ?thesis
    proof (cases "d = []")
      case True
      with Inr f c show ?thesis
        by (auto simp: ud_closed.simps[of incoming s] expect_def guardM_def liftE_def)
    next
      case False
      then have fl: "flat (rx s) = List.map B d @ flat (rx t)" using f Inr by simp
      show ?thesis
      proof (cases "11 < length (incoming @ d)")
        case True
        then show ?thesis using False Inr c f(1) 1(2)
          by (auto simp: ud_closed.simps[of incoming s] fl close_verdict_chunk)
      next
        case short: False
        have "ud_closed incoming s = ud_closed (incoming @ d) t" using False Inr c short by (simp add: ud_closed.simps[of incoming s])
        moreover have "\<exists>xs. u = s\<lparr>rx := xs\<rparr>" if "\<exists>xs. u = t\<lparr>rx := xs\<rparr>" for u
          using that f(1) by (metis net.update_convs(2) net.surjective)
        ultimately show ?thesis
          using 1(1)[OF c[symmetric] Inr False short] short False 1(2) by (simp add: fl close_verdict_chunk)
      qed
    qed
  qed
qed

end
