(* ===== verification/Benches.thy ===== *)
theory Benches
  imports Services Sequence Overlap
begin

text \<open>
  The peers of the measuring scripts: \<^verbatim>\<open>scalability_bench.py\<close> (whole transfers, every request checked against the expected
  one), \<^verbatim>\<open>resource_stress.py\<close> (handshakes that fail, reads that reconnect, and the plateau check of the samples),
  \<^verbatim>\<open>transport_resources.py\<close> (raw COTP frames) and \<^verbatim>\<open>block_info_identity.py\<close>.
\<close>

section \<open>Transfers of growing size\<close>

definition bench_data :: "int \<Rightarrow> int \<Rightarrow> bytes" where
  "bench_data begin_at amount = List.map (\<lambda>index. byte (((begin_at + int index) * 37 + 11) mod 256)) [0..<nat amount]"

definition bench_count :: "string \<Rightarrow> int \<Rightarrow> int \<Rightarrow> int" where
  "bench_count mode pdu left_over =
     (if mode = ''read'' then min left_over (pdu - 18)
      else min (min 20 left_over)
        (if mode = ''multi-write'' then (pdu - 12) div 18 else min ((pdu - 12) div 12) ((pdu - 14) div 6)))"

text \<open>The parameters and data expected of a request, and the body of the reply, one item at a time.\<close>

definition bench_item :: "bool \<Rightarrow> int \<Rightarrow> int \<Rightarrow> int \<times> int \<Rightarrow> bytes \<times> bytes \<times> bytes \<Rightarrow> (bytes \<times> bytes \<times> bytes) result" where
  "bench_item write_op items offset item so_far =
     (case (item, so_far) of ((address', amount), (parameters, expected, response)) \<Rightarrow>
        bindE (concatE [Inr [0x12, 0x0a, 0x10, 2], pack 2 amount, pack 2 1, Inr [0x84], to_bytes 3 (address' * 8)]) (\<lambda>spec.
        let data = bench_data address' amount; followed = offset + 1 < items in
        if write_op then
          bindE (concatE [Inr [0, 4], pack 2 (amount * 8), Inr data]) (\<lambda>entry.
            Inr (parameters @ spec, expected @ entry @ (if followed then [0] else []), response @ [0xff]))
        else
          bindE (concatE [Inr [0xff, 4], pack 2 (amount * 8), Inr data]) (\<lambda>entry.
            Inr (parameters @ spec, expected, response @ entry @ (if followed \<and> amount mod 2 \<noteq> 0 then [0] else [])))))"

fun bench_items :: "bool \<Rightarrow> int \<Rightarrow> int \<Rightarrow> (int \<times> int) list \<Rightarrow> bytes \<times> bytes \<times> bytes \<Rightarrow> (bytes \<times> bytes \<times> bytes) result" where
  "bench_items write_op items offset [] so_far = Inr so_far"
| "bench_items write_op items offset (item # rest) so_far =
     bindE (bench_item write_op items offset item so_far) (bench_items write_op items (offset + 1) rest)"

text \<open>The ranges of one exchange: where each item starts, and how long it is.\<close>

definition bench_ranges :: "string \<Rightarrow> int \<Rightarrow> int \<Rightarrow> (int \<times> int) list" where
  "bench_ranges mode covered amount =
     (if mode = ''read'' then [(covered, amount)] else List.map (\<lambda>offset. ((covered + int offset) * 2, 1)) [0..<nat amount])"

definition bench_exchange :: "string \<Rightarrow> int \<Rightarrow> int \<Rightarrow> int \<Rightarrow> bytes \<Rightarrow> (int \<times> bytes) result" where
  "bench_exchange mode pdu total_size covered req =
     (let write_op = (mode = ''multi-write''); amount = bench_count mode pdu (total_size - covered);
          items = (if mode = ''read'' then 1 else amount); function = (if write_op then 5 else 4 :: byte) in
      bindE (guardE (\<not> (len req > pdu \<or> take 4 req \<noteq> [0x32, 1, 0, 0])) (RuntimeError ''benchmark request framing/budget mismatch'')) (\<lambda>_.
      bindE (guardE (10 \<le> length req) StructError) (\<lambda>_.
      let reference = be_int (slice 4 6 req); parameter_size = be_int (slice 6 8 req); data_size = be_int (slice 8 10 req) in
      bindE (guardE (12 \<le> length req) ValueError) (\<lambda>_.
      bindE (guardE (\<not> (req ! 10 \<noteq> function \<or> uint (req ! 11) \<noteq> items \<or> parameter_size \<noteq> 2 + 12 * items
          \<or> len req \<noteq> 10 + parameter_size + data_size)) (RuntimeError ''benchmark item count/section mismatch'')) (\<lambda>_.
      bindE (bench_items write_op items 0 (bench_ranges mode covered amount) ([req ! 10, req ! 11], [], [])) (\<lambda>(parameters, expected, response).
      bindE (guardE (\<not> (slice 10 (10 + nat parameter_size) req \<noteq> parameters \<or> drop (10 + nat parameter_size) req \<noteq> expected))
          (RuntimeError ''benchmark reordered/corrupted request'')) (\<lambda>_.
      bindE (ack reference [req ! 10, req ! 11] response) (\<lambda>out.
      bindE (guardE (\<not> len out > pdu) (RuntimeError ''benchmark response exceeded PDU'')) (\<lambda>_.
        Inr (amount, out))))))))))"

text \<open>\<^verbatim>\<open>while completed < size\<close>; a request takes at least its header off the stream, so the loop ends even if it never advances.\<close>

definition bench_step :: "string \<Rightarrow> int \<Rightarrow> int \<Rightarrow> int \<Rightarrow> (net, int) prog" where
  "bench_step mode pdu total_size covered =
     bindM take_request (\<lambda>req. bindM (liftE (bench_exchange mode pdu total_size covered req)) (\<lambda>(amount, out).
       thenM (send_pdu out) (ret amount)))"

lemma eats_take_request: "eats take_request"
  unfolding take_request_def receive_def by (intro eats_bindM eats_receive shrinks_thenM shrinks_quiet)

lemma eats_bench_step: "eats (bench_step mode pdu total_size covered)"
  unfolding bench_step_def case_prod_unfold send_pdu_def tpkt_send_def
  by (intro eats_bindM eats_take_request shrinks_bindM shrinks_thenM shrinks_quiet)

function bench_round :: "string \<Rightarrow> int \<Rightarrow> int \<Rightarrow> int \<Rightarrow> int \<Rightarrow> net \<Rightarrow> int result \<times> net" where
  "bench_round mode pdu total_size covered packets s =
     (if covered < total_size then
        (case bench_step mode pdu total_size covered s of
           (Inl e, t) \<Rightarrow> (Inl e, t)
         | (Inr amount, t) \<Rightarrow> bench_round mode pdu total_size (covered + amount) (packets + 1) t)
      else (Inr packets, s))"
  by pat_completeness auto

termination bench_round
  by (relation "measure (\<lambda>(mode, pdu, total_size, covered, packets, s). length (flat (rx s)))")
    (auto, metis eats_bench_step eats_def)

declare bench_round.simps [simp del]

text \<open>The errors, and the packet counts of the connections that ended well.\<close>

definition bench_serve :: "int \<Rightarrow> string \<Rightarrow> int \<Rightarrow> nat \<Rightarrow> (net, exn list \<times> int list) prog" where
  "bench_serve pdu mode total_size rounds =
     catchM (bindM (accepting
         (thenM (boundary_handshake pdu)
           (bindM (foldM (\<lambda>_ packets. bench_round mode pdu total_size 0 packets) [0..<Suc rounds] 0) (\<lambda>packets.
            thenM closed_check (ret packets)))) ) (\<lambda>packets. ret ([], [packets])))
       (\<lambda>e. if caught e then ret ([e], []) else raise e)"

section \<open>Raw transport frames\<close>

definition raw_frame :: "bytes \<Rightarrow> bool \<Rightarrow> int \<Rightarrow> bytes result" where
  "raw_frame content final reserved =
     (let body = [2, 0xf0, if final then 0x80 else 0] @ content
      in concatE [pack 1 3, pack 1 reserved, pack 2 (len body + 4), Inr body])"

definition raw_octets :: "string \<Rightarrow> bytes result" where
  "raw_octets mode =
     (if mode \<in> {''exact'', ''reserved''} then
        concatE (List.map (\<lambda>index. raw_frame [byte (int index + 1)] (index = 2) (if mode = ''reserved'' then 255 else 0)) [0..<3])
      else if mode \<in> {''empty'', ''tiny''} then concatE (replicate 3 (raw_frame (if mode = ''empty'' then [] else [0x78]) False 0))
      else if mode = ''version'' then Inr [4, 0, 255, 255]
      else if mode = ''short'' then Inr [3, 0, 0, 6]
      else if mode = ''oversized'' then Inr [3, 0, 255, 255]
      else concatE [raw_frame [0x78, 0x79] False 0, Inr [3, 0, 0, 9]])"

definition raw_modes :: "string list" where
  "raw_modes = [''exact'', ''reserved'', ''empty'', ''tiny'', ''version'', ''short'', ''oversized'', ''remaining'']"

text \<open>The peer sends its octets and waits for the end: what the client sends is an error, and so is waiting for the octets withheld.\<close>

definition raw_serve :: "string \<Rightarrow> (net, exn list) prog" where
  "raw_serve mode = collects (accepting
     (thenM
       (if mode \<in> set raw_modes then bindM (liftE (raw_octets mode)) sendall
        else expect (mode = ''zero'') ''unknown transport resource mode'')
       (bindM (recv 1) (\<lambda>data. expect (data = []) ''raw transport test sent unexpected data''))))"

section \<open>Reconnect stress\<close>

record sample =
  sm_descriptors :: int
  sm_threads :: int
  sm_rss :: int

text \<open>A metric may grow by its margin over the first sample; the error names the first that grew more.\<close>

definition grew :: "(sample \<Rightarrow> int) \<Rightarrow> sample list \<Rightarrow> int" where
  "grew field samples = Max (set (List.map field (tl samples))) - field (hd samples)"

definition plateau_limits :: "(string \<times> (sample \<Rightarrow> int) \<times> int) list" where
  "plateau_limits = [(''descriptors'', sm_descriptors, 8), (''threads'', sm_threads, 16), (''rss_bytes'', sm_rss, 32 * 1024 * 1024)]"

definition check_plateau :: "sample list \<Rightarrow> unit result" where
  "check_plateau samples =
     bindE (guardE (length samples = 17) (RuntimeError ''resource stress sample count changed'')) (\<lambda>_.
       case find (\<lambda>(name, field, margin). grew field samples > margin) plateau_limits of
         None \<Rightarrow> Inr ()
       | Some (name, _) \<Rightarrow> Inl (RuntimeError (''resource accumulation: '' @ name @ '' grew '')))"

definition plateau_base :: sample where
  "plateau_base = \<lparr>sm_descriptors = 10, sm_threads = 4, sm_rss = 8 * 1024 * 1024\<rparr>"

definition plateau_missed :: "string \<times> sample \<Rightarrow> unit result" where
  "plateau_missed x =
     (case x of (field, leaking) \<Rightarrow>
        case check_plateau (replicate 16 plateau_base @ [leaking]) of
          Inl (RuntimeError msg) \<Rightarrow> guardE (take (length (''resource accumulation: '' @ field @ '' grew '')) msg
              = ''resource accumulation: '' @ field @ '' grew '') (RuntimeError ''plateau checker reported the wrong metric'')
        | Inl e \<Rightarrow> Inl e
        | Inr _ \<Rightarrow> Inl (RuntimeError (''plateau checker missed synthetic '' @ field)))"

definition plateau_self_test :: "unit result" where
  "plateau_self_test =
     bindE (check_plateau (replicate 17 plateau_base)) (\<lambda>_.
     bindE (check_plateau (plateau_base # replicate 16 \<lparr>sm_descriptors = 18, sm_threads = 20, sm_rss = 40 * 1024 * 1024\<rparr>)) (\<lambda>_.
     bindE (mapE plateau_missed
        [(''descriptors'', plateau_base\<lparr>sm_descriptors := 19\<rparr>), (''threads'', plateau_base\<lparr>sm_threads := 21\<rparr>),
         (''rss_bytes'', plateau_base\<lparr>sm_rss := 8 * 1024 * 1024 + 32 * 1024 * 1024 + 1\<rparr>)]) (\<lambda>_.
       case check_plateau (replicate 16 plateau_base) of
         Inl (RuntimeError _) \<Rightarrow> Inr ()
       | Inl e \<Rightarrow> Inl e
       | Inr _ \<Rightarrow> Inl (RuntimeError ''plateau checker accepted missing measurements''))))"

definition stress_closed :: "(net, unit) prog" where
  "stress_closed = bindM last_octet (\<lambda>data. expect (data = []) ''stress failure continued handshake'')"

definition stress_setup :: "bytes \<Rightarrow> (net, unit) prog" where
  "stress_setup cr = thenM (send_confirm cr) (bindM take_request (\<lambda>setup_pdu.
     reply (ack (reference_of setup_pdu) [0xf0, 0, 0, 1, 0, 1, 0, 0xf0] [])))"

definition stress_read :: "(net, bytes) prog" where
  "stress_read = bindM take_request (\<lambda>req.
     thenM (expect (\<not> (slice 10 12 req \<noteq> [4, 1] \<or> slice 16 18 req \<noteq> [0, 1])) ''stress peer expected one-byte read'') (ret req))"

definition stress_finish :: "bytes \<Rightarrow> (net, unit) prog" where
  "stress_finish req = thenM (reply (ack (reference_of req) [4, 1] [0xff, 4, 0, 8, 0x2a]))
     (bindM receive (\<lambda>frame. expect (disconnecting frame) ''stress successful session omitted disconnect''))"

text \<open>The four modes in turn: a read whose connection is lost and replayed, two handshakes that fail, a whole session.\<close>

definition stress_session :: "nat \<Rightarrow> (net, bytes) prog" where
  "stress_session mode =
     accepting (bindM receive (\<lambda>cr.
       if mode = 1 then thenM (tpkt_send [1, 0xd0]) (thenM stress_closed (ret []))
       else if mode = 2 then thenM stress_closed (ret [])
       else thenM (stress_setup cr) (bindM stress_read (\<lambda>req.
         thenM (if mode = 0 then note_io Shutdown else stress_finish req) (ret req)))))"

definition stress_replacement :: "bytes \<Rightarrow> (net, unit) prog" where
  "stress_replacement req =
     accepting (bindM receive (\<lambda>cr. thenM (stress_setup cr) (bindM stress_read (\<lambda>replay.
       thenM (expect (replay = req) ''stress reconnect changed read request'') (stress_finish replay)))))"

definition stress_serve :: "nat \<Rightarrow> (net, exn list) prog" where
  "stress_serve rounds = collects (forM [0..<216 * rounds] (\<lambda>index.
     bindM (stress_session (index mod 4)) (\<lambda>req. if index mod 4 = 0 then stress_replacement req else ret ())))"

section \<open>The identity of a block\<close>

definition block_number :: "string \<Rightarrow> nat" where
  "block_number scenario = (if scenario = ''zero'' then 0 else if scenario = ''max'' then 65535 else 1)"

definition block_request :: "string \<Rightarrow> bytes result" where
  "block_request scenario =
     concatE [pack 1 0x32, pack 1 7, pack 2 0, pack 2 0xffff, pack 2 8, pack 2 12, Inr [0, 1, 0x12, 4, 0x11, 0x43, 3, 0],
       Inr ([0xff, 9, 0, 8, 0x30, 0x41] @ digits5 (block_number scenario) @ [0x41])]"

definition block_answer :: "string \<Rightarrow> bytes result" where
  "block_answer scenario =
     bindE (pack 2 (if scenario = ''mismatch'' then 2 else int (block_number scenario))) (\<lambda>named.
     let content = replicate 12 0 @ named @ replicate 64 0;
         content = (if scenario = ''max'' then content[1 := 255, 11 := 255]
           else if scenario = ''opaque'' then content[1 := 1, 11 := 165] else content)
     in ud_reply 0xffff 3 3 0 0 0 content 9 0xff)"

definition block_serve :: "string \<Rightarrow> (net, exn list) prog" where
  "block_serve scenario = collects (thenM
     (accepting (thenM plain_handshake (bindM take_request (\<lambda>req.
        bindM (liftE (block_request scenario)) (\<lambda>expected.
        thenM (expect (req = expected) ''block-info request/preflight reference differs'')
       (thenM (reply (block_answer scenario)) (ud_closed [])))))))
     (no_reconnect ''block-info reply triggered an unexpected reconnect''))"

section \<open>What an exchange of the benchmark carries\<close>

definition bench_range :: "int \<times> int \<Rightarrow> mem_range" where
  "bench_range item = \<lparr>mr_db = 1, mr_start = fst item, mr_count = snd item\<rparr>"

definition bench_result :: "bool \<Rightarrow> int \<times> int \<Rightarrow> item_result" where
  "bench_result write_op item = ItemSuccess (if write_op then None else Some (bench_data (fst item) (snd item)))"

lemma bench_data_length [simp]: "length (bench_data a n) = nat n"
  by (simp add: bench_data_def)

text \<open>One item: its address, and what it adds to the expected data and to the reply.\<close>

lemma bench_pack: "pack 1 0x84 = Inr [0x84]"
  using pack1[of "0x84"] by (simp add: byte_def)

lemma bench_item_parts:
  assumes "bench_item write_op items k item (parameters, expected, response) = Inr (p, e, r)"
  obtains spec n where "address (bench_range item) = Inr spec" "pack 2 (snd item * 8) = Inr n" "p = parameters @ spec"
    "e = expected @ (if write_op then [0, 4] @ n @ bench_data (fst item) (snd item) @ (if k + 1 < items then [0] else []) else [])"
    "r = response @ (if write_op then [0xff] else [0xff, 4] @ n @ bench_data (fst item) (snd item)
        @ (if k + 1 < items \<and> snd item mod 2 \<noteq> 0 then [0] else []))"
proof -
  obtain a m where i: "item = (a, m)" by fastforce
  have "address (bench_range item) = concatE [Inr [0x12, 0x0a, 0x10, 2], pack 2 m, pack 2 1, Inr [0x84], to_bytes 3 (a * 8)]"
    unfolding address_def bench_range_def i bench_pack by simp
  then show thesis using assms that
    by (cases write_op) (auto simp: i bench_item_def Let_def concatE_def simp del: be_bytes_numeral pack_Inr_iff)
qed

lemma bench_read_item:
  assumes "pack 2 (n * 8) = Inr m" "0 \<le> n" "again \<longrightarrow> odd n \<longrightarrow> pad = [0]" "\<not> (again \<and> odd n) \<longrightarrow> pad = []"
    and "r = r0 @ [0xff, 4] @ m @ bench_data a n @ pad @ more_octets" "length r1 = length r0 + 4 + nat n + length pad"
  shows "read_item r (length r0) (bench_range (a, n)) again = Inr (bench_result False (a, n), length r1)"
proof -
  have v: "m = be_bytes 2 (n * 8)" "n * 8 < 65536" using assms(1) by (auto simp: pack_def split: if_splits)
  obtain m1 m2 where m: "m = [m1, m2]" using v(1) by simp
  have size: "be_int [m1, m2] = n * 8" using be_int_2[of "n * 8"] v assms(2) m by (simp del: be_bytes_numeral be_int_Cons)
  have at: "r ! length r0 = 255" "r ! (length r0 + 1) = 4" "slice (length r0 + 2) (length r0 + 4) r = [m1, m2]"
    "slice (length r0 + 4) (length r0 + 4 + nat n) r = bench_data a n" "length r = length r0 + 4 + nat n + length pad + length more_octets"
    by (simp_all add: assms(5) m nth_append slice_def)
  have eight: "nat (n * 8) = 8 * nat n" "odd (nat n) \<longleftrightarrow> odd n" using assms(2) by (simp_all add: nat_mult_distrib even_nat_iff)
  show ?thesis
    using assms(2-4,6) at eight unfolding read_item_def Let_def at(3) size
    by (auto simp: bench_range_def bench_result_def outcome_item_def)
qed

lemma bench_items_parts:
  assumes "bench_items write_op items k ranges (p0, e0, r0) = Inr (p, e, r)" "items = k + len ranges"
    and "write_op \<Longrightarrow> list_all (\<lambda>item. snd item = 1) ranges"
  shows "\<exists>xs e' r'. list_all2 (\<lambda>item x. address (bench_range item) = Inr x) ranges xs \<and> p = p0 @ concat xs \<and> e = e0 @ e' \<and> r = r0 @ r'
    \<and> (if write_op then check_payloads e (length e0) (List.map bench_range ranges) = Inr (length e) else e' = [])
    \<and> decode_items write_op r (length r0) (List.map bench_range ranges) = Inr (List.map (bench_result write_op) ranges, length r)"
  using assms
proof (induction ranges arbitrary: k p0 e0 r0)
  case (Cons item rest)
  obtain p1 e1 r1 where one: "bench_item write_op items k item (p0, e0, r0) = Inr (p1, e1, r1)"
    and more: "bench_items write_op items (k + 1) rest (p1, e1, r1) = Inr (p, e, r)"
    using Cons.prems(1) by auto
  have followed: "k + 1 < items \<longleftrightarrow> rest \<noteq> []" using Cons.prems(2) by (cases rest) (auto simp: len_def)
  obtain spec n where spec: "address (bench_range item) = Inr spec" and n: "pack 2 (snd item * 8) = Inr n" and p1: "p1 = p0 @ spec"
    and e1: "e1 = e0 @ (if write_op then [0, 4] @ n @ bench_data (fst item) (snd item) @ (if rest \<noteq> [] then [0] else []) else [])"
    and r1: "r1 = r0 @ (if write_op then [0xff] else [0xff, 4] @ n @ bench_data (fst item) (snd item)
        @ (if rest \<noteq> [] \<and> snd item mod 2 \<noteq> 0 then [0] else []))"
    by (rule bench_item_parts[OF one, unfolded followed])
  have "items = k + 1 + len rest" using Cons.prems(2) by (simp add: len_def)
  moreover have "write_op \<Longrightarrow> list_all (\<lambda>item. snd item = 1) rest" using Cons.prems(3) by simp
  ultimately obtain xs e' r' where ih: "list_all2 (\<lambda>item x. address (bench_range item) = Inr x) rest xs" "p = p1 @ concat xs" "e = e1 @ e'" "r = r1 @ r'"
    "if write_op then check_payloads e (length e1) (List.map bench_range rest) = Inr (length e) else e' = []"
    "decode_items write_op r (length r1) (List.map bench_range rest) = Inr (List.map (bench_result write_op) rest, length r)"
    using Cons.IH[OF more] by blast
  have ln: "length n = 2" using n by (auto simp: pack_def split: if_splits)
  have pos: "0 \<le> snd item" using address_count[OF spec] by (simp add: bench_range_def)
  show ?case
  proof (cases write_op)
    case True
    then have single: "snd item = 1" using Cons.prems(3) by simp
    have "slice (length e0) (length e0 + 4) e = [0, 4] @ n" by (simp add: ih(3) e1 True slice_def ln)
    moreover have "length e1 = length e0 + 4 + nat (snd item) + (if rest \<noteq> [] \<and> odd (nat (snd item)) then 1 else 0)"
      by (simp add: e1 True single ln)
    ultimately have "check_payloads e (length e0) (List.map bench_range (item # rest)) = Inr (length e)"
      using ih(5) n True by (simp add: bench_range_def single)
    moreover have "r ! length r0 = 255" "length r0 < length r" "length r1 = length r0 + 1"
      by (simp_all add: ih(4) r1 True nth_append)
    then have "decode_items write_op r (length r0) (List.map bench_range (item # rest)) = Inr (List.map (bench_result write_op) (item # rest), length r)"
      using ih(6) by (simp add: True write_item_def outcome_item_def bench_result_def)
    ultimately show ?thesis using spec ih(1-4) True p1 e1 r1 by (intro exI[of _ "spec # xs"]) simp
  next
    case False
    have "read_item r (length r0) (bench_range (fst item, snd item)) (rest \<noteq> []) = Inr (bench_result False (fst item, snd item), length r1)"
      by (rule bench_read_item[OF n pos])
        (auto simp: ih(4) r1 False ln odd_iff_mod_2_eq_one)
    then have "decode_items write_op r (length r0) (List.map bench_range (item # rest)) = Inr (List.map (bench_result write_op) (item # rest), length r)"
      using ih(6) by (simp add: False)
    then show ?thesis using spec ih False p1 e1 r1 by (intro exI[of _ "spec # xs"]) simp
  qed
qed simp

lemma bench_exchange_parts:
  assumes "bench_exchange mode pdu total_size covered req = Inr (amount, out)"
  defines "write_op \<equiv> mode = ''multi-write''" and "items \<equiv> if mode = ''read'' then 1 else amount"
  obtains e r where "amount = bench_count mode pdu (total_size - covered)" "len req \<le> pdu" "len out \<le> pdu" "0 \<le> items" "items < 256"
    "req ! 10 = byte (function_code write_op)" "req ! 11 = byte items"
    "sections req 1 (reference_of req) = Inr (slice 10 (10 + (2 + 12 * nat items)) req, e)"
    "bench_items write_op items 0 (bench_ranges mode covered amount) ([req ! 10, req ! 11], [], []) = Inr (slice 10 (10 + (2 + 12 * nat items)) req, e, r)"
    "ack (reference_of req) [req ! 10, req ! 11] r = Inr out"
proof -
  have a: "amount = bench_count mode pdu (total_size - covered)"
    using assms(1) by (auto simp: bench_exchange_def Let_def split: prod.splits)
  obtain p e r where c: "len req \<le> pdu" "take 4 req = [0x32, 1, 0, 0]" "12 \<le> length req" "req ! 10 = (if write_op then 5 else 4)"
    "uint (req ! 11) = items" "be_int (slice 6 8 req) = 2 + 12 * items" "len req = 10 + be_int (slice 6 8 req) + be_int (slice 8 10 req)"
    "bench_items write_op items 0 (bench_ranges mode covered amount) ([req ! 10, req ! 11], [], []) = Inr (p, e, r)"
    "slice 10 (10 + nat (be_int (slice 6 8 req))) req = p" "drop (10 + nat (be_int (slice 6 8 req))) req = e"
    "ack (reference_of req) [req ! 10, req ! 11] r = Inr out" "len out \<le> pdu"
    using assms(1) unfolding bench_exchange_def Let_def bindE_Inr_iff guardE_Inr_iff write_op_def items_def
      reference_of_def a[symmetric] by (elim exE conjE) (auto simp: prod.splits write_op_def)
  have n: "0 \<le> items" "items < 256" using uint_byte_bounds[of "req ! 11"] by (simp_all add: c(5)[symmetric])
  have size: "nat (be_int (slice 6 8 req)) = 2 + 12 * nat items" using n by (simp add: c(6) nat_add_distrib nat_mult_distrib)
  have magic: "bytes_of [0x32, 1, 0, 0] = Inr [0x32, 1, 0, 0]" by (simp add: bytes_of_Inr_iff byte_def)
  have "len req = 10 + be_int (slice 6 8 req) + be_int (slice 8 10 req)" by (fact c(7))
  then have "length req = 10 + nat (be_int (slice 6 8 req)) + nat (be_int (slice 8 10 req))"
    using be_int_nonneg[of "slice 6 8 req"] be_int_nonneg[of "slice 8 10 req"] by (simp add: len_def)
  then have "sections req 1 (reference_of req) = Inr (slice 10 (10 + (2 + 12 * nat items)) req, e)"
    using c(2,3,10) unfolding sections_def magic size by (simp add: reference_of_def)
  moreover have "req ! 11 = byte items" by (simp add: c(5)[symmetric] byte_def)
  moreover have "req ! 10 = byte (function_code write_op)" using c(4) by (simp add: function_code_def byte_def)
  moreover have "bench_items write_op items 0 (bench_ranges mode covered amount) ([req ! 10, req ! 11], [], [])
      = Inr (slice 10 (10 + (2 + 12 * nat items)) req, e, r)"
    using c(8,9) unfolding size by simp
  ultimately show thesis using that a c(1,11,12) n by metis
qed

text \<open>C39: Every exchange of the benchmark peer is a correct one. A request it accepts passes the sequence oracle's own check for the next
  ranges of the caller's list, as many as the negotiated size allows; its reply is decoded by that oracle to the benchmark's octets (or to
  an acknowledgement of each write), in order; and neither exceeds the negotiated size.\<close>
theorem bench_exchange_checked:
  assumes "bench_exchange mode pdu total_size covered req = Inr (amount, out)"
  shows "check_request \<lparr>ex_reference = reference_of req, ex_write = (mode = ''multi-write''),
      ex_ranges = List.map bench_range (bench_ranges mode covered amount), ex_request_pdu = req, ex_response_pdu = out\<rparr> = Inr ()
    \<and> decode_multi \<lparr>ex_reference = reference_of req, ex_write = (mode = ''multi-write''),
      ex_ranges = List.map bench_range (bench_ranges mode covered amount), ex_request_pdu = req, ex_response_pdu = out\<rparr>
      = Inr (List.map (bench_result (mode = ''multi-write'')) (bench_ranges mode covered amount))
    \<and> amount = bench_count mode pdu (total_size - covered) \<and> len req \<le> pdu \<and> len out \<le> pdu"
proof -
  define write_op where "write_op = (mode = ''multi-write'')"
  define items where "items = (if mode = ''read'' then 1 else amount)"
  obtain e r where x: "amount = bench_count mode pdu (total_size - covered)" "len req \<le> pdu" "len out \<le> pdu" "0 \<le> items" "items < 256"
    "req ! 10 = byte (function_code write_op)" "req ! 11 = byte items"
    "sections req 1 (reference_of req) = Inr (slice 10 (10 + (2 + 12 * nat items)) req, e)"
    "bench_items write_op items 0 (bench_ranges mode covered amount) ([req ! 10, req ! 11], [], []) = Inr (slice 10 (10 + (2 + 12 * nat items)) req, e, r)"
    "ack (reference_of req) [req ! 10, req ! 11] r = Inr out"
    using bench_exchange_parts[OF assms] unfolding write_op_def items_def by metis
  let ?ranges = "bench_ranges mode covered amount"
  let ?h = "[byte (function_code write_op), byte items]"
  have count: "items = len ?ranges" using x(4) by (auto simp: bench_ranges_def items_def len_def split: if_splits)
  obtain xs where i: "list_all2 (\<lambda>item x. address (bench_range item) = Inr x) ?ranges xs"
    "slice 10 (10 + (2 + 12 * nat items)) req = ?h @ concat xs"
    "if write_op then check_payloads e 0 (List.map bench_range ?ranges) = Inr (length e) else e = []"
    "decode_items write_op r 0 (List.map bench_range ?ranges) = Inr (List.map (bench_result write_op) ?ranges, length r)"
    using bench_items_parts[OF x(9)] count unfolding x(6,7)
    by (auto simp: write_op_def bench_ranges_def list_all_iff split: if_splits)
  have h: "bytes_of [function_code write_op, items] = Inr ?h" using x(4,5) by (simp add: bytes_of_Inr_iff function_code_def)
  have xs: "length xs = length ?ranges" "length (concat xs) = 12 * length ?ranges"
    using i(1) by (induction rule: list_all2_induct) (auto simp: address_length)
  have "check_addresses (?h @ concat xs @ []) 0 (List.map bench_range ?ranges) = Inr ()"
    by (rule check_addresses_ok) (use i(1) in \<open>simp_all add: list_all2_map1\<close>)
  moreover have "len (List.map bench_range ?ranges) = items" using count by (simp add: len_def)
  moreover have "sections out 3 (reference_of req) = Inr (?h, r)"
    using sections_packet[of 3 "reference_of req" ?h r out] x(10) unfolding x(6,7) ack_s7_response s7_response_packet by blast
  ultimately show ?thesis
    using x(1-3,8) h i(2-4) xs unfolding write_op_def[symmetric]
    by (cases write_op) (simp_all add: check_request_def decode_multi_def function_code_def Let_def)
qed

section \<open>How many exchanges a transfer takes\<close>

definition parts_needed :: "int \<Rightarrow> int \<Rightarrow> int" where
  "parts_needed n limit = (n + limit - 1) div limit"

lemma bench_count_min: "left_over \<le> total_size \<Longrightarrow> bench_count mode pdu left_over = min left_over (bench_count mode pdu total_size)"
proof -
  assume "left_over \<le> total_size"
  then have "min (min c left_over) x = min left_over (min (min c total_size) x)" "min left_over x = min left_over (min total_size x)" for c x
    by linarith+
  then show ?thesis unfolding bench_count_def by (simp only: split: if_splits) blast
qed

lemma parts_needed_step: "0 < n \<Longrightarrow> 0 < limit \<Longrightarrow> parts_needed n limit = 1 + parts_needed (n - min n limit) limit"
proof -
  assume a: "0 < n" "0 < limit"
  show ?thesis
  proof (cases "n \<le> limit")
    case True
    have "(n + limit - 1) div limit = 1" using a True by (intro div_pos_geq[THEN trans]) simp_all
    then show ?thesis using True a by (simp add: parts_needed_def)
  next
    case False
    have "n + limit - 1 = (n - limit + limit - 1) + limit" by simp
    then have "(n + limit - 1) div limit = (n - limit + limit - 1) div limit + 1" using a by (metis div_add_self2 less_irrefl)
    then show ?thesis using False by (simp add: parts_needed_def)
  qed
qed

lemma bench_step_amount: "bench_step mode pdu total_size covered s = (Inr amount, t) \<Longrightarrow> amount = bench_count mode pdu (total_size - covered)"
proof -
  assume "bench_step mode pdu total_size covered s = (Inr amount, t)"
  then obtain req out where "bench_exchange mode pdu total_size covered req = Inr (amount, out)"
    by (auto simp: bench_step_def prog_defs split: prod.splits sum.splits)
  then show ?thesis using bench_exchange_checked by blast
qed

lemma catchM_Inr_iff: "catchM m h s = (Inr b, t) \<longleftrightarrow> m s = (Inr b, t) \<or> (\<exists>e u. m s = (Inl e, u) \<and> h e u = (Inr b, t))"
  by (auto simp: catchM_def split: prod.splits sum.splits)

lemma bench_round_counts:
  assumes "bench_round mode pdu total_size covered packets s = (Inr p, t)" "0 \<le> covered" "covered \<le> total_size" "0 < bench_count mode pdu total_size"
  shows "p = packets + parts_needed (total_size - covered) (bench_count mode pdu total_size)"
  using assms
proof (induction mode pdu total_size covered packets s rule: bench_round.induct)
  case (1 mode pdu total_size so_far packets s)
  let ?c = "bench_count mode pdu total_size"
  show ?case
  proof (cases "so_far < total_size")
    case True
    then obtain amount u where step: "bench_step mode pdu total_size so_far s = (Inr amount, u)"
      "bench_round mode pdu total_size (so_far + amount) (packets + 1) u = (Inr p, t)"
      using 1(2) by (auto simp: bench_round.simps[of mode pdu total_size so_far] split: prod.splits sum.splits)
    have amount: "amount = min (total_size - so_far) ?c"
      using bench_step_amount[OF step(1)] bench_count_min[of "total_size - so_far" total_size mode pdu] 1(3) by simp
    have "p = packets + 1 + parts_needed (total_size - (so_far + amount)) ?c"
      using 1(1)[OF True step(1)[symmetric] refl step(2)] 1(3-5) True amount by simp
    moreover have "parts_needed (total_size - so_far) ?c = 1 + parts_needed (total_size - (so_far + amount)) ?c"
      using parts_needed_step[of "total_size - so_far" ?c] True 1(5) unfolding amount by (simp add: algebra_simps)
    ultimately show ?thesis by simp
  next
    case False
    then show ?thesis using 1(2-5) by (simp add: bench_round.simps[of mode pdu total_size total_size] parts_needed_def)
  qed
qed

lemma bench_rounds_counts:
  assumes "foldM (\<lambda>_. bench_round mode pdu total_size 0) xs packets s = (Inr p, t)" "0 \<le> total_size" "0 < bench_count mode pdu total_size"
  shows "p = packets + len xs * parts_needed total_size (bench_count mode pdu total_size)"
  using assms
proof (induction xs arbitrary: packets s)
  case (Cons x xs)
  then obtain q u where "bench_round mode pdu total_size 0 packets s = (Inr q, u)"
    "foldM (\<lambda>_. bench_round mode pdu total_size 0) xs q u = (Inr p, t)"
    by (auto simp: bindM_def split: prod.splits sum.splits)
  with Cons.IH[OF this(2) assms(2,3)] bench_round_counts[OF this(1)] assms(2,3) show ?case by (simp add: len_def algebra_simps)
qed (simp add: ret_def len_def)

text \<open>What the benchmark reports it has measured. Where the negotiated size leaves room for an octet or an item, a run without an error
  yields one count: that of the warm-up and all rounds, each of as many exchanges as the transfer needs parts of the greatest size that
  fits.\<close>

lemma bench_serve_counts:
  assumes "bench_serve pdu mode total_size rounds s = (Inr ([], counts), t)" and "0 \<le> total_size" and "0 < bench_count mode pdu total_size"
  shows "counts = [(int rounds + 1) * parts_needed total_size (bench_count mode pdu total_size)]"
proof -
  obtain packets u where a: "accepting (thenM (boundary_handshake pdu)
      (bindM (foldM (\<lambda>_ packets. bench_round mode pdu total_size 0 packets) [0..<Suc rounds] 0) (\<lambda>packets.
         thenM closed_check (ret packets)))) s = (Inr packets, u)" "counts = [packets]"
    using assms(1) unfolding bench_serve_def catchM_Inr_iff bindM_Inr by (auto simp: ret_def raise_def split: if_splits simp del: upt_Suc)
  have parts: "accepting m s = (Inr x, u) \<Longrightarrow> \<exists>s' u'. m s' = (Inr x, u')" for m :: "(net, 'a) prog" and x
    by (auto simp: accepting_def with_connection_def finallyM_def thenM_def bindM_def split: prod.splits sum.splits)
  obtain s' u' where "thenM (boundary_handshake pdu)
      (bindM (foldM (\<lambda>_ packets. bench_round mode pdu total_size 0 packets) [0..<Suc rounds] 0) (\<lambda>packets.
         thenM closed_check (ret packets))) s' = (Inr packets, u')" using parts[OF a(1)] by blast
  then obtain s2 u2 where "foldM (\<lambda>_ packets. bench_round mode pdu total_size 0 packets) [0..<Suc rounds] 0 s2 = (Inr packets, u2)"
    unfolding thenM_def bindM_Inr by (auto simp: ret_def simp del: upt_Suc)
  from bench_rounds_counts[OF this assms(2,3)] show ?thesis by (simp add: a(2) len_def del: upt_Suc)
qed

definition ex_bench_request :: bytes where
  "ex_bench_request = [0x32, 1, 0, 0, 0, 7, 0, 14, 0, 5, 5, 1, 0x12, 0x0a, 0x10, 2, 0, 1, 0, 1, 0x84, 0, 0, 0, 0, 4, 0, 8, 11]"

lemma ex_bench_exchange: "\<exists>out. bench_exchange ''multi-write'' 240 1 0 ex_bench_request = Inr (1, out)"
proof -
  have "(case bench_exchange ''multi-write'' 240 1 0 ex_bench_request of Inr (n, out) \<Rightarrow> n = 1 | _ \<Rightarrow> False)" by code_simp
  then show ?thesis by (auto split: sum.splits prod.splits)
qed

theorem bench_exchange_checked_witness:
  "\<exists>out. decode_multi \<lparr>ex_reference = 7, ex_write = True, ex_ranges = [\<lparr>mr_db = 1, mr_start = 0, mr_count = 1\<rparr>],
    ex_request_pdu = ex_bench_request, ex_response_pdu = out\<rparr> = Inr [ItemSuccess None]"
proof -
  obtain out where "bench_exchange ''multi-write'' 240 1 0 ex_bench_request = Inr (1, out)" using ex_bench_exchange by blast
  from bench_exchange_checked[OF this] show ?thesis
    by (auto simp: bench_ranges_def bench_range_def bench_result_def ex_bench_request_def reference_of_def slice_def)
qed

definition ex_bench_script :: "arrival list" where
  "ex_bench_script = [Chunk [3, 0, 0, 11, 6, 0xe0, 0, 0, 0, 1, 0],
     Chunk ([3, 0, 0, 25, 2, 0xf0, 0x80] @ [0x32, 1, 0, 0, 0, 1, 0, 8, 0, 0, 0xf0, 0, 0, 1, 0, 1, 1, 0xe0]),
     Chunk ([3, 0, 0, 36, 2, 0xf0, 0x80] @ ex_bench_request), Eof]"

lemma ex_bench_serve: "fst (bench_serve 240 ''multi-write'' 1 0 (start [ex_bench_script])) = Inr ([], [1])"
  by code_simp

lemma bench_serve_counts_example: "[1] = [(int 0 + 1) * parts_needed 1 (bench_count ''multi-write'' 240 1)]"
proof -
  obtain t where "bench_serve 240 ''multi-write'' 1 0 (start [ex_bench_script]) = (Inr ([], [1]), t)"
    using ex_bench_serve by (cases "bench_serve 240 ''multi-write'' 1 0 (start [ex_bench_script])") simp
  from bench_serve_counts[OF this] show ?thesis by (simp add: bench_count_def)
qed

lemma check_plateau_iff:
  "check_plateau samples = Inr () \<longleftrightarrow> length samples = 17 \<and> list_all (\<lambda>s. sm_descriptors s \<le> sm_descriptors (hd samples) + 8
     \<and> sm_threads s \<le> sm_threads (hd samples) + 16 \<and> sm_rss s \<le> sm_rss (hd samples) + 32 * 1024 * 1024) (tl samples)"
proof (cases "length samples = 17")
  case True
  then have "tl samples \<noteq> []" by (cases samples) auto
  then have "grew field samples \<le> m \<longleftrightarrow> list_all (\<lambda>s. field s \<le> field (hd samples) + m) (tl samples)" for field m
    by (simp add: grew_def list_all_iff algebra_simps Max_le_iff[where 'a = int] flip: add_le_cancel_right[of _ "field (hd samples)" m])
  moreover have "check_plateau samples = Inr () \<longleftrightarrow> grew sm_descriptors samples \<le> 8 \<and> grew sm_threads samples \<le> 16
      \<and> grew sm_rss samples \<le> 32 * 1024 * 1024"
    using True by (auto simp: check_plateau_def plateau_limits_def not_le[symmetric] split: if_splits)
  ultimately show ?thesis using True by (auto simp: list_all_iff)
qed (simp add: check_plateau_def)

lemma plateau_controls: "plateau_self_test = Inr ()"
  by (simp add: plateau_self_test_def plateau_missed_def check_plateau_def plateau_limits_def grew_def plateau_base_def)

section \<open>Streams\<close>

lemma seamless_bench_step: "seamless (bench_step mode pdu total_size covered)"
  unfolding bench_step_def case_prod_unfold send_pdu_def tpkt_send_def by (intro stream_intros)

lemma seamless_bench_round [stream_intros]: "seamless (bench_round mode pdu total_size covered packets)"
proof (rule seamlessI)
  fix s t
  show "sim s t \<Longrightarrow> fst (bench_round mode pdu total_size covered packets s) = fst (bench_round mode pdu total_size covered packets t)
    \<and> sim (snd (bench_round mode pdu total_size covered packets s)) (snd (bench_round mode pdu total_size covered packets t))"
  proof (induction mode pdu total_size covered packets s arbitrary: t rule: bench_round.induct)
    case (1 mode pdu total_size so_far packets s)
    obtain r u q v where step: "bench_step mode pdu total_size so_far s = (r, u)" "bench_step mode pdu total_size so_far t = (q, v)" by fastforce
    note same = seamlessD[OF seamless_bench_step 1(2) step]
    show ?case
    proof (cases "so_far < total_size")
      case True
      note run = bench_round.simps[of mode pdu total_size so_far packets]
      show ?thesis using same 1(1)[OF True step(1)[symmetric]] True by (cases r) (simp_all add: run step)
    qed (simp add: bench_round.simps[of mode pdu total_size so_far packets] 1(2))
  qed
qed

lemma seamless_bench_serve: "seamless (bench_serve pdu mode total_size rounds)"
  unfolding bench_serve_def accepting_def with_connection_def by (intro stream_intros)

lemma seamless_stress_serve: "seamless (stress_serve rounds)"
  unfolding stress_serve_def stress_session_def stress_replacement_def stress_setup_def stress_read_def stress_finish_def stress_closed_def
  by (intro stream_intros)

lemma seamless_raw_serve: "seamless (raw_serve mode)"
  unfolding raw_serve_def by (intro stream_intros)

end
