(* ===== verification/Session.thy ===== *)
theory Session
  imports Sequence
begin

text \<open>
  \<^verbatim>\<open>integration/session_conformance.py\<close>: the active-request machine with its bounded
  reconnect budget. A configuration and its events are read from the corpus
  (validations), the response decoder keeps the source's error order, and the
  machine is a step function on the record of \<^verbatim>\<open>trace\<close>'s local variables.
\<close>

section \<open>Configuration\<close>

record config =
  cf_write :: bool
  cf_allow :: bool
  cf_budget :: int
  cf_reference :: int
  cf_locations :: "location list"

definition configuration :: "json \<Rightarrow> config result" where
  "configuration v =
     bindE (shape v [''write'', ''safety'', ''allow_potentially_mutating'', ''budget'', ''reference'',
        ''locations'', ''request_pdu'']) (\<lambda>_.
     bindE (jget ''write'' v) (\<lambda>w. bindE (bool_of w) (\<lambda>wr.
     bindE (jget ''allow_potentially_mutating'' v) (\<lambda>a. bindE (bool_of a) (\<lambda>allow.
     bindE (jget ''safety'' v) (\<lambda>s.
     bindE (guardE (s = (if wr then jtext ''potentially-mutating'' else jtext ''read-only'')) ValueError) (\<lambda>_.
     bindE (jget ''budget'' v) (\<lambda>b. bindE (integer b 16) (\<lambda>budget.
     bindE (jget ''reference'' v) (\<lambda>r. bindE (integer r 65535) (\<lambda>reference.
     bindE (jget ''locations'' v) (\<lambda>ls. bindE (arr_of ls) (\<lambda>vs.
     bindE (guardE (1 \<le> length vs \<and> length vs \<le> 20) ValueError) (\<lambda>_.
     bindE (mapE location vs) (\<lambda>locations.
     bindE (request reference (List.map loc_range locations) wr) (\<lambda>encoded.
     bindE (guardE (encoded \<noteq> None) ValueError) (\<lambda>_.
     bindE (jget ''request_pdu'' v) (\<lambda>p. bindE (wire p encoded) (\<lambda>_.
     Inr \<lparr>cf_write = wr, cf_allow = allow, cf_budget = budget, cf_reference = reference,
          cf_locations = locations\<rparr>)))))))))))))))))))"

section \<open>Responses\<close>

fun response_items :: "bytes \<Rightarrow> nat \<Rightarrow> location list \<Rightarrow> nat option" where
  "response_items data offset [] = Some offset"
| "response_items data offset (item # rest) =
     (if offset + 4 > length data then None
      else
        let code = data ! offset; transport = data ! (offset + 1);
            length' = nat (be_int (slice (offset + 2) (offset + 4) data)); offset = offset + 4
        in if transport \<noteq> 9 \<and> length' mod 8 \<noteq> 0 then None
           else let size = (if transport = 9 then length' else length' div 8)
                in if offset + size > length data then None
                   else let offset = offset + size
                        in if rest \<noteq> [] \<and> odd size \<and> offset = length data then None
                           else let offset = offset + (if rest \<noteq> [] \<and> odd size then 1 else 0)
                                in if code = 255 \<and> (transport \<noteq> 4 \<or> int size \<noteq> mr_count (loc_range item))
                                   then None else response_items data offset rest)"

definition response :: "config \<Rightarrow> bytes \<Rightarrow> error_kind option \<times> outcome list" where
  "response c pdu =
     (if length pdu < 12 then (Some ProtocolError, [])
      else
        let protocol = pdu ! 0; kind = pdu ! 1; reference = be_int (slice 4 6 pdu);
            parameter_size = nat (be_int (slice 6 8 pdu)); data_size = nat (be_int (slice 8 10 pdu));
            error_class = pdu ! 10; error_code = pdu ! 11;
            width = length (cf_locations c);
            parameters = slice 12 (12 + parameter_size) pdu; data = drop (12 + parameter_size) pdu
        in if protocol \<noteq> 0x32 \<or> kind \<notin> {2, 3} \<or> length pdu \<noteq> 12 + parameter_size + data_size
           then (Some ProtocolError, [])
           else if reference \<noteq> cf_reference c then (Some ProtocolError, [])
           else if error_class \<noteq> 0 \<or> error_code \<noteq> 0 then (Some PlcRejected, [])
           else if parameters \<noteq> [if cf_write c then 5 else 4, byte (int width)] then (Some ProtocolError, [])
           else if cf_write c then
             (if length data \<noteq> width then (Some ProtocolError, []) else (None, List.map code_outcome data))
           else (case response_items data 0 (cf_locations c) of
                   None \<Rightarrow> (Some ProtocolError, [])
                 | Some offset \<Rightarrow> if offset = length data then (None, []) else (Some ProtocolError, [])))"

text \<open>The well-formed response of the corpus fixtures, \<^verbatim>\<open>_response\<close>.\<close>

fun read_items :: "mem_range list \<Rightarrow> bytes result" where
  "read_items [] = Inr []"
| "read_items (item # rest) =
     (let content = payload item
      in concatE [Inr [0xff, 4], pack 2 (len content * 8), Inr content,
           Inr (if rest \<noteq> [] \<and> odd (length content) then [0] else []), read_items rest])"

definition fixture_response :: "config \<Rightarrow> int option \<Rightarrow> int option \<Rightarrow> bytes result" where
  "fixture_response c reference cnt =
     (let ranges = List.map loc_range (cf_locations c)
      in bindE (if cf_write c then Inr (replicate (length ranges) 0xff) else read_items ranges) (\<lambda>data.
         bindE (bytes_of [if cf_write c then 5 else 4, case cnt of None \<Rightarrow> len ranges | Some n \<Rightarrow> n]) (\<lambda>parameters.
         packet 3 (case reference of None \<Rightarrow> cf_reference c | Some r \<Rightarrow> r) parameters data)))"

section \<open>Events\<close>

datatype sevent =
    Begin | SendRequest | FailureEvent error_kind | ResponseEvent bytes
  | ReconnectSetup | ReconnectedEvent | DisconnectEvent

definition parse_failure :: "json \<Rightarrow> sevent result" where
  "parse_failure e =
     bindE (shape e [''operation'', ''error_kind'']) (\<lambda>_.
     bindE (jget ''error_kind'' e) (\<lambda>k.
     bindE (guardE (\<not> is_arr k \<and> \<not> is_obj k) TypeError) (\<lambda>_.
     bindE (enum_of error_kinds k) (\<lambda>kind. Inr (FailureEvent kind)))))"

definition parse_response :: "json \<Rightarrow> sevent result" where
  "parse_response e =
     bindE (shape e [''operation'', ''response_pdu'']) (\<lambda>_.
     bindE (jget ''response_pdu'' e) (\<lambda>p. bindE (octets p) (\<lambda>pdu. Inr (ResponseEvent pdu))))"

definition parse_sevent :: "json \<Rightarrow> sevent result" where
  "parse_sevent e =
     (if \<not> is_obj e then Inl TypeError
      else let operation = jget_opt ''operation'' e
           in if operation = jtext ''failure'' then parse_failure e
              else if operation = jtext ''response'' then parse_response e
              else bindE (enum_of [(''begin'', Begin), (''send'', SendRequest),
                     (''reconnect-setup'', ReconnectSetup), (''reconnected'', ReconnectedEvent),
                     (''disconnect'', DisconnectEvent)] operation) (\<lambda>ev.
                   bindE (shape e [''operation'']) (\<lambda>_. Inr ev)))"

section \<open>The machine\<close>

datatype phase =
    Idle | Ready | Awaiting | ReconnectCotp | ReconnectSetupPhase | Completed | Failed | ClosedPhase

record sess =
  ss_lifecycle :: lifecycle
  ss_phase :: phase
  ss_remaining :: int
  ss_sends :: int
  ss_active :: "int option"
  ss_history :: "(location \<times> outcome) list"
  ss_pending :: "location list"

datatype sverdict = SAccepted | SRetry bool | SRejected string

definition sess_init :: sess where
  "sess_init = \<lparr>ss_lifecycle = Connected, ss_phase = Idle, ss_remaining = 0, ss_sends = 0,
     ss_active = None, ss_history = [], ss_pending = []\<rparr>"

text \<open>\<open>zip(pending, outcomes, strict=True)\<close> raises \<open>ValueError\<close> on different lengths.\<close>

definition finish :: "outcome list \<Rightarrow> sess \<Rightarrow> sess result" where
  "finish outcomes s =
     (if length outcomes \<noteq> length (ss_pending s) then Inl ValueError
      else Inr (s\<lparr>ss_history := ss_history s @ zip (ss_pending s) outcomes, ss_pending := []\<rparr>))"

definition finish_all :: "outcome \<Rightarrow> sess \<Rightarrow> sess result" where
  "finish_all o' s = finish (replicate (length (ss_pending s)) o') s"

definition fail_permitted :: "config \<Rightarrow> sess \<Rightarrow> error_kind \<Rightarrow> bool" where
  "fail_permitted c s kind \<longleftrightarrow> ss_lifecycle s \<noteq> Closed \<and> ss_remaining s > 0 \<and> retryable kind
     \<and> (\<not> cf_write c \<or> cf_allow c)"

definition fail :: "config \<Rightarrow> error_kind \<Rightarrow> sess \<Rightarrow> (sess \<times> sverdict) result" where
  "fail c kind s =
     (let permitted = fail_permitted c s kind
      in if permitted then
           let s = s\<lparr>ss_remaining := ss_remaining s - 1\<rparr>
           in bindE (if cf_write c \<and> ss_phase s = Awaiting then finish_all ReplayedUnknown s else Inr s) (\<lambda>s.
              Inr (s\<lparr>ss_lifecycle := Disconnected, ss_phase := ReconnectCotp\<rparr>, SRetry permitted))
         else
           bindE (if cf_write c \<and> kind = PlcRejected \<and> ss_phase s = Awaiting
                  then finish_all GlobalRejected s else Inr s) (\<lambda>s.
           Inr (s\<lparr>ss_lifecycle := Disconnected, ss_phase := Failed, ss_active := None\<rparr>, SRetry permitted)))"

fun sess_step :: "config \<Rightarrow> sess \<Rightarrow> sevent \<Rightarrow> (sess \<times> sverdict) result" where
  "sess_step c s Begin =
     (if ss_lifecycle s \<noteq> Connected then Inr (s, SRejected ''not-connected'')
      else if ss_active s \<noteq> None then Inr (s, SRejected ''already-active'')
      else Inr (s\<lparr>ss_remaining := cf_budget c, ss_active := Some (cf_reference c), ss_phase := Ready,
                  ss_sends := 0, ss_history := [], ss_pending := []\<rparr>, SAccepted))"
| "sess_step c s SendRequest =
     (if ss_lifecycle s \<noteq> Connected \<or> ss_active s = None \<or> ss_phase s \<noteq> Ready
      then Inr (s, SRejected ''send-phase'')
      else if cf_write c \<and> ss_pending s \<noteq> [] then Inr (s, SRejected ''write-progress'')
      else Inr (s\<lparr>ss_pending := (if cf_write c then cf_locations c else ss_pending s),
                  ss_sends := ss_sends s + 1, ss_phase := Awaiting\<rparr>, SAccepted))"
| "sess_step c s (FailureEvent kind) =
     (if ss_active s \<noteq> None \<and> ss_phase s \<in> {Awaiting, ReconnectCotp, ReconnectSetupPhase}
      then fail c kind s else Inr (s, SRejected ''failure-phase''))"
| "sess_step c s ReconnectSetup =
     (if ss_active s = None \<or> ss_phase s \<noteq> ReconnectCotp then Inr (s, SRejected ''reconnect-phase'')
      else Inr (s\<lparr>ss_phase := ReconnectSetupPhase\<rparr>, SAccepted))"
| "sess_step c s ReconnectedEvent =
     (if ss_active s = None \<or> ss_phase s \<noteq> ReconnectSetupPhase \<or> ss_lifecycle s \<noteq> Disconnected
      then Inr (s, SRejected ''reconnect-phase'')
      else Inr (s\<lparr>ss_lifecycle := Connected, ss_phase := Ready\<rparr>, SAccepted))"
| "sess_step c s (ResponseEvent pdu) =
     (if ss_lifecycle s \<noteq> Connected \<or> ss_active s = None \<or> ss_phase s \<noteq> Awaiting
      then Inr (s, SRejected ''response-phase'')
      else case response c pdu of
             (Some error, _) \<Rightarrow> bindE (fail c error s) (\<lambda>(s, _). Inr (s, SRejected ''response-codec''))
           | (None, results) \<Rightarrow>
               bindE (if cf_write c then finish results s else Inr s) (\<lambda>s.
               Inr (s\<lparr>ss_active := None, ss_phase := Completed\<rparr>, SAccepted)))"
| "sess_step c s DisconnectEvent =
     Inr (s\<lparr>ss_lifecycle := Closed, ss_active := None, ss_phase := ClosedPhase\<rparr>, SAccepted)"

record sstep =
  st_result :: sverdict
  st_lifecycle :: lifecycle
  st_remaining :: int
  st_active :: "int option"
  st_phase :: phase
  st_sends :: int
  st_attempts :: "(location \<times> outcome) list"

definition sess_snapshot :: "sverdict \<Rightarrow> sess \<Rightarrow> sstep" where
  "sess_snapshot out s = \<lparr>st_result = out, st_lifecycle = ss_lifecycle s, st_remaining = ss_remaining s,
     st_active = ss_active s, st_phase = ss_phase s, st_sends = ss_sends s,
     st_attempts = show_attempts (ss_history s) (ss_pending s)\<rparr>"

fun strace_from :: "config \<Rightarrow> sess \<Rightarrow> json list \<Rightarrow> sstep list result" where
  "strace_from c s [] = Inr []"
| "strace_from c s (e # es) =
     bindE (parse_sevent e) (\<lambda>ev.
     bindE (sess_step c s ev) (\<lambda>(s', out).
     bindE (strace_from c s' es) (\<lambda>rest. Inr (sess_snapshot out s' # rest))))"

definition strace :: "json \<Rightarrow> json \<Rightarrow> sstep list result" where
  "strace cfg v =
     bindE (configuration cfg) (\<lambda>c.
     bindE (arr_of v) (\<lambda>events.
     bindE (guardE (1 \<le> length events \<and> length events \<le> 1024) ValueError) (\<lambda>_.
     strace_from c sess_init events)))"

section \<open>The invariant\<close>

text \<open>
  How the variables agree, how far the budget bounds the sends, and what the write
  ledger looks like: every send but the last left its locations replayed-unknown.
\<close>

fun active_phase :: "phase \<Rightarrow> bool" where
  "active_phase Ready = True"
| "active_phase Awaiting = True"
| "active_phase ReconnectCotp = True"
| "active_phase ReconnectSetupPhase = True"
| "active_phase _ = False"

fun phase_lifecycle :: "phase \<Rightarrow> lifecycle" where
  "phase_lifecycle ReconnectCotp = Disconnected"
| "phase_lifecycle ReconnectSetupPhase = Disconnected"
| "phase_lifecycle Failed = Disconnected"
| "phase_lifecycle ClosedPhase = Closed"
| "phase_lifecycle _ = Connected"

text \<open>Sends the budget has not been charged for yet.\<close>

fun uncharged :: "phase \<Rightarrow> int" where
  "uncharged Awaiting = 1"
| "uncharged Completed = 1"
| "uncharged Failed = 1"
| "uncharged ClosedPhase = 1"
| "uncharged _ = 0"

fun reconnecting :: "phase \<Rightarrow> bool" where
  "reconnecting ReconnectCotp = True"
| "reconnecting ReconnectSetupPhase = True"
| "reconnecting _ = False"

definition control_inv :: "config \<Rightarrow> sess \<Rightarrow> bool" where
  "control_inv c s \<longleftrightarrow>
     ss_active s = (if active_phase (ss_phase s) then Some (cf_reference c) else None)
     \<and> ss_lifecycle s = phase_lifecycle (ss_phase s)"

definition budget_inv :: "config \<Rightarrow> sess \<Rightarrow> bool" where
  "budget_inv c s \<longleftrightarrow> 0 \<le> ss_remaining s \<and> ss_remaining s \<le> cf_budget c \<and> 0 \<le> ss_sends s
     \<and> ss_sends s + ss_remaining s \<le> cf_budget c + uncharged (ss_phase s)
     \<and> (cf_write c \<longrightarrow> \<not> cf_allow c \<longrightarrow> \<not> reconnecting (ss_phase s) \<and> ss_sends s \<le> uncharged (ss_phase s))"

definition replays :: "config \<Rightarrow> nat \<Rightarrow> (location \<times> outcome) list" where
  "replays c n = concat (replicate n (List.map (\<lambda>l. (l, ReplayedUnknown)) (cf_locations c)))"

definition between_sends :: "config \<Rightarrow> sess \<Rightarrow> bool" where
  "between_sends c s \<longleftrightarrow> ss_pending s = [] \<and> ss_history s = replays c (nat (ss_sends s))"

definition after_sends :: "config \<Rightarrow> sess \<Rightarrow> bool" where
  "after_sends c s \<longleftrightarrow> 1 \<le> ss_sends s \<and> (\<exists>outs. length outs = length (cf_locations c)
     \<and> show_attempts (ss_history s) (ss_pending s) = replays c (nat (ss_sends s - 1)) @ zip (cf_locations c) outs)"

definition write_ledger :: "config \<Rightarrow> sess \<Rightarrow> bool" where
  "write_ledger c s \<longleftrightarrow>
     (case ss_phase s of
        Awaiting \<Rightarrow> 1 \<le> ss_sends s \<and> ss_pending s = cf_locations c
                    \<and> ss_history s = replays c (nat (ss_sends s - 1))
      | Ready \<Rightarrow> between_sends c s
      | ReconnectCotp \<Rightarrow> between_sends c s
      | ReconnectSetupPhase \<Rightarrow> between_sends c s
      | _ \<Rightarrow> between_sends c s \<or> after_sends c s)"

definition ledger_inv :: "config \<Rightarrow> sess \<Rightarrow> bool" where
  "ledger_inv c s \<longleftrightarrow> (if cf_write c then write_ledger c s else ss_history s = [] \<and> ss_pending s = [])"

definition sess_inv :: "config \<Rightarrow> sess \<Rightarrow> bool" where
  "sess_inv c s \<longleftrightarrow> control_inv c s \<and> budget_inv c s \<and> ledger_inv c s"

lemma sess_inv_init: "0 \<le> cf_budget c \<Longrightarrow> sess_inv c sess_init"
  by (simp add: sess_inv_def control_inv_def budget_inv_def ledger_inv_def write_ledger_def
      between_sends_def sess_init_def replays_def)

lemma response_results_length:
  "response c pdu = (None, results) \<Longrightarrow> cf_write c \<Longrightarrow> length results = length (cf_locations c)"
  by (auto simp: response_def Let_def split: if_splits option.splits)

lemma replays_Suc: "replays c (Suc n) = replays c n @ List.map (\<lambda>l. (l, ReplayedUnknown)) (cf_locations c)"
proof -
  have "replicate (Suc n) x = replicate n x @ [x]" for x :: "(location \<times> outcome) list"
    by (simp add: replicate_append_same)
  then show ?thesis unfolding replays_def by (simp only: concat_append concat.simps append_Nil2)
qed

lemma replays_pred:
  "1 \<le> k \<Longrightarrow> replays c (nat k) = replays c (nat (k - 1)) @ List.map (\<lambda>l. (l, ReplayedUnknown)) (cf_locations c)"
  using replays_Suc[of c "nat (k - 1)"] by (simp add: Suc_nat_eq_nat_zadd1)

lemma finish_Inr_iff: "finish outs s = Inr t \<longleftrightarrow> length outs = length (ss_pending s)
    \<and> t = s\<lparr>ss_history := ss_history s @ zip (ss_pending s) outs, ss_pending := []\<rparr>"
  by (auto simp: finish_def)

lemma finish_all_eq: "finish_all o' s
    = Inr (s\<lparr>ss_history := ss_history s @ List.map (\<lambda>l. (l, o')) (ss_pending s), ss_pending := []\<rparr>)"
  by (simp add: finish_all_def finish_def zip_replicate_map)

text \<open>The two ways a failure ends, with their ledger entries written out.\<close>

lemma fail_eq:
  "fail c kind s =
     Inr (if fail_permitted c s kind
       then (s\<lparr>ss_remaining := ss_remaining s - 1, ss_lifecycle := Disconnected, ss_phase := ReconnectCotp,
               ss_history := ss_history s @ (if cf_write c \<and> ss_phase s = Awaiting
                 then List.map (\<lambda>l. (l, ReplayedUnknown)) (ss_pending s) else []),
               ss_pending := (if cf_write c \<and> ss_phase s = Awaiting then [] else ss_pending s)\<rparr>, SRetry True)
       else (s\<lparr>ss_lifecycle := Disconnected, ss_phase := Failed, ss_active := None,
               ss_history := ss_history s @ (if cf_write c \<and> kind = PlcRejected \<and> ss_phase s = Awaiting
                 then List.map (\<lambda>l. (l, GlobalRejected)) (ss_pending s) else []),
               ss_pending := (if cf_write c \<and> kind = PlcRejected \<and> ss_phase s = Awaiting
                 then [] else ss_pending s)\<rparr>, SRetry False))"
  by (simp add: fail_def finish_all_eq Let_def)

lemma fail_total: "\<exists>t o'. fail c kind s = Inr (t, o')"
  unfolding fail_eq by (metis surj_pair)

lemma sess_step_total:
  assumes "sess_inv c s"
  obtains s' out where "sess_step c s ev = Inr (s', out)"
proof -
  have "\<exists>r. sess_step c s ev = Inr r"
  proof (cases ev)
    case (ResponseEvent pdu)
    obtain e results where r: "response c pdu = (e, results)" by fastforce
    show ?thesis
    proof (cases "ss_lifecycle s \<noteq> Connected \<or> ss_active s = None \<or> ss_phase s \<noteq> Awaiting")
      case True
      with ResponseEvent show ?thesis by simp
    next
      case False
      then have "cf_write c \<Longrightarrow> ss_pending s = cf_locations c"
        using assms by (simp add: sess_inv_def ledger_inv_def write_ledger_def)
      with False ResponseEvent r show ?thesis
        using response_results_length[of c pdu results]
        by (cases e) (auto simp: fail_eq finish_def)
    qed
  qed (auto simp: fail_eq)
  then obtain r where "sess_step c s ev = Inr r" ..
  then show thesis using that by (cases r) simp
qed

text \<open>
  The moves of the machine that change the state, one rule per branch of the source that
  assigns; every other event leaves the state as it is.
\<close>

abbreviation retry_state :: "config \<Rightarrow> sess \<Rightarrow> sess" where
  "retry_state c s \<equiv> s\<lparr>ss_remaining := ss_remaining s - 1, ss_lifecycle := Disconnected,
     ss_phase := ReconnectCotp,
     ss_history := ss_history s @ (if cf_write c \<and> ss_phase s = Awaiting
       then List.map (\<lambda>l. (l, ReplayedUnknown)) (ss_pending s) else []),
     ss_pending := (if cf_write c \<and> ss_phase s = Awaiting then [] else ss_pending s)\<rparr>"

abbreviation failed_state :: "config \<Rightarrow> error_kind \<Rightarrow> sess \<Rightarrow> sess" where
  "failed_state c kind s \<equiv> s\<lparr>ss_lifecycle := Disconnected, ss_phase := Failed, ss_active := None,
     ss_history := ss_history s @ (if cf_write c \<and> kind = PlcRejected \<and> ss_phase s = Awaiting
       then List.map (\<lambda>l. (l, GlobalRejected)) (ss_pending s) else []),
     ss_pending := (if cf_write c \<and> kind = PlcRejected \<and> ss_phase s = Awaiting
       then [] else ss_pending s)\<rparr>"

inductive sess_move :: "config \<Rightarrow> sess \<Rightarrow> sess \<Rightarrow> bool" where
  start: "ss_lifecycle s = Connected \<Longrightarrow> ss_active s = None \<Longrightarrow>
     sess_move c s (s\<lparr>ss_remaining := cf_budget c, ss_active := Some (cf_reference c), ss_phase := Ready,
                  ss_sends := 0, ss_history := [], ss_pending := []\<rparr>)"
| send: "ss_lifecycle s = Connected \<Longrightarrow> ss_active s \<noteq> None \<Longrightarrow> ss_phase s = Ready \<Longrightarrow>
     sess_move c s (s\<lparr>ss_pending := (if cf_write c then cf_locations c else ss_pending s),
                  ss_sends := ss_sends s + 1, ss_phase := Awaiting\<rparr>)"
| retry: "ss_active s \<noteq> None \<Longrightarrow> ss_phase s = Awaiting \<or> ss_phase s = ReconnectCotp \<or> ss_phase s = ReconnectSetupPhase \<Longrightarrow>
     0 < ss_remaining s \<Longrightarrow> \<not> cf_write c \<or> cf_allow c \<Longrightarrow> sess_move c s (retry_state c s)"
| give_up: "ss_active s \<noteq> None \<Longrightarrow> ss_phase s = Awaiting \<or> ss_phase s = ReconnectCotp \<or> ss_phase s = ReconnectSetupPhase \<Longrightarrow>
     sess_move c s (failed_state c kind s)"
| handshake: "ss_active s \<noteq> None \<Longrightarrow> ss_phase s = ReconnectCotp \<Longrightarrow>
     sess_move c s (s\<lparr>ss_phase := ReconnectSetupPhase\<rparr>)"
| reconnected: "ss_active s \<noteq> None \<Longrightarrow> ss_phase s = ReconnectSetupPhase \<Longrightarrow> ss_lifecycle s = Disconnected \<Longrightarrow>
     sess_move c s (s\<lparr>ss_lifecycle := Connected, ss_phase := Ready\<rparr>)"
| complete_write: "ss_lifecycle s = Connected \<Longrightarrow> ss_active s \<noteq> None \<Longrightarrow> ss_phase s = Awaiting \<Longrightarrow> cf_write c \<Longrightarrow>
     length results = length (ss_pending s) \<Longrightarrow> length results = length (cf_locations c) \<Longrightarrow>
     sess_move c s (s\<lparr>ss_history := ss_history s @ zip (ss_pending s) results, ss_pending := [],
        ss_active := None, ss_phase := Completed\<rparr>)"
| complete_read: "ss_lifecycle s = Connected \<Longrightarrow> ss_active s \<noteq> None \<Longrightarrow> ss_phase s = Awaiting \<Longrightarrow> \<not> cf_write c \<Longrightarrow>
     sess_move c s (s\<lparr>ss_active := None, ss_phase := Completed\<rparr>)"
| disconnect: "sess_move c s (s\<lparr>ss_lifecycle := Closed, ss_active := None, ss_phase := ClosedPhase\<rparr>)"

lemma fail_move:
  assumes "ss_active s \<noteq> None" "ss_phase s = Awaiting \<or> ss_phase s = ReconnectCotp \<or> ss_phase s = ReconnectSetupPhase"
    and "fail c kind s = Inr (s', out)"
  shows "sess_move c s s'"
proof (cases "fail_permitted c s kind")
  case True
  then have "s' = retry_state c s" using assms(3) by (simp add: fail_eq)
  moreover have "0 < ss_remaining s" "\<not> cf_write c \<or> cf_allow c" using True by (auto simp: fail_permitted_def)
  ultimately show ?thesis using assms(1,2) sess_move.retry by blast
next
  case False
  then have "s' = failed_state c kind s" using assms(3) by (simp add: fail_eq)
  then show ?thesis using assms(1,2) sess_move.give_up by blast
qed

lemma sess_step_move:
  assumes "sess_step c s ev = Inr (s', out)"
  shows "s' = s \<or> sess_move c s s'"
proof (cases ev)
  case Begin
  with assms sess_move.start[of s c] show ?thesis by (simp split: if_split_asm)
next
  case SendRequest
  with assms sess_move.send[of s c] show ?thesis by (simp split: if_split_asm)
next
  case (FailureEvent kind)
  with assms fail_move[of s c kind s' out] show ?thesis by (simp split: if_split_asm)
next
  case ReconnectSetup
  with assms sess_move.handshake[of s c] show ?thesis by (simp split: if_split_asm)
next
  case ReconnectedEvent
  with assms sess_move.reconnected[of s c] show ?thesis by (simp split: if_split_asm)
next
  case DisconnectEvent
  with assms sess_move.disconnect[of c s] show ?thesis by simp
next
  case (ResponseEvent pdu)
  obtain e results where r: "response c pdu = (e, results)" by fastforce
  show ?thesis
  proof (cases "ss_lifecycle s \<noteq> Connected \<or> ss_active s = None \<or> ss_phase s \<noteq> Awaiting")
    case True
    with ResponseEvent assms show ?thesis by (simp split: if_split_asm)
  next
    case False
    show ?thesis
    proof (cases e)
      case None
      show ?thesis
      proof (cases "cf_write c")
        case True
        with False None r ResponseEvent assms response_results_length[of c pdu results]
          sess_move.complete_write[of s c results]
        show ?thesis by (simp add: finish_def split: if_split_asm)
      next
        case rd: False
        have "sess_move c s (s\<lparr>ss_active := None, ss_phase := Completed\<rparr>)"
          by (rule sess_move.complete_read) (use False rd in auto)
        moreover have "s' = s\<lparr>ss_active := None, ss_phase := Completed\<rparr>"
          using False None r ResponseEvent assms rd by auto
        ultimately show ?thesis by simp
      qed
    next
      case (Some error)
      obtain t o' where t: "fail c error s = Inr (t, o')" using fail_total by blast
      have "sess_move c s t" by (rule fail_move[OF _ _ t]) (use False in auto)
      moreover have "s' = t" using False Some r ResponseEvent assms t by auto
      ultimately show ?thesis by simp
    qed
  qed
qed

lemma control_move: "sess_move c s s' \<Longrightarrow> control_inv c s \<Longrightarrow> control_inv c s'"
proof (induction rule: sess_move.induct)
  case (retry s c)
  then show ?case by (elim disjE) (simp_all add: control_inv_def)
qed (simp_all add: control_inv_def)

lemma budget_move: "sess_move c s s' \<Longrightarrow> 0 \<le> cf_budget c \<Longrightarrow> budget_inv c s \<Longrightarrow> budget_inv c s'"
proof (induction rule: sess_move.induct)
  case (disconnect c s)
  then show ?case by (cases "ss_phase s"; cases "cf_write c \<and> \<not> cf_allow c") (simp_all add: budget_inv_def)
next
  case (retry s c)
  then show ?case by (elim disjE) (simp_all add: budget_inv_def)
next
  case (give_up s c kind)
  then show ?case by (elim disjE) (simp_all add: budget_inv_def)
qed (simp_all add: budget_inv_def)

lemma show_pending: "show_attempts h ls = h @ zip ls (replicate (length ls) Pending)"
  by (simp add: show_attempts_def zip_replicate_map)

lemma after_awaiting:
  assumes "write_ledger c s" "ss_phase s = Awaiting" "length outs = length (cf_locations c)"
    and "show_attempts (ss_history s') (ss_pending s') = ss_history s @ zip (cf_locations c) outs"
    and "ss_sends s' = ss_sends s"
  shows "after_sends c s'"
  using assms by (auto simp: write_ledger_def after_sends_def)

lemma ledger_disconnect:
  assumes "write_ledger c s"
  shows "write_ledger c (s\<lparr>ss_lifecycle := Closed, ss_active := None, ss_phase := ClosedPhase\<rparr>)" (is "write_ledger c ?t")
proof (cases "ss_phase s = Awaiting")
  case True
  then have "ss_pending s = cf_locations c" using assms by (simp add: write_ledger_def)
  then have "after_sends c ?t"
    by (intro after_awaiting[OF assms True, where outs = "replicate (length (cf_locations c)) Pending"])
      (simp_all add: show_pending)
  then show ?thesis by (simp add: write_ledger_def)
next
  case False
  with assms have "between_sends c s \<or> after_sends c s" by (simp add: write_ledger_def split: phase.splits)
  then show ?thesis by (simp add: write_ledger_def between_sends_def after_sends_def)
qed

lemma ledger_give_up:
  assumes "write_ledger c s" "cf_write c"
    and "ss_phase s = Awaiting \<or> ss_phase s = ReconnectCotp \<or> ss_phase s = ReconnectSetupPhase"
  shows "write_ledger c (failed_state c kind s)" (is "write_ledger c ?t")
proof (cases "ss_phase s = Awaiting")
  case True
  then have pend: "ss_pending s = cf_locations c" using assms(1) by (simp add: write_ledger_def)
  define o' where "o' = (if kind = PlcRejected then GlobalRejected else Pending)"
  have "after_sends c ?t"
    by (rule after_awaiting[OF assms(1) True, where outs = "replicate (length (cf_locations c)) o'"])
      (use True assms pend in \<open>simp_all add: o'_def show_pending zip_replicate_map\<close>)
  then show ?thesis by (simp add: write_ledger_def)
next
  case False
  with assms have "between_sends c s" by (elim disjE) (simp_all add: write_ledger_def)
  with False show ?thesis by (simp add: write_ledger_def between_sends_def)
qed

lemma ledger_retry:
  assumes "write_ledger c s" "cf_write c"
    and "ss_phase s = Awaiting \<or> ss_phase s = ReconnectCotp \<or> ss_phase s = ReconnectSetupPhase"
  shows "write_ledger c (retry_state c s)"
proof (cases "ss_phase s = Awaiting")
  case True
  with assms show ?thesis by (simp add: write_ledger_def between_sends_def replays_pred)
next
  case False
  with assms have "between_sends c s" by (elim disjE) (simp_all add: write_ledger_def)
  with False show ?thesis by (simp add: write_ledger_def between_sends_def)
qed

lemma write_ledger_move: "sess_move c s s' \<Longrightarrow> cf_write c \<Longrightarrow> 0 \<le> ss_sends s \<Longrightarrow> write_ledger c s \<Longrightarrow> write_ledger c s'"
proof (induction rule: sess_move.induct)
  case (start s c)
  then show ?case by (simp add: write_ledger_def between_sends_def replays_def)
next
  case (send s c)
  then show ?case by (simp add: write_ledger_def between_sends_def)
next
  case (retry s c)
  then show ?case using ledger_retry by blast
next
  case (give_up s c kind)
  then show ?case using ledger_give_up by blast
next
  case (handshake s c)
  then show ?case by (simp add: write_ledger_def between_sends_def)
next
  case (reconnected s c)
  then show ?case by (simp add: write_ledger_def between_sends_def)
next
  case (complete_write s c results)
  then have "ss_pending s = cf_locations c" by (simp add: write_ledger_def)
  then have "after_sends c (s\<lparr>ss_history := ss_history s @ zip (ss_pending s) results, ss_pending := [],
        ss_active := None, ss_phase := Completed\<rparr>)"
    using complete_write
    by (intro after_awaiting[where outs = results and s = s]) (simp_all add: show_attempts_def)
  then show ?case by (simp add: write_ledger_def)
next
  case (complete_read s c)
  then show ?case by simp
next
  case (disconnect c s)
  then show ?case using ledger_disconnect by blast
qed

lemma read_ledger_move:
  "sess_move c s s' \<Longrightarrow> \<not> cf_write c \<Longrightarrow> ss_history s = [] \<and> ss_pending s = [] \<Longrightarrow>
     ss_history s' = [] \<and> ss_pending s' = []"
  by (induction rule: sess_move.induct) simp_all

lemma ledger_move: "sess_move c s s' \<Longrightarrow> budget_inv c s \<Longrightarrow> ledger_inv c s \<Longrightarrow> ledger_inv c s'"
  using write_ledger_move[of c s s'] read_ledger_move[of c s s']
  by (simp add: ledger_inv_def budget_inv_def split: if_split_asm)

lemma sess_inv_step:
  assumes "sess_inv c s" "0 \<le> cf_budget c" "sess_step c s ev = Inr (s', out)"
  shows "sess_inv c s'"
  using sess_step_move[OF assms(3)] assms(1,2) control_move budget_move ledger_move
  unfolding sess_inv_def by blast

section \<open>Runs\<close>

lemma strace_total_from:
  assumes "sess_inv c s" "0 \<le> cf_budget c" "mapE parse_sevent es = Inr evs"
  shows "\<exists>steps. strace_from c s es = Inr steps \<and> length steps = length es"
  using assms
proof (induction es arbitrary: s evs)
  case Nil
  show ?case by simp
next
  case (Cons e es)
  obtain ev rest where ev: "parse_sevent e = Inr ev" "mapE parse_sevent es = Inr rest"
    using Cons.prems(3) by auto
  obtain s' out where st: "sess_step c s ev = Inr (s', out)" using sess_step_total Cons.prems(1) by blast
  from Cons.IH[OF sess_inv_step[OF Cons.prems(1,2) st] Cons.prems(2) ev(2)] ev st
  show ?case by auto
qed

lemma strace_states:
  assumes "strace_from c s es = Inr steps" "sess_inv c s" "0 \<le> cf_budget c" "st \<in> set steps"
  shows "\<exists>s' out. st = sess_snapshot out s' \<and> sess_inv c s'"
  using assms
proof (induction es arbitrary: s steps)
  case Nil
  then show ?case by simp
next
  case (Cons e es)
  obtain ev s' out rest where ev: "sess_step c s ev = Inr (s', out)"
    "strace_from c s' es = Inr rest" "steps = sess_snapshot out s' # rest"
    using Cons.prems(1) by auto
  note inv = sess_inv_step[OF Cons.prems(2,3) ev(1)]
  show ?case using Cons.IH[OF ev(2) inv Cons.prems(3)] inv ev(3) Cons.prems(4) by auto
qed

lemma configuration_ok:
  assumes "configuration cfg = Inr c"
  shows "0 \<le> cf_budget c" "cf_budget c \<le> 16" "cf_locations c \<noteq> []" "length (cf_locations c) \<le> 20"
    "\<exists>pdu. request (cf_reference c) (List.map loc_range (cf_locations c)) (cf_write c) = Inr (Some pdu)"
  using assms by (auto simp: configuration_def dest: mapE_length)

lemma strace_inv:
  assumes "configuration cfg = Inr c" "strace cfg v = Inr steps" "st \<in> set steps"
  shows "\<exists>s' out. st = sess_snapshot out s' \<and> sess_inv c s'"
  using assms configuration_ok[OF assms(1)] strace_states sess_inv_init
  by (auto simp: strace_def)

text \<open>Once configuration and events have been read, the session machine never raises: in particular
  the strict zip of outstanding locations with results always sees equal lengths.\<close>

lemma session_trace_total:
  assumes "configuration cfg = Inr c" and "mapE parse_sevent es = Inr evs"
    and "1 \<le> length es" and "length es \<le> 1024"
  shows "\<exists>steps. strace cfg (JArr es) = Inr steps \<and> length steps = length es"
  using strace_total_from[OF sess_inv_init[OF configuration_ok(1)[OF assms(1)]]
      configuration_ok(1)[OF assms(1)] assms(2)] assms(1,3,4)
  by (simp add: strace_def)

text \<open>C5: The reconnect budget bounds the work: at every snapshot of a session the sends never exceed the
  configured budget plus one, a write that may not be replayed is sent at most once, and the phase
  determines lifecycle and active reference.\<close>
theorem session_budget:
  assumes "configuration cfg = Inr c" and "strace cfg v = Inr steps" and "st \<in> set steps"
  shows "0 \<le> st_remaining st \<and> st_remaining st \<le> cf_budget c
    \<and> st_sends st + st_remaining st \<le> cf_budget c + 1
    \<and> (cf_write c \<and> \<not> cf_allow c \<longrightarrow> st_sends st \<le> 1)
    \<and> st_lifecycle st = phase_lifecycle (st_phase st)
    \<and> st_active st = (if active_phase (st_phase st) then Some (cf_reference c) else None)"
proof -
  obtain s out where s: "st = sess_snapshot out s" "sess_inv c s" using strace_inv[OF assms] by blast
  have "uncharged (ss_phase s) \<le> 1" by (cases "ss_phase s") simp_all
  with s show ?thesis
    by (auto simp: sess_inv_def control_inv_def budget_inv_def sess_snapshot_def)
qed

lemma replays_locations: "List.map fst (replays c n) = concat (replicate n (cf_locations c))"
  by (induction n) (simp_all add: replays_def comp_def)

lemma replays_length: "length (replays c n) = n * length (cf_locations c)"
  by (induction n) (simp_all add: replays_def)

lemma replays_outcomes: "o' \<in> snd ` set (replays c n) \<Longrightarrow> o' = ReplayedUnknown"
  by (auto simp: replays_def split: if_split_asm)

lemma replays_nth: "i < n * length (cf_locations c) \<Longrightarrow> snd (replays c n ! i) = ReplayedUnknown"
  using replays_outcomes[of _ c n] replays_length[of c n] by (metis image_eqI nth_mem)

text \<open>C6: Write provenance of a session: the attempts on show are one full copy of the configured
  locations per send, every copy but the last marked replayed with unknown outcome; a read session
  shows no attempts.\<close>
theorem session_provenance:
  assumes "configuration cfg = Inr c" and "strace cfg v = Inr steps" and "st \<in> set steps"
  shows "if cf_write c
    then List.map fst (st_attempts st) = concat (replicate (nat (st_sends st)) (cf_locations c))
      \<and> (\<forall>i < (nat (st_sends st) - 1) * length (cf_locations c). snd (st_attempts st ! i) = ReplayedUnknown)
    else st_attempts st = []"
proof (cases "cf_write c")
  case False
  then show ?thesis using strace_inv[OF assms]
    by (auto simp: sess_inv_def ledger_inv_def sess_snapshot_def show_attempts_def)
next
  case True
  obtain s out where s: "st = sess_snapshot out s" "sess_inv c s" using strace_inv[OF assms] by blast
  then have w: "write_ledger c s" and k0: "0 \<le> ss_sends s"
    using True by (simp_all add: sess_inv_def ledger_inv_def budget_inv_def)
  have done_case: ?thesis if "between_sends c s"
  proof -
    have "st_attempts st = replays c (nat (ss_sends s))"
      using that s by (simp add: between_sends_def sess_snapshot_def show_attempts_def)
    moreover have "i < (n - 1) * m \<Longrightarrow> i < n * m" for i n m :: nat
      by (metis diff_le_self less_le_trans mult_le_mono1)
    ultimately show ?thesis using True s replays_nth[of _ "nat (ss_sends s)" c]
      by (simp add: replays_locations sess_snapshot_def)
  qed
  have open_case: ?thesis if "1 \<le> ss_sends s" "length outs = length (cf_locations c)"
    "show_attempts (ss_history s) (ss_pending s) = replays c (nat (ss_sends s - 1)) @ zip (cf_locations c) outs" for outs
  proof -
    define n where "n = nat (ss_sends s - 1)"
    have n: "nat (ss_sends s) = Suc n" using that(1) by (simp add: n_def Suc_nat_eq_nat_zadd1)
    have att: "st_attempts st = replays c n @ zip (cf_locations c) outs"
      using that s by (simp add: sess_snapshot_def n_def)
    have "st_sends st = ss_sends s" using s by (simp add: sess_snapshot_def)
    moreover have "concat (replicate (Suc n) (cf_locations c)) = concat (replicate n (cf_locations c)) @ cf_locations c"
      by (metis concat.simps concat_append append_Nil2 replicate_Suc replicate_append_same)
    ultimately show ?thesis using True that(2) replays_nth[of _ n c]
      by (simp add: att n replays_locations replays_length nth_append)
  qed
  show ?thesis
  proof (cases "ss_phase s = Awaiting")
    case True
    then have aw: "1 \<le> ss_sends s" "ss_pending s = cf_locations c" "ss_history s = replays c (nat (ss_sends s - 1))"
      using w by (simp_all add: write_ledger_def)
    show ?thesis by (rule open_case[of "replicate (length (cf_locations c)) Pending"]) (simp_all add: aw show_pending)
  next
    case False
    with w have "between_sends c s \<or> after_sends c s" by (simp add: write_ledger_def split: phase.splits)
    then show ?thesis using done_case open_case by (auto simp: after_sends_def)
  qed
qed

end
