(* ===== verification/Corpora.thy ===== *)
theory Corpora
  imports Session Management Values
begin

text \<open>
  The corpus checks of \<^verbatim>\<open>conversation_conformance.py\<close>, \<^verbatim>\<open>session_conformance.py\<close>,
  \<^verbatim>\<open>sequence_conformance.py\<close> and \<^verbatim>\<open>value_conformance.py\<close>: what an oracle computes is
  written out as the JSON its code builds and compared with the expectation a corpus holds.
\<close>

section \<open>Snapshots as JSON\<close>

definition range_json :: "mem_range \<Rightarrow> json" where
  "range_json r = JObj [(''db_number'', JInt (mr_db r)), (''start'', JInt (mr_start r)), (''count'', JInt (mr_count r))]"

definition location_json :: "location \<Rightarrow> json" where
  "location_json l = JObj [(''range'', range_json (loc_range l)),
     (''item_index'', case loc_item l of None \<Rightarrow> JNull | Some i \<Rightarrow> JInt i), (''chunk_byte_offset'', JInt (loc_offset l))]"

fun outcome_text :: "outcome \<Rightarrow> ustr" where
  "outcome_text Success = ascii ''success''"
| "outcome_text (Failure code) = ascii ''failure:'' @ int_str code"
| "outcome_text ReplayedUnknown = ascii ''replayed-unknown''"
| "outcome_text GlobalRejected = ascii ''global-rejected''"
| "outcome_text Pending = ascii ''pending''"

definition attempt_json :: "location \<times> outcome \<Rightarrow> json" where
  "attempt_json a = JObj [(''location'', location_json (fst a)), (''outcome'', JStr (outcome_text (snd a)))]"

definition attempts_json :: "(location \<times> outcome) list \<Rightarrow> json" where
  "attempts_json as = JArr (List.map attempt_json as)"

fun lifecycle_json :: "lifecycle \<Rightarrow> json" where
  "lifecycle_json Connected = jtext ''connected''"
| "lifecycle_json Disconnected = jtext ''disconnected''"
| "lifecycle_json Closed = jtext ''closed''"

fun verdict_json :: "verdict \<Rightarrow> json" where
  "verdict_json Accepted = JObj [(''status'', jtext ''accept'')]"
| "verdict_json (Permitted b) = JObj [(''status'', jtext ''accept''), (''permitted'', JBool b)]"
| "verdict_json (ReadPayload bs) = JObj [(''status'', jtext ''accept''), (''payload'', byte_list bs)]"
| "verdict_json (Rejected category) = JObj [(''status'', jtext ''reject''), (''category'', jtext category)]"

definition step_json :: "step \<Rightarrow> json" where
  "step_json st = JObj [(''result'', verdict_json (step_result st)),
     (''snapshot'', JObj [(''lifecycle'', lifecycle_json (step_lifecycle st)), (''attempts'', attempts_json (step_attempts st))])]"

definition trace_json :: "step list \<Rightarrow> json" where
  "trace_json steps = JArr (List.map step_json steps)"

section \<open>The expectation of a conversation\<close>

definition eachE :: "('a \<Rightarrow> 'b result) \<Rightarrow> 'a list \<Rightarrow> unit result" where
  "eachE f xs = bindE (mapE f xs) (\<lambda>_. Inr ())"

definition expected_outcome :: "json \<Rightarrow> unit result" where
  "expected_outcome v = (case v of
     JStr s \<Rightarrow>
       if s \<in> {ascii ''pending'', ascii ''replayed-unknown'', ascii ''global-rejected'', ascii ''success''} then Inr ()
       else if take 8 s \<noteq> ascii ''failure:'' then Inl ValueError
       else
         let code = drop 8 s
         in if code = [] \<or> \<not> list_all is_digit code \<or> 4300 < length code then Inl ValueError
            else bindE (py_int code) (\<lambda>i. bindE (integer (JInt i) 255) (\<lambda>_. guardE (code = int_str i) ValueError))
   | _ \<Rightarrow> Inl ValueError)"

definition expected_attempt :: "json \<Rightarrow> unit result" where
  "expected_attempt v =
     bindE (shape v [''location'', ''outcome'']) (\<lambda>_.
     bindE (jget ''location'' v) (\<lambda>l. bindE (location l) (\<lambda>_.
     bindE (jget ''outcome'' v) expected_outcome)))"

definition expected_snapshot :: "json \<Rightarrow> unit result" where
  "expected_snapshot v =
     bindE (shape v [''lifecycle'', ''attempts'']) (\<lambda>_.
     bindE (jget ''lifecycle'' v) (\<lambda>l.
     bindE (guardE (l \<in> {jtext ''connected'', jtext ''disconnected'', jtext ''closed''}) ValueError) (\<lambda>_.
     bindE (jget ''attempts'' v) (\<lambda>as. bindE (arr_of as) (\<lambda>attempts.
     bindE (guardE (length attempts \<le> 20480) ValueError) (\<lambda>_.
     eachE expected_attempt attempts))))))"

definition expected_result :: "json \<Rightarrow> unit result" where
  "expected_result v =
     (if \<not> is_obj v then Inl TypeError
      else if jget_opt ''status'' v = jtext ''reject'' then
        bindE (shape v [''status'', ''category'']) (\<lambda>_.
        bindE (jget ''category'' v) (\<lambda>c. guardE (is_str c) TypeError))
      else if jget_opt ''status'' v = jtext ''accept'' then
        (if ''permitted'' \<in> set (jkeys v) then
           bindE (shape v [''status'', ''permitted'']) (\<lambda>_.
           bindE (jget ''permitted'' v) (\<lambda>p. guardE (is_bool p) TypeError))
         else if ''payload'' \<in> set (jkeys v) then
           bindE (shape v [''status'', ''payload'']) (\<lambda>_.
           bindE (jget ''payload'' v) (\<lambda>p. bindE (octets p) (\<lambda>_. Inr ())))
         else shape v [''status''])
      else Inl ValueError)"

definition expected_step :: "json \<Rightarrow> unit result" where
  "expected_step v =
     bindE (shape v [''result'', ''snapshot'']) (\<lambda>_.
     bindE (jget ''snapshot'' v) (\<lambda>s. bindE (expected_snapshot s) (\<lambda>_.
     bindE (jget ''result'' v) expected_result)))"

definition expectation :: "json \<Rightarrow> unit result" where
  "expectation v =
     bindE (arr_of v) (\<lambda>steps.
     bindE (guardE (length steps \<le> 1024) ValueError) (\<lambda>_. eachE expected_step steps))"

section \<open>The conversation corpus\<close>

definition corpus_header :: "string \<Rightarrow> json \<Rightarrow> unit result" where
  "corpus_header protocol corpus =
     bindE (jget ''schema_version'' corpus) (\<lambda>version.
     bindE (guardE (version = JInt 1) ValueError) (\<lambda>_.
     bindE (jget ''protocol'' corpus) (\<lambda>p. guardE (p = jtext protocol) ValueError)))"

definition corpus_cases :: "json \<Rightarrow> json list result" where
  "corpus_cases corpus =
     bindE (jget ''cases'' corpus) (\<lambda>cs. bindE (arr_of cs) (\<lambda>tests.
     bindE (guardE (1 \<le> length tests \<and> length tests \<le> 4096) ValueError) (\<lambda>_. Inr tests)))"

definition conv_case :: "json \<Rightarrow> ustr list \<Rightarrow> (nat \<times> ustr list) result" where
  "conv_case test seen =
     bindE (shape test [''id'', ''seed'', ''events'', ''expected_trace'']) (\<lambda>_.
     bindE (identity test seen) (\<lambda>seen'.
     bindE (jget ''seed'' test) (\<lambda>s. bindE (integer s 0xFFFFFFFF) (\<lambda>_.
     bindE (jget ''expected_trace'' test) (\<lambda>expected. bindE (expectation expected) (\<lambda>_.
     bindE (jget ''events'' test) (\<lambda>events. bindE (trace events) (\<lambda>actual.
     bindE (guardE (py_eq (trace_json actual) expected) AssertionError) (\<lambda>_.
     Inr (length actual, seen'))))))))))"

fun count_cases :: "(json \<Rightarrow> ustr list \<Rightarrow> (nat \<times> ustr list) result) \<Rightarrow> json list \<Rightarrow> ustr list \<Rightarrow> nat result" where
  "count_cases check [] seen = Inr 0"
| "count_cases check (t # ts) seen =
     bindE (check t seen) (\<lambda>(n, seen'). bindE (count_cases check ts seen') (\<lambda>m. Inr (n + m)))"

definition conv_validate :: "json \<Rightarrow> nat result" where
  "conv_validate corpus =
     bindE (shape corpus [''schema_version'', ''protocol'', ''cases'']) (\<lambda>_.
     bindE (corpus_header ''classic S7 primitive conversation histories'' corpus) (\<lambda>_.
     bindE (corpus_cases corpus) (\<lambda>tests. count_cases conv_case tests [])))"

section \<open>The session corpus\<close>

fun phase_json :: "phase \<Rightarrow> json" where
  "phase_json Idle = jtext ''idle''"
| "phase_json Ready = jtext ''ready''"
| "phase_json Awaiting = jtext ''awaiting''"
| "phase_json ReconnectCotp = jtext ''reconnect-cotp''"
| "phase_json ReconnectSetupPhase = jtext ''reconnect-setup''"
| "phase_json Completed = jtext ''completed''"
| "phase_json Failed = jtext ''failed''"
| "phase_json ClosedPhase = jtext ''closed''"

fun sverdict_json :: "sverdict \<Rightarrow> json" where
  "sverdict_json SAccepted = JObj [(''status'', jtext ''accept'')]"
| "sverdict_json (SRetry b) = JObj [(''status'', jtext ''accept''), (''retry'', JBool b)]"
| "sverdict_json (SRejected category) = JObj [(''status'', jtext ''reject''), (''category'', jtext category)]"

definition sstep_json :: "sstep \<Rightarrow> json" where
  "sstep_json st = JObj [(''result'', sverdict_json (st_result st)),
     (''snapshot'', JObj [(''lifecycle'', lifecycle_json (st_lifecycle st)), (''remaining'', JInt (st_remaining st)),
        (''active_reference'', case st_active st of None \<Rightarrow> JNull | Some r \<Rightarrow> JInt r), (''phase'', phase_json (st_phase st)),
        (''sends'', JInt (st_sends st)), (''attempts'', attempts_json (st_attempts st))])]"

definition strace_json :: "sstep list \<Rightarrow> json" where
  "strace_json steps = JArr (List.map sstep_json steps)"

definition sess_identity :: "json \<Rightarrow> ustr list \<Rightarrow> ustr list result" where
  "sess_identity test seen =
     bindE (jget ''id'' test) (\<lambda>v. case v of
        JStr s \<Rightarrow> if 1 \<le> length s \<and> length s \<le> 256 \<and> s \<notin> set seen then Inr (s # seen) else Inl ValueError
      | _ \<Rightarrow> Inl ValueError)"

definition sess_case :: "json \<Rightarrow> ustr list \<Rightarrow> (nat \<times> ustr list) result" where
  "sess_case test seen =
     bindE (shape test [''id'', ''seed'', ''config'', ''events'', ''expected_trace'']) (\<lambda>_.
     bindE (sess_identity test seen) (\<lambda>seen'.
     bindE (jget ''seed'' test) (\<lambda>s. bindE (integer s 0xFFFFFFFF) (\<lambda>_.
     bindE (jget ''config'' test) (\<lambda>cfg. bindE (jget ''events'' test) (\<lambda>events.
     bindE (strace cfg events) (\<lambda>actual.
     bindE (jget ''expected_trace'' test) (\<lambda>expected.
     bindE (guardE (same (strace_json actual) expected) ValueError) (\<lambda>_.
     Inr (length actual, seen'))))))))))"

definition sess_validate :: "json \<Rightarrow> nat result" where
  "sess_validate corpus =
     bindE (shape corpus [''schema_version'', ''protocol'', ''cases'']) (\<lambda>_.
     bindE (corpus_header ''classic S7 active request histories'' corpus) (\<lambda>_.
     bindE (corpus_cases corpus) (\<lambda>tests. count_cases sess_case tests [])))"

section \<open>The sequence corpus\<close>

fun item_json :: "item_result \<Rightarrow> json" where
  "item_json (ItemSuccess None) = JObj [(''status'', jtext ''success'')]"
| "item_json (ItemSuccess (Some content)) = JObj [(''status'', jtext ''success''), (''payload'', byte_list content)]"
| "item_json (ItemFailure code) = JObj [(''status'', jtext ''failure''), (''code'', JInt code)]"

datatype seq_test = MultiTest exchange json | FragmentsTest fragments "bytes list" json

text \<open>A \<open>ValueError\<close> of a decoder is the actual result \<^verbatim>\<open>reject\<close>; every other exception ends the run.\<close>

definition or_reject :: "json result \<Rightarrow> json result" where
  "or_reject r = (if r = Inl ValueError then Inr (JObj [(''status'', jtext ''reject'')]) else r)"

fun seq_actual :: "seq_test \<Rightarrow> json result" where
  "seq_actual (MultiTest test expected) =
     bindE (check_request test) (\<lambda>_. or_reject (bindE (decode_multi test) (\<lambda>results.
       Inr (JObj [(''status'', jtext ''accept''), (''items'', JArr (List.map item_json results))]))))"
| "seq_actual (FragmentsTest test pdus expected) =
     or_reject (bindE (decode_conversation test pdus) (\<lambda>content.
       Inr (JObj [(''status'', jtext ''accept''), (''payload'', byte_list content)])))"

fun seq_expected :: "seq_test \<Rightarrow> json" where
  "seq_expected (MultiTest test expected) = expected"
| "seq_expected (FragmentsTest test pdus expected) = expected"

fun seq_run :: "seq_test list \<Rightarrow> nat result" where
  "seq_run [] = Inr 0"
| "seq_run (t # ts) =
     bindE (seq_actual t) (\<lambda>actual.
     bindE (guardE (py_eq actual (seq_expected t)) AssertionError) (\<lambda>_.
     bindE (seq_run ts) (\<lambda>n. Inr (1 + n))))"

section \<open>The value corpus\<close>

text \<open>A dictionary whose values are JSON or, under \<^verbatim>\<open>encoded\<close>, bytes. An expectation that is no object is
  a \<open>TypeError\<close> here.\<close>

type_synonym field_map = "(string \<times> (bytes + json)) list"

definition clock_json :: "clock \<Rightarrow> json" where
  "clock_json c = JObj [(''year'', JInt (ck_year c)), (''month'', JInt (ck_month c)), (''day'', JInt (ck_day c)),
     (''hour'', JInt (ck_hour c)), (''minute'', JInt (ck_minute c)), (''second'', JInt (ck_second c)),
     (''millisecond'', JInt (ck_millisecond c)), (''weekday'', JInt (ck_weekday c))]"

definition accept_fields :: "bytes option \<Rightarrow> json \<Rightarrow> field_map" where
  "accept_fields encoded v = (''status'', Inr (jtext ''accept''))
     # (case encoded of None \<Rightarrow> [] | Some bs \<Rightarrow> [(''encoded'', Inl bs)]) @ [(''value'', Inr v)]"

fun value_fields :: "value_result \<Rightarrow> field_map" where
  "value_fields (VReject category) = [(''status'', Inr (jtext ''reject'')), (''category'', Inr (jtext category))]"
| "value_fields (VInteger encoded v) = accept_fields (Some encoded) (JStr v)"
| "value_fields (VText encoded v) = accept_fields encoded (JStr v)"
| "value_fields (VClock encoded c) = accept_fields encoded (clock_json c)"

definition value_expected :: "json \<Rightarrow> field_map result" where
  "value_expected v = (case v of
     JObj kvs \<Rightarrow> mapE (\<lambda>(k, x). if k = ''encoded'' then bindE (spec_octets x) (\<lambda>bs. Inr (k, Inl bs)) else Inr (k, Inr x)) kvs
   | _ \<Rightarrow> Inl TypeError)"

fun field_eq :: "bytes + json \<Rightarrow> bytes + json \<Rightarrow> bool" where
  "field_eq (Inl a) (Inl b) \<longleftrightarrow> a = b"
| "field_eq (Inr a) (Inr b) \<longleftrightarrow> py_eq a b"
| "field_eq _ _ \<longleftrightarrow> False"

definition fields_eq :: "field_map \<Rightarrow> field_map \<Rightarrow> bool" where
  "fields_eq as bs \<longleftrightarrow> length as = length bs
     \<and> list_all (\<lambda>(k, x). case map_of bs k of None \<Rightarrow> False | Some y \<Rightarrow> field_eq x y) as"

fun truthy :: "json \<Rightarrow> bool" where
  "truthy JNull = False"
| "truthy (JBool b) = b"
| "truthy (JInt i) = (i \<noteq> 0)"
| "truthy (JFloat m e) = (m \<noteq> 0)"
| "truthy (JStr s) = (s \<noteq> [])"
| "truthy (JArr xs) = (xs \<noteq> [])"
| "truthy (JObj kvs) = (kvs \<noteq> [])"

definition value_case :: "(json \<Rightarrow> value_result result) \<Rightarrow> json \<Rightarrow> json list \<Rightarrow> json list result" where
  "value_case decode test ids =
     bindE (jget ''id'' test) (\<lambda>i. bindE (hashable i) (\<lambda>_.
     bindE (guardE (\<not> list_ex (py_eq i) ids) ValueError) (\<lambda>_.
     bindE (jget ''expected'' test) (\<lambda>e. bindE (value_expected e) (\<lambda>expected.
     bindE (decode test) (\<lambda>actual.
     bindE (guardE (fields_eq (value_fields actual) expected) AssertionError) (\<lambda>_.
     Inr (i # ids))))))))"

fun value_cases :: "(json \<Rightarrow> value_result result) \<Rightarrow> json list \<Rightarrow> json list \<Rightarrow> json list result" where
  "value_cases decode [] ids = Inr ids"
| "value_cases decode (t # ts) ids = bindE (value_case decode t ids) (value_cases decode ts)"

fun value_groups :: "json \<Rightarrow> (string \<times> (json \<Rightarrow> value_result result)) list \<Rightarrow> json list \<Rightarrow> json list result" where
  "value_groups corpus [] ids = Inr ids"
| "value_groups corpus ((name, decode) # rest) ids =
     bindE (jget name corpus) (\<lambda>v.
     bindE (guardE (truthy v) ValueError) (\<lambda>_.
     case v of
       JArr tests \<Rightarrow> bindE (value_cases decode tests ids) (value_groups corpus rest)
     | _ \<Rightarrow> Inl TypeError))"

definition value_check :: "json \<Rightarrow> nat result" where
  "value_check corpus =
     bindE (corpus_header ''classic S7 typed values and clock'' corpus) (\<lambda>_.
     bindE (value_groups corpus [(''integer_cases'', decode_integer), (''string_codec_cases'', decode_string),
        (''clock_codec_cases'', decode_clock)] []) (\<lambda>ids. Inr (length ids)))"

section \<open>A strict expectation makes a loose comparison exact\<close>

lemma eachE_iff: "eachE f xs = Inr () \<longleftrightarrow> list_all (\<lambda>x. \<exists>y. f x = Inr y) xs"
proof (induction xs)
  case (Cons x xs)
  then show ?case by (cases "f x"; cases "mapE f xs") (simp_all add: eachE_def)
qed (simp add: eachE_def)

text \<open>The keys of a shape, read back.\<close>

lemma shape_obj: "shape v keys = Inr () \<Longrightarrow> \<exists>kvs. v = JObj kvs \<and> fst ` set kvs = set keys"
  by (cases v) (auto simp: shape_def)

definition strictly :: "json \<Rightarrow> json \<Rightarrow> bool" where
  "strictly a v \<longleftrightarrow> (py_eq a v \<longrightarrow> same a v)"

lemma exact_obj:
  assumes "\<And>k x y. (k, x) \<in> set as \<Longrightarrow> map_of bs k = Some y \<Longrightarrow> strictly x y"
  shows "strictly (JObj as) (JObj bs)"
  unfolding strictly_def
proof
  assume "py_eq (JObj as) (JObj bs)"
  then have l: "length as = length bs" and e: "\<And>k x. (k, x) \<in> set as \<Longrightarrow> \<exists>y. map_of bs k = Some y \<and> py_eq x y"
    by (auto simp: py_eq_obj)
  have "\<exists>y. map_of bs k = Some y \<and> same x y" if "(k, x) \<in> set as" for k x
    using e[OF that] assms[OF that] by (auto simp: strictly_def)
  with l show "same (JObj as) (JObj bs)" by (auto simp: same_obj)
qed

lemma exact_arr: "(\<And>x y. x \<in> set xs \<Longrightarrow> y \<in> set ys \<Longrightarrow> strictly x y) \<Longrightarrow> strictly (JArr xs) (JArr ys)"
  unfolding strictly_def py_eq_arr same_arr by (auto elim: list.rel_mono_strong)

lemma exact_atoms:
  "strictly JNull v" "strictly (JStr s) v" "is_int v \<Longrightarrow> strictly (JInt i) v" "is_bool v \<Longrightarrow> strictly (JBool b) v" "strictly (JInt i) JNull"
  by (cases v; auto simp: strictly_def py_eq_null py_eq_str same_atom py_eq.simps[of "JInt i"])+

lemma exact_range: "memory_range v = Inr r \<Longrightarrow> strictly (range_json x) v"
  by (cases v) (auto simp: memory_range_def range_json_def intro!: exact_obj exact_atoms split: option.splits)

lemma exact_location:
  assumes "location v = Inr l"
  shows "strictly (location_json x) v"
proof -
  obtain kvs where v: "v = JObj kvs" using assms by (cases v) (auto simp: location_def shape_def)
  obtain r i o' where "map_of kvs ''range'' = Some r" "map_of kvs ''item_index'' = Some i"
    "i = JNull \<or> is_int i" "map_of kvs ''chunk_byte_offset'' = Some o'" "is_int o'" "\<exists>m. memory_range r = Inr m"
    using assms by (auto simp: location_def v split: option.splits if_splits)
  then show ?thesis
    unfolding v location_json_def by (intro exact_obj) (auto intro: exact_atoms exact_range split: option.splits if_splits)
qed

lemma exact_attempt: "expected_attempt v = Inr u \<Longrightarrow> strictly (attempt_json a) v"
  by (cases v) (auto simp: expected_attempt_def attempt_json_def intro!: exact_obj exact_atoms exact_location split: option.splits)

lemma octets_ints: "octets v = Inr bs \<Longrightarrow> \<exists>xs. v = JArr xs \<and> list_all is_int xs"
proof -
  assume "octets v = Inr bs"
  then obtain xs where v: "v = JArr xs" and m: "mapE (\<lambda>x. bindE (integer x 255) (\<lambda>i. Inr (byte i))) xs = Inr bs"
    by (auto simp: octets_def)
  from m have "list_all is_int xs" by (induction xs arbitrary: bs) auto
  with v show ?thesis by blast
qed

lemma exact_bytes: "octets v = Inr bs \<Longrightarrow> strictly (byte_list cs) v"
  by (drule octets_ints) (auto simp: byte_list_def list_all_iff intro!: exact_arr exact_atoms)

lemma exact_lifecycle: "strictly (lifecycle_json l) v"
  by (cases l) (simp_all add: exact_atoms)

lemma exact_snapshot:
  assumes "expected_snapshot v = Inr u"
  shows "strictly (JObj [(''lifecycle'', lifecycle_json l), (''attempts'', attempts_json as)]) v"
proof -
  obtain kvs where v: "v = JObj kvs" using assms by (cases v) (auto simp: expected_snapshot_def shape_def)
  obtain xs where xs: "map_of kvs ''attempts'' = Some (JArr xs)" "eachE expected_attempt xs = Inr ()"
    using assms by (auto simp: expected_snapshot_def v split: option.splits)
  have "strictly (attempts_json as) (JArr xs)"
    unfolding attempts_json_def using xs(2)
    by (intro exact_arr) (auto simp: eachE_iff list_all_iff intro: exact_attempt)
  with xs(1) show ?thesis unfolding v by (intro exact_obj) (auto simp: exact_lifecycle)
qed

lemma exact_result:
  assumes "expected_result v = Inr u"
  shows "strictly (verdict_json r) v"
proof -
  obtain kvs where v: "v = JObj kvs" using assms by (cases v) (auto simp: expected_result_def)
  have key: "k \<in> fst ` set kvs" if "map_of kvs k = Some y" for k y using that by (metis map_of_SomeD fst_conv image_eqI)
  have p: "is_bool y" if "map_of kvs ''permitted'' = Some y" for y
    using assms key[OF that] that by (auto simp: expected_result_def v shape_def split: if_splits)
  have o': "\<exists>bs. octets y = Inr bs" if "map_of kvs ''payload'' = Some y" for y
    using assms key[OF that] that by (auto simp: expected_result_def v shape_def split: if_splits)
  have e: "strictly (byte_list cs) y" if "map_of kvs ''payload'' = Some y" for y cs using o'[OF that] exact_bytes by blast
  show ?thesis
    unfolding v using p by (cases r) (auto intro!: exact_obj exact_atoms e split: if_splits)
qed

lemma exact_step:
  assumes "expected_step v = Inr u"
  shows "strictly (step_json st) v"
proof -
  obtain kvs where v: "v = JObj kvs" using assms by (cases v) (auto simp: expected_step_def shape_def)
  obtain s r where "map_of kvs ''snapshot'' = Some s" "expected_snapshot s = Inr ()"
      "map_of kvs ''result'' = Some r" "expected_result r = Inr ()"
    using assms by (auto simp: expected_step_def v split: option.splits)
  then show ?thesis
    unfolding v step_json_def by (intro exact_obj) (auto intro: exact_result exact_snapshot split: if_splits)
qed

lemma same_py_eq: "same a v \<Longrightarrow> py_eq a v"
proof (induction a v rule: same.induct)
  case (1 a b)
  show ?case
  proof (cases a)
    case (JArr xs)
    then obtain ys where b: "b = JArr ys" and all: "list_all2 same xs ys" using 1(3) by (auto simp: same_arr)
    have "py_eq x y" if "(x, y) \<in> set (zip xs ys)" for x y
      using 1(1)[OF _ JArr b that refl] all that by (auto simp: list_all2_iff JArr b)
    then show ?thesis using all by (auto simp: JArr b py_eq_arr list_all2_iff)
  next
    case (JObj as)
    then obtain bs where b: "b = JObj bs" and l: "length as = length bs"
      and all': "\<forall>(k, x) \<in> set as. \<exists>y. map_of bs k = Some y \<and> same x y" using 1(3) unfolding JObj same_obj by blast
    have all: "\<exists>y. map_of bs k = Some y \<and> same x y" if "(k, x) \<in> set as" for k x using all' that by blast
    have "\<exists>y. map_of bs k = Some y \<and> py_eq x y" if m: "(k, x) \<in> set as" for k x
      using all[OF m] 1(2)[OF _ JObj b m refl] by (auto simp: JObj b)
    then show ?thesis using l by (auto simp: JObj b py_eq_obj)
  qed (use 1(3) in \<open>auto simp: same.simps py_eq.simps num_eq_def split: json.splits\<close>)
qed

lemma exact_trace:
  assumes "expectation v = Inr u"
  shows "py_eq (trace_json steps) v \<longleftrightarrow> same (trace_json steps) v"
proof -
  have "strictly (trace_json steps) v"
    using assms unfolding trace_json_def
    by (auto simp: expectation_def eachE_iff list_all_iff intro!: exact_arr exact_step)
  then show ?thesis using same_py_eq by (auto simp: strictly_def)
qed


text \<open>What is asked of one case, whose history has the trace \<open>steps\<close>.\<close>

definition case_exact :: "json \<Rightarrow> step list \<Rightarrow> bool" where
  "case_exact test steps \<longleftrightarrow> shape test [''id'', ''seed'', ''events'', ''expected_trace''] = Inr ()
     \<and> (\<exists>seed. jget ''seed'' test = Inr (JInt seed) \<and> 0 \<le> seed \<and> seed \<le> 0xFFFFFFFF)
     \<and> (\<exists>events expected. jget ''events'' test = Inr events \<and> trace events = Inr steps
          \<and> jget ''expected_trace'' test = Inr expected \<and> expectation expected = Inr ()
          \<and> same (trace_json steps) expected)"

lemma identity_iff:
  "identity test seen = Inr seen' \<longleftrightarrow> (\<exists>s. jget ''id'' test = Inr (JStr s) \<and> s \<noteq> [] \<and> s \<notin> set seen \<and> seen' = s # seen)"
proof (cases "jget ''id'' test")
  case (Inr i)
  then show ?thesis by (cases i) (auto simp: identity_def)
qed (simp add: identity_def)

lemma conv_case_iff:
  "conv_case test seen = Inr (k, seen') \<longleftrightarrow>
     (\<exists>s steps. case_exact test steps \<and> jget ''id'' test = Inr (JStr s) \<and> s \<noteq> [] \<and> s \<notin> set seen \<and> seen' = s # seen
        \<and> k = length steps)"
  unfolding conv_case_def case_exact_def bindE_Inr_iff identity_iff integer_Inr_iff guardE_Inr_iff
  by (auto simp: exact_trace)

lemma conv_cases_iff:
  "count_cases conv_case tests seen = Inr n \<longleftrightarrow>
     (\<exists>ids traces. list_all2 case_exact tests traces \<and> mapE (jget ''id'') tests = Inr (map JStr ids)
        \<and> [] \<notin> set ids \<and> distinct ids \<and> set ids \<inter> set seen = {} \<and> n = sum_list (map length traces))"
proof (induction tests arbitrary: seen n)
  case Nil
  then show ?case by auto
next
  case (Cons t ts)
  have "count_cases conv_case (t # ts) seen = Inr n \<longleftrightarrow>
    (\<exists>s steps m. case_exact t steps \<and> jget ''id'' t = Inr (JStr s) \<and> s \<noteq> [] \<and> s \<notin> set seen
       \<and> count_cases conv_case ts (s # seen) = Inr m \<and> n = length steps + m)"
    by (auto simp: bindE_Inr_iff conv_case_iff)
  also have "\<dots> \<longleftrightarrow> (\<exists>s steps ids traces. case_exact t steps \<and> jget ''id'' t = Inr (JStr s) \<and> s \<noteq> [] \<and> s \<notin> set seen
       \<and> list_all2 case_exact ts traces \<and> mapE (jget ''id'') ts = Inr (map JStr ids)
        \<and> [] \<notin> set ids \<and> distinct ids \<and> set ids \<inter> set (s # seen) = {} \<and> n = length steps + sum_list (map length traces))"
    unfolding Cons.IH by blast
  also have "\<dots> \<longleftrightarrow> (\<exists>ids traces. list_all2 case_exact (t # ts) traces \<and> mapE (jget ''id'') (t # ts) = Inr (map JStr ids)
        \<and> [] \<notin> set ids \<and> distinct ids \<and> set ids \<inter> set seen = {} \<and> n = sum_list (map length traces))" (is "_ \<longleftrightarrow> ?r")
  proof
    assume "\<exists>s steps ids traces. case_exact t steps \<and> jget ''id'' t = Inr (JStr s) \<and> s \<noteq> [] \<and> s \<notin> set seen
       \<and> list_all2 case_exact ts traces \<and> mapE (jget ''id'') ts = Inr (map JStr ids)
        \<and> [] \<notin> set ids \<and> distinct ids \<and> set ids \<inter> set (s # seen) = {} \<and> n = length steps + sum_list (map length traces)"
    then obtain s steps ids traces where "case_exact t steps" "jget ''id'' t = Inr (JStr s)" "s \<noteq> []" "s \<notin> set seen"
       "list_all2 case_exact ts traces" "mapE (jget ''id'') ts = Inr (map JStr ids)"
       "[] \<notin> set ids" "distinct ids" "set ids \<inter> set (s # seen) = {}" "n = length steps + sum_list (map length traces)"
      by blast
    then show ?r by (intro exI[of _ "s # ids"] exI[of _ "steps # traces"]) auto
  next
    assume ?r
    then show "\<exists>s steps ids traces. case_exact t steps \<and> jget ''id'' t = Inr (JStr s) \<and> s \<noteq> [] \<and> s \<notin> set seen
       \<and> list_all2 case_exact ts traces \<and> mapE (jget ''id'') ts = Inr (map JStr ids)
        \<and> [] \<notin> set ids \<and> distinct ids \<and> set ids \<inter> set (s # seen) = {} \<and> n = length steps + sum_list (map length traces)"
      by (auto simp: list_all2_Cons1 bindE_Inr_iff Cons_eq_map_conv) blast
  qed
  finally show ?case .
qed

text \<open>C25: Validation accepts a conversation corpus exactly when it is well formed, holds between one and 4096 cases,
  every case is well formed and its recomputed trace is the expected one with the same JSON types and values (Python's equality
  alone would take True for 1), and the identities are non-empty texts, no two alike; it returns the number of steps replayed.\<close>
theorem conv_validate_exact:
  "conv_validate corpus = Inr n \<longleftrightarrow>
     shape corpus [''schema_version'', ''protocol'', ''cases''] = Inr ()
     \<and> jget ''schema_version'' corpus = Inr (JInt 1)
     \<and> jget ''protocol'' corpus = Inr (jtext ''classic S7 primitive conversation histories'')
     \<and> (\<exists>tests ids traces. jget ''cases'' corpus = Inr (JArr tests) \<and> 1 \<le> length tests \<and> length tests \<le> 4096
          \<and> list_all2 case_exact tests traces \<and> mapE (jget ''id'') tests = Inr (map JStr ids)
          \<and> [] \<notin> set ids \<and> distinct ids \<and> n = sum_list (map length traces))"
  unfolding conv_validate_def corpus_header_def corpus_cases_def bindE_Inr_iff guardE_Inr_iff arr_of_Inr_iff conv_cases_iff
  by auto

section \<open>A corpus\<close>

definition ex_retry :: json where
  "ex_retry = JObj [(''operation'', jtext ''retry''), (''safety'', jtext ''read-only''),
     (''allow_potentially_mutating'', JBool False), (''error_kind'', jtext ''timeout''), (''remaining'', JInt 1)]"

definition ex_expected :: json where
  "ex_expected = JArr [JObj [(''result'', JObj [(''status'', jtext ''accept''), (''permitted'', JBool True)]),
     (''snapshot'', JObj [(''attempts'', JArr []), (''lifecycle'', jtext ''connected'')])]]"

definition ex_corpus :: json where
  "ex_corpus = JObj [(''schema_version'', JInt 1), (''protocol'', jtext ''classic S7 primitive conversation histories''),
     (''cases'', JArr [JObj [(''id'', jtext ''one''), (''seed'', JInt 7), (''events'', JArr [ex_retry]),
       (''expected_trace'', ex_expected)]])]"

lemma ex_retry_trace: "trace (JArr [ex_retry]) = Inr [\<lparr>step_result = Permitted True, step_lifecycle = Connected, step_attempts = []\<rparr>]"
  by (simp add: trace_def ex_retry_def read_defs error_kinds_def insert_commute conv_init_def retry_permitted_def retryable_def
      snapshot_def show_attempts_def parse_retry_def)

lemma ex_expectation: "expectation ex_expected = Inr ()"
  by (simp add: expectation_def ex_expected_def eachE_def expected_step_def expected_snapshot_def expected_result_def shape_def
      insert_commute)

lemma ex_corpus_valid: "conv_validate ex_corpus = Inr 1"
  using ex_retry_trace ex_expectation
  by (simp add: conv_validate_def ex_corpus_def corpus_header_def corpus_cases_def conv_case_def identity_def shape_def
      insert_commute trace_json_def step_json_def attempts_json_def ex_expected_def ascii_def)

theorem conv_validate_exact_witness:
  "\<exists>tests traces. jget ''cases'' ex_corpus = Inr (JArr tests) \<and> list_all2 case_exact tests traces
     \<and> sum_list (map length traces) = 1"
  using ex_corpus_valid unfolding conv_validate_exact by auto

end
