(* ===== verification/Edits.thy ===== *)
theory Edits
  imports Corpora "HOL-Library.AList"
begin

text \<open>
  What the scripts' self tests have in common: a copy of the corpus, changed at one place, must not pass the check. A change is a
  path into the document and what is done there; an exception that the test does not expect escapes, and a copy that passes is an
  \<^verbatim>\<open>AssertionError\<close>.
\<close>

section \<open>Changing a document\<close>

datatype place = Key string | Nth nat

fun jput :: "string \<Rightarrow> json \<Rightarrow> json \<Rightarrow> json result" where
  "jput k y (JObj kvs) = Inr (JObj (AList.update k y kvs))"
| "jput k y _ = Inl TypeError"

fun jnth :: "nat \<Rightarrow> json \<Rightarrow> json result" where
  "jnth i (JArr xs) = (if i < length xs then Inr (xs ! i) else Inl IndexError)"
| "jnth i (JObj _) = Inl KeyError"
| "jnth i _ = Inl TypeError"

fun jset_nth :: "nat \<Rightarrow> json \<Rightarrow> json \<Rightarrow> json result" where
  "jset_nth i y (JArr xs) = (if i < length xs then Inr (JArr (xs[i := y])) else Inl IndexError)"
| "jset_nth i y _ = Inl TypeError"

text \<open>\<^verbatim>\<open>document[a][b]\<close> and so on, then \<open>f\<close> there.\<close>

fun edit :: "place list \<Rightarrow> (json \<Rightarrow> json result) \<Rightarrow> json \<Rightarrow> json result" where
  "edit [] f v = f v"
| "edit (Key k # p) f v = bindE (jget k v) (\<lambda>x. bindE (edit p f x) (\<lambda>y. jput k y v))"
| "edit (Nth i # p) f v = bindE (jnth i v) (\<lambda>x. bindE (edit p f x) (\<lambda>y. jset_nth i y v))"

text \<open>\<^verbatim>\<open>... ^= 1\<close>, \<^verbatim>\<open>.append\<close> and \<^verbatim>\<open>.pop()\<close>.\<close>

fun flip_low :: "json \<Rightarrow> json result" where
  "flip_low (JInt i) = Inr (JInt (xor i 1))"
| "flip_low (JBool b) = Inr (JInt (if b then 0 else 1))"
| "flip_low _ = Inl TypeError"

fun append_to :: "json \<Rightarrow> json \<Rightarrow> json result" where
  "append_to x (JArr xs) = Inr (JArr (xs @ [x]))"
| "append_to x _ = Inl AttributeError"

fun drop_final :: "json \<Rightarrow> json result" where
  "drop_final (JArr xs) = (if xs = [] then Inl IndexError else Inr (JArr (butlast xs)))"
| "drop_final _ = Inl AttributeError"

section \<open>The test\<close>

definition must_reject :: "(json \<Rightarrow> 'a result) \<Rightarrow> exn list \<Rightarrow> json \<Rightarrow> (json \<Rightarrow> json result) \<Rightarrow> unit result" where
  "must_reject check caught corpus change =
     bindE (change corpus) (\<lambda>changed. case check changed of
       Inr _ \<Rightarrow> Inl AssertionError
     | Inl e \<Rightarrow> if e \<in> set caught then Inr () else Inl e)"

lemma must_reject_iff:
  assumes "\<And>c e. check c = Inl e \<Longrightarrow> e \<in> set caught"
  shows "must_reject check caught corpus change = Inr () \<longleftrightarrow> (\<exists>changed. change corpus = Inr changed \<and> (\<forall>a. check changed \<noteq> Inr a))"
proof (cases "change corpus")
  case (Inr changed)
  then show ?thesis using assms[of changed] by (cases "check changed") (auto simp: must_reject_def)
qed (simp add: must_reject_def)

text \<open>Assigning to a key that is there keeps the keys.\<close>

lemma keys_update: "k \<in> fst ` set kvs \<Longrightarrow> fst ` set (AList.update k y kvs) = fst ` set kvs"
  by (simp add: dom_update insert_absorb)

lemma edit_key:
  "map_of kvs k = Some x \<Longrightarrow> edit p f x = Inr y \<Longrightarrow> edit (Key k # p) f (JObj kvs) = Inr (JObj (AList.update k y kvs))"
  by simp

lemma edit_nth: "i < length xs \<Longrightarrow> edit p f (xs ! i) = Inr y \<Longrightarrow> edit (Nth i # p) f (JArr xs) = Inr (JArr (xs[i := y]))"
  by simp

end
