(* ===== verification/Session_Wire.thy ===== *)
theory Session_Wire
  imports Session
begin

text \<open>
  The two response decoders against the fixture encoder: what
  \<^verbatim>\<open>session_conformance._response\<close> builds is read back by \<^verbatim>\<open>response\<close> and by
  \<^verbatim>\<open>sequence_conformance.decode_multi\<close>; and the runs that witness the session properties.
\<close>

section \<open>Responses read back\<close>

lemma item_step:
  assumes "offset + 4 + n \<le> length data" "data ! offset = 255" "data ! (offset + 1) = 4"
    and "nat (be_int (slice (offset + 2) (offset + 4) data)) = n * 8"
    and "again \<and> odd n \<Longrightarrow> offset + 4 + n < length data"
    and "int n = mr_count item"
  shows "read_item data offset item again
      = Inr (ItemSuccess (Some (slice (offset + 4) (offset + 4 + n) data)),
             offset + 4 + n + (if again \<and> odd n then 1 else 0))"
    and "item = loc_range l \<Longrightarrow> again = (rest \<noteq> []) \<Longrightarrow> response_items data offset (l # rest)
      = response_items data (offset + 4 + n + (if again \<and> odd n then 1 else 0)) rest"
proof -
  have a: "\<not> offset + 4 > length data" "(4 :: byte) \<noteq> 9" "\<not> offset + 4 + n > length data" "n * 8 div 8 = n"
    "n * 8 mod 8 = 0"
    using assms(1) by simp_all
  have b: "\<not> (again \<and> odd n \<and> offset + 4 + n \<ge> length data)"
    "\<not> (again \<and> odd n \<and> offset + 4 + n = length data)"
    using assms(5) by auto
  show "read_item data offset item again
      = Inr (ItemSuccess (Some (slice (offset + 4) (offset + 4 + n) data)),
             offset + 4 + n + (if again \<and> odd n then 1 else 0))"
    using a b assms(2-4,6) by (simp only: read_item_def Let_def outcome_item_def) simp
  show "item = loc_range l \<Longrightarrow> again = (rest \<noteq> []) \<Longrightarrow> response_items data offset (l # rest)
      = response_items data (offset + 4 + n + (if again \<and> odd n then 1 else 0)) rest"
    using a b assms(2-4,6) by (cases "rest \<noteq> [] \<and> odd n") (simp_all only: response_items.simps Let_def, auto)
qed

lemma response_items_fixture:
  assumes "read_items (List.map loc_range locs) = Inr bs" "\<forall>l \<in> set locs. 0 \<le> mr_count (loc_range l)"
  shows "response_items (pre @ bs) (length pre) locs = Some (length pre + length bs)"
    and "decode_items False (pre @ bs) (length pre) (List.map loc_range locs)
      = Inr (List.map (\<lambda>l. ItemSuccess (Some (payload (loc_range l)))) locs, length pre + length bs)"
  using assms
proof (induction locs arbitrary: pre bs)
  case Nil
  { case 1 then show ?case by simp }
  { case 2 then show ?case by simp }
next
  case (Cons l rest)
  define item where "item = loc_range l"
  define sz where "sz = nat (mr_count item)"
  define pad where "pad = (if rest \<noteq> [] \<and> odd sz then [0 :: byte] else [])"
  define tail where "tail = (THE t. read_items (List.map loc_range rest) = Inr t)"
  define hd' where "hd' = [0xff, 4] @ be_bytes 2 (int sz * 8) @ payload item @ pad"
  have bs: "read_items (List.map loc_range rest) = Inr tail \<and> bs = hd' @ tail \<and> int sz * 8 < 65536"
    if "read_items (List.map loc_range (l # rest)) = Inr bs" for bs
    using that by (auto simp: Let_def len_def hd'_def pad_def sz_def item_def tail_def simp del: be_bytes_numeral)
  have szi: "int sz = mr_count item" if "\<forall>l \<in> set (l # rest). 0 \<le> mr_count (loc_range l)"
    using that by (simp add: sz_def item_def)
  have lp: "length (payload item) = sz" by (simp add: sz_def)
  have lh: "length hd' = 4 + sz + length pad" by (simp add: hd'_def sz_def)
  have facts: "(p @ hd' @ t) ! length p = 0xff" "(p @ hd' @ t) ! (length p + 1) = 4"
    "slice (length p + 2) (length p + 4) (p @ hd' @ t) = be_bytes 2 (int sz * 8)"
    "slice (length p + 4) (length p + 4 + sz) (p @ hd' @ t) = payload item"
    "length p + 4 + sz \<le> length (p @ hd' @ t)"
    "rest \<noteq> [] \<and> odd sz \<Longrightarrow> length p + 4 + sz < length (p @ hd' @ t)"
    "length p + 4 + sz + (if rest \<noteq> [] \<and> odd sz then 1 else 0) = length (p @ hd')" for p t
    by (simp_all add: hd'_def nth_append slice_def lp pad_def del: be_bytes_numeral payload_length)
  have len8: "int sz * 8 < 65536 \<Longrightarrow> nat (be_int (be_bytes 2 (int sz * 8))) = sz * 8"
    by (simp add: be_int_2 del: be_bytes_numeral)
  { case (1 pre bs)
    note b = bs[OF 1(1)] and szi = szi[OF 1(2)]
    have "response_items (pre @ hd' @ tail) (length pre) (l # rest) = response_items (pre @ hd' @ tail) (length (pre @ hd')) rest"
      unfolding facts(7)[of pre, symmetric]
      by (rule item_step(2)[where item = item and again = "rest \<noteq> []"])
        (use facts(1-6)[of pre tail] len8 szi b in \<open>simp_all only: item_def simp_thms\<close>)
    also have "\<dots> = Some (length (pre @ hd') + length tail)"
      using Cons.IH(1)[of tail "pre @ hd'"] b 1(2) by simp
    finally show ?case using b by simp }
  { case (2 pre bs)
    note b = bs[OF 2(1)] and szi = szi[OF 2(2)]
    have "read_item (pre @ hd' @ tail) (length pre) item (rest \<noteq> [])
        = Inr (ItemSuccess (Some (payload item)), length (pre @ hd'))"
      unfolding facts(7)[of pre, symmetric] facts(4)[of pre tail, symmetric]
      by (rule item_step(1)) (use facts(1-6)[of pre tail] len8 szi b in \<open>simp_all only: simp_thms\<close>)
    moreover have "decode_items False (pre @ hd' @ tail) (length (pre @ hd')) (List.map loc_range rest)
        = Inr (List.map (\<lambda>l. ItemSuccess (Some (payload (loc_range l)))) rest, length (pre @ hd') + length tail)"
      using Cons.IH(2)[of tail "pre @ hd'"] b 2(2) by simp
    ultimately show ?case using b by (simp add: item_def) }
qed

lemma response_packet:
  assumes "packet 3 reference parameters data = Inr pdu"
  shows "length pdu = 12 + length parameters + length data" "pdu ! 0 = 0x32" "pdu ! 1 = 3"
    "be_int (slice 4 6 pdu) = reference" "nat (be_int (slice 6 8 pdu)) = length parameters"
    "nat (be_int (slice 8 10 pdu)) = length data" "pdu ! 10 = 0" "pdu ! 11 = 0"
    "slice 12 (12 + length parameters) pdu = parameters" "drop (12 + length parameters) pdu = data"
proof -
  note sec = sections_packet[OF assms]
  note sp = sections_split[OF sec]
  show l: "length pdu = 12 + length parameters + length data" using packet_length[OF assms] by simp
  show ref: "be_int (slice 4 6 pdu) = reference" by (rule sp(4))
  have zero: "slice 10 12 pdu = [0, 0]" using sp(5) by simp
  have idx: "slice 10 12 pdu ! 0 = pdu ! 10" "slice 10 12 pdu ! 1 = pdu ! 11"
    using l unfolding slice_def by (subst nth_take, simp, subst nth_drop, simp, simp)+
  from idx show "pdu ! 10 = 0" "pdu ! 11 = 0" unfolding zero by simp_all
  have hd4: "bytes_of [0x32, 3, 0, 0] = Inr (take 4 pdu)" using sp(6) by simp
  have "take 4 pdu = [0x32, 3, 0, 0]" using hd4 by (simp add: bytes_of_Inr_iff byte_def)
  then have "take 4 pdu ! 0 = 0x32" "take 4 pdu ! 1 = 3" by simp_all
  then show "pdu ! 0 = 0x32" "pdu ! 1 = 3" by simp_all
  show p: "nat (be_int (slice 6 8 pdu)) = length parameters"
    using sp(1,2) by (simp add: length_slice)
  show d: "nat (be_int (slice 8 10 pdu)) = length data"
    using sp(1) l p by simp
  show "slice 12 (12 + length parameters) pdu = parameters" using sp(2) p by simp
  show "drop (12 + length parameters) pdu = data" using sp(3) p by simp
qed

lemma decode_replicate:
  "decode_items True (pre @ replicate (length ranges) 255) (length pre) ranges
     = Inr (replicate (length ranges) (ItemSuccess None), length pre + length ranges)"
proof (induction ranges arbitrary: pre)
  case Nil
  show ?case by simp
next
  case (Cons item rest)
  from Cons[of "pre @ [255]"] show ?case
    by (simp add: write_item_def outcome_item_def nth_append)
qed

lemma request_counts:
  "request reference ranges w = Inr (Some pdu) \<Longrightarrow> \<forall>item \<in> set ranges. 0 \<le> mr_count item"
proof -
  assume "request reference ranges w = Inr (Some pdu)"
  then obtain specs where "concatE (List.map address ranges) = Inr specs"
    by (auto simp: request_def split: if_splits)
  then obtain xs where "list_all2 (\<lambda>item x. address item = Inr x) ranges xs"
    by (auto simp: concatE_Inr_iff list_all2_map1)
  then show ?thesis by (induction rule: list_all2_induct) (auto simp: address_count)
qed

text \<open>The well-formed fixture response of a configured session is decoded without error by the
  session decoder, and the sequence oracle's independent decoder reads exactly one successful item
  with the expected payload per configured location from the same bytes.\<close>

lemma fixture_response_accepted:
  assumes "configuration cfg = Inr c" and "fixture_response c None None = Inr pdu"
  shows "response c pdu = (None, if cf_write c then replicate (length (cf_locations c)) Success else [])
    \<and> decode_multi \<lparr>ex_reference = cf_reference c, ex_write = cf_write c,
        ex_ranges = List.map loc_range (cf_locations c), ex_request_pdu = [], ex_response_pdu = pdu\<rparr>
      = Inr (List.map (\<lambda>l. ItemSuccess (if cf_write c then None else Some (payload (loc_range l)))) (cf_locations c))"
proof -
  define ranges where "ranges = List.map loc_range (cf_locations c)"
  define n where "n = length (cf_locations c)"
  obtain rq where "request (cf_reference c) ranges (cf_write c) = Inr (Some rq)"
    using configuration_ok(5)[OF assms(1)] ranges_def by blast
  then have cnt: "\<forall>l \<in> set (cf_locations c). 0 \<le> mr_count (loc_range l)"
    using request_counts by (fastforce simp: ranges_def)
  have n: "1 \<le> n" "n \<le> 20" using configuration_ok(3,4)[OF assms(1)] by (cases "cf_locations c"; simp add: n_def)+
  have lr: "length ranges = n" by (simp add: ranges_def n_def)
  define hd' where "hd' = [if cf_write c then 5 else 4 :: byte, byte (int n)]"
  have hd': "bytes_of [if cf_write c then 5 else 4, len ranges] = Inr hd'"
    using n by (simp add: bytes_of_Inr_iff hd'_def ranges_def n_def[symmetric] len_def byte_def)
  obtain data where data: "(if cf_write c then Inr (replicate n 0xff) else read_items ranges) = Inr data"
    and pdu: "packet 3 (cf_reference c) hd' data = Inr pdu"
    using assms(2) hd' lr unfolding fixture_response_def Let_def ranges_def[symmetric] by auto
  note rp = response_packet[OF pdu]
  have l2: "length hd' = 2" by (simp add: hd'_def)
  have body: "if cf_write c then data = replicate n 0xff
      else response_items data 0 (cf_locations c) = Some (length data)
        \<and> decode_items False data 0 ranges
          = Inr (List.map (\<lambda>l. ItemSuccess (Some (payload (loc_range l)))) (cf_locations c), length data)"
    using data response_items_fixture[of "cf_locations c" data "[]"] cnt by (auto simp: ranges_def)
  have "response c pdu = (None, if cf_write c then replicate (length (cf_locations c)) Success else [])"
    using body rp by (simp add: response_def Let_def l2 n_def[symmetric] hd'_def code_outcome_def split: if_split_asm)
  moreover have "decode_items (cf_write c) data 0 ranges
      = Inr (List.map (\<lambda>l. ItemSuccess (if cf_write c then None else Some (payload (loc_range l)))) (cf_locations c),
             length data)"
    using body decode_replicate[of "[]" ranges]
    by (auto simp: ranges_def n_def map_replicate_const split: if_split_asm)
  then have "decode_multi \<lparr>ex_reference = cf_reference c, ex_write = cf_write c,
        ex_ranges = List.map loc_range (cf_locations c), ex_request_pdu = [], ex_response_pdu = pdu\<rparr>
      = Inr (List.map (\<lambda>l. ItemSuccess (if cf_write c then None else Some (payload (loc_range l)))) (cf_locations c))"
    using sections_packet[OF pdu] hd'
    by (simp add: decode_multi_def function_code_def ranges_def[symmetric])
  ultimately show ?thesis by blast
qed

section \<open>A session\<close>

definition ex_config :: json where
  "ex_config = JObj [(''write'', JBool True), (''safety'', jtext ''potentially-mutating''),
     (''allow_potentially_mutating'', JBool True), (''budget'', JInt 1), (''reference'', JInt 7),
     (''locations'', JArr [ex_location]),
     (''request_pdu'', JArr (List.map JInt [50,1,0,0,0,7,0,14,0,6,5,1,18,10,16,2,0,2,0,1,132,0,0,80,0,4,0,16,70,99]))]"

definition ex_conf :: config where
  "ex_conf = \<lparr>cf_write = True, cf_allow = True, cf_budget = 1, cf_reference = 7, cf_locations = [ex_loc]\<rparr>"

definition simple_event :: "string \<Rightarrow> json" where
  "simple_event name = JObj [(''operation'', jtext name)]"

definition ex_session_events :: "json list" where
  "ex_session_events = [simple_event ''begin'', simple_event ''send'',
     JObj [(''operation'', jtext ''failure''), (''error_kind'', jtext ''timeout'')],
     simple_event ''reconnect-setup'', simple_event ''reconnected'', simple_event ''send'',
     JObj [(''operation'', jtext ''response''),
       (''response_pdu'', JArr (List.map JInt [50,3,0,0,0,7,0,2,0,1,0,0,5,1,255]))]]"

definition ex_sevents :: "sevent list" where
  "ex_sevents = [Begin, SendRequest, FailureEvent Timeout, ReconnectSetup, ReconnectedEvent, SendRequest,
     ResponseEvent [50,3,0,0,0,7,0,2,0,1,0,0,5,1,255]]"

lemma ex_configuration: "configuration ex_config = Inr ex_conf"
  using ex_request
  by (simp add: configuration_def ex_config_def ex_conf_def read_defs ex_location_def ex_range_def
      ex_loc_def ex_pdu_def byte_def insert_commute)

lemma ex_session_read: "mapE parse_sevent ex_session_events = Inr ex_sevents"
  by (simp add: ex_session_events_def ex_sevents_def simple_event_def parse_sevent_def parse_failure_def
      parse_response_def read_defs error_kinds_def byte_def insert_commute)

definition ex_response :: bytes where
  "ex_response = [50,3,0,0,0,7,0,2,0,1,0,0,5,1,255]"

lemma ex_fixture: "fixture_response ex_conf None None = Inr ex_response"
  by (simp add: fixture_response_def ex_conf_def ex_loc_def ex_response_def bytes_of_def packet_def
      pack_def byte_def)

definition ex_step :: "sverdict \<Rightarrow> lifecycle \<Rightarrow> int \<Rightarrow> int option \<Rightarrow> phase \<Rightarrow> int \<Rightarrow> outcome list \<Rightarrow> sstep" where
  "ex_step v l r a p n os = \<lparr>st_result = v, st_lifecycle = l, st_remaining = r, st_active = a, st_phase = p,
     st_sends = n, st_attempts = List.map (Pair ex_loc) os\<rparr>"

definition ex_session_steps :: "sstep list" where
  "ex_session_steps =
    [ex_step SAccepted Connected 1 (Some 7) Ready 0 [],
     ex_step SAccepted Connected 1 (Some 7) Awaiting 1 [Pending],
     ex_step (SRetry True) Disconnected 0 (Some 7) ReconnectCotp 1 [ReplayedUnknown],
     ex_step SAccepted Disconnected 0 (Some 7) ReconnectSetupPhase 1 [ReplayedUnknown],
     ex_step SAccepted Connected 0 (Some 7) Ready 1 [ReplayedUnknown],
     ex_step SAccepted Connected 0 (Some 7) Awaiting 2 [ReplayedUnknown, Pending],
     ex_step SAccepted Connected 0 None Completed 2 [ReplayedUnknown, Success]]"

lemma ex_response_read: "response ex_conf ex_response = (None, [Success])"
  by (simp add: response_def ex_conf_def ex_response_def slice_def byte_def code_outcome_def)

fun srun :: "config \<Rightarrow> sess \<Rightarrow> sevent list \<Rightarrow> sstep list result" where
  "srun c s [] = Inr []"
| "srun c s (ev # evs) = bindE (sess_step c s ev) (\<lambda>(s', out).
     bindE (srun c s' evs) (\<lambda>rest. Inr (sess_snapshot out s' # rest)))"

lemma strace_run: "mapE parse_sevent es = Inr evs \<Longrightarrow> strace_from c s es = srun c s evs"
  by (induction es arbitrary: evs s) auto

lemma ex_srun: "srun ex_conf sess_init ex_sevents = Inr ex_session_steps"
  using ex_response_read
  by (simp add: ex_conf_def ex_sevents_def ex_response_def sess_init_def ex_session_steps_def ex_step_def
      sess_snapshot_def show_attempts_def fail_def fail_permitted_def retryable_def finish_all_def finish_def)

lemma ex_strace: "strace ex_config (JArr ex_session_events) = Inr ex_session_steps"
  using ex_configuration strace_run[OF ex_session_read] ex_srun
  by (simp add: strace_def) (simp add: ex_session_events_def)

theorem session_trace_total_witness:
  "\<exists>steps. strace ex_config (JArr ex_session_events) = Inr steps \<and> length steps = length ex_session_events"
  by (rule session_trace_total[OF ex_configuration ex_session_read]) (simp_all add: ex_session_events_def)

theorem session_budget_witness:
  "st_sends (ex_session_steps ! 6) + st_remaining (ex_session_steps ! 6) \<le> 2"
  using session_budget[OF ex_configuration ex_strace, of "ex_session_steps ! 6"]
  by (simp add: ex_session_steps_def ex_step_def ex_conf_def)

theorem session_provenance_witness:
  "List.map fst (st_attempts (ex_session_steps ! 6)) = [ex_loc, ex_loc]
     \<and> snd (st_attempts (ex_session_steps ! 6) ! 0) = ReplayedUnknown"
  using session_provenance[OF ex_configuration ex_strace, of "ex_session_steps ! 6"]
  by (simp add: ex_session_steps_def ex_step_def ex_conf_def numeral_2_eq_2)

lemma fixture_response_accepted_example:
  "response ex_conf ex_response = (None, [Success])
    \<and> decode_multi \<lparr>ex_reference = 7, ex_write = True, ex_ranges = [loc_range ex_loc],
         ex_request_pdu = [], ex_response_pdu = ex_response\<rparr> = Inr [ItemSuccess None]"
  using fixture_response_accepted[OF ex_configuration ex_fixture] by (simp add: ex_conf_def)

end
