(* ===== verification/Fuzz.thy ===== *)
theory Fuzz
  imports Session_Wire Peers Corpora
begin

text \<open>
  \<^verbatim>\<open>integration/session_fuzz.py\<close>: the generator of session histories, which steers by the
  phase the session oracle reports, the replies it mutates with the verdict each mutation earns, and
  the check of a replay artifact. A generator is a program over the stream of draws.
\<close>

section \<open>Draws as a state\<close>

type_synonym 'a gen = "(draws, 'a) prog"

definition draw :: "int \<Rightarrow> int \<Rightarrow> int gen" where
  "draw lo hi d = (Inr (randrange lo hi (d 0)), rest_of 1 d)"

definition pick :: "'a list \<Rightarrow> 'a gen" where
  "pick xs d = (Inr (choice_of xs (d 0)), rest_of 1 d)"

section \<open>Replies\<close>

fun reply_items :: "bool \<Rightarrow> location list \<Rightarrow> bytes gen" where
  "reply_items w [] = ret []"
| "reply_items w (item # rest) =
     bindM (pick [255, 255, 5, 10, 0]) (\<lambda>code.
     bindM (if w then ret [byte code]
            else
              bindM (if code = 255 then ret (payload (loc_range item)) else pick [[], [0xaa]]) (\<lambda>content.
              bindM (if code = 255 then ret 4 else pick [4, 9]) (\<lambda>transport.
              bindM (liftE (pack 2 (len content * (if transport = 9 then 1 else 8)))) (\<lambda>size.
                ret ([byte code, byte transport] @ size @ content
                     @ (if rest \<noteq> [] \<and> odd (length content) then [0] else [])))))) (\<lambda>entry.
     bindM (reply_items w rest) (\<lambda>tail. ret (entry @ tail))))"

text \<open>\<^verbatim>\<open>pdu[i] = v\<close> on a bytearray, and an element changed in place.\<close>

definition put :: "nat \<Rightarrow> int \<Rightarrow> bytes \<Rightarrow> bytes result" where
  "put i v pdu =
     (if length pdu \<le> i then Inl IndexError
      else if 0 \<le> v \<and> v < 256 then Inr (pdu[i := byte v]) else Inl ValueError)"

definition change :: "nat \<Rightarrow> (int \<Rightarrow> int) \<Rightarrow> bytes \<Rightarrow> bytes result" where
  "change i f pdu = bindE (at pdu i) (\<lambda>b. put i (f (uint b)) pdu)"

definition splice :: "nat \<Rightarrow> nat \<Rightarrow> bytes \<Rightarrow> bytes \<Rightarrow> bytes" where
  "splice i j mid pdu = take i pdu @ mid @ drop (max i j) pdu"

definition mutate :: "config \<Rightarrow> int \<Rightarrow> bytes \<Rightarrow> bytes gen" where
  "mutate c mutation pdu =
     (if mutation = 1 then liftE (change 0 (\<lambda>v. xor v 1) pdu)
      else if mutation = 2 then liftE (put 1 7 pdu)
      else if mutation = 3 then liftE (change 4 (\<lambda>v. xor v 1) pdu)
      else if mutation = 4 then liftE (put 12 (if cf_write c then 4 else 5) pdu)
      else if mutation = 5 then liftE (change 13 (\<lambda>v. v + 1) pdu)
      else if mutation = 6 then
        (if pdu = [] then raise ValueError else bindM (draw 0 (len pdu)) (\<lambda>n. ret (take (nat n) pdu)))
      else if mutation = 7 then ret (pdu @ [0])
      else if mutation = 8 then liftE (change 7 (\<lambda>v. xor v 1) pdu)
      else if mutation = 9 then liftE (change 9 (\<lambda>v. xor v 1) pdu)
      else if mutation = 10 then ret (splice 10 12 [0x81, 4] pdu)
      else if mutation = 11 then liftE (put 1 2 pdu)
      else if mutation = 12 then ret (splice 2 4 [0xaa, 0xbb] pdu)
      else if mutation = 13 \<and> \<not> cf_write c then liftE (put 15 7 pdu)
      else if mutation = 14 \<and> \<not> cf_write c then liftE (change 17 (\<lambda>v. or v 1) pdu)
      else if mutation = 15 then ret (splice 8 10 [0, 0] (take 14 pdu))
      else ret pdu)"

definition reply_pdu :: "config \<Rightarrow> bytes gen" where
  "reply_pdu c =
     bindM (reply_items (cf_write c) (cf_locations c)) (\<lambda>data.
     bindM (liftE (bytes_of [if cf_write c then 5 else 4, len (cf_locations c)])) (\<lambda>parameters.
     liftE (packet 3 (cf_reference c) parameters data)))"

definition fuzz_reply :: "config \<Rightarrow> int \<Rightarrow> sevent gen" where
  "fuzz_reply c mutation =
     bindM (reply_pdu c) (\<lambda>pdu. bindM (mutate c mutation pdu) (\<lambda>bs. ret (ResponseEvent bs)))"

section \<open>The dictionaries\<close>

definition config_json :: "config \<Rightarrow> bytes \<Rightarrow> json" where
  "config_json c pdu = JObj [(''write'', JBool (cf_write c)),
     (''safety'', if cf_write c then jtext ''potentially-mutating'' else jtext ''read-only''),
     (''allow_potentially_mutating'', JBool (cf_allow c)), (''budget'', JInt (cf_budget c)),
     (''reference'', JInt (cf_reference c)), (''locations'', JArr (List.map location_json (cf_locations c))),
     (''request_pdu'', byte_list pdu)]"

fun kind_name :: "error_kind \<Rightarrow> string" where
  "kind_name InvalidInput = ''invalid-input''"
| "kind_name ProtocolError = ''protocol''"
| "kind_name PlcRejected = ''plc-rejected''"
| "kind_name Timeout = ''timeout''"
| "kind_name DisconnectedError = ''disconnected''"
| "kind_name LifecycleError = ''lifecycle''"
| "kind_name TransportError = ''transport''"
| "kind_name OtherError = ''other''"

fun event_json :: "sevent \<Rightarrow> json" where
  "event_json Begin = JObj [(''operation'', jtext ''begin'')]"
| "event_json SendRequest = JObj [(''operation'', jtext ''send'')]"
| "event_json (FailureEvent k) = JObj [(''operation'', jtext ''failure''), (''error_kind'', jtext (kind_name k))]"
| "event_json (ResponseEvent pdu) = JObj [(''operation'', jtext ''response''), (''response_pdu'', byte_list pdu)]"
| "event_json ReconnectSetup = JObj [(''operation'', jtext ''reconnect-setup'')]"
| "event_json ReconnectedEvent = JObj [(''operation'', jtext ''reconnected'')]"
| "event_json DisconnectEvent = JObj [(''operation'', jtext ''disconnect'')]"

section \<open>The generator\<close>

fun fuzz_locations :: "nat \<Rightarrow> location list \<Rightarrow> location list gen" where
  "fuzz_locations 0 locs = ret locs"
| "fuzz_locations (Suc n) locs =
     bindM (pick [0, 1, 65535]) (\<lambda>db. bindM (draw 0 128) (\<lambda>first. bindM (draw 1 8) (\<lambda>cnt.
     bindM (if locs = [] then ret False else bindM (draw 0 3) (\<lambda>x. ret (x = 0))) (\<lambda>again.
     bindM (if again then bindM (pick locs) (\<lambda>l. ret (loc_range l))
            else ret \<lparr>mr_db = db, mr_start = first, mr_count = cnt\<rparr>) (\<lambda>memory.
     bindM (draw 0 8) (\<lambda>off.
     fuzz_locations n (locs @ [\<lparr>loc_range = memory, loc_item = Some (len locs), loc_offset = off\<rparr>])))))))"

definition fuzz_config :: "(config \<times> bytes) gen" where
  "fuzz_config =
     bindM (draw 0 2) (\<lambda>w. bindM (draw 1 7) (\<lambda>n. bindM (fuzz_locations (nat n) []) (\<lambda>locs.
     bindM (draw 0 2) (\<lambda>allow. bindM (draw 0 5) (\<lambda>budget. bindM (draw 0 65536) (\<lambda>x.
     bindM (pick [0, 65535, x]) (\<lambda>reference.
     bindM (liftE (request reference (List.map loc_range locs) (w \<noteq> 0))) (\<lambda>encoded.
     case encoded of
       None \<Rightarrow> raise TypeError
     | Some pdu \<Rightarrow> ret (\<lparr>cf_write = (w \<noteq> 0), cf_allow = (allow \<noteq> 0), cf_budget = budget,
                         cf_reference = reference, cf_locations = locs\<rparr>, pdu)))))))))"

definition steered :: "config \<Rightarrow> phase \<Rightarrow> sevent gen" where
  "steered c ph = (case ph of
     Awaiting \<Rightarrow> bindM (draw 0 2) (\<lambda>r.
       if r \<noteq> 0 then bindM (draw 0 16) (fuzz_reply c)
       else bindM (pick [Timeout, TransportError, DisconnectedError, ProtocolError, PlcRejected]) (\<lambda>k. ret (FailureEvent k)))
   | Ready \<Rightarrow> ret SendRequest
   | ReconnectCotp \<Rightarrow> bindM (draw 0 2) (\<lambda>r.
       if r \<noteq> 0 then ret ReconnectSetup
       else bindM (pick [Timeout, TransportError, DisconnectedError]) (\<lambda>k. ret (FailureEvent k)))
   | ReconnectSetupPhase \<Rightarrow> bindM (draw 0 2) (\<lambda>r.
       if r \<noteq> 0 then ret ReconnectedEvent
       else bindM (pick [Timeout, TransportError, DisconnectedError]) (\<lambda>k. ret (FailureEvent k)))
   | _ \<Rightarrow> ret Begin)"

definition unsteered :: "config \<Rightarrow> sevent gen" where
  "unsteered c =
     bindM (pick [''begin'', ''send'', ''failure'', ''response'', ''reconnect-setup'', ''reconnected'', ''disconnect'']) (\<lambda>operation.
     if operation = ''response'' then bindM (draw 0 16) (fuzz_reply c)
     else ret (if operation = ''begin'' then Begin else if operation = ''send'' then SendRequest
               else if operation = ''failure'' then FailureEvent Timeout
               else if operation = ''reconnect-setup'' then ReconnectSetup
               else if operation = ''reconnected'' then ReconnectedEvent else DisconnectEvent))"

definition fuzz_event :: "config \<Rightarrow> phase \<Rightarrow> sevent gen" where
  "fuzz_event c ph =
     bindM (if ph \<in> {Awaiting, ReconnectCotp, ReconnectSetupPhase, Ready, Idle, Completed}
            then bindM (draw 0 5) (\<lambda>x. ret (x \<noteq> 0)) else ret False) (\<lambda>steer.
     if steer then steered c ph else unsteered c)"

fun fuzz_events :: "json \<Rightarrow> config \<Rightarrow> nat \<Rightarrow> sevent list \<Rightarrow> sevent list gen" where
  "fuzz_events cfg c 0 evs = ret evs"
| "fuzz_events cfg c (Suc n) evs =
     bindM (liftE (strace cfg (JArr (List.map event_json evs)))) (\<lambda>steps.
     bindM (fuzz_event c (st_phase (last steps))) (\<lambda>e. fuzz_events cfg c n (evs @ [e])))"

record fuzz_case =
  fz_seed :: int
  fz_index :: nat
  fz_config :: json
  fz_events :: "sevent list"

definition closing :: "sevent list" where
  "closing = [DisconnectEvent, Begin, SendRequest, ReconnectedEvent]"

definition fuzz_history :: "int \<Rightarrow> nat \<Rightarrow> fuzz_case gen" where
  "fuzz_history seed index =
     bindM fuzz_config (\<lambda>(c, pdu).
     let cfg = config_json c pdu in
     bindM (if index mod 4 \<in> {0, 2} then ret (FailureEvent DisconnectedError)
            else fuzz_reply c (if index mod 4 = 1 then int (index div 4 mod 16) else 0)) (\<lambda>third.
     bindM (draw 8 25) (\<lambda>n.
     bindM (fuzz_events cfg c (nat n) [Begin, SendRequest, third]) (\<lambda>evs.
     ret \<lparr>fz_seed = seed, fz_index = index, fz_config = cfg, fz_events = evs @ closing\<rparr>))))"

fun fuzz_generate :: "int \<Rightarrow> nat list \<Rightarrow> fuzz_case list gen" where
  "fuzz_generate seed [] = ret []"
| "fuzz_generate seed (index # rest) =
     bindM (fuzz_history seed index) (\<lambda>cs. bindM (fuzz_generate seed rest) (\<lambda>css. ret (cs # css)))"

definition generate_histories :: "int \<Rightarrow> nat \<Rightarrow> fuzz_case list gen" where
  "generate_histories seed cnt = fuzz_generate seed [0..<cnt]"

section \<open>Replay artifacts\<close>

definition case_json :: "fuzz_case \<Rightarrow> json" where
  "case_json cs = JObj [(''seed'', JInt (fz_seed cs)), (''case_index'', JInt (int (fz_index cs))),
     (''config'', fz_config cs), (''events'', JArr (List.map event_json (fz_events cs)))]"

definition replay_check :: "json \<Rightarrow> sstep list result" where
  "replay_check v =
     bindE (shape v [''seed'', ''case_index'', ''config'', ''events'']) (\<lambda>_.
     bindE (jget ''seed'' v) (\<lambda>s. bindE (integer s 0xFFFFFFFF) (\<lambda>_.
     bindE (jget ''case_index'' v) (\<lambda>i. bindE (integer i 4095) (\<lambda>_.
     bindE (jget ''config'' v) (\<lambda>cfg. bindE (configuration cfg) (\<lambda>_.
     bindE (jget ''events'' v) (\<lambda>e. bindE (arr_of e) (\<lambda>events.
     bindE (guardE (1 \<le> length events \<and> length events \<le> 128) ValueError) (\<lambda>_.
     strace cfg e))))))))))"

text \<open>\<^verbatim>\<open>compare\<close>: the canonical texts are equal exactly for the same types and values.\<close>

definition fuzz_compare :: "json \<Rightarrow> json \<Rightarrow> json \<Rightarrow> bool result" where
  "fuzz_compare cfg events observed = bindE (strace cfg events) (\<lambda>steps. Inr (same observed (strace_json steps)))"

section \<open>Whatever is drawn\<close>

text \<open>A generator that never raises and whose result satisfies \<open>P\<close>, for every stream of draws.\<close>

definition always :: "('a \<Rightarrow> bool) \<Rightarrow> 'a gen \<Rightarrow> bool" where
  "always P m \<longleftrightarrow> (\<forall>d. \<exists>a d'. m d = (Inr a, d') \<and> P a)"

lemma always_ret: "P a \<Longrightarrow> always P (ret a)"
  by (simp add: always_def ret_def)

lemma always_lift: "P a \<Longrightarrow> r = Inr a \<Longrightarrow> always P (liftE r)"
  by (simp add: always_def liftE_def)

lemma always_lift_eq: "r = Inr a \<Longrightarrow> always (\<lambda>x. x = a) (liftE r)"
  by (rule always_lift) simp_all

lemma always_bind: "always Q m \<Longrightarrow> (\<And>a. Q a \<Longrightarrow> always P (f a)) \<Longrightarrow> always P (bindM m f)"
  unfolding always_def bindM_def by (metis (no_types, lifting) case_prod_conv sum.simps(6))

lemma always_mono: "always Q m \<Longrightarrow> (\<And>a. Q a \<Longrightarrow> P a) \<Longrightarrow> always P m"
  unfolding always_def by metis

lemma always_both: "always P m \<Longrightarrow> always Q m \<Longrightarrow> always (\<lambda>a. P a \<and> Q a) m"
  unfolding always_def by (metis Pair_inject sum.inject(2))

lemma always_if: "(b \<Longrightarrow> always P m) \<Longrightarrow> (\<not> b \<Longrightarrow> always P n) \<Longrightarrow> always P (if b then m else n)"
  by simp

lemma always_draw: "lo < hi \<Longrightarrow> always (\<lambda>v. lo \<le> v \<and> v < hi) (draw lo hi)"
  by (auto simp: always_def draw_def randrange_bounds)

lemma always_pick: "xs \<noteq> [] \<Longrightarrow> always (\<lambda>v. v \<in> set xs) (pick xs)"
  by (auto simp: always_def pick_def choice_of_in)

lemma always_coin: "0 < hi \<Longrightarrow> always (\<lambda>_. True) (bindM (draw 0 hi) (\<lambda>x. ret (p x)))"
  by (rule always_bind[OF always_draw]) (auto intro: always_ret)

section \<open>Replies, whatever is drawn\<close>

definition small_config :: "config \<Rightarrow> bool" where
  "small_config c \<longleftrightarrow> 1 \<le> length (cf_locations c) \<and> length (cf_locations c) \<le> 6
     \<and> 0 \<le> cf_reference c \<and> cf_reference c < 65536
     \<and> list_all (\<lambda>l. 1 \<le> mr_count (loc_range l) \<and> mr_count (loc_range l) \<le> 7) (cf_locations c)"

text \<open>Reply data that the response decoder consumes to its end.\<close>

definition whole_items :: "bool \<Rightarrow> location list \<Rightarrow> bytes \<Rightarrow> bool" where
  "whole_items w locs bs \<longleftrightarrow> length bs \<le> 12 * length locs
     \<and> (if w then length bs = length locs
        else (\<forall>pre. response_items (pre @ bs) (length pre) locs = Some (length pre + length bs)))"

lemma item_entry:
  assumes "entry = [byte code, byte tp] @ be_bytes 2 (len content * (if tp = 9 then 1 else 8)) @ content
      @ (if rest \<noteq> [] \<and> odd (length content) then [0] else [])"
    and "tp \<in> {4, 9}" "code \<in> {255, 5, 10, 0}" "length content \<le> 7"
    and "code = 255 \<Longrightarrow> tp = 4 \<and> len content = mr_count (loc_range item)"
  shows "response_items (pre @ entry @ tail) (length pre) (item # rest)
    = response_items (pre @ entry @ tail) (length (pre @ entry)) rest"
proof -
  let ?n = "len content * (if tp = 9 then 1 else 8)"
  let ?data = "pre @ entry @ tail"
  have n: "0 \<le> ?n" "?n < 65536" using assms(4) by (auto simp: len_def)
  have s: "nat (be_int (slice (length pre + 2) (length pre + 4) ?data)) = nat ?n"
    using be_int_2[OF n] by (simp add: assms(1) slice_def del: be_bytes_numeral)
  have nat_n: "nat ?n = length content * (if tp = 9 then 1 else 8)" by (simp add: len_def nat_mult_distrib)
  have t: "?data ! (length pre + 1) = byte tp" "?data ! length pre = byte code"
    by (simp_all add: assms(1) nth_append)
  have t9: "byte tp = 9 \<longleftrightarrow> tp = 9" "byte tp = 4 \<longleftrightarrow> tp = 4"
    using assms(2) by (auto simp: byte_def)
  have c: "byte code = 255 \<longleftrightarrow> code = 255" using assms(3) by (auto simp: byte_def)
  have l: "length entry = 4 + length content + (if rest \<noteq> [] \<and> odd (length content) then 1 else 0)"
    by (simp add: assms(1) del: be_bytes_numeral)
  show ?thesis
    unfolding response_items.simps Let_def s t t9 c nat_n
    using assms(2,5) l by (auto simp: len_def ac_simps)
qed

lemma always_reply_items:
  "list_all (\<lambda>l. 1 \<le> mr_count (loc_range l) \<and> mr_count (loc_range l) \<le> 7) locs
    \<Longrightarrow> always (whole_items w locs) (reply_items w locs)"
proof (induction locs)
  case Nil
  show ?case by (auto intro!: always_ret simp: whole_items_def)
next
  case (Cons item rest)
  have IH: "always (whole_items w rest) (reply_items w rest)" using Cons by simp
  show ?case
  proof (cases w)
    case True
    show ?thesis
      unfolding reply_items.simps
      apply (rule always_bind[OF always_pick], simp)
      apply (rule always_bind[where Q = "\<lambda>entry. length entry = 1"])
       apply (simp add: True always_ret)
      apply (rule always_bind[OF IH], rule always_ret)
      apply (simp add: whole_items_def True)
      done
  next
    case False
    have count: "1 \<le> mr_count (loc_range item)" "mr_count (loc_range item) \<le> 7" using Cons.prems by simp_all
    show ?thesis
      unfolding reply_items.simps
      apply (rule always_bind[OF always_pick])
       apply simp
      apply (rule always_bind[where Q = "\<lambda>entry. length entry \<le> 12 \<and>
        (\<forall>pre tail. response_items (pre @ entry @ tail) (length pre) (item # rest)
           = response_items (pre @ entry @ tail) (length (pre @ entry)) rest)"])
      subgoal for code
        unfolding if_not_P[OF False]
        apply (rule always_bind[where Q = "\<lambda>content. length content \<le> 7 \<and> (code = 255 \<longrightarrow> len content = mr_count (loc_range item))"])
        subgoal
          using count always_pick[of "[[], [0xaa :: byte]]"] by (auto intro!: always_ret elim!: always_mono simp: len_def)
        subgoal for content
          apply (rule always_bind[where Q = "\<lambda>tp. tp \<in> {4, 9} \<and> (code = 255 \<longrightarrow> tp = 4)"])
          subgoal
            using always_pick[of "[4, 9 :: int]"] by (auto intro!: always_ret elim!: always_mono)
          subgoal for tp
            apply (rule always_bind[where Q = "\<lambda>sz. sz = be_bytes 2 (len content * (if tp = 9 then 1 else 8))"])
             apply (rule always_lift_eq)
             apply (auto simp: len_def simp del: be_bytes_numeral)[1]
            apply (rule always_ret)
            using item_entry[OF refl, where tp = tp and code = code and content = content and item = item and rest = rest]
            apply (auto simp del: be_bytes_numeral)
            done
          done
        done
      subgoal for code entry
        apply (rule always_bind[OF IH])
        apply (rule always_ret)
        unfolding whole_items_def if_not_P[OF False]
        apply (metis (no_types, lifting) append.assoc length_append length_Cons mult_Suc_right add_mono)
        done
      done
  qed
qed

definition body_verdict :: "config \<Rightarrow> bytes \<Rightarrow> error_kind option" where
  "body_verdict c data =
     (if cf_write c then (if length data \<noteq> length (cf_locations c) then Some ProtocolError else None)
      else (case response_items data 0 (cf_locations c) of
              None \<Rightarrow> Some ProtocolError
            | Some offset \<Rightarrow> if offset = length data then None else Some ProtocolError))"

text \<open>
  The verdict a mutation earns, from the untouched reply \<open>plain\<close>. Two mutations touch the first item of a read. The first makes
  its transport code 7, which a failed item may have unless its length is one octet. The second sets the lowest bit of its length:
  a length in bits is no multiple of eight then, a length of one octet stays, and an empty item in octets takes the first octet of the
  next item as content and the second as its padding, so that what follows is read from there.
\<close>

definition reply_verdict :: "config \<Rightarrow> int \<Rightarrow> bytes \<Rightarrow> error_kind option" where
  "reply_verdict c mutation plain =
     (if mutation \<in> {1, 2, 3, 4, 5, 6, 7, 8, 9, 15} then Some ProtocolError
      else if mutation = 10 then Some PlcRejected
      else if mutation = 13 \<and> \<not> cf_write c then
        (if plain ! 14 = 255 \<or> plain ! 15 = 9 \<and> plain ! 17 = 1 then Some ProtocolError else None)
      else if mutation = 14 \<and> \<not> cf_write c then
        (if plain ! 15 \<noteq> 9 then Some ProtocolError
         else if plain ! 17 = 1 then None
         else if length (cf_locations c) = 1 then Some ProtocolError
         else body_verdict (c\<lparr>cf_locations := tl (cf_locations c)\<rparr>) (drop 20 plain))
      else None)"

text \<open>The first item of the data of a read.\<close>

definition first_item :: "bytes \<Rightarrow> bool" where
  "first_item data \<longleftrightarrow> 4 \<le> length data \<and> data ! 1 \<in> {4, 9}
     \<and> (data ! 1 = 9 \<longrightarrow> data ! 0 \<noteq> 255 \<and> data ! 2 = 0 \<and> data ! 3 \<in> {0, 1})"

lemma always_first_item:
  assumes "locs \<noteq> []"
    "list_all (\<lambda>l. 1 \<le> mr_count (loc_range l) \<and> mr_count (loc_range l) \<le> 7) locs"
  shows "always first_item (reply_items False locs)"
proof -
  obtain item rest where locs: "locs = item # rest" using assms(1) by (cases locs) auto
  have entry: "first_item (([byte code, byte tp] @ sz @ content @ pad) @ tail)"
    if "code \<in> {255, 5, 10, 0}" "tp \<in> {4, 9}" "code = 255 \<longrightarrow> tp = 4" "code \<noteq> 255 \<longrightarrow> length content \<le> 1"
      "sz = be_bytes 2 (len content * (if tp = 9 then 1 else 8))" for code tp sz content pad tail
    using that by (cases content) (auto simp: first_item_def byte_def len_def)
  have tail: "always (whole_items False rest) (reply_items False rest)"
    using always_reply_items[of rest False] assms(2) by (simp add: locs)
  show ?thesis
    unfolding locs reply_items.simps if_False
    apply (rule always_bind[OF always_pick], simp)
    subgoal for code
      apply (rule always_bind[where Q = "\<lambda>entry. \<forall>tail. first_item (entry @ tail)"])
      subgoal
        apply (rule always_bind[where Q = "\<lambda>content. length content \<le> 7 \<and> (code \<noteq> 255 \<longrightarrow> length content \<le> 1)"])
        subgoal
          using assms(2) always_pick[of "[[], [0xaa :: byte]]"]
          by (auto intro!: always_ret elim!: always_mono simp: locs)
        subgoal for content
          apply (rule always_bind[where Q = "\<lambda>tp. tp \<in> {4, 9} \<and> (code = 255 \<longrightarrow> tp = 4)"])
          subgoal
            using always_pick[of "[4, 9 :: int]"] by (auto intro!: always_ret elim!: always_mono)
          subgoal for tp
            apply (rule always_bind[where Q = "\<lambda>sz. sz = be_bytes 2 (len content * (if tp = 9 then 1 else 8))"])
             apply (rule always_lift_eq)
             apply (auto simp: len_def simp del: be_bytes_numeral)[1]
            apply (rule always_ret)
            using entry[of code tp content] apply (simp del: be_bytes_numeral)
            done
          done
        done
      subgoal for entry
        by (rule always_bind[OF tail], rule always_ret) simp
      done
    done
qed

lemma or_one: "byte (or (uint b) 1) = or b 1" "0 \<le> or (uint (b :: byte)) 1 \<and> or (uint b) 1 < 256"
proof -
  have "or (uint b) 1 = uint (or b 1)" by (simp add: unsigned_or_eq)
  then show "byte (or (uint b) 1) = or b 1" "0 \<le> or (uint (b :: byte)) 1 \<and> or (uint b) 1 < 256"
    using uint_byte_bounds[of "or b 1"] by simp_all
qed

lemma change_or: "i < length pdu \<Longrightarrow> change i (\<lambda>v. or v 1) pdu = Inr (pdu[i := or (pdu ! i) 1])"
  using or_one[of "pdu ! i"] by (simp add: change_def put_def at_def)

lemma response_items_step:
  assumes "n = nat (be_int (slice (k + 2) (k + 4) data))" "sz = (if data ! (k + 1) = 9 then n else n div 8)"
  shows "response_items data k (item # rest) =
    (if length data < k + 4 \<or> data ! (k + 1) \<noteq> 9 \<and> n mod 8 \<noteq> 0 \<or> length data < k + 4 + sz
        \<or> rest \<noteq> [] \<and> odd sz \<and> k + 4 + sz = length data
        \<or> data ! k = 255 \<and> (data ! (k + 1) \<noteq> 4 \<or> int sz \<noteq> mr_count (loc_range item))
     then None else response_items data (k + (4 + sz + (if rest \<noteq> [] \<and> odd sz then 1 else 0))) rest)"
  unfolding response_items.simps Let_def assms[symmetric] by (auto simp: add.assoc)

lemma response_items_shift:
  "response_items (pre @ data) (length pre + k) locs = map_option ((+) (length pre)) (response_items data k locs)"
proof (induction locs arbitrary: k)
  case (Cons item rest)
  define n where "n = nat (be_int (slice (k + 2) (k + 4) data))"
  define sz where "sz = (if data ! (k + 1) = 9 then n else n div 8)"
  have e: "(pre @ data) ! (length pre + k) = data ! k" "(pre @ data) ! (length pre + k + 1) = data ! (k + 1)"
    "slice (length pre + k + 2) (length pre + k + 4) (pre @ data) = slice (k + 2) (k + 4) data"
    by (simp_all add: nth_append slice_def)
  have step: "response_items (pre @ data) (length pre + k) (item # rest) =
    (if length (pre @ data) < length pre + k + 4 \<or> data ! (k + 1) \<noteq> 9 \<and> n mod 8 \<noteq> 0 \<or> length (pre @ data) < length pre + k + 4 + sz
        \<or> rest \<noteq> [] \<and> odd sz \<and> length pre + k + 4 + sz = length (pre @ data)
        \<or> data ! k = 255 \<and> (data ! (k + 1) \<noteq> 4 \<or> int sz \<noteq> mr_count (loc_range item))
     then None else response_items (pre @ data) (length pre + k + (4 + sz + (if rest \<noteq> [] \<and> odd sz then 1 else 0))) rest)"
    using response_items_step[of n "length pre + k" "pre @ data" sz item rest] unfolding e by (simp only: n_def sz_def)
  show ?case
    unfolding step response_items_step[OF n_def sz_def] add.assoc Cons.IH by (auto simp: add.assoc)
qed simp

lemma odd_length: "odd (nat (be_int [a, or b 1]))"
proof -
  have "be_int [a, or b 1] = uint a * 256 + or (uint b) 1" by (simp add: unsigned_or_eq)
  moreover have "odd (or (uint b) 1)" by (simp add: even_or_iff)
  ultimately have "odd (be_int [a, or b 1])" by simp
  then show ?thesis using be_int_nonneg by (simp add: even_nat_iff)
qed

lemma first_step:
  assumes "cf_locations c = item # rest" "\<not> cf_write c" "data = [b0, b1, b2, b3] @ tail" "sz = (if b1 = 9 then nat (be_int [b2, b3]) else nat (be_int [b2, b3]) div 8)"
  shows "body_verdict c data =
    (if b1 \<noteq> 9 \<and> nat (be_int [b2, b3]) mod 8 \<noteq> 0 \<or> length data < 4 + sz \<or> rest \<noteq> [] \<and> odd sz \<and> 4 + sz = length data
        \<or> b0 = 255 \<and> (b1 \<noteq> 4 \<or> int sz \<noteq> mr_count (loc_range item))
     then Some ProtocolError
     else if response_items data (4 + sz + (if rest \<noteq> [] \<and> odd sz then 1 else 0)) rest = Some (length data) then None
     else Some ProtocolError)"
proof -
  have "slice (0 + 2) (0 + 4) data = [b2, b3]" "data ! 0 = b0" "data ! (0 + 1) = b1" using assms(3) by (simp_all add: slice_def)
  then show ?thesis
    using response_items_step[of "nat (be_int [b2, b3])" 0 data sz item rest] assms
    by (auto simp: body_verdict_def split: option.split)
qed

lemma response_items_agree:
  "drop k data = drop k data' \<Longrightarrow> length data = length data' \<Longrightarrow> k \<le> length data \<Longrightarrow> response_items data k locs = response_items data' k locs"
  using response_items_shift[of "take k data" "drop k data" 0 locs] response_items_shift[of "take k data'" "drop k data'" 0 locs]
  unfolding append_take_drop_id by (simp only: length_take min.absorb2 add_0_right)

text \<open>The two changes of the first item.\<close>

lemma first_transport:
  assumes "first_item data" "\<not> cf_write c" "cf_locations c \<noteq> []" "body_verdict c data = None"
  shows "body_verdict c (data[1 := 7]) = (if data ! 0 = 255 \<or> data ! 1 = 9 \<and> data ! 3 = 1 then Some ProtocolError else None)"
proof -
  obtain item rest where locs: "cf_locations c = item # rest" using assms(3) by (cases "cf_locations c") auto
  obtain b0 b1 b2 b3 tail where data: "data = [b0, b1, b2, b3] @ tail"
    using assms(1) by (auto simp: first_item_def Suc_le_length_iff numeral_eq_Suc)
  have d7: "data[1 := 7] = [b0, 7, b2, b3] @ tail" by (simp add: data)
  define n where "n = nat (be_int [b2, b3])"
  have agree: "response_items ([b0, 7, b2, b3] @ tail) (4 + k) rest = response_items data (4 + k) rest" if "k \<le> length tail" for k
    by (rule response_items_agree) (use that in \<open>simp_all add: data add.commute[of 4] drop_drop[symmetric] del: drop_drop\<close>)
  have agree': "response_items ([b0, 7, b2, b3] @ tail) (5 + k) rest = response_items data (5 + k) rest" if "Suc k \<le> length tail" for k
    using agree[OF that] by simp
  show ?thesis
    using assms(1,4) agree agree'
    unfolding d7 first_step[OF locs assms(2) data refl] first_step[OF locs assms(2) refl refl] n_def[symmetric]
    by (auto simp: first_item_def data n_def split: if_splits)
qed

lemma first_length:
  assumes "first_item data" "\<not> cf_write c" "cf_locations c \<noteq> []" "body_verdict c data = None"
  shows "body_verdict c (data[3 := or (data ! 3) 1]) =
    (if data ! 1 \<noteq> 9 then Some ProtocolError else if data ! 3 = 1 then None
     else if length (cf_locations c) = 1 then Some ProtocolError
     else body_verdict (c\<lparr>cf_locations := tl (cf_locations c)\<rparr>) (drop 6 data))"
proof -
  obtain item rest where locs: "cf_locations c = item # rest" using assms(3) by (cases "cf_locations c") auto
  obtain b0 b1 b2 b3 tail where data: "data = [b0, b1, b2, b3] @ tail"
    using assms(1) by (auto simp: first_item_def Suc_le_length_iff numeral_eq_Suc)
  have new: "data[3 := or (data ! 3) 1] = [b0, b1, b2, or b3 1] @ tail" by (simp add: data)
  note step = first_step[OF locs assms(2) data refl] and step' = first_step[OF locs assms(2) new refl]
  consider "b1 \<noteq> 9" | "b1 = 9" "b3 = 1" "b2 = 0" | "b1 = 9" "b3 = 0" "b2 = 0" "b0 \<noteq> 255"
    using assms(1) by (auto simp: first_item_def data)
  then show ?thesis
  proof cases
    case 1
    moreover have "n mod 8 \<noteq> 0" if "odd n" for n :: nat using that by presburger
    then have "nat (be_int [b2, or b3 1]) mod 8 \<noteq> 0" using odd_length by blast
    ultimately show ?thesis unfolding step' by (simp add: data del: be_int_Cons)
  next
    case 2
    then show ?thesis using assms(4) by (simp add: data)
  next
    case 3
    have ends: "response_items data 4 rest = Some (length data)" using assms(4) 3 by (simp add: step split: if_splits)
    have v: "body_verdict c (data[3 := or (data ! 3) 1]) = (if length data < 5 \<or> rest \<noteq> [] \<and> 5 = length data then Some ProtocolError
       else if response_items (data[3 := or (data ! 3) 1]) (if rest \<noteq> [] then 6 else 5) rest = Some (length data) then None else Some ProtocolError)"
      using 3 unfolding step' by (auto simp: data)
    show ?thesis
    proof (cases rest)
      case Nil
      then show ?thesis using ends 3 unfolding v by (simp add: locs data)
    next
      case (Cons next' more)
      have l: "8 \<le> length data" using ends by (auto simp: Cons split: if_splits)
      have "response_items (data[3 := or (data ! 3) 1]) 6 rest = response_items data 6 rest"
        by (rule response_items_agree) (use l in simp_all)
      also have "\<dots> = map_option ((+) 6) (response_items (drop 6 data) 0 rest)"
        using response_items_shift[of "take 6 data" "drop 6 data" 0 rest] l by simp
      finally have "response_items (data[3 := or (data ! 3) 1]) 6 rest = Some (length data) \<longleftrightarrow>
          response_items (drop 6 data) 0 rest = Some (length (drop 6 data))"
        using l by (auto simp: map_option_case split: option.splits)
      then show ?thesis
        using 3 l assms(2) unfolding v by (auto simp: locs Cons body_verdict_def data split: option.split)
    qed
  qed
qed

lemma response_bytes:
  "fst (response c ([a0, a1, a2, a3, a4, a5, 0, 2, a8, a9, a10, a11, a12, a13] @ data)) =
    (if a0 \<noteq> 0x32 \<or> a1 \<notin> {2, 3} \<or> length data \<noteq> nat (be_int [a8, a9]) then Some ProtocolError
     else if be_int [a4, a5] \<noteq> cf_reference c then Some ProtocolError
     else if a10 \<noteq> 0 \<or> a11 \<noteq> 0 then Some PlcRejected
     else if [a12, a13] \<noteq> [if cf_write c then 5 else 4, byte (len (cf_locations c))] then Some ProtocolError
     else body_verdict c data)"
proof -
  have "nat (be_int [0, 2]) = 2" by simp
  then show ?thesis
    by (simp add: response_def Let_def slice_def body_verdict_def len_def del: be_int_Cons split: option.split)
qed

lemma response_short:
  assumes "length pdu < 12 + nat (be_int (slice 6 8 pdu)) + nat (be_int (slice 8 10 pdu))"
  shows "fst (response c pdu) = Some ProtocolError"
  using assms by (auto simp: response_def Let_def)

definition framed :: "config \<Rightarrow> bytes \<Rightarrow> bool" where
  "framed c pdu \<longleftrightarrow> (\<exists>r1 r2 n data. pdu = [0x32, 3, 0, 0, r1, r2, 0, 2, 0, byte (len data), 0, 0,
       if cf_write c then 5 else 4, byte n] @ data
     \<and> be_int [r1, r2] = cf_reference c \<and> n = len (cf_locations c) \<and> n \<le> 6 \<and> length data \<le> 72
     \<and> data \<noteq> [] \<and> body_verdict c data = None \<and> (\<not> cf_write c \<longrightarrow> first_item data))"

lemma whole_items_verdict:
  "whole_items (cf_write c) (cf_locations c) data \<Longrightarrow> body_verdict c data = None"
  unfolding whole_items_def body_verdict_def by (auto dest: spec[where x = "[]"] split: if_splits)

lemma empty_verdict: "cf_locations c \<noteq> [] \<Longrightarrow> body_verdict c [] = Some ProtocolError"
  by (cases "cf_locations c") (simp_all add: body_verdict_def)

lemma liftE_ret: "liftE (Inr a) = ret a"
  by (rule ext) (simp add: liftE_def ret_def)

lemma always_reply_pdu:
  assumes "small_config c"
  shows "always (framed c) (reply_pdu c)"
proof -
  let ?ls = "cf_locations c"
  note s = assms[unfolded small_config_def]
  define hd' :: bytes where "hd' = [if cf_write c then 5 else 4, byte (len ?ls)]"
  have hd': "bytes_of [if cf_write c then 5 else 4, len ?ls] = Inr hd'"
    using s by (auto simp: bytes_of_Inr_iff hd'_def len_def byte_def)
  have "\<exists>pdu. packet 3 (cf_reference c) hd' data = Inr pdu \<and> framed c pdu"
    if w: "whole_items (cf_write c) ?ls data" and f: "\<not> cf_write c \<longrightarrow> first_item data" for data
  proof -
    have d: "length data \<le> 72" using w s by (auto simp: whole_items_def)
    obtain r1 r2 where r: "be_bytes 2 (cf_reference c) = [r1, r2]" by simp
    have ref: "be_int [r1, r2] = cf_reference c" using be_int_2[of "cf_reference c"] s r by simp
    have l: "be_bytes 2 2 = [0, 2]" "be_bytes 2 (len data) = [0, byte (len data)]" "byte 50 = 0x32" "byte 3 = 3"
      using d by (simp_all add: byte_def len_def)
    have "packet 3 (cf_reference c) hd' data = Inr ([0x32, 3, 0, 0, r1, r2, 0, 2, 0, byte (len data), 0, 0] @ hd' @ data)"
      using packet_ok[of 3 "cf_reference c" hd' data] s d by (simp add: r l hd'_def del: be_bytes_numeral)
    moreover have "cf_locations c \<noteq> []" using s by auto
    then have "data \<noteq> []" using whole_items_verdict[OF w] empty_verdict[of c] by auto
    ultimately show ?thesis
      using ref s d f whole_items_verdict[OF w] unfolding framed_def hd'_def by (auto simp: len_def)
  qed
  moreover have "?ls \<noteq> []" using s by auto
  then have "always (\<lambda>data. whole_items (cf_write c) ?ls data \<and> (\<not> cf_write c \<longrightarrow> first_item data)) (reply_items (cf_write c) ?ls)"
    using always_reply_items[of ?ls "cf_write c"] always_first_item[of ?ls] s by (cases "cf_write c") (auto intro!: always_both)
  ultimately show ?thesis
    unfolding reply_pdu_def hd' by (auto intro!: always_bind[of _ "reply_items (cf_write c) ?ls"] intro: always_lift simp: liftE_ret)
qed


lemma xor_one_byte: "byte (xor (uint b) 1) \<noteq> b"
proof
  assume a: "byte (xor (uint b) 1) = b"
  have "xor (uint b) 1 = uint (xor b 1)" by (simp add: unsigned_xor_eq)
  with a have "xor b 1 = b" by simp
  then have "xor b (xor b 1) = xor b b" by simp
  then show False by (simp add: xor.assoc[symmetric])
qed

lemma xor_one_range: "0 \<le> xor (uint (b :: byte)) 1 \<and> xor (uint b) 1 < 256"
proof -
  have "xor (uint b) 1 = uint (xor b 1)" by (simp add: unsigned_xor_eq)
  then show ?thesis using uint_byte_bounds by metis
qed

lemma change_xor: "i < length pdu \<Longrightarrow> change i (\<lambda>v. xor v 1) pdu = Inr (pdu[i := byte (xor (uint (pdu ! i)) 1)])"
  using xor_one_range[of "pdu ! i"] by (simp add: change_def put_def at_def)

lemma be_int_pair_eq: "be_int [a, b] = be_int [c, d] \<longleftrightarrow> a = c \<and> b = d"
  using be_int_inj[of "[a, b]" "[c, d]"] by simp

lemma be_pairs_eq: "nat (be_int [a, b]) = nat (be_int [c, d]) \<longleftrightarrow> a = c \<and> b = d"
  using be_int_pair_eq[of a b c d] be_int_nonneg[of "[a, b]"] be_int_nonneg[of "[c, d]"] by (metis nat_eq_iff2)

lemma always_mutate:
  assumes "framed c pdu" "0 \<le> m" "m < 16" "cf_locations c \<noteq> []"
  shows "always (\<lambda>bs. fst (response c bs) = reply_verdict c m pdu) (mutate c m pdu)"
proof -
  obtain r1 r2 n data where pdu: "pdu = [0x32, 3, 0, 0, r1, r2, 0, 2, 0, byte (len data), 0, 0,
       if cf_write c then 5 else 4, byte n] @ data" and ref: "cf_reference c = be_int [r1, r2]"
    and n: "n = len (cf_locations c)" "n \<le> 6" and d: "length data \<le> 72" "data \<noteq> []" and ok: "body_verdict c data = None"
    and f: "\<not> cf_write c \<longrightarrow> first_item data"
    using assms(1) unfolding framed_def by metis
  have b: "byte 2 = 2" "byte 4 = 4" "byte 5 = 5" "byte 7 = 7" by (simp_all add: byte_def)
  have size: "nat (be_int [0, byte (len data)]) = length data"
    using d by (simp add: uint_byte_id len_def)
  have lp: "length pdu = 14 + length data" by (simp add: pdu)
  have "m \<in> {0, 1, 2, 3, 4, 5, 6, 7, 8, 9, 10, 11, 12, 13, 14, 15}" using assms(2,3) by simp presburger
  then consider (same) "m = 0 \<or> m = 11 \<or> m = 12 \<or> (m = 13 \<or> m = 14) \<and> cf_write c"
    | (code) "m = 13" "\<not> cf_write c" | (first) "m = 14" "\<not> cf_write c"
    | (head) "m = 1 \<or> m = 2 \<or> m = 3 \<or> m = 4 \<or> m = 10" | (items) "m = 5" | (cut) "m = 6" | (long) "m = 7"
    | (parameters) "m = 8" | (data) "m = 9" | (empty) "m = 15" by auto
  then show ?thesis
  proof cases
    case same
    then show ?thesis
      by (elim disjE conjE)
        (auto intro!: always_ret always_lift simp: mutate_def put_def splice_def pdu response_bytes[unfolded append_Cons append_Nil] size ref n ok reply_verdict_def b
          simp del: be_int_Cons)
  next
    case code
    have u: "put 15 7 pdu = Inr ([0x32, 3, 0, 0, r1, r2, 0, 2, 0, byte (len data), 0, 0, 4, byte n] @ data[1 := 7])"
      using f code by (cases data) (auto simp: put_def pdu b first_item_def)
    have "fst (response c ([0x32, 3, 0, 0, r1, r2, 0, 2, 0, byte (len data), 0, 0, 4, byte n] @ data[1 := 7])) = reply_verdict c m pdu"
      unfolding response_bytes using code f first_transport[OF _ code(2) assms(4) ok]
      by (simp add: size ref n reply_verdict_def pdu del: be_int_Cons)
    then show ?thesis using code by (auto intro!: always_lift simp: mutate_def u)
  next
    case first
    have u: "change 17 (\<lambda>v. or v 1) pdu = Inr ([0x32, 3, 0, 0, r1, r2, 0, 2, 0, byte (len data), 0, 0, 4, byte n] @ data[3 := or (data ! 3) 1])"
      using f first by (auto simp: change_or pdu first_item_def)
    have "fst (response c ([0x32, 3, 0, 0, r1, r2, 0, 2, 0, byte (len data), 0, 0, 4, byte n] @ data[3 := or (data ! 3) 1]))
        = reply_verdict c m pdu"
      unfolding response_bytes using first f first_length[OF _ first(2) assms(4) ok]
      by (simp add: size ref n reply_verdict_def pdu del: be_int_Cons)
    then show ?thesis using first by (auto intro!: always_lift simp: mutate_def u)
  next
    case head
    have x: "byte (xor (uint (0x32 :: byte)) 1) \<noteq> 0x32" "byte (xor (uint r1) 1) \<noteq> r1" by (rule xor_one_byte)+
    show ?thesis using head
      by (elim disjE)
        (use x in \<open>auto intro!: always_ret always_lift simp: mutate_def change_xor put_def splice_def pdu response_bytes[unfolded append_Cons append_Nil]
          size ref n ok reply_verdict_def b be_int_pair_eq simp del: be_int_Cons\<close>)
  next
    case items
    have "0 \<le> n" "n < 255" using n by (simp_all add: len_def)
    then have "uint (byte n) = n" "uint (byte (n + 1)) = n + 1" by (simp_all add: uint_byte_id)
    then have "byte (uint (byte n) + 1) \<noteq> byte n" "0 \<le> uint (byte n) + 1" "uint (byte n) + 1 < 256"
      using \<open>n < 255\<close> uint_byte_bounds(1)[of "byte n"] by (metis add_cancel_left_right one_neq_zero, simp, simp)
    then show ?thesis using items
      by (auto intro!: always_lift simp: mutate_def change_def put_def at_def pdu response_bytes[unfolded append_Cons append_Nil]
          size ref n(1)[symmetric] ok reply_verdict_def simp del: be_int_Cons)
  next
    case cut
    have "fst (response c (take k pdu)) = Some ProtocolError" if "k < length pdu" for k
    proof (cases "k < 12")
      case True
      then have "length (take k pdu) < 12" by simp
      then show ?thesis by (simp only: response_def if_True fst_conv)
    next
      case False
      then have "slice 6 8 (take k pdu) = [0, 2]" "slice 8 10 (take k pdu) = [0, byte (len data)]"
        unfolding pdu by (simp_all add: slice_def take_Cons' drop_take)
      then show ?thesis using that lp size by (intro response_short) simp
    qed
    moreover have "0 < len pdu" using lp by (simp add: len_def)
    ultimately show ?thesis using cut lp
      by (auto intro!: always_bind[OF always_draw] always_ret simp: mutate_def reply_verdict_def len_def)
  next
    case long
    then show ?thesis
      using response_bytes[where data = "data @ [0]", unfolded append_Cons append_Nil]
      by (auto intro!: always_ret simp: mutate_def pdu size reply_verdict_def simp del: be_int_Cons)
  next
    case parameters
    have x: "byte (xor (uint (2 :: byte)) 1) = 3" "byte 3 = 3" by (simp_all add: byte_def)
    have u: "unat (byte (len data)) = length data" using d by (simp add: unat_eq_nat_uint uint_byte_id len_def)
    show ?thesis using parameters d u
      by (auto intro!: always_lift response_short simp: mutate_def change_xor pdu reply_verdict_def x slice_def size)
  next
    case data
    have "byte (xor (uint (byte (len data))) 1) \<noteq> byte (len data)" by (rule xor_one_byte)
    then have "nat (be_int [0, byte (xor (uint (byte (len data))) 1)]) \<noteq> length data"
      unfolding size[symmetric] be_pairs_eq by simp
    then show ?thesis using data
      by (auto intro!: always_lift simp: mutate_def change_xor pdu response_bytes[unfolded append_Cons append_Nil] reply_verdict_def
          simp del: be_int_Cons)
  next
    case empty
    then show ?thesis
      using response_bytes[where data = "[]", unfolded append_Cons append_Nil] empty_verdict[OF assms(4)]
      by (auto intro!: always_ret simp: mutate_def splice_def pdu ref n reply_verdict_def simp del: be_int_Cons)
  qed
qed

text \<open>C21: A reply and each of its sixteen mutations: for a small configuration and every draw, an untouched reply (also
  one with the acknowledgement kind or filled reserved octets) completes the request, an error class makes it a PLC rejection, a
  changed protocol octet, kind, reference, function, count or length, a cut, an appended octet and an emptied body are protocol
  errors; the two mutations of the first item leave a write as it is and give a read the verdict that reply_verdict reads off the
  untouched reply.\<close>
theorem mutated_reply_verdict:
  assumes "small_config c" "0 \<le> m" "m < 16"
  shows "\<exists>plain d1 pdu d2. reply_pdu c d = (Inr plain, d1) \<and> fuzz_reply c m d = (Inr (ResponseEvent pdu), d2)
    \<and> fst (response c plain) = None \<and> fst (response c pdu) = reply_verdict c m plain"
proof -
  have ne: "cf_locations c \<noteq> []" using assms(1) by (auto simp: small_config_def)
  obtain plain d1 where p: "reply_pdu c d = (Inr plain, d1)" "framed c plain"
    using always_reply_pdu[OF assms(1)] unfolding always_def by blast
  obtain bs d2 where "mutate c m plain d1 = (Inr bs, d2)" "fst (response c bs) = reply_verdict c m plain"
    using always_mutate[OF p(2) assms(2,3) ne] unfolding always_def by blast
  moreover have "fst (response c plain) = None"
    using always_mutate[OF p(2), of 0] ne by (auto simp: always_def mutate_def ret_def reply_verdict_def)
  ultimately show ?thesis using p(1) by (auto simp: fuzz_reply_def bindM_def ret_def)
qed

section \<open>Witnesses\<close>

definition ex_small :: config where
  "ex_small = \<lparr>cf_write = False, cf_allow = True, cf_budget = 2, cf_reference = 7,
     cf_locations = [\<lparr>loc_range = \<lparr>mr_db = 1, mr_start = 10, mr_count = 3\<rparr>, loc_item = Some 0, loc_offset = 0\<rparr>]\<rparr>"

theorem mutated_reply_verdict_witness:
  "\<exists>pdu d'. fuzz_reply ex_small 10 (\<lambda>_. 0) = (Inr (ResponseEvent pdu), d') \<and> fst (response ex_small pdu) = Some PlcRejected"
  using mutated_reply_verdict[of ex_small 10 "\<lambda>_. 0"] by (auto simp: ex_small_def small_config_def reply_verdict_def)

end
