(* ===== verification/Management_Controls.thy ===== *)
theory Management_Controls
  imports Edits Operation Fuzz
begin

text \<open>
  \<^verbatim>\<open>management_conformance.self_test\<close> and \<^verbatim>\<open>run\<close>: the copies of the corpus the oracle must refuse, and the claim of when
  the script gets through.
\<close>

definition refuses_change :: "json \<Rightarrow> (json \<Rightarrow> json result) \<Rightarrow> unit result" where
  "refuses_change = must_reject mgmt_validate [ValueError, TypeError, KeyError]"

definition wrong_versions :: "json list" where
  "wrong_versions = [JBool True, JFloat 1 0, jtext ''1'', JInt 2]"

definition status_of :: "json \<Rightarrow> json result" where
  "status_of test = bindE (jget ''expected'' test) (jget ''status'')"

definition is_accepted :: "json \<Rightarrow> bool result" where
  "is_accepted test = bindE (status_of test) (\<lambda>status. Inr (status = jtext ''accept''))"

definition decoder_controls :: "json \<Rightarrow> nat \<times> json \<Rightarrow> unit result" where
  "decoder_controls corpus x =
     (case x of (index, test) \<Rightarrow>
      let here = (\<lambda>p. edit (Key ''decoder_cases'' # Nth index # p)) in
      bindE (refuses_change corpus (here [Key ''expected''] (jput ''status'' (jtext ''changed'')))) (\<lambda>_.
      bindE (is_accepted test) (\<lambda>accept.
      if accept then
        bindE (eachE (\<lambda>position. refuses_change corpus (here [Key ''pdu'', Nth position] flip_low)) [0, 1, 4, 7, 10, 14, 15, 16, 23]) (\<lambda>_.
        bindE (eachE (\<lambda>field. refuses_change corpus (here [Key ''expected'', Key field] flip_low))
          [''sequence'', ''data_unit_reference'', ''return_code'', ''transport_size'']) (\<lambda>_.
        bindE (refuses_change corpus (here [Key ''expected''] (jput ''has_more_data'' (JInt 0)))) (\<lambda>_.
          refuses_change corpus (here [Key ''pdu''] drop_final))))
      else Inr ())))"

definition continuation_controls :: "json \<Rightarrow> nat \<times> json \<Rightarrow> unit result" where
  "continuation_controls corpus x =
     (case x of (index, test) \<Rightarrow>
      let here = (\<lambda>p. edit (Key ''continuation_cases'' # Nth index # p)) in
      bindE (refuses_change corpus (here [Key ''expected''] (jput ''status'' (jtext ''changed'')))) (\<lambda>_.
      bindE (jget ''steps'' test) (\<lambda>v. bindE (list_of v) (\<lambda>steps.
      bindE (eachE (\<lambda>step_index. eachE (\<lambda>position.
          refuses_change corpus (here [Key ''steps'', Nth step_index, Key ''request_pdu'', Nth position] flip_low)) [4, 14, 17])
        [0..<length steps]) (\<lambda>_.
      bindE (is_accepted test) (\<lambda>accept.
      if accept then
        eachE (\<lambda>position. refuses_change corpus (here [Key ''steps'', Nth 1, Key ''response_pdu'', Nth position] flip_low)) [18, 17, 19]
      else Inr ()))))))"

definition mgmt_self_test :: "json \<Rightarrow> unit result" where
  "mgmt_self_test corpus =
     bindE (eachE (\<lambda>bad. refuses_change corpus (jput ''schema_version'' bad)) wrong_versions) (\<lambda>_.
     bindE (jget ''decoder_cases'' corpus) (\<lambda>d. bindE (list_of d) (\<lambda>decoders.
     bindE (eachE (decoder_controls corpus) (List.enumerate 0 decoders)) (\<lambda>_.
     bindE (eachE (\<lambda>field. eachE (\<lambda>bad. refuses_change corpus (edit [Key ''decoder_cases'', Nth 0] (jput field bad)))
         [JBool True, JFloat 1 0, jtext ''1'', JInt (- 1)]) [''reference'', ''group'', ''subfunction'']) (\<lambda>_.
     bindE (eachE (\<lambda>bad. refuses_change corpus (edit [Key ''decoder_cases'', Nth 0, Key ''pdu'', Nth 0] (\<lambda>_. Inr bad)))
         [JBool True, JFloat 1 0, JInt (- 1), JInt 256]) (\<lambda>_.
     bindE (jget ''continuation_cases'' corpus) (\<lambda>c. bindE (list_of c) (\<lambda>continuations.
     bindE (eachE (continuation_controls corpus) (List.enumerate 0 continuations)) (\<lambda>_.
     bindE (bindE (jnth 0 d) (\<lambda>first. refuses_change corpus (edit [Key ''decoder_cases''] (append_to first)))) (\<lambda>_.
     bindE (refuses_change corpus (edit [Key ''decoder_cases'', Nth 0] (jput ''unknown'' JNull))) (\<lambda>_.
       refuses_change corpus (edit [Key ''continuation_cases'', Nth 0, Key ''steps'', Nth 0] (jput ''unknown'' JNull)))))))))))))"

definition mgmt_script :: "json \<Rightarrow> (nat \<times> nat) result" where
  "mgmt_script corpus = bindE (mgmt_validate corpus) (\<lambda>counts. bindE (mgmt_self_test corpus) (\<lambda>_. Inr counts))"

section \<open>What the check raises\<close>

definition expected_raise :: "'a result \<Rightarrow> bool" where
  "expected_raise r \<longleftrightarrow> (case r of Inl e \<Rightarrow> e \<in> {ValueError, TypeError, KeyError} | Inr _ \<Rightarrow> True)"

named_theorems raises \<open>steps that raise nothing else\<close>

lemma raises_Inr [raises, simp]: "expected_raise (Inr a)"
  by (simp add: expected_raise_def)

lemma raises_Inl [simp]: "expected_raise (Inl e) \<longleftrightarrow> e \<in> {ValueError, TypeError, KeyError}"
  by (simp add: expected_raise_def)

lemma raises_bind [raises]: "expected_raise r \<Longrightarrow> (\<And>a. r = Inr a \<Longrightarrow> expected_raise (f a)) \<Longrightarrow> expected_raise (bindE r f)"
  by (cases r) auto

lemma raises_basic [raises]:
  "expected_raise (guardE ok ValueError)" "expected_raise (shape v ks)" "expected_raise (integer v n)"
  by (auto simp: guardE_def shape_def integer_def split: json.splits)

lemma raises_jget [raises]: "expected_raise (jget k v)"
  by (cases v) (auto split: option.splits)

lemma raises_arr_of [raises]: "expected_raise (arr_of v)"
  by (cases v) auto

lemma raises_mapE [raises]: "(\<And>x. expected_raise (f x)) \<Longrightarrow> expected_raise (mapE f xs)"
  by (induction xs) (auto intro!: raises)

lemma raises_octets [raises]: "expected_raise (octets v)"
  unfolding octets_def by (intro raises)

lemma raises_identity [raises]: "expected_raise (identity t seen)"
  unfolding identity_def by (intro raises) (auto split: json.splits)

lemma raises_each [raises]: "(\<And>x s. expected_raise (check x s)) \<Longrightarrow> expected_raise (each_case check xs seen)"
  by (induction xs arbitrary: seen) (auto intro!: raises)

lemma raises_decoder [raises]: "expected_raise (decoder_case t seen)"
  unfolding decoder_case_def by (intro raises)

lemma raises_request:
  assumes "0 \<le> reference" "reference \<le> 65535" "(grp, subfunction) \<in> {(4, 1), (3, 2)}" "\<And>t. token = Some t \<Longrightarrow> 0 \<le> t \<and> t < 256"
  shows "expected_raise (mgmt_request reference grp subfunction token)"
proof (cases token)
  case None
  then show ?thesis using assms(1-3) packet_ok[of 7 reference]
    by (auto simp: mgmt_request_def bytes_of_def len_def)
next
  case (Some t)
  then show ?thesis using assms packet_ok[of 7 reference]
    by (auto simp: mgmt_request_def bytes_of_def len_def)
qed

lemma raises_steps:
  "(grp, subfunction) \<in> {(4, 1), (3, 2)} \<Longrightarrow> expected_raise (cont_steps grp subfunction n k steps s)"
proof (induction steps arbitrary: k s)
  case (Cons step steps)
  have "expected_raise (parse_leg step)" unfolding parse_leg_def by (intro raises)
  moreover have "expected_raise (cont_step grp subfunction n k leg s)" if "parse_leg step = Inr leg" for leg
  proof -
    have r: "0 \<le> lg_reference leg" "lg_reference leg \<le> 65535" using that by (auto simp: parse_leg_def)
    have t: "0 \<le> t \<and> t < 256" if "map_option uint (ct_token s) = Some t" for t
      using that uint_byte_bounds by auto
    show ?thesis unfolding cont_step_def Let_def
      by (intro raises raises_request[OF r Cons.prems t]) (auto split: reply.splits)
  qed
  ultimately show ?case using Cons.IH[OF Cons.prems] by (auto intro!: raises)
qed simp

lemma raises_continuation [raises]: "expected_raise (continuation_case t seen)"
  unfolding continuation_case_def by (intro raises raises_steps) auto

lemma raises_validate: "expected_raise (mgmt_validate c)"
  unfolding mgmt_validate_def by (intro raises)

lemma refuses_change_iff:
  "refuses_change corpus alter = Inr () \<longleftrightarrow> (\<exists>changed. alter corpus = Inr changed \<and> (\<forall>n. mgmt_validate changed \<noteq> Inr n))"
  unfolding refuses_change_def using raises_validate
  by (intro must_reject_iff) (metis insertCI list.simps(15) raises_Inl list.set(2) insert_iff empty_iff)

section \<open>A case at fault\<close>

abbreviation decoder_accepts :: "json \<Rightarrow> bool" where
  "decoder_accepts t \<equiv> \<exists>a b. decoder_case t a = Inr b"

abbreviation continuation_accepts :: "json \<Rightarrow> bool" where
  "continuation_accepts t \<equiv> \<exists>a b. continuation_case t a = Inr b"

lemma each_case_all: "each_case check xs seen = Inr s \<Longrightarrow> x \<in> set xs \<Longrightarrow> \<exists>a b. check x a = Inr b"
  by (induction xs arbitrary: seen) auto

lemma validate_parts:
  assumes "mgmt_validate corpus = Inr counts"
  obtains ds cs s1 s2 where "shape corpus [''schema_version'', ''protocol'', ''decoder_cases'', ''continuation_cases''] = Inr ()"
    "jget ''schema_version'' corpus = Inr (JInt 1)" "jget ''protocol'' corpus = Inr (jtext ''classic S7 management codec conversations'')"
    "jget ''decoder_cases'' corpus = Inr (JArr ds)" "jget ''continuation_cases'' corpus = Inr (JArr cs)"
    "1 \<le> length ds" "length ds \<le> 10000" "1 \<le> length cs" "length cs \<le> 10000"
    "each_case decoder_case ds [] = Inr s1" "each_case continuation_case cs s1 = Inr s2" "counts = (length ds, length cs)"
proof -
  have "\<exists>u version protocol d ds c cs s1 s2. shape corpus [''schema_version'', ''protocol'', ''decoder_cases'', ''continuation_cases''] = Inr u
    \<and> jget ''schema_version'' corpus = Inr version \<and> jget ''protocol'' corpus = Inr protocol
    \<and> (version = JInt 1 \<and> protocol = jtext ''classic S7 management codec conversations'')
    \<and> jget ''decoder_cases'' corpus = Inr d \<and> d = JArr ds \<and> (1 \<le> length ds \<and> length ds \<le> 10000)
    \<and> jget ''continuation_cases'' corpus = Inr c \<and> c = JArr cs \<and> (1 \<le> length cs \<and> length cs \<le> 10000)
    \<and> each_case decoder_case ds [] = Inr s1 \<and> each_case continuation_case cs s1 = Inr s2 \<and> (length ds, length cs) = counts"
    using assms unfolding mgmt_validate_def bindE_Inr_iff guardE_Inr_iff arr_of_Inr_iff sum.inject by blast
  then show thesis using that by (metis unit_eq)
qed

lemma validate_decoder: "mgmt_validate c = Inr n \<Longrightarrow> jget ''decoder_cases'' c = Inr (JArr ds) \<Longrightarrow> t \<in> set ds \<Longrightarrow> decoder_accepts t"
  by (erule validate_parts) (auto dest: each_case_all)

lemma validate_continuation:
  "mgmt_validate c = Inr n \<Longrightarrow> jget ''continuation_cases'' c = Inr (JArr cs) \<Longrightarrow> t \<in> set cs \<Longrightarrow> continuation_accepts t"
  by (erule validate_parts) (auto dest: each_case_all)

lemma refuses_decoder:
  assumes "map_of kvs ''decoder_cases'' = Some (JArr ds)" "i < length ds" "edit p f (ds ! i) = Inr t" "\<not> decoder_accepts t"
  shows "refuses_change (JObj kvs) (edit (Key ''decoder_cases'' # Nth i # p) f) = Inr ()"
proof -
  let ?c = "JObj (AList.update ''decoder_cases'' (JArr (ds[i := t])) kvs)"
  have "edit (Key ''decoder_cases'' # Nth i # p) f (JObj kvs) = Inr ?c" using assms by simp
  moreover have "mgmt_validate ?c \<noteq> Inr n" for n
    using validate_decoder[of ?c n "ds[i := t]" t] assms(2,4) by (auto simp: update_conv' set_update_memI)
  ultimately show ?thesis unfolding refuses_change_iff by blast
qed

lemma refuses_continuation:
  assumes "map_of kvs ''continuation_cases'' = Some (JArr cs)" "i < length cs" "edit p f (cs ! i) = Inr t" "\<not> continuation_accepts t"
  shows "refuses_change (JObj kvs) (edit (Key ''continuation_cases'' # Nth i # p) f) = Inr ()"
proof -
  let ?c = "JObj (AList.update ''continuation_cases'' (JArr (cs[i := t])) kvs)"
  have "edit (Key ''continuation_cases'' # Nth i # p) f (JObj kvs) = Inr ?c" using assms by simp
  moreover have "mgmt_validate ?c \<noteq> Inr n" for n
    using validate_continuation[of ?c n "cs[i := t]" t] assms(2,4) by (auto simp: update_conv' set_update_memI)
  ultimately show ?thesis unfolding refuses_change_iff by blast
qed

section \<open>Decoder cases\<close>

lemma decoder_fields:
  assumes "decoder_accepts t"
  obtains kvs xs pdu reference grp subfunction e where "t = JObj kvs"
    "fst ` set kvs = set [''id'', ''reference'', ''group'', ''subfunction'', ''pdu'', ''expected'']"
    "map_of kvs ''pdu'' = Some (JArr xs)" "octets (JArr xs) = Inr pdu" "map_of kvs ''reference'' = Some (JInt reference)"
    "map_of kvs ''group'' = Some (JInt grp)" "map_of kvs ''subfunction'' = Some (JInt subfunction)" "map_of kvs ''expected'' = Some e"
    "0 \<le> reference" "0 \<le> grp" "0 \<le> subfunction" "same (reply_json (mgmt_decode pdu reference grp subfunction)) e"
proof -
  obtain a b where a: "decoder_case t a = Inr b" using assms by blast
  obtain u p pdu r reference g grp f subfunction e where d: "shape t [''id'', ''reference'', ''group'', ''subfunction'', ''pdu'', ''expected''] = Inr u"
    "jget ''pdu'' t = Inr p" "octets p = Inr pdu" "jget ''reference'' t = Inr r" "integer r 65535 = Inr reference"
    "jget ''group'' t = Inr g" "integer g 15 = Inr grp" "jget ''subfunction'' t = Inr f" "integer f 255 = Inr subfunction"
    "jget ''expected'' t = Inr e" "same (reply_json (mgmt_decode pdu reference grp subfunction)) e"
    using a unfolding decoder_case_def bindE_Inr_iff guardE_Inr_iff by (elim exE conjE) (rule that)
  obtain kvs where kvs: "t = JObj kvs" "fst ` set kvs = set [''id'', ''reference'', ''group'', ''subfunction'', ''pdu'', ''expected'']"
    using shape_obj d(1) unfolding unit_eq[of u] by blast
  obtain xs where xs: "p = JArr xs" using d(3) octets_ints by blast
  have look: "jget k t = Inr v \<Longrightarrow> map_of kvs k = Some v" for k v unfolding kvs(1) by (simp split: option.splits)
  from d(5,7,9) have i: "r = JInt reference" "g = JInt grp" "f = JInt subfunction" "0 \<le> reference" "0 \<le> grp" "0 \<le> subfunction"
    by simp_all
  show thesis using that[OF kvs _ _ _ _ _ _ i(4,5,6) d(11)] look[OF d(2)] look[OF d(4)] look[OF d(6)] look[OF d(8)] look[OF d(10)] d(3)
    unfolding xs i(1-3) by blast
qed

lemma same_reply:
  assumes "same (reply_json r) e"
  shows "\<exists>es. e = JObj es \<and> map_of es ''status'' = Some (jtext (case r of Accept _ \<Rightarrow> ''accept'' | Reject _ \<Rightarrow> ''reject''))"
    and "r = Accept b \<Longrightarrow> jget ''sequence'' e = Inr (JInt (uint (rb_sequence b)))
      \<and> jget ''data_unit_reference'' e = Inr (JInt (uint (rb_unit b))) \<and> jget ''has_more_data'' e = Inr (JBool (rb_more b))
      \<and> jget ''return_code'' e = Inr (JInt (uint (rb_code b))) \<and> jget ''transport_size'' e = Inr (JInt (uint (rb_transport b)))"
  using assms by (cases r; auto simp: same_obj same_atom)+

lemma octets_nth:
  assumes "octets (JArr xs) = Inr pdu" "i < length pdu"
  shows "length xs = length pdu" and "xs ! i = JInt (uint (pdu ! i))"
    and "octets (JArr (xs[i := JInt (xor (uint (pdu ! i)) 1)])) = Inr (pdu[i := byte (xor (uint (pdu ! i)) 1)])"
proof -
  have m: "list_all2 (\<lambda>x b. bindE (integer x 255) (\<lambda>j. Inr (byte j)) = Inr b) xs pdu" "length xs \<le> 65535"
    using assms(1) by (auto simp: octets_def mapE_Inr_iff)
  then show n: "length xs = length pdu" by (simp add: list_all2_lengthD)
  have "bindE (integer (xs ! i) 255) (\<lambda>j. Inr (byte j)) = Inr (pdu ! i)"
    using list_all2_nthD[OF m(1), of i] assms(2) n by simp
  then obtain a where "xs ! i = JInt a" "0 \<le> a" "a \<le> 255" "pdu ! i = byte a" by auto
  moreover from this have "uint (byte a) = a" by (intro uint_byte_id) simp_all
  ultimately show "xs ! i = JInt (uint (pdu ! i))" by simp
  have "list_all2 (\<lambda>x b. bindE (integer x 255) (\<lambda>j. Inr (byte j)) = Inr b)
      (xs[i := JInt (xor (uint (pdu ! i)) 1)]) (pdu[i := byte (xor (uint (pdu ! i)) 1)])"
    using m(1) xor_one_range[of "pdu ! i"] by (intro list_all2_update_cong) simp_all
  then show "octets (JArr (xs[i := JInt (xor (uint (pdu ! i)) 1)])) = Inr (pdu[i := byte (xor (uint (pdu ! i)) 1)])"
    using m(2) by (simp add: octets_def mapE_Inr_iff)
qed

text \<open>Of an accepted reply these octets are determined by what it is checked against and by the other octets.\<close>

lemma decode_determined:
  assumes "mgmt_decode pdu reference grp subfunction = Accept b" "mgmt_decode (pdu[i := x]) reference grp subfunction = Accept b'"
    and "i \<in> set [0, 1, 4, 7, 10, 14, 15, 16, 23]"
  shows "x = pdu ! i"
proof -
  obtain a0 a1 a2 a3 a4 a5 a6 a7 a8 a9 b0 b1 b2 b3 b4 b5 b6 b7 b8 b9 b10 b11 d0 d1 d2 d3 rest where
    pdu: "pdu = [a0,a1,a2,a3,a4,a5,a6,a7,a8,a9] @ [b0,b1,b2,b3,b4,b5,b6,b7,b8,b9,b10,b11] @ [d0,d1,d2,d3] @ rest"
    using accept_length[OF assms(1)] by (rule long_list)
  note d = assms(1)[unfolded pdu mgmt_decode_bytes]
  from d have g: "0 \<le> grp" "grp < 16" "b5 = byte (128 + grp)" using nibbles[of b5 grp] by auto
  from assms(3) consider "i = 0" | "i = 1" | "i = 4" | "i = 7" | "i = 10" | "i = 14" | "i = 15" | "i = 16" | "i = 23" by auto
  then show ?thesis
  proof cases
    case 1
    have "pdu[i := x] = [x,a1,a2,a3,a4,a5,a6,a7,a8,a9] @ [b0,b1,b2,b3,b4,b5,b6,b7,b8,b9,b10,b11] @ [d0,d1,d2,d3] @ rest" by (simp add: 1 pdu)
    note e = assms(2)[unfolded this mgmt_decode_bytes]
    with d show ?thesis by (simp add: 1 pdu del: be_int_Cons)
  next
    case 2
    have "pdu[i := x] = [a0,x,a2,a3,a4,a5,a6,a7,a8,a9] @ [b0,b1,b2,b3,b4,b5,b6,b7,b8,b9,b10,b11] @ [d0,d1,d2,d3] @ rest" by (simp add: 2 pdu)
    note e = assms(2)[unfolded this mgmt_decode_bytes]
    with d show ?thesis by (simp add: 2 pdu del: be_int_Cons)
  next
    case 5
    have "pdu[i := x] = [a0,a1,a2,a3,a4,a5,a6,a7,a8,a9] @ [x,b1,b2,b3,b4,b5,b6,b7,b8,b9,b10,b11] @ [d0,d1,d2,d3] @ rest" by (simp add: 5 pdu)
    note e = assms(2)[unfolded this mgmt_decode_bytes]
    with d show ?thesis by (simp add: 5 pdu del: be_int_Cons)
  next
    case 6
    have "pdu[i := x] = [a0,a1,a2,a3,a4,a5,a6,a7,a8,a9] @ [b0,b1,b2,b3,x,b5,b6,b7,b8,b9,b10,b11] @ [d0,d1,d2,d3] @ rest" by (simp add: 6 pdu)
    note e = assms(2)[unfolded this mgmt_decode_bytes]
    with d show ?thesis by (simp add: 6 pdu del: be_int_Cons)
  next
    case 3
    have "pdu[i := x] = [a0,a1,a2,a3,x,a5,a6,a7,a8,a9] @ [b0,b1,b2,b3,b4,b5,b6,b7,b8,b9,b10,b11] @ [d0,d1,d2,d3] @ rest" by (simp add: 3 pdu)
    note e = assms(2)[unfolded this mgmt_decode_bytes]
    have "be_int [a4, a5] = reference" "be_int [x, a5] = reference" using d e by blast+
    then have "be_int [a4, a5] = be_int [x, a5]" by simp
    then show ?thesis by (simp add: 3 pdu be_int_pair_eq del: be_int_Cons)
  next
    case 4
    have "pdu[i := x] = [a0,a1,a2,a3,a4,a5,a6,x,a8,a9] @ [b0,b1,b2,b3,b4,b5,b6,b7,b8,b9,b10,b11] @ [d0,d1,d2,d3] @ rest" by (simp add: 4 pdu)
    note e = assms(2)[unfolded this mgmt_decode_bytes]
    have "nat (be_int [a6, a7]) = 12" "nat (be_int [a6, x]) = 12" using d e by blast+
    then have "nat (be_int [a6, a7]) = nat (be_int [a6, x])" by simp
    then show ?thesis by (simp add: 4 pdu be_pairs_eq del: be_int_Cons)
  next
    case 7
    have "pdu[i := x] = [a0,a1,a2,a3,a4,a5,a6,a7,a8,a9] @ [b0,b1,b2,b3,b4,x,b6,b7,b8,b9,b10,b11] @ [d0,d1,d2,d3] @ rest" by (simp add: 7 pdu)
    note e = assms(2)[unfolded this mgmt_decode_bytes]
    then have "x = byte (128 + grp)" using nibbles[of x grp] by blast
    then show ?thesis using g by (simp add: 7 pdu)
  next
    case 8
    have "pdu[i := x] = [a0,a1,a2,a3,a4,a5,a6,a7,a8,a9] @ [b0,b1,b2,b3,b4,b5,x,b7,b8,b9,b10,b11] @ [d0,d1,d2,d3] @ rest" by (simp add: 8 pdu)
    note e = assms(2)[unfolded this mgmt_decode_bytes]
    have "uint b6 = subfunction" "uint x = subfunction" using d e by blast+
    then show ?thesis by (simp add: 8 pdu word_uint_eq_iff)
  next
    case 9
    have "pdu[i := x] = [a0,a1,a2,a3,a4,a5,a6,a7,a8,a9] @ [b0,b1,b2,b3,b4,b5,b6,b7,b8,b9,b10,b11] @ [d0,x,d2,d3] @ rest" by (simp add: 9 pdu)
    note e = assms(2)[unfolded this mgmt_decode_bytes]
    have "if null_ack d0 grp subfunction then d1 = 0 else d1 = 9" "if null_ack d0 grp subfunction then x = 0 else x = 9"
      using d e by (auto split: if_splits simp del: be_int_Cons)
    then show ?thesis by (simp add: 9 pdu split: if_splits)
  qed
qed

lemma decoder_lookup:
  assumes "decoder_accepts (JObj kvs)"
  obtains xs pdu reference grp subfunction e where "map_of kvs ''pdu'' = Some (JArr xs)" "octets (JArr xs) = Inr pdu"
    "map_of kvs ''reference'' = Some (JInt reference)" "map_of kvs ''group'' = Some (JInt grp)" "map_of kvs ''subfunction'' = Some (JInt subfunction)"
    "map_of kvs ''expected'' = Some e" "0 \<le> reference" "0 \<le> grp" "0 \<le> subfunction"
    "same (reply_json (mgmt_decode pdu reference grp subfunction)) e"
  using assms by (rule decoder_fields) (simp only: json.inject)

lemma decoder_expected_change:
  assumes "decoder_accepts (JObj kvs)" "map_of kvs ''expected'' = Some e" "decoder_accepts (JObj (AList.update ''expected'' e' kvs))"
  shows "\<exists>r. same (reply_json r) e \<and> same (reply_json r) e'"
  by (rule decoder_lookup[OF assms(1)], rule decoder_lookup[OF assms(3)]) (auto simp: update_conv' assms(2))

lemma decoder_pdu_change:
  assumes "decoder_accepts (JObj kvs)" "map_of kvs ''pdu'' = Some p" "decoder_accepts (JObj (AList.update ''pdu'' p' kvs))"
    and "is_accepted (JObj kvs) = Inr True"
  shows "\<exists>pdu pdu' reference grp subfunction b b'. octets p = Inr pdu \<and> octets p' = Inr pdu'
    \<and> mgmt_decode pdu reference grp subfunction = Accept b \<and> mgmt_decode pdu' reference grp subfunction = Accept b'"
proof -
  obtain xs pdu reference grp subfunction e where a: "map_of kvs ''pdu'' = Some (JArr xs)" "octets (JArr xs) = Inr pdu"
    "map_of kvs ''reference'' = Some (JInt reference)" "map_of kvs ''group'' = Some (JInt grp)" "map_of kvs ''subfunction'' = Some (JInt subfunction)"
    "map_of kvs ''expected'' = Some e" "same (reply_json (mgmt_decode pdu reference grp subfunction)) e"
    by (rule decoder_lookup[OF assms(1)])
  obtain pdu' where b: "octets p' = Inr pdu'" "same (reply_json (mgmt_decode pdu' reference grp subfunction)) e"
    by (rule decoder_lookup[OF assms(3)]) (use a in \<open>auto simp: update_conv'\<close>)
  have e: "jget ''status'' e = Inr (jtext ''accept'')"
    using assms(4) a(6) by (auto simp: is_accepted_def status_of_def)
  have "\<exists>b. r = Accept b" if "same (reply_json r) e" for r
    using same_reply(1)[OF that] e by (cases r) auto
  with a(1,2,7) b assms(2) show ?thesis by (metis option.inject)
qed

lemma flip_differs: "xor i 1 \<noteq> (i :: int)"
proof
  assume "xor i 1 = i"
  then have "xor i (xor i 1) = xor i i" by simp
  then show False by simp
qed

lemma status_changed: "same (reply_json r) (JObj es) \<Longrightarrow> \<not> same (reply_json r') (JObj (AList.update ''status'' (jtext ''changed'') es))"
  by (auto simp: update_conv' dest!: same_reply(1) split: reply.splits)

lemma field_flipped:
  assumes "same (reply_json r) (JObj es)" "map_of es ''status'' = Some (jtext ''accept'')"
    and "f \<in> set [''sequence'', ''data_unit_reference'', ''return_code'', ''transport_size'']"
  shows "\<exists>i. map_of es f = Some (JInt i) \<and> \<not> (same (reply_json r') (JObj es) \<and> same (reply_json r') (JObj (AList.update f (JInt (xor i 1)) es)))"
proof -
  have acc: "\<exists>b. r = Accept b" if "same (reply_json r) (JObj es)" for r
    using same_reply(1)[OF that] assms(2) by (cases r) auto
  then obtain b where b: "r = Accept b" using assms(1) by blast
  from assms(3) obtain i where i: "map_of es f = Some (JInt i)"
    using same_reply(2)[OF assms(1) b] by (auto split: option.splits)
  moreover have "jget f (JObj es) = jget f (JObj (AList.update f (JInt (xor i 1)) es))"
    if "same (reply_json r') (JObj es)" "same (reply_json r') (JObj (AList.update f (JInt (xor i 1)) es))"
  proof -
    note both = that
    obtain b' where "r' = Accept b'" using acc[OF both(1)] by blast
    then show ?thesis using same_reply(2)[OF both(1)] same_reply(2)[OF both(2)] assms(3) by auto
  qed
  ultimately show ?thesis using flip_differs[of i] by (auto simp: update_conv')
qed

lemma more_assigned:
  assumes "same (reply_json r) (JObj es)" "map_of es ''status'' = Some (jtext ''accept'')"
  shows "\<not> same (reply_json r') (JObj (AList.update ''has_more_data'' (JInt 0) es))"
proof
  assume s: "same (reply_json r') (JObj (AList.update ''has_more_data'' (JInt 0) es))"
  then have "\<exists>b. r' = Accept b" using same_reply(1)[OF s] assms(2) by (cases r') (auto simp: update_conv')
  then show False using same_reply(2)[OF s] by (auto simp: update_conv')
qed

lemma accept_size: "mgmt_decode pdu reference grp subfunction = Accept b \<Longrightarrow> length pdu = 22 + nat (be_int (slice 8 10 pdu))"
  by (auto simp: mgmt_decode_def Let_def split: if_splits)

lemma accepted_octets:
  assumes "decoder_accepts (JObj kvs)" "map_of kvs ''pdu'' = Some p" "is_accepted (JObj kvs) = Inr True"
    and "decoder_accepts (JObj (AList.update ''pdu'' p' kvs))" "octets p = Inr pdu"
  shows "26 \<le> length pdu" and "octets p' \<noteq> Inr (butlast pdu)"
    and "i \<in> set [0, 1, 4, 7, 10, 14, 15, 16, 23] \<Longrightarrow> octets p' \<noteq> Inr (pdu[i := byte (xor (uint (pdu ! i)) 1)])"
proof -
  obtain pdu' reference grp subfunction b b' where d: "octets p' = Inr pdu'"
    "mgmt_decode pdu reference grp subfunction = Accept b" "mgmt_decode pdu' reference grp subfunction = Accept b'"
    using decoder_pdu_change[OF assms(1,2,4,3)] assms(5) by auto
  show n: "26 \<le> length pdu" using accept_length[OF d(2)] .
  show "octets p' \<noteq> Inr (butlast pdu)"
  proof
    assume "octets p' = Inr (butlast pdu)"
    then have "length (butlast pdu) = 22 + nat (be_int (slice 8 10 (butlast pdu)))" using accept_size[OF d(3)] d(1) by simp
    moreover have "slice 8 10 (butlast pdu) = slice 8 10 pdu" using n by (simp add: slice_def butlast_conv_take drop_take)
    ultimately show False using accept_size[OF d(2)] n by simp
  qed
  show "octets p' \<noteq> Inr (pdu[i := byte (xor (uint (pdu ! i)) 1)])" if "i \<in> set [0, 1, 4, 7, 10, 14, 15, 16, 23]"
    using decode_determined[OF d(2) _ that] d(1,3) xor_one_byte by auto
qed

lemma each_passes: "list_all (\<lambda>x. f x = Inr ()) xs \<Longrightarrow> eachE f xs = Inr ()"
  by (auto simp: eachE_iff list_all_iff)

lemma octets_butlast: "octets (JArr xs) = Inr pdu \<Longrightarrow> octets (JArr (butlast xs)) = Inr (butlast pdu) \<and> length xs = length pdu"
  by (auto simp: octets_def mapE_Inr_iff list_all2_conv_all_nth nth_butlast)

lemma update_triv: "map_of kvs k = Some v \<Longrightarrow> AList.update k v kvs = kvs"
  by (induction kvs) auto

lemma decoder_controls_pass:
  assumes "map_of kvs ''decoder_cases'' = Some (JArr ds)" "i < length ds" "decoder_accepts (ds ! i)"
  shows "decoder_controls (JObj kvs) (i, ds ! i) = Inr ()"
proof -
  obtain ts where t: "ds ! i = JObj ts" using assms(3) by (rule decoder_fields)
  note acc = assms(3)[unfolded t]
  obtain xs pdu e where f: "map_of ts ''pdu'' = Some (JArr xs)" "octets (JArr xs) = Inr pdu" "map_of ts ''expected'' = Some e"
    and se: "\<exists>r. same (reply_json r) e" by (rule decoder_lookup[OF acc]) blast
  obtain r es where e: "e = JObj es" "same (reply_json r) (JObj es)"
    "map_of es ''status'' = Some (jtext (case r of Accept _ \<Rightarrow> ''accept'' | Reject _ \<Rightarrow> ''reject''))" using se same_reply(1) by blast
  note refuse = refuses_decoder[OF assms(1,2), unfolded t]
  have at_expected: "refuses_change (JObj kvs) (edit (Key ''decoder_cases'' # Nth i # Key ''expected'' # p) g) = Inr ()"
    if "edit p g (JObj es) = Inr e'" "\<And>r. same (reply_json r) (JObj es) \<Longrightarrow> \<not> same (reply_json r) e'" for p g e'
    using that decoder_expected_change[OF acc f(3), of e'] by (intro refuse[of _ _ "JObj (AList.update ''expected'' e' ts)"]) (auto simp: f(3) e(1))
  have "refuses_change (JObj kvs) (edit [Key ''decoder_cases'', Nth i, Key ''expected''] (jput ''status'' (jtext ''changed''))) = Inr ()"
    by (rule at_expected) (simp, rule status_changed)
  moreover have acpt: "is_accepted (JObj ts) = Inr (\<exists>b. r = Accept b)"
    using e f by (cases r) (simp_all add: is_accepted_def status_of_def)
  moreover {
    assume "\<exists>b. r = Accept b"
    then have y: "map_of es ''status'' = Some (jtext ''accept'')" "is_accepted (JObj ts) = Inr True" using e(3) acpt by auto
    have at_pdu: "refuses_change (JObj kvs) (edit (Key ''decoder_cases'' # Nth i # Key ''pdu'' # p) g) = Inr ()"
      if "edit p g (JArr xs) = Inr p'" "\<not> decoder_accepts (JObj (AList.update ''pdu'' p' ts))" for p g p'
      using that by (intro refuse[of _ _ "JObj (AList.update ''pdu'' p' ts)"]) (auto simp: f(1))
    have n: "26 \<le> length pdu"
    proof -
      obtain p' where "decoder_accepts (JObj (AList.update ''pdu'' p' ts))" "octets p' = Inr pdu"
        using acc f(1,2) by (intro that[of "JArr xs"]) (simp_all add: update_triv)
      then show ?thesis using accepted_octets(1)[OF acc f(1) y(2) _ f(2)] by blast
    qed
    have "refuses_change (JObj kvs) (edit [Key ''decoder_cases'', Nth i, Key ''pdu'', Nth k] flip_low) = Inr ()"
      if k: "k \<in> set [0, 1, 4, 7, 10, 14, 15, 16, 23]" for k
    proof -
      have "k < length pdu" using n k by auto
      note x = octets_nth[OF f(2) this]
      show ?thesis
      proof (rule at_pdu)
        show "edit [Nth k] flip_low (JArr xs) = Inr (JArr (xs[k := JInt (xor (uint (pdu ! k)) 1)]))"
          using x(1) \<open>k < length pdu\<close> by (simp add: x(2))
        show "\<not> decoder_accepts (JObj (AList.update ''pdu'' (JArr (xs[k := JInt (xor (uint (pdu ! k)) 1)])) ts))"
          using accepted_octets(3)[OF acc f(1) y(2) _ f(2) k] x(3) by blast
      qed
    qed
    moreover have "refuses_change (JObj kvs) (edit [Key ''decoder_cases'', Nth i, Key ''pdu''] drop_final) = Inr ()"
    proof -
      have "octets (JArr (butlast xs)) = Inr (butlast pdu)" "xs \<noteq> []" using octets_butlast[OF f(2)] n by auto
      then show ?thesis using accepted_octets(2)[OF acc f(1) y(2) _ f(2)] by (intro at_pdu[of _ _ "JArr (butlast xs)"]) (simp, blast)
    qed
    moreover have "refuses_change (JObj kvs) (edit [Key ''decoder_cases'', Nth i, Key ''expected'', Key field] flip_low) = Inr ()"
      if "field \<in> set [''sequence'', ''data_unit_reference'', ''return_code'', ''transport_size'']" for field
    proof -
      note flipped = field_flipped[OF e(2) y(1) that]
      obtain v where v: "map_of es field = Some (JInt v)" using flipped by blast
      show ?thesis using flipped v
        by (intro at_expected[of _ _ "JObj (AList.update field (JInt (xor v 1)) es)"]) auto
    qed
    moreover have "refuses_change (JObj kvs) (edit [Key ''decoder_cases'', Nth i, Key ''expected''] (jput ''has_more_data'' (JInt 0))) = Inr ()"
      by (rule at_expected) (simp, rule more_assigned[OF e(2) y(1)])
    ultimately have "list_all (\<lambda>k. refuses_change (JObj kvs) (edit [Key ''decoder_cases'', Nth i, Key ''pdu'', Nth k] flip_low) = Inr ())
          [0, 1, 4, 7, 10, 14, 15, 16, 23]
      \<and> list_all (\<lambda>field. refuses_change (JObj kvs) (edit [Key ''decoder_cases'', Nth i, Key ''expected'', Key field] flip_low) = Inr ())
          [''sequence'', ''data_unit_reference'', ''return_code'', ''transport_size'']
      \<and> refuses_change (JObj kvs) (edit [Key ''decoder_cases'', Nth i, Key ''expected''] (jput ''has_more_data'' (JInt 0))) = Inr ()
      \<and> refuses_change (JObj kvs) (edit [Key ''decoder_cases'', Nth i, Key ''pdu''] drop_final) = Inr ()"
      unfolding list_all_iff by blast
  }
  ultimately show ?thesis
    by (cases "\<exists>b. r = Accept b") (simp_all only: decoder_controls_def t Let_def prod.case bindE.simps each_passes if_True if_False simp_thms)
qed

section \<open>Continuations\<close>

lemma continuation_lookup:
  assumes "continuation_case (JObj kvs) a = Inr b"
  obtains grp subfunction steps s e where
    "shape (JObj kvs) [''id'', ''group'', ''subfunction'', ''steps'', ''expected''] = Inr ()" "identity (JObj kvs) a = Inr b"
    "map_of kvs ''group'' = Some (JInt grp)" "map_of kvs ''subfunction'' = Some (JInt subfunction)" "(grp, subfunction) \<in> {(4, 1), (3, 2)}"
    "map_of kvs ''steps'' = Some (JArr steps)" "1 \<le> length steps" "length steps \<le> 256"
    "cont_steps grp subfunction (length steps) 0 steps cont_init = Inr s" "map_of kvs ''expected'' = Some e" "same (cont_json s) e"
proof -
  obtain u g grp f subfunction v steps s e where d: "shape (JObj kvs) [''id'', ''group'', ''subfunction'', ''steps'', ''expected''] = Inr u"
    "identity (JObj kvs) a = Inr b" "jget ''group'' (JObj kvs) = Inr g" "integer g 15 = Inr grp"
    "jget ''subfunction'' (JObj kvs) = Inr f" "integer f 255 = Inr subfunction" "(grp, subfunction) \<in> {(4, 1), (3, 2)}"
    "jget ''steps'' (JObj kvs) = Inr v" "v = JArr steps" "1 \<le> length steps \<and> length steps \<le> 256"
    "cont_steps grp subfunction (length steps) 0 steps cont_init = Inr s" "jget ''expected'' (JObj kvs) = Inr e" "same (cont_json s) e"
    using assms unfolding continuation_case_def bindE_Inr_iff guardE_Inr_iff arr_of_Inr_iff sum.inject by (elim exE conjE) (rule that; simp only:)
  have look: "jget k (JObj kvs) = Inr v \<Longrightarrow> map_of kvs k = Some v" for k v by (simp split: option.splits)
  show thesis
    using that[OF _ d(2) _ _ d(7) _ _ _ d(11) look[OF d(12)] d(13)] d(1,4,6,9,10) look[OF d(3)] look[OF d(5)] look[OF d(8)]
    unfolding unit_eq[of u] by auto
qed

lemma continuation_obj: "continuation_accepts t \<Longrightarrow> \<exists>kvs. t = JObj kvs"
  using shape_obj by (fastforce simp: continuation_case_def)

lemma same_cont:
  assumes "same (cont_json s) e"
  shows "\<exists>es. e = JObj es \<and> map_of es ''status'' = Some (jtext (if ct_failure s = None then ''accept'' else ''reject''))"
  using assms by (cases "ct_failure s") (auto simp: cont_json_def same_obj same_atom)

lemma parse_leg_lookup:
  assumes "parse_leg (JObj kvs) = Inr leg"
  shows "fst ` set kvs = set [''reference'', ''request_pdu'', ''response_pdu'']"
    and "map_of kvs ''reference'' = Some (JInt (lg_reference leg))" "0 \<le> lg_reference leg" "lg_reference leg \<le> 65535"
    and "\<exists>xs. map_of kvs ''request_pdu'' = Some (JArr xs) \<and> octets (JArr xs) = Inr (lg_request leg)"
    and "\<exists>xs. map_of kvs ''response_pdu'' = Some (JArr xs) \<and> octets (JArr xs) = Inr (lg_response leg)"
proof -
  obtain u r q p reference sent received where d: "shape (JObj kvs) [''reference'', ''request_pdu'', ''response_pdu''] = Inr u"
    "jget ''reference'' (JObj kvs) = Inr r" "integer r 65535 = Inr reference" "jget ''request_pdu'' (JObj kvs) = Inr q" "octets q = Inr sent"
    "jget ''response_pdu'' (JObj kvs) = Inr p" "octets p = Inr received" "leg = \<lparr>lg_reference = reference, lg_request = sent, lg_response = received\<rparr>"
    using assms unfolding parse_leg_def bindE_Inr_iff sum.inject by (elim exE conjE) (rule that, (assumption | rule sym)+)
  have look: "jget k (JObj kvs) = Inr v \<Longrightarrow> map_of kvs k = Some v" for k v by (simp split: option.splits)
  show "fst ` set kvs = set [''reference'', ''request_pdu'', ''response_pdu'']" using shape_obj d(1) unfolding unit_eq[of u] by blast
  show "map_of kvs ''reference'' = Some (JInt (lg_reference leg))" "0 \<le> lg_reference leg" "lg_reference leg \<le> 65535"
    using d(3,8) look[OF d(2)] by simp_all
  show "\<exists>xs. map_of kvs ''request_pdu'' = Some (JArr xs) \<and> octets (JArr xs) = Inr (lg_request leg)"
    using octets_ints[OF d(5)] d(5,8) look[OF d(4)] by auto
  show "\<exists>xs. map_of kvs ''response_pdu'' = Some (JArr xs) \<and> octets (JArr xs) = Inr (lg_response leg)"
    using octets_ints[OF d(7)] d(7,8) look[OF d(6)] by auto
qed

lemma parse_leg_obj: "parse_leg step = Inr leg \<Longrightarrow> \<exists>kvs. step = JObj kvs"
  using shape_obj by (fastforce simp: parse_leg_def)

lemma parse_leg_update:
  assumes "parse_leg (JObj kvs) = Inr leg"
  shows "octets q = Inr sent \<Longrightarrow> parse_leg (JObj (AList.update ''request_pdu'' q kvs)) = Inr (leg\<lparr>lg_request := sent\<rparr>)"
    and "octets q = Inr sent \<Longrightarrow> parse_leg (JObj (AList.update ''response_pdu'' q kvs)) = Inr (leg\<lparr>lg_response := sent\<rparr>)"
proof -
  note l = parse_leg_lookup[OF assms]
  have "shape (JObj (AList.update k q kvs)) [''reference'', ''request_pdu'', ''response_pdu''] = Inr ()"
    if "k \<in> set [''reference'', ''request_pdu'', ''response_pdu'']" for k
    using keys_update[of k kvs q] l(1) that by (simp add: shape_def)
  then show "octets q = Inr sent \<Longrightarrow> parse_leg (JObj (AList.update ''request_pdu'' q kvs)) = Inr (leg\<lparr>lg_request := sent\<rparr>)"
    "octets q = Inr sent \<Longrightarrow> parse_leg (JObj (AList.update ''response_pdu'' q kvs)) = Inr (leg\<lparr>lg_response := sent\<rparr>)"
    using l(2-6) by (auto simp: parse_leg_def update_conv')
qed

lemma mapE_update:
  assumes "mapE f xs = Inr ys" "j < length xs"
  shows "mapE f (xs[j := x]) = Inr zs \<longleftrightarrow> (\<exists>z. f x = Inr z \<and> zs = ys[j := z])"
  using assms
proof (induction xs arbitrary: ys j zs)
  case (Cons a xs)
  then obtain y ys' where y: "f a = Inr y" "mapE f xs = Inr ys'" "ys = y # ys'" by auto
  show ?case
  proof (cases j)
    case 0
    then show ?thesis using y by (cases "f x") auto
  next
    case (Suc m)
    then show ?thesis using y Cons.IH[OF y(2), of m] Cons.prems(2) by auto
  qed
qed simp

lemma request_determined:
  assumes "cont_run grp subfunction n k legs s = Inr t" "cont_run grp subfunction n k (legs[j := l]) s = Inr t'" "j < length legs"
    and "lg_reference l = lg_reference (legs ! j)"
  shows "lg_request l = lg_request (legs ! j)"
  using assms
proof (induction legs arbitrary: k s j)
  case (Cons leg legs)
  then show ?case by (cases j) (auto simp: cont_step_def split: if_splits)
qed simp

text \<open>Requests name their token.\<close>

lemma request_tokens:
  assumes "mgmt_request reference grp subfunction (Some t) = Inr p" "mgmt_request reference grp subfunction (Some t') = Inr p"
    and "(grp, subfunction) \<in> {(4, 1), (3, 2)}"
  shows "t = t'"
proof -
  have range: "0 \<le> v \<and> v < 256" if "mgmt_request reference grp subfunction (Some v) = Inr p" for v
    using that by (auto simp: mgmt_request_def bytes_of_Inr_iff)
  have b: "0 \<le> reference" "reference < 65536" using assms(1) packet_bounds by (fastforce simp: mgmt_request_def)+
  have "p ! 17 = byte v" if "mgmt_request reference grp subfunction (Some v) = Inr p" for v
    using that assms(3) packet_ok[of 7 reference] b by (auto simp: mgmt_request_def bytes_of_Inr_iff len_def)
  then have "byte t = byte t'" using assms(1,2) by metis
  then have "uint (byte t) = uint (byte t')" by simp
  then show ?thesis using range[OF assms(1)] range[OF assms(2)] by (simp add: uint_byte_id)
qed

lemma request_long:
  assumes "mgmt_request reference grp subfunction token = Inr p" "(grp, subfunction) \<in> {(4, 1), (3, 2)}"
  shows "24 \<le> length p"
proof -
  have b: "0 \<le> reference" "reference < 65536" using assms(1) packet_bounds by (fastforce simp: mgmt_request_def)+
  show ?thesis using assms packet_ok[of 7 reference] b
    by (cases token) (auto simp: mgmt_request_def bytes_of_Inr_iff len_def split: if_splits)
qed

text \<open>What changing the sequence, the data unit or the continuation flag of an accepted reply does.\<close>

lemma decode_changed:
  assumes "mgmt_decode pdu reference grp subfunction = Accept b" "(grp, subfunction) \<in> {(4, 1), (3, 2)}"
  shows "mgmt_decode (pdu[17 := x]) reference grp subfunction = Accept (b\<lparr>rb_sequence := x\<rparr>)"
    and "mgmt_decode (pdu[18 := x]) reference grp subfunction = Accept (b\<lparr>rb_unit := x\<rparr>)"
    and "pdu ! 17 = rb_sequence b" "pdu ! 18 = rb_unit b" "pdu ! 19 = (if rb_more b then 1 else 0)"
    and "x \<in> {0, 1} \<Longrightarrow> mgmt_decode (pdu[19 := x]) reference grp subfunction = Accept (b\<lparr>rb_more := (x \<noteq> 0)\<rparr>)"
proof -
  obtain a0 a1 a2 a3 a4 a5 a6 a7 a8 a9 b0 b1 b2 b3 b4 b5 b6 b7 b8 b9 b10 b11 d0 d1 d2 d3 rest where
    pdu: "pdu = [a0,a1,a2,a3,a4,a5,a6,a7,a8,a9] @ [b0,b1,b2,b3,b4,b5,b6,b7,b8,b9,b10,b11] @ [d0,d1,d2,d3] @ rest"
    using accept_length[OF assms(1)] by (rule long_list)
  note d = assms(1)[unfolded pdu mgmt_decode_bytes]
  have null: "\<not> null_ack d0 grp subfunction" using assms(2) by (auto simp: null_ack_def)
  have "pdu[17 := x] = [a0,a1,a2,a3,a4,a5,a6,a7,a8,a9] @ [b0,b1,b2,b3,b4,b5,b6,x,b8,b9,b10,b11] @ [d0,d1,d2,d3] @ rest"
    "pdu[18 := x] = [a0,a1,a2,a3,a4,a5,a6,a7,a8,a9] @ [b0,b1,b2,b3,b4,b5,b6,b7,x,b9,b10,b11] @ [d0,d1,d2,d3] @ rest"
    "pdu[19 := x] = [a0,a1,a2,a3,a4,a5,a6,a7,a8,a9] @ [b0,b1,b2,b3,b4,b5,b6,b7,b8,x,b10,b11] @ [d0,d1,d2,d3] @ rest"
    by (simp_all add: pdu)
  note at = this
  show "mgmt_decode (pdu[17 := x]) reference grp subfunction = Accept (b\<lparr>rb_sequence := x\<rparr>)"
    "mgmt_decode (pdu[18 := x]) reference grp subfunction = Accept (b\<lparr>rb_unit := x\<rparr>)"
    unfolding at mgmt_decode_bytes using d by (simp_all del: be_int_Cons)
  show "x \<in> {0, 1} \<Longrightarrow> mgmt_decode (pdu[19 := x]) reference grp subfunction = Accept (b\<lparr>rb_more := (x \<noteq> 0)\<rparr>)"
    unfolding at mgmt_decode_bytes using d null by (simp del: be_int_Cons)
  show "pdu ! 17 = rb_sequence b" "pdu ! 18 = rb_unit b" "pdu ! 19 = (if rb_more b then 1 else 0)"
    using d by (auto simp: pdu)
qed

lemma second_reply:
  assumes "cont_run grp subfunction n 0 (l0 # l1 # rest) cont_init = Inr s" "ct_failure s = None" "(grp, subfunction) \<in> {(4, 1), (3, 2)}"
  defines "pdu \<equiv> lg_response l1"
    and "run \<equiv> \<lambda>i x. cont_run grp subfunction n 0 (l0 # l1\<lparr>lg_response := (lg_response l1)[i := x]\<rparr> # rest) cont_init"
  shows "26 \<le> length pdu" and "x \<noteq> pdu ! 18 \<Longrightarrow> run 18 x = Inr s' \<Longrightarrow> ct_failure s' \<noteq> None"
    and "x \<in> {0, 1} \<Longrightarrow> x \<noteq> pdu ! 19 \<Longrightarrow> run 19 x \<noteq> Inr s'"
    and "x \<noteq> pdu ! 17 \<Longrightarrow> rest \<noteq> [] \<Longrightarrow> run 17 x \<noteq> Inr s'"
    and "rest = [] \<Longrightarrow> run 17 x = Inr (s\<lparr>ct_token := Some x\<rparr>)"
    and "pdu ! 19 \<in> {0, 1}"
proof -
  obtain t0 t1 where t: "cont_step grp subfunction n 0 l0 cont_init = Inr t0" "cont_step grp subfunction n 1 l1 t0 = Inr t1"
      "cont_run grp subfunction n 2 rest t1 = Inr s"
    using assms(1) by (auto simp: numeral_2_eq_2)
  have t1: "ct_failure t1 = None" using cont_failed_stays[OF t(3)] assms(2) by (cases "ct_failure t1") auto
  have t0: "ct_failure t0 = None" using t(2) t1 by (cases "ct_failure t0") (auto simp: cont_step_def Let_def split: if_splits)
  have c0: "ct_failure cont_init = None" by (simp add: cont_init_def)
  have "\<exists>b0. ct_unit t0 = Some b0"
    using t(1) c0 by (cases rule: cont_step_cases) (use t0 in auto)
  then obtain b0 where b0: "ct_unit t0 = Some b0" by blast
  obtain b where b: "leg_reply grp subfunction l1 = Accept b" "rb_unit b = b0"
      "mgmt_request (lg_reference l1) grp subfunction (map_option uint (ct_token t0)) = Inr (lg_request l1)"
      "t1 = t0\<lparr>ct_unit := Some (rb_unit b), ct_token := Some (rb_sequence b), ct_payload := ct_payload t0 @ rb_payload b\<rparr>"
      "rb_more b = (1 + 1 < n)" "length (ct_payload t1) \<le> 16 * 1024 * 1024"
    using t(2) t0 by (cases rule: cont_step_cases) (use t1 b0 in auto)
  note d = decode_changed[OF b(1) assms(3)]
  have step: "cont_step grp subfunction n 1 (l1\<lparr>lg_response := q\<rparr>) t0
      = (if rb_unit c \<noteq> b0 then Inr (t0\<lparr>ct_failure := Some (ProtocolError, 1)\<rparr>)
         else if rb_more c \<noteq> (1 + 1 < n) then Inl ValueError
         else Inr (t0\<lparr>ct_unit := Some (rb_unit c), ct_token := Some (rb_sequence c), ct_payload := ct_payload t0 @ rb_payload c\<rparr>))"
    if "mgmt_decode q (lg_reference l1) grp subfunction = Accept c" "rb_payload c = rb_payload b" for q c
    using that b t0 b0 by (simp add: cont_step_def Let_def)
  have run: "run i x = bindE (cont_step grp subfunction n 1 (l1\<lparr>lg_response := (lg_response l1)[i := x]\<rparr>) t0) (cont_run grp subfunction n 2 rest)" for i x
    unfolding run_def using t(1) by (simp add: numeral_2_eq_2)
  show "26 \<le> length pdu" using accept_length[OF b(1)] by (simp add: pdu_def)
  show "pdu ! 19 \<in> {0, 1}" using d(5) by (simp add: pdu_def)
  show "ct_failure s' \<noteq> None" if "x \<noteq> pdu ! 18" "run 18 x = Inr s'"
  proof -
    have "run 18 x = cont_run grp subfunction n 2 rest (t0\<lparr>ct_failure := Some (ProtocolError, 1)\<rparr>)"
      using that(1) d(4) b(2) unfolding run by (subst step[OF d(2)]) (simp_all add: pdu_def)
    with that(2) cont_failed_stays[of grp subfunction n 2 rest "t0\<lparr>ct_failure := Some (ProtocolError, 1)\<rparr>" s'] show ?thesis by auto
  qed
  show "run 19 x \<noteq> Inr s'" if "x \<in> {0, 1}" "x \<noteq> pdu ! 19"
    using that d(5) b(2,5) unfolding run by (subst step[OF d(6)]) (auto simp: pdu_def split: if_splits)
  have seq: "run 17 x = cont_run grp subfunction n 2 rest (t1\<lparr>ct_token := Some x\<rparr>)" for x
    using b(2,4,5) unfolding run by (subst step[OF d(1)]; cases t0; simp)
  show "run 17 x = Inr (s\<lparr>ct_token := Some x\<rparr>)" if "rest = []" using seq t(3) that by simp
  show "run 17 x \<noteq> Inr s'" if "x \<noteq> pdu ! 17" "rest \<noteq> []"
  proof
    note differs = that
    assume r: "run 17 x = Inr s'"
    obtain l2 ls where l: "rest = l2 # ls" using differs(2) by (cases rest) auto
    have "mgmt_request (lg_reference l2) grp subfunction (Some (uint (rb_sequence b))) = Inr (lg_request l2)"
      using t(3) b(4) by (auto simp: l cont_step_def split: if_splits)
    moreover have "mgmt_request (lg_reference l2) grp subfunction (Some (uint x)) = Inr (lg_request l2)"
      using r unfolding seq by (auto simp: l cont_step_def split: if_splits)
    ultimately have "uint (rb_sequence b) = uint x" using assms(3) by (rule request_tokens)
    then show False using differs(1) d(3) by (simp add: pdu_def word_uint_eq_iff)
  qed
qed

text \<open>A case with other steps.\<close>

lemma continuation_steps_change:
  assumes "continuation_case (JObj kvs) a = Inr b" "map_of kvs ''steps'' = Some (JArr steps)" "length steps' = length steps"
    and "map_of kvs ''group'' = Some (JInt grp)" "map_of kvs ''subfunction'' = Some (JInt subfunction)" "map_of kvs ''expected'' = Some e"
  shows "continuation_accepts (JObj (AList.update ''steps'' (JArr steps') kvs))
      \<Longrightarrow> \<exists>s'. cont_steps grp subfunction (length steps) 0 steps' cont_init = Inr s' \<and> same (cont_json s') e"
    and "cont_steps grp subfunction (length steps) 0 steps' cont_init = Inr s' \<Longrightarrow> same (cont_json s') e
      \<Longrightarrow> continuation_case (JObj (AList.update ''steps'' (JArr steps') kvs)) a = Inr b"
proof -
  show "\<exists>s'. cont_steps grp subfunction (length steps) 0 steps' cont_init = Inr s' \<and> same (cont_json s') e"
    if acc: "continuation_accepts (JObj (AList.update ''steps'' (JArr steps') kvs))"
  proof -
    obtain c d where "continuation_case (JObj (AList.update ''steps'' (JArr steps') kvs)) c = Inr d" using acc by blast
    then show ?thesis by (rule continuation_lookup) (use assms in \<open>auto simp: update_conv'\<close>)
  qed
  show "continuation_case (JObj (AList.update ''steps'' (JArr steps') kvs)) a = Inr b"
    if run: "cont_steps grp subfunction (length steps) 0 steps' cont_init = Inr s'" and e: "same (cont_json s') e"
  proof -
    let ?t = "JObj (AList.update ''steps'' (JArr steps') kvs)"
    obtain grp' subfunction' steps0 where d: "shape (JObj kvs) [''id'', ''group'', ''subfunction'', ''steps'', ''expected''] = Inr ()"
      "identity (JObj kvs) a = Inr b" "map_of kvs ''group'' = Some (JInt grp')" "map_of kvs ''subfunction'' = Some (JInt subfunction')"
      "(grp', subfunction') \<in> {(4, 1), (3, 2)}" "map_of kvs ''steps'' = Some (JArr steps0)" "1 \<le> length steps0" "length steps0 \<le> 256"
      using assms(1) by (rule continuation_lookup) blast
    have "shape ?t [''id'', ''group'', ''subfunction'', ''steps'', ''expected''] = Inr ()"
      using d(1) keys_update[of "''steps''" kvs "JArr steps'"] by (simp add: shape_def)
    moreover have "identity ?t a = Inr b" using d(2) by (simp add: identity_def update_conv')
    moreover have "integer (JInt grp) 15 = Inr grp" "integer (JInt subfunction) 255 = Inr subfunction" "(grp, subfunction) \<in> {(4, 1), (3, 2)}"
      using d(3-5) assms(4,5) by auto
    moreover have "1 \<le> length steps'" "length steps' \<le> 256" using d(6-8) assms(2,3) by simp_all
    ultimately show ?thesis using run e assms(3-6)
      unfolding continuation_case_def by (simp add: update_conv')
  qed
qed

lemma cont_run_steps:
  "mapE parse_leg steps = Inr legs \<Longrightarrow> cont_run grp subfunction n k legs s = Inr s' \<Longrightarrow> cont_steps grp subfunction n k steps s = Inr s'"
  by (induction steps arbitrary: k s legs) auto

text \<open>An octet of one leg's request or response flipped in the document.\<close>

lemma leg_flip:
  assumes "map_of ts ''steps'' = Some (JArr steps)" "mapE parse_leg steps = Inr legs" "j < length steps"
  shows "k < length (lg_request (legs ! j)) \<Longrightarrow> \<exists>steps'. length steps' = length steps
      \<and> edit [Key ''steps'', Nth j, Key ''request_pdu'', Nth k] flip_low (JObj ts) = Inr (JObj (AList.update ''steps'' (JArr steps') ts))
      \<and> mapE parse_leg steps' = Inr (legs[j := (legs ! j)\<lparr>lg_request := (lg_request (legs ! j))[k := byte (xor (uint (lg_request (legs ! j) ! k)) 1)]\<rparr>])"
    and "k < length (lg_response (legs ! j)) \<Longrightarrow> \<exists>steps'. length steps' = length steps
      \<and> edit [Key ''steps'', Nth j, Key ''response_pdu'', Nth k] flip_low (JObj ts) = Inr (JObj (AList.update ''steps'' (JArr steps') ts))
      \<and> mapE parse_leg steps' = Inr (legs[j := (legs ! j)\<lparr>lg_response := (lg_response (legs ! j))[k := byte (xor (uint (lg_response (legs ! j) ! k)) 1)]\<rparr>])"
proof -
  have p: "parse_leg (steps ! j) = Inr (legs ! j)" using assms(2,3) by (auto simp: mapE_Inr_iff list_all2_conv_all_nth)
  then obtain sj where sj: "steps ! j = JObj sj" using parse_leg_obj by blast
  note look = parse_leg_lookup[OF p[unfolded sj]]
  show "\<exists>steps'. length steps' = length steps
      \<and> edit [Key ''steps'', Nth j, Key ''request_pdu'', Nth k] flip_low (JObj ts) = Inr (JObj (AList.update ''steps'' (JArr steps') ts))
      \<and> mapE parse_leg steps' = Inr (legs[j := (legs ! j)\<lparr>lg_request := (lg_request (legs ! j))[k := byte (xor (uint (lg_request (legs ! j) ! k)) 1)]\<rparr>])"
    if k: "k < length (lg_request (legs ! j))"
  proof -
    obtain xs where xs: "map_of sj ''request_pdu'' = Some (JArr xs)" "octets (JArr xs) = Inr (lg_request (legs ! j))" using look(5) by blast
    note x = octets_nth[OF xs(2) k]
    let ?steps = "steps[j := JObj (AList.update ''request_pdu'' (JArr (xs[k := JInt (xor (uint (lg_request (legs ! j) ! k)) 1)])) sj)]"
    show ?thesis using assms xs(1) x(1,2) k sj parse_leg_update(1)[OF p[unfolded sj] x(3)]
      by (intro exI[of _ ?steps]) (simp add: mapE_update[OF assms(2,3)])
  qed
  show "\<exists>steps'. length steps' = length steps
      \<and> edit [Key ''steps'', Nth j, Key ''response_pdu'', Nth k] flip_low (JObj ts) = Inr (JObj (AList.update ''steps'' (JArr steps') ts))
      \<and> mapE parse_leg steps' = Inr (legs[j := (legs ! j)\<lparr>lg_response := (lg_response (legs ! j))[k := byte (xor (uint (lg_response (legs ! j) ! k)) 1)]\<rparr>])"
    if k: "k < length (lg_response (legs ! j))"
  proof -
    obtain xs where xs: "map_of sj ''response_pdu'' = Some (JArr xs)" "octets (JArr xs) = Inr (lg_response (legs ! j))" using look(6) by blast
    note x = octets_nth[OF xs(2) k]
    let ?steps = "steps[j := JObj (AList.update ''response_pdu'' (JArr (xs[k := JInt (xor (uint (lg_response (legs ! j) ! k)) 1)])) sj)]"
    show ?thesis using assms xs(1) x(1,2) k sj parse_leg_update(2)[OF p[unfolded sj] x(3)]
      by (intro exI[of _ ?steps]) (simp add: mapE_update[OF assms(2,3)])
  qed
qed

lemma run_requests_long:
  "cont_run grp subfunction n k legs s = Inr s' \<Longrightarrow> (grp, subfunction) \<in> {(4, 1), (3, 2)} \<Longrightarrow> l \<in> set legs \<Longrightarrow> 24 \<le> length (lg_request l)"
  by (induction legs arbitrary: k s) (auto simp: cont_step_def dest: request_long split: if_splits)

definition history_length :: "json \<Rightarrow> nat" where
  "history_length test = (case jget ''steps'' test of Inr (JArr steps) \<Rightarrow> length steps | _ \<Rightarrow> 0)"

lemma continuation_requests_refused:
  assumes "map_of kvs ''continuation_cases'' = Some (JArr cs)" "i < length cs" "cs ! i = JObj ts" "continuation_case (JObj ts) a = Inr b"
    and "map_of ts ''steps'' = Some (JArr steps)" "j < length steps" "k \<in> set [4, 14, 17]"
  shows "refuses_change (JObj kvs) (edit [Key ''continuation_cases'', Nth i, Key ''steps'', Nth j, Key ''request_pdu'', Nth k] flip_low) = Inr ()"
proof -
  obtain grp subfunction s e where d: "map_of ts ''group'' = Some (JInt grp)" "map_of ts ''subfunction'' = Some (JInt subfunction)"
      "(grp, subfunction) \<in> {(4, 1), (3, 2)}" "cont_steps grp subfunction (length steps) 0 steps cont_init = Inr s" "map_of ts ''expected'' = Some e"
    using assms(4) by (rule continuation_lookup) (simp add: assms(5))
  obtain legs where l: "mapE parse_leg steps = Inr legs" "cont_run grp subfunction (length steps) 0 legs cont_init = Inr s"
    using cont_steps_run[OF d(4)] by blast
  have n: "length legs = length steps" using mapE_length[OF l(1)] .
  have "k < length (lg_request (legs ! j))" using run_requests_long[OF l(2) d(3), of "legs ! j"] assms(6,7) n by auto
  from leg_flip(1)[OF assms(5) l(1) assms(6) this] obtain steps' where steps': "length steps' = length steps"
      "edit [Key ''steps'', Nth j, Key ''request_pdu'', Nth k] flip_low (JObj ts) = Inr (JObj (AList.update ''steps'' (JArr steps') ts))"
      "mapE parse_leg steps' = Inr (legs[j := (legs ! j)\<lparr>lg_request := (lg_request (legs ! j))[k := byte (xor (uint (lg_request (legs ! j) ! k)) 1)]\<rparr>])"
    by blast
  have "\<not> continuation_accepts (JObj (AList.update ''steps'' (JArr steps') ts))"
  proof
    assume "continuation_accepts (JObj (AList.update ''steps'' (JArr steps') ts))"
    then obtain s' where "cont_steps grp subfunction (length steps) 0 steps' cont_init = Inr s'"
      using continuation_steps_change(1)[OF assms(4,5) steps'(1) d(1,2,5)] by blast
    then have "cont_run grp subfunction (length steps) 0
        (legs[j := (legs ! j)\<lparr>lg_request := (lg_request (legs ! j))[k := byte (xor (uint (lg_request (legs ! j) ! k)) 1)]\<rparr>]) cont_init = Inr s'"
      using cont_steps_run steps'(3) by (metis sum.inject(2))
    from request_determined[OF l(2) this] have "(lg_request (legs ! j))[k := byte (xor (uint (lg_request (legs ! j) ! k)) 1)] = lg_request (legs ! j)"
      using assms(6) n by simp
    then show False using xor_one_byte \<open>k < length (lg_request (legs ! j))\<close> by (metis nth_list_update_eq)
  qed
  then show ?thesis by (rule refuses_continuation[OF assms(1,2), unfolded assms(3), OF steps'(2)])
qed

lemma each_case_replace:
  "each_case check xs seen = Inr r \<Longrightarrow> (\<And>a b. check (xs ! i) a = Inr b \<Longrightarrow> check t a = Inr b) \<Longrightarrow> each_case check (xs[i := t]) seen = Inr r"
proof (induction xs arbitrary: i seen)
  case (Cons x xs)
  then show ?case by (cases i) auto
qed simp

lemma validate_replaced:
  assumes "mgmt_validate (JObj kvs) = Inr counts" "map_of kvs ''continuation_cases'' = Some (JArr cs)"
    and "\<And>a b. continuation_case (cs ! i) a = Inr b \<Longrightarrow> continuation_case t a = Inr b"
  shows "mgmt_validate (JObj (AList.update ''continuation_cases'' (JArr (cs[i := t])) kvs)) = Inr counts"
  using assms(1)
proof (rule validate_parts)
  fix ds cs' s1 s2
  assume v: "shape (JObj kvs) [''schema_version'', ''protocol'', ''decoder_cases'', ''continuation_cases''] = Inr ()"
    "jget ''schema_version'' (JObj kvs) = Inr (JInt 1)" "jget ''protocol'' (JObj kvs) = Inr (jtext ''classic S7 management codec conversations'')"
    "jget ''decoder_cases'' (JObj kvs) = Inr (JArr ds)" "jget ''continuation_cases'' (JObj kvs) = Inr (JArr cs')"
    "1 \<le> length ds" "length ds \<le> 10000" "1 \<le> length cs'" "length cs' \<le> 10000"
    "each_case decoder_case ds [] = Inr s1" "each_case continuation_case cs' s1 = Inr s2" "counts = (length ds, length cs')"
  let ?c = "JObj (AList.update ''continuation_cases'' (JArr (cs[i := t])) kvs)"
  have cs: "cs' = cs" using v(5) assms(2) by simp
  have "shape ?c [''schema_version'', ''protocol'', ''decoder_cases'', ''continuation_cases''] = Inr ()"
    using v(1) keys_update[of "''continuation_cases''" kvs] by (simp add: shape_def)
  moreover have "jget ''schema_version'' ?c = Inr (JInt 1)" "jget ''protocol'' ?c = Inr (jtext ''classic S7 management codec conversations'')"
    "jget ''decoder_cases'' ?c = Inr (JArr ds)" "jget ''continuation_cases'' ?c = Inr (JArr (cs[i := t]))"
    using v(2-4) by (simp_all add: update_conv')
  moreover have "each_case continuation_case (cs[i := t]) s1 = Inr s2" using v(11) assms(3) unfolding cs by (rule each_case_replace)
  ultimately show ?thesis using v(6-10,12) cs unfolding mgmt_validate_def by simp
qed

lemma token_unseen: "cont_json (s\<lparr>ct_token := t\<rparr>) = cont_json s"
  by (cases s) (simp add: cont_json_def split: option.splits)

lemma continuation_responses_refused:
  assumes "mgmt_validate (JObj kvs) = Inr counts" "map_of kvs ''continuation_cases'' = Some (JArr cs)" "i < length cs" "cs ! i = JObj ts"
    and "continuation_case (JObj ts) a = Inr b" "map_of ts ''steps'' = Some (JArr steps)" "is_accepted (JObj ts) = Inr True"
  defines "control \<equiv> \<lambda>k. refuses_change (JObj kvs) (edit [Key ''continuation_cases'', Nth i, Key ''steps'', Nth 1, Key ''response_pdu'', Nth k] flip_low)"
  shows "eachE control [18, 17, 19] = Inr () \<longleftrightarrow> 3 \<le> length steps"
proof -
  obtain grp subfunction s e where d: "map_of ts ''group'' = Some (JInt grp)" "map_of ts ''subfunction'' = Some (JInt subfunction)"
      "(grp, subfunction) \<in> {(4, 1), (3, 2)}" "1 \<le> length steps" "cont_steps grp subfunction (length steps) 0 steps cont_init = Inr s"
      "map_of ts ''expected'' = Some e" "same (cont_json s) e"
    using assms(5) by (rule continuation_lookup) (simp add: assms(6))
  obtain legs where l: "mapE parse_leg steps = Inr legs" "cont_run grp subfunction (length steps) 0 legs cont_init = Inr s"
    using cont_steps_run[OF d(5)] by blast
  have n: "length legs = length steps" using mapE_length[OF l(1)] .
  have e: "jget ''status'' e = Inr (jtext ''accept'')" using assms(7) d(6) by (auto simp: is_accepted_def status_of_def)
  have ok: "ct_failure s' = None" if "same (cont_json s') e" for s' using same_cont[OF that] e by (auto split: if_splits)
  have each: "eachE control [18, 17, 19] = Inr () \<longleftrightarrow> control 18 = Inr () \<and> control 17 = Inr () \<and> control 19 = Inr ()"
    by (auto simp: eachE_iff)
  show ?thesis
  proof (cases "length steps = 1")
    case True
    then have "control 18 \<noteq> Inr ()" unfolding control_def refuses_change_iff using assms(2-4,6) by auto
    with True each show ?thesis by simp
  next
    case False
    then have "Suc (Suc 0) \<le> length legs" using n d(4) by simp
    then obtain l0 l1 rest where legs: "legs = l0 # l1 # rest" unfolding Suc_le_length_iff by blast
    note second = second_reply[OF l(2)[unfolded legs] ok[OF d(7)] d(3)]
    have j: "1 < length steps" using False d(4) by simp
    let ?x = "\<lambda>k. byte (xor (uint (lg_response l1 ! k)) 1)"
    have "\<exists>steps'. length steps' = length steps
      \<and> edit [Key ''steps'', Nth 1, Key ''response_pdu'', Nth k] flip_low (JObj ts) = Inr (JObj (AList.update ''steps'' (JArr steps') ts))
      \<and> mapE parse_leg steps' = Inr (l0 # l1\<lparr>lg_response := (lg_response l1)[k := ?x k]\<rparr> # rest)" if "k < 26" for k
      using leg_flip(2)[OF assms(6) l(1) j, of k] second(1) that by (simp add: legs)
    then obtain S where S: "\<And>k. k < 26 \<Longrightarrow> length (S k) = length steps"
      "\<And>k. k < 26 \<Longrightarrow> edit [Key ''steps'', Nth 1, Key ''response_pdu'', Nth k] flip_low (JObj ts) = Inr (JObj (AList.update ''steps'' (JArr (S k)) ts))"
      "\<And>k. k < 26 \<Longrightarrow> mapE parse_leg (S k) = Inr (l0 # l1\<lparr>lg_response := (lg_response l1)[k := ?x k]\<rparr> # rest)" by metis
    have refused: "control k = Inr ()" if k: "k < 26"
      and no: "\<And>s'. cont_run grp subfunction (length steps) 0 (l0 # l1\<lparr>lg_response := (lg_response l1)[k := ?x k]\<rparr> # rest) cont_init = Inr s'
        \<Longrightarrow> ct_failure s' \<noteq> None" for k
    proof -
      have "\<not> continuation_accepts (JObj (AList.update ''steps'' (JArr (S k)) ts))"
      proof
        assume "continuation_accepts (JObj (AList.update ''steps'' (JArr (S k)) ts))"
        then obtain s' where "cont_steps grp subfunction (length steps) 0 (S k) cont_init = Inr s'" "same (cont_json s') e"
          using continuation_steps_change(1)[OF assms(5,6) S(1)[OF k] d(1,2,6)] by blast
        then show False using cont_steps_run S(3)[OF k] no ok by (metis sum.inject(2))
      qed
      then show ?thesis unfolding control_def by (rule refuses_continuation[OF assms(2,3), unfolded assms(4), OF S(2)[OF k]])
    qed
    have "control 18 = Inr ()" by (rule refused) (simp, rule second(2)[OF xor_one_byte])
    moreover have "?x 19 \<in> {0, 1}" using second(6) by (auto simp: byte_def)
    from second(3)[OF this xor_one_byte] have "control 19 = Inr ()" by (intro refused) (simp, blast)
    moreover have "control 17 = Inr () \<longleftrightarrow> rest \<noteq> []"
    proof
      assume "rest \<noteq> []"
      from second(4)[OF xor_one_byte this] show "control 17 = Inr ()" by (intro refused) (simp, blast)
    next
      show "rest \<noteq> []" if c: "control 17 = Inr ()"
      proof
        assume "rest = []"
        have "same (cont_json (s\<lparr>ct_token := Some (?x 17)\<rparr>)) e" using d(7) by (simp add: token_unseen)
        moreover have "cont_steps grp subfunction (length steps) 0 (S 17) cont_init = Inr (s\<lparr>ct_token := Some (?x 17)\<rparr>)"
          using second(5)[OF \<open>rest = []\<close>] S(3)[of 17] by (intro cont_run_steps) auto
        ultimately have "continuation_case (JObj (AList.update ''steps'' (JArr (S 17)) ts)) a' = Inr b'" if "continuation_case (JObj ts) a' = Inr b'" for a' b'
          using continuation_steps_change(2)[OF that assms(6) S(1)[of 17] d(1,2,6)] by simp
        then have "mgmt_validate (JObj (AList.update ''continuation_cases'' (JArr (cs[i := JObj (AList.update ''steps'' (JArr (S 17)) ts)])) kvs)) = Inr counts"
          by (intro validate_replaced[OF assms(1,2)]) (simp add: assms(4))
        then show False using c S(2)[of 17] assms(2-4) unfolding control_def refuses_change_iff
          by (cases counts) (auto simp del: edit.simps simp: edit_key edit_nth)
      qed
    qed
    moreover have "rest \<noteq> [] \<longleftrightarrow> 3 \<le> length steps" using n legs by (cases rest) auto
    ultimately show ?thesis unfolding each by blast
  qed
qed

lemma continuation_controls_iff:
  assumes "mgmt_validate (JObj kvs) = Inr counts" "map_of kvs ''continuation_cases'' = Some (JArr cs)" "i < length cs"
  shows "continuation_controls (JObj kvs) (i, cs ! i) = Inr () \<longleftrightarrow> (is_accepted (cs ! i) = Inr True \<longrightarrow> 3 \<le> history_length (cs ! i))"
proof -
  have "continuation_accepts (cs ! i)" using validate_continuation[OF assms(1)] assms(2,3) by simp
  then obtain ts a b where t: "cs ! i = JObj ts" "continuation_case (JObj ts) a = Inr b" using continuation_obj by metis
  obtain steps s e where d: "map_of ts ''steps'' = Some (JArr steps)" "map_of ts ''expected'' = Some e" "same (cont_json s) e"
    using t(2) by (rule continuation_lookup) blast
  obtain es where es: "e = JObj es" "map_of es ''status'' = Some (jtext (if ct_failure s = None then ''accept'' else ''reject''))"
    using same_cont[OF d(3)] by blast
  let ?e = "JObj (AList.update ''status'' (jtext ''changed'') es)"
  have "\<not> continuation_accepts (JObj (AList.update ''expected'' ?e ts))"
  proof
    assume "continuation_accepts (JObj (AList.update ''expected'' ?e ts))"
    then obtain c d where "continuation_case (JObj (AList.update ''expected'' ?e ts)) c = Inr d" by blast
    then obtain s' where "same (cont_json s') ?e" by (rule continuation_lookup) (simp add: update_conv')
    then show False using same_cont by (fastforce simp: update_conv' split: if_splits)
  qed
  moreover have "edit [Key ''expected''] (jput ''status'' (jtext ''changed'')) (JObj ts) = Inr (JObj (AList.update ''expected'' ?e ts))"
    by (simp add: d(2) es(1))
  ultimately have status: "refuses_change (JObj kvs) (edit [Key ''continuation_cases'', Nth i, Key ''expected''] (jput ''status'' (jtext ''changed''))) = Inr ()"
    using refuses_continuation[OF assms(2,3), unfolded t(1)] by blast
  have requests: "eachE (\<lambda>j. eachE (\<lambda>k. refuses_change (JObj kvs)
      (edit [Key ''continuation_cases'', Nth i, Key ''steps'', Nth j, Key ''request_pdu'', Nth k] flip_low)) [4, 14, 17]) [0..<length steps] = Inr ()"
    using continuation_requests_refused[OF assms(2,3) t d(1)] by (intro each_passes) (auto simp: list_all_iff intro!: each_passes)
  have acc: "is_accepted (JObj ts) = Inr (ct_failure s = None)" using d(2) es by (simp add: is_accepted_def status_of_def)
  have len: "history_length (JObj ts) = length steps" by (simp add: history_length_def d(1))
  have "continuation_controls (JObj kvs) (i, JObj ts) = (if ct_failure s = None then eachE (\<lambda>position. refuses_change (JObj kvs)
      (edit [Key ''continuation_cases'', Nth i, Key ''steps'', Nth 1, Key ''response_pdu'', Nth position] flip_low)) [18, 17, 19] else Inr ())"
    using requests by (simp add: continuation_controls_def status d(1) acc del: edit.simps)
  then show ?thesis
    using continuation_responses_refused[OF assms(1-3) t d(1)] acc len unfolding t(1) by (cases "ct_failure s = None") simp_all
qed

section \<open>The script\<close>

lemma decoder_identity: "decoder_case t a = Inr b \<Longrightarrow> \<exists>i. jget ''id'' t = Inr (JStr i) \<and> i \<notin> set a \<and> b = i # a"
proof -
  assume "decoder_case t a = Inr b"
  then obtain seen where "identity t a = Inr seen" "seen = b"
    unfolding decoder_case_def bindE_Inr_iff guardE_Inr_iff sum.inject by (elim exE conjE) (rule that)
  then show ?thesis using identity_iff by blast
qed

lemma seen_identities:
  "each_case decoder_case ds a = Inr b \<Longrightarrow> set a \<subseteq> set b \<and> (\<forall>t \<in> set ds. \<exists>i. jget ''id'' t = Inr (JStr i) \<and> i \<in> set b)"
proof (induction ds arbitrary: a)
  case (Cons t ds)
  then obtain c where c: "decoder_case t a = Inr c" "each_case decoder_case ds c = Inr b" by auto
  with Cons.IH[OF c(2)] decoder_identity[OF c(1)] show ?case by auto
qed simp

lemma each_case_append: "each_case check (xs @ ys) a = bindE (each_case check xs a) (each_case check ys)"
proof (induction xs arbitrary: a)
  case (Cons x xs)
  then show ?case by (cases "check x a") simp_all
qed simp

lemma duplicate_refused: "t \<in> set ds \<Longrightarrow> each_case decoder_case (ds @ [t]) a \<noteq> Inr b"
proof
  assume t: "t \<in> set ds" and "each_case decoder_case (ds @ [t]) a = Inr b"
  then obtain c where "each_case decoder_case ds a = Inr c" "decoder_case t c = Inr b" by (auto simp: each_case_append)
  then show False using seen_identities[of ds a c] decoder_identity[of t c b] t by fastforce
qed

lemma first_case_refused:
  assumes "map_of kvs ''decoder_cases'' = Some (JArr ds)" "ds \<noteq> []" "ds ! 0 = JObj ts" "decoder_accepts (JObj ts)"
  shows "field \<in> set [''reference'', ''group'', ''subfunction''] \<Longrightarrow> bad \<in> set [JBool True, JFloat 1 0, jtext ''1'', JInt (- 1)]
      \<Longrightarrow> refuses_change (JObj kvs) (edit [Key ''decoder_cases'', Nth 0] (jput field bad)) = Inr ()"
    and "refuses_change (JObj kvs) (edit [Key ''decoder_cases'', Nth 0] (jput ''unknown'' JNull)) = Inr ()"
proof -
  note refuse = refuses_decoder[OF assms(1), of 0 "[]", unfolded assms(3)]
  show "refuses_change (JObj kvs) (edit [Key ''decoder_cases'', Nth 0] (jput field bad)) = Inr ()"
    if f: "field \<in> set [''reference'', ''group'', ''subfunction'']" and b: "bad \<in> set [JBool True, JFloat 1 0, jtext ''1'', JInt (- 1)]"
  proof -
    have "\<not> decoder_accepts (JObj (AList.update field bad ts))"
    proof
      assume "decoder_accepts (JObj (AList.update field bad ts))"
      then show False by (rule decoder_lookup) (use f b in \<open>auto simp: update_conv' split: if_splits\<close>)
    qed
    then show ?thesis using assms(2) by (intro refuse) auto
  qed
  have "\<not> decoder_accepts (JObj (AList.update ''unknown'' JNull ts))"
  proof
    assume "decoder_accepts (JObj (AList.update ''unknown'' JNull ts))"
    then obtain kvs' where "AList.update ''unknown'' JNull ts = kvs'"
      "fst ` set kvs' = set [''id'', ''reference'', ''group'', ''subfunction'', ''pdu'', ''expected'']"
      by (rule decoder_fields) blast
    moreover have "''unknown'' \<in> fst ` set (AList.update ''unknown'' JNull ts)" by (simp add: dom_update)
    ultimately have "''unknown'' \<in> set [''id'', ''reference'', ''group'', ''subfunction'', ''pdu'', ''expected'']" by metis
    then show False by simp
  qed
  then show "refuses_change (JObj kvs) (edit [Key ''decoder_cases'', Nth 0] (jput ''unknown'' JNull)) = Inr ()"
    using assms(2) by (intro refuse) auto
qed

text \<open>The first case's octets; an empty reply has none to change.\<close>

lemma first_octet_refused:
  assumes "map_of kvs ''decoder_cases'' = Some (JArr ds)" "ds \<noteq> []" "ds ! 0 = JObj ts" "decoder_accepts (JObj ts)"
    and "map_of ts ''pdu'' = Some (JArr xs)" "bad \<in> set [JBool True, JFloat 1 0, JInt (- 1), JInt 256]"
  shows "refuses_change (JObj kvs) (edit [Key ''decoder_cases'', Nth 0, Key ''pdu'', Nth 0] (\<lambda>_. Inr bad)) = Inr () \<longleftrightarrow> xs \<noteq> []"
proof (cases "xs = []")
  case True
  then show ?thesis using assms by (auto simp: refuses_change_iff)
next
  case False
  have "octets (JArr (xs[0 := bad])) \<noteq> Inr q" for q
    using False assms(6) by (cases xs) (auto simp: octets_def)
  moreover have "\<exists>xs' pdu'. xs' = xs[0 := bad] \<and> octets (JArr xs') = Inr pdu'"
    if "decoder_accepts (JObj (AList.update ''pdu'' (JArr (xs[0 := bad])) ts))"
    using that by (rule decoder_lookup) (simp add: update_conv')
  ultimately have "\<not> decoder_accepts (JObj (AList.update ''pdu'' (JArr (xs[0 := bad])) ts))" by blast
  moreover have "edit [Key ''pdu'', Nth 0] (\<lambda>_. Inr bad) (JObj ts) = Inr (JObj (AList.update ''pdu'' (JArr (xs[0 := bad])) ts))"
    using False assms(5) by simp
  ultimately show ?thesis using False refuses_decoder[OF assms(1), of 0, unfolded assms(3)] assms(2) by auto
qed

text \<open>What the script needs of a corpus that passes the check: octets in the first decoder case, and a third step in every
  accepted history, because a changed token shows in the request that follows it only.\<close>

definition controllable :: "json \<Rightarrow> bool" where
  "controllable corpus =
     (case (bindE (bindE (jget ''decoder_cases'' corpus) (jnth 0)) (jget ''pdu''), jget ''continuation_cases'' corpus) of
        (Inr (JArr first), Inr (JArr histories)) \<Rightarrow>
          first \<noteq> [] \<and> list_all (\<lambda>test. is_accepted test = Inr True \<longrightarrow> 3 \<le> history_length test) histories
      | _ \<Rightarrow> False)"

lemma each_unit: "eachE f xs = Inr () \<longleftrightarrow> (\<forall>x \<in> set xs. f x = Inr (() :: unit))"
  by (auto simp: eachE_iff list_all_iff)

lemma each_enumerated: "eachE f (List.enumerate 0 xs) = Inr () \<longleftrightarrow> (\<forall>i < length xs. f (i, xs ! i) = Inr (() :: unit))"
  unfolding each_unit by (auto simp: in_set_enumerate_eq Ball_def)

lemma unknown_key: "fst ` set (AList.update k v kvs) = set ks \<Longrightarrow> k \<in> set ks"
proof -
  have "k \<in> fst ` set (AList.update k v kvs)" by (simp add: dom_update)
  then show "fst ` set (AList.update k v kvs) = set ks \<Longrightarrow> k \<in> set ks" by (rule subst[rotated])
qed

lemma history_key_refused:
  assumes "map_of kvs ''continuation_cases'' = Some (JArr cs)" "cs \<noteq> []" "continuation_accepts (cs ! 0)"
  shows "refuses_change (JObj kvs) (edit [Key ''continuation_cases'', Nth 0, Key ''steps'', Nth 0] (jput ''unknown'' JNull)) = Inr ()"
proof -
  obtain ts a b where t: "cs ! 0 = JObj ts" "continuation_case (JObj ts) a = Inr b" using assms(3) continuation_obj by metis
  obtain grp subfunction steps s e where d: "map_of ts ''group'' = Some (JInt grp)" "map_of ts ''subfunction'' = Some (JInt subfunction)"
      "map_of ts ''steps'' = Some (JArr steps)" "1 \<le> length steps" "cont_steps grp subfunction (length steps) 0 steps cont_init = Inr s"
      "map_of ts ''expected'' = Some e"
    using t(2) by (rule continuation_lookup) blast
  obtain step rest where steps: "steps = step # rest" using d(4) by (cases steps) auto
  then obtain sj where sj: "step = JObj sj" using d(5) parse_leg_obj by fastforce
  let ?steps = "JObj (AList.update ''unknown'' JNull sj) # rest"
  have "parse_leg (JObj (AList.update ''unknown'' JNull sj)) \<noteq> Inr leg" for leg
    using parse_leg_lookup(1)[of "AList.update ''unknown'' JNull sj" leg] unknown_key[of "''unknown''" JNull sj "[''reference'', ''request_pdu'', ''response_pdu'']"] by auto
  then have "cont_steps grp subfunction (length steps) 0 ?steps cont_init \<noteq> Inr s'" for s' by simp
  then have "\<not> continuation_accepts (JObj (AList.update ''steps'' (JArr ?steps) ts))"
    using continuation_steps_change(1)[OF t(2) d(3) _ d(1,2,6), of ?steps] steps by auto
  moreover have "edit [Key ''steps'', Nth 0] (jput ''unknown'' JNull) (JObj ts) = Inr (JObj (AList.update ''steps'' (JArr ?steps) ts))"
    by (simp add: d(3) steps sj)
  ultimately show ?thesis using refuses_continuation[OF assms(1), of 0, unfolded t(1)] assms(2) by blast
qed

lemma version_refused:
  assumes "bad \<in> set wrong_versions"
  shows "refuses_change (JObj kvs) (jput ''schema_version'' bad) = Inr ()"
proof -
  have "mgmt_validate (JObj (AList.update ''schema_version'' bad kvs)) \<noteq> Inr n" for n
  proof
    assume "mgmt_validate (JObj (AList.update ''schema_version'' bad kvs)) = Inr n"
    then have "bad = JInt 1" by (rule validate_parts) (simp add: update_conv')
    then show False using assms by (simp add: wrong_versions_def)
  qed
  then show ?thesis by (simp add: refuses_change_iff)
qed

lemma duplicate_case_refused:
  assumes "map_of kvs ''decoder_cases'' = Some (JArr ds)" "ds \<noteq> []"
  shows "refuses_change (JObj kvs) (edit [Key ''decoder_cases''] (append_to (ds ! 0))) = Inr ()"
proof -
  have "mgmt_validate (JObj (AList.update ''decoder_cases'' (JArr (ds @ [ds ! 0])) kvs)) \<noteq> Inr n" for n
  proof
    assume "mgmt_validate (JObj (AList.update ''decoder_cases'' (JArr (ds @ [ds ! 0])) kvs)) = Inr n"
    then obtain b where "each_case decoder_case (ds @ [ds ! 0]) [] = Inr b" by (rule validate_parts) (simp add: update_conv')
    then show False using duplicate_refused[of "ds ! 0" ds] assms(2) by (metis length_greater_0_conv nth_mem)
  qed
  then show ?thesis using assms(1) by (simp add: refuses_change_iff)
qed

text \<open>C36: The management script gets through exactly on the corpora the check accepts and its own controls can be put to: every one of
  the mutated copies, in whatever case, octet or field, is refused by the check with an exception the control expects, unless the
  first decoder case is empty or an accepted history has fewer than three steps, and then the script fails.\<close>
theorem mgmt_script_exact:
  "mgmt_script corpus = Inr counts \<longleftrightarrow> mgmt_validate corpus = Inr counts \<and> controllable corpus"
proof (cases "mgmt_validate corpus")
  case (Inr c)
  have "\<exists>ds cs. jget ''decoder_cases'' corpus = Inr (JArr ds) \<and> jget ''continuation_cases'' corpus = Inr (JArr cs) \<and> ds \<noteq> [] \<and> cs \<noteq> []"
    using Inr by (rule validate_parts) auto
  then obtain ds cs where jd: "jget ''decoder_cases'' corpus = Inr (JArr ds)" and jc: "jget ''continuation_cases'' corpus = Inr (JArr cs)"
      and ne: "ds \<noteq> []" "cs \<noteq> []" by blast
  obtain kvs where k: "corpus = JObj kvs" using jd by (cases corpus) auto
  have md: "map_of kvs ''decoder_cases'' = Some (JArr ds)" and mc: "map_of kvs ''continuation_cases'' = Some (JArr cs)"
    using jd jc by (auto simp: k split: option.splits)
  note ok = Inr[unfolded k]
  have dec: "decoder_accepts (ds ! i)" if "i < length ds" for i using validate_decoder[OF Inr jd] that by simp
  have first: "decoder_accepts (ds ! 0)" using dec[of 0] ne by simp
  then have "\<exists>ts xs. ds ! 0 = JObj ts \<and> map_of ts ''pdu'' = Some (JArr xs)" by (rule decoder_fields) blast
  then obtain ts xs where ts: "ds ! 0 = JObj ts" "map_of ts ''pdu'' = Some (JArr xs)" by blast
  note first = first[unfolded ts(1)]
  have cont: "continuation_accepts (cs ! 0)" using validate_continuation[OF Inr jc] ne by simp
  have passes: "eachE (\<lambda>bad. refuses_change corpus (jput ''schema_version'' bad)) wrong_versions = Inr ()"
    "eachE (decoder_controls corpus) (List.enumerate 0 ds) = Inr ()"
    "eachE (\<lambda>field. eachE (\<lambda>bad. refuses_change corpus (edit [Key ''decoder_cases'', Nth 0] (jput field bad)))
       [JBool True, JFloat 1 0, jtext ''1'', JInt (- 1)]) [''reference'', ''group'', ''subfunction''] = Inr ()"
    unfolding k each_enumerated unfolding each_unit
    using version_refused decoder_controls_pass[OF md _ dec] first_case_refused(1)[OF md ne(1) ts(1) first] by blast+
  have octet: "eachE (\<lambda>bad. refuses_change corpus (edit [Key ''decoder_cases'', Nth 0, Key ''pdu'', Nth 0] (\<lambda>_. Inr bad)))
      [JBool True, JFloat 1 0, JInt (- 1), JInt 256] = Inr () \<longleftrightarrow> xs \<noteq> []"
    unfolding k each_unit using first_octet_refused[OF md ne(1) ts(1) first ts(2)] by (meson list.set_intros(1))
  have hist: "eachE (continuation_controls corpus) (List.enumerate 0 cs) = Inr ()
      \<longleftrightarrow> list_all (\<lambda>test. is_accepted test = Inr True \<longrightarrow> 3 \<le> history_length test) cs"
    unfolding k each_enumerated list_all_length using continuation_controls_iff[OF ok mc] by blast
  have "mgmt_self_test corpus = Inr () \<longleftrightarrow> xs \<noteq> [] \<and> list_all (\<lambda>test. is_accepted test = Inr True \<longrightarrow> 3 \<le> history_length test) cs"
    unfolding octet[symmetric] hist[symmetric] mgmt_self_test_def jd jc
    using passes duplicate_case_refused[OF md ne(1)] first_case_refused(2)[OF md ne(1) ts(1) first] history_key_refused[OF mc ne(2) cont] ne(1)
    by (simp add: k del: edit.simps)
  moreover have "controllable corpus \<longleftrightarrow> xs \<noteq> [] \<and> list_all (\<lambda>test. is_accepted test = Inr True \<longrightarrow> 3 \<le> history_length test) cs"
    unfolding controllable_def jd jc using ne(1) by (simp add: ts)
  ultimately show ?thesis by (cases counts) (auto simp: mgmt_script_def)
qed (simp add: mgmt_script_def)

text \<open>A corpus of one rejected reply and one history that fails at once passes, controls included.\<close>

definition ex_controlled :: json where
  "ex_controlled = JObj [(''schema_version'', JInt 1), (''protocol'', jtext ''classic S7 management codec conversations''),
     (''decoder_cases'', JArr [JObj [(''id'', jtext ''a''), (''reference'', JInt 0), (''group'', JInt 4), (''subfunction'', JInt 1),
        (''pdu'', JArr [JInt 50]), (''expected'', JObj [(''status'', jtext ''reject''), (''category'', jtext ''protocol'')])]]),
     (''continuation_cases'', JArr [JObj [(''id'', jtext ''b''), (''group'', JInt 3), (''subfunction'', JInt 2),
        (''steps'', JArr [JObj [(''reference'', JInt 1),
           (''request_pdu'', JArr (List.map JInt [50, 7, 0, 0, 0, 1, 0, 8, 0, 6, 0, 1, 18, 4, 17, 67, 2, 0, 255, 9, 0, 2, 48, 65])),
           (''response_pdu'', JArr [])]]),
        (''expected'', JObj [(''status'', jtext ''reject''), (''category'', jtext ''protocol''), (''failed_step'', JInt 0)])]])]"

lemma ex_controlled_passes: "mgmt_script ex_controlled = Inr (1, 1)"
proof -
  have request: "mgmt_request 1 3 2 None = Inr [50, 7, 0, 0, 0, 1, 0, 8, 0, 6, 0, 1, 18, 4, 17, 67, 2, 0, 255, 9, 0, 2, 48, 65]"
    by (simp add: mgmt_request_def bytes_of_def packet_ok byte_def len_def)
  have "mgmt_validate ex_controlled = Inr (1, 1)"
    by (simp add: mgmt_validate_def ex_controlled_def shape_def decoder_case_def identity_def octets_def integer_def mgmt_decode_def
        continuation_case_def parse_leg_def cont_step_def cont_init_def cont_json_def category_name_def same_obj same_atom request byte_def ascii_def)
  moreover have "controllable ex_controlled"
    by (simp add: controllable_def ex_controlled_def is_accepted_def status_of_def)
  ultimately show ?thesis by (simp add: mgmt_script_exact)
qed

end
