(* ===== verification/Captures.thy ===== *)
theory Captures
  imports Values Management
begin

text \<open>
  The capture pipeline of \<^verbatim>\<open>real_captures.py\<close>: the classic pcap reader, the TCP segment
  extractor, and the reassembly of segments into TPKT packets, COTP fragments and S7 PDUs; the
  synthetic capture writer of \<^verbatim>\<open>addressing_conformance.py\<close> with the framing of
  \<^verbatim>\<open>wireshark_corpus.py\<close>, which the reader inverts; and the decoders of a clock payload and
  of the USER_DATA parameters.
\<close>

unbundle bit_operations_syntax

section \<open>The pcap file\<close>

datatype endian = Little | Big

text \<open>\<^verbatim>\<open>struct.unpack\<close> of one unsigned \<open>n\<close>-byte field: the slice must have the exact size.\<close>

definition unpack :: "endian \<Rightarrow> nat \<Rightarrow> bytes \<Rightarrow> int result" where
  "unpack e n bs =
     (if length bs = n then Inr (be_int (case e of Big \<Rightarrow> bs | Little \<Rightarrow> rev bs)) else Inl StructError)"

function pcap_records :: "endian \<Rightarrow> bytes \<Rightarrow> nat \<Rightarrow> nat \<Rightarrow> (nat \<times> bytes) list result" where
  "pcap_records e data offset number =
     (if offset + 16 \<le> length data then
        bindE (unpack e 4 (slice (offset + 8) (offset + 12) data)) (\<lambda>caplen.
        bindE (pcap_records e data (offset + 16 + nat caplen) (number + 1)) (\<lambda>frames.
          Inr ((number + 1, slice (offset + 16) (offset + 16 + nat caplen) data) # frames)))
      else Inr [])"
  by pat_completeness auto
termination
  by (relation "measure (\<lambda>(e, data, offset, number). length data - offset)") auto

declare pcap_records.simps [simp del]

definition read_pcap :: "bytes \<Rightarrow> (nat \<times> bytes) list result" where
  "read_pcap data =
     bindE (let magic = take 4 data
            in if magic = [0xD4, 0xC3, 0xB2, 0xA1] then Inr Little
               else if magic = [0xA1, 0xB2, 0xC3, 0xD4] then Inr Big
               else Inl SystemExit) (\<lambda>e.
     bindE (unpack e 4 (slice 20 24 data)) (\<lambda>linktype.
     if linktype \<noteq> 1 then Inl SystemExit else pcap_records e data 24 0))"

section \<open>TCP segments\<close>

type_synonym flow = "bytes \<times> int \<times> bytes \<times> int"

record segment =
  sg_number :: nat
  sg_flow :: flow
  sg_payload :: bytes
  sg_syn :: bool
  sg_seq :: int

text \<open>
  One frame: \<open>None\<close> is a \<^verbatim>\<open>continue\<close>. The guards run in the order of the code, so a short
  frame raises where the code raises.
\<close>

definition tcp_segment :: "nat \<Rightarrow> bytes \<Rightarrow> segment option result" where
  "tcp_segment number frame =
     bindE (unpack Big 2 (slice 12 14 frame)) (\<lambda>outer.
     bindE (if outer = 0x8100 then bindE (unpack Big 2 (slice 16 18 frame)) (\<lambda>inner. Inr (inner, 18))
            else Inr (outer, 14)) (\<lambda>(ethertype, offset).
     if ethertype \<noteq> 0x0800 then Inr None
     else
       bindE (at frame offset) (\<lambda>version.
       bindE (at frame (offset + 9)) (\<lambda>protocol.
       if protocol \<noteq> 6 then Inr None
       else
         bindE (unpack Big 2 (slice (offset + 2) (offset + 4) frame)) (\<lambda>size.
         let ihl = unat (version AND 0x0F) * 4;
             source = slice (offset + 12) (offset + 16) frame;
             destination = slice (offset + 16) (offset + 20) frame;
             tcp = offset + ihl;
             ports = slice tcp (tcp + 8) frame
         in
         bindE (guardE (length ports = 8) StructError) (\<lambda>_.
         bindE (at frame (tcp + 12)) (\<lambda>header_byte.
         bindE (at frame (tcp + 13)) (\<lambda>flags.
         let sport = be_int (slice 0 2 ports);
             dport = be_int (slice 2 4 ports);
             seq = be_int (slice 4 8 ports);
             header = unat (drop_bit 4 header_byte) * 4;
             payload = slice (tcp + header) (offset + nat size) frame
         in if 102 \<notin> {sport, dport} then Inr None
            else Inr (Some \<lparr>sg_number = number, sg_flow = (source, sport, destination, dport),
                       sg_payload = payload, sg_syn = (flags AND 2 \<noteq> 0), sg_seq = seq\<rparr>)))))))))"

fun tcp_payloads :: "(nat \<times> bytes) list \<Rightarrow> segment list result" where
  "tcp_payloads [] = Inr []"
| "tcp_payloads ((number, frame) # frames) =
     bindE (tcp_segment number frame) (\<lambda>s.
     bindE (tcp_payloads frames) (\<lambda>rest.
       Inr (case s of None \<Rightarrow> rest | Some sg \<Rightarrow> sg # rest)))"

section \<open>Writing a synthetic capture\<close>

definition pack_le :: "nat \<Rightarrow> int \<Rightarrow> bytes result" where
  "pack_le n v = bindE (pack n v) (\<lambda>bs. Inr (rev bs))"

definition capture_header :: "bytes result" where
  "capture_header = concatE [pack_le 4 0xA1B2C3D4, pack_le 2 2, pack_le 2 4, pack_le 4 0, pack_le 4 0,
     pack_le 4 65535, pack_le 4 1]"

definition capture_frame :: "nat \<Rightarrow> bytes \<Rightarrow> bytes result" where
  "capture_frame index body =
     bindE (concatE [pack 1 0x45, pack 1 0, pack 2 (40 + len body), pack 2 (int index), pack 2 0, pack 1 64,
       pack 1 6, pack 2 0, Inr [0x7F, 0, 0, 1], Inr [0x7F, 0, 0, 2]]) (\<lambda>ip.
     bindE (concatE [pack 2 (40000 + int index), pack 2 102, pack 4 1, pack 4 1, pack 1 0x50, pack 1 0x18,
       pack 2 65535, pack 2 0, pack 2 0]) (\<lambda>tcp.
     Inr ((replicate 12 0 @ [8, 0]) @ ip @ tcp @ body)))"

fun capture_records :: "nat \<Rightarrow> bytes list \<Rightarrow> bytes result" where
  "capture_records index [] = Inr []"
| "capture_records index (body # packets) =
     bindE (capture_frame index body) (\<lambda>frame.
     bindE (concatE [pack_le 4 (int index), pack_le 4 0, pack_le 4 (len frame), pack_le 4 (len frame)]) (\<lambda>header.
     bindE (capture_records (Suc index) packets) (\<lambda>rest.
       Inr (header @ frame @ rest))))"

definition capture :: "bytes list \<Rightarrow> bytes result" where
  "capture packets =
     bindE capture_header (\<lambda>header.
     bindE (capture_records 0 packets) (\<lambda>records. Inr (header @ records)))"

definition wrap :: "bytes \<Rightarrow> bytes result" where
  "wrap pdu =
     (let cotp = [2, 0xF0, 0x80] @ pdu
      in bindE (pack 2 (len cotp + 4)) (\<lambda>size. Inr ([3, 0] @ size @ cotp)))"

definition ack_data :: "int \<Rightarrow> bytes \<Rightarrow> bytes \<Rightarrow> bytes result" where
  "ack_data reference parameters data =
     bindE (concatE [pack 1 0x32, pack 1 3, pack 2 0, pack 2 reference, pack 2 (len parameters),
       pack 2 (len data), pack 1 0, pack 1 0]) (\<lambda>header. Inr (header @ parameters @ data))"

section \<open>Independent field decoders\<close>

definition bcd_digits :: "byte \<Rightarrow> int" where
  "bcd_digits b = uint (drop_bit 4 b) * 10 + uint (b AND 0x0F)"

definition independent_clock :: "bytes \<Rightarrow> clock result" where
  "independent_clock data =
     bindE (at data 2) (\<lambda>b2.
     let year = bcd_digits b2; full = year + (if 90 \<le> year then 1900 else 2000)
     in bindE (at data 8) (\<lambda>b8.
     bindE (at data 9) (\<lambda>b9.
     bindE (at data 3) (\<lambda>b3. bindE (at data 4) (\<lambda>b4. bindE (at data 5) (\<lambda>b5.
     bindE (at data 6) (\<lambda>b6. bindE (at data 7) (\<lambda>b7.
     Inr \<lparr>ck_year = full, ck_month = bcd_digits b3, ck_day = bcd_digits b4, ck_hour = bcd_digits b5,
          ck_minute = bcd_digits b6, ck_second = bcd_digits b7,
          ck_millisecond = bcd_digits b8 * 10 + uint (drop_bit 4 b9),
          ck_weekday = uint (b9 AND 0x0F)\<rparr>))))))))"

definition userdata_fields :: "bytes \<Rightarrow> (int \<times> int \<times> int \<times> int) result" where
  "userdata_fields pdu =
     bindE (unpack Big 2 (slice 4 6 pdu)) (\<lambda>reference.
     bindE (at pdu 15) (\<lambda>group_byte.
     bindE (at pdu 16) (\<lambda>subfunction.
     bindE (at pdu 17) (\<lambda>sequence.
     Inr (reference, uint (group_byte AND 0x0F), uint subfunction, uint sequence)))))"

definition userdata_payload :: "bytes \<Rightarrow> bytes result" where
  "userdata_payload pdu =
     bindE (unpack Big 2 (slice 6 8 pdu)) (\<lambda>parameters.
     let data = drop (10 + nat parameters) pdu
     in Inr (if 4 \<le> length data then drop 4 data else []))"

section \<open>The reader inverts the writer\<close>

lemma capture_frame_ok:
  assumes "index \<le> 25535" "length body \<le> 65495"
  shows "capture_frame index body = Inr (replicate 12 0 @ [8, 0, 0x45, 0] @ be_bytes 2 (40 + len body)
    @ be_bytes 2 (int index) @ [0, 0, 64, 6, 0, 0, 127, 0, 0, 1, 127, 0, 0, 2] @ be_bytes 2 (40000 + int index)
    @ [0, 102, 0, 0, 0, 1, 0, 0, 0, 1, 0x50, 0x18, 255, 255, 0, 0, 0, 0] @ body)"
proof -
  have "be_bytes 2 102 = [0, 102]" "be_bytes 4 1 = [0, 0, 0, 1]" "be_bytes 2 65535 = [255, 255]"
    by (simp_all add: byte_def)
  moreover have "pack 2 (40 + len body) = Inr (be_bytes 2 (40 + len body))"
    "pack 2 (int index) = Inr (be_bytes 2 (int index))"
    "pack 2 (40000 + int index) = Inr (be_bytes 2 (40000 + int index))"
    using assms by (simp_all add: pack_def len_def del: be_bytes_numeral)
  moreover have "pack 2 102 = Inr (be_bytes 2 102)" "pack 4 1 = Inr (be_bytes 4 1)"
    "pack 2 65535 = Inr (be_bytes 2 65535)" "pack 2 0 = Inr [0, 0]" "pack 1 0x45 = Inr [0x45]" "pack 1 0 = Inr [0]"
    "pack 1 64 = Inr [64]" "pack 1 6 = Inr [6]" "pack 1 0x50 = Inr [0x50]" "pack 1 0x18 = Inr [0x18]"
    by (simp_all add: pack_def byte_def)
  ultimately show ?thesis by (simp add: capture_frame_def del: be_bytes_numeral)
qed

definition capture_segment :: "nat \<Rightarrow> bytes \<Rightarrow> segment" where
  "capture_segment index body = \<lparr>sg_number = Suc index,
     sg_flow = ([127, 0, 0, 1], 40000 + int index, [127, 0, 0, 2], 102),
     sg_payload = body, sg_syn = False, sg_seq = 1\<rparr>"

lemma tcp_segment_capture:
  assumes "capture_frame index body = Inr frame" "index \<le> 25535" "length body \<le> 65495"
  shows "tcp_segment (Suc index) frame = Inr (Some (capture_segment index body))"
proof -
  obtain t1 t2 where t: "be_bytes 2 (40 + len body) = [t1, t2]" by simp
  obtain i1 i2 where i: "be_bytes 2 (int index) = [i1, i2]" by simp
  obtain p1 p2 where p: "be_bytes 2 (40000 + int index) = [p1, p2]" by simp
  have bi: "be_int [t1, t2] = 40 + len body" "be_int [p1, p2] = 40000 + int index"
    using be_int_2[of "40 + len body"] be_int_2[of "40000 + int index"] assms(2,3) t p
    by (simp_all add: len_def del: be_bytes_numeral)
  have frame: "frame = replicate 12 0 @ [8, 0, 0x45, 0] @ [t1, t2] @ [i1, i2]
      @ [0, 0, 64, 6, 0, 0, 127, 0, 0, 1, 127, 0, 0, 2] @ [p1, p2]
      @ [0, 102, 0, 0, 0, 1, 0, 0, 0, 1, 0x50, 0x18, 255, 255, 0, 0, 0, 0] @ body"
    using capture_frame_ok[OF assms(2,3)] assms(1) unfolding t i p by simp
  have size: "nat (40 + len body) = 40 + length body" by (simp add: len_def nat_add_distrib)
  have hd: "(0x45 :: byte) AND 15 = 5" "drop_bit 4 (0x50 :: byte) = 5" "(0x18 :: byte) AND 2 = 0" by (simp_all add: drop_bit_eq_div)
  have e8: "be_int [8, 0] = 2048" "be_int [0, 102] = 102" "be_int [0, 0, 0, 1] = 1" by simp_all
  have twelve: "replicate 12 (0 :: byte) = [0, 0, 0, 0, 0, 0, 0, 0, 0, 0, 0, 0]" by (simp add: numeral_eq_Suc)
  have nibble: "unat (5 :: byte) = 5" by simp
  show ?thesis
    unfolding frame tcp_segment_def twelve
    by (simp add: slice_def at_def unpack_def e8 bi size hd nibble capture_segment_def len_def Let_def del: be_int_Cons)
qed


lemma unpack_pack_le:
  "0 \<le> v \<Longrightarrow> v < 256 ^ n \<Longrightarrow> unpack Little n (rev (be_bytes n v)) = Inr v"
  by (simp add: unpack_def be_int_be_bytes)

lemma pack_le_ok: "0 \<le> v \<Longrightarrow> v < 256 ^ n \<Longrightarrow> pack_le n v = Inr (rev (be_bytes n v))"
  by (simp add: pack_le_def)

lemma pcap_records_step:
  assumes "length frame < 2 ^ 32" "length header = 16" "slice 8 12 header = rev (be_bytes 4 (len frame))"
  shows "pcap_records Little (pre @ header @ frame @ rest) (length pre) k =
    bindE (pcap_records Little (pre @ header @ frame @ rest) (length (pre @ header @ frame)) (Suc k))
      (\<lambda>frames. Inr ((Suc k, frame) # frames))"
proof -
  let ?data = "pre @ header @ frame @ rest"
  have "slice (length pre + 8) (length pre + 12) ?data = slice 8 12 header"
    using assms(2) by (simp add: slice_def)
  then have u: "unpack Little 4 (slice (length pre + 8) (length pre + 12) ?data) = Inr (len frame)"
    using assms(1) by (simp only: assms(3)) (rule unpack_pack_le, simp_all add: len_def)
  have n: "nat (len frame) = length frame" by (simp add: len_def)
  have f: "slice (length pre + 16) (length pre + (16 + length frame)) ?data = frame"
    using assms(2) by (simp add: slice_def)
  show ?thesis
    by (subst pcap_records.simps) (simp add: u n f assms(2) add.assoc)
qed

lemma capture_records_Cons:
  assumes "capture_records k (body # packets) = Inr recs" "k \<le> 25535"  "length body \<le> 65495"
  obtains frame header rest where "capture_frame k body = Inr frame" "capture_records (Suc k) packets = Inr rest"
    "recs = header @ frame @ rest" "length header = 16" "length frame < 2 ^ 32"
    "slice 8 12 header = rev (be_bytes 4 (len frame))"
proof -
  obtain frame where frame: "capture_frame k body = Inr frame" using capture_frame_ok[OF assms(2,3)] by blast
  have l: "length frame = 54 + length body" using capture_frame_ok[OF assms(2,3)] frame by auto
  have small: "0 \<le> len frame" "len frame < 256 ^ 4" using l assms(3) by (simp_all add: len_def)
  have small': "0 \<le> int k" "int k < 256 ^ 4" using assms(2) by simp_all
  have zero: "pack_le 4 0 = Inr [0, 0, 0, 0]" by (simp add: pack_le_def pack_def byte_def)
  define header where "header = rev (be_bytes 4 (int k)) @ [0, 0, 0, 0] @ rev (be_bytes 4 (len frame)) @ rev (be_bytes 4 (len frame))"
  obtain rest where rest: "capture_records (Suc k) packets = Inr rest" "recs = header @ frame @ rest"
    using assms(1) frame pack_le_ok[OF small] pack_le_ok[OF small'] zero
    by (auto simp: header_def simp del: be_bytes_numeral)
  have "length header = 16" by (simp add: header_def del: be_bytes_numeral)
  moreover have "slice 8 12 header = rev (be_bytes 4 (len frame))"
    by (simp add: header_def slice_def)
  ultimately show thesis using that frame rest l assms(3) by simp
qed

lemma pcap_records_capture:
  assumes "capture_records k packets = Inr recs" "k + length packets \<le> 25536"
    "list_all (\<lambda>body. length body \<le> 65495) packets" "k \<le> 25536"
  shows "\<exists>frames. pcap_records Little (pre @ recs) (length pre) k = Inr frames
    \<and> tcp_payloads frames = Inr (map2 capture_segment [k..<k + length packets] packets)"
  using assms
proof (induction packets arbitrary: k pre recs)
  case Nil
  then show ?case by (simp add: pcap_records.simps)
next
  case (Cons body packets)
  obtain frame header rest where *: "capture_frame k body = Inr frame" "capture_records (Suc k) packets = Inr rest"
    "recs = header @ frame @ rest" "length header = 16" "length frame < 2 ^ 32"
    "slice 8 12 header = rev (be_bytes 4 (len frame))"
    by (rule capture_records_Cons[OF Cons.prems(1)]) (use Cons.prems in auto)
  obtain frames where f: "pcap_records Little ((pre @ header @ frame) @ rest) (length (pre @ header @ frame)) (Suc k) = Inr frames"
    "tcp_payloads frames = Inr (map2 capture_segment [Suc k..<Suc k + length packets] packets)"
    using Cons.IH[OF *(2), of "pre @ header @ frame"] Cons.prems by auto
  have "pcap_records Little (pre @ recs) (length pre) k = Inr ((Suc k, frame) # frames)"
    using pcap_records_step[OF *(5,4,6), of pre rest k] f(1) *(3) by simp
  moreover have "tcp_payloads ((Suc k, frame) # frames)
      = Inr (map2 capture_segment [k..<k + length (body # packets)] (body # packets))"
    using tcp_segment_capture[OF *(1)] f(2) Cons.prems by (simp add: upt_rec)
  ultimately show ?case by blast
qed

lemma capture_header_ok: "\<exists>h. capture_header = Inr h \<and> length h = 24 \<and> take 4 h = [0xD4, 0xC3, 0xB2, 0xA1]
    \<and> slice 20 24 h = [1, 0, 0, 0]"
  by (simp add: capture_header_def pack_le_def pack_def byte_def slice_def)

lemma capture_read:
  assumes "capture packets = Inr data" "length packets \<le> 25536"
    "list_all (\<lambda>body. length body \<le> 65495) packets"
  shows "bindE (read_pcap data) tcp_payloads = Inr (map2 capture_segment [0..<length packets] packets)"
proof -
  obtain h where h: "capture_header = Inr h" "length h = 24" "take 4 h = [0xD4, 0xC3, 0xB2, 0xA1]"
    "slice 20 24 h = [1, 0, 0, 0]" using capture_header_ok by blast
  obtain recs where recs: "capture_records 0 packets = Inr recs" "data = h @ recs"
    using assms(1) unfolding capture_def h(1) bindE.simps by auto
  have "take 4 data = [0xD4, 0xC3, 0xB2, 0xA1]" "slice 20 24 data = [1, 0, 0, 0]"
    using h recs(2) by (simp_all add: slice_def)
  then have "read_pcap data = pcap_records Little data 24 0"
    by (simp add: read_pcap_def unpack_def)
  then show ?thesis
    using pcap_records_capture[OF recs(1), of h] h(2) recs(2) assms(2,3) by auto
qed

lemma capture_total:
  assumes "length packets \<le> 25536" "list_all (\<lambda>body. length body \<le> 65495) packets"
  shows "\<exists>data. capture packets = Inr data"
proof -
  have "\<exists>recs. capture_records k packets = Inr recs" if "k + length packets \<le> 25536" for k
    using that assms(2)
  proof (induction packets arbitrary: k)
    case Nil
    then show ?case by simp
  next
    case (Cons body packets)
    obtain frame where frame: "capture_frame k body = Inr frame" using capture_frame_ok[of k body] Cons.prems by auto
    have l: "length frame = 54 + length body" using capture_frame_ok[of k body] Cons.prems frame by auto
    have "pack_le 4 (len frame) = Inr (rev (be_bytes 4 (len frame)))"
      using l Cons.prems by (intro pack_le_ok) (simp_all add: len_def)
    moreover have "pack_le 4 (int k) = Inr (rev (be_bytes 4 (int k)))"
      using Cons.prems by (intro pack_le_ok) simp_all
    moreover have "pack_le 4 0 = Inr [0, 0, 0, 0]" by (simp add: pack_le_def pack_def byte_def)
    moreover obtain rest where "capture_records (Suc k) packets = Inr rest" using Cons.IH[of "Suc k"] Cons.prems by auto
    ultimately show ?case using frame by (simp del: be_bytes_numeral)
  qed
  from this[of 0] show ?thesis using assms(1) capture_header_ok by (auto simp: capture_def)
qed

text \<open>Reading inverts writing: a synthetic capture of packets that fit its length and port fields is parsed back,
  through the file header, the record headers and the Ethernet, IPv4 and TCP headers, into exactly one segment per
  packet, in order, with the frame number, flow and payload it was written from.\<close>
lemma capture_round_trip:
  assumes "length packets \<le> 25536" "list_all (\<lambda>body. length body \<le> 65495) packets"
  shows "bindE (capture packets) (\<lambda>data. bindE (read_pcap data) tcp_payloads)
    = Inr (map2 capture_segment [0..<length packets] packets)"
  using capture_total[OF assms] capture_read[OF _ assms] by auto

section \<open>Two clock decoders\<close>

lemma byte_nibbles:
  "uint (drop_bit 4 (f :: byte)) = uint f div 16" "uint ((f :: byte) AND 0x0F) = uint f mod 16"
proof -
  have "f AND 0x0F = take_bit 4 f" by (simp add: take_bit_eq_mask mask_eq_exp_minus_1)
  moreover have "uint (take_bit 4 f) = take_bit 4 (uint f)" by (rule unsigned_take_bit_eq)
  ultimately show "uint (f AND 0x0F) = uint f mod 16" by (simp add: take_bit_eq_mod[of 4 "uint f"])
  show "uint (drop_bit 4 f) = uint f div 16"
    by (simp add: drop_bit_eq_div uint_div)
qed

lemma bcd_digits_bcd: "0 \<le> v \<Longrightarrow> v < 100 \<Longrightarrow> bcd_digits (byte (bcd v)) = v"
proof -
  assume v: "0 \<le> v" "v < 100"
  then have "uint (byte (bcd v)) = 16 * (v div 10) + v mod 10" by (simp add: bcd_val uint_byte_id)
  moreover have "0 \<le> v mod 10" "v mod 10 < 16" using pos_mod_bound[of 10 v] by simp_all
  then have "(16 * (v div 10) + v mod 10) div 16 = v div 10" "(16 * (v div 10) + v mod 10) mod 16 = v mod 10"
    using int_div_pos_eq[OF refl] int_mod_pos_eq[OF refl] by auto
  ultimately show ?thesis unfolding bcd_digits_def byte_nibbles by simp
qed

lemma final_octet_nibbles: "int (unat (f :: byte) div 16) = uint f div 16" "int (unat (f :: byte) mod 16) = uint f mod 16"
  by (simp_all add: zdiv_int zmod_int)

text \<open>The two clock decoders agree: every clock the value oracle accepts from ten octets is the clock the
  independent packed-decimal decoder of the capture analysis reads from them.\<close>

lemma clock_decoders_agree:
  assumes "read_clock data = Inr (Some c)"
  shows "independent_clock data = Inr c"
proof -
  obtain a b ds f where l: "length ds = 7" "\<forall>v \<in> set ds. 0 \<le> v \<and> v < 100"
    "data = a # b # map (\<lambda>v. byte (bcd v)) ds @ [f]"
    and c: "c = \<lparr>ck_year = (if ds ! 0 < 90 then 2000 + ds ! 0 else 1900 + ds ! 0), ck_month = ds ! 1, ck_day = ds ! 2,
       ck_hour = ds ! 3, ck_minute = ds ! 4, ck_second = ds ! 5, ck_millisecond = ds ! 6 * 10 + int (unat f div 16),
       ck_weekday = int (unat f mod 16)\<rparr>"
    using read_clock_fields[OF assms] .
  have d: "at data (2 + i) = Inr (byte (bcd (ds ! i)))" "bcd_digits (byte (bcd (ds ! i))) = ds ! i" if "i < 7" for i
    using that l by (simp_all add: at_def nth_append bcd_digits_bcd)
  have "at data 9 = Inr f" using l by (simp add: at_def nth_append)
  then show ?thesis
    using d[of 0] d[of 1] d[of 2] d[of 3] d[of 4] d[of 5] d[of 6]
    by (simp add: independent_clock_def Let_def c byte_nibbles final_octet_nibbles)
qed

text \<open>The capture analysis and the management oracle read the same fields: from a reply the oracle accepts, the
  parameter reader takes its reference, group, subfunction and sequence number and the payload reader its payload.\<close>
lemma userdata_fields_agree:
  assumes "mgmt_decode pdu reference grp subfunction = Accept b"
  shows "userdata_fields pdu = Inr (reference, grp, subfunction, uint (rb_sequence b))
    \<and> userdata_payload pdu = Inr (rb_payload b)"
proof -
  have l: "4 \<le> length pdu" using assms by (auto simp: mgmt_decode_def split: if_splits)
  obtain reserved where fits: "reply_fits reference grp subfunction b" and pdu: "pdu = reply_layout reserved reference grp subfunction b"
    and r: "length reserved = 2"
    using decode_accepts_layout[OF assms] l by (auto simp: length_slice)
  obtain r1 r2 where r': "reserved = [r1, r2]" using r by (auto simp: length_Suc_conv numeral_2_eq_2)
  have two: "\<exists>x y. be_bytes 2 v = [x, y]" for v by simp
  obtain x1 x2 where x: "be_bytes 2 reference = [x1, x2]" using two by blast
  obtain p1 p2 where p: "be_bytes 2 12 = [p1, p2]" using two by blast
  obtain d1 d2 where d: "be_bytes 2 (4 + len (rb_payload b)) = [d1, d2]" using two by blast
  obtain n1 n2 where n: "be_bytes 2 (len (rb_payload b)) = [n1, n2]" using two by blast
  have v: "be_int [x1, x2] = reference" "be_int [p1, p2] = 12"
    using be_int_2[of reference] be_int_2[of 12] fits x p by (simp_all add: reply_fits_def del: be_bytes_numeral be_int_Cons)
  have g: "uint (byte (128 + grp) AND 0x0F) = grp" "uint (byte subfunction) = subfunction"
    using fits int_mod_pos_eq[of "128 + grp" 16 8 grp] by (simp_all add: byte_nibbles uint_byte_id reply_fits_def)
  show ?thesis
    unfolding pdu reply_layout_def r' x p d n userdata_fields_def userdata_payload_def
    using v g by (simp add: slice_def at_def unpack_def del: be_int_Cons)
qed

lemma concatE_tail: "concatE (rs @ [Inr x, Inr y]) = bindE (concatE rs) (\<lambda>header. Inr (header @ x @ y))"
  by (induction rs) (simp_all add: bindE_assoc)

lemma ack_data_response: "ack_data reference parameters data = s7_response reference parameters data"
  unfolding ack_data_def s7_response_def concatE_tail[symmetric] by simp

section \<open>Witnesses\<close>

lemma capture_round_trip_example:
  "bindE (capture [[1, 2], []]) (\<lambda>data. bindE (read_pcap data) tcp_payloads)
    = Inr [capture_segment 0 [1, 2], capture_segment 1 []]"
  using capture_round_trip[of "[[1, 2], []]"] by (simp add: upt_rec)

definition ex_clock :: bytes where
  "ex_clock = [0, 0x19, 0x24, 0x12, 0x31, 0x23, 0x59, 0x58, 0x98, 0x73]"

lemma clock_decoders_agree_example:
  "\<exists>c. read_clock ex_clock = Inr (Some c) \<and> independent_clock ex_clock = Inr c \<and> ck_year c = 2024 \<and> ck_millisecond c = 987"
proof -
  define c where "c = \<lparr>ck_year = 2024, ck_month = 12, ck_day = 31, ck_hour = 23, ck_minute = 59, ck_second = 58,
    ck_millisecond = 987, ck_weekday = 3\<rparr>"
  have "ex_clock = 0 # 0x19 # map (\<lambda>v. byte (bcd v)) [24, 12, 31, 23, 59, 58, 98] @ [0x73]"
    by (simp add: ex_clock_def bcd_val byte_def)
  moreover have "clock_range c = Inr ()"
    by (simp add: clock_range_def datetime_check_def month_days_def c_def)
  moreover have "unat (0x73 :: byte) div 16 = 7" "unat (0x73 :: byte) mod 16 = 3" by simp_all
  ultimately have "read_clock ex_clock = Inr (Some c)"
    using read_packed[where digits = "[24, 12, 31, 23, 59, 58, 98]" and a = 0 and b = 25 and f = 115] by (simp add: c_def)
  with clock_decoders_agree[OF this] show ?thesis by (auto simp: c_def)
qed

definition ex_reply :: bytes where
  "ex_reply = [0x32, 7, 0, 0, 0, 5, 0, 12, 0, 6, 0, 1, 0x12, 8, 0x12, 0x84, 1, 3, 0, 0, 0, 0, 0xff, 9, 0, 2, 0xab, 0xcd]"

lemma userdata_fields_agree_example:
  "userdata_fields ex_reply = Inr (5, 4, 1, 3) \<and> userdata_payload ex_reply = Inr [0xab, 0xcd]"
proof -
  have "mgmt_decode ex_reply 5 4 1 = Accept \<lparr>rb_payload = [0xab, 0xcd], rb_sequence = 3, rb_unit = 0, rb_more = False,
      rb_code = 0xff, rb_transport = 9\<rparr>"
    unfolding ex_reply_def by code_simp
  from userdata_fields_agree[OF this] show ?thesis by simp
qed

end
