(* ===== verification/Reassembly.thy ===== *)
theory Reassembly
  imports Captures
begin

text \<open>
  The second half of \<^verbatim>\<open>real_captures.messages\<close>: TCP segments become TPKT packets, COTP
  fragments and S7 PDUs, with retransmissions trimmed by sequence number. The lemmas show that
  cutting, repeating and interleaving do not change the PDUs, and that the reader recovers the PDUs
  a synthetic capture was written from.
\<close>

section \<open>Reassembly\<close>

record message =
  ms_frame :: nat
  ms_from_client :: bool
  ms_pdu :: bytes

text \<open>
  The loop over complete TPKT packets of one flow's buffer, with the flow's partial PDU. A declared
  length below six leaves no COTP type octet, and reading it raises; every other turn shortens the
  buffer.
\<close>

function drain_packets :: "nat \<Rightarrow> bool \<Rightarrow> bytes \<Rightarrow> bytes option \<Rightarrow> (message list \<times> bytes \<times> bytes option) result" where
  "drain_packets number client buffer partial =
     (if 4 \<le> length buffer then
        let size = nat (be_int (slice 2 4 buffer))
        in if length buffer < size then Inr ([], buffer, partial)
           else
             let tpkt = take size buffer;
                 rest = drop size buffer;
                 cotp = drop 4 tpkt
             in if length cotp < 2 then Inl IndexError
                else if cotp ! 1 AND 0xF0 \<noteq> 0xF0 then drain_packets number client rest partial
                else
                  let data = (case partial of None \<Rightarrow> [] | Some d \<Rightarrow> d) @ drop (1 + unat (cotp ! 0)) cotp
                  in if length cotp < 3 then Inl IndexError
                     else if cotp ! 2 AND 0x80 \<noteq> 0 then
                       bindE (drain_packets number client rest None) (\<lambda>(out, state).
                         Inr (\<lparr>ms_frame = number, ms_from_client = client, ms_pdu = data\<rparr> # out, state))
                     else drain_packets number client rest (Some data)
      else Inr ([], buffer, partial))"
  by pat_completeness auto
termination
  by (relation "measure (\<lambda>(number, client, buffer, partial). length buffer)")
    (auto simp: min_def split: if_splits)

declare drain_packets.simps [simp del]

record tracker =
  tr_buffers :: "flow \<Rightarrow> bytes option"
  tr_expected :: "flow \<Rightarrow> int option"
  tr_partial :: "flow \<Rightarrow> bytes option"

definition fresh_tracker :: tracker where
  "fresh_tracker = \<lparr>tr_buffers = Map.empty, tr_expected = Map.empty, tr_partial = Map.empty\<rparr>"

text \<open>A retransmission is trimmed to the octets past the expected sequence number.\<close>

definition trim :: "int option \<Rightarrow> int \<Rightarrow> bytes \<Rightarrow> int \<times> bytes" where
  "trim nxt seq chunk = (case nxt of
     None \<Rightarrow> (seq, chunk)
   | Some n \<Rightarrow>
       if seq < n then (n, if n < seq + len chunk then drop (nat (n - seq)) chunk else [])
       else (seq, chunk))"

definition absorb :: "tracker \<Rightarrow> segment \<Rightarrow> (message list \<times> tracker) result" where
  "absorb t sg =
     (let key = sg_flow sg
      in if sg_syn sg then Inr ([], t\<lparr>tr_expected := (tr_expected t)(key \<mapsto> sg_seq sg + 1)\<rparr>)
         else if sg_payload sg = [] then Inr ([], t)
         else
           let (seq, payload) = trim (tr_expected t key) (sg_seq sg) (sg_payload sg)
           in if payload = [] then Inr ([], t)
              else
                let buffer = (case tr_buffers t key of None \<Rightarrow> [] | Some b \<Rightarrow> b) @ payload
                in bindE (drain_packets (sg_number sg) (snd (snd (snd key)) = 102) buffer (tr_partial t key))
                     (\<lambda>(out, rest, partial).
                     Inr (out, \<lparr>tr_buffers = (tr_buffers t)(key \<mapsto> rest),
                                tr_expected = (tr_expected t)(key \<mapsto> seq + len payload),
                                tr_partial = (tr_partial t)(key := partial)\<rparr>)))"

fun reassemble :: "tracker \<Rightarrow> segment list \<Rightarrow> (message list \<times> tracker) result" where
  "reassemble t [] = Inr ([], t)"
| "reassemble t (sg # sgs) =
     bindE (absorb t sg) (\<lambda>(out, t').
     bindE (reassemble t' sgs) (\<lambda>(more_out, t''). Inr (out @ more_out, t'')))"

definition messages :: "bytes \<Rightarrow> message list result" where
  "messages data =
     bindE (read_pcap data) (\<lambda>frames.
     bindE (tcp_payloads frames) (\<lambda>segments.
     bindE (reassemble fresh_tracker segments) (\<lambda>(out, _). Inr out)))"

section \<open>Reassembly of a cut stream\<close>

definition declared :: "bytes \<Rightarrow> nat" where
  "declared buffer = nat (be_int (slice 2 4 buffer))"

definition stable :: "bytes \<Rightarrow> bool" where
  "stable buffer \<longleftrightarrow> length buffer < 4 \<or> length buffer < declared buffer"

lemma drain_packets_stable: "stable buffer \<Longrightarrow> drain_packets n c buffer p = Inr ([], buffer, p)"
  by (subst drain_packets.simps) (auto simp: stable_def declared_def Let_def)

lemma drain_packets_unstable:
  assumes "\<not> stable buffer"
  defines "cotp \<equiv> drop 4 (take (declared buffer) buffer)"
  shows "drain_packets n c buffer p =
    (if declared buffer < 6 then Inl IndexError
     else if cotp ! 1 AND 0xF0 \<noteq> 0xF0 then drain_packets n c (drop (declared buffer) buffer) p
     else if length cotp < 3 then Inl IndexError
     else let data = (case p of None \<Rightarrow> [] | Some d \<Rightarrow> d) @ drop (1 + unat (cotp ! 0)) cotp
       in if cotp ! 2 AND 0x80 \<noteq> 0 then
         bindE (drain_packets n c (drop (declared buffer) buffer) None) (\<lambda>(out, state).
           Inr (\<lparr>ms_frame = n, ms_from_client = c, ms_pdu = data\<rparr> # out, state))
       else drain_packets n c (drop (declared buffer) buffer) (Some data))"
proof -
  have "length (drop 4 (take (declared buffer) buffer)) < 2 \<longleftrightarrow> declared buffer < 6"
    using assms(1) by (auto simp: stable_def)
  then show ?thesis
    using assms(1) unfolding cotp_def
    by (subst drain_packets.simps) (simp add: stable_def declared_def[symmetric] Let_def)
qed

lemma drain_packets_induct [case_names stable unstable]:
  assumes "\<And>x p. stable x \<Longrightarrow> P x p"
    and "\<And>x p. \<not> stable x \<Longrightarrow> (\<And>q. 6 \<le> declared x \<Longrightarrow> P (drop (declared x) x) q) \<Longrightarrow> P x p"
  shows "P x p"
proof (induction x arbitrary: p rule: measure_induct_rule[where f = length])
  case (less x)
  show ?case
  proof (cases "stable x")
    case False
    then show ?thesis
      by (rule assms(2)) (rule less, use False in \<open>auto simp: stable_def\<close>)
  qed (rule assms(1))
qed

lemma drain_packets_rest_stable: "drain_packets n c x p = Inr (out, rest, q) \<Longrightarrow> stable rest"
proof (induction x p arbitrary: out rest q rule: drain_packets_induct)
  case (stable x p)
  then show ?case by (simp add: drain_packets_stable)
next
  case (unstable x p)
  then show ?case
    unfolding drain_packets_unstable[OF unstable.hyps] Let_def by (auto split: if_splits)
qed

lemma stable_append:
  assumes "\<not> stable x"
  shows "\<not> stable (x @ y)" "declared (x @ y) = declared x" "declared x \<le> length x"
  using assms by (auto simp: stable_def slice_def declared_def)

lemma drain_packets_append:
  "drain_packets n c (x @ y) p = bindE (drain_packets n c x p) (\<lambda>(out, rest, q).
     bindE (drain_packets n c (rest @ y) q) (\<lambda>(out', state). Inr (out @ out', state)))"
proof (induction x p rule: drain_packets_induct)
  case (stable x p)
  show ?case by (cases "drain_packets n c (x @ y) p") (auto simp: drain_packets_stable[OF stable])
next
  case (unstable x p)
  note app = stable_append[OF unstable.hyps]
  have cuts: "take (declared x) (x @ y) = take (declared x) x" "drop (declared x) (x @ y) = drop (declared x) x @ y"
    using app(3) by simp_all
  show ?case
    unfolding drain_packets_unstable[OF app(1)] drain_packets_unstable[OF unstable.hyps] app(2) cuts
    by (auto simp: Let_def unstable.IH case_prod_unfold bindE_assoc)
qed

lemma drain_packets_number:
  "drain_packets n c x p = bindE (drain_packets m c x p) (\<lambda>(out, state). Inr (map (\<lambda>ms. ms\<lparr>ms_frame := n\<rparr>) out, state))"
proof (induction x p rule: drain_packets_induct)
  case (stable x p)
  show ?case by (simp add: drain_packets_stable[OF stable])
next
  case (unstable x p)
  show ?case
    unfolding drain_packets_unstable[OF unstable.hyps]
    by (auto simp: Let_def unstable.IH case_prod_unfold bindE_assoc)
qed


text \<open>
  A stream cut into pieces \<open>(a, n)\<close>, octets \<open>a\<close> to \<open>a + n\<close>, that arrive without a gap:
  each piece starts within what has arrived. Pieces may overlap and repeat.
\<close>

fun reach :: "nat \<Rightarrow> (nat \<times> nat) list \<Rightarrow> nat" where
  "reach hi [] = hi"
| "reach hi ((a, n) # cuts) = reach (max hi (a + n)) cuts"

fun gapless :: "nat \<Rightarrow> nat \<Rightarrow> (nat \<times> nat) list \<Rightarrow> bool" where
  "gapless bound hi [] = True"
| "gapless bound hi ((a, n) # cuts) \<longleftrightarrow> a \<le> hi \<and> a + n \<le> bound \<and> gapless bound (max hi (a + n)) cuts"

definition pdus_of :: "(message list \<times> 'a) result \<Rightarrow> bytes list result" where
  "pdus_of r = bindE r (\<lambda>(out, _). Inr (map ms_pdu out))"

text \<open>The numbers on the wire have 32 bits.\<close>

definition stream_piece :: "flow \<Rightarrow> int \<Rightarrow> bytes \<Rightarrow> nat \<times> nat \<times> nat \<Rightarrow> segment" where
  "stream_piece k first stream = (\<lambda>(number, a, n). \<lparr>sg_number = number, sg_flow = k,
     sg_payload = slice a (a + n) stream, sg_syn = False, sg_seq = (first + int a) mod 2 ^ 32\<rparr>)"

definition handshake :: "nat \<Rightarrow> flow \<Rightarrow> int \<Rightarrow> segment" where
  "handshake number k first = \<lparr>sg_number = number, sg_flow = k, sg_payload = [], sg_syn = True, sg_seq = (first - 1) mod 2 ^ 32\<rparr>"

text \<open>The numbers of the handshake and of the octets do not pass the end of their range.\<close>

definition unwrapped :: "int \<Rightarrow> bytes \<Rightarrow> bool" where
  "unwrapped first stream \<longleftrightarrow> 0 < first \<and> first + len stream \<le> 2 ^ 32"

definition of_client :: "flow \<Rightarrow> bool" where
  "of_client k \<longleftrightarrow> snd (snd (snd k)) = 102"

lemma reach_ge: "hi \<le> reach hi cuts"
  by (induction hi cuts rule: reach.induct) (auto intro: order_trans[rotated])

lemma reach_le: "gapless bound hi cuts \<Longrightarrow> hi \<le> bound \<Longrightarrow> reach hi cuts \<le> bound"
  by (induction hi cuts rule: reach.induct) auto

lemma slice_join: "a \<le> b \<Longrightarrow> b \<le> d \<Longrightarrow> slice a b xs @ slice b d xs = slice a d xs"
proof -
  assume "a \<le> b" "b \<le> d"
  then have "take (d - a) (drop a xs) = take (b - a) (drop a xs) @ take (d - b) (drop (b - a) (drop a xs))"
    using take_add[of "b - a" "d - b" "drop a xs"] by simp
  then show ?thesis using \<open>a \<le> b\<close> by (simp add: slice_def add.commute)
qed

lemma pdus_of_bind:
  "pdus_of (bindE r (\<lambda>(out, s). bindE (f s) (\<lambda>(out', t). Inr (out @ out', g t))))
    = bindE r (\<lambda>(out, s). bindE (pdus_of (f s)) (\<lambda>ps. Inr (map ms_pdu out @ ps)))"
  by (cases r) (auto simp: pdus_of_def bindE_assoc case_prod_unfold)

lemma trim_piece:
  assumes "a \<le> hi" "hi \<le> length stream" "a + n \<le> length stream"
  shows "trim (Some (first + int hi)) (first + int a) (slice a (a + n) stream)
    = (first + int hi, slice hi (max hi (a + n)) stream)"
proof -
  have l: "len (slice a (a + n) stream) = int n" using assms by (simp add: len_def length_slice)
  show ?thesis
  proof (cases "a = hi")
    case True
    then show ?thesis by (simp add: trim_def)
  next
    case False
    have "nat (first + int hi - (first + int a)) = hi - a" by simp
    moreover have "drop (hi - a) (slice a (a + n) stream) = slice hi (a + n) stream"
      using assms(1) by (simp add: slice_def drop_take add.commute)
    moreover have "e \<le> hi \<Longrightarrow> slice hi e stream = []" for e by (simp add: slice_def)
    ultimately show ?thesis using False assms(1) by (auto simp: trim_def l max_def)
  qed
qed

lemma absorb_piece:
  assumes "tr_expected t k = Some (first + int hi)" "a \<le> hi" "hi \<le> length stream" "a + n \<le> length stream"
    and "unwrapped first stream"
  defines "fresh \<equiv> slice hi (max hi (a + n)) stream"
    and "buffer \<equiv> case tr_buffers t k of None \<Rightarrow> [] | Some b \<Rightarrow> b"
  shows "absorb t (stream_piece k first stream (number, a, n)) =
    (if fresh = [] then Inr ([], t)
     else bindE (drain_packets number (of_client k) (buffer @ fresh) (tr_partial t k)) (\<lambda>(out, rest, partial).
       Inr (out, \<lparr>tr_buffers = (tr_buffers t)(k \<mapsto> rest),
                  tr_expected = (tr_expected t)(k \<mapsto> first + int (max hi (a + n))),
                  tr_partial = (tr_partial t)(k := partial)\<rparr>)))"
proof -
  have e: "slice a (a + n) stream = [] \<Longrightarrow> fresh = []"
    using assms(2,4) by (auto simp: fresh_def slice_def)
  have l: "int hi + len fresh = int (max hi (a + n))" 
    using assms(2-4) by (auto simp: fresh_def len_def length_slice)
  show ?thesis
  proof (cases "slice a (a + n) stream = []")
    case True
    then show ?thesis using e by (simp add: absorb_def stream_piece_def)
  next
    case False
    then have "a < length stream" by (auto simp: slice_def)
    then have "(first + int a) mod 2 ^ 32 = first + int a"
      using assms(5) by (intro mod_pos_pos_trivial) (simp_all add: unwrapped_def len_def)
    then show ?thesis
      using e l trim_piece[OF assms(2-4), of first]
      by (auto simp: absorb_def stream_piece_def assms(1) Let_def of_client_def buffer_def add.assoc fresh_def[symmetric])
  qed
qed

lemma reassemble_pieces:
  assumes "tr_expected t k = Some (first + int hi)"
    and "gapless (length stream) hi (map snd pieces)" "hi \<le> length stream" "unwrapped first stream"
    and "buffer = (case tr_buffers t k of None \<Rightarrow> [] | Some b \<Rightarrow> b)" "stable buffer"
  shows "pdus_of (reassemble t (map (stream_piece k first stream) pieces))
    = pdus_of (drain_packets 0 (of_client k) (buffer @ slice hi (reach hi (map snd pieces)) stream) (tr_partial t k))"
  using assms
proof (induction pieces arbitrary: t hi buffer)
  case Nil
  then show ?case by (simp add: slice_def drain_packets_stable pdus_of_def)
next
  case (Cons p pieces)
  obtain number a n where p: "p = (number, a, n)" by (cases p)
  define hi' where "hi' = max hi (a + n)"
  define fresh where "fresh = slice hi hi' stream"
  have g: "a \<le> hi" "a + n \<le> length stream" "gapless (length stream) hi' (map snd pieces)" "hi' \<le> length stream"
    using Cons.prems(2,3) by (simp_all add: p hi'_def)
  have r: "reach hi (snd p # map snd pieces) = reach hi' (map snd pieces)" by (simp add: p hi'_def)
  note ab = absorb_piece[OF Cons.prems(1) g(1) Cons.prems(3) g(2) Cons.prems(4), of number,
      folded hi'_def, folded fresh_def, folded Cons.prems(5)]
  have join: "fresh @ slice hi' (reach hi' (map snd pieces)) stream = slice hi (reach hi' (map snd pieces)) stream"
    unfolding fresh_def by (rule slice_join) (simp_all add: hi'_def reach_ge)
  show ?case
  proof (cases "fresh = []")
    case True
    then have "hi' = hi" using g(4) Cons.prems(3) by (auto simp: fresh_def hi'_def slice_def)
    then show ?thesis
      using Cons.IH[OF Cons.prems(1) _ Cons.prems(3,4,5,6)] g(3) True
      by (auto simp: ab[folded p] r pdus_of_def case_prod_unfold bindE_assoc)
  next
    case False
    show ?thesis
    proof (cases "drain_packets number (of_client k) (buffer @ fresh) (tr_partial t k)")
      case (Inl e)
      then have "drain_packets 0 (of_client k) (buffer @ fresh) (tr_partial t k) = Inl e"
        by (subst (asm) drain_packets_number[where m = 0]) (auto simp: bindE_Inl_iff)
      then show ?thesis
        using Inl False by (simp add: ab[folded p] r join[symmetric] pdus_of_def drain_packets_append[where x = "buffer @ fresh", simplified])
    next
      case (Inr res)
      obtain out rest q where res: "res = (out, rest, q)" by (cases res)
      define t' where "t' = \<lparr>tr_buffers = (tr_buffers t)(k \<mapsto> rest),
        tr_expected = (tr_expected t)(k \<mapsto> first + int hi'), tr_partial = (tr_partial t)(k := q)\<rparr>"
      have step: "absorb t (stream_piece k first stream p) = Inr (out, t')"
        using Inr False by (simp add: ab[folded p] res t'_def)
      obtain out0 where d0: "drain_packets 0 (of_client k) (buffer @ fresh) (tr_partial t k) = Inr (out0, rest, q)"
        "map ms_pdu out0 = map ms_pdu out"
        using Inr res by (subst (asm) drain_packets_number[where m = 0]) (auto simp: comp_def)
      have tp: "tr_expected t' k = Some (first + int hi')"
        "rest = (case tr_buffers t' k of None \<Rightarrow> [] | Some b \<Rightarrow> b)" "tr_partial t' k = q"
        by (simp_all add: t'_def)
      have IH: "pdus_of (reassemble t' (map (stream_piece k first stream) pieces))
          = pdus_of (drain_packets 0 (of_client k) (rest @ slice hi' (reach hi' (map snd pieces)) stream) q)"
        by (rule Cons.IH[OF tp(1) g(3,4) Cons.prems(4) tp(2) drain_packets_rest_stable[OF Inr[unfolded res]], unfolded tp(3)])
      have "pdus_of (reassemble t (map (stream_piece k first stream) (p # pieces)))
          = bindE (pdus_of (reassemble t' (map (stream_piece k first stream) pieces))) (\<lambda>ps. Inr (map ms_pdu out @ ps))"
        by (simp add: step pdus_of_def case_prod_unfold bindE_assoc)
      also have "\<dots> = pdus_of (drain_packets 0 (of_client k) ((buffer @ fresh) @ slice hi' (reach hi' (map snd pieces)) stream) (tr_partial t k))"
        unfolding IH drain_packets_append[where x = "buffer @ fresh"] d0(1)
        by (simp add: pdus_of_def case_prod_unfold bindE_assoc d0(2))
      finally show ?thesis by (simp add: r join)
    qed
  qed
qed

lemma reassembly_stream:
  assumes "gapless (length stream) 0 (map snd pieces)" "unwrapped first stream"
  shows "pdus_of (reassemble fresh_tracker (handshake number k first # map (stream_piece k first stream) pieces))
    = pdus_of (drain_packets 0 (of_client k) (take (reach 0 (map snd pieces)) stream) None)"
proof -
  define t where "t = fresh_tracker\<lparr>tr_expected := [k \<mapsto> first]\<rparr>"
  have "absorb fresh_tracker (handshake number k first) = Inr ([], t)"
    using assms(2) by (simp add: absorb_def handshake_def t_def fresh_tracker_def unwrapped_def len_def mod_pos_pos_trivial)
  then have "pdus_of (reassemble fresh_tracker (handshake number k first # map (stream_piece k first stream) pieces))
      = pdus_of (reassemble t (map (stream_piece k first stream) pieces))"
    by (simp add: pdus_of_def case_prod_unfold bindE_assoc)
  also have "\<dots> = pdus_of (drain_packets 0 (of_client k) ([] @ slice 0 (reach 0 (map snd pieces)) stream) (tr_partial t k))"
    by (rule reassemble_pieces) (use assms in \<open>simp_all add: t_def fresh_tracker_def stable_def\<close>)
  finally show ?thesis by (simp add: t_def fresh_tracker_def)
qed


text \<open>C22: Reassembly refines the byte stream of a connection whose sequence numbers do not wrap: after the handshake of
  a flow, segments that are pieces of one stream arriving without a gap, cut anywhere, overlapping and repeated at will, give the
  PDUs (or the error) of the stream's covered prefix read at once. The numbers have 32 bits; what happens when they wrap is
  wrapped_sequence_loses_pdu.\<close>
theorem reassembly_refines_stream:
  assumes "gapless (length stream) 0 (map snd pieces)" "unwrapped first stream"
  shows "pdus_of (reassemble fresh_tracker (handshake number k first # map (stream_piece k first stream) pieces))
    = pdus_of (drain_packets 0 (of_client k) (take (reach 0 (map snd pieces)) stream) None)"
  using reassembly_stream[OF assms] .

section \<open>Framed streams\<close>

lemma drain_packets_wrap:
  assumes "wrap pdu = Inr w"
  shows "drain_packets n c (w @ rest) p = bindE (drain_packets n c rest None) (\<lambda>(out, state).
    Inr (\<lparr>ms_frame = n, ms_from_client = c, ms_pdu = (case p of None \<Rightarrow> [] | Some d \<Rightarrow> d) @ pdu\<rparr> # out, state))"
proof -
  let ?size = "be_bytes 2 (len pdu + 7)"
  have small: "len pdu + 7 < 65536" and w: "w = [3, 0] @ ?size @ [2, 0xF0, 0x80] @ pdu"
    using assms by (simp_all add: wrap_def Let_def add.commute del: be_bytes_numeral)
  obtain l1 l2 where l: "?size = [l1, l2]" by simp
  have "be_int [l1, l2] = len pdu + 7" unfolding l[symmetric] using small by (intro be_int_2) simp_all
  then have "nat (be_int [l1, l2]) = length pdu + 7" by (simp add: len_def)
  then have d: "declared (w @ rest) = length pdu + 7" and u: "\<not> stable (w @ rest)"
    unfolding stable_def declared_def w l by (simp_all add: slice_def del: be_int_Cons)
  have "length pdu + 7 = length w" unfolding w l by simp
  then have "take (length pdu + 7) (w @ rest) = w" "drop (length pdu + 7) (w @ rest) = rest" by simp_all
  moreover have "drop 4 w = [2, 0xF0, 0x80] @ pdu" unfolding w l by simp
  ultimately show ?thesis unfolding drain_packets_unstable[OF u] d by simp
qed

lemma drain_packets_wraps:
  "mapE wrap pdus = Inr ws \<Longrightarrow>
     drain_packets n c (concat ws) None = Inr (map (\<lambda>pdu. \<lparr>ms_frame = n, ms_from_client = c, ms_pdu = pdu\<rparr>) pdus, [], None)"
proof (induction pdus arbitrary: ws)
  case Nil
  then show ?case by (simp add: drain_packets_stable stable_def)
next
  case (Cons pdu pdus)
  then show ?case by (auto simp: drain_packets_wrap)
qed

text \<open>Reassembly recovers what was sent: however a stream of framed PDUs is cut into segments and
  retransmitted, once it has arrived completely the messages are exactly its PDUs in order.\<close>

lemma reassembly_recovers_pdus:
  assumes "mapE wrap pdus = Inr ws" "unwrapped first (concat ws)"
    and "gapless (length (concat ws)) 0 (map snd pieces)" "reach 0 (map snd pieces) = length (concat ws)"
  shows "pdus_of (reassemble fresh_tracker (handshake number k first # map (stream_piece k first (concat ws)) pieces)) = Inr pdus"
  using reassembly_stream[OF assms(3,2), of number k] drain_packets_wraps[OF assms(1), of 0 "of_client k"] assms(4)
  by (simp add: pdus_of_def comp_def)

section \<open>Flows do not interfere\<close>

definition same_flow :: "flow \<Rightarrow> tracker \<Rightarrow> tracker \<Rightarrow> bool" where
  "same_flow k t u \<longleftrightarrow> tr_buffers t k = tr_buffers u k \<and> tr_expected t k = tr_expected u k \<and> tr_partial t k = tr_partial u k"

lemma absorb_same:
  assumes "same_flow (sg_flow sg) t u" "absorb t sg = Inr (out, t')"
  shows "\<exists>u'. absorb u sg = Inr (out, u') \<and> same_flow (sg_flow sg) t' u'"
  using assms by (auto simp: absorb_def same_flow_def Let_def case_prod_unfold split: if_splits)

lemma absorb_other:
  assumes "sg_flow sg \<noteq> k" "absorb t sg = Inr (out, t')"
  shows "same_flow k t t'"
  using assms by (auto simp: absorb_def same_flow_def Let_def case_prod_unfold split: if_splits)

lemma drain_packets_frames: "drain_packets n c x p = Inr (out, st) \<Longrightarrow> m \<in> set out \<Longrightarrow> ms_frame m = n"
  by (subst (asm) drain_packets_number[where m = 0]) auto

lemma absorb_frames: "absorb t sg = Inr (out, t') \<Longrightarrow> m \<in> set out \<Longrightarrow> ms_frame m = sg_number sg"
  by (auto simp: absorb_def Let_def case_prod_unfold drain_packets_frames split: if_splits)

lemma reassemble_frames: "reassemble t sgs = Inr (out, t') \<Longrightarrow> m \<in> set out \<Longrightarrow> ms_frame m \<in> sg_number ` set sgs"
  by (induction sgs arbitrary: t out) (fastforce dest: absorb_frames)+

lemma reassemble_same:
  assumes "reassemble t sgs = Inr (out, t')" "same_flow k t u" "distinct (map sg_number sgs)"
  shows "\<exists>u'. reassemble u (filter (\<lambda>s. sg_flow s = k) sgs)
      = Inr (filter (\<lambda>m. ms_frame m \<in> sg_number ` {s \<in> set sgs. sg_flow s = k}) out, u') \<and> same_flow k t' u'"
  using assms
proof (induction sgs arbitrary: t u out)
  case Nil
  then show ?case by simp
next
  case (Cons s sgs)
  obtain o1 t1 o2 where s1: "absorb t s = Inr (o1, t1)" "reassemble t1 sgs = Inr (o2, t')" "out = o1 @ o2"
    using Cons.prems(1) by auto
  let ?mine = "\<lambda>m ss. ms_frame m \<in> sg_number ` {s \<in> set ss. sg_flow s = k}"
  have fresh: "sg_number s \<notin> sg_number ` set sgs" "distinct (map sg_number sgs)" using Cons.prems(3) by auto
  have o2: "filter (\<lambda>m. ?mine m (s # sgs)) o2 = filter (\<lambda>m. ?mine m sgs) o2"
  proof (rule filter_cong[OF refl])
    fix m assume "m \<in> set o2"
    then have "ms_frame m \<noteq> sg_number s" using reassemble_frames[OF s1(2)] fresh(1) by metis
    then show "?mine m (s # sgs) \<longleftrightarrow> ?mine m sgs" by auto
  qed
  show ?case
  proof (cases "sg_flow s = k")
    case True
    have o1: "filter (\<lambda>m. ?mine m (s # sgs)) o1 = o1"
      by (rule filter_True) (use absorb_frames[OF s1(1)] True in auto)
    obtain u1 where u1: "absorb u s = Inr (o1, u1)" "same_flow k t1 u1"
      using absorb_same[OF _ s1(1)] Cons.prems(2) True by blast
    show ?thesis using Cons.IH[OF s1(2) u1(2) fresh(2)] True u1(1) o1 o2 by (auto simp: s1(3))
  next
    case False
    have o1: "filter (\<lambda>m. ?mine m (s # sgs)) o1 = []"
      unfolding filter_empty_conv using absorb_frames[OF s1(1)] fresh(1) False by fastforce
    have "same_flow k t1 u" using absorb_other[OF False s1(1)] Cons.prems(2) by (simp add: same_flow_def)
    then show ?thesis using Cons.IH[OF s1(2) _ fresh(2)] False o1 o2 by (simp add: s1(3))
  qed
qed

lemma absorb_raises:
  assumes "same_flow (sg_flow sg) t u" "absorb t sg = Inl e"
  shows "absorb u sg = Inl e"
  using assms by (auto simp: absorb_def same_flow_def Let_def case_prod_unfold bindE_Inl_iff split: if_splits)

lemma reassemble_raises:
  assumes "reassemble t sgs = Inl e" "\<And>k. same_flow k t (us k)"
  shows "\<exists>k. reassemble (us k) (filter (\<lambda>s. sg_flow s = k) sgs) = Inl e"
  using assms
proof (induction sgs arbitrary: t us)
  case (Cons s sgs)
  let ?k = "sg_flow s"
  show ?case
  proof (cases "absorb t s")
    case (Inl d)
    then have "absorb (us ?k) s = Inl e" using absorb_raises[OF Cons.prems(2)] Cons.prems(1) by simp
    then show ?thesis by (intro exI[of _ ?k]) simp
  next
    case (Inr r)
    obtain o1 t1 where t1: "absorb t s = Inr (o1, t1)" using Inr by (cases r) simp
    obtain u1 where u1: "absorb (us ?k) s = Inr (o1, u1)" "same_flow ?k t1 u1"
      using absorb_same[OF Cons.prems(2) t1] by blast
    have "reassemble t1 sgs = Inl e" using Cons.prems(1) t1 by (auto simp: bindE_Inl_iff)
    moreover have "same_flow k t1 ((us(?k := u1)) k)" for k
      using u1(2) absorb_other[OF _ t1, of k] Cons.prems(2)[of k] by (auto simp: same_flow_def)
    ultimately obtain k where "reassemble ((us(?k := u1)) k) (filter (\<lambda>s. sg_flow s = k) sgs) = Inl e"
      using Cons.IH[of t1 "us(?k := u1)"] by blast
    then show ?thesis using u1(1) by (intro exI[of _ k]) (auto split: if_splits)
  qed
qed simp

definition flow_frames :: "flow \<Rightarrow> segment list \<Rightarrow> nat list" where
  "flow_frames k sgs = map sg_number (filter (\<lambda>s. sg_flow s = k) sgs)"

text \<open>C23: What a flow gives does not depend on the other flows, except that their errors end the run: when the
  reassembly of all flows returns, the messages completed by the segments of each flow are those of that flow reassembled
  alone; when it raises, some flow raises that very error when it is reassembled alone.\<close>
theorem flows_do_not_interfere:
  assumes "distinct (map sg_number sgs)"
  shows "case reassemble fresh_tracker sgs of
      Inr (out, t) \<Rightarrow> \<forall>k. \<exists>u. reassemble fresh_tracker (filter (\<lambda>s. sg_flow s = k) sgs)
        = Inr (filter (\<lambda>m. ms_frame m \<in> set (flow_frames k sgs)) out, u)
    | Inl e \<Rightarrow> \<exists>k. reassemble fresh_tracker (filter (\<lambda>s. sg_flow s = k) sgs) = Inl e"
proof (cases "reassemble fresh_tracker sgs")
  case (Inl e)
  then show ?thesis using reassemble_raises[OF Inl, of "\<lambda>_. fresh_tracker"] by (simp add: same_flow_def)
next
  case (Inr r)
  obtain out t where r: "r = (out, t)" by (cases r)
  have "\<exists>u. reassemble fresh_tracker (filter (\<lambda>s. sg_flow s = k) sgs)
      = Inr (filter (\<lambda>m. ms_frame m \<in> set (flow_frames k sgs)) out, u)" for k
    using reassemble_same[OF Inr[unfolded r] _ assms, of k fresh_tracker] by (auto simp: same_flow_def flow_frames_def)
  then show ?thesis by (simp add: Inr r)
qed

section \<open>Reading back what was written\<close>

definition capture_flow :: "nat \<Rightarrow> flow" where
  "capture_flow index = ([127, 0, 0, 1], 40000 + int index, [127, 0, 0, 2], 102)"

lemma absorb_capture:
  assumes "wrap pdu = Inr w" "same_flow (capture_flow index) t fresh_tracker"
  shows "\<exists>t'. absorb t (capture_segment index w) =
      Inr ([\<lparr>ms_frame = Suc index, ms_from_client = True, ms_pdu = pdu\<rparr>], t')
    \<and> (\<forall>j. j \<noteq> index \<longrightarrow> same_flow (capture_flow j) t t')"
proof -
  have "w \<noteq> []" using assms(1) by (auto simp: wrap_def Let_def)
  moreover have "drain_packets (Suc index) True w None = Inr ([\<lparr>ms_frame = Suc index, ms_from_client = True, ms_pdu = pdu\<rparr>], [], None)"
    using drain_packets_wrap[OF assms(1), of "Suc index" True "[]" None] by (simp add: drain_packets_stable stable_def)
  ultimately show ?thesis
    using assms(2) by (simp add: absorb_def capture_segment_def capture_flow_def same_flow_def trim_def fresh_tracker_def Let_def)
qed

lemma reassemble_capture:
  assumes "mapE wrap pdus = Inr ws" "\<And>j. k \<le> j \<Longrightarrow> same_flow (capture_flow j) t fresh_tracker"
  shows "\<exists>t'. reassemble t (map2 capture_segment [k..<k + length ws] ws) =
    Inr (map2 (\<lambda>i pdu. \<lparr>ms_frame = Suc i, ms_from_client = True, ms_pdu = pdu\<rparr>) [k..<k + length ws] pdus, t')"
  using assms
proof (induction pdus arbitrary: k t ws)
  case Nil
  then show ?case by simp
next
  case (Cons pdu pdus)
  obtain w ws' where w: "wrap pdu = Inr w" "mapE wrap pdus = Inr ws'" "ws = w # ws'" using Cons.prems(1) by auto
  obtain t1 where t1: "absorb t (capture_segment k w) = Inr ([\<lparr>ms_frame = Suc k, ms_from_client = True, ms_pdu = pdu\<rparr>], t1)"
    "\<And>j. j \<noteq> k \<Longrightarrow> same_flow (capture_flow j) t t1"
    using absorb_capture[OF w(1) Cons.prems(2)[of k]] by auto
  have "same_flow (capture_flow j) t1 fresh_tracker" if "Suc k \<le> j" for j
    using t1(2)[of j] Cons.prems(2)[of j] that by (simp add: same_flow_def)
  then show ?case using Cons.IH[OF w(2), of "Suc k" t1] t1(1) w(3) by (auto simp: upt_rec)
qed

lemma capture_read_back:
  assumes "mapE wrap pdus = Inr ws" "length pdus \<le> 25536" "list_all (\<lambda>pdu. length pdu \<le> 65488) pdus"
  shows "bindE (capture ws) messages =
    Inr (map2 (\<lambda>i pdu. \<lparr>ms_frame = Suc i, ms_from_client = True, ms_pdu = pdu\<rparr>) [0..<length pdus] pdus)"
proof -
  have n: "length ws = length pdus" using mapE_length[OF assms(1)] .
  have "length w = length pdu + 7" if "wrap pdu = Inr w" for pdu w
    using that by (auto simp: wrap_def Let_def simp del: be_bytes_numeral)
  then have small: "list_all (\<lambda>w. length w \<le> 65495) ws"
    using assms(1,3) by (induction pdus arbitrary: ws) auto
  obtain data where data: "capture ws = Inr data" using capture_total[of ws] small assms(2) n by auto
  obtain frames where "read_pcap data = Inr frames" "tcp_payloads frames = Inr (map2 capture_segment [0..<length ws] ws)"
    using capture_read[OF data _ small] assms(2) n by auto
  moreover obtain t where "reassemble fresh_tracker (map2 capture_segment [0..<length ws] ws) =
      Inr (map2 (\<lambda>i pdu. \<lparr>ms_frame = Suc i, ms_from_client = True, ms_pdu = pdu\<rparr>) [0..<length ws] pdus, t)"
    using reassemble_capture[OF assms(1), of 0 fresh_tracker] by (auto simp: same_flow_def)
  ultimately show ?thesis by (simp add: data messages_def n)
qed

text \<open>C24: A synthetic capture of framed PDUs gives back those PDUs as client messages, one per frame and in
  order: the composition of the capture writer, the pcap reader, the segment extractor and the reassembly.\<close>
theorem capture_messages:
  assumes "mapE wrap pdus = Inr ws" "length pdus \<le> 25536" "list_all (\<lambda>pdu. length pdu \<le> 65488) pdus"
  shows "bindE (capture ws) messages =
    Inr (map2 (\<lambda>i pdu. \<lparr>ms_frame = Suc i, ms_from_client = True, ms_pdu = pdu\<rparr>) [0..<length pdus] pdus)"
  by (rule capture_read_back[OF assms])

section \<open>Sequence numbers that wrap\<close>

text \<open>
  The expected number is kept without reduction modulo \<open>2 ^ 32\<close>. In a flow whose numbers wrap,
  the segment after the wrap carries the number 0, counts as a retransmission, and its PDU is lost.
\<close>

lemma wrapped_sequence_loses_pdu:
  assumes "wrap p1 = Inr w1" "wrap p2 = Inr w2"
  defines "first \<equiv> 2 ^ 32 - len w1"
  shows "pdus_of (reassemble fresh_tracker [handshake n0 k first,
      \<lparr>sg_number = n1, sg_flow = k, sg_payload = w1, sg_syn = False, sg_seq = first\<rparr>,
      \<lparr>sg_number = n2, sg_flow = k, sg_payload = w2, sg_syn = False, sg_seq = 0\<rparr>]) = Inr [p1]"
proof -
  have "w1 \<noteq> []" "w2 \<noteq> []" "len w2 < 2 ^ 32" "len w1 < 2 ^ 32"
    using assms(1,2) by (auto simp: wrap_def Let_def)
  moreover from this have "(first - 1) mod 2 ^ 32 = first - 1"
    by (intro mod_pos_pos_trivial) (simp_all add: first_def len_def Suc_le_eq)
  moreover have "drain_packets n1 c w1 None = Inr ([\<lparr>ms_frame = n1, ms_from_client = c, ms_pdu = p1\<rparr>], [], None)" for c
    using drain_packets_wrap[OF assms(1), of n1 c "[]" None] by (simp add: drain_packets_stable stable_def)
  ultimately show ?thesis
    unfolding handshake_def
    by (simp add: absorb_def fresh_tracker_def trim_def Let_def pdus_of_def first_def)
qed

section \<open>Witnesses\<close>

definition ex_pdus :: "bytes list" where
  "ex_pdus = [[0x32, 1], [0x33, 2, 3]]"

definition ex_wraps :: "bytes list" where
  "ex_wraps = [[3, 0, 0, 9, 2, 0xF0, 0x80, 0x32, 1], [3, 0, 0, 10, 2, 0xF0, 0x80, 0x33, 2, 3]]"

text \<open>Number, offset and length of the segments: the second is a retransmission that adds nothing, the third overlaps.\<close>

definition ex_pieces :: "(nat \<times> nat \<times> nat) list" where
  "ex_pieces = [(2, 0, 6), (3, 0, 4), (4, 3, 9), (5, 12, 7)]"

definition ex_key :: flow where
  "ex_key = ([10, 0, 0, 1], 1024, [10, 0, 0, 2], 102)"

lemma ex_wraps: "mapE wrap ex_pdus = Inr ex_wraps"
  unfolding ex_pdus_def ex_wraps_def by code_simp

theorem reassembly_refines_stream_witness:
  "pdus_of (reassemble fresh_tracker (handshake 1 ex_key 77 # map (stream_piece ex_key 77 (concat ex_wraps)) ex_pieces))
    = pdus_of (drain_packets 0 True (take 19 (concat ex_wraps)) None)"
proof -
  have "gapless (length (concat ex_wraps)) 0 (map snd ex_pieces)" "unwrapped 77 (concat ex_wraps)"
    unfolding ex_wraps_def ex_pieces_def by (simp_all add: unwrapped_def len_def)
  from reassembly_refines_stream[OF this, of 1 ex_key] show ?thesis
    by (simp add: ex_pieces_def ex_key_def of_client_def)
qed

lemma reassembly_recovers_pdus_example:
  "pdus_of (reassemble fresh_tracker (handshake 1 ex_key 77 # map (stream_piece ex_key 77 (concat ex_wraps)) ex_pieces)) = Inr ex_pdus"
  by (rule reassembly_recovers_pdus[OF ex_wraps]) (simp_all add: ex_wraps_def ex_pieces_def unwrapped_def len_def)

theorem capture_messages_witness:
  "bindE (capture ex_wraps) messages = Inr [\<lparr>ms_frame = 1, ms_from_client = True, ms_pdu = [0x32, 1]\<rparr>,
    \<lparr>ms_frame = 2, ms_from_client = True, ms_pdu = [0x33, 2, 3]\<rparr>]"
  using capture_messages[OF ex_wraps] by (simp add: ex_pdus_def upt_rec numeral_2_eq_2)

definition ex_flows :: "segment list" where
  "ex_flows = [handshake 1 ex_key 77, stream_piece ex_key 77 (concat ex_wraps) (2, 0, 12),
     stream_piece ([10, 0, 0, 2], 102, [10, 0, 0, 1], 1024) 9 (concat ex_wraps) (3, 0, 19),
     stream_piece ex_key 77 (concat ex_wraps) (4, 12, 7)]"

definition ex_out :: "message list" where
  "ex_out = [\<lparr>ms_frame = 2, ms_from_client = True, ms_pdu = [0x32, 1]\<rparr>,
     \<lparr>ms_frame = 3, ms_from_client = False, ms_pdu = [0x32, 1]\<rparr>,
     \<lparr>ms_frame = 3, ms_from_client = False, ms_pdu = [0x33, 2, 3]\<rparr>,
     \<lparr>ms_frame = 4, ms_from_client = True, ms_pdu = [0x33, 2, 3]\<rparr>]"

lemma ex_flows: "\<exists>t. reassemble fresh_tracker ex_flows = Inr (ex_out, t)"
  by (simp add: ex_flows_def ex_out_def ex_wraps_def stream_piece_def handshake_def absorb_def fresh_tracker_def Let_def trim_def
      slice_def ex_key_def len_def drain_packets.simps)

theorem flows_do_not_interfere_witness:
  "\<exists>u. reassemble fresh_tracker (filter (\<lambda>s. sg_flow s = ex_key) ex_flows) = Inr ([ex_out ! 0, ex_out ! 3], u)"
proof -
  obtain t where t: "reassemble fresh_tracker ex_flows = Inr (ex_out, t)" using ex_flows by blast
  have d: "distinct (map sg_number ex_flows)" by (simp add: ex_flows_def handshake_def stream_piece_def)
  have "flow_frames ex_key ex_flows = [1, 2, 4]"
    by (simp add: flow_frames_def ex_flows_def handshake_def stream_piece_def ex_key_def)
  then have "filter (\<lambda>m. ms_frame m \<in> set (flow_frames ex_key ex_flows)) ex_out = [ex_out ! 0, ex_out ! 3]"
    by (simp add: ex_out_def)
  then show ?thesis using flows_do_not_interfere[OF d, unfolded t sum.case prod.case, THEN spec[of _ ex_key]] by simp
qed

end
