(* ===== verification/Analysis.thy ===== *)
theory Analysis
  imports Reassembly Peers
begin

text \<open>
  \<^verbatim>\<open>real_captures.analyse\<close>: the questions a capture's messages raise for the Lean decoder, and the judgement of its
  answers. The decoder is a process that answers lines with lines; it is the parameter \<open>oracle\<close>.
\<close>

section \<open>Text\<close>

definition hex_text :: "bytes \<Rightarrow> ustr" where
  "hex_text bs = concat (List.map hex2 bs)"

text \<open>\<^verbatim>\<open>data.hex() or '-'\<close>.\<close>

definition dash_hex :: "bytes \<Rightarrow> ustr" where
  "dash_hex bs = (if bs = [] then ascii ''-'' else hex_text bs)"

definition spaced :: "ustr list \<Rightarrow> ustr" where
  "spaced = join_with 32"

definition ends_with :: "'a list \<Rightarrow> 'a list \<Rightarrow> bool" where
  "ends_with ending xs \<longleftrightarrow> length ending \<le> length xs \<and> drop (length xs - length ending) xs = ending"

definition starts_with :: "'a list \<Rightarrow> 'a list \<Rightarrow> bool" where
  "starts_with beginning xs \<longleftrightarrow> take (length beginning) xs = beginning"

text \<open>\<^verbatim>\<open>text.split()\<close>, with the word read so far, reversed.\<close>

fun split_words :: "ustr \<Rightarrow> ustr \<Rightarrow> ustr list" where
  "split_words word [] = (if word = [] then [] else [rev word])"
| "split_words word (c # cs) =
     (if is_space c then (if word = [] then split_words [] cs else rev word # split_words [] cs)
      else split_words (c # word) cs)"

section \<open>Questions\<close>

datatype question_kind = QRefused | QRequest | QDownload | QPayload | QUserdata | QClock | QRead

record question =
  qu_kind :: question_kind
  qu_label :: ustr
  qu_line :: ustr
  qu_extra :: bytes

definition ask :: "question_kind \<Rightarrow> message \<Rightarrow> ustr list \<Rightarrow> ustr list \<Rightarrow> bytes \<Rightarrow> question" where
  "ask kind m label line extra =
     \<lparr>qu_kind = kind, qu_label = ascii ''frame '' @ int_str (int (ms_frame m)) @ concat label, qu_line = spaced line, qu_extra = extra\<rparr>"

abbreviation number_text :: "byte \<Rightarrow> ustr" where
  "number_text b \<equiv> int_str (uint b)"

text \<open>The question a reply to a block or control service is put as; \<open>None\<close> for other services.\<close>

definition reply_line :: "byte \<Rightarrow> int \<Rightarrow> bytes \<Rightarrow> ustr list option" where
  "reply_line function reference pdu =
     (if function = 0x1D then Some [ascii ''startupresp'', int_str reference, hex_text pdu]
      else if function = 0x1E then Some [ascii ''upload'', int_str reference, hex_text pdu]
      else if function = 0x1F then Some [ascii ''endupresp'', int_str reference, hex_text pdu]
      else if function \<in> {0x28, 0x29} then Some [ascii ''ctrlresp'', int_str reference, number_text function, hex_text pdu]
      else None)"

definition refusal :: "message \<Rightarrow> int \<Rightarrow> bytes \<Rightarrow> question list result" where
  "refusal m reference job =
     (case (if 10 < length job then reply_line (job ! 10) reference (ms_pdu m) else None) of
        None \<Rightarrow> Inr []
      | Some line \<Rightarrow>
          bindE (at (ms_pdu m) 10) (\<lambda>a. bindE (at (ms_pdu m) 11) (\<lambda>b.
            Inr [ask QRefused m [ascii '' PLC refusal (0x'', hex2 a, hex2 b, ascii '') of 0x'', hex2 (job ! 10)] line (ms_pdu m)])))"

definition block_type :: "bytes \<Rightarrow> byte" where
  "block_type parameters = (if 11 < length parameters then parameters ! 11 else 0)"

text \<open>The jobs of a client, by function code.\<close>

definition client_job :: "message \<Rightarrow> int \<Rightarrow> bytes \<Rightarrow> question list result" where
  "client_job m reference parameters =
     (let q = (\<lambda>label line. Inr [ask QRequest m [ascii label] (ascii ''enc'' # line) (ms_pdu m)]);
          r = int_str reference; b = number_text (block_type parameters) in
      case parameters of [] \<Rightarrow> Inr [] | function # _ \<Rightarrow>
      if function = 0x1A then
        bindE (octets_int (slice 12 17 parameters)) (\<lambda>n. bindE (octets_int (slice 20 26 parameters)) (\<lambda>load.
        bindE (octets_int (slice 26 32 parameters)) (\<lambda>mc7.
          q '' request download'' [ascii ''download'', r, b, int_str n, int_str load, int_str mc7])))
      else if function = 0x1D then
        bindE (octets_int (slice 12 17 parameters)) (\<lambda>n. q '' start upload'' [ascii ''startupload'', r, b, int_str n])
      else if function = 0x1E then bindE (at parameters 7) (\<lambda>u. q '' upload'' [ascii ''upload'', r, number_text u])
      else if function = 0x1F then bindE (at parameters 7) (\<lambda>u. q '' endupload'' [ascii ''endupload'', r, number_text u])
      else if function = 0x29 then q '' CPU stop'' [ascii ''plcstop'', r]
      else if function = 0x28 then
        (if ends_with [0x5f, 0x4d, 0x4f, 0x44, 0x55] parameters then q '' copy RAM to ROM'' [ascii ''copyramrom'', r]
         else if ends_with [0x5f, 0x47, 0x41, 0x52, 0x42] parameters then q '' compress'' [ascii ''compress'', r]
         else if contains [0x50, 0x5f, 0x50, 0x52, 0x4f, 0x47, 0x52, 0x41, 0x4d] parameters then
           bindE (at parameters 9) (\<lambda>k.
             if k = 2 then q '' CPU cold start'' [ascii ''plccold'', r] else q '' CPU hot start'' [ascii ''plchot'', r])
         else if ends_with [0x5f, 0x49, 0x4e, 0x53, 0x45] parameters then
           bindE (at parameters 13) (\<lambda>t. bindE (octets_int (slice 14 19 parameters)) (\<lambda>n.
             q '' insert block'' [ascii ''insert'', r, number_text t, int_str n]))
         else Inr [])
      else Inr [])"

text \<open>The download services a PLC starts.\<close>

definition is_plc_job :: "bytes \<Rightarrow> bool" where
  "is_plc_job parameters \<longleftrightarrow> parameters \<noteq> [] \<and> parameters ! 0 \<in> {0x1B, 0x1C}"

definition plc_job :: "message \<Rightarrow> bytes \<Rightarrow> question list result" where
  "plc_job m parameters =
     (if is_plc_job parameters then
        bindE (octets_int (slice 12 17 parameters)) (\<lambda>n.
          Inr [ask QDownload m [ascii '' PLC download service 0x'', hex2 (parameters ! 0)]
            [ascii ''dlreq'', number_text (parameters ! 0), number_text (block_type parameters), int_str n, hex_text (ms_pdu m)] (ms_pdu m)])
      else Inr [])"

text \<open>What a client answers them.\<close>

definition client_reply :: "message \<Rightarrow> int \<Rightarrow> bytes \<Rightarrow> bytes \<Rightarrow> question list result" where
  "client_reply m reference parameters body =
     (case parameters of [] \<Rightarrow> Inr [] | function # _ \<Rightarrow>
      if function = 0x1B then
        bindE (at parameters 1) (\<lambda>flag.
          Inr [ask QRequest m [ascii '' download fragment reply'']
            [ascii ''enc'', ascii ''dlfrag'', int_str reference, int_str (if flag = 0 then 1 else 0), dash_hex (drop 4 body)] (ms_pdu m)])
      else if function = 0x1C then
        Inr [ask QRequest m [ascii '' download ended reply''] [ascii ''enc'', ascii ''dlended'', int_str reference] (ms_pdu m)]
      else Inr [])"

definition size_code :: "byte \<Rightarrow> int option" where
  "size_code b = map_of [(0x02, 1), (0x04, 2), (0x06, 4), (0x1C, 2), (0x1D, 2)] b"

text \<open>A reply to a read of one item; \<^verbatim>\<open>request[22 - 0]\<close> raises when the job is shorter.\<close>

definition read_reply :: "message \<Rightarrow> int \<Rightarrow> bytes \<Rightarrow> question list result" where
  "read_reply m reference job =
     bindE (at job 1) (\<lambda>k.
     if k = 1 \<and> 11 < length job \<and> job ! 10 = 4 \<and> job ! 11 = 1 then
       bindE (at job 22) (\<lambda>_.
       let item = slice 12 24 job in
       if length item = 12 then
         (case size_code (item ! 3) of None \<Rightarrow> Inr []
          | Some octets_each \<Rightarrow> Inr [ask QRead m [ascii '' read response'']
              [ascii ''read'', int_str reference, int_str (be_int (slice 4 6 item) * octets_each), hex_text (ms_pdu m)] (ms_pdu m)])
       else Inr [])
     else Inr [])"

definition plc_answer :: "message \<Rightarrow> int \<Rightarrow> bytes \<Rightarrow> bytes option \<Rightarrow> question list result" where
  "plc_answer m reference parameters job =
     (case (case parameters of [] \<Rightarrow> None | function # _ \<Rightarrow> reply_line function reference (ms_pdu m)) of
        Some line \<Rightarrow> Inr [ask QDownload m [ascii '' PLC reply to 0x'', hex2 (parameters ! 0)] line (ms_pdu m)]
      | None \<Rightarrow> (case job of None \<Rightarrow> Inr [] | Some j \<Rightarrow> read_reply m reference j))"

section \<open>USER_DATA\<close>

definition slashed :: "int \<Rightarrow> int \<Rightarrow> ustr" where
  "slashed grp subfunction = int_str grp @ ascii ''/'' @ int_str subfunction"

definition userdata_request :: "message \<Rightarrow> question list result" where
  "userdata_request m =
     bindE (userdata_fields (ms_pdu m)) (\<lambda>(reference, grp, subfunction, sequence).
     bindE (userdata_payload (ms_pdu m)) (\<lambda>data.
     let q = (\<lambda>line. Inr [ask QRequest m [ascii '' request '', slashed grp subfunction] (ascii ''enc'' # line) (ms_pdu m)]);
         r = int_str reference in
     if (grp, subfunction) = (7, 1) then q [ascii ''readclock'', r]
     else if (grp, subfunction) = (3, 1) then q [ascii ''listblocks'', r]
     else if (grp, subfunction) = (3, 2) \<and> length data = 2 then q [ascii ''listblocksoftype'', r, number_text (data ! 1)]
     else if (grp, subfunction) = (3, 3) \<and> length data = 8 then
       bindE (octets_int (slice 2 7 data)) (\<lambda>n. q [ascii ''blockinfo'', r, number_text (data ! 1), int_str n])
     else if (grp, subfunction) = (4, 1) \<and> length data = 4 \<and> ms_pdu m ! 7 = 8 \<and> sequence = 0 then
       q [ascii ''szl'', r, int_str (be_int (take 2 data)), int_str (be_int (slice 2 4 data))]
     else if (grp, subfunction) = (4, 1) \<and> sequence \<noteq> 0 then q [ascii ''szlnext'', r, int_str sequence]
     else Inr []))"

definition refuses :: "bytes \<Rightarrow> bool" where
  "refuses pdu \<longleftrightarrow> 22 \<le> length pdu \<and> be_int (slice 20 22 pdu) \<noteq> 0 \<or> 22 < length pdu \<and> pdu ! 22 \<notin> {0xFF, 0x0A}"

definition userdata_response_questions :: "message \<Rightarrow> question list result" where
  "userdata_response_questions m =
     (let pdu = ms_pdu m; error = (if 22 \<le> length pdu then slice 20 22 pdu else [0, 0]) in
      bindE (userdata_fields pdu) (\<lambda>(reference, grp, subfunction, _).
      bindE (userdata_payload pdu) (\<lambda>content.
      let label = [ascii '' response '', slashed grp subfunction,
            if refuses pdu then ascii '' (PLC error 0x'' @ hex_text error @ ascii '')'' else []];
          first = ask (if refuses pdu then QRefused else QUserdata) m label
            [ascii ''userdata'', int_str reference, int_str grp, int_str subfunction, hex_text pdu] pdu;
          next = (\<lambda>kind name verb. Inr [first, ask kind m (label @ [ascii name]) [ascii verb, dash_hex content] content])
      in if refuses pdu then Inr [first]
         else if (grp, subfunction) = (3, 1) \<and> content \<noteq> [] then next QPayload '' block counts'' ''blockcounts''
         else if (grp, subfunction) = (3, 2) \<and> content \<noteq> [] then next QPayload '' block list'' ''blocklist''
         else if (grp, subfunction) = (3, 3) \<and> content \<noteq> [] then next QPayload '' block info'' ''blockinfo''
         else if (grp, subfunction) = (7, 1) \<and> length content = 10 then next QClock '' clock'' ''clock''
         else Inr [first])))"

section \<open>The capture, message by message\<close>

record capture_result =
  cr_capture :: ustr
  cr_check :: ustr
  cr_ok :: bool
  cr_detail :: ustr

definition not_s7 :: "ustr \<Rightarrow> message \<Rightarrow> capture_result" where
  "not_s7 name m = \<lparr>cr_capture = name, cr_check = ascii ''S7 header'', cr_ok = False,
     cr_detail = ascii ''frame '' @ int_str (int (ms_frame m)) @ ascii '': not an S7 PDU''\<rparr>"

text \<open>The requests that wait for their answers, by reference.\<close>

type_synonym waiting = "int \<rightharpoonup> bytes"

text \<open>One S7 message: its questions and what waits afterwards. The message kinds are job (1), acknowledgement (2),
  acknowledgement with data (3) and USER_DATA (7).\<close>

definition message_questions :: "waiting \<Rightarrow> message \<Rightarrow> (question list \<times> waiting) result" where
  "message_questions waits m =
     (let pdu = ms_pdu m; kind = pdu ! 1; reference = be_int (slice 4 6 pdu);
          header = (if kind \<in> {2, 3} then 12 else 10); size = nat (be_int (slice 6 8 pdu));
          parameters = slice header (header + size) pdu; body = drop (header + size) pdu;
          waits' = (if ms_from_client m \<and> kind \<in> {1, 7} then waits(reference \<mapsto> pdu) else waits);
          keep = (\<lambda>r w. bindE r (\<lambda>qs. Inr (qs, w)))
      in if kind = 2 then
           (case (if ms_from_client m then None else waits' reference) of None \<Rightarrow> Inr ([], waits') | Some job \<Rightarrow> keep (refusal m reference job) waits')
         else if kind = 1 then
           (if ms_from_client m then keep (client_job m reference parameters) waits'
            else keep (plc_job m parameters) (if is_plc_job parameters then waits'(reference \<mapsto> pdu) else waits'))
         else if kind = 3 then
           (if ms_from_client m then keep (client_reply m reference parameters body) waits'
            else keep (plc_answer m reference parameters (waits' reference)) waits')
         else if kind = 7 then keep (if ms_from_client m then userdata_request m else userdata_response_questions m) waits'
         else Inr ([], waits'))"

definition is_s7 :: "message \<Rightarrow> bool" where
  "is_s7 m \<longleftrightarrow> \<not> (length (ms_pdu m) < 10 \<or> ms_pdu m ! 0 \<noteq> 0x32)"

fun questions_of :: "ustr \<Rightarrow> waiting \<Rightarrow> message list \<Rightarrow> (capture_result list \<times> question list) result" where
  "questions_of name waits [] = Inr ([], [])"
| "questions_of name waits (m # ms) =
     (if \<not> is_s7 m then bindE (questions_of name waits ms) (\<lambda>(rs, qs). Inr (not_s7 name m # rs, qs))
      else bindE (message_questions waits m) (\<lambda>(q, waits').
           bindE (questions_of name waits' ms) (\<lambda>(rs, qs). Inr (rs, q @ qs))))"

section \<open>The answers\<close>

text \<open>The decoder's answers, one for each line.\<close>

definition lean :: "(ustr list \<Rightarrow> ustr list result) \<Rightarrow> ustr list \<Rightarrow> ustr list result" where
  "lean oracle lines =
     bindE (oracle lines) (\<lambda>answers. bindE (guardE (length answers = length lines) SystemExit) (\<lambda>_. Inr answers))"

definition accepting_answer :: "ustr \<Rightarrow> bool" where
  "accepting_answer answer \<longleftrightarrow> starts_with (ascii ''accept'') answer"

definition last_chars :: "nat \<Rightarrow> 'a list \<Rightarrow> 'a list" where
  "last_chars n xs = drop (length xs - n) xs"

definition but_last :: "nat \<Rightarrow> 'a list \<Rightarrow> 'a list" where
  "but_last n xs = take (length xs - n) xs"

definition clock_list :: "clock \<Rightarrow> int list" where
  "clock_list c = [ck_year c, ck_month c, ck_day c, ck_hour c, ck_minute c, ck_second c, ck_millisecond c, ck_weekday c]"

definition tuple_text :: "int list \<Rightarrow> ustr" where
  "tuple_text vs = ascii ''('' @ concat (List.map (\<lambda>(i, v). (if i = 0 then [] else ascii '', '') @ int_str v) (List.enumerate 0 vs)) @ ascii '')''"

definition is_block_info :: "question \<Rightarrow> bool" where
  "is_block_info q \<longleftrightarrow> contains (ascii ''request 3/3'') (qu_label q)"

text \<open>The last octet of a block information request names the file system; it may differ.\<close>

definition same_but_letter :: "ustr \<Rightarrow> bytes \<Rightarrow> bool" where
  "same_but_letter got extra \<longleftrightarrow> but_last 2 got = but_last 2 (hex_text extra) \<and> last_chars 1 extra \<in> {[0x41], [0x42], [0x50]}"

definition judge :: "ustr \<Rightarrow> question \<Rightarrow> ustr \<Rightarrow> capture_result result" where
  "judge name q answer =
     (let made = (\<lambda>check ok detail. \<lparr>cr_capture = name, cr_check = check, cr_ok = ok, cr_detail = detail\<rparr>);
          lenient = (\<lambda>detail. Inr (made (qu_label q) (accepting_answer answer) (if accepting_answer answer then [] else detail)))
      in case qu_kind q of
           QRefused \<Rightarrow>
             let ok = (answer = ascii ''reject'')
             in Inr (made (qu_label q @ ascii '', rejected as an error reply'') ok
                  (if ok then [] else ascii ''lean accepted a PLC error reply: '' @ take 60 answer))
         | QRequest \<Rightarrow>
             if is_block_info q then
               let got = (if accepting_answer answer then last (split_words [] answer) else []);
                   ok = (got = hex_text (qu_extra q) \<or> same_but_letter got (qu_extra q))
               in Inr (made (ascii ''request '' @ qu_label q) ok
                    (if same_but_letter got (qu_extra q) \<and> got \<noteq> hex_text (qu_extra q)
                     then ascii ''identical except the file-system letter: lean 0x'' @ last_chars 2 got @ ascii '', tool 0x'' @ last_chars 2 (hex_text (qu_extra q))
                     else []))
             else
               let ok = (answer = ascii ''accept '' @ hex_text (qu_extra q))
               in Inr (made (ascii ''request '' @ qu_label q) ok
                    (if ok then [] else ascii ''lean '' @ take 100 answer @ ascii '' capture '' @ take 100 (hex_text (qu_extra q))))
         | QClock \<Rightarrow>
             bindE (independent_clock (qu_extra q)) (\<lambda>fields.
             let parts = split_words [] answer in
             bindE (if take 1 parts = [ascii ''accept''] then bindE (mapE py_int (drop 1 parts)) (\<lambda>vs. Inr (vs = clock_list fields)) else Inr False) (\<lambda>ok.
               Inr (made (qu_label q) ok (if ok then [] else ascii ''lean '' @ answer @ ascii '' independent '' @ tuple_text (clock_list fields)))))
         | QRead \<Rightarrow> lenient (ascii ''lean '' @ take 80 answer)
         | _ \<Rightarrow> lenient (ascii ''lean '' @ take 80 answer @ ascii '' (pdu '' @ last_chars 80 (qu_line q) @ ascii '')''))"

definition analyse :: "(ustr list \<Rightarrow> ustr list result) \<Rightarrow> ustr \<Rightarrow> message list \<Rightarrow> capture_result list result" where
  "analyse oracle name items =
     bindE (questions_of name (\<lambda>_. None) items) (\<lambda>(failures, qs).
     bindE (lean oracle (List.map qu_line qs)) (\<lambda>answers.
     bindE (mapE (\<lambda>(q, answer). judge name q answer) (zip qs answers)) (\<lambda>judged. Inr (failures @ judged))))"

section \<open>Requests of the management oracle\<close>

text \<open>What the analysis should ask about a request with the given service and token.\<close>

definition asked_line :: "int \<Rightarrow> int \<Rightarrow> int \<Rightarrow> int option \<Rightarrow> ustr list option" where
  "asked_line reference grp subfunction token =
     (case token of
        None \<Rightarrow> Some (if grp = 4 then [ascii ''enc'', ascii ''szl'', int_str reference, int_str 0x0424, int_str 0]
                      else [ascii ''enc'', ascii ''listblocksoftype'', int_str reference, int_str 0x41])
      | Some t \<Rightarrow> if grp = 4 \<and> t \<noteq> 0 then Some [ascii ''enc'', ascii ''szlnext'', int_str reference, int_str t] else None)"

definition opaque_service :: "int \<Rightarrow> int \<Rightarrow> bool" where
  "opaque_service grp subfunction \<longleftrightarrow> (grp, subfunction) \<in> {(4, 1), (3, 2)}"

definition request_question :: "message \<Rightarrow> int \<Rightarrow> int \<Rightarrow> ustr list \<Rightarrow> question" where
  "request_question m grp subfunction line = ask QRequest m [ascii '' request '', slashed grp subfunction] line (ms_pdu m)"

lemma management_request_octets:
  assumes "mgmt_request reference grp subfunction token = Inr pdu" "opaque_service grp subfunction"
  obtains r1 r2 where "be_bytes 2 reference = [r1, r2]" "be_int [r1, r2] = reference"
    "pdu = (case token of
       None \<Rightarrow> [0x32, 7, 0, 0, r1, r2, 0, 8, 0] @ (if grp = 4 then [8] else [6]) @ [0, 1, 0x12, 4, 0x11, byte (64 + grp), byte subfunction, 0]
         @ (if grp = 4 then [0xff, 9, 0, 4, 4, 0x24, 0, 0] else [0xff, 9, 0, 2, 0x30, 0x41])
     | Some t \<Rightarrow> [0x32, 7, 0, 0, r1, r2, 0, 12, 0, 4, 0, 1, 0x12, 8, 0x12, byte (64 + grp), byte subfunction, byte t, 0, 0, 0, 0, 0x0a, 0, 0, 0])"
    "\<forall>t. token = Some t \<longrightarrow> 0 \<le> t \<and> t < 256"
proof -
  obtain r1 r2 where r: "be_bytes 2 reference = [r1, r2]" by simp
  have b: "0 \<le> reference" "reference < 65536" using assms(1) packet_bounds by (fastforce simp: mgmt_request_def)+
  then have v: "be_int [r1, r2] = reference" using be_int_2[of reference] r by simp
  have n: "be_bytes 2 12 = [0, 12 :: byte]" "be_bytes 2 8 = [0, 8 :: byte]" "be_bytes 2 4 = [0, 4 :: byte]" "be_bytes 2 6 = [0, 6 :: byte]"
    "be_bytes 2 0 = [0, 0 :: byte]" by (simp_all add: byte_def)
  have o: "or 0x40 grp = 64 + grp" using assms(2) by (auto simp: opaque_service_def)
  show thesis
  proof (cases token)
    case None
    then have "pdu = [0x32, 7, 0, 0, r1, r2, 0, 8, 0] @ (if grp = 4 then [8] else [6]) @ [0, 1, 0x12, 4, 0x11, byte (64 + grp), byte subfunction, 0]
         @ (if grp = 4 then [0xff, 9, 0, 4, 4, 0x24, 0, 0] else [0xff, 9, 0, 2, 0x30, 0x41])"
      using assms packet_ok[of 7 reference] b
      by (auto simp: mgmt_request_def opaque_service_def bytes_of_Inr_iff byte_def len_def n r simp del: be_bytes_numeral)
    with that[OF r v] None show thesis by simp
  next
    case (Some t)
    then have "0 \<le> t" "t < 256" "pdu = [0x32, 7, 0, 0, r1, r2, 0, 12, 0, 4, 0, 1, 0x12, 8, 0x12, byte (64 + grp), byte subfunction, byte t, 0, 0, 0, 0, 0x0a, 0, 0, 0]"
      using assms packet_ok[of 7 reference] b
      by (auto simp: mgmt_request_def opaque_service_def bytes_of_Inr_iff byte_def len_def n r simp del: be_bytes_numeral)
    with that[OF r v] Some show thesis by simp
  qed
qed

lemma management_request_asked:
  assumes "mgmt_request reference grp subfunction token = Inr (ms_pdu m)" "opaque_service grp subfunction" "ms_from_client m"
  shows "is_s7 m"
    and "message_questions waits m = Inr (case asked_line reference grp subfunction token of None \<Rightarrow> []
        | Some line \<Rightarrow> [request_question m grp subfunction line], waits(reference \<mapsto> ms_pdu m))"
proof -
  obtain r1 r2 where v: "be_int [r1, r2] = reference"
    and pdu: "ms_pdu m = (case token of
       None \<Rightarrow> [0x32, 7, 0, 0, r1, r2, 0, 8, 0] @ (if grp = 4 then [8] else [6]) @ [0, 1, 0x12, 4, 0x11, byte (64 + grp), byte subfunction, 0]
         @ (if grp = 4 then [0xff, 9, 0, 4, 4, 0x24, 0, 0] else [0xff, 9, 0, 2, 0x30, 0x41])
     | Some t \<Rightarrow> [0x32, 7, 0, 0, r1, r2, 0, 12, 0, 4, 0, 1, 0x12, 8, 0x12, byte (64 + grp), byte subfunction, byte t, 0, 0, 0, 0, 0x0a, 0, 0, 0])"
    and t: "\<forall>t. token = Some t \<longrightarrow> 0 \<le> t \<and> t < 256"
    by (rule management_request_octets[OF assms(1,2)]) blast
  have fields: "userdata_fields (ms_pdu m) = Inr (reference, grp, subfunction, case token of None \<Rightarrow> 0 | Some t \<Rightarrow> t)"
  proof -
    have o: "uint (byte (64 + grp) AND 0x0F) = grp" "uint (byte subfunction) = subfunction"
      using assms(2) by (auto simp: opaque_service_def byte_def)
    show ?thesis
    proof (cases token)
      case None
      then show ?thesis using v o unfolding pdu
        by (cases "grp = 4") (simp_all add: userdata_fields_def unpack_def slice_def at_def del: be_int_Cons)
    next
      case (Some q)
      then have "uint (byte q) = q" using t by (simp add: uint_byte_id)
      then show ?thesis using v o Some unfolding pdu by (simp add: userdata_fields_def unpack_def slice_def at_def del: be_int_Cons)
    qed
  qed
  have content: "userdata_payload (ms_pdu m) = Inr (case token of None \<Rightarrow> (if grp = 4 then [4, 0x24, 0, 0] else [0x30, 0x41]) | Some t \<Rightarrow> [])"
  proof -
    have "unpack Big 2 (slice 6 8 (ms_pdu m)) = Inr (if token = None then 8 else 12)"
      unfolding pdu by (cases token; cases "grp = 4") (simp_all add: unpack_def slice_def)
    then show ?thesis unfolding userdata_payload_def by (cases token; cases "grp = 4") (simp_all add: pdu)
  qed
  show "is_s7 m" unfolding is_s7_def pdu by (cases token) simp_all
  have "ms_pdu m ! 1 = 7" "slice 4 6 (ms_pdu m) = [r1, r2]" "token = None \<Longrightarrow> ms_pdu m ! 7 = 8"
    unfolding pdu by (cases token; simp add: slice_def)+
  note head = this
  have "userdata_request m = Inr (case asked_line reference grp subfunction token of None \<Rightarrow> []
        | Some line \<Rightarrow> [request_question m grp subfunction line])"
    using assms(2) head(3) unfolding userdata_request_def fields content
    by (cases token) (auto simp: asked_line_def request_question_def opaque_service_def slice_def Let_def)
  then show "message_questions waits m = Inr (case asked_line reference grp subfunction token of None \<Rightarrow> []
        | Some line \<Rightarrow> [request_question m grp subfunction line], waits(reference \<mapsto> ms_pdu m))"
    unfolding message_questions_def Let_def head(1,2) v by (simp add: assms(3))
qed

lemma contains_skip: "c \<noteq> hd needle \<Longrightarrow> needle \<noteq> [] \<Longrightarrow> contains needle (c # cs) \<longleftrightarrow> contains needle cs"
  by (cases needle) auto

lemma contains_skips: "hd needle \<notin> set xs \<Longrightarrow> needle \<noteq> [] \<Longrightarrow> contains needle (xs @ cs) \<longleftrightarrow> contains needle cs"
  by (induction xs) (auto simp: contains_skip simp del: contains.simps(2))

lemma int_str_digits: "0 \<le> i \<Longrightarrow> 114 \<notin> set (int_str i)"
  using nat_str_digits[of "nat i"] by (auto simp: int_str_def is_digit_def)

lemma request_question_plain:
  assumes "opaque_service grp subfunction"
  shows "\<not> is_block_info (request_question m grp subfunction line)"
proof -
  have "contains (ascii ''request 3/3'') (ascii ''frame '' @ int_str (int (ms_frame m)) @ ascii '' request '' @ slashed grp subfunction)
      \<longleftrightarrow> contains (ascii ''request 3/3'') (int_str (int (ms_frame m)) @ ascii '' request '' @ slashed grp subfunction)"
    by (simp add: ascii_def)
  also have "\<dots> \<longleftrightarrow> contains (ascii ''request 3/3'') (ascii '' request '' @ slashed grp subfunction)"
    by (rule contains_skips) (use int_str_digits[of "int (ms_frame m)"] in \<open>simp_all add: ascii_def\<close>)
  also have "\<dots> \<longleftrightarrow> False"
    using assms by (auto simp: ascii_def slashed_def opaque_service_def int_str_def nat_str_small)
  finally show ?thesis by (simp add: is_block_info_def request_question_def ask_def)
qed

text \<open>The requests with their capture positions, and those of them that are asked about.\<close>

type_synonym management_ask = "int \<times> int \<times> int \<times> int option"

definition request_of :: "management_ask \<Rightarrow> bytes result" where
  "request_of q = (case q of (reference, grp, subfunction, token) \<Rightarrow> mgmt_request reference grp subfunction token)"

definition opaque :: "management_ask \<Rightarrow> bool" where
  "opaque q \<longleftrightarrow> (case q of (_, grp, subfunction, _) \<Rightarrow> opaque_service grp subfunction)"

fun asked_pairs :: "management_ask list \<Rightarrow> bytes list \<Rightarrow> (ustr \<times> bytes) list" where
  "asked_pairs ((reference, grp, subfunction, token) # qs) (pdu # pdus) =
     (case asked_line reference grp subfunction token of None \<Rightarrow> [] | Some line \<Rightarrow> [(spaced line, pdu)]) @ asked_pairs qs pdus"
| "asked_pairs _ _ = []"

lemma questions_of_requests:
  assumes "mapE request_of qs = Inr pdus" "list_all opaque qs" "length frames = length pdus"
  shows "\<exists>questions. questions_of name waits (map2 (\<lambda>i pdu. \<lparr>ms_frame = i, ms_from_client = True, ms_pdu = pdu\<rparr>) frames pdus) = Inr ([], questions)
    \<and> List.map (\<lambda>q. (qu_line q, qu_extra q)) questions = asked_pairs qs pdus
    \<and> list_all (\<lambda>q. qu_kind q = QRequest \<and> \<not> is_block_info q) questions"
  using assms
proof (induction qs arbitrary: pdus frames waits)
  case (Cons q qs)
  obtain reference grp subfunction token where q: "q = (reference, grp, subfunction, token)" by (cases q)
  obtain pdu pdus' i frames' where l: "pdus = pdu # pdus'" "frames = i # frames'" "mgmt_request reference grp subfunction token = Inr pdu"
      "mapE request_of qs = Inr pdus'" "length frames' = length pdus'"
  proof -
    obtain pdu pdus' where "pdus = pdu # pdus'" "request_of q = Inr pdu" "mapE request_of qs = Inr pdus'" using Cons.prems(1) by auto
    with that Cons.prems(3) show thesis by (cases frames) (auto simp: q request_of_def[of "(reference, grp, subfunction, token)"])
  qed
  let ?m = "\<lparr>ms_frame = i, ms_from_client = True, ms_pdu = pdu\<rparr>"
  have o: "opaque_service grp subfunction" using Cons.prems(2) q by (simp add: opaque_def)
  have req: "mgmt_request reference grp subfunction token = Inr (ms_pdu ?m)" using l(3) by simp
  note this_one = management_request_asked[OF req o]
  obtain questions where "questions_of name (waits(reference \<mapsto> pdu)) (map2 (\<lambda>i pdu. \<lparr>ms_frame = i, ms_from_client = True, ms_pdu = pdu\<rparr>) frames' pdus') = Inr ([], questions)"
      "List.map (\<lambda>q. (qu_line q, qu_extra q)) questions = asked_pairs qs pdus'"
      "list_all (\<lambda>q. qu_kind q = QRequest \<and> \<not> is_block_info q) questions"
    using Cons.IH[OF l(4) _ l(5)] Cons.prems(2) by fastforce
  then show ?case
    using this_one request_question_plain[OF o, of ?m]
    by (auto simp: l q request_question_def ask_def split: option.splits)
qed simp

lemma judge_request:
  assumes "qu_kind q = QRequest" "\<not> is_block_info q"
  obtains r where "judge name q answer = Inr r" "cr_ok r \<longleftrightarrow> answer = ascii ''accept '' @ hex_text (qu_extra q)"
  using assms by (auto simp: judge_def Let_def)

lemma judge_requests:
  "list_all (\<lambda>q. qu_kind q = QRequest \<and> \<not> is_block_info q) questions \<Longrightarrow>
     \<exists>rs. mapE (\<lambda>(q, answer). judge name q answer) (zip questions (List.map (\<lambda>q. f (qu_line q)) questions)) = Inr rs
       \<and> List.map cr_ok rs = List.map (\<lambda>q. f (qu_line q) = ascii ''accept '' @ hex_text (qu_extra q)) questions"
proof (induction questions)
  case (Cons q questions)
  then obtain r where "judge name q (f (qu_line q)) = Inr r" "cr_ok r \<longleftrightarrow> f (qu_line q) = ascii ''accept '' @ hex_text (qu_extra q)"
    using judge_request[of q name "f (qu_line q)"] by auto
  with Cons show ?case by auto
qed simp

text \<open>C35: Captured management requests are judged by their bytes. When a capture holds requests as the management oracle builds
  them, openings and continuations of both services in any order, the pipeline from the pcap file to the verdicts
  asks the Lean decoder to encode each of them from the fields it read back, and a verdict is good exactly when the answer is
  the captured request octet for octet.\<close>
theorem captured_requests_judged:
  assumes "mapE request_of qs = Inr pdus" "list_all opaque qs" and "mapE wrap pdus = Inr ws" "length pdus \<le> 25536"
    and "oracle = (\<lambda>lines. Inr (List.map f lines))"
  shows "\<exists>rs. bindE (bindE (capture ws) messages) (analyse oracle name) = Inr rs
    \<and> List.map cr_ok rs = List.map (\<lambda>(line, pdu). f line = ascii ''accept '' @ hex_text pdu) (asked_pairs qs pdus)"
proof -
  have "length pdu \<le> 65488" if "request_of q = Inr pdu" "opaque q" for q pdu
    using that by (auto simp: request_of_def opaque_def split: prod.splits elim!: management_request_octets split: option.splits if_splits)
  then have "list_all (\<lambda>pdu. length pdu \<le> 65488) pdus"
    using assms(1,2) by (induction qs arbitrary: pdus) auto
  note read = capture_read_back[OF assms(3,4) this]
  obtain questions where q: "questions_of name (\<lambda>_. None) (map2 (\<lambda>i pdu. \<lparr>ms_frame = i, ms_from_client = True, ms_pdu = pdu\<rparr>) (List.map Suc [0..<length pdus]) pdus) = Inr ([], questions)"
      "List.map (\<lambda>q. (qu_line q, qu_extra q)) questions = asked_pairs qs pdus"
      "list_all (\<lambda>q. qu_kind q = QRequest \<and> \<not> is_block_info q) questions"
    using questions_of_requests[OF assms(1,2), of "List.map Suc [0..<length pdus]"] by auto
  obtain rs where rs: "mapE (\<lambda>(q, answer). judge name q answer) (zip questions (List.map (\<lambda>q. f (qu_line q)) questions)) = Inr rs"
      "List.map cr_ok rs = List.map (\<lambda>q. f (qu_line q) = ascii ''accept '' @ hex_text (qu_extra q)) questions"
    using judge_requests[OF q(3)] by blast
  have "map2 (\<lambda>i pdu. \<lparr>ms_frame = i, ms_from_client = True, ms_pdu = pdu\<rparr>) (List.map Suc [0..<length pdus]) pdus
      = map2 (\<lambda>i pdu. \<lparr>ms_frame = Suc i, ms_from_client = True, ms_pdu = pdu\<rparr>) [0..<length pdus] pdus"
    by (simp add: zip_map1 comp_def split_def)
  then have "bindE (bindE (capture ws) messages) (analyse oracle name) = Inr rs"
    using q(1) rs(1) unfolding read by (simp add: analyse_def lean_def assms(5) comp_def)
  moreover have "List.map cr_ok rs = List.map (\<lambda>(line, pdu). f line = ascii ''accept '' @ hex_text pdu) (asked_pairs qs pdus)"
    unfolding rs(2) q(2)[symmetric] by simp
  ultimately show ?thesis by blast
qed

definition ex_asks :: "management_ask list" where
  "ex_asks = [(5, 4, 1, None), (6, 4, 1, Some 255)]"

definition ex_ask_pdus :: "bytes list" where
  "ex_ask_pdus = [[50, 7, 0, 0, 0, 5, 0, 8, 0, 8, 0, 1, 18, 4, 17, 68, 1, 0, 255, 9, 0, 4, 4, 36, 0, 0],
     [50, 7, 0, 0, 0, 6, 0, 12, 0, 4, 0, 1, 18, 8, 18, 68, 1, 255, 0, 0, 0, 0, 10, 0, 0, 0]]"

lemma ex_ask_pdus: "mapE request_of ex_asks = Inr ex_ask_pdus"
  by (simp add: ex_asks_def ex_ask_pdus_def request_of_def mgmt_request_def packet_def pack_def bytes_of_def byte_def len_def concatE_def)

lemma ex_ask_lines: "List.map fst (asked_pairs ex_asks ex_ask_pdus) = [ascii ''enc szl 5 1060 0'', ascii ''enc szlnext 6 255'']"
  by (simp add: ex_asks_def ex_ask_pdus_def asked_line_def spaced_def int_str_def nat_str_step nat_str_small ascii_def)

theorem captured_requests_judged_witness:
  "\<exists>rs. bindE (bindE (capture (List.map (\<lambda>pdu. [3, 0, 0, 33, 2, 240, 128] @ pdu) ex_ask_pdus)) messages)
       (analyse (\<lambda>lines. Inr (List.map (\<lambda>line. if line = ascii ''enc szl 5 1060 0'' then ascii ''accept '' @ hex_text (hd ex_ask_pdus) else ascii ''reject'') lines)) [])
     = Inr rs \<and> List.map cr_ok rs = [True, False]"
proof -
  have "list_all opaque ex_asks" by (simp add: ex_asks_def opaque_def opaque_service_def)
  moreover have "mapE wrap ex_ask_pdus = Inr (List.map (\<lambda>pdu. [3, 0, 0, 33, 2, 240, 128] @ pdu) ex_ask_pdus)"
    by (simp add: ex_ask_pdus_def wrap_def Let_def len_def pack_def byte_def)
  moreover have "length ex_ask_pdus \<le> 25536" by (simp add: ex_ask_pdus_def)
  moreover have "asked_pairs ex_asks ex_ask_pdus = [(ascii ''enc szl 5 1060 0'', ex_ask_pdus ! 0), (ascii ''enc szlnext 6 255'', ex_ask_pdus ! 1)]"
    using ex_ask_lines by (simp add: ex_asks_def ex_ask_pdus_def asked_line_def)
  moreover have "hd ex_ask_pdus = ex_ask_pdus ! 0" by (simp add: ex_ask_pdus_def)
  ultimately show ?thesis
    using captured_requests_judged[OF ex_ask_pdus, of _ _ "\<lambda>line. if line = ascii ''enc szl 5 1060 0'' then ascii ''accept '' @ hex_text (hd ex_ask_pdus) else ascii ''reject''" "[]"]
    by (fastforce simp: ascii_def)
qed

section \<open>A guard that is none\<close>

text \<open>
  \<^verbatim>\<open>request[22 - 0] is not None\<close> stands where the job's length should be tested: a reply to a single-item read job of
  fewer than 23 octets stops the whole analysis with \<^verbatim>\<open>IndexError\<close>, for any decoder.
\<close>

lemma short_read_job_raises:
  "analyse oracle name [\<lparr>ms_frame = 1, ms_from_client = True, ms_pdu = [50, 1, 0, 0, 0, 5, 0, 2, 0, 0, 4, 1]\<rparr>,
     \<lparr>ms_frame = 2, ms_from_client = False, ms_pdu = [50, 3, 0, 0, 0, 5, 0, 2, 0, 0, 0, 0, 4, 1]\<rparr>] = Inl IndexError"
  by (simp add: analyse_def is_s7_def message_questions_def Let_def slice_def client_job_def plc_answer_def reply_line_def read_reply_def at_def)

end
