(* ===== verification/Wireshark.thy ===== *)
theory Wireshark
  imports Management_Controls Analysis
begin

text \<open>
  \<^verbatim>\<open>wireshark_corpus.py\<close>: the probes made of corpus cases, the fields of a dissected row they are compared with, the four-way
  classification and its comparison with the reviewed baseline. The dissector is a program that is given a capture and prints
  lines; it is the parameter \<open>tshark\<close>.
\<close>

section \<open>Rows\<close>

definition row_fields :: "string list" where
  "row_fields = [''frame.number'', ''s7comm.header.rosctr'', ''s7comm.header.pduref'', ''s7comm.param.func'',
     ''s7comm.param.userdata.funcgroup'', ''s7comm.param.userdata.subfunc'', ''s7comm.param.userdata.seq_num'',
     ''s7comm.param.userdata.dataunitref'', ''s7comm.param.userdata.lastdataunit'', ''s7comm.param.item.db'', ''s7comm.param.item.area'',
     ''s7comm.param.item.address.byte'', ''s7comm.param.item.length'', ''s7comm.param.blockcontrol.functionstatus.more'',
     ''s7comm.data.returncode'', ''s7comm.data.transportsize'', ''s7comm.data.length'', ''s7comm.resp.data'', ''_ws.malformed'',
     ''_ws.expert.message'']"

type_synonym row = "string \<rightharpoonup> ustr"

definition make_row :: "ustr list \<Rightarrow> row result" where
  "make_row values = bindE (guardE (length values = length row_fields) ValueError) (\<lambda>_. Inr (map_of (zip row_fields values)))"

definition row_get :: "row \<Rightarrow> string \<Rightarrow> ustr list result" where
  "row_get row field =
     (case row (if starts_with ''_ws'' field \<or> starts_with ''frame'' field then field else ''s7comm.'' @ field) of
        None \<Rightarrow> Inl KeyError
      | Some raw \<Rightarrow> Inr (filter (\<lambda>item. item \<noteq> []) (split_on 44 raw)))"

definition row_one :: "row \<Rightarrow> string \<Rightarrow> ustr result" where
  "row_one row field = bindE (row_get row field) (\<lambda>found. Inr (case found of [] \<Rightarrow> [] | x # _ \<Rightarrow> x))"

definition flagged_row :: "row \<Rightarrow> bool result" where
  "flagged_row row =
     bindE (row_get row ''_ws.malformed'') (\<lambda>a. if a \<noteq> [] then Inr True
       else bindE (row_get row ''_ws.expert.message'') (\<lambda>b. Inr (b \<noteq> [])))"

section \<open>Text and numbers\<close>

text \<open>\<^verbatim>\<open>str\<close> of a corpus value. Floats, lists and objects are not rendered: no corpus field that is shown as text holds one.\<close>

fun str_of :: "json \<Rightarrow> ustr result" where
  "str_of (JInt i) = Inr (int_str i)"
| "str_of (JBool b) = Inr (ascii (if b then ''True'' else ''False''))"
| "str_of JNull = Inr (ascii ''None'')"
| "str_of (JStr s) = Inr s"
| "str_of _ = Inl NameError"

fun json_length :: "json \<Rightarrow> int result" where
  "json_length (JArr xs) = Inr (len xs)"
| "json_length (JStr s) = Inr (len s)"
| "json_length (JObj kvs) = Inr (len kvs)"
| "json_length _ = Inl TypeError"

text \<open>\<^verbatim>\<open>bytes(value)\<close>.\<close>

fun json_octet :: "json \<Rightarrow> byte result" where
  "json_octet (JInt i) = (if 0 \<le> i \<and> i < 256 then Inr (byte i) else Inl ValueError)"
| "json_octet (JBool b) = Inr (if b then 1 else 0)"
| "json_octet _ = Inl TypeError"

fun to_octets :: "json \<Rightarrow> bytes result" where
  "to_octets (JArr xs) = mapE json_octet xs"
| "to_octets (JInt i) = (if i < 0 then Inl ValueError else Inr (replicate (nat i) 0))"
| "to_octets (JBool b) = Inr (if b then [0] else [])"
| "to_octets (JObj kvs) = (if kvs = [] then Inr [] else Inl TypeError)"
| "to_octets _ = Inl TypeError"

text \<open>\<^verbatim>\<open>int(text, 0)\<close>: a prefix gives the base, and a decimal number has no leading zero.\<close>

definition digit_value :: "nat \<Rightarrow> nat \<Rightarrow> nat option" where
  "digit_value radix c =
     (let v = (if is_digit c then Some (c - 48) else if 97 \<le> c \<and> c \<le> 122 then Some (c - 87) else if 65 \<le> c \<and> c \<le> 90 then Some (c - 55) else None)
      in case v of None \<Rightarrow> None | Some d \<Rightarrow> if d < radix then Some d else None)"

fun read_radix :: "nat \<Rightarrow> bool \<Rightarrow> nat \<Rightarrow> ustr \<Rightarrow> nat option" where
  "read_radix radix prev acc [] = (if prev then Some acc else None)"
| "read_radix radix prev acc (c # cs) =
     (case digit_value radix c of
        Some d \<Rightarrow> read_radix radix True (radix * acc + d) cs
      | None \<Rightarrow> if c = 95 \<and> prev then read_radix radix False acc cs else None)"

definition prefix_radix :: "ustr \<Rightarrow> nat option" where
  "prefix_radix cs =
     (if take 1 cs = [48] \<and> 1 < length cs then map_of [(120, 16), (88, 16), (111, 8), (79, 8), (98, 2), (66, 2)] (cs ! 1) else None)"

definition unsigned_int0 :: "ustr \<Rightarrow> nat option" where
  "unsigned_int0 cs =
     (case prefix_radix cs of
        Some radix \<Rightarrow> if drop 2 cs = [] then None else read_radix radix True 0 (drop 2 cs)
      | None \<Rightarrow> (case read_digits False 0 cs of
            None \<Rightarrow> None
          | Some n \<Rightarrow> if take 1 cs = [48] \<and> n \<noteq> 0 then None else Some n))"

definition int0 :: "ustr \<Rightarrow> int result" where
  "int0 text0 =
     (let signed_read = (\<lambda>sg cs. case unsigned_int0 cs of None \<Rightarrow> Inl ValueError | Some n \<Rightarrow> Inr (sg * int n)) in
      case strip text0 of
        [] \<Rightarrow> Inl ValueError
      | c # cs \<Rightarrow> if c = 45 then signed_read (- 1) cs else if c = 43 then signed_read 1 cs else signed_read 1 (c # cs))"

section \<open>Comparisons\<close>

text \<open>A comparison is a label, what the dissector shows and what the corpus says; the report is empty when all agree.\<close>

type_synonym comparison = "string \<times> json \<times> json"

definition differences :: "comparison list \<Rightarrow> comparison list" where
  "differences pairs = filter (\<lambda>(label, got, want). \<not> py_eq got want) pairs"

type_synonym row_check = "row \<Rightarrow> comparison list result"

definition shown :: "row \<Rightarrow> string \<Rightarrow> string \<Rightarrow> json \<Rightarrow> comparison result" where
  "shown row label field want = bindE (row_one row field) (\<lambda>got. Inr (label, JStr got, want))"

definition shown_all :: "row \<Rightarrow> string \<Rightarrow> string \<Rightarrow> json list \<Rightarrow> comparison result" where
  "shown_all row label field want = bindE (row_get row field) (\<lambda>got. Inr (label, JArr (List.map JStr got), JArr want))"

definition shown_number :: "row \<Rightarrow> string \<Rightarrow> string \<Rightarrow> json \<Rightarrow> comparison result" where
  "shown_number row label field want =
     bindE (row_one row field) (\<lambda>got. bindE (int0 (if got = [] then ascii ''0'' else got)) (\<lambda>n. Inr (label, JInt n, want)))"

definition has_key :: "string \<Rightarrow> json \<Rightarrow> bool" where
  "has_key k v \<longleftrightarrow> k \<in> set (jkeys v)"

definition str_json :: "json \<Rightarrow> json result" where
  "str_json v = bindE (str_of v) (\<lambda>s. Inr (JStr s))"

definition only_with :: "bool \<Rightarrow> 'a result \<Rightarrow> 'a list result" where
  "only_with there r = (if there then bindE r (\<lambda>x. Inr [x]) else Inr [])"

definition userdata_check :: "json \<Rightarrow> json \<Rightarrow> json \<Rightarrow> json \<Rightarrow> row_check" where
  "userdata_check expected grp sub reference row =
     bindE (shown row ''rosctr'' ''header.rosctr'' (jtext ''7'')) (\<lambda>p1.
     bindE (bindE (str_json grp) (shown row ''group'' ''param.userdata.funcgroup'')) (\<lambda>p2.
     bindE (bindE (str_json sub) (shown row ''subfunction'' ''param.userdata.subfunc'')) (\<lambda>p3.
     bindE (bindE (bindE (jget ''sequence'' expected) str_json) (shown row ''sequence'' ''param.userdata.seq_num'')) (\<lambda>p4.
     bindE (bindE (bindE (jget ''payload'' expected) json_length) (\<lambda>n. shown row ''payload length'' ''data.length'' (JStr (int_str n)))) (\<lambda>p5.
     bindE (only_with (reference \<noteq> JNull) (bindE (str_json reference) (shown row ''pdu reference'' ''header.pduref''))) (\<lambda>p6.
     bindE (only_with (has_key ''data_unit_reference'' expected)
       (bindE (bindE (jget ''data_unit_reference'' expected) str_json) (shown row ''data unit ref'' ''param.userdata.dataunitref''))) (\<lambda>p7.
     bindE (only_with (has_key ''return_code'' expected)
       (bindE (jget ''return_code'' expected) (shown_number row ''return code'' ''data.returncode''))) (\<lambda>p8.
     bindE (only_with (has_key ''transport_size'' expected)
       (bindE (jget ''transport_size'' expected) (shown_number row ''transport size'' ''data.transportsize''))) (\<lambda>p9.
     bindE (row_one row ''param.userdata.lastdataunit'') (\<lambda>final.
     bindE (only_with (final \<noteq> []) (bindE (int0 final) (\<lambda>n. bindE (jget ''has_more_data'' expected) (\<lambda>want. Inr (''more data'', JBool (n \<noteq> 0), want))))) (\<lambda>p10.
       Inr (differences ([p1, p2, p3, p4, p5] @ p6 @ p7 @ p8 @ p9 @ p10)))))))))))))"

definition column :: "string \<Rightarrow> json list \<Rightarrow> json list result" where
  "column key ranges = mapE (\<lambda>r. bindE (jget key r) str_json) ranges"

definition multi_request_check :: "bool \<Rightarrow> json \<Rightarrow> json \<Rightarrow> row_check" where
  "multi_request_check reading v test row =
     bindE (list_of v) (\<lambda>ranges.
     bindE (shown row ''rosctr'' ''header.rosctr'' (jtext ''1'')) (\<lambda>p1.
     bindE (shown row ''function'' ''param.func'' (jtext (if reading then ''0x04'' else ''0x05''))) (\<lambda>p2.
     bindE (bindE (column ''db_number'' ranges) (shown_all row ''item db'' ''param.item.db'')) (\<lambda>p3.
     bindE (shown_all row ''item area'' ''param.item.area'' (replicate (length ranges) (jtext ''0x84''))) (\<lambda>p4.
     bindE (bindE (column ''start'' ranges) (shown_all row ''item byte'' ''param.item.address.byte'')) (\<lambda>p5.
     bindE (bindE (column ''count'' ranges) (shown_all row ''item length'' ''param.item.length'')) (\<lambda>p6.
     bindE (bindE (bindE (jget ''reference'' test) str_json) (shown row ''reference'' ''header.pduref'')) (\<lambda>p7.
       Inr (differences [p1, p2, p3, p4, p5, p6, p7])))))))))"

text \<open>\<^verbatim>\<open>f"0x{code:02x}"\<close>.\<close>

fun hex_nat :: "nat \<Rightarrow> ustr" where
  "hex_nat n = (if n < 16 then [hex_digit n] else hex_nat (n div 16) @ [hex_digit (n mod 16)])"

declare hex_nat.simps [simp del]

definition code_text :: "json \<Rightarrow> json result" where
  "code_text code =
     (case code of
        JInt i \<Rightarrow> let digits = hex_nat (nat \<bar>i\<bar>) in
          Inr (JStr (ascii ''0x'' @ (if i < 0 then [45] @ digits else replicate (2 - length digits) 48 @ digits)))
      | JBool b \<Rightarrow> Inr (jtext (if b then ''0x01'' else ''0x00''))
      | _ \<Rightarrow> Inl ValueError)"

definition succeeded :: "json \<Rightarrow> bool result" where
  "succeeded item = bindE (jget ''status'' item) (\<lambda>s. Inr (s = jtext ''success''))"

definition item_code :: "json \<Rightarrow> json result" where
  "item_code item = bindE (succeeded item) (\<lambda>ok. if ok then Inr (jtext ''0xff'') else bindE (jget ''code'' item) code_text)"

definition hex_colon :: "json \<Rightarrow> json result" where
  "hex_colon v = bindE (to_octets v) (\<lambda>bs. Inr (JStr (hex_text bs)))"

definition item_payloads :: "json list \<Rightarrow> json list result" where
  "item_payloads items =
     bindE (mapE (\<lambda>item. bindE (succeeded item) (\<lambda>ok. if ok then bindE (bindE (jget ''payload'' item) hex_colon) (\<lambda>h. Inr [h]) else Inr [])) items)
       (\<lambda>parts. Inr (concat parts))"

definition multi_response_check :: "bool \<Rightarrow> json \<Rightarrow> row_check" where
  "multi_response_check reading expected row =
     bindE (bindE (jget ''items'' expected) list_of) (\<lambda>items.
     bindE (mapE item_code items) (\<lambda>codes.
     bindE (shown row ''rosctr'' ''header.rosctr'' (jtext ''3'')) (\<lambda>p1.
     bindE (shown row ''function'' ''param.func'' (jtext (if reading then ''0x04'' else ''0x05''))) (\<lambda>p2.
     bindE (shown_all row ''return codes'' ''data.returncode'' codes) (\<lambda>p3.
     bindE (only_with reading (bindE (item_payloads items) (shown_all row ''item payloads'' ''resp.data''))) (\<lambda>p4.
       Inr (differences ([p1, p2, p3] @ p4))))))))"

definition upload_check :: "json \<Rightarrow> row_check" where
  "upload_check expected row =
     bindE (shown row ''rosctr'' ''header.rosctr'' (jtext ''3'')) (\<lambda>p1.
     bindE (shown row ''function'' ''param.func'' (jtext ''0x1e'')) (\<lambda>p2.
     bindE (bindE (jget ''is_last'' expected) (\<lambda>final.
       shown row ''more fragments'' ''param.blockcontrol.functionstatus.more'' (jtext (if truthy final then ''False'' else ''True'')))) (\<lambda>p3.
     bindE (bindE (jget ''payload'' expected) (\<lambda>payload.
       bindE (if truthy payload then bindE (hex_colon payload) (\<lambda>h. Inr [h]) else Inr []) (shown_all row ''fragment'' ''resp.data''))) (\<lambda>p4.
       Inr (differences [p1, p2, p3, p4])))))"

definition response_check :: "json \<Rightarrow> json \<Rightarrow> row_check" where
  "response_check test expected row =
     bindE (jget ''operation'' test) (\<lambda>operation.
      if operation = jtext ''read'' then
        bindE (shown row ''function'' ''param.func'' (jtext ''0x04'')) (\<lambda>p1.
        bindE (bindE (bindE (jget ''payload'' expected) hex_colon) (\<lambda>h. shown_all row ''payload'' ''resp.data'' [h])) (\<lambda>p2.
          Inr (differences [p1, p2])))
      else
        bindE (shown row ''function'' ''param.func'' (jtext ''0x05'')) (\<lambda>p1.
        bindE (shown_all row ''return code'' ''data.returncode'' [jtext ''0xff'']) (\<lambda>p2.
          Inr (differences [p1, p2]))))"

text \<open>The expectations of the client's requests: the message kind, and the function or the service.\<close>

datatype request_shape = Job string | Data string | Userdata string string

definition request_shapes :: "(string \<times> request_shape) list" where
  "request_shapes = [
     (''read_clock'', Userdata ''7'' ''1''), (''set_clock'', Userdata ''7'' ''2''), (''list_blocks'', Userdata ''3'' ''1''),
     (''list_data_blocks'', Userdata ''3'' ''2''), (''get_db_info'', Userdata ''3'' ''3''), (''set_password'', Userdata ''5'' ''1''),
     (''clear_password'', Userdata ''5'' ''2''), (''plc_stop'', Job ''0x29''), (''plc_hot_start'', Job ''0x28''),
     (''plc_cold_start'', Job ''0x28''), (''start_db_upload'', Job ''0x1d''), (''upload_fragment'', Job ''0x1e''),
     (''end_upload'', Job ''0x1f''), (''request_db_download'', Job ''0x1a''), (''download_fragment_response'', Data ''0x1b''),
     (''final_download_fragment_response'', Data ''0x1b''), (''download_ended_response'', Data ''0x1c'')]"

definition shape_of :: "json \<Rightarrow> request_shape result" where
  "shape_of operation =
     (case operation of
        JStr s \<Rightarrow> (case find (\<lambda>(name, _). ascii name = s) request_shapes of None \<Rightarrow> Inl KeyError | Some (_, sh) \<Rightarrow> Inr sh)
      | JArr _ \<Rightarrow> Inl TypeError | JObj _ \<Rightarrow> Inl TypeError
      | _ \<Rightarrow> Inl KeyError)"

definition request_check :: "request_shape \<Rightarrow> row_check" where
  "request_check sh row =
     (let by_function = (\<lambda>kind function.
        bindE (shown row ''rosctr'' ''header.rosctr'' (jtext kind)) (\<lambda>p1.
        bindE (shown row ''function'' ''param.func'' (jtext function)) (\<lambda>p2. Inr (differences [p1, p2]))))
      in case sh of
        Job function \<Rightarrow> by_function ''1'' function
      | Data function \<Rightarrow> by_function ''3'' function
      | Userdata grp sub \<Rightarrow>
          bindE (shown row ''rosctr'' ''header.rosctr'' (jtext ''7'')) (\<lambda>p1.
          bindE (shown row ''group'' ''param.userdata.funcgroup'' (jtext grp)) (\<lambda>p2.
          bindE (shown row ''subfunction'' ''param.userdata.subfunc'' (jtext sub)) (\<lambda>p3. Inr (differences [p1, p2, p3])))))"

section \<open>Probes\<close>

record probe =
  pr_key :: ustr
  pr_pdu :: bytes
  pr_check :: row_check
  pr_reject :: bool

definition probe_key :: "string \<Rightarrow> json \<Rightarrow> string \<Rightarrow> ustr result" where
  "probe_key place test ending = bindE (bindE (jget ''id'' test) str_of) (\<lambda>name. Inr (ascii place @ name @ ascii ending))"

definition octets_field :: "string \<Rightarrow> json \<Rightarrow> bytes result" where
  "octets_field key test = bindE (jget key test) to_octets"

text \<open>A probe of a case: its check, or none when the corpus rejects it.\<close>

definition probe_of :: "string \<Rightarrow> string \<Rightarrow> json \<Rightarrow> bytes result \<Rightarrow> bool \<Rightarrow> row_check \<Rightarrow> probe result" where
  "probe_of place ending test pdu ok check =
     bindE (probe_key place test ending) (\<lambda>key. bindE pdu (\<lambda>bs.
       Inr \<lparr>pr_key = key, pr_pdu = bs, pr_check = (if ok then check else (\<lambda>_. Inr [])), pr_reject = (\<not> ok)\<rparr>))"

definition userdata_probe :: "json \<Rightarrow> probe result" where
  "userdata_probe test =
     bindE (is_accepted test) (\<lambda>ok.
     bindE (if ok then bindE (jget ''expected_group'' test) (\<lambda>grp. bindE (jget ''expected_subfunction'' test) (\<lambda>sub.
         bindE (jget ''expected'' test) (\<lambda>e. Inr (userdata_check e grp sub JNull)))) else Inr (\<lambda>_. Inr [])) (\<lambda>check.
       probe_of ''s7.json/userdata_cases/'' [] test (octets_field ''pdu'' test) ok check))"

definition decoder_probe :: "json \<Rightarrow> probe result" where
  "decoder_probe test =
     bindE (is_accepted test) (\<lambda>ok.
     bindE (if ok then bindE (jget ''group'' test) (\<lambda>grp. bindE (jget ''subfunction'' test) (\<lambda>sub.
         bindE (jget ''reference'' test) (\<lambda>reference. bindE (jget ''expected'' test) (\<lambda>e.
           Inr (userdata_check e grp sub reference))))) else Inr (\<lambda>_. Inr [])) (\<lambda>check.
       probe_of ''management.json/decoder_cases/'' [] test (octets_field ''pdu'' test) ok check))"

definition multi_probes :: "json \<Rightarrow> probe list result" where
  "multi_probes test =
     bindE (probe_of ''s7.json/multi_item_cases/'' ''/request'' test (octets_field ''request_pdu'' test) True (\<lambda>_. Inr [])) (\<lambda>bare.
     bindE (jget ''ranges'' test) (\<lambda>ranges. bindE (jget ''operation'' test) (\<lambda>operation.
     let reading = (operation = jtext ''read''); asked = bare\<lparr>pr_check := multi_request_check reading ranges test\<rparr> in
     bindE (is_accepted test) (\<lambda>ok. bindE (jget ''expected'' test) (\<lambda>e.
     bindE (probe_of ''s7.json/multi_item_cases/'' ''/response'' test (octets_field ''response_pdu'' test) ok
         (multi_response_check reading e)) (\<lambda>answered.
       Inr [asked, answered]))))))"

definition upload_probe :: "json \<Rightarrow> probe result" where
  "upload_probe test =
     bindE (is_accepted test) (\<lambda>ok. bindE (jget ''expected'' test) (\<lambda>e.
       probe_of ''s7.json/upload_cases/'' [] test (octets_field ''pdu'' test) ok (upload_check e)))"

definition response_probe :: "json \<Rightarrow> probe result" where
  "response_probe test =
     bindE (is_accepted test) (\<lambda>ok. bindE (jget ''expected'' test) (\<lambda>e.
     bindE (bindE (octets_field ''parameters'' test) (\<lambda>ps. bindE (octets_field ''data'' test) (ack_data 1 ps))) (\<lambda>pdu.
       probe_of ''s7.json/response_cases/'' [] test (Inr pdu) ok (response_check test e))))"

definition request_probe :: "json \<Rightarrow> probe result" where
  "request_probe test =
     bindE (bindE (jget ''operation'' test) shape_of) (\<lambda>sh.
       probe_of ''s7.json/request_cases/'' [] test (octets_field ''expected_packet'' test) True (request_check sh))"

definition group_probes :: "string \<Rightarrow> json \<Rightarrow> (json \<Rightarrow> probe list result) \<Rightarrow> probe list result" where
  "group_probes key corpus each =
     bindE (bindE (jget key corpus) list_of) (\<lambda>tests. bindE (mapE each tests) (\<lambda>parts. Inr (concat parts)))"

definition single :: "(json \<Rightarrow> probe result) \<Rightarrow> json \<Rightarrow> probe list result" where
  "single each test = bindE (each test) (\<lambda>p. Inr [p])"

definition build_probes :: "json \<Rightarrow> json \<Rightarrow> probe list result" where
  "build_probes s7 management =
     bindE (group_probes ''userdata_cases'' s7 (single userdata_probe)) (\<lambda>p1.
     bindE (group_probes ''decoder_cases'' management (single decoder_probe)) (\<lambda>p2.
     bindE (group_probes ''multi_item_cases'' s7 multi_probes) (\<lambda>p3.
     bindE (group_probes ''upload_cases'' s7 (single upload_probe)) (\<lambda>p4.
     bindE (group_probes ''response_cases'' s7 (single response_probe)) (\<lambda>p5.
     bindE (group_probes ''request_cases'' s7 (single request_probe)) (\<lambda>p6.
       Inr (p1 @ p2 @ p3 @ p4 @ p5 @ p6)))))))"

section \<open>Dissection and verdicts\<close>

definition read_row :: "ustr \<Rightarrow> row result" where
  "read_row line = make_row (take (length row_fields) (split_on 9 line @ replicate (length row_fields) []))"

fun rows_by_frame :: "ustr list \<Rightarrow> (int \<rightharpoonup> row) \<Rightarrow> (int \<rightharpoonup> row) result" where
  "rows_by_frame [] found = Inr found"
| "rows_by_frame (line # lines) found =
     (if strip line = [] then rows_by_frame lines found
      else bindE (read_row line) (\<lambda>row. bindE (bindE (row_one row ''frame.number'') py_int) (\<lambda>frame.
             rows_by_frame lines (found(frame \<mapsto> row)))))"

definition dissect :: "(bytes \<Rightarrow> ustr result) \<Rightarrow> probe list \<Rightarrow> row list result" where
  "dissect tshark probes =
     bindE (mapE (\<lambda>p. wrap (pr_pdu p)) probes) (\<lambda>frames.
     bindE (capture frames) (\<lambda>pcap.
     bindE (tshark pcap) (\<lambda>output.
     bindE (rows_by_frame (split_on 10 output) Map.empty) (\<lambda>found.
     bindE (make_row (replicate (length row_fields) [])) (\<lambda>empty_row.
       Inr (List.map (\<lambda>index. case found (int index) of None \<Rightarrow> empty_row | Some row \<Rightarrow> row) [1..<Suc (length probes)]))))))"

datatype probe_verdict = Agree ustr | Limitation ustr | Fixture ustr | Disagree "comparison list"

definition classify :: "probe \<Rightarrow> row \<Rightarrow> probe_verdict result" where
  "classify p row =
     (if pr_reject p then
        bindE (flagged_row row) (\<lambda>f. Inr (if f then Agree (ascii ''dissector also flags the packet'')
          else Limitation (ascii ''dissector decodes it silently'')))
      else
        bindE (pr_check p row) (\<lambda>difference.
        if difference \<noteq> [] then Inr (Disagree difference)
        else bindE (flagged_row row) (\<lambda>f.
          if f then
            bindE (row_get row ''_ws.expert.message'') (\<lambda>expert. bindE (row_get row ''_ws.malformed'') (\<lambda>malformed.
              Inr (Fixture (ascii ''envelope fields agree; dissector payload parser reports: ''
                @ join_with 44 (if expert \<noteq> [] then expert else malformed)))))
          else Inr (Agree []))))"

fun status_name :: "probe_verdict \<Rightarrow> string" where
  "status_name (Agree _) = ''agree''"
| "status_name (Limitation _) = ''limitation''"
| "status_name (Fixture _) = ''fixture''"
| "status_name (Disagree _) = ''disagree''"

section \<open>The baseline\<close>

definition verdicts :: "(bytes \<Rightarrow> ustr result) \<Rightarrow> json \<Rightarrow> json \<Rightarrow> (ustr \<times> probe_verdict) list result" where
  "verdicts tshark s7 management =
     bindE (build_probes s7 management) (\<lambda>probes.
     bindE (dissect tshark probes) (\<lambda>rows.
       mapE (\<lambda>(p, row). bindE (classify p row) (\<lambda>v. Inr (pr_key p, v))) (zip probes rows)))"

text \<open>The recorded status of a key; a key given twice keeps the later one.\<close>

definition recorded_status :: "(ustr \<times> probe_verdict) list \<Rightarrow> ustr \<Rightarrow> json" where
  "recorded_status results key = (case map_of (rev results) key of None \<Rightarrow> JNull | Some v \<Rightarrow> jtext (status_name v))"

definition baseline_status :: "(string \<times> json) list \<Rightarrow> ustr \<Rightarrow> json result" where
  "baseline_status baseline key =
     (case find (\<lambda>(k, _). ascii k = key) baseline of
        None \<Rightarrow> Inr JNull
      | Some (_, entry) \<Rightarrow> if is_obj entry then Inr (jget_opt ''status'' entry) else Inl AttributeError)"

definition key_changed :: "(string \<times> json) list \<Rightarrow> (ustr \<times> probe_verdict) list \<Rightarrow> ustr \<Rightarrow> bool result" where
  "key_changed baseline results key =
     bindE (baseline_status baseline key) (\<lambda>was. Inr (\<not> py_eq was (recorded_status results key)))"

text \<open>The exit code: 1 when the status of any key, recorded or now found, has changed.\<close>

definition exit_code :: "(string \<times> json) list \<Rightarrow> (ustr \<times> probe_verdict) list \<Rightarrow> int result" where
  "exit_code baseline results =
     bindE (mapE (key_changed baseline results) (List.map (\<lambda>(k, _). ascii k) baseline @ List.map fst results)) (\<lambda>changed.
       Inr (if list_ex id changed then 1 else 0))"

definition run_wireshark :: "(bytes \<Rightarrow> ustr result) \<Rightarrow> json \<Rightarrow> json \<Rightarrow> (string \<times> json) list \<Rightarrow> int result" where
  "run_wireshark tshark s7 management baseline = bindE (verdicts tshark s7 management) (exit_code baseline)"

section \<open>USER_DATA replies as shown\<close>

text \<open>What a row shows of a USER_DATA reply: seven texts, two numbers and, where it is there, the continuation flag.\<close>

definition view_fields :: "string list" where
  "view_fields = [''header.rosctr'', ''param.userdata.funcgroup'', ''param.userdata.subfunc'', ''param.userdata.seq_num'', ''data.length'',
     ''header.pduref'', ''param.userdata.dataunitref'']"

type_synonym row_reading = "ustr list \<times> int \<times> int \<times> bool option"

definition number_shown :: "row \<Rightarrow> string \<Rightarrow> int result" where
  "number_shown row field = bindE (row_one row field) (\<lambda>got. int0 (if got = [] then ascii ''0'' else got))"

definition row_view :: "row \<Rightarrow> row_reading result" where
  "row_view row =
     bindE (mapE (row_one row) view_fields) (\<lambda>texts.
     bindE (number_shown row ''data.returncode'') (\<lambda>code.
     bindE (number_shown row ''data.transportsize'') (\<lambda>medium.
     bindE (row_one row ''param.userdata.lastdataunit'') (\<lambda>final.
     bindE (if final = [] then Inr None else bindE (int0 final) (\<lambda>n. Inr (Some (n \<noteq> 0)))) (\<lambda>flag.
       Inr (texts, code, medium, flag))))))"

text \<open>That it is what the management oracle reads from the reply.\<close>

definition shows_reply :: "int \<Rightarrow> int \<Rightarrow> int \<Rightarrow> reply_body \<Rightarrow> row_reading \<Rightarrow> bool" where
  "shows_reply reference grp subfunction b reading \<longleftrightarrow>
     (case reading of (texts, code, medium, flag) \<Rightarrow>
        texts = [ascii ''7'', int_str grp, int_str subfunction, int_str (uint (rb_sequence b)), int_str (len (rb_payload b)),
          int_str reference, int_str (uint (rb_unit b))]
        \<and> code = uint (rb_code b) \<and> medium = uint (rb_transport b) \<and> flag \<in> {None, Some (rb_more b)})"

definition full_row :: "row \<Rightarrow> bool" where
  "full_row row \<longleftrightarrow> dom row = set row_fields"

lemma row_get_full:
  assumes "full_row row" "(if starts_with ''_ws'' field \<or> starts_with ''frame'' field then field else ''s7comm.'' @ field) \<in> set row_fields"
  shows "\<exists>xs. row_get row field = Inr xs"
proof -
  obtain raw where "row (if starts_with ''_ws'' field \<or> starts_with ''frame'' field then field else ''s7comm.'' @ field) = Some raw"
    using assms unfolding full_row_def by blast
  then show ?thesis unfolding row_get_def by simp
qed

lemma row_one_full:
  "full_row row \<Longrightarrow> (if starts_with ''_ws'' field \<or> starts_with ''frame'' field then field else ''s7comm.'' @ field) \<in> set row_fields
    \<Longrightarrow> \<exists>x. row_one row field = Inr x"
  using row_get_full[of row field] by (auto simp: row_one_def)

lemma view_rows:
  assumes "full_row row"
  shows "\<exists>x. row_one row ''header.rosctr'' = Inr x" "\<exists>x. row_one row ''param.userdata.funcgroup'' = Inr x"
    "\<exists>x. row_one row ''param.userdata.subfunc'' = Inr x" "\<exists>x. row_one row ''param.userdata.seq_num'' = Inr x"
    "\<exists>x. row_one row ''data.length'' = Inr x" "\<exists>x. row_one row ''header.pduref'' = Inr x"
    "\<exists>x. row_one row ''param.userdata.dataunitref'' = Inr x" "\<exists>x. row_one row ''data.returncode'' = Inr x"
    "\<exists>x. row_one row ''data.transportsize'' = Inr x" "\<exists>x. row_one row ''param.userdata.lastdataunit'' = Inr x"
    "\<exists>x. row_get row ''_ws.malformed'' = Inr x" "\<exists>x. row_get row ''_ws.expert.message'' = Inr x"
  using assms by (auto intro!: row_one_full row_get_full simp: starts_with_def row_fields_def)

lemma reply_payload_length: "same (reply_json (Accept b)) e \<Longrightarrow> bindE (jget ''payload'' e) json_length = Inr (len (rb_payload b))"
  by (auto simp: same_obj byte_list_def same_arr ints_of_def list_all2_lengthD len_def split: option.splits)
    (metis length_map list_all2_lengthD)

lemma has_key_get: "jget k v = Inr x \<Longrightarrow> has_key k v"
proof (cases v)
  case (JObj kvs)
  then show "jget k v = Inr x \<Longrightarrow> has_key k v"
    by (auto simp: has_key_def image_iff split: option.splits dest!: map_of_SomeD) force
qed auto

lemma userdata_check_reads:
  assumes "full_row row" "same (reply_json (Accept b)) e"
  shows "bindE (userdata_check e (JInt grp) (JInt subfunction) (JInt reference) row) (\<lambda>ds. Inr (ds \<noteq> []))
    = bindE (row_view row) (\<lambda>reading. Inr (\<not> shows_reply reference grp subfunction b reading))"
proof -
  note f = same_reply(2)[OF assms(2) refl] reply_payload_length[OF assms(2)]
  have keys: "has_key ''data_unit_reference'' e" "has_key ''return_code'' e" "has_key ''transport_size'' e"
    using f has_key_get by blast+
  obtain t1 t2 t3 t4 t5 t6 t7 c t final where v: "row_one row ''header.rosctr'' = Inr t1" "row_one row ''param.userdata.funcgroup'' = Inr t2"
    "row_one row ''param.userdata.subfunc'' = Inr t3" "row_one row ''param.userdata.seq_num'' = Inr t4"
    "row_one row ''data.length'' = Inr t5" "row_one row ''header.pduref'' = Inr t6" "row_one row ''param.userdata.dataunitref'' = Inr t7"
    "row_one row ''data.returncode'' = Inr c" "row_one row ''data.transportsize'' = Inr t" "row_one row ''param.userdata.lastdataunit'' = Inr final"
    using view_rows[OF assms(1)] by blast
  obtain payload where pl: "jget ''payload'' e = Inr payload" "json_length payload = Inr (len (rb_payload b))"
    using f(2) by auto
  note defs = userdata_check_def row_view_def view_fields_def number_shown_def shown_def shown_number_def only_with_def str_json_def
    differences_def shows_reply_def
  show ?thesis
  proof (cases "int0 (if c = [] then ascii ''0'' else c)")
    case (Inl x)
    then show ?thesis using f(1) keys v pl by (simp add: defs)
  next
    case (Inr code)
    note c = Inr
    show ?thesis
    proof (cases "int0 (if t = [] then ascii ''0'' else t)")
      case (Inl x)
      then show ?thesis using f(1) keys v pl c by (simp add: defs)
    next
      case (Inr medium)
      then show ?thesis using f(1) keys v pl c by (cases "final = []"; cases "int0 final") (auto simp: defs)
    qed
  qed
qed

section \<open>A dissector that prints each frame\<close>

text \<open>What the dissector prints: a line for each frame, its number and then what it shows, tab by tab.\<close>

definition printed_line :: "(bytes \<Rightarrow> ustr list) \<Rightarrow> nat \<times> bytes \<Rightarrow> ustr" where
  "printed_line show x = (case x of (i, pdu) \<Rightarrow> join_with 9 (int_str (int i) # show pdu))"

definition printed :: "(bytes \<Rightarrow> ustr list) \<Rightarrow> bytes list \<Rightarrow> ustr" where
  "printed show pdus = concat (List.map (\<lambda>x. printed_line show x @ [10]) (List.enumerate 1 pdus))"

definition printable :: "ustr list \<Rightarrow> bool" where
  "printable texts \<longleftrightarrow> length texts = 19 \<and> list_all (\<lambda>t. 9 \<notin> set t \<and> 10 \<notin> set t) texts"

definition frame_row :: "nat \<Rightarrow> ustr list \<Rightarrow> row" where
  "frame_row i texts = map_of (zip row_fields (int_str (int i) # texts))"

lemma int_str_plain: "c \<in> set (int_str i) \<Longrightarrow> c \<noteq> 9 \<and> c \<noteq> 10 \<and> c \<noteq> 44 \<and> \<not> is_space c"
  using int_str_chars[of c i] digit_not_space[of c] by (auto simp: is_digit_def is_space_def)

lemma int_str_ne: "int_str i \<noteq> []"
  by (simp add: int_str_def)

lemma printed_line_row:
  assumes "printable (show pdu)"
  shows "read_row (printed_line show (i, pdu)) = Inr (frame_row i (show pdu))" and "10 \<notin> set (printed_line show (i, pdu))"
    and "strip (printed_line show (i, pdu)) \<noteq> []" and "full_row (frame_row i (show pdu))"
    and "row_one (frame_row i (show pdu)) ''frame.number'' = Inr (int_str (int i))"
proof -
  have t: "length (show pdu) = 19" "\<forall>p \<in> set (int_str (int i) # show pdu). 9 \<notin> set p \<and> 10 \<notin> set p"
    using assms int_str_plain by (auto simp: printable_def list_all_iff)
  have n: "length row_fields = 20" by (simp add: row_fields_def)
  have "split_on 9 (printed_line show (i, pdu)) = int_str (int i) # show pdu"
    using t(2) by (simp add: printed_line_def split_join del: join_with.simps)
  then show "read_row (printed_line show (i, pdu)) = Inr (frame_row i (show pdu))"
    using t(1) by (simp add: read_row_def make_row_def n frame_row_def)
  have sep: "c \<in> set (join_with 9 ps) \<Longrightarrow> c = 9 \<or> (\<exists>p \<in> set ps. c \<in> set p)" for c ps
    by (induction "9 :: nat" ps rule: join_with.induct) auto
  then show "10 \<notin> set (printed_line show (i, pdu))" using t(2) by (fastforce simp: printed_line_def)
  obtain c cs where c: "int_str (int i) = c # cs" using int_str_ne by (cases "int_str (int i)") auto
  then have "\<not> is_space c" using int_str_plain[of c "int i"] by simp
  moreover obtain rest where "printed_line show (i, pdu) = c # rest" using c t(1) by (cases "show pdu") (simp_all add: printed_line_def)
  ultimately show "strip (printed_line show (i, pdu)) \<noteq> []" by (simp add: strip_def dropWhile_eq_Nil_conv)
  show "full_row (frame_row i (show pdu))" using t(1) n by (simp add: full_row_def frame_row_def)
  have "44 \<notin> set (int_str (int i))" using int_str_plain by blast
  then have "split_on 44 (int_str (int i)) = [int_str (int i)]" by (rule split_on_no_sep)
  then show "row_one (frame_row i (show pdu)) ''frame.number'' = Inr (int_str (int i))"
    using int_str_ne by (simp add: row_one_def row_get_def starts_with_def frame_row_def row_fields_def)
qed

lemma split_lines: "\<forall>l \<in> set ls. 10 \<notin> set l \<Longrightarrow> split_on 10 (concat (List.map (\<lambda>l. l @ [10]) ls)) = ls @ [[]]"
  by (induction ls) (simp_all add: split_on_append)

lemma rows_printed:
  assumes "list_all (\<lambda>pdu. printable (show pdu)) pdus"
  shows "rows_by_frame (List.map (printed_line show) (List.enumerate n pdus) @ [[]]) found
    = Inr (\<lambda>j. if int n \<le> j \<and> j < int (n + length pdus) then Some (frame_row (nat j) (show (pdus ! (nat j - n)))) else found j)"
  using assms
proof (induction pdus arbitrary: n found)
  case Nil
  then show ?case by (auto simp: strip_def fun_eq_iff)
next
  case (Cons pdu pdus)
  then have p: "printable (show pdu)" and rest: "list_all (\<lambda>pdu. printable (show pdu)) pdus" by simp_all
  note IH = Cons.IH[OF rest]
  note line = printed_line_row[of "show" pdu n, OF p]
  have "rows_by_frame (List.map (printed_line show) (List.enumerate n (pdu # pdus)) @ [[]]) found
      = rows_by_frame (List.map (printed_line show) (List.enumerate (Suc n) pdus) @ [[]]) (found(int n \<mapsto> frame_row n (show pdu)))"
    using line(1,3,5) by (simp add: py_int_str)
  also have "\<dots> = Inr (\<lambda>j. if int n \<le> j \<and> j < int (n + length (pdu # pdus)) then Some (frame_row (nat j) (show ((pdu # pdus) ! (nat j - n)))) else found j)"
    unfolding IH
    by (auto simp: fun_eq_iff nth_Cons' Suc_diff_le[symmetric])
  finally show ?case .
qed

lemma dissect_printed:
  assumes "mapE wrap (List.map pr_pdu probes) = Inr frames" "capture frames = Inr pcap"
    and "tshark pcap = Inr (printed show (List.map pr_pdu probes))" "list_all (\<lambda>p. printable (show (pr_pdu p))) probes"
  shows "dissect tshark probes = Inr (List.map (\<lambda>i. frame_row (Suc i) (show (pr_pdu (probes ! i)))) [0..<length probes])"
proof -
  let ?pdus = "List.map pr_pdu probes"
  have p: "list_all (\<lambda>pdu. printable (show pdu)) ?pdus" using assms(4) by (simp add: list_all_iff)
  have wraps: "mapE (\<lambda>p. wrap (pr_pdu p)) probes = Inr frames"
    using assms(1) by (auto simp: mapE_Inr_iff list_all2_map1)
  have "\<forall>l \<in> set (List.map (printed_line show) (List.enumerate 1 ?pdus)). 10 \<notin> set l"
    using p printed_line_row(2) by (auto simp: list_all_iff in_set_enumerate_eq)
  from split_lines[OF this] have "split_on 10 (printed show ?pdus) = List.map (printed_line show) (List.enumerate 1 ?pdus) @ [[]]"
    by (simp add: printed_def comp_def)
  moreover obtain empty_row where "make_row (replicate (length row_fields) []) = Inr empty_row" by (simp add: make_row_def)
  moreover have "nat (1 + int x) = Suc x" for x by simp
  ultimately show ?thesis
    unfolding dissect_def wraps using assms(2,3) rows_printed[OF p, of 1 Map.empty]
    by (auto simp: map_Suc_upt[symmetric] simp del: upt_Suc)
qed

section \<open>An accepted reply, dissected\<close>

lemma octets_to_octets: "octets v = Inr bs \<Longrightarrow> to_octets v = Inr bs"
proof -
  assume v: "octets v = Inr bs"
  then obtain xs where xs: "v = JArr xs" using octets_ints by blast
  have "bindE (integer x 255) (\<lambda>i. Inr (byte i)) = Inr b \<Longrightarrow> json_octet x = Inr b" for x b
    by (cases x) (simp_all add: integer_def split: if_splits)
  moreover have "list_all2 (\<lambda>x b. bindE (integer x 255) (\<lambda>i. Inr (byte i)) = Inr b) xs bs"
    using v by (simp add: xs octets_def mapE_Inr_iff split: if_splits)
  ultimately have "list_all2 (\<lambda>x b. json_octet x = Inr b) xs bs" by (rule list_all2_mono[rotated])
  then show ?thesis by (simp add: xs mapE_Inr_iff)
qed

lemma decoder_case_probe:
  assumes "decoder_accepts test" "is_accepted test = Inr True" "decoder_probe test = Inr p"
  obtains reference grp sub b e where "mgmt_decode (pr_pdu p) reference grp sub = Accept b" "same (reply_json (Accept b)) e"
    "\<not> pr_reject p" "pr_check p = userdata_check e (JInt grp) (JInt sub) (JInt reference)"
proof -
  obtain kvs xs pdu reference grp sub e where f: "test = JObj kvs" "map_of kvs ''pdu'' = Some (JArr xs)" "octets (JArr xs) = Inr pdu"
    "map_of kvs ''reference'' = Some (JInt reference)" "map_of kvs ''group'' = Some (JInt grp)"
    "map_of kvs ''subfunction'' = Some (JInt sub)" "map_of kvs ''expected'' = Some e"
    "same (reply_json (mgmt_decode pdu reference grp sub)) e"
    using decoder_fields[OF assms(1)] by metis
  have p: "pr_pdu p = pdu" "\<not> pr_reject p" "pr_check p = userdata_check e (JInt grp) (JInt sub) (JInt reference)"
    using assms(2,3) f(2,4-7) octets_to_octets[OF f(3)] by (auto simp: f(1) decoder_probe_def probe_of_def octets_field_def)
  obtain es where es: "e = JObj es" "map_of es ''status'' = Some (jtext (case mgmt_decode pdu reference grp sub of Accept _ \<Rightarrow> ''accept'' | Reject _ \<Rightarrow> ''reject''))"
    using same_reply(1)[OF f(8)] by blast
  have "mgmt_decode pdu reference grp sub \<noteq> Reject x" for x
    using assms(2) es f(7) by (auto simp: f(1) is_accepted_def status_of_def ascii_def)
  then obtain b where b: "mgmt_decode pdu reference grp sub = Accept b" by (cases "mgmt_decode pdu reference grp sub") auto
  show thesis by (rule that[OF _ _ p(2,3)]) (use b f(8) p(1) in simp_all)
qed

lemma classify_disagree:
  assumes "full_row row" "\<not> pr_reject p"
  shows "bindE (classify p row) (\<lambda>v. Inr (status_name v = ''disagree'')) = bindE (pr_check p row) (\<lambda>ds. Inr (ds \<noteq> []))"
proof -
  obtain m x where "row_get row ''_ws.malformed'' = Inr m" "row_get row ''_ws.expert.message'' = Inr x"
    using view_rows(11,12)[OF assms(1)] by blast
  then show ?thesis using assms(2) by (cases "pr_check p row") (auto simp: classify_def flagged_row_def)
qed

lemma decoder_probe_built:
  assumes "build_probes s7 management = Inr probes" "jget ''decoder_cases'' management = Inr (JArr tests)" "test \<in> set tests"
  obtains i p where "i < length probes" "probes ! i = p" "decoder_probe test = Inr p"
proof -
  obtain p1 p2 rest where p2: "group_probes ''decoder_cases'' management (single decoder_probe) = Inr p2" "probes = p1 @ p2 @ rest"
    using assms(1) unfolding build_probes_def bindE_Inr_iff sum.inject by metis
  then obtain parts where parts: "mapE (single decoder_probe) tests = Inr parts" "p2 = concat parts"
    using assms(2) by (auto simp: group_probes_def)
  obtain j where j: "j < length tests" "tests ! j = test" using assms(3) by (auto simp: in_set_conv_nth)
  have "list_all2 (\<lambda>t q. single decoder_probe t = Inr q) tests parts" using parts(1) by (simp add: mapE_Inr_iff)
  then have "single decoder_probe test = Inr (parts ! j)" "parts ! j \<in> set parts"
    using list_all2_nthD[of _ tests parts j] j by (auto simp: list_all2_lengthD)
  then obtain p where p: "decoder_probe test = Inr p" "parts ! j = [p]" by (auto simp: single_def)
  then have "p \<in> set probes" using \<open>parts ! j \<in> set parts\<close> parts(2) p2(2) p(2) by auto (metis list.set_intros(1))
  then obtain i where i: "i < length probes" "probes ! i = p" by (auto simp: in_set_conv_nth)
  show thesis by (rule that[OF i p(1)])
qed

text \<open>C38: every accepted reply of a valid management corpus is put to the dissector, and for a dissector that prints a line for
each frame the row of every probe is the line of its own frame, and the verdict is a disagreement just when what the line shows of the reply is not what the management oracle decodes from it:
the kind, group, service, sequence number, payload length, reference, data unit, return code and transport size, and the continuation flag
where it is shown.\<close>
theorem decoder_cases_dissected:
  assumes "mgmt_validate management = Inr counts" and "build_probes s7 management = Inr probes"
    and "mapE wrap (List.map pr_pdu probes) = Inr frames" and "capture frames = Inr pcap"
    and "tshark pcap = Inr (printed show (List.map pr_pdu probes))" and "list_all (\<lambda>p. printable (show (pr_pdu p))) probes"
    and "jget ''decoder_cases'' management = Inr (JArr tests)" and "test \<in> set tests" and "is_accepted test = Inr True"
  shows "\<exists>rows i reference grp sub b. dissect tshark probes = Inr rows
    \<and> rows = List.map (\<lambda>j. frame_row (Suc j) (show (pr_pdu (probes ! j)))) [0..<length probes] \<and> i < length probes \<and> decoder_probe test = Inr (probes ! i)
    \<and> mgmt_decode (pr_pdu (probes ! i)) reference grp sub = Accept b
    \<and> bindE (classify (probes ! i) (rows ! i)) (\<lambda>v. Inr (status_name v = ''disagree''))
      = bindE (row_view (rows ! i)) (\<lambda>reading. Inr (\<not> shows_reply reference grp sub b reading))"
proof -
  obtain i p where i: "i < length probes" "probes ! i = p" "decoder_probe test = Inr p"
    by (rule decoder_probe_built[OF assms(2,7,8)])
  obtain reference grp sub b e where p: "mgmt_decode (pr_pdu p) reference grp sub = Accept b" "same (reply_json (Accept b)) e"
    "\<not> pr_reject p" "pr_check p = userdata_check e (JInt grp) (JInt sub) (JInt reference)"
    by (rule decoder_case_probe[OF validate_decoder[OF assms(1,7,8)] assms(9) i(3)])
  define row where "row = frame_row (Suc i) (show (pr_pdu p))"
  have "p \<in> set probes" using i by auto
  then have full: "full_row row" using assms(6) printed_line_row(4)[of "show" "pr_pdu p" "Suc i"] by (simp add: list_all_iff row_def)
  have "bindE (classify p row) (\<lambda>v. Inr (status_name v = ''disagree''))
      = bindE (row_view row) (\<lambda>reading. Inr (\<not> shows_reply reference grp sub b reading))"
    unfolding classify_disagree[OF full p(3)] p(4) by (rule userdata_check_reads[OF full p(2)])
  then show ?thesis using i p(1) dissect_printed[of probes frames pcap tshark "show", OF assms(3-6)]
    by (intro exI[of _ "List.map (\<lambda>i. frame_row (Suc i) (show (pr_pdu (probes ! i)))) [0..<length probes]"] exI[of _ i]
        exI[of _ reference] exI[of _ grp] exI[of _ sub] exI[of _ b]) (simp add: row_def)
qed

definition ex_history :: json where
  "ex_history = JObj [(''id'', jtext ''b''), (''group'', JInt 3), (''subfunction'', JInt 2),
     (''steps'', JArr [JObj [(''reference'', JInt 1),
        (''request_pdu'', JArr (List.map JInt [50, 7, 0, 0, 0, 1, 0, 8, 0, 6, 0, 1, 18, 4, 17, 67, 2, 0, 255, 9, 0, 2, 48, 65])),
        (''response_pdu'', JArr [])]]),
     (''expected'', JObj [(''status'', jtext ''reject''), (''category'', jtext ''protocol''), (''failed_step'', JInt 0)])]"

definition ex_dissected :: json where
  "ex_dissected = JObj [(''schema_version'', JInt 1), (''protocol'', jtext ''classic S7 management codec conversations''),
     (''decoder_cases'', JArr [JObj [(''id'', jtext ''a''), (''reference'', JInt 5), (''group'', JInt 4), (''subfunction'', JInt 1),
        (''pdu'', byte_list (lg_response (ex_legs ! 0))), (''expected'', reply_json (Accept (ex_body 3 True [170, 187])))]]),
     (''continuation_cases'', JArr [ex_history])]"

definition ex_cases :: json where
  "ex_cases = JObj (List.map (\<lambda>key. (key, JArr [])) [''userdata_cases'', ''multi_item_cases'', ''upload_cases'', ''response_cases'', ''request_cases''])"

definition ex_shown :: "bytes \<Rightarrow> ustr list" where
  "ex_shown pdu = List.map ascii [''7'', ''5'', [], ''4'', ''1'', ''3'', ''9'', ''1'', [], [], [], [], [], ''0xff'', ''0x09'', ''2'', [], [], []]"

lemma ex_dissected_valid: "mgmt_validate ex_dissected = Inr (1, 1)"
proof -
  have request: "mgmt_request 1 3 2 None = Inr [50, 7, 0, 0, 0, 1, 0, 8, 0, 6, 0, 1, 18, 4, 17, 67, 2, 0, 255, 9, 0, 2, 48, 65]"
    by (simp add: mgmt_request_def bytes_of_def packet_ok byte_def len_def)
  have decode: "mgmt_decode (lg_response (ex_legs ! 0)) 5 4 1 = Accept (ex_body 3 True [170, 187])"
    using ex_replies(1) by (simp add: ex_legs_def)
  have same_expected: "same (reply_json (Accept (ex_body 3 True [170, 187]))) (reply_json (Accept (ex_body 3 True [170, 187])))"
    by (simp add: same_obj same_atom same_arr byte_list_def ints_of_def ex_body_def)
  have "length (lg_response (ex_legs ! 0)) \<le> 65535" by (simp add: ex_legs_def)
  note octets = octets_byte_list[OF this]
  have history: "continuation_case ex_history [ascii ''a''] = Inr [ascii ''b'', ascii ''a'']"
    by (simp add: ex_history_def continuation_case_def shape_def identity_def octets_def integer_def mgmt_decode_def parse_leg_def
        cont_step_def cont_init_def cont_json_def category_name_def same_obj same_atom request byte_def ascii_def)
  have "decoder_case (JObj [(''id'', jtext ''a''), (''reference'', JInt 5), (''group'', JInt 4), (''subfunction'', JInt 1),
      (''pdu'', byte_list (lg_response (ex_legs ! 0))), (''expected'', reply_json (Accept (ex_body 3 True [170, 187])))]) [] = Inr [ascii ''a'']"
    using octets by (simp add: decoder_case_def shape_def identity_def integer_def decode same_expected insert_commute ascii_def del: reply_json.simps)
  then show ?thesis using history by (simp add: mgmt_validate_def ex_dissected_def shape_def del: reply_json.simps)
qed

definition ex_probes :: "probe list" where
  "ex_probes = (case build_probes ex_cases ex_dissected of Inr ps \<Rightarrow> ps | Inl e \<Rightarrow> [])"

theorem decoder_cases_dissected_witness:
  "\<exists>rows i reference grp sub b. dissect (\<lambda>_. Inr (printed ex_shown [lg_response (ex_legs ! 0)])) ex_probes = Inr rows \<and> i < 1
    \<and> mgmt_decode (pr_pdu (ex_probes ! i)) reference grp sub = Accept b
    \<and> bindE (classify (ex_probes ! i) (rows ! i)) (\<lambda>v. Inr (status_name v = ''disagree''))
      = bindE (row_view (rows ! i)) (\<lambda>reading. Inr (\<not> shows_reply reference grp sub b reading))"
proof -
  let ?pdu = "lg_response (ex_legs ! 0)"
  let ?test = "JObj [(''id'', jtext ''a''), (''reference'', JInt 5), (''group'', JInt 4), (''subfunction'', JInt 1),
     (''pdu'', byte_list ?pdu), (''expected'', reply_json (Accept (ex_body 3 True [170, 187])))]"
  have size: "length ?pdu = 28" by (simp add: ex_legs_def)
  then have pdu: "to_octets (byte_list ?pdu) = Inr ?pdu" by (intro octets_to_octets octets_byte_list) simp
  have built: "build_probes ex_cases ex_dissected = Inr ex_probes" "List.map pr_pdu ex_probes = [?pdu]"
    unfolding atomize_conj ex_probes_def using pdu
    by (simp add: build_probes_def group_probes_def ex_cases_def ex_dissected_def single_def decoder_probe_def is_accepted_def
        status_of_def probe_of_def probe_key_def octets_field_def)
  have "wrap ?pdu = Inr ([3, 0] @ be_bytes 2 35 @ [2, 0xF0, 0x80] @ ?pdu)" using size by (simp add: wrap_def len_def pack_ok)
  then obtain frame where frame: "mapE wrap (List.map pr_pdu ex_probes) = Inr [frame]" "length frame = 35"
    using size by (simp add: built(2))
  then obtain pcap where pcap: "capture [frame] = Inr pcap"
    using frame(2) by (auto simp: capture_def capture_frame_ok capture_header_def pack_le_def pack_ok len_def)
  have printed: "list_all (\<lambda>p. printable (ex_shown (pr_pdu p))) ex_probes"
    by (simp add: printable_def ex_shown_def ascii_def list_all_iff)
  have test: "is_accepted ?test = Inr True" by (simp add: is_accepted_def status_of_def)
  have cases: "jget ''decoder_cases'' ex_dissected = Inr (JArr [?test])" by (simp add: ex_dissected_def)
  have "length ex_probes = 1" using arg_cong[OF built(2), of length] by simp
  then show ?thesis
    using decoder_cases_dissected[OF ex_dissected_valid built(1) frame(1) pcap _ printed cases _ test,
        of "\<lambda>_. Inr (printed ex_shown [?pdu])"] built(2) by simp
qed

end
