(* ===== verification/Assurance.thy ===== *)
theory Assurance
  imports Services
begin

text \<open>
  What the peers of \<open>Services\<close> are good for: the bit peer's eight updates are complete, and the USER_DATA
  peer asks and answers exactly what the management oracle builds and judges.
\<close>

section \<open>Eight single-bit updates are all of them\<close>

lemma top_bit: "2 ^ k \<le> n \<Longrightarrow> n < 2 ^ (k + 1) \<Longrightarrow> n < 256 \<Longrightarrow> bit (word_of_nat n :: byte) k"
proof -
  assume a: "2 ^ k \<le> n" "n < 2 ^ (k + 1)" "n < 256"
  have "n div 2 ^ k = 1" using a(1,2) by (intro div_nat_eqI) simp_all
  moreover have "k < 8"
    using power_less_imp_less_exp[of "2 :: nat" k 8] a(1,3) by simp
  moreover from calculation(1) have "bit n k" by (simp add: bit_iff_odd)
  ultimately show ?thesis by (simp add: bit_of_nat_iff)
qed

lemma single_bits:
  fixes d :: byte
  assumes "d \<noteq> 0" "and d (d - 1) = 0"
  shows "\<exists>k < 8. d = 2 ^ k"
proof -
  define n where "n = unat d"
  have n: "1 \<le> n" "n < 256" using assms(1) unsigned_less[of d, where ?'a = nat] unat_eq_0[of d] by (auto simp: n_def)
  obtain k where k: "2 ^ k \<le> n" "n < 2 ^ (k + 1)" using ex_power_ivl1[of 2 n] n(1) by auto
  have d: "d = word_of_nat n" by (simp add: n_def)
  have "n = 2 ^ k"
  proof (rule ccontr)
    assume "n \<noteq> 2 ^ k"
    then have p: "2 ^ k \<le> n - 1" "n - 1 < 2 ^ (k + 1)" "n - 1 < 256" using k n by linarith+
    have "d - 1 = word_of_nat (n - 1)" using n(1) by (simp add: d)
    with top_bit[OF p] top_bit[OF k n(2)] have "bit (and d (d - 1)) k" by (simp add: d bit_and_iff)
    with assms(2) show False by simp
  qed
  moreover have "k < 8" using power_less_imp_less_exp[of "2 :: nat" k 8] k(1) n(2) by simp
  ultimately show ?thesis using d by auto
qed

definition ones :: "byte \<Rightarrow> nat set" where
  "ones w = {k. k < 8 \<and> bit w k}"

lemma full_octet: "(255 :: byte) = mask 8"
  by (simp add: mask_eq_exp_minus_1)

lemma ones_card: "card (ones w) \<le> 8"
proof -
  have "ones w \<subseteq> {..<8}" by (auto simp: ones_def)
  from card_mono[OF _ this] show ?thesis by simp
qed

lemma ones_all: "card (ones w) = 8 \<Longrightarrow> w = 255"
proof -
  assume "card (ones w) = 8"
  then have "ones w = {..<8}" by (intro card_subset_eq) (auto simp: ones_def)
  then have "bit w k" if "k < 8" for k using that by (auto simp: ones_def)
  then have "w = mask 8" by (intro bit_word_eqI) (simp add: bit_mask_iff)
  then show ?thesis by (simp add: full_octet)
qed

lemma ones_none: "card (ones w) = 0 \<Longrightarrow> w = 0"
proof -
  assume "card (ones w) = 0"
  moreover have "finite (ones w)" by (simp add: ones_def)
  ultimately have "ones w = {}" by simp
  then show ?thesis by (intro bit_word_eqI) (auto simp: ones_def)
qed

lemma bit_update_ones:
  assumes "bit_update clearing old new"
  shows "card (ones new) = (if clearing then card (ones old) - 1 else Suc (card (ones old)))" "clearing \<Longrightarrow> ones old \<noteq> {}"
proof -
  obtain k where k: "k < 8" "xor new old = 2 ^ k"
    using assms single_bits[of "xor new old"] by (auto simp: bit_update_def Let_def)
  have flips: "bit new i \<longleftrightarrow> (bit old i \<noteq> (i = k))" if "i < 8" for i
  proof -
    have "bit (xor new old) i \<longleftrightarrow> i = k" using that k by (simp add: k(2) bit_exp_iff)
    then show ?thesis by (auto simp: bit_xor_iff)
  qed
  have fin: "finite (ones old)" by (simp add: ones_def)
  show "card (ones new) = (if clearing then card (ones old) - 1 else Suc (card (ones old)))" "clearing \<Longrightarrow> ones old \<noteq> {}"
  proof -
    have "ones new = ones old - {k} \<and> k \<in> ones old" if clearing
    proof -
      have "or new old = old" using assms that by (auto simp: bit_update_def Let_def)
      then have "bit old k" using flips[OF k(1)] by (metis bit_or_iff)
      with flips k(1) show ?thesis by (auto simp: ones_def)
    qed
    moreover have "ones new = insert k (ones old) \<and> k \<notin> ones old" if "\<not> clearing"
    proof -
      have "and new old = old" using assms that by (auto simp: bit_update_def Let_def)
      then have "\<not> bit old k" using flips[OF k(1)] by (metis bit_and_iff)
      with flips k(1) show ?thesis by (auto simp: ones_def)
    qed
    ultimately show "card (ones new) = (if clearing then card (ones old) - 1 else Suc (card (ones old)))" "clearing \<Longrightarrow> ones old \<noteq> {}"
      using fin by auto
  qed
qed

lemma bit_round_updates:
  "bit_round mode first index old s = (Inr (Some new), t) \<Longrightarrow> bit_update (co_clearing mode) old new"
  by (auto simp: bit_round_def bit_written_def bindM_def thenM_def liftE_def ret_def split: prod.splits sum.splits if_splits)

lemma bit_rounds_ones:
  "loopS (bit_round mode first) xs old s = (Inr (Some new), t) \<Longrightarrow>
     card (ones new) = (if co_clearing mode then card (ones old) - length xs else card (ones old) + length xs)
     \<and> (co_clearing mode \<longrightarrow> length xs \<le> card (ones old))"
proof (induction xs arbitrary: old s)
  case Nil
  then show ?case by (simp add: ret_def)
next
  case (Cons x xs)
  then obtain mid u where m: "bit_round mode first x old s = (Inr (Some mid), u)"
      "loopS (bit_round mode first) xs mid u = (Inr (Some new), t)"
    by (auto simp: bindM_def ret_def split: prod.splits sum.splits option.splits)
  have f: "finite (ones old)" by (simp add: ones_def)
  note b = bit_update_ones[OF bit_round_updates[OF m(1)]] Cons.IH[OF m(2)]
  show ?case
  proof (cases "co_clearing mode")
    case True
    then have "card (ones old) \<noteq> 0" using b(2) f by simp
    with b True show ?thesis by auto
  qed (use b in auto)
qed

text \<open>C27: Eight updates that each flip one bit in the wanted direction leave none over: once the eight rounds of the bit peer
  have gone well, the octet is full (or empty when clearing), so its complaint about incomplete updates can never be made.\<close>
theorem bit_updates_complete:
  assumes "loopS (bit_round mode first) [0..<bit_rounds mode] (if co_clearing mode then 255 else 0) s = (Inr (Some octet), t)"
    and "mode \<notin> {''bit-drop'', ''bit-deadline''}"
  shows "octet = (if co_clearing mode then 0 else 255)"
proof -
  have n: "length [0..<bit_rounds mode] = 8" using assms(2) by (simp add: bit_rounds_def)
  have "ones 255 = {..<8}" "ones 0 = {}" unfolding full_octet ones_def by (auto simp: bit_mask_iff)
  then have "card (ones 255) = 8" "card (ones 0) = 0" by simp_all
  note cards = this bit_rounds_ones[OF assms(1), unfolded n]
  show ?thesis
  proof (cases "co_clearing mode")
    case True
    with cards have "card (ones octet) = 0" by simp
    with True show ?thesis using ones_none by simp
  next
    case False
    with cards have "card (ones octet) = 8" by simp
    with False show ?thesis using ones_all by simp
  qed
qed


definition ex_bit_read :: bytes where
  "ex_bit_read = [0x32, 1, 0, 0, 0, 1, 0, 14, 0, 0, 4, 1, 0x12, 0x0a, 0x10, 2, 0, 1, 0, 1, 0x84, 0, 0, 0]"

definition ex_bit_write :: "byte \<Rightarrow> bytes" where
  "ex_bit_write octet = [0x32, 1, 0, 0, 0, 1, 0, 14, 0, 5, 5, 1, 0x12, 0x0a, 0x10, 2, 0, 1, 0, 1, 0x84, 0, 0, 0, 0, 4, 0, 8, octet]"

definition ex_bits :: "arrival list" where
  "ex_bits = drop 1 (concat (List.map (\<lambda>k. [Chunk ([3, 0, 0, 31, 2, 0xf0, 0x80] @ ex_bit_read),
     Chunk ([3, 0, 0, 36, 2, 0xf0, 0x80] @ ex_bit_write (2 ^ (k + 1) - 1))]) [0..<8]))"

lemma ex_bits_run: "fst (loopS (bit_round ''bit-db'' ex_bit_read) [0..<bit_rounds ''bit-db''] 0 ((start [])\<lparr>rx := ex_bits\<rparr>)) = Inr (Some 255)"
  unfolding ex_bits_def ex_bit_read_def ex_bit_write_def by code_simp


theorem bit_updates_complete_witness: "\<exists>t. loopS (bit_round ''bit-db'' ex_bit_read) [0..<8] 0 ((start [])\<lparr>rx := ex_bits\<rparr>) = (Inr (Some 255), t)"
proof -
  obtain octet t where r: "loopS (bit_round ''bit-db'' ex_bit_read) [0..<bit_rounds ''bit-db''] 0 ((start [])\<lparr>rx := ex_bits\<rparr>) = (Inr (Some octet), t)"
    using ex_bits_run by (cases "loopS (bit_round ''bit-db'' ex_bit_read) [0..<bit_rounds ''bit-db''] 0 ((start [])\<lparr>rx := ex_bits\<rparr>)") simp
  have "\<not> co_clearing ''bit-db''" by code_simp
  with bit_updates_complete[of "''bit-db''" ex_bit_read _ octet t] r have "octet = 255" by simp
  with r show ?thesis by (simp add: bit_rounds_def)
qed

section \<open>The peer and the management oracle\<close>

text \<open>The services whose answers come in fragments, from the peer's own table.\<close>

definition opaque_services :: "(string \<times> int \<times> int) list" where
  "opaque_services = concat (List.map (\<lambda>operation. case ud_service operation of
     Inl e \<Rightarrow> [] | Inr (grp, subfunction) \<Rightarrow> [(operation, grp, subfunction)]) [''szl'', ''blocks''])"

lemma opaque_services_eq: "opaque_services = [(''szl'', 4, 1), (''blocks'', 3, 2)]"
  by (simp add: opaque_services_def ud_service_def)

lemma sections_is_packet: "sections pdu 7 r = Inr (p, d) \<longleftrightarrow> packet 7 r p d = Inr pdu"
proof
  assume s: "sections pdu 7 r = Inr (p, d)"
  note q = sections_split[OF s] sections_accepts[OF s]
  have l: "length pdu = 10 + length p + length d" by (rule q(7)) simp
  have n: "length p = nat (be_int (slice 6 8 pdu))" "length d = nat (be_int (slice 8 10 pdu))"
  proof -
    have t: "length pdu = 10 + nat (be_int (slice 6 8 pdu)) + nat (be_int (slice 8 10 pdu))"
      "length p = length (slice 10 (10 + nat (be_int (slice 6 8 pdu))) pdu)"
      using q(1) arg_cong[OF q(2), of length] by simp_all
    then show "length p = nat (be_int (slice 6 8 pdu))" unfolding length_slice by linarith
    with t(1) l show "length d = nat (be_int (slice 8 10 pdu))" by linarith
  qed
  have two: "length (slice 4 6 pdu) = 2" "length (slice 6 8 pdu) = 2" "length (slice 8 10 pdu) = 2" using l by (simp_all add: length_slice)
  note b = be_int_bound[of "slice 4 6 pdu"] be_int_bound[of "slice 6 8 pdu"] be_int_bound[of "slice 8 10 pdu"]
    be_int_nonneg[of "slice 4 6 pdu"] be_int_nonneg[of "slice 6 8 pdu"] be_int_nonneg[of "slice 8 10 pdu"]
  have f: "be_bytes 2 r = slice 4 6 pdu" "be_bytes 2 (len p) = slice 6 8 pdu" "be_bytes 2 (len d) = slice 8 10 pdu"
    using q(4) two b n be_bytes_be_int[of "slice 4 6 pdu"] be_bytes_be_int[of "slice 6 8 pdu"] be_bytes_be_int[of "slice 8 10 pdu"]
    by (simp_all add: len_def del: be_bytes_numeral)
  have "take 4 pdu = [0x32, 7, 0, 0]" using q(6) by (simp add: bytes_of_Inr_iff byte_def)
  then have "take 10 pdu = [0x32, 7, 0, 0] @ slice 4 6 pdu @ slice 6 8 pdu @ slice 8 10 pdu"
    using take_add[of 4 6 pdu] take_add[of 2 4 "drop 4 pdu"] take_add[of 2 2 "drop 6 pdu"] by (simp add: slice_def)
  then have "take 10 pdu @ p @ d = [0x32, 7, 0, 0] @ be_bytes 2 r @ be_bytes 2 (len p) @ be_bytes 2 (len d) @ p @ d"
    unfolding f by (simp del: be_bytes_numeral)
  with q(8)[simplified] have "pdu = [0x32, 7, 0, 0] @ be_bytes 2 r @ be_bytes 2 (len p) @ be_bytes 2 (len d) @ p @ d" by (rule trans)
  moreover have "0 \<le> r" "r < 65536" "length p < 65536" "length d < 65536" using q(4) b two n by auto
  ultimately show "packet 7 r p d = Inr pdu"
    using packet_ok[of 7 r p d] by (simp add: byte_def del: be_bytes_numeral)
qed (rule sections_packet)

lemma ud_request_sections:
  assumes "pl = (if token = None then 8 else 12 :: nat)"
  shows "ud_check_request req grp subfunction token operation = Inr r \<longleftrightarrow>
    (\<exists>expected. bytes_of [0, 1, 0x12, int pl - 4, if token \<noteq> None then 0x12 else 0x11, or 0x40 grp, subfunction,
        case token of None \<Rightarrow> 0 | Some q \<Rightarrow> q] = Inr expected
      \<and> sections req 7 r = Inr (expected @ (if token \<noteq> None then replicate 4 0 else []),
            if token \<noteq> None then [0x0a, 0, 0, 0] else ud_expected_data operation))" (is "?check \<longleftrightarrow> ?split")
proof -
  have magic: "bytes_of [0x32, 7, 0, 0] = Inr [0x32, 7, 0, 0 :: byte]" by (simp add: bytes_of_Inr_iff byte_def)
  have expected: "length e = 8" if "bytes_of [0, 1, 0x12, int pl - 4, if token \<noteq> None then 0x12 else 0x11, or 0x40 grp, subfunction,
        case token of None \<Rightarrow> 0 | Some q \<Rightarrow> q] = Inr e" for e
    using that by (auto simp: bytes_of_Inr_iff)
  have drops: "length (slice 10 (10 + pl) req) + length (drop (10 + pl) req) = length req - 10"
    by (auto simp: length_slice)
  show ?thesis
  proof
    assume ?check
    then obtain e where e: "bytes_of [0, 1, 0x12, int pl - 4, if token \<noteq> None then 0x12 else 0x11, or 0x40 grp, subfunction,
        case token of None \<Rightarrow> 0 | Some q \<Rightarrow> q] = Inr e"
      and h: "take 4 req = [0x32, 7, 0, 0]" "be_int (slice 6 8 req) = int pl" "be_int (slice 8 10 req) = len req - 10 - int pl"
      and p: "slice 10 (10 + pl) req = e @ (if token \<noteq> None then replicate 4 0 else [])"
      and d: "drop (10 + pl) req = (if token \<noteq> None then [0x0a, 0, 0, 0] else ud_expected_data operation)"
      and r: "r = reference_of req"
      using assms by (auto simp: ud_check_request_def Let_def split: if_splits)
    have l: "10 + pl \<le> length req" using h(3) be_int_nonneg[of "slice 8 10 req"] by (simp add: len_def)
    have "nat (be_int (slice 6 8 req)) = pl" "nat (be_int (slice 8 10 req)) = length req - 10 - pl"
      using h l by (simp_all add: len_def)
    then have "sections req 7 r = Inr (slice 10 (10 + pl) req, drop (10 + pl) req)"
      using h(1) l unfolding sections_def magic by (simp add: r reference_of_def)
    then show ?split using e p d by auto
  next
    assume ?split
    then obtain e where e: "bytes_of [0, 1, 0x12, int pl - 4, if token \<noteq> None then 0x12 else 0x11, or 0x40 grp, subfunction,
        case token of None \<Rightarrow> 0 | Some q \<Rightarrow> q] = Inr e"
      and s: "sections req 7 r = Inr (e @ (if token \<noteq> None then replicate 4 0 else []),
            if token \<noteq> None then [0x0a, 0, 0, 0] else ud_expected_data operation)" by blast
    note q = sections_split[OF s]
    have l: "length req = 10 + nat (be_int (slice 6 8 req)) + nat (be_int (slice 8 10 req))" using q(1) by simp
    have p: "e @ (if token \<noteq> None then replicate 4 0 else []) = slice 10 (10 + nat (be_int (slice 6 8 req))) req" using q(2) by simp
    have "length (e @ (if token \<noteq> None then replicate 4 0 else []) :: bytes) = pl" using expected[OF e] assms by (auto split: if_splits)
    then have "length (slice 10 (10 + nat (be_int (slice 6 8 req))) req) = pl" unfolding p .
    then have n: "nat (be_int (slice 6 8 req)) = pl" using l by (simp add: length_slice)
    have "be_int (slice 6 8 req) = int pl" "be_int (slice 8 10 req) = len req - 10 - int pl"
      using n l be_int_nonneg[of "slice 6 8 req"] be_int_nonneg[of "slice 8 10 req"] by (simp_all add: len_def)
    moreover have "take 4 req = [0x32, 7, 0, 0]" using q(6) magic by simp
    ultimately show ?check
      using e p q(3,4) n assms by (auto simp: ud_check_request_def Let_def reference_of_def split: if_splits)
  qed
qed

text \<open>A continuation request is the oracle's for any service; an opening one is the packet of its service.\<close>

lemma ud_continuation_request:
  "ud_check_request req grp subfunction (Some q) operation = Inr r \<longleftrightarrow> mgmt_request r grp subfunction (Some q) = Inr req"
proof -
  have c: "(\<exists>e. bytes_of xs = Inr e \<and> packet 7 r (e @ replicate 4 0) d = Inr req) \<longleftrightarrow>
    (\<exists>e. bytes_of (xs @ [0, 0, 0, 0]) = Inr e \<and> packet 7 r e d = Inr req)" for xs d
    by (auto simp: bytes_of_Inr_iff numeral_eq_Suc)
  show ?thesis
    using ud_request_sections[of 12 "Some q" req grp subfunction operation r]
      c[of "[0, 1, 0x12, 8, 0x12, or 0x40 grp, subfunction, q]" "[0x0a, 0, 0, 0]"]
    by (simp add: mgmt_request_def sections_is_packet)
qed

lemma ud_opening_request:
  "ud_check_request req grp subfunction None operation = Inr r \<longleftrightarrow>
     (\<exists>e. bytes_of [0, 1, 0x12, 4, 0x11, or 0x40 grp, subfunction, 0] = Inr e
        \<and> packet 7 r e (ud_expected_data operation) = Inr req)"
  using ud_request_sections[of 8 None req grp subfunction operation r] by (simp add: sections_is_packet)

text \<open>The services that the management oracle does not send: group, subfunction and data of the one request each has. The clock is
  set to 2024-02-29 23:59:58.123; the password is \<^verbatim>\<open>12345678\<close> in its scrambled form.\<close>

definition native_services :: "(string \<times> byte \<times> byte \<times> bytes) list" where
  "native_services =
     [(''set-clock'', 7, 2, [0xff, 9, 0, 10, 0, 0x19, 0x24, 0x02, 0x29, 0x23, 0x59, 0x58, 0x12, 0x31]),
      (''set-password'', 5, 1, [0xff, 9, 0, 8, 0x64, 0x67, 0x02, 0x06, 0x62, 0x65, 0x00, 0x08]),
      (''clear-password'', 5, 2, [0x0a, 0, 0, 0])]"

lemma native_data: "(operation, g, f, data) \<in> set native_services \<Longrightarrow> ud_expected_data operation = data"
  unfolding native_services_def by (auto simp: ud_expected_data_def password_code_def)

lemma ud_service_cases:
  "ud_service operation = Inr (grp, subfunction) \<longleftrightarrow>
     operation = ''szl'' \<and> grp = 4 \<and> subfunction = 1 \<or> operation = ''blocks'' \<and> grp = 3 \<and> subfunction = 2
     \<or> (\<exists>g f data. (operation, g, f, data) \<in> set native_services \<and> grp = uint g \<and> subfunction = uint f)"
  by (auto simp: ud_service_def native_services_def)

lemma ud_known_request:
  assumes "(operation, grp, subfunction) \<in> {(''szl'', 4, 1), (''blocks'', 3, 2)}"
  shows "ud_check_request req grp subfunction token operation = Inr r \<longleftrightarrow> mgmt_request r grp subfunction token = Inr req"
proof (cases token)
  case None
  have "ud_expected_data operation = (if grp = 4 then [0xff, 0x09, 0, 0x04, 0x04, 0x24, 0, 0] else [0xff, 0x09, 0, 0x02, 0x30, 0x41])"
    using assms by (auto simp: ud_expected_data_def)
  then show ?thesis using ud_opening_request[of req grp subfunction operation r] None by (simp add: mgmt_request_def)
qed (simp add: ud_continuation_request)

lemma ud_native_request:
  assumes "(operation, g, f, data) \<in> set native_services"
  shows "ud_check_request req (uint g) (uint f) token operation = Inr r \<longleftrightarrow>
    (if token = None then packet 7 r [0, 1, 0x12, 4, 0x11, or 0x40 g, f, 0] data else mgmt_request r (uint g) (uint f) token) = Inr req"
proof (cases token)
  case None
  have "bytes_of [0, 1, 0x12, 4, 0x11, or 0x40 (uint g), uint f, 0] = Inr [0, 1, 0x12, 4, 0x11, or 0x40 g, f, 0]"
    using assms by (auto simp: native_services_def bytes_of_Inr_iff byte_def)
  then show ?thesis using None ud_opening_request[of req "uint g" "uint f" operation r] native_data[OF assms] by simp
qed (simp add: ud_continuation_request)

text \<open>C28: The requests the USER_DATA peer accepts, for each of the services in its table and no other: with reference r it
  accepts exactly what the management oracle's own encoder builds for r, for the two services the oracle knows (the opening requests
  with their data and the continuations that echo a token) and for the continuation of any other; an opening request
  of the three services the oracle does not know is the one packet with that service's group, subfunction and data.\<close>
theorem userdata_requests_agree:
  "bindE (ud_service operation) (\<lambda>(grp, subfunction). ud_check_request req grp subfunction token operation) = Inr r \<longleftrightarrow>
     operation = ''szl'' \<and> mgmt_request r 4 1 token = Inr req
     \<or> operation = ''blocks'' \<and> mgmt_request r 3 2 token = Inr req
     \<or> (\<exists>g f data. (operation, g, f, data) \<in> set native_services
          \<and> (if token = None then packet 7 r [0, 1, 0x12, 4, 0x11, or 0x40 g, f, 0] data
             else mgmt_request r (uint g) (uint f) token) = Inr req)"
proof -
  have "bindE (ud_service operation) (\<lambda>(grp, subfunction). ud_check_request req grp subfunction token operation) = Inr r \<longleftrightarrow>
      (\<exists>grp subfunction. ud_service operation = Inr (grp, subfunction) \<and> ud_check_request req grp subfunction token operation = Inr r)"
    by (auto simp: case_prod_unfold)
  also have "\<dots> \<longleftrightarrow> operation = ''szl'' \<and> mgmt_request r 4 1 token = Inr req
     \<or> operation = ''blocks'' \<and> mgmt_request r 3 2 token = Inr req
     \<or> (\<exists>g f data. (operation, g, f, data) \<in> set native_services
          \<and> (if token = None then packet 7 r [0, 1, 0x12, 4, 0x11, or 0x40 g, f, 0] data
             else mgmt_request r (uint g) (uint f) token) = Inr req)"
  proof -
    define C where "C = (\<lambda>grp subfunction. ud_check_request req grp subfunction token operation = Inr r)"
    define N where "N = (\<lambda>g f data. (if token = None then packet 7 r [0, 1, 0x12, 4, 0x11, or 0x40 g, f, 0] data
        else mgmt_request r (uint g) (uint f) token) = Inr req)"
    have "operation = ''szl'' \<Longrightarrow> C 4 1 \<longleftrightarrow> mgmt_request r 4 1 token = Inr req"
      "operation = ''blocks'' \<Longrightarrow> C 3 2 \<longleftrightarrow> mgmt_request r 3 2 token = Inr req"
      "(operation, g, f, data) \<in> set native_services \<Longrightarrow> C (uint g) (uint f) \<longleftrightarrow> N g f data" for g f data
      unfolding C_def N_def using ud_known_request[of operation 4 1] ud_known_request[of operation 3 2] ud_native_request by simp_all
    then have "(\<exists>grp subfunction. ud_service operation = Inr (grp, subfunction) \<and> C grp subfunction) \<longleftrightarrow>
        operation = ''szl'' \<and> mgmt_request r 4 1 token = Inr req \<or> operation = ''blocks'' \<and> mgmt_request r 3 2 token = Inr req
        \<or> (\<exists>g f data. (operation, g, f, data) \<in> set native_services \<and> N g f data)"
      unfolding ud_service_cases by blast
    then show ?thesis unfolding C_def N_def .
  qed
  finally show ?thesis .
qed

section \<open>The peer's replies as the oracle judges them\<close>

definition octet_of :: "int \<Rightarrow> bool" where
  "octet_of v \<longleftrightarrow> 0 \<le> v \<and> v < 256"

lemma ud_reply_bytes:
  assumes "0 \<le> reference" "reference < 65536" "0 \<le> grp" "grp < 16" "length content < 1000"
    and "list_all octet_of [subfunction, sequence, unit_ref, flag, carrier, code]"
  shows "ud_reply reference grp subfunction sequence unit_ref flag content carrier code = Inr
    ([0x32, 7, 0, 0] @ be_bytes 2 reference @ be_bytes 2 12 @ be_bytes 2 (4 + len content)
     @ [0, 1, 0x12, 8, 0x12, byte (128 + grp), byte subfunction, byte sequence, byte unit_ref, byte flag, 0, 0]
     @ [byte code, byte carrier] @ be_bytes 2 (len content) @ content)"
proof -
  have p: "bytes_of [0, 1, 0x12, 8, 0x12, or 0x80 grp, subfunction, sequence, unit_ref, flag, 0, 0]
      = Inr [0, 1, 0x12, 8, 0x12, byte (128 + grp), byte subfunction, byte sequence, byte unit_ref, byte flag, 0, 0]"
    using assms(3,4,6) by (simp add: bytes_of_Inr_iff or_128 octet_of_def byte_def)
  have h: "bytes_of [code, carrier] = Inr [byte code, byte carrier]"
    using assms(6) by (simp add: bytes_of_Inr_iff octet_of_def)
  have d: "concatE [Inr [byte code, byte carrier], pack 2 (len content), Inr content] = Inr ([byte code, byte carrier] @ be_bytes 2 (len content) @ content)"
    using assms(5) by (simp add: concatE_def pack2 len_def del: be_bytes_numeral)
  show ?thesis
    unfolding ud_reply_def p h d bindE.simps
    using packet_ok[of 7 reference "[0, 1, 0x12, 8, 0x12, byte (128 + grp), byte subfunction, byte sequence, byte unit_ref, byte flag, 0, 0]"
        "[byte code, byte carrier] @ be_bytes 2 (len content) @ content"] assms(1,2,5)
    by (simp add: byte_def len_def del: be_bytes_numeral)
qed

text \<open>What the oracle makes of any such reply with an accepting return code.\<close>

lemma ud_reply_judged:
  assumes "0 \<le> reference" "reference < 65536" "0 \<le> g" "g < 16" "length content < 1000"
    and "list_all octet_of [s, sequence, unit_ref, flag, carrier]"
    and "ud_reply reference g s sequence unit_ref flag content carrier 255 = Inr pdu"
  shows "mgmt_decode pdu r grp subfunction =
    (if reference = r \<and> g = grp \<and> s = subfunction \<and> flag \<in> {0, 1} \<and> carrier = 9
     then Accept \<lparr>rb_payload = content, rb_sequence = byte sequence, rb_unit = byte unit_ref, rb_more = (flag = 1),
       rb_code = 255, rb_transport = 9\<rparr>
     else Reject ProtocolError)"
proof -
  have o: "octet_of s" "octet_of sequence" "octet_of unit_ref" "octet_of flag" "octet_of carrier" using assms(6) by simp_all
  obtain r1 r2 where r: "be_bytes 2 reference = [r1, r2]" by simp
  obtain d1 d2 where d: "be_bytes 2 (4 + len content) = [d1, d2]" by simp
  obtain c1 c2 where c: "be_bytes 2 (len content) = [c1, c2]" by simp
  have twelve: "be_bytes 2 12 = [0, 12 :: byte]" by (simp add: byte_def)
  have v: "be_int [r1, r2] = reference" "be_int [d1, d2] = 4 + len content" "be_int [c1, c2] = len content" "be_int [0, 12 :: byte] = 12"
    using be_int_2[of reference] be_int_2[of "4 + len content"] be_int_2[of "len content"] be_int_2[of 12] assms(1,2,5) r d c twelve
    by (simp_all add: len_def del: be_bytes_numeral be_int_Cons)
  have u: "uint (byte x) = x" if "octet_of x" for x using that by (simp add: octet_of_def uint_byte)
  have nib: "drop_bit 4 (uint (byte (128 + g))) = 8" "and (uint (byte (128 + g))) 15 = g"
    using nibbles[of "byte (128 + g)" g] assms(3,4) by (auto simp: uint_byte)
  have eqs: "byte flag \<in> {0, 1} \<longleftrightarrow> flag \<in> {0, 1}" "byte flag = 0 \<longleftrightarrow> flag = 0" "byte carrier = 9 \<longleftrightarrow> carrier = 9"
    using o(4,5) u by (auto simp: byte_def uint_0_iff dest: arg_cong[of _ _ uint])
  have pdu: "pdu = [0x32, 7, 0, 0, r1, r2, 0, 12, d1, d2] @ [0, 1, 0x12, 8, 0x12, byte (128 + g), byte s, byte sequence, byte unit_ref, byte flag, 0, 0]
     @ [255, byte carrier, c1, c2] @ content"
    using ud_reply_bytes[of reference g content s sequence unit_ref flag carrier 255] assms unfolding r d c twelve
    by (simp add: octet_of_def byte_def)
  have n: "\<not> null_ack 255 grp subfunction" by (simp add: null_ack_def)
  define params where "params = [0, 1, 0x12, 8, 0x12, byte (128 + g), byte s, byte sequence, byte unit_ref, byte flag, 0, 0]"
  define data where "data = [255, byte carrier, c1, c2] @ content"
  have parts: "length pdu = 26 + length content" "pdu ! 0 = 0x32" "pdu ! 1 = 7" "slice 4 6 pdu = [r1, r2]" "slice 6 8 pdu = [0, 12]"
      "slice 8 10 pdu = [d1, d2]" "slice 10 22 pdu = params" "drop 22 pdu = data"
    unfolding pdu params_def data_def by (simp_all add: slice_def)
  have ints: "nat (4 + len content) = 4 + length content" by (simp add: len_def nat_add_distrib)
  have params: "take 5 params = [0, 1, 0x12, 8, 0x12]" "params ! 5 = byte (128 + g)" "params ! 6 = byte s" "params ! 7 = byte sequence"
      "params ! 8 = byte unit_ref" "params ! 9 = byte flag" "be_int (slice 10 12 params) = 0"
    unfolding params_def by (simp_all add: slice_def)
  have data: "\<not> length data < 4" "data ! 0 = 255" "data ! 1 = byte carrier" "slice 2 4 data = [c1, c2]" "length data = 4 + length content" "drop 4 data = content"
    unfolding data_def by (simp_all add: slice_def)
  have nine: "byte 9 = 9" by (simp add: byte_def)
  have body: "decode_data params data grp subfunction =
      (if carrier = 9 then Accept \<lparr>rb_payload = content, rb_sequence = byte sequence, rb_unit = byte unit_ref, rb_more = (flag \<noteq> 0),
         rb_code = 255, rb_transport = 9\<rparr> else Reject ProtocolError)"
    unfolding decode_data_def Let_def data params v using n nine
    by (cases "carrier = 9") (simp_all add: len_def eqs(2,3))
  have size: "nat (12 :: int) = 12" by simp
  show ?thesis
    unfolding mgmt_decode_def Let_def parts v params body nib u[OF o(1)] size ints using eqs(1) by auto
qed


text \<open>A leg as peer and oracle see it: the request the oracle builds for the token before, the peer's fragment in reply.\<close>

definition assurance_legs :: "string \<Rightarrow> string \<Rightarrow> int \<Rightarrow> int \<Rightarrow> leg list \<Rightarrow> bool" where
  "assurance_legs operation scenario grp subfunction legs \<longleftrightarrow>
     list_all (\<lambda>(index, token, x, leg). 0 \<le> lg_reference leg \<and> lg_reference leg < 65536
        \<and> mgmt_request (lg_reference leg) grp subfunction token = Inr (lg_request leg)
        \<and> ud_fragment scenario (lg_reference leg) grp subfunction index x = Inr (lg_response leg))
       (zip [0..<4] (zip (None # List.map Some ud_sequences) (zip (zip ud_sequences (ud_pieces operation)) legs)))"

definition assurance_scenarios :: "string list" where
  "assurance_scenarios = [''valid'', ''zero-unit'', ''stale-reference'', ''wrong-group'', ''wrong-subfunction'', ''changed-unit'',
     ''invalid-flag'', ''wrong-transport'']"

definition conforming :: "string \<Rightarrow> bool" where
  "conforming scenario \<longleftrightarrow> scenario \<in> {''valid'', ''zero-unit''}"

lemma fragment_judged:
  assumes "(operation, grp, subfunction) \<in> set opaque_services" "scenario \<in> set assurance_scenarios" "index < 4"
    and "(sequence, content) = zip ud_sequences (ud_pieces operation) ! index"
    and "0 \<le> r" "r < 65536" "ud_fragment scenario r grp subfunction index (sequence, content) = Inr pdu"
  shows "mgmt_decode pdu r grp subfunction =
    (if index = 1 \<and> \<not> conforming scenario \<and> scenario \<noteq> ''changed-unit'' then Reject ProtocolError
     else Accept \<lparr>rb_payload = content, rb_sequence = byte sequence,
       rb_unit = byte (if index = 1 \<and> scenario = ''changed-unit'' then 0x52 else ud_unit scenario), rb_more = (index \<noteq> 3),
       rb_code = 255, rb_transport = 9\<rparr>)"
proof -
  have m: "(r - 1) mod 65536 \<noteq> r"
    using assms(5,6) by (cases "r = 0") (simp_all add: mod_pos_pos_trivial)
  have "list_all (\<lambda>(q, c). length c < 1000 \<and> octet_of q) (zip ud_sequences (ud_pieces operation))"
      "length (zip ud_sequences (ud_pieces operation)) = 4"
    by (simp_all add: ud_sequences_def ud_pieces_def octet_of_def)
  then have c: "length content < 1000" "octet_of sequence"
    using assms(3,4) by (metis (no_types, lifting) case_prod_conv list_all_length)+
  let ?f = "\<lambda>name. index = 1 \<and> scenario = name"
  let ?ref = "if ?f ''stale-reference'' then (r - 1) mod 65536 else r"
  let ?g = "if ?f ''wrong-group'' then (if grp = 4 then 3 else 4) else grp"
  let ?s = "if ?f ''wrong-subfunction'' then subfunction + 1 else subfunction"
  let ?u = "if ?f ''changed-unit'' then (ud_unit scenario + 1) mod 256 else ud_unit scenario"
  let ?flag = "if ?f ''invalid-flag'' then 2 else of_bool (index \<noteq> 3) :: int"
  let ?t = "if ?f ''wrong-transport'' then 4 else 9 :: int"
  have run: "ud_reply ?ref ?g ?s sequence ?u ?flag content ?t 255 = Inr pdu"
    using assms(7) unfolding ud_fragment_def Let_def prod.case .
  have g: "grp \<in> {3, 4}" "subfunction \<in> {1, 2}" using assms(1) by (auto simp: opaque_services_eq)
  have pre: "0 \<le> ?ref" "?ref < 65536" "0 \<le> ?g" "?g < 16" using assms(5,6) g(1) by (simp_all, auto)
  have "octet_of ?s" "octet_of ?u" "octet_of ?flag" "octet_of ?t"
    unfolding octet_of_def ud_unit_def using g(2) by (simp_all, auto)
  then have octets: "list_all octet_of [?s, sequence, ?u, ?flag, ?t]" using c(2) unfolding list.pred_inject
    by (intro conjI) (assumption | simp)+
  note j = ud_reply_judged[OF pre c(1) octets run, of r grp subfunction]
  define bad where "bad \<longleftrightarrow> scenario \<in> {''stale-reference'', ''wrong-group'', ''wrong-subfunction'', ''invalid-flag'', ''wrong-transport''}"
  have y: "bad \<longleftrightarrow> \<not> conforming scenario \<and> scenario \<noteq> ''changed-unit''"
    using assms(2) by (auto simp: assurance_scenarios_def conforming_def bad_def)
  show ?thesis
  proof (cases "index = 1 \<and> bad")
    case True
    then have "?ref \<noteq> r \<or> ?g \<noteq> grp \<or> ?s \<noteq> subfunction \<or> ?flag \<notin> {0, 1} \<or> ?t \<noteq> 9"
      using m g unfolding bad_def by (elim conjE insertE emptyE) simp_all
    then show ?thesis using j True y by (simp only: if_False) auto
  next
    case False
    then have "?ref = r" "?g = grp" "?s = subfunction" "?flag = of_bool (index \<noteq> 3)" "?t = 9"
      by (auto simp: bad_def)
    moreover have "?u = (if index = 1 \<and> scenario = ''changed-unit'' then 0x52 else ud_unit scenario)" by (simp add: ud_unit_def)
    ultimately show ?thesis using j False y by (simp only: if_True) auto
  qed
qed


lemma judged_step:
  assumes "mgmt_request (lg_reference leg) grp subfunction (map_option uint (ct_token s)) = Inr (lg_request leg)" "ct_failure s = None"
  shows "mgmt_decode (lg_response leg) (lg_reference leg) grp subfunction = Reject k \<Longrightarrow>
      cont_step grp subfunction n i leg s = Inr (s\<lparr>ct_failure := Some (k, i)\<rparr>)"
    and "mgmt_decode (lg_response leg) (lg_reference leg) grp subfunction = Accept b \<Longrightarrow>
      ct_unit s \<noteq> None \<and> ct_unit s \<noteq> Some (rb_unit b) \<Longrightarrow>
      cont_step grp subfunction n i leg s = Inr (s\<lparr>ct_failure := Some (ProtocolError, i)\<rparr>)"
    and "mgmt_decode (lg_response leg) (lg_reference leg) grp subfunction = Accept b \<Longrightarrow>
      \<not> (ct_unit s \<noteq> None \<and> ct_unit s \<noteq> Some (rb_unit b)) \<Longrightarrow> rb_more b = (i + 1 < n) \<Longrightarrow>
      length (ct_payload s @ rb_payload b) \<le> 16 * 1024 * 1024 \<Longrightarrow>
      cont_step grp subfunction n i leg s = Inr (s\<lparr>ct_unit := Some (rb_unit b), ct_token := Some (rb_sequence b),
        ct_payload := ct_payload s @ rb_payload b\<rparr>)"
  using assms by (auto simp: cont_step_def Let_def)

text \<open>C29: The fault scenarios of the USER_DATA peer are what they are meant to be: fed to the management oracle, the peer's four
  fragments of a conforming scenario assemble to the payload, whatever the tokens and references, and every other scenario is a
  protocol error at its second fragment.\<close>
theorem assurance_replies_judged:
  assumes "(operation, grp, subfunction) \<in> set opaque_services" "scenario \<in> set assurance_scenarios"
    and "length legs = (if conforming scenario then 4 else 2)" "assurance_legs operation scenario grp subfunction legs"
  shows "\<exists>s. cont_run grp subfunction (length legs) 0 legs cont_init = Inr s
    \<and> (if conforming scenario then ct_failure s = None \<and> ct_payload s = concat (ud_pieces operation)
       else ct_failure s = Some (ProtocolError, 1))"
proof -
  obtain p0 p1 p2 p3 where p: "ud_pieces operation = [p0, p1, p2, p3]" unfolding ud_pieces_def by (cases "operation = ''szl''") auto
  have pl: "length p0 < 10" "length p1 < 10" "length p2 < 10" "length p3 < 10" using p by (auto simp: ud_pieces_def split: if_splits)
  obtain l0 l1 rest where l: "legs = l0 # l1 # rest" "length rest = (if conforming scenario then 2 else 0)"
    using assms(3) by (cases legs; cases "tl legs") (auto split: if_splits)
  have z: "[0..<4] = [0, 1, 2, 3 :: nat]" by (simp add: upt_rec)
  note legs = assms(4)[unfolded assurance_legs_def l(1) p ud_sequences_def z, simplified]
  note judged = fragment_judged[OF assms(1,2), unfolded p ud_sequences_def]
  have u: "uint (byte 255) = 255" "uint (byte 1) = 1" by (simp_all add: uint_byte)
  define s1 where "s1 = \<lparr>ct_payload = p0, ct_unit = Some (byte (ud_unit scenario)), ct_token = Some (byte 255), ct_failure = None\<rparr>"
  have first: "cont_step grp subfunction (length legs) 0 l0 cont_init = Inr s1"
    using judged_step(3)[of l0 grp subfunction cont_init _ 0 "length legs"] judged[of 0 255 p0 "lg_reference l0" "lg_response l0"] legs l pl
    by (simp add: cont_init_def s1_def)
  have t1: "mgmt_request (lg_reference l1) grp subfunction (map_option uint (ct_token s1)) = Inr (lg_request l1)" "ct_failure s1 = None"
    using legs by (simp_all add: s1_def u)
  show ?thesis
  proof (cases "conforming scenario")
    case False
    then have legs2: "legs = [l0, l1]" using l by simp
    have "cont_step grp subfunction (length legs) 1 l1 s1 = Inr (s1\<lparr>ct_failure := Some (ProtocolError, 1)\<rparr>)"
    proof (cases "scenario = ''changed-unit''")
      case True
      then have "ct_unit s1 = Some (byte 0x51)" by (simp add: s1_def ud_unit_def)
      moreover have "byte 0x51 \<noteq> byte 0x52" by (simp add: byte_def)
      ultimately show ?thesis
        using judged_step(2)[OF t1, of _ "length legs" 1] judged[of 1 1 p1 "lg_reference l1" "lg_response l1"] legs True False by simp
    next
      case changed: False
      then show ?thesis
        using judged_step(1)[OF t1, of ProtocolError "length legs" 1] judged[of 1 1 p1 "lg_reference l1" "lg_response l1"] legs False by simp
    qed
    then show ?thesis using first False legs2 by simp
  next
    case True
    then obtain l2 l3 where r: "rest = [l2, l3]" using l(2) by (cases rest; cases "tl rest") auto
    note legs' = legs[unfolded r, simplified]
    have nc: "scenario \<noteq> ''changed-unit''" using True by (auto simp: conforming_def)
    define s2 where "s2 = s1\<lparr>ct_token := Some (byte 1), ct_payload := p0 @ p1\<rparr>"
    define s3 where "s3 = s1\<lparr>ct_token := Some (byte 1), ct_payload := p0 @ p1 @ p2\<rparr>"
    define s4 where "s4 = s1\<lparr>ct_token := Some (byte 0x80), ct_payload := p0 @ p1 @ p2 @ p3\<rparr>"
    let ?body = "\<lambda>content token more'. \<lparr>rb_payload = content, rb_sequence = byte token, rb_unit = byte (ud_unit scenario), rb_more = more',
        rb_code = 255, rb_transport = 9\<rparr>"
    have a: "leg_reply grp subfunction l1 = Accept (?body p1 1 True)" "leg_reply grp subfunction l2 = Accept (?body p2 1 True)"
        "leg_reply grp subfunction l3 = Accept (?body p3 128 False)"
      using judged[of 1 1 p1 "lg_reference l1" "lg_response l1"] judged[of 2 1 p2 "lg_reference l2" "lg_response l2"]
        judged[of 3 128 p3 "lg_reference l3" "lg_response l3"] legs' True nc by simp_all
    have t2: "mgmt_request (lg_reference l2) grp subfunction (map_option uint (ct_token s2)) = Inr (lg_request l2)" "ct_failure s2 = None"
      and t3: "mgmt_request (lg_reference l3) grp subfunction (map_option uint (ct_token s3)) = Inr (lg_request l3)" "ct_failure s3 = None"
      using legs' u by (simp_all add: s1_def s2_def s3_def)
    have "cont_step grp subfunction (length legs) 1 l1 s1 = Inr s2"
      using judged_step(3)[OF t1 a(1), of 1 "length legs"] pl l r by (simp add: s1_def s2_def)
    moreover have "cont_step grp subfunction (length legs) 2 l2 s2 = Inr s3"
      using judged_step(3)[OF t2 a(2), of 2 "length legs"] pl l r by (simp add: s1_def s2_def s3_def)
    moreover have "cont_step grp subfunction (length legs) 3 l3 s3 = Inr s4"
      using judged_step(3)[OF t3 a(3), of 3 "length legs"] pl l r by (simp add: s1_def s3_def s4_def)
    ultimately have "cont_run grp subfunction (length legs) 0 legs cont_init = Inr s4"
      using first unfolding l(1) r by (simp add: numeral_eq_Suc)
    then show ?thesis using True p by (simp add: s4_def s1_def)
  qed
qed


definition ex_assurance :: "leg list" where
  "ex_assurance =
    [\<lparr>lg_reference = 5,
       lg_request = [50,7,0,0,0,5,0,8,0,8, 0,1,18,4,17,68,1,0, 255,9,0,4,4,36,0,0],
       lg_response = [50,7,0,0,0,5,0,12,0,10, 0,1,18,8,18,132,1,255,81,1,0,0, 255,9,0,6,4,36,0,0,0,2]\<rparr>,
     \<lparr>lg_reference = 6,
       lg_request = [50,7,0,0,0,6,0,12,0,4, 0,1,18,8,18,68,1,255,0,0,0,0, 10,0,0,0],
       lg_response = [50,7,0,0,0,6,0,12,0,7, 0,1,18,8,18,132,1,1,82,1,0,0, 255,9,0,3,0,4,1]\<rparr>]"

theorem assurance_replies_judged_witness:
  "\<exists>s. cont_run 4 1 2 0 ex_assurance cont_init = Inr s \<and> ct_failure s = Some (ProtocolError, 1)"
proof -
  have "assurance_legs ''szl'' ''changed-unit'' 4 1 ex_assurance" by code_simp
  moreover have "\<not> conforming ''changed-unit''" "length ex_assurance = 2" by (simp_all add: conforming_def ex_assurance_def)
  ultimately show ?thesis
    using assurance_replies_judged[of "''szl''" 4 1 "''changed-unit''" ex_assurance]
    by (simp add: opaque_services_eq assurance_scenarios_def)
qed

end
