(* ===== verification/Stubs.thy ===== *)
theory Stubs
  imports Wireshark Assurance Benches "HOL-Library.List_Lexorder" "HOL-Library.Char_ord"
begin

text \<open>
  The recording stubs the official native client is pointed at: \<^verbatim>\<open>native_client_requests.py\<close> (first requests and the
  follow-ups of scripted fragments) and \<^verbatim>\<open>native_client_chunks.py\<close> (all requests of a chunked transfer), and what becomes of
  the recorded octets. The client library itself is outside; what it sends is the script of the connection.
\<close>

section \<open>Frames\<close>

text \<open>\<^verbatim>\<open>_read_frame\<close>: the end of the stream is \<open>None\<close>, and nothing but the length of the header is looked at.\<close>

function read_octets :: "nat \<Rightarrow> (net, bytes option) prog" where
  "read_octets n s =
     (if n = 0 then (Inr (Some []), s)
      else case recv n s of
        (Inl e, t) \<Rightarrow> (Inl e, t)
      | (Inr chunk, t) \<Rightarrow>
          if chunk = [] then (Inr None, t)
          else case read_octets (n - length chunk) t of
                 (Inl e, u) \<Rightarrow> (Inl e, u)
               | (Inr None, u) \<Rightarrow> (Inr None, u)
               | (Inr (Some rest), u) \<Rightarrow> (Inr (Some (chunk @ rest)), u))"
  by pat_completeness auto

termination read_octets
  by (relation "measure (\<lambda>(n, s). n)") auto

declare read_octets.simps [simp del]

definition read_frame :: "(net, bytes option) prog" where
  "read_frame = bindM (read_octets 4) (\<lambda>r. case r of None \<Rightarrow> ret None
     | Some header \<Rightarrow> read_octets (nat (be_int (slice 2 4 header)) - 4))"

definition stub_tpkt :: "bytes \<Rightarrow> bytes result" where
  "stub_tpkt content = bindE (pack 2 (len content + 4)) (\<lambda>n. Inr ([3, 0] @ n @ content))"

definition stub_send :: "bytes \<Rightarrow> (net, unit) prog" where
  "stub_send content = bindM (liftE (stub_tpkt content)) sendall"

section \<open>Answering\<close>

definition os_error :: "exn \<Rightarrow> bool" where
  "os_error e \<longleftrightarrow> e \<in> {TimeoutError, ConnectionResetError, BrokenPipeError, OtherOSError}"

text \<open>The handshake; \<open>False\<close> is the early \<^verbatim>\<open>return\<close>.\<close>

definition stub_open :: "int \<Rightarrow> (net, bool) prog" where
  "stub_open pdu_length =
     bindM read_frame (\<lambda>r. case r of None \<Rightarrow> ret False | Some req \<Rightarrow>
     bindM (liftE (confirm req)) (\<lambda>confirmed. thenM (stub_send confirmed)
     (bindM read_frame (\<lambda>r. case r of None \<Rightarrow> ret False | Some setup_pdu \<Rightarrow>
      bindM (liftE (pack 2 pdu_length)) (\<lambda>size_field.
      thenM (stub_send (cotp_data @ [0x32, 3, 0, 0] @ slice 11 13 setup_pdu @ [0, 8, 0, 0, 0, 0] @ [0xf0, 0, 0, 1, 0, 1] @ size_field))
        (ret True))))))"

definition rereferenced :: "bytes \<Rightarrow> bytes \<Rightarrow> bytes" where
  "rereferenced resp previous = take 4 resp @ slice 4 6 previous @ drop 6 resp"

text \<open>One turn of the loop over \<^verbatim>\<open>[None, *responses]\<close>: the captured request, or \<open>None\<close> at the end of the stream.\<close>

definition stub_turn :: "bytes option \<Rightarrow> bytes list \<Rightarrow> (net, bytes option) prog" where
  "stub_turn resp captured =
     thenM (case resp of None \<Rightarrow> ret ()
       | Some r \<Rightarrow> if captured = [] then raise IndexError else stub_send (cotp_data @ rereferenced r (List.last captured)))
     (bindM read_frame (\<lambda>frame. ret (map_option (drop 3) frame)))"

text \<open>What was captured survives the errors that end the connection.\<close>

definition stub_quiet :: "'a \<Rightarrow> (net, 'a) prog \<Rightarrow> (net, 'a) prog" where
  "stub_quiet a m = catchM m (\<lambda>e. if os_error e then ret a else raise e)"

fun stub_turns :: "bytes option list \<Rightarrow> bytes list \<Rightarrow> (net, bytes list) prog" where
  "stub_turns [] captured = ret captured"
| "stub_turns (resp # responses) captured =
     bindM (stub_quiet None (stub_turn resp captured)) (\<lambda>r. case r of
       None \<Rightarrow> ret captured
     | Some pdu \<Rightarrow> stub_turns responses (captured @ [pdu]))"

definition stub_session :: "(net, bytes list) prog \<Rightarrow> (net, bytes list) prog" where
  "stub_session body =
     bindM (stub_quiet False (thenM accept (ret True))) (\<lambda>accepted. if accepted then with_connection body else ret [])"

definition requests_serve :: "bytes list \<Rightarrow> (net, bytes list) prog" where
  "requests_serve responses = stub_session
     (bindM (stub_quiet False (stub_open 480)) (\<lambda>ready. if ready then stub_turns (None # List.map Some responses) [] else ret []))"

section \<open>Chunked transfers\<close>

definition word_width :: "byte \<Rightarrow> int" where
  "word_width w = (case map_of [(1, 1), (2, 1), (4, 2), (6, 4), (0x1c, 2), (0x1d, 2)] w of None \<Rightarrow> 1 | Some n \<Rightarrow> n)"

text \<open>\<^verbatim>\<open>struct.unpack(">H", ..)\<close> raises on a short slice.\<close>

definition unpack_2 :: "bytes \<Rightarrow> int result" where
  "unpack_2 bs = (if length bs = 2 then Inr (be_int bs) else Inl StructError)"

definition chunk_entry :: "bytes \<Rightarrow> nat \<Rightarrow> bytes result" where
  "chunk_entry pdu index =
     (let item = slice (12 + 12 * index) (24 + 12 * index) pdu in
      bindE (at item 3) (\<lambda>w. bindE (unpack_2 (slice 4 6 item)) (\<lambda>n. let size' = n * word_width w in
      bindE (pack 2 size') (\<lambda>size_field. Inr ([0xff, 9] @ size_field @ replicate (nat size') 0)))))"

definition chunk_answer :: "bytes \<Rightarrow> bytes option result" where
  "chunk_answer pdu =
     bindE (at pdu 10) (\<lambda>function. bindE (at pdu 11) (\<lambda>items.
     bindE (if function = 4 then bindE (concatE (List.map (chunk_entry pdu) [0..<nat (uint items)])) (\<lambda>data. Inr (Some data))
            else if function = 5 then Inr (Some (replicate (nat (uint items)) 0xff)) else Inr None) (\<lambda>r. case r of
       None \<Rightarrow> Inr None
     | Some data \<Rightarrow> bindE (pack 2 2) (\<lambda>p. bindE (pack 2 (len data)) (\<lambda>d.
         Inr (Some ([0x32, 3, 0, 0] @ slice 4 6 pdu @ p @ d @ [0, 0] @ [function, items] @ data)))))))"

text \<open>\<^verbatim>\<open>while (frame := _read_frame(connection)) is not None\<close>; each turn takes a header off the stream. The value \<open>False\<close> ends it.\<close>

definition chunk_reply :: "bytes \<Rightarrow> (net, bool) prog" where
  "chunk_reply pdu =
     bindM (liftE (chunk_answer pdu)) (\<lambda>r. case r of None \<Rightarrow> ret False | Some out \<Rightarrow> thenM (stub_send (cotp_data @ out)) (ret True))"

definition chunk_quiet :: "'a \<Rightarrow> (net, 'a) prog \<Rightarrow> (net, 'a) prog" where
  "chunk_quiet a m = catchM m (\<lambda>e. if os_error e \<or> e = IndexError then ret a else raise e)"

definition chunk_turn :: "(net, (bytes \<times> bool) option) prog" where
  "chunk_turn =
     bindM (chunk_quiet None read_frame) (\<lambda>r. case r of None \<Rightarrow> ret None
     | Some frame \<Rightarrow> bindM (chunk_quiet False (chunk_reply (drop 3 frame))) (\<lambda>again. ret (Some (drop 3 frame, again))))"

text \<open>It is the peers' receive loop, except that the end of the stream is no error.\<close>

definition at_eof :: "bytes result \<Rightarrow> bytes option result" where
  "at_eof r = (case r of Inr bs \<Rightarrow> Inr (Some bs) | Inl e \<Rightarrow> if e = RuntimeError ''eof'' then Inr None else Inl e)"

lemma recv_no_eof: "recv n s = (Inl e, t) \<Longrightarrow> e \<noteq> RuntimeError msg"
proof -
  have "arrive n xs = (Inl e, ys) \<Longrightarrow> e \<noteq> RuntimeError msg" for xs ys
    by (induction n xs rule: arrive.induct) (auto split: if_splits)
  then show "recv n s = (Inl e, t) \<Longrightarrow> e \<noteq> RuntimeError msg" by (auto simp: recv_def split: prod.splits)
qed

lemma read_octets_exact: "read_octets n s = (at_eof (fst (exact ''eof'' n s)), snd (exact ''eof'' n s))"
proof (induction n s rule: read_octets.induct)
  case (1 n s)
  show ?case
  proof (cases "n = 0")
    case False
    obtain q t where rc: "recv n s = (q, t)" by fastforce
    show ?thesis
    proof (cases q)
      case (Inl e)
      then show ?thesis using False rc recv_no_eof[of n s e t] by (simp add: read_octets.simps[of n s] exact.simps[of _ n s] at_eof_def)
    next
      case (Inr c)
      show ?thesis
      proof (cases "c = []")
        case nonempty: False
        obtain r u where ex: "exact ''eof'' (n - length c) t = (r, u)" by fastforce
        have "read_octets (n - length c) t = (at_eof r, u)" using 1[OF False rc[symmetric] Inr nonempty] ex by simp
        then show ?thesis using False rc Inr nonempty ex
          by (cases r) (auto simp: read_octets.simps[of n s] exact.simps[of _ n s] at_eof_def)
      qed (use False rc Inr in \<open>simp add: read_octets.simps[of n s] exact.simps[of _ n s] at_eof_def\<close>)
    qed
  qed (simp add: read_octets.simps[of 0] exact.simps[of _ 0] at_eof_def)
qed

lemma seamless_read_octets [stream_intros]: "seamless (read_octets n)"
  using seamless_exact[of "''eof''" n] by (simp add: seamless_def read_octets_exact)

lemma read_octets_pull: "read_octets n s = (r, t) \<Longrightarrow> \<exists>q. r = at_eof q \<and> pull ''eof'' n (flat (rx s)) = (q, flat (rx t)) \<and> t = s\<lparr>rx := rx t\<rparr>"
  using exact_pull[of "''eof''" n s] by (cases "exact ''eof'' n s") (auto simp: read_octets_exact)

lemma pull_length: "pull msg n xs = (r, ys) \<Longrightarrow> length ys \<le> length xs"
  by (induction msg n xs arbitrary: r ys rule: pull.induct) (auto split: prod.splits sum.splits simp: le_SucI)

lemma eats_read_frame:
  "read_frame s = (Inr (Some f), t) \<Longrightarrow> length (flat (rx t)) < length (flat (rx s))"
proof -
  assume r: "read_frame s = (Inr (Some f), t)"
  then obtain h u where h: "read_octets 4 s = (Inr (Some h), u)" "read_octets (nat (be_int (slice 2 4 h)) - 4) u = (Inr (Some f), t)"
    unfolding read_frame_def bindM_Inr by (auto simp: ret_def split: option.splits)
  obtain q where "at_eof q = Inr (Some h)" "pull ''eof'' 4 (flat (rx s)) = (q, flat (rx u))" using read_octets_pull[OF h(1)] by auto
  then have "pull ''eof'' 4 (flat (rx s)) = (Inr h, flat (rx u))" by (auto simp: at_eof_def split: sum.splits if_splits)
  then have "length (flat (rx s)) = 4 + length (flat (rx u))" by (simp add: pull_Inr_iff)
  moreover have "length (flat (rx t)) \<le> length (flat (rx u))" using read_octets_pull[OF h(2)] pull_length by blast
  ultimately show "length (flat (rx t)) < length (flat (rx s))" by simp
qed

lemma eats_chunk_turn: "chunk_turn s = (Inr (Some x), t) \<Longrightarrow> length (flat (rx t)) < length (flat (rx s))"
proof -
  assume r: "chunk_turn s = (Inr (Some x), t)"
  obtain frame again u where f: "chunk_quiet None read_frame s = (Inr (Some frame), u)" "chunk_quiet False (chunk_reply (drop 3 frame)) u = (Inr again, t)"
    using r unfolding chunk_turn_def bindM_Inr by (auto simp: ret_def bindM_Inr split: option.splits)
  have "read_frame s = (Inr (Some frame), u)"
    using f(1) unfolding chunk_quiet_def catchM_Inr_iff by (auto simp: ret_def raise_def split: if_splits)
  moreover have "rx t = rx u"
    using f(2) unfolding chunk_quiet_def chunk_reply_def stub_send_def
    by (auto simp: prog_defs sendall_def split: prod.splits sum.splits option.splits list.splits bool.splits if_splits)
  ultimately show ?thesis using eats_read_frame by simp
qed

function chunk_loop :: "bytes list \<Rightarrow> (net, bytes list) prog" where
  "chunk_loop captured s =
     (case chunk_turn s of
        (Inl e, t) \<Rightarrow> (Inl e, t)
      | (Inr None, t) \<Rightarrow> (Inr captured, t)
      | (Inr (Some (pdu, again)), t) \<Rightarrow> if again then chunk_loop (captured @ [pdu]) t else (Inr (captured @ [pdu]), t))"
  by pat_completeness auto

termination chunk_loop
  by (relation "measure (\<lambda>(captured, s). length (flat (rx s)))") (auto, metis eats_chunk_turn)

declare chunk_loop.simps [simp del]

definition chunks_serve :: "int \<Rightarrow> (net, bytes list) prog" where
  "chunks_serve pdu_length = stub_session
     (bindM (chunk_quiet False (stub_open pdu_length)) (\<lambda>ready. if ready then chunk_loop [] else ret []))"

section \<open>What is recorded\<close>

definition chunk_areas :: "(byte \<times> string) list" where
  "chunk_areas = [(0x1c, ''counters''), (0x1d, ''timers''), (0x83, ''markers''), (0x84, ''data-blocks'')]"

definition describe :: "bytes \<Rightarrow> json result" where
  "describe pdu =
     (let item = slice 12 24 pdu in
      bindE (at pdu 10) (\<lambda>function. bindE (at item 8) (\<lambda>area. bindE (case map_of chunk_areas area of None \<Rightarrow> Inl KeyError | Some a \<Rightarrow> Inr a) (\<lambda>named.
      bindE (unpack_2 (slice 6 8 item)) (\<lambda>db. bindE (at item 3) (\<lambda>w. bindE (unpack_2 (slice 4 6 item)) (\<lambda>amount.
        Inr (JObj [(''function'', JInt (uint function)), (''area'', jtext named), (''db'', JInt db), (''word_length'', JInt (uint w)),
          (''count'', JInt amount), (''wire_address'', JInt (be_int (slice 9 12 item)))]))))))))"

text \<open>\<^verbatim>\<open>bytes.fromhex\<close>: pairs of digits, white space between them.\<close>

fun from_hex :: "ustr \<Rightarrow> bytes result" where
  "from_hex [] = Inr []"
| "from_hex (c # cs) =
     (if c \<in> set [9, 10, 11, 12, 13, 32] then from_hex cs
      else case cs of
        [] \<Rightarrow> Inl ValueError
      | d # rest \<Rightarrow> (case (digit_value 16 c, digit_value 16 d) of
            (Some h, Some l) \<Rightarrow> bindE (from_hex rest) (\<lambda>bs. Inr (byte (int (16 * h + l)) # bs))
          | _ \<Rightarrow> Inl ValueError))"

definition zero_reference :: "json \<Rightarrow> json result" where
  "zero_reference v =
     (case v of JStr s \<Rightarrow> bindE (from_hex s) (\<lambda>data. Inr (JStr (hex_text (take 4 data @ [0, 0] @ drop 6 data)))) | _ \<Rightarrow> Inl TypeError)"

definition zero_field :: "string \<Rightarrow> json \<Rightarrow> (string \<times> json) result" where
  "zero_field key entry = bindE (bindE (jget key entry) zero_reference) (\<lambda>v. Inr (key, v))"

definition normal_entry :: "string \<times> json \<Rightarrow> (string \<times> json) result" where
  "normal_entry x =
     (case x of (name, entry) \<Rightarrow>
        bindE (zero_field ''pdu'' entry) (\<lambda>p.
        bindE (only_with (has_key ''follow_up'' entry) (zero_field ''follow_up'' entry)) (\<lambda>f. Inr (name, JObj (p # f)))))"

definition normalized :: "(string \<times> json) list \<Rightarrow> json result" where
  "normalized results =
     bindE (mapE normal_entry (sort_key fst results)) (\<lambda>requests.
       Inr (JObj [(''source'', jtext ''official native Snap7 client (pinned revision), first request(s) per operation''),
         (''requests'', JObj requests)]))"

text \<open>One operation of the client: what the stub captured and what the call returned.\<close>

definition capture_entry :: "bytes list \<Rightarrow> int \<Rightarrow> json" where
  "capture_entry captured outcome =
     JObj ([(''pdu'', case captured of [] \<Rightarrow> JNull | pdu # _ \<Rightarrow> JStr (hex_text pdu))]
       @ (case captured of _ # follow # _ \<Rightarrow> [(''follow_up'', JStr (hex_text follow))] | _ \<Rightarrow> [])
       @ [(''result'', JStr (ascii ''0x'' @ hex_text (be_bytes 4 (outcome mod 2 ^ 32))))])"

definition golden_check :: "json \<Rightarrow> (string \<times> json) list \<Rightarrow> unit result" where
  "golden_check golden results = bindE (normalized results) (\<lambda>document. guardE (py_eq golden document) SystemExit)"

section \<open>Scripted fragments\<close>

definition stub_fragment :: "int \<Rightarrow> int \<Rightarrow> int \<Rightarrow> bytes \<Rightarrow> bytes result" where
  "stub_fragment grp subfunction sequence content =
     bindE (bytes_of [0, 1, 0x12, 8, 0x12, or 0x80 grp, subfunction, sequence, 0, 1, 0, 0]) (\<lambda>parameters.
     bindE (pack 2 (len content)) (\<lambda>n. let data = [0xff, 9] @ n @ content in
     bindE (concatE [Inr [0x32, 7, 0, 0, 0, 0], pack 2 (len parameters), pack 2 (len data)]) (\<lambda>head_part.
       Inr (head_part @ parameters @ data))))"

definition follow_ups :: "(string \<times> bytes result) list" where
  "follow_ups = [
     (''read-szl-0x0424-0'', stub_fragment 4 1 0x7b [4, 0x24, 0, 0, 0, 2, 0, 1, 0xaa, 0xbb]),
     (''read-szl-0x001c-3'', stub_fragment 4 1 0x7b [0, 0x1c, 0, 3, 0, 2, 0, 1, 0xaa, 0xbb]),
     (''list-blocks-of-type-DB'', stub_fragment 3 2 0x7b [0, 1, 0x22, 0, 0, 2, 0x22, 0]),
     (''list-blocks-of-type-OB'', stub_fragment 3 2 0x7b [0, 1, 0x22, 0, 0, 2, 0x22, 0])]"

section \<open>What the stubs capture\<close>

text \<open>Octets that are there are read, whatever pieces they came in.\<close>

definition reaches :: "net \<Rightarrow> item list \<Rightarrow> net \<Rightarrow> bool" where
  "reaches s xs t \<longleftrightarrow> flat (rx t) = xs \<and> faults t = faults s"

lemma read_octets_there:
  assumes "flat (rx s) = List.map B bs @ xs" "length bs = n"
  shows "\<exists>t. read_octets n s = (Inr (Some bs), t) \<and> reaches s xs t"
proof -
  obtain r t where r: "read_octets n s = (r, t)" by fastforce
  obtain q where q: "r = at_eof q" "pull ''eof'' n (flat (rx s)) = (q, flat (rx t))" "t = s\<lparr>rx := rx t\<rparr>" using read_octets_pull[OF r] by blast
  have "pull ''eof'' n (flat (rx s)) = (Inr bs, xs)" using assms by (simp add: pull_Inr_iff)
  then have "q = Inr bs" "flat (rx t) = xs" using q(2) by simp_all
  moreover have "faults t = faults s" by (subst q(3)) simp
  ultimately show ?thesis using r q(1) by (simp add: at_eof_def reaches_def)
qed

lemma stub_tpkt_bytes: "stub_tpkt p = Inr f \<Longrightarrow> f = [3, 0] @ be_bytes 2 (len p + 4) @ p \<and> len p + 4 < 65536"
  by (auto simp: stub_tpkt_def pack_def split: if_splits)

lemma read_frame_there:
  assumes "stub_tpkt p = Inr f" "flat (rx s) = List.map B f @ xs"
  shows "\<exists>t. read_frame s = (Inr (Some p), t) \<and> reaches s xs t"
proof -
  note f = stub_tpkt_bytes[OF assms(1)]
  obtain a b where ab: "be_bytes 2 (len p + 4) = [a, b]" by simp
  have size: "be_int [a, b] = len p + 4" using be_int_2[of "len p + 4"] f ab by (simp add: len_def del: be_bytes_numeral be_int_Cons)
  obtain u where u: "read_octets 4 s = (Inr (Some [3, 0, a, b]), u)" "reaches s (List.map B p @ xs) u"
    using read_octets_there[of s "[3, 0, a, b]" "List.map B p @ xs" 4] assms(2) f ab by auto
  obtain t where t: "read_octets (length p) u = (Inr (Some p), t)" "reaches u xs t"
    using read_octets_there[of u p xs "length p"] u(2) by (auto simp: reaches_def)
  have "nat (be_int (slice 2 4 [3, 0, a, b])) - 4 = length p" using size by (simp add: slice_def len_def del: be_int_Cons)
  then show ?thesis using u t by (auto simp: read_frame_def bindM_def reaches_def)
qed

lemma read_frame_end: "flat (rx s) = E Eof # xs \<Longrightarrow> \<exists>t. read_frame s = (Inr None, t)"
proof -
  assume a: "flat (rx s) = E Eof # xs"
  obtain r t where r: "read_octets 4 s = (r, t)" by fastforce
  have "(4 :: nat) = Suc 3" by simp
  then have "pull ''eof'' 4 (flat (rx s)) = (Inl (RuntimeError ''eof''), E Eof # xs)" unfolding a by (simp only: pull.simps)
  then have "r = Inr None" using read_octets_pull[OF r] by (auto simp: at_eof_def)
  then show ?thesis using r by (auto simp: read_frame_def bindM_def ret_def)
qed

lemma stub_send_there: "faults s = [] \<Longrightarrow> len p + 4 < 65536 \<Longrightarrow> \<exists>t. stub_send p s = (Inr (), t) \<and> rx t = rx s \<and> faults t = []"
  by (simp add: stub_send_def stub_tpkt_def bindM_def liftE_def sendall_def pack_def len_def)

lemma stub_turns_record:
  assumes "mapE stub_tpkt pdus = Inr fs" "flat (rx s) = List.map B (concat fs) @ E Eof # xs" "faults s = []"
    and "list_all (\<lambda>r. case r of None \<Rightarrow> True | Some r \<Rightarrow> length r \<le> 65000) rs" "captured \<noteq> [] \<or> rs = [] \<or> hd rs = None"
  shows "fst (stub_turns rs captured s) = Inr (captured @ List.map (drop 3) (take (length rs) pdus))"
  using assms
proof (induction rs arbitrary: pdus fs captured s)
  case (Cons r rs)
  have "\<exists>t. (case r of None \<Rightarrow> ret () | Some r \<Rightarrow> if captured = [] then raise IndexError
      else stub_send (cotp_data @ rereferenced r (List.last captured))) s = (Inr (), t) \<and> rx t = rx s \<and> faults t = []"
    using Cons.prems(3-5) by (cases r) (auto simp: ret_def rereferenced_def cotp_data_def len_def length_slice intro!: stub_send_there)
  then obtain t where t: "(case r of None \<Rightarrow> ret () | Some r \<Rightarrow> if captured = [] then raise IndexError
      else stub_send (cotp_data @ rereferenced r (List.last captured))) s = (Inr (), t)" "rx t = rx s" "faults t = []" by blast
  show ?case
  proof (cases pdus)
    case Nil
    then obtain u where "read_frame t = (Inr None, u)" using read_frame_end[of t xs] Cons.prems(1,2) t(2) by auto
    then show ?thesis using t(1) Nil
      by (simp add: bindM_def stub_quiet_def catchM_def stub_turn_def thenM_def ret_def)
  next
    case (Cons p ps)
    obtain f fs' where f: "fs = f # fs'" "stub_tpkt p = Inr f" "mapE stub_tpkt ps = Inr fs'" using Cons.prems(1) Cons by auto
    obtain u where u: "read_frame t = (Inr (Some p), u)" "reaches t (List.map B (concat fs') @ E Eof # xs) u"
      using read_frame_there[OF f(2), of t] Cons.prems(2) t(2) f(1) by auto
    have "fst (stub_turns rs (captured @ [drop 3 p]) u) = Inr ((captured @ [drop 3 p]) @ List.map (drop 3) (take (length rs) ps))"
      using f(3) u(2) t(3) Cons.prems(4) by (intro Cons.IH) (auto simp: reaches_def)
    then show ?thesis using t(1) u(1) Cons
      by (simp add: bindM_def stub_quiet_def catchM_def stub_turn_def thenM_def ret_def)
  qed
qed (simp add: ret_def)

lemma stub_open_there:
  assumes "stub_tpkt cr = Inr f1" "stub_tpkt setup_pdu = Inr f2" "flat (rx s) = List.map B (f1 @ f2) @ xs" "faults s = []"
    and "6 \<le> length cr" "0 \<le> n" "n < 65536"
  shows "\<exists>t. stub_open n s = (Inr True, t) \<and> flat (rx t) = xs \<and> faults t = []"
proof -
  obtain t1 where t1: "read_frame s = (Inr (Some cr), t1)" "reaches s (List.map B f2 @ xs) t1"
    using read_frame_there[OF assms(1), of s "List.map B f2 @ xs"] assms(3) by auto
  obtain confirmed where c: "confirm cr = Inr confirmed" "length confirmed = 7 + (length cr - 7)"
    using assms(5) by (auto simp: confirm_def at_def)
  have "len confirmed + 4 < 65536" using stub_tpkt_bytes[OF assms(1)] c(2) by (auto simp: len_def)
  then obtain t2 where t2: "stub_send confirmed t1 = (Inr (), t2)" "rx t2 = rx t1" "faults t2 = []"
    using stub_send_there[of t1 confirmed] t1(2) assms(4) by (auto simp: reaches_def)
  obtain t3 where t3: "read_frame t2 = (Inr (Some setup_pdu), t3)" "reaches t2 xs t3"
    using read_frame_there[OF assms(2), of t2 xs] t1(2) t2(2) by (auto simp: reaches_def)
  let ?ack = "cotp_data @ [0x32, 3, 0, 0] @ slice 11 13 setup_pdu @ [0, 8, 0, 0, 0, 0] @ [0xf0, 0, 0, 1, 0, 1] @ be_bytes 2 n"
  have "len ?ack + 4 < 65536" by (simp add: len_def cotp_data_def length_slice)
  then obtain t4 where "stub_send ?ack t3 = (Inr (), t4)" "rx t4 = rx t3" "faults t4 = []"
    using stub_send_there[of t3 ?ack] t3(2) t2(3) by (auto simp: reaches_def)
  then show ?thesis using t1(1) c(1) t2(1) t3 assms(6,7)
    by (simp add: stub_open_def bindM_def thenM_def liftE_def pack_def ret_def reaches_def del: be_bytes_numeral)
qed

lemma stub_session_run:
  "fst (stub_session body (start (script # rest))) = fst (body (log_io Accepted ((start (script # rest))\<lparr>backlog := rest, rx := script, handles := 1\<rparr>)))"
  by (auto simp: stub_session_def stub_quiet_def catchM_def thenM_def bindM_def accept_def start_def ret_def with_connection_def finallyM_def
      close_def split: prod.splits sum.splits)

text \<open>C40: The recording stub captures what the client sent. Against a client that opens a connection, sets it up and sends any requests
  before it closes, cut into segments in any way, the stub completes the handshake and records the requests in order, the first and one
  after each scripted fragment, and nothing else.\<close>
theorem stub_records_requests:
  assumes "mapE stub_tpkt (cr # setup_pdu # pdus) = Inr fs" and "flat script = List.map B (concat fs) @ E Eof # xs"
    and "6 \<le> length cr" and "list_all (\<lambda>r. length r \<le> 65000) responses"
  shows "fst (requests_serve responses (start [script])) = Inr (List.map (drop 3) (take (Suc (length responses)) pdus))"
proof -
  obtain f1 f2 fs' where f: "stub_tpkt cr = Inr f1" "stub_tpkt setup_pdu = Inr f2" "mapE stub_tpkt pdus = Inr fs'" "fs = f1 # f2 # fs'"
    using assms(1) by auto
  let ?s = "log_io Accepted ((start [script])\<lparr>backlog := [], rx := script, handles := 1\<rparr>)"
  have "flat (rx ?s) = List.map B (f1 @ f2) @ List.map B (concat fs') @ E Eof # xs" "faults ?s = []"
    using assms(2) f(4) by (simp_all add: start_def)
  then obtain t where t: "stub_open 480 ?s = (Inr True, t)" "flat (rx t) = List.map B (concat fs') @ E Eof # xs" "faults t = []"
    using stub_open_there[OF f(1,2) _ _ assms(3), of ?s _ 480] by auto
  have "fst (stub_turns (None # List.map Some responses) [] t) = Inr ([] @ List.map (drop 3) (take (length (None # List.map Some responses)) pdus))"
    by (rule stub_turns_record[OF f(3) t(2,3)]) (use assms(4) in \<open>simp_all add: list_all_iff\<close>)
  then show ?thesis
    using t(1) unfolding requests_serve_def stub_session_run by (simp add: bindM_def stub_quiet_def catchM_def del: stub_turns.simps)
qed

lemma chunk_loop_records:
  assumes "mapE stub_tpkt pdus = Inr fs" "flat (rx s) = List.map B (concat fs) @ E Eof # xs" "faults s = []"
    and "list_all (\<lambda>p. \<exists>out. chunk_answer (drop 3 p) = Inr (Some out) \<and> len out \<le> 65528) pdus"
  shows "fst (chunk_loop captured s) = Inr (captured @ List.map (drop 3) pdus)"
  using assms
proof (induction pdus arbitrary: fs captured s)
  case Nil
  then obtain t where "read_frame s = (Inr None, t)" using read_frame_end[of s xs] by auto
  then have "chunk_turn s = (Inr None, t)" by (simp add: chunk_turn_def chunk_quiet_def catchM_def bindM_def ret_def)
  then show ?case by (subst chunk_loop.simps) simp
next
  case (Cons p ps)
  obtain f fs' where f: "fs = f # fs'" "stub_tpkt p = Inr f" "mapE stub_tpkt ps = Inr fs'" using Cons.prems(1) by auto
  obtain u where u: "read_frame s = (Inr (Some p), u)" "reaches s (List.map B (concat fs') @ E Eof # xs) u"
    using read_frame_there[OF f(2), of s] Cons.prems(2) f(1) by auto
  obtain out where out: "chunk_answer (drop 3 p) = Inr (Some out)" "len out \<le> 65528" using Cons.prems(4) by auto
  have "len (cotp_data @ out) + 4 < 65536" using out(2) by (simp add: cotp_data_def len_def)
  then obtain v where v: "stub_send (cotp_data @ out) u = (Inr (), v)" "rx v = rx u" "faults v = []"
    using stub_send_there[of u "cotp_data @ out"] u(2) Cons.prems(3) by (auto simp: reaches_def)
  have "chunk_turn s = (Inr (Some (drop 3 p, True)), v)"
    using u(1) v(1) out(1) by (simp add: chunk_turn_def chunk_reply_def chunk_quiet_def catchM_def thenM_def bindM_def liftE_def ret_def)
  moreover have "fst (chunk_loop (captured @ [drop 3 p]) v) = Inr ((captured @ [drop 3 p]) @ List.map (drop 3) ps)"
    by (rule Cons.IH[OF f(3)]) (use u(2) v(2,3) Cons.prems(4) in \<open>auto simp: reaches_def\<close>)
  ultimately show ?case by (subst chunk_loop.simps) simp
qed

section \<open>The fragments continue\<close>

text \<open>A scripted fragment, given the reference of the request before it, is a reply the management oracle accepts as one that
  announces more, with its token: so what the client sends next is its continuation request.\<close>

lemma fragment_continues:
  assumes "stub_fragment grp subfunction sequence content = Inr f" "6 \<le> length previous" "0 \<le> grp" "grp < 16" "length content < 1000"
  shows "mgmt_decode (rereferenced f previous) (reference_of previous) grp subfunction
    = Accept \<lparr>rb_payload = content, rb_sequence = byte sequence, rb_unit = 0, rb_more = True, rb_code = 255, rb_transport = 9\<rparr>"
proof -
  let ?r = "reference_of previous"
  have two: "length (slice 4 6 previous) = 2" using assms(2) by (simp add: length_slice)
  have r: "0 \<le> ?r" "?r < 65536" "be_bytes 2 ?r = slice 4 6 previous"
    using be_int_nonneg be_int_bound[of "slice 4 6 previous"] be_bytes_be_int[of "slice 4 6 previous"] two by (simp_all add: reference_of_def)
  obtain parameters where p: "bytes_of [0, 1, 0x12, 8, 0x12, or 0x80 grp, subfunction, sequence, 0, 1, 0, 0] = Inr parameters"
    and f: "f = [0x32, 7, 0, 0, 0, 0] @ be_bytes 2 (len parameters) @ be_bytes 2 (4 + len content) @ parameters @ [0xff, 9] @ be_bytes 2 (len content) @ content"
    using assms(1,5) by (auto simp: stub_fragment_def Let_def pack_def len_def simp del: be_bytes_numeral split: if_splits)
  have lp: "length parameters = 12" using p by (auto simp: bytes_of_Inr_iff dest: arg_cong[of _ _ length])
  have octets: "octet_of subfunction" "octet_of sequence" using p by (auto simp: bytes_of_Inr_iff octet_of_def)
  define data where "data = [0xff, 9] @ be_bytes 2 (len content) @ content"
  have ff: "bytes_of [0xff, 9] = Inr [0xff, 9]" by (simp add: bytes_of_Inr_iff byte_def)
  have "packet 7 ?r parameters data = Inr (byte 0x32 # byte 7 # 0 # 0 # be_bytes 2 ?r @ be_bytes 2 (len parameters) @ be_bytes 2 (len data) @ parameters @ data)"
    using packet_ok[of 7 ?r parameters data] r lp assms(5) by (simp add: data_def len_def del: be_bytes_numeral)
  moreover have "len data = 4 + len content" by (simp add: data_def len_def)
  ultimately have "ud_reply ?r grp subfunction sequence 0 1 content 9 255 = Inr (rereferenced f previous)"
    using p ff assms(5) unfolding ud_reply_def f rereferenced_def r(3)
    by (simp add: data_def len_def byte_def del: be_bytes_numeral)
  from ud_reply_judged[OF r(1,2) assms(3,4,5) _ this, of ?r grp subfunction] show ?thesis using octets by (simp add: octet_of_def)
qed

section \<open>What the golden file compares\<close>

lemma digit_value_hex: "d < 16 \<Longrightarrow> digit_value 16 (hex_digit d) = Some d"
  by (auto simp: digit_value_def hex_digit_def is_digit_def Let_def)

lemma hex_digit_printable: "d < 16 \<Longrightarrow> hex_digit d \<notin> set [9, 10, 11, 12, 13, 32]"
  by (auto simp: hex_digit_def)

lemma from_hex_text: "from_hex (hex_text bs) = Inr bs"
proof (induction bs)
  case (Cons b bs)
  have "unat b < 256" using unsigned_less[of b, where 'a = nat] by simp
  then have u: "unat b div 16 < 16" "unat b mod 16 < 16" by auto
  have "16 * (unat b div 16) + unat b mod 16 = unat b" by simp
  then have "byte (int (16 * (unat b div 16) + unat b mod 16)) = b" by (simp add: byte_def)
  then show ?case using Cons u hex_digit_printable[of "unat b div 16"]
    by (simp add: hex_text_def hex2_def digit_value_hex del: of_nat_add of_nat_mult)
qed (simp add: hex_text_def)

lemma hex_text_inject: "hex_text a = hex_text b \<longleftrightarrow> a = b"
  using from_hex_text by (metis sum.inject(2))

text \<open>The golden file forgets the reference of a request and nothing else of it.\<close>

lemma zero_reference_iff:
  assumes "6 \<le> length a" "6 \<le> length b"
  shows "zero_reference (JStr (hex_text a)) = zero_reference (JStr (hex_text b)) \<longleftrightarrow> take 4 a = take 4 b \<and> drop 6 a = drop 6 b"
  using assms by (auto simp: zero_reference_def from_hex_text hex_text_inject)

section \<open>An example\<close>

definition ex_recorded :: "bytes list" where
  "ex_recorded = [[6, 0xe0, 0, 0, 0, 1, 0], cotp_data @ [0x32, 1, 0, 0, 0, 1, 0, 8, 0, 0, 0xf0, 0, 0, 1, 0, 1, 1, 0xe0], cotp_data @ [1, 2, 3, 4, 5, 6],
     cotp_data @ [7, 8]]"

theorem stub_records_requests_witness:
  "\<exists>fs. fst (requests_serve [] (start [[Chunk (concat fs), Eof]])) = Inr [[1, 2, 3, 4, 5, 6]]"
proof -
  have "mapE stub_tpkt ex_recorded \<noteq> Inl e" for e
    by (simp add: ex_recorded_def stub_tpkt_def pack_def len_def cotp_data_def)
  then obtain fs where "mapE stub_tpkt ex_recorded = Inr fs" by (cases "mapE stub_tpkt ex_recorded") auto
  from stub_records_requests[OF this[unfolded ex_recorded_def], of "[Chunk (concat fs), Eof]" "[]" "[]"]
  show ?thesis by (intro exI[of _ fs]) (simp add: cotp_data_def)
qed

end
