(* ===== verification/Streams.thy ===== *)
theory Streams
  imports Faults Mixed Queued Concurrent Retries Services Benches Stubs
begin

text \<open>
  TCP delivers a stream: nothing a peer does may depend on how the client's octets were cut into segments. Each emulated
  peer is shown to be such a program, from the rules of \<^verbatim>\<open>Sockets\<close> for its parts, and the claim at the end collects them all.
  The peers that take what they find in pieces of any size need more: the one that drains the stream (\<^verbatim>\<open>_serve_transport_case\<close> of
  \<^verbatim>\<open>run.py\<close>) comes to the same place whatever the pieces were, and those that stop in the middle close their connection next.
\<close>

section \<open>The fault peers\<close>

lemma seamless_serving [stream_intros]: "seamless m \<Longrightarrow> seamless (serving m)"
  unfolding serving_def by (intro stream_intros)

lemma seamless_confirm_and_setup [stream_intros]: "seamless (confirm_and_setup n)"
  unfolding confirm_and_setup_def by (intro stream_intros)

lemma seamless_with_session [stream_intros]: "seamless m \<Longrightarrow> seamless (with_session n m)"
  unfolding with_session_def by (intro stream_intros)

lemma seamless_expect_disconnect [stream_intros]: "seamless (expect_disconnect msg)"
  unfolding expect_disconnect_def by (intro stream_intros)

lemma seamless_handshake_rejection: "seamless (serve_handshake_rejection mode)"
  unfolding serve_handshake_rejection_def by (intro stream_intros)

lemma seamless_serve_szl_error [stream_intros]: "seamless (serve_szl_error reference)"
  unfolding serve_szl_error_def by (intro stream_intros)

lemma seamless_serve_endless [stream_intros]: "seamless (serve_endless reference)"
  unfolding serve_endless_def by (intro stream_intros)

lemma seamless_serve_upload [stream_intros]: "seamless (serve_upload mode reference)"
  unfolding serve_upload_def upload_midstream_def case_prod_unfold Let_def by (intro stream_intros)

lemma seamless_service_rejection: "seamless (serve_service_rejection mode)"
  unfolding serve_service_rejection_def Let_def by (intro stream_intros)

lemma seamless_reconnects:
  "seamless serve_reconnect_shrink" "seamless serve_reconnect_recovery" "seamless serve_reference_wrap"
  "seamless serve_interrupted_userdata"
  unfolding serve_reconnect_shrink_def serve_reconnect_recovery_def serve_reference_wrap_def
    serve_interrupted_userdata_def case_prod_unfold Let_def by (intro stream_intros)+

lemma seamless_classic_handshake [stream_intros]: "seamless (classic_handshake n)"
  unfolding classic_handshake_def by (intro stream_intros)

lemma seamless_download_loop [stream_intros]: "seamless (download_loop pdu_length amount received fragment)"
proof (induction pdu_length amount received fragment rule: download_loop.induct)
  case (1 pdu_length amount received fragment)
  show ?case
  proof (cases "len received < amount")
    case True
    with 1 show ?thesis
      by (subst download_loop.simps) (auto intro!: stream_intros split: sum.splits)
  qed (simp add: download_loop.simps stream_intros)
qed

lemma seamless_phase_loop [stream_intros]: "seamless (phase_loop received fragment)"
proof (induction received fragment rule: phase_loop.induct)
  case (1 received fragment)
  show ?case
  proof (cases "length received < 636")
    case True
    with 1 show ?thesis
      by (subst phase_loop.simps) (auto intro!: stream_intros split: sum.splits)
  qed (simp add: phase_loop.simps stream_intros)
qed

lemma seamless_expect_download_rejection [stream_intros]: "seamless expect_download_rejection"
  unfolding expect_download_rejection_def by (intro stream_intros)

lemma seamless_downloads:
  "seamless (serve_plc_driven_download expected n)" "seamless serve_interrupted_download"
  "seamless (serve_download_rejection mutation)"
  unfolding serve_plc_driven_download_def serve_interrupted_download_def serve_download_rejection_def
    serve_invalid_download_phase_def serve_malformed_download_service_def case_prod_unfold Let_def
  by (intro stream_intros)+

lemma seamless_segmented: "seamless serve_segmented_responses"
  unfolding serve_segmented_responses_def by (intro stream_intros)

section \<open>The memory peers\<close>

lemma seamless_staged [stream_intros]: "seamless m \<Longrightarrow> seamless (staged l m)"
  unfolding staged_def by (intro stream_intros)

lemma seamless_bindS [stream_intros]: "seamless m \<Longrightarrow> (\<And>a. seamless (f a)) \<Longrightarrow> seamless (bindS m f)"
  unfolding bindS_def by (intro stream_intros)

lemma seamless_errors_of [stream_intros]: "seamless m \<Longrightarrow> seamless (errors_of m)"
  unfolding errors_of_def by (intro stream_intros)

lemma seamless_overlap_read [stream_intros]: "seamless (overlap_read memory offset size' pdu)"
  unfolding overlap_read_def case_prod_unfold Let_def by (intro stream_intros)

lemma seamless_overlap_write [stream_intros]: "seamless (overlap_write memory offset values' pdu)"
  unfolding overlap_write_def overlap_write_chunk_def case_prod_unfold Let_def by (intro stream_intros)

lemma seamless_overlap_perform [stream_intros]: "seamless (overlap_perform pdu op' memory)"
  unfolding overlap_perform_def case_prod_unfold Let_def by (intro stream_intros)

lemma seamless_overlap_run [stream_intros]: "seamless (overlap_run pdu operations memory)"
  by (induction operations arbitrary: memory) (auto intro!: stream_intros)

lemma seamless_overlap_serve: "seamless (overlap_serve pdu operations)"
  unfolding overlap_serve_def by (intro stream_intros)

section \<open>The retry peers\<close>

lemma seamless_retry_serve: "seamless (retry_serve mode budget drops)"
  unfolding retry_serve_def retry_attempt_def case_prod_unfold Let_def by (intro stream_intros)

lemma seamless_reconnect [stream_intros]: "seamless (reconnect fault)"
  unfolding reconnect_def by (intro stream_intros)

lemma seamless_reconnect_serve: "seamless (reconnect_serve c)"
  unfolding reconnect_serve_def lost_operation_def reconnect_session_def case_prod_unfold Let_def by (intro stream_intros)

section \<open>The slow peers\<close>

lemma seamless_dl_receive [stream_intros]: "seamless dl_receive" "seamless dl_request"
  unfolding dl_request_def dl_receive_def by (intro stream_intros)+

lemma seamless_dl_waits [stream_intros]: "seamless dl_next" "seamless dl_hangup" "seamless dl_delay"
  unfolding dl_next_def dl_delay_def dl_hangup_def by (intro stream_intros)+

lemma seamless_on_request [stream_intros]: "(\<And>req. seamless (k req)) \<Longrightarrow> seamless (on_request k)"
  unfolding on_request_def by (intro stream_intros)

lemma seamless_after_delay [stream_intros]: "seamless m \<Longrightarrow> seamless (after_delay m)"
  unfolding after_delay_def by (intro stream_intros)

lemma seamless_send_then [stream_intros]: "seamless (send_then p)"
  unfolding send_then_def by (intro stream_intros)

lemma seamless_dl_setup [stream_intros]: "seamless (dl_setup bs)"
  unfolding dl_setup_def by (intro stream_intros)

lemma seamless_steps [stream_intros]:
  "(\<And>m. m \<in> set ms \<Longrightarrow> seamless m) \<Longrightarrow> seamless final \<Longrightarrow> seamless (steps_then ms final)"
  by (induction ms) (simp_all add: stream_intros)

lemma seamless_transfer_serve: "seamless (transfer_serve operation no_request)"
proof -
  have "seamless m" if "m \<in> set ([transfer_start operation] @ List.map (transfer_round operation) [0..<4] @ [transfer_end operation])" for m
    using that unfolding transfer_start_def transfer_round_def transfer_end_def by (auto intro!: stream_intros)
  then show ?thesis
    unfolding transfer_serve_def transfer_conversation_def by (intro stream_intros)
qed

lemma seamless_ext_session [stream_intros]: "seamless m \<Longrightarrow> seamless (ext_session m)"
  unfolding ext_session_def by (intro stream_intros)

lemma seamless_ext_download_loop [stream_intros]: "seamless (ext_download_loop received reference)"
proof (induction received reference rule: ext_download_loop.induct)
  case (1 received reference)
  show ?case
  proof (cases "len received < 1000")
    case True
    with 1 show ?thesis
      by (subst ext_download_loop.simps) (auto intro!: stream_intros split: sum.splits)
  qed (simp add: ext_download_loop.simps stream_intros)
qed

lemma seamless_ext_download [stream_intros]: "seamless ext_download"
  unfolding ext_download_def ext_download_start_def ext_download_end_def steps_then.simps case_prod_unfold by (intro stream_intros)

lemma seamless_mem_round: "seamless (mem_round operation interval done_octets amnt)"
  unfolding mem_round_def case_prod_unfold by (intro stream_intros)

lemma seamless_mem_loop [stream_intros]: "seamless (mem_loop operation interval done_octets amnt)"
proof (rule seamlessI)
  fix s t
  assume "sim s t"
  then show "fst (mem_loop operation interval done_octets amnt s) = fst (mem_loop operation interval done_octets amnt t)
      \<and> sim (snd (mem_loop operation interval done_octets amnt s)) (snd (mem_loop operation interval done_octets amnt t))"
  proof (induction operation interval done_octets amnt s arbitrary: t rule: mem_loop.induct)
    case (1 operation interval done_octets amnt s)
    show ?case
    proof (cases "done_octets < mem_total operation")
      case False
      then show ?thesis using 1(2) by (simp add: mem_loop.simps)
    next
      case True
      obtain q u q' v where m: "mem_round operation interval done_octets amnt s = (q, u)" "mem_round operation interval done_octets amnt t = (q', v)"
        by fastforce
      note d = seamlessD[OF seamless_mem_round 1(2) m]
      show ?thesis
      proof (cases q)
        case (Inr o')
        show ?thesis
        proof (cases o')
          case (Some x)
          obtain c a where x: "x = (c, a)" by fastforce
          have "fst (mem_loop operation interval c a u) = fst (mem_loop operation interval c a v)
              \<and> sim (snd (mem_loop operation interval c a u)) (snd (mem_loop operation interval c a v))"
            by (rule 1(1)[OF True]) (use m d Inr Some x in auto)
          then show ?thesis using True m d Inr Some x by (simp add: mem_loop.simps[of _ _ done_octets])
        qed (use True m d Inr in \<open>simp add: mem_loop.simps\<close>)
      qed (use True m d in \<open>simp add: mem_loop.simps\<close>)
    qed
  qed
qed

lemma seamless_ext_serve: "seamless (ext_serve operation interval zero)"
  unfolding ext_serve_def ext_first_connection_def ext_transfer_def ext_memory_def late_connection_def steps_then.simps
  by (intro stream_intros)

lemma seamless_collects_narrow [stream_intros]: "seamless m \<Longrightarrow> seamless (collects_narrow m)"
  unfolding collects_narrow_def by (intro stream_intros)

lemma seamless_fault_serve: "seamless (fault_serve operation phase mutation)"
  unfolding fault_serve_def fault_conversation_def fault_round_def fault_cleanup_def Let_def by (intro stream_intros)

lemma seamless_progress_serve: "seamless (progress_serve mode)"
  unfolding progress_serve_def progress_conversation_def rejected_setup_def replayed_def by (intro stream_intros)

lemma seamless_cleanup_serve: "seamless (cleanup_serve mode)"
  unfolding cleanup_serve_def cleanup_connection_def closed_quietly_def by (intro stream_intros)

lemma seamless_prov_serve: "seamless (prov_serve mode pdu)"
  unfolding prov_serve_def prov_duplicates_def prov_long_def prov_chunk_def prov_exchange_def prov_reply_def prov_marker_def
    prov_hangup_def case_prod_unfold Let_def
  by (intro stream_intros)

section \<open>The service peers\<close>

lemma seamless_comp_serve: "seamless (comp_serve service mode)"
  unfolding comp_serve_def by (intro stream_intros)

lemma seamless_budget_serve: "seamless (budget_serve mode position)"
  unfolding budget_serve_def budget_conversation_def budget_confirm_def budget_closed_def budget_disconnect_def by (intro stream_intros)

lemma seamless_co_disconnect [stream_intros]: "seamless co_disconnect"
  unfolding co_disconnect_def by (intro stream_intros)

lemma seamless_co_bits [stream_intros]: "seamless (co_bits mode first)"
  unfolding co_bits_def bit_round_def by (intro stream_intros)

lemma seamless_co_strings [stream_intros]: "seamless (co_strings mode first)"
  unfolding co_strings_def co_chunk_def co_competing_def case_prod_unfold Let_def by (intro stream_intros)

lemma seamless_co_serve: "seamless (co_serve mode)"
  unfolding co_serve_def co_conversation_def co_barrier_def by (intro stream_intros)

lemma seamless_sem_serve: "seamless (sem_serve mode pdu)"
  unfolding sem_serve_def sem_conversation_def by (intro stream_intros)

text \<open>The USER_DATA peer stops reading in the middle of what comes after the end, so what is left depends on the pieces; its
  verdict and what it did do not.\<close>

definition akin :: "net \<Rightarrow> net \<Rightarrow> bool" where
  "akin s t \<longleftrightarrow> List.map flat (backlog s) = List.map flat (backlog t) \<and> handles s = handles t \<and> faults s = faults t
     \<and> signals s = signals t \<and> io_log s = io_log t"

definition nearly :: "(net, 'a) prog \<Rightarrow> bool" where
  "nearly m \<longleftrightarrow> (\<forall>s t. sim s t \<longrightarrow> fst (m s) = fst (m t) \<and> akin (snd (m s)) (snd (m t)))"

lemma sim_akin: "sim s t \<Longrightarrow> akin s t"
  by (simp add: sim_def akin_def)

lemma nearly_ud_closed: "nearly (ud_closed [])"
  unfolding nearly_def
proof (intro allI impI)
  fix s t
  assume st: "sim s t"
  obtain xs ys where r: "snd (ud_closed [] s) = s\<lparr>rx := xs\<rparr>" "snd (ud_closed [] t) = t\<lparr>rx := ys\<rparr>"
    using ud_closed_verdict[of "[]"] by (metis list.size(3) zero_le)
  then show "fst (ud_closed [] s) = fst (ud_closed [] t) \<and> akin (snd (ud_closed [] s)) (snd (ud_closed [] t))"
    using ud_closed_verdict[of "[]" s] ud_closed_verdict[of "[]" t] st by (auto simp: sim_def akin_def)
qed

lemma nearly_bindM: "seamless m \<Longrightarrow> (\<And>a. nearly (f a)) \<Longrightarrow> nearly (bindM m f)"
  unfolding nearly_def
proof (intro allI impI)
  fix s t
  assume a: "seamless m" "\<And>a. \<forall>s t. sim s t \<longrightarrow> fst (f a s) = fst (f a t) \<and> akin (snd (f a s)) (snd (f a t))" "sim s t"
  obtain r s' q t' where m: "m s = (r, s')" "m t = (q, t')" by fastforce
  note d = seamlessD[OF a(1,3) m]
  show "fst (bindM m f s) = fst (bindM m f t) \<and> akin (snd (bindM m f s)) (snd (bindM m f t))"
    using d m a(2) by (cases r) (auto simp: bindM_def sim_akin)
qed

lemma nearly_thenM: "seamless m \<Longrightarrow> nearly n \<Longrightarrow> nearly (thenM m n)"
  unfolding thenM_def by (rule nearly_bindM)

text \<open>Closing the connection and waiting for another do not look at what the old one had left.\<close>

lemma nearly_connection:
  assumes "nearly m"
  shows "nearly (thenM (with_connection m) (no_reconnect msg))"
  unfolding nearly_def
proof (intro allI impI)
  fix s t
  assume "sim s t"
  then have a: "fst (m s) = fst (m t)" "akin (snd (m s)) (snd (m t))" using assms unfolding nearly_def by blast+
  obtain r s' q t' where m: "m s = (r, s')" "m t = (q, t')" by fastforce
  then show "fst (thenM (with_connection m) (no_reconnect msg) s) = fst (thenM (with_connection m) (no_reconnect msg) t)
      \<and> akin (snd (thenM (with_connection m) (no_reconnect msg) s)) (snd (thenM (with_connection m) (no_reconnect msg) t))"
    using a unfolding akin_def thenM_def bindM_def with_connection_def finallyM_def close_def no_reconnect_def attempt_def accept_def
      ret_def raise_def failing_def
    by (cases r; cases "backlog s'"; cases "backlog t'") auto
qed

lemma nearly_collects:
  assumes "nearly m"
  shows "nearly (collects m)"
  unfolding nearly_def
proof (intro allI impI)
  fix s t
  assume "sim s t"
  then have a: "fst (m s) = fst (m t)" "akin (snd (m s)) (snd (m t))" using assms unfolding nearly_def by blast+
  obtain r s' q t' where m: "m s = (r, s')" "m t = (q, t')" by fastforce
  then show "fst (collects m s) = fst (collects m t) \<and> akin (snd (collects m s)) (snd (collects m t))"
    using a by (cases r) (auto simp: collects_def catchM_def bindM_def ret_def raise_def)
qed

lemma nearly_ud_serve: "nearly (ud_serve operation scenario)"
proof -
  have "nearly (ud_conversation operation scenario)"
    unfolding ud_conversation_def ud_round_def case_prod_unfold
    by (intro nearly_thenM nearly_bindM nearly_ud_closed stream_intros)
  moreover have "thenM (accepting m) n = thenM accept (thenM (with_connection m) n)" for m n :: "(net, unit) prog"
    unfolding accepting_def thenM_def by (simp add: bindM_assoc)
  ultimately show ?thesis
    unfolding ud_serve_def by (simp only:) (intro nearly_collects nearly_thenM seamless_accept nearly_connection)
qed

lemma nearly_block_serve: "nearly (block_serve scenario)"
proof -
  define body where "body = thenM plain_handshake (bindM take_request (\<lambda>req. bindM (liftE (block_request scenario)) (\<lambda>expected.
    thenM (expect (req = expected) ''block-info request/preflight reference differs'') (thenM (reply (block_answer scenario)) (ud_closed [])))))"
  have "nearly body" unfolding body_def by (intro nearly_thenM nearly_bindM nearly_ud_closed stream_intros)
  moreover have "thenM (accepting m) n = thenM accept (thenM (with_connection m) n)" for m n :: "(net, unit) prog"
    unfolding accepting_def thenM_def by (simp add: bindM_assoc)
  ultimately show ?thesis
    unfolding block_serve_def body_def[symmetric] by (simp only:) (intro nearly_collects nearly_thenM seamless_accept nearly_connection)
qed

lemma seamless_nearly: "seamless m \<Longrightarrow> nearly m"
  by (auto simp: seamless_def nearly_def sim_akin)

section \<open>Draining\<close>

text \<open>What is read to the end of the stream or its next event leaves nothing that depends on the pieces.\<close>

fun drained :: "item list \<Rightarrow> unit result \<times> item list" where
  "drained [] = (Inl TimeoutError, [])"
| "drained (B b # xs) = drained xs"
| "drained (E Eof # xs) = (Inr (), E Eof # xs)"
| "drained (E Reset # xs) = (Inr (), xs)"
| "drained (E x # xs) = (Inl TimeoutError, xs)"

definition cleaned :: "item list \<Rightarrow> unit result \<times> item list" where
  "cleaned xs = (case xs of E Reset # ys \<Rightarrow> drained ys | _ \<Rightarrow> drained xs)"

definition reads_as :: "(item list \<Rightarrow> 'a result \<times> item list) \<Rightarrow> (net, 'a) prog \<Rightarrow> bool" where
  "reads_as f m \<longleftrightarrow> (\<forall>s r t. m s = (r, t) \<longrightarrow> (r, flat (rx t)) = f (flat (rx s)) \<and> t = s\<lparr>rx := rx t\<rparr>)"

lemma reads_as_seamless:
  assumes "reads_as f m"
  shows "seamless m"
proof (rule seamlessI)
  fix s t
  assume st: "sim s t"
  obtain r s' q t' where m: "m s = (r, s')" "m t = (q, t')" by fastforce
  then have s': "(r, flat (rx s')) = f (flat (rx s))" "s' = s\<lparr>rx := rx s'\<rparr>"
    and t': "(q, flat (rx t')) = f (flat (rx t))" "t' = t\<lparr>rx := rx t'\<rparr>"
    using assms unfolding reads_as_def by blast+
  have "r = q" "flat (rx s') = flat (rx t')" using s'(1) t'(1) st by (simp_all add: sim_def) (metis prod.inject)+
  moreover obtain xs ys where "s' = s\<lparr>rx := xs\<rparr>" "t' = t\<lparr>rx := ys\<rparr>" using s'(2) t'(2) by blast
  then have "sim s' t'" using st calculation(2) by (simp add: sim_def)
  ultimately show "fst (m s) = fst (m t) \<and> sim (snd (m s)) (snd (m t))" by (simp add: m)
qed

lemma head_error:
  "pull ''x'' (Suc 0) xs = (Inl e, ys) \<Longrightarrow> pull [] (Suc 0) xs = (Inl e, ys) \<Longrightarrow>
     e = TimeoutError \<and> drained xs = (Inl e, ys) \<and> cleaned xs = (Inl e, ys)
     \<or> e = ConnectionResetError \<and> drained xs = (Inr (), ys) \<and> cleaned xs = drained ys"
  by (cases xs rule: drained.cases) (auto simp: cleaned_def)

lemma head_eof:
  "pull ''x'' (Suc 0) xs = (Inl (RuntimeError ''x''), ys) \<Longrightarrow> drained xs = (Inr (), ys) \<and> cleaned xs = drained ys"
  by (cases xs rule: drained.cases) (auto simp: cleaned_def)

lemma cleanup_flat:
  assumes "transport_cleanup s = (r, t)"
  shows "t = s\<lparr>rx := rx t\<rparr>"
    "r = Inl e \<Longrightarrow> drained (flat (rx s)) = (Inl e, flat (rx t)) \<and> cleaned (flat (rx s)) = (Inl e, flat (rx t))"
    "r = Inr [] \<Longrightarrow> drained (flat (rx s)) = (Inr (), flat (rx t)) \<and> cleaned (flat (rx s)) = drained (flat (rx t))"
    "r = Inr (b # bs) \<Longrightarrow> flat (rx s) = List.map B (b # bs) @ flat (rx t)"
proof -
  obtain q a where q: "arrive 1024 (rx s) = (q, a)" by fastforce
  then have rec: "recv 1024 s = (q, s\<lparr>rx := a\<rparr>)" by (simp add: recv_def)
  then have t: "t = s\<lparr>rx := a\<rparr>" "r = (if q = Inl ConnectionResetError then Inr [] else q)"
    using assms by (auto simp: transport_cleanup_def catchM_def ret_def raise_def split: sum.splits if_splits)
  note af = arrive_flat[of 1024 "rx s", unfolded q]
  have one: "e = TimeoutError \<and> drained (flat (rx s)) = (Inl e, flat a) \<and> cleaned (flat (rx s)) = (Inl e, flat a)
     \<or> e = ConnectionResetError \<and> drained (flat (rx s)) = (Inr (), flat a) \<and> cleaned (flat (rx s)) = drained (flat a)"
    if "q = Inl e" for e using head_error[of "flat (rx s)" e "flat a"] af that by simp
  have none: "drained (flat (rx s)) = (Inr (), flat a) \<and> cleaned (flat (rx s)) = drained (flat a)" if "q = Inr []"
    using head_eof[of "flat (rx s)" "flat a"] af that by simp
  show "t = s\<lparr>rx := rx t\<rparr>" using t(1) by simp
  show "r = Inl e \<Longrightarrow> drained (flat (rx s)) = (Inl e, flat (rx t)) \<and> cleaned (flat (rx s)) = (Inl e, flat (rx t))"
    using one[of e] t by (auto split: if_splits)
  show "r = Inr [] \<Longrightarrow> drained (flat (rx s)) = (Inr (), flat (rx t)) \<and> cleaned (flat (rx s)) = drained (flat (rx t))"
    using one[of ConnectionResetError] none t by (auto split: if_splits)
  show "r = Inr (b # bs) \<Longrightarrow> flat (rx s) = List.map B (b # bs) @ flat (rx t)"
    using af t by (auto split: if_splits)
qed

lemma drained_bytes: "drained (List.map B bs @ xs) = drained xs"
  by (induction bs) auto

lemma drain_reads: "reads_as drained drain"
proof -
  have "drain s = (r, t) \<Longrightarrow> (r, flat (rx t)) = drained (flat (rx s)) \<and> t = s\<lparr>rx := rx t\<rparr>" for s r t
  proof (induction s arbitrary: r t rule: drain.induct)
    case (1 s)
    obtain q u where q: "transport_cleanup s = (q, u)" by fastforce
    note cl = cleanup_flat[OF q]
    show ?case
    proof (cases q)
      case (Inl e)
      then show ?thesis using 1(2) q cl(1,2) by (simp add: drain.simps[of s])
    next
      case (Inr c)
      show ?thesis
      proof (cases c)
        case Nil
        then show ?thesis using 1(2) q cl(1,3) Inr by (simp add: drain.simps[of s])
      next
        case (Cons b bs)
        have d: "drain u = (r, t)" using 1(2) q Inr Cons by (simp add: drain.simps[of s])
        have "(r, flat (rx t)) = drained (flat (rx u)) \<and> t = u\<lparr>rx := rx t\<rparr>"
          by (rule 1(1)[OF q[symmetric] Inr _ d]) (simp add: Cons)
        then show ?thesis using cl(1) cl(4)[of b bs] Inr Cons drained_bytes[of "b # bs" "flat (rx u)"]
          by (metis net.surjective net.update_convs(2))
      qed
    qed
  qed
  then show ?thesis unfolding reads_as_def by blast
qed

lemma cleanup_drain_reads: "reads_as cleaned (bindM transport_cleanup (\<lambda>_. drain))"
proof -
  have "(r, flat (rx t)) = cleaned (flat (rx s)) \<and> t = s\<lparr>rx := rx t\<rparr>"
    if run: "bindM transport_cleanup (\<lambda>_. drain) s = (r, t)" for s r t
  proof -
    obtain q u where q: "transport_cleanup s = (q, u)" by fastforce
    note cl = cleanup_flat[OF q]
    show ?thesis
    proof (cases q)
      case (Inl e)
      then show ?thesis using run q cl(1,2) by (simp add: bindM_def)
    next
      case (Inr c)
      then have "drain u = (r, t)" using run q by (simp add: bindM_def)
      then have d: "(r, flat (rx t)) = drained (flat (rx u))" "t = u\<lparr>rx := rx t\<rparr>"
        using drain_reads unfolding reads_as_def by blast+
      have "cleaned (flat (rx s)) = drained (flat (rx u))"
        using cl(3,4) Inr by (cases c) (auto simp: cleaned_def drained_bytes)
      then show ?thesis using d cl(1) by (metis net.surjective net.update_convs(2))
    qed
  qed
  then show ?thesis unfolding reads_as_def by blast
qed

lemma seamless_drains [stream_intros]: "seamless drain" "seamless (bindM transport_cleanup (\<lambda>_. drain))"
  using drain_reads cleanup_drain_reads by (auto intro: reads_as_seamless)

lemma seamless_trickle [stream_intros]: "seamless (thenM (send_trickle ps) drain)"
proof (induction ps)
  case Nil
  have "thenM (send_trickle []) drain = drain" by (simp add: thenM_def ret_bind)
  then show ?case by (simp add: stream_intros)
next
  case (Cons p ps)
  have "thenM (send_trickle (p # ps)) drain =
      bindM wait (\<lambda>readable. if readable then bindM transport_cleanup (\<lambda>_. drain) else thenM (sendall p) (thenM (send_trickle ps) drain))"
    unfolding send_trickle.simps thenM_def bindM_assoc
    by (rule arg_cong[where f = "bindM wait"]) (auto simp: fun_eq_iff bindM_assoc ret_bind)
  moreover have "seamless \<dots>"
    by (rule seamless_bindM[OF seamless_wait], rule seamless_if, rule seamless_drains, rule seamless_thenM[OF seamless_sendall Cons])
  ultimately show ?case by simp
qed

lemma seamless_if_bind: "seamless (bindM m k) \<Longrightarrow> seamless (bindM n k) \<Longrightarrow> seamless (bindM (if b then m else n) k)"
  by simp

lemma seamless_lift_bind: "(\<And>a. seamless (bindM (f a) k)) \<Longrightarrow> seamless (bindM (bindM (liftE r) f) k)"
  unfolding bindM_assoc by (rule seamless_bindM[OF seamless_liftE])

lemma seamless_if_then:
  "seamless (bindM (thenM m r) k) \<Longrightarrow> seamless (bindM (thenM n r) k) \<Longrightarrow> seamless (bindM (thenM (if b then m else n) r) k)"
  by simp

lemma seamless_lift_then: "(\<And>a. seamless (bindM (thenM (f a) r) k)) \<Longrightarrow> seamless (bindM (thenM (bindM (liftE x) f) r) k)"
  unfolding bindM_assoc thenM_def by (rule seamless_bindM[OF seamless_liftE])

lemma seamless_transport_case: "seamless (serve_transport_case mode)"
proof -
  let ?k = "\<lambda>returned. thenM (if returned then ret () else drain) (ret returned)"
  have k: "seamless (?k b)" for b by (intro stream_intros)
  have trickled: "seamless (bindM (thenM (send_trickle ps) (ret False)) ?k)" for ps
  proof -
    have "bindM (thenM (send_trickle ps) (ret False)) ?k = thenM (thenM (send_trickle ps) drain) (ret False)"
      by (simp add: thenM_def bindM_assoc ret_bind)
    then show ?thesis by (simp only:) (intro stream_intros)
  qed
  have late: "seamless (bindM (thenM m (thenM (send_trickle ps) (ret False))) ?k)" if "seamless m" for m ps
    using seamless_bindM[OF that trickled[of ps]] unfolding thenM_def bindM_assoc .
  have "seamless (bindM (transport_reply mode reference) ?k)" for reference
    unfolding transport_reply_def case_prod_unfold
    by (intro seamless_if_bind seamless_lift_bind late seamless_if_then seamless_lift_then trickled) (auto intro!: seamless_bindM stream_intros)
  then have "seamless (accepting (thenM (confirm_and_setup 480) (bindM receive_s7 (\<lambda>req.
      bindM (transport_reply mode (reference_of req)) ?k))))"
    by (intro seamless_accepting seamless_thenM[OF seamless_confirm_and_setup] seamless_bindM[OF seamless_receive_s7])
  then show ?thesis
    unfolding serve_transport_case_def by (rule seamless_collects[OF seamless_bindM]) (intro stream_intros)
qed

section \<open>The other peers\<close>

lemma seamless_stub_parts [stream_intros]:
  "seamless read_frame" "seamless (stub_send content)" "seamless m \<Longrightarrow> seamless (stub_quiet a m)"
  "seamless m \<Longrightarrow> seamless (chunk_quiet a m)"
  unfolding read_frame_def stub_send_def stub_quiet_def chunk_quiet_def by (auto intro!: stream_intros split: option.split)

lemma seamless_stub_open [stream_intros]: "seamless (stub_open pdu_length)"
  unfolding stub_open_def by (auto intro!: stream_intros split: option.split)

lemma seamless_stub_turns [stream_intros]: "seamless (stub_turns responses captured)"
proof (induction responses captured rule: stub_turns.induct)
  case (2 resp responses captured)
  have "seamless (stub_turn resp captured)"
    unfolding stub_turn_def by (auto intro!: stream_intros split: option.split)
  with 2 show ?case by (auto intro!: stream_intros split: option.split)
qed (simp add: stream_intros)

lemma seamless_stub_session [stream_intros]: "seamless m \<Longrightarrow> seamless (stub_session m)"
  unfolding stub_session_def by (intro stream_intros)

lemma seamless_requests_serve: "seamless (requests_serve responses)"
  unfolding requests_serve_def by (intro stream_intros)

lemma seamless_chunk_turn: "seamless chunk_turn"
  unfolding chunk_turn_def chunk_reply_def by (auto intro!: stream_intros split: option.split)

lemma seamless_chunk_loop [stream_intros]: "seamless (chunk_loop captured)"
proof (rule seamlessI)
  fix s t
  assume "sim s t"
  then show "fst (chunk_loop captured s) = fst (chunk_loop captured t) \<and> sim (snd (chunk_loop captured s)) (snd (chunk_loop captured t))"
  proof (induction captured s arbitrary: t rule: chunk_loop.induct)
    case (1 captured s)
    obtain r u q v where m: "chunk_turn s = (r, u)" "chunk_turn t = (q, v)" by fastforce
    note d = seamlessD[OF seamless_chunk_turn 1(2) m]
    show ?case
    proof (cases r)
      case (Inl e)
      then show ?thesis using d m by (simp add: chunk_loop.simps)
    next
      case (Inr o')
      show ?thesis
      proof (cases o')
        case None
        then show ?thesis using d m Inr by (simp add: chunk_loop.simps)
      next
        case (Some x)
        obtain pdu again where x: "x = (pdu, again)" by (cases x)
        show ?thesis
          using 1(1)[OF m(1)[symmetric] Inr Some x[symmetric], of v] d m Inr Some x
          by (cases again) (auto simp: chunk_loop.simps[of captured])
      qed
    qed
  qed
qed

lemma seamless_chunks_serve: "seamless (chunks_serve pdu_length)"
  unfolding chunks_serve_def by (intro stream_intros)

section \<open>Every peer\<close>

text \<open>Neither what a program returns nor what it does to its connections depends on the pieces.\<close>

definition deaf :: "(net, 'a) prog \<Rightarrow> net \<Rightarrow> net \<Rightarrow> bool" where
  "deaf m s t \<longleftrightarrow> fst (m s) = fst (m t) \<and> io_log (snd (m s)) = io_log (snd (m t))"

lemma nearly_deaf: "nearly m \<Longrightarrow> sim s t \<Longrightarrow> deaf m s t"
  unfolding nearly_def akin_def deaf_def by blast

text \<open>C18: No peer can tell how TCP cut the client's stream: started in two states whose connections hold the same octets and
  events in other pieces, each of the emulated peers returns the same errors (the measuring peer also its counts, the recording
  stubs what they captured) and leaves the same log of connections accepted, octets sent and handles closed. The peers are all
  the programs of the development that accept the connections of a script.\<close>
theorem peers_deaf_to_segmentation:
  assumes "sim s t"
    and "m \<in> {boundary_serve pdu boundary_plan, mixed_serve plan, queued_serve sizes pdu mode, live_serve pdu live_plan,
      clock_serve digit, batch_serve pdu item_count item_size, conc_serve mode, life_serve mode, serve_handshake_rejection mode,
      serve_service_rejection mode, serve_reconnect_shrink, serve_reconnect_recovery, serve_reference_wrap,
      serve_interrupted_userdata, serve_plc_driven_download expected pdu, serve_interrupted_download,
      serve_download_rejection mode, serve_segmented_responses, retry_serve mode budget drops, reconnect_serve c,
      transfer_serve mode no_request, ext_serve mode interval no_request, fault_serve mode phase mutation, progress_serve mode,
      cleanup_serve mode, prov_serve mode pdu, comp_serve service mode, budget_serve mode position, co_serve mode, sem_serve mode pdu,
      ud_serve service mode,
      stress_serve rounds, raw_serve mode, block_serve scenario, serve_transport_case mode}"
  shows "deaf m s t \<and> deaf (overlap_serve pdu overlap_plan') s t \<and> deaf (bench_serve pdu mode total_size rounds) s t
    \<and> deaf (requests_serve responses) s t \<and> deaf (chunks_serve pdu) s t"
proof -
  have "nearly m"
    using assms(2)
    by (elim insertE emptyE)
      (simp_all only: seamless_nearly seamless_boundary_serve seamless_mixed_serve seamless_queued_serve seamless_live_serve seamless_clock_serve
        seamless_batch_serve seamless_conc_serve seamless_life_serve seamless_handshake_rejection seamless_service_rejection
        seamless_reconnects seamless_downloads seamless_segmented seamless_retry_serve seamless_reconnect_serve
        seamless_transfer_serve seamless_ext_serve seamless_fault_serve seamless_progress_serve seamless_cleanup_serve
        seamless_prov_serve seamless_comp_serve seamless_budget_serve seamless_co_serve seamless_sem_serve nearly_ud_serve
        seamless_stress_serve seamless_raw_serve nearly_block_serve seamless_transport_case)
  then show ?thesis
    using assms(1) by (simp add: nearly_deaf seamless_nearly seamless_overlap_serve seamless_bench_serve seamless_requests_serve
      seamless_chunks_serve)
qed

theorem peers_deaf_to_segmentation_witness:
  "deaf serve_reconnect_shrink (start [[Chunk [3], Chunk [0, 0]]]) (start [[Chunk [3, 0, 0]]])"
  using peers_deaf_to_segmentation[of "start [[Chunk [3], Chunk [0, 0]]]" "start [[Chunk [3, 0, 0]]]" serve_reconnect_shrink]
  by (simp add: sim_def start_def)

end
