(* ===== verification/Hangups.thy ===== *)
theory Hangups
  imports Deadlines
begin

text \<open>
  The peers of \<^verbatim>\<open>Deadlines\<close> pass a client only when it has hung up properly: rules for programs that
  consume a stream and part with a last frame, and the claim they add up to.
\<close>

section \<open>One frame, exactly\<close>

lemma exact_consumes:
  assumes "exact msg n s = (Inr bs, t)"
  shows "length bs = n" "flat (rx s) = List.map B bs @ flat (rx t)" "backlog t = backlog s"
proof -
  have "pull msg n xs = (Inr bs, ys) \<Longrightarrow> length bs = n \<and> xs = List.map B bs @ ys" for xs ys
    by (induction msg n xs arbitrary: bs ys rule: pull.induct) (auto split: prod.splits sum.splits)
  with exact_pull[OF assms] show "length bs = n" "flat (rx s) = List.map B bs @ flat (rx t)" by blast+
  from exact_pull[OF assms] show "backlog t = backlog s" by (metis net.ext_inject net.surjective net.update_convs(2))
qed

text \<open>The octets between two positions of a stream end with one framed TPDU.\<close>

definition parted :: "(bytes \<Rightarrow> bool) \<Rightarrow> arrival list \<Rightarrow> arrival list \<Rightarrow> bool" where
  "parted P before after \<longleftrightarrow>
     (\<exists>past frame octets. flat before = past @ List.map B octets @ flat after \<and> tpkt_frame frame = Inr octets \<and> P frame)"

definition follows :: "arrival list \<Rightarrow> arrival list \<Rightarrow> bool" where
  "follows before after \<longleftrightarrow> (\<exists>past. flat before = past @ flat after)"

lemma follows_refl: "follows a a"
  by (simp add: follows_def)

lemma follows_trans: "follows a b \<Longrightarrow> follows b c \<Longrightarrow> follows a c"
  by (auto simp: follows_def)

lemma parted_follows: "follows a b \<Longrightarrow> parted P b c \<Longrightarrow> parted P a c"
  unfolding follows_def parted_def by (metis append_assoc)

lemma parted_mono: "parted P a b \<Longrightarrow> (\<And>f. P f \<Longrightarrow> Q f) \<Longrightarrow> parted Q a b"
  unfolding parted_def by blast

lemma receive_takes_frame:
  assumes "tpkt_receive m1 m2 s = (Inr frame, t)"
  shows "\<exists>octets. flat (rx s) = List.map B octets @ flat (rx t) \<and> tpkt_frame frame = Inr octets" "backlog t = backlog s"
proof -
  obtain q u where ex: "exact m1 4 s = (q, u)" by fastforce
  with assms obtain h where h: "q = Inr h" by (cases q) (auto simp: tpkt_receive_def bindM_def)
  let ?n = "nat (be_int (slice 2 4 h))"
  have ok: "h ! 0 = 3" "h ! 1 = 0" "4 \<le> ?n" and ex2: "exact m1 (?n - 4) u = (Inr frame, t)"
    using assms ex h by (auto simp: tpkt_receive_def bindM_def thenM_def expect_def guardM_def liftE_def guardE_def Let_def
        split: if_splits)
  note c = exact_consumes[OF ex[unfolded h]] exact_consumes[OF ex2]
  have l: "length (slice 2 4 h) = 2" using c(1) by (simp add: length_slice)
  have b: "0 \<le> be_int (slice 2 4 h)" "be_int (slice 2 4 h) < 65536"
    using be_int_nonneg be_int_bound[of "slice 2 4 h"] l by simp_all
  have n: "len frame + 4 = be_int (slice 2 4 h)" using c(4) ok(3) b(1) by (simp add: len_def)
  have "h = [h ! 0, h ! 1] @ slice 2 4 h"
    using c(1) by (intro nth_equalityI) (auto simp: slice_def nth_append less_Suc_eq numeral_eq_Suc)
  then have "h = [3, 0] @ be_bytes 2 (len frame + 4)"
    using ok be_bytes_be_int[of "slice 2 4 h"] l n by (simp del: be_bytes_numeral)
  moreover have "length frame + 4 < 65536" using n b(2) by (simp add: len_def)
  ultimately have "tpkt_frame frame = Inr (h @ frame)" unfolding tpkt_frame_layout by simp
  moreover have "flat (rx s) = List.map B (h @ frame) @ flat (rx t)" using c(2,5) by simp
  ultimately show "\<exists>octets. flat (rx s) = List.map B octets @ flat (rx t) \<and> tpkt_frame frame = Inr octets" by blast
  show "backlog t = backlog s" using c(3,6) by simp
qed

section \<open>Rules\<close>

definition consumes :: "(net, 'a) prog \<Rightarrow> bool" where
  "consumes m \<longleftrightarrow> (\<forall>s a t. m s = (Inr a, t) \<longrightarrow> follows (rx s) (rx t) \<and> backlog t = backlog s)"

definition still :: "(net, 'a) prog \<Rightarrow> bool" where
  "still m \<longleftrightarrow> (\<forall>s a t. m s = (Inr a, t) \<longrightarrow> rx t = rx s \<and> backlog t = backlog s)"

text \<open>A result with \<open>Q\<close> means that the stream was left right after a disconnect frame.\<close>

definition parts :: "('a \<Rightarrow> bool) \<Rightarrow> (net, 'a) prog \<Rightarrow> bool" where
  "parts Q m \<longleftrightarrow> (\<forall>s a t. m s = (Inr a, t) \<longrightarrow> Q a \<longrightarrow> parted disconnecting (rx s) (rx t))"

named_theorems hang_intros \<open>programs that consume a stream, leave it alone, or part with a disconnect\<close>

lemma still_consumes: "still m \<Longrightarrow> consumes m"
  by (simp add: still_def consumes_def follows_refl)

lemma still_quiet [hang_intros]:
  "still (ret a)" "still (raise e)" "still (liftE r)" "still (expect ok msg)" "still (sendall bs)" "still wait" "still (note_io i)"
  "still close"
  by (auto simp: still_def ret_def raise_def liftE_def expect_def guardM_def sendall_def wait_def note_io_def close_def
      split: list.splits bool.splits)

lemmas consumes_quiet [hang_intros] = still_quiet[THEN still_consumes]

lemma still_bindM: "still m \<Longrightarrow> (\<And>a. still (f a)) \<Longrightarrow> still (bindM m f)"
  unfolding still_def bindM_def by (auto split: prod.splits sum.splits)

lemma still_thenM [hang_intros]: "still m \<Longrightarrow> still n \<Longrightarrow> still (thenM m n)"
  unfolding thenM_def by (rule still_bindM)

lemma still_reply [hang_intros]: "still (reply p)" "still (tpkt_send bs)" "still (send_confirm cr)"
  unfolding reply_def send_pdu_def tpkt_send_def send_confirm_def by (intro still_bindM still_quiet)+

lemmas consumes_reply [hang_intros] = still_reply[THEN still_consumes]

lemma consumes_bindM [hang_intros]: "consumes m \<Longrightarrow> (\<And>a. consumes (f a)) \<Longrightarrow> consumes (bindM m f)"
  unfolding consumes_def bindM_def by (auto split: prod.splits sum.splits) (blast intro: follows_trans)+

lemma consumes_thenM [hang_intros]: "consumes m \<Longrightarrow> consumes n \<Longrightarrow> consumes (thenM m n)"
  unfolding thenM_def by (rule consumes_bindM)

lemma consumes_if [hang_intros]: "consumes m \<Longrightarrow> consumes n \<Longrightarrow> consumes (if b then m else n)"
  by simp

lemma consumes_option [hang_intros]:
  "consumes m \<Longrightarrow> (\<And>x. consumes (f x)) \<Longrightarrow> consumes (case v of None \<Rightarrow> m | Some x \<Rightarrow> f x)"
  by (cases v) simp_all

lemma consumes_receive [hang_intros]: "consumes (tpkt_receive m1 m2)"
  using receive_takes_frame unfolding consumes_def follows_def by blast

lemma consumes_forM [hang_intros]: "(\<And>x. consumes (f x)) \<Longrightarrow> consumes (forM xs f)"
  by (induction xs) (simp_all add: hang_intros)

lemma consumes_loopM [hang_intros]: "(\<And>x. consumes (f x)) \<Longrightarrow> consumes (loopM f xs)"
  by (induction xs) (auto intro!: hang_intros)

lemma consumes_steps: "(\<And>m. m \<in> set ms \<Longrightarrow> consumes m) \<Longrightarrow> consumes final \<Longrightarrow> consumes (steps_then ms final)"
  by (induction ms) (simp_all add: hang_intros)

lemma parts_never: "(\<And>s a t. m s = (Inr a, t) \<Longrightarrow> \<not> Q a) \<Longrightarrow> parts Q m"
  by (auto simp: parts_def)

lemma parts_ret: "\<not> Q a \<Longrightarrow> parts Q (ret a)"
  by (simp add: parts_def ret_def)

lemma parts_raise: "parts Q (raise e)"
  by (simp add: parts_def raise_def)

lemma parts_if: "parts Q m \<Longrightarrow> parts Q n \<Longrightarrow> parts Q (if b then m else n)"
  by simp

lemma parts_bindM:
  assumes "consumes m" "\<And>a. parts Q (f a)"
  shows "parts Q (bindM m f)"
  using assms unfolding consumes_def parts_def bindM_def
  by (auto split: prod.splits sum.splits) (blast intro: parted_follows)

lemma parts_thenM: "consumes m \<Longrightarrow> parts Q n \<Longrightarrow> parts Q (thenM m n)"
  unfolding thenM_def by (rule parts_bindM)

text \<open>The first part may already have parted; then the rest leaves the stream alone.\<close>

lemma parts_early:
  assumes "consumes m" "parts R m" "\<And>a. R a \<Longrightarrow> still (f a)" "\<And>a. \<not> R a \<Longrightarrow> parts Q (f a)"
  shows "parts Q (bindM m f)"
  unfolding parts_def
proof (intro allI impI)
  fix s b t
  assume r: "bindM m f s = (Inr b, t)" "Q b"
  then obtain a u where m: "m s = (Inr a, u)" "f a u = (Inr b, t)" by (auto simp: bindM_def split: prod.splits sum.splits)
  show "parted disconnecting (rx s) (rx t)"
  proof (cases "R a")
    case True
    then show ?thesis using assms(2,3) m unfolding parts_def still_def by metis
  next
    case False
    then have "parted disconnecting (rx u) (rx t)" using assms(4) m(2) r(2) unfolding parts_def by blast
    moreover have "follows (rx s) (rx u)" using assms(1) m(1) unfolding consumes_def by blast
    ultimately show ?thesis by (rule parted_follows[rotated])
  qed
qed

lemma parts_steps:
  "(\<And>m. m \<in> set ms \<Longrightarrow> consumes m \<and> parts id m) \<Longrightarrow> parts (\<lambda>_. True) final \<Longrightarrow> parts (\<lambda>_. True) (steps_then ms final)"
proof (induction ms)
  case (Cons m ms)
  have "parts (\<lambda>_. True) (bindM m (\<lambda>returned. if returned then ret () else steps_then ms final))"
    by (rule parts_early[where R = id]) (use Cons in \<open>auto simp: id_def intro: still_quiet\<close>)
  then show ?case by simp
qed simp

lemma parts_loopM: "(\<And>x. consumes (f x) \<and> parts id (f x)) \<Longrightarrow> parts id (loopM f xs)"
proof (induction xs)
  case (Cons x xs)
  have "parts id (bindM (f x) (\<lambda>returned. if returned then ret True else loopM f xs))"
    by (rule parts_early[where R = id]) (use Cons in \<open>auto simp: id_def intro: still_quiet\<close>)
  then show ?case by (simp add: id_def)
qed (simp add: parts_ret)

section \<open>The parts of the peers\<close>

lemma disconnected_disconnects: "dl_disconnected frame = Inr u \<Longrightarrow> disconnecting frame"
  by (cases frame rule: remdups_adj.cases) (auto simp: dl_disconnected_def disconnecting_def)

text \<open>A frame that is taken and found to be a disconnect.\<close>

lemma parts_received:
  assumes "\<And>frame. parts Q (f frame) \<or> (\<forall>u a v. f frame u = (Inr a, v) \<longrightarrow> Q a \<longrightarrow> disconnecting frame \<and> rx v = rx u)"
  shows "parts Q (bindM (tpkt_receive m1 m2) f)"
  unfolding parts_def
proof (intro allI impI)
  fix s a t
  assume r: "bindM (tpkt_receive m1 m2) f s = (Inr a, t)" "Q a"
  then obtain frame u where m: "tpkt_receive m1 m2 s = (Inr frame, u)" "f frame u = (Inr a, t)"
    by (auto simp: bindM_def split: prod.splits sum.splits)
  have "follows (rx s) (rx u)" using receive_takes_frame(1)[OF m(1)] unfolding follows_def by blast
  moreover have "parted disconnecting (rx s) (rx u)" if "disconnecting frame"
    using receive_takes_frame(1)[OF m(1)] that unfolding parted_def by (metis append_Nil)
  ultimately show "parted disconnecting (rx s) (rx t)"
    using assms[of frame] m(2) r(2) parted_follows unfolding parts_def by metis
qed

lemma parts_received_now:
  assumes "\<And>frame u a v. f frame u = (Inr a, v) \<Longrightarrow> Q a \<Longrightarrow> disconnecting frame \<and> rx v = rx u"
  shows "parts Q (bindM (tpkt_receive m1 m2) f)"
  by (rule parts_received) (use assms in blast)

lemma dl_hangup: "consumes dl_hangup" "parts Q dl_hangup"
proof -
  show "consumes dl_hangup" unfolding dl_hangup_def dl_receive_def by (intro hang_intros)
  show "parts Q dl_hangup" unfolding dl_hangup_def dl_receive_def
    by (rule parts_received_now) (auto simp: liftE_def dest: disconnected_disconnects)
qed

lemma dl_next_parts: "consumes dl_next" "parts (\<lambda>r. r = None) dl_next"
proof -
  show "consumes dl_next" unfolding dl_next_def dl_receive_def by (intro hang_intros)
  show "parts (\<lambda>r. r = None) dl_next" unfolding dl_next_def dl_receive_def
    by (rule parts_received_now) (auto simp: liftE_def dl_decode_next_def split: if_splits dest: disconnected_disconnects)
qed

lemma dl_delay_parts: "consumes dl_delay" "parts Not dl_delay"
proof -
  show "consumes dl_delay" unfolding dl_delay_def by (intro hang_intros dl_hangup)
  have "parts Not (thenM dl_hangup (ret False))"
    unfolding thenM_def by (rule parts_early[where R = "\<lambda>_. True"]) (simp_all add: dl_hangup still_quiet)
  then show "parts Not dl_delay" unfolding dl_delay_def
    by (intro parts_bindM consumes_quiet) (simp add: parts_ret)
qed

lemma on_request_parts [hang_intros]:
  assumes "\<And>req. consumes (k req)" shows "consumes (on_request k)"
  unfolding on_request_def by (intro hang_intros dl_next_parts assms)

lemma on_request_parts_id:
  assumes "\<And>req. parts id (k req)" shows "parts id (on_request k)"
  unfolding on_request_def
  by (rule parts_early[where R = "\<lambda>r. r = None"]) (use assms in \<open>auto intro: still_quiet dl_next_parts\<close>)

lemma after_delay_parts [hang_intros]: "consumes m \<Longrightarrow> consumes (after_delay m)"
  unfolding after_delay_def by (intro hang_intros dl_delay_parts)

lemma after_delay_parts_id: "parts id m \<Longrightarrow> parts id (after_delay m)"
  unfolding after_delay_def
  by (rule parts_early[where R = Not]) (auto intro: still_quiet dl_delay_parts)

lemma send_then_parts [hang_intros]: "consumes (send_then p)"
  unfolding send_then_def by (intro hang_intros)

lemma parts_then_False: "parts id (send_then p)"
  unfolding send_then_def by (intro parts_thenM hang_intros) (simp add: parts_ret)

lemmas part_intros = on_request_parts_id after_delay_parts_id parts_then_False parts_bindM parts_thenM

lemma transfer_round_parts: "consumes (transfer_round operation index) \<and> parts id (transfer_round operation index)"
  unfolding transfer_round_def by (intro conjI part_intros hang_intros)

lemma transfer_ends_parts:
  "consumes (transfer_start operation) \<and> parts id (transfer_start operation)"
  "consumes (transfer_end operation) \<and> parts id (transfer_end operation)"
  unfolding transfer_start_def transfer_end_def
  by (auto intro!: part_intros hang_intros parts_ret)

lemma dl_setup_consumes [hang_intros]: "consumes (dl_setup bs)"
  unfolding dl_setup_def dl_request_def dl_receive_def by (intro hang_intros)

lemma transfer_parts: "parts (\<lambda>_. True) (transfer_conversation operation no_request)"
  unfolding transfer_conversation_def
  by (intro parts_thenM hang_intros parts_if dl_hangup(2) parts_steps)
    (auto simp: transfer_round_parts transfer_ends_parts)


section \<open>The other peers\<close>

lemma ext_download_loop_parts:
  "consumes (ext_download_loop received reference) \<and> parts (\<lambda>r. r = None) (ext_download_loop received reference)"
proof (induction received reference rule: ext_download_loop.induct)
  case (1 received reference)
  show ?case
  proof (cases "len received < 1000")
    case False
    then show ?thesis by (simp add: ext_download_loop.simps consumes_quiet parts_ret)
  next
    case True
    note step = ext_download_loop.simps[of received reference] True
    show ?thesis
    proof (cases "ext_job reference 0x1b")
      case (Inl e)
      have "parts (\<lambda>r. r = None) (bindM dl_delay (\<lambda>silent. if silent then raise e else ret None))"
        by (rule parts_early[where R = Not]) (auto simp: parts_raise dl_delay_parts intro: still_quiet)
      then show ?thesis using step Inl by (simp add: hang_intros dl_delay_parts)
    next
      case (Inr job)
      define rest where "rest = (\<lambda>data. ext_download_loop (received @ data) (reference + 1))"
      have ih: "consumes (rest data)" "parts (\<lambda>r. r = None) (rest data)" for data
        using 1[OF True Inr] by (simp_all add: rest_def)
      let ?get = "bindM dl_next (\<lambda>r. case r of None \<Rightarrow> ret None | Some response \<Rightarrow> bindM (liftE (ext_fragment reference response)) rest)"
      let ?body = "bindM dl_delay (\<lambda>silent. if \<not> silent then ret None else thenM (reply (Inr job)) ?get)"
      have get: "consumes ?get" by (intro hang_intros dl_next_parts ih)
      have "parts (\<lambda>r. r = None) ?get"
        by (rule parts_early[where R = "\<lambda>r. r = None"]) (auto intro: still_quiet dl_next_parts parts_bindM[OF consumes_quiet(3) ih(2)])
      then have "parts (\<lambda>r. r = None) ?body"
        by (intro parts_early[where R = Not and Q = "\<lambda>r. r = None"]) (auto intro: still_quiet dl_delay_parts parts_thenM hang_intros)
      moreover have "consumes ?body" by (intro hang_intros dl_delay_parts get)
      moreover have "ext_download_loop received reference = ?body" using step Inr unfolding rest_def by simp
      ultimately show ?thesis by simp
    qed
  qed
qed

lemma ext_download_parts: "parts (\<lambda>_. True) ext_download"
proof -
  have finish: "consumes (ext_download_end r) \<and> parts id (ext_download_end r)" for r
    unfolding ext_download_end_def by (intro conjI part_intros hang_intros)
  let ?copy = "bindM (ext_download_loop [] 0x7000) (\<lambda>r. case r of None \<Rightarrow> ret True
     | Some (received, reference) \<Rightarrow> thenM (expect (received = ext_block) ''deadline download changed block data'') (ext_download_end reference))"
  have "consumes ?copy"
    unfolding case_prod_unfold by (intro hang_intros) (auto simp: ext_download_loop_parts finish)
  moreover have "parts id ?copy"
    by (rule parts_early[where R = "\<lambda>r. r = None"])
      (auto simp: ext_download_loop_parts finish intro: still_quiet intro!: parts_thenM hang_intros)
  moreover have "consumes ext_download_start" "parts id ext_download_start"
    unfolding ext_download_start_def by (intro part_intros hang_intros)+
  ultimately show ?thesis unfolding ext_download_def by (intro parts_steps) (auto simp: dl_hangup)
qed

lemma mem_round_parts:
  "consumes (mem_round operation interval completed amount)" "parts (\<lambda>r. r = None) (mem_round operation interval completed amount)"
proof -
  show "consumes (mem_round operation interval completed amount)"
    unfolding mem_round_def case_prod_unfold by (intro hang_intros dl_next_parts dl_delay_parts)
  have "parts (\<lambda>r. r = None) (bindM dl_delay (\<lambda>silent. if \<not> silent then ret None else
       thenM (expect ok msg) (thenM (reply p) (ret (Some x)))))" for ok msg p and x :: "int \<times> int option"
    by (rule parts_early[where R = Not]) (auto intro: still_quiet dl_delay_parts intro!: parts_thenM hang_intros parts_ret)
  then have "parts (\<lambda>r. r = None) (bindM (liftE q) (\<lambda>(completed, amount, p). bindM dl_delay (\<lambda>silent. if \<not> silent then ret None else
       thenM (expect ok msg) (thenM (reply p) (ret (Some (completed, amount)))))))" for ok msg and q :: "(int \<times> int option \<times> bytes result) result"
    by (intro parts_bindM consumes_quiet) (simp add: case_prod_unfold)
  then show "parts (\<lambda>r. r = None) (mem_round operation interval completed amount)"
    unfolding mem_round_def
    by (intro parts_early[where R = "\<lambda>r. r = None" and m = dl_next]) (auto intro: still_quiet dl_next_parts)
qed

lemma mem_loop_parts:
  "consumes (mem_loop operation interval completed amount) \<and> parts (\<lambda>r. r = None) (mem_loop operation interval completed amount)"
proof -
  have "mem_loop operation interval completed amount s = (Inr r, t) \<Longrightarrow>
     follows (rx s) (rx t) \<and> backlog t = backlog s \<and> (r = None \<longrightarrow> parted disconnecting (rx s) (rx t))" for r s t
  proof (induction operation interval completed amount s rule: mem_loop.induct)
    case (1 operation interval completed amount s)
    show ?case
    proof (cases "completed < mem_total operation")
      case False
      then show ?thesis using 1(2) by (auto simp: mem_loop.simps follows_refl)
    next
      case True
      obtain q u where m: "mem_round operation interval completed amount s = (q, u)" by fastforce
      obtain o' where q: "q = Inr o'" using 1(2) True m by (cases q) (auto simp: mem_loop.simps)
      have u: "follows (rx s) (rx u)" "backlog u = backlog s" "o' = None \<Longrightarrow> parted disconnecting (rx s) (rx u)"
        using mem_round_parts m q unfolding consumes_def parts_def by blast+
      show ?thesis
      proof (cases o')
        case None
        then show ?thesis using 1(2) True m q u by (auto simp: mem_loop.simps)
      next
        case (Some x)
        obtain c a where x: "x = (c, a)" by fastforce
        have l: "mem_loop operation interval c a u = (Inr r, t)" using 1(2) True m q Some x by (simp add: mem_loop.simps)
        have "follows (rx u) (rx t) \<and> backlog t = backlog u \<and> (r = None \<longrightarrow> parted disconnecting (rx u) (rx t))"
          by (rule 1(1)[OF True _ _ _ _ l]) (use m q Some x in auto)
        with u(1,2) show ?thesis using follows_trans parted_follows by metis
      qed
    qed
  qed
  then show ?thesis unfolding consumes_def parts_def by blast
qed

lemma ext_memory_parts: "parts (\<lambda>_. True) (ext_memory operation interval)"
  unfolding ext_memory_def
  by (rule parts_early[where R = "\<lambda>r. r = None"])
    (auto simp: mem_loop_parts dl_hangup intro: still_quiet intro!: parts_thenM hang_intros)

lemma ext_transfer_parts: "parts (\<lambda>_. True) (ext_transfer operation interval zero)"
  unfolding ext_transfer_def by (simp add: dl_hangup ext_download_parts ext_memory_parts)


lemma fault_round_parts:
  "consumes (fault_round operation phase mutation index)"
  "mutation \<noteq> ''disconnect'' \<Longrightarrow> parts id (fault_round operation phase mutation index)"
proof -
  have cleanup: "consumes (fault_cleanup operation index frame)" for frame
    unfolding fault_cleanup_def dl_receive_def Let_def by (intro hang_intros)
  show "consumes (fault_round operation phase mutation index)"
    unfolding fault_round_def dl_request_def dl_receive_def by (intro hang_intros cleanup)
  let ?check = "\<lambda>frame. thenM (expect (disconnecting frame) ''faulted conversation did not disconnect'') (ret True)"
  have check: "parts id (bindM (tpkt_receive m1 m2) ?check)" for m1 m2
    by (rule parts_received_now) (auto simp: thenM_def bindM_def expect_def guardM_def liftE_def guardE_def ret_def split: if_splits)
  have "parts id (bindM (fault_cleanup operation index frame) ?check)
    \<or> (\<forall>u a v. bindM (fault_cleanup operation index frame) ?check u = (Inr a, v) \<longrightarrow> id a \<longrightarrow> disconnecting frame \<and> rx v = rx u)"
    (is "_ \<or> ?now") for frame
  proof (cases "take 3 frame = cotp_data \<and> is_upload operation \<and> 0 < index \<and> index < 5")
    case True
    then have "bindM (fault_cleanup operation index frame) ?check = bindM (liftE (at (drop 3 frame) 10)) (\<lambda>f.
        thenM (expect (f = 0x1f) ''faulted upload continued transferring'')
       (thenM (reply (ack (reference_of (drop 3 frame)) [0x1f] [])) (bindM dl_receive ?check)))"
      by (simp add: fault_cleanup_def Let_def bindM_assoc thenM_def)
    moreover have "parts id \<dots>"
      unfolding dl_receive_def by (intro parts_bindM parts_thenM check hang_intros)
    ultimately show ?thesis by (simp only: simp_thms)
  next
    case False
    then have "?now"
      by (auto simp: fault_cleanup_def thenM_def bindM_def expect_def guardM_def liftE_def guardE_def ret_def split: if_splits)
    then show ?thesis ..
  qed
  note last_frame = parts_received[OF this]
  assume m: "mutation \<noteq> ''disconnect''"
  let ?last = "if index \<noteq> phase then ret False
    else bindM dl_receive (\<lambda>frame. bindM (fault_cleanup operation index frame) ?check)"
  have "parts id ?last" unfolding dl_receive_def by (rule parts_if[OF parts_ret last_frame]) simp
  then have "parts id (bindM dl_request (\<lambda>req. thenM (reply (fault_reply operation (index = phase) mutation index req)) ?last))"
    unfolding dl_request_def dl_receive_def by (intro parts_bindM parts_thenM hang_intros)
  then show "parts id (fault_round operation phase mutation index)"
    using m by (simp add: fault_round_def)
qed

text \<open>With the fault in one of its phases the loop never runs out.\<close>

lemma loopM_returns:
  assumes "x \<in> set xs" "\<And>s t. f x s \<noteq> (Inr False, t)"
  shows "loopM f xs s \<noteq> (Inr False, t)"
  using assms by (induction xs arbitrary: s) (auto simp: bindM_def ret_def split: prod.splits sum.splits)

definition phases :: "string \<Rightarrow> nat" where
  "phases operation = (if is_upload operation then 6 else 4)"

lemma fault_parts:
  assumes "mutation \<noteq> ''disconnect''" "phase < phases operation"
  shows "parts (\<lambda>_. True) (fault_conversation operation phase mutation)"
proof -
  have here: "fault_round operation phase mutation phase s \<noteq> (Inr False, t)" for s t
    by (auto simp: fault_round_def bindM_def thenM_def ret_def split: prod.splits sum.splits)
  have "fault_conversation operation phase mutation s \<noteq> (Inr False, t)" for s t
    unfolding fault_conversation_def
    by (rule loopM_returns[where x = phase]) (use assms(2) here in \<open>auto simp: phases_def split: if_splits\<close>)
  moreover have "parts id (fault_conversation operation phase mutation)"
    unfolding fault_conversation_def by (rule parts_loopM) (simp add: fault_round_parts assms(1))
  ultimately show ?thesis unfolding parts_def by (metis id_apply)
qed

lemma prov_parts:
  assumes "mode \<noteq> ''drop''"
  shows "parts (\<lambda>_. True) (thenM (prov_duplicates pdu) prov_hangup)" "parts (\<lambda>_. True) (prov_long mode pdu)"
proof -
  have ex: "consumes (prov_exchange n e st)" for n e st
    unfolding prov_exchange_def prov_reply_def take_request_def receive_def by (intro hang_intros)
  then have m: "consumes (prov_marker mode pdu)"
    by (auto simp: prov_marker_def unless_def intro: consumes_quiet)
  have c: "consumes (prov_chunk mode pdu x)" for x
    unfolding prov_chunk_def prov_reply_def take_request_def receive_def case_prod_unfold Let_def by (intro hang_intros)
  have h: "parts (\<lambda>_. True) prov_hangup" unfolding prov_hangup_def receive_def
    by (rule parts_received_now) (auto simp: expect_def guardM_def liftE_def guardE_def split: if_splits)
  show "parts (\<lambda>_. True) (thenM (prov_duplicates pdu) prov_hangup)"
    unfolding prov_duplicates_def by (intro parts_thenM hang_intros ex h)
  show "parts (\<lambda>_. True) (prov_long mode pdu)"
    unfolding prov_long_def using assms by (auto intro!: parts_thenM parts_bindM hang_intros m c h)
qed


section \<open>Whole peers\<close>

text \<open>The result \<open>Q\<close> means that one of the connections that arrived was left right after a disconnect frame.\<close>

definition hangs_up :: "('a \<Rightarrow> bool) \<Rightarrow> (net, 'a) prog \<Rightarrow> bool" where
  "hangs_up Q m \<longleftrightarrow> (\<forall>s a t. m s = (Inr a, t) \<longrightarrow> set (backlog t) \<subseteq> set (backlog s)
     \<and> (Q a \<longrightarrow> (\<exists>conn \<in> set (backlog s). parted disconnecting conn (rx t))))"

lemma connection_hangs_up:
  assumes "consumes setup_part" "consumes body" "parts Q body"
  shows "hangs_up Q (thenM accept (thenM setup_part (with_connection body)))"
  unfolding hangs_up_def
proof (intro allI impI)
  fix s a t
  assume r: "thenM accept (thenM setup_part (with_connection body)) s = (Inr a, t)"
  obtain c cs where c: "backlog s = c # cs"
    using r by (cases "backlog s") (auto simp: thenM_def bindM_def accept_def)
  let ?u = "log_io io.Accepted (s\<lparr>backlog := cs, rx := c, handles := handles s + 1\<rparr>)"
  have r': "thenM setup_part (with_connection body) ?u = (Inr a, t)"
    using r c by (simp add: thenM_def bindM_def accept_def)
  obtain b v where m: "setup_part ?u = (Inr b, v)" "with_connection body v = (Inr a, t)"
    using r' by (auto simp: thenM_def bindM_def split: prod.splits sum.splits)
  then have v: "follows c (rx v)" "backlog v = cs" using assms(1) unfolding consumes_def by fastforce+
  obtain w where w: "body v = (Inr a, w)" "rx t = rx w" "backlog t = backlog w"
    using m(2) by (cases "body v") (auto simp: with_connection_def finallyM_def close_def split: if_splits)
  have "backlog t = cs" using assms(2) w v(2) unfolding consumes_def by metis
  moreover have "parted disconnecting c (rx t)" if "Q a"
    using assms(3) w that v(1) parted_follows unfolding parts_def by metis
  ultimately show "set (backlog t) \<subseteq> set (backlog s) \<and> (Q a \<longrightarrow> (\<exists>conn \<in> set (backlog s). parted disconnecting conn (rx t)))"
    using c by auto
qed

lemma accepting_hangs_up:
  assumes "consumes body" "parts Q body"
  shows "hangs_up Q (accepting body)"
proof -
  have "accepting body = thenM accept (thenM (ret ()) (with_connection body))" by (simp add: accepting_def thenM_def)
  then show ?thesis using connection_hangs_up[OF consumes_quiet(1) assms] by simp
qed

lemma hangs_up_then:
  assumes "hangs_up R m" "\<And>a. R a \<Longrightarrow> still (f a)" "\<And>a. \<not> R a \<Longrightarrow> hangs_up Q (f a)"
  shows "hangs_up Q (bindM m f)"
  unfolding hangs_up_def
proof (intro allI impI)
  fix s b t
  assume r: "bindM m f s = (Inr b, t)"
  then obtain a u where m: "m s = (Inr a, u)" "f a u = (Inr b, t)" by (auto simp: bindM_def split: prod.splits sum.splits)
  note u = assms(1)[unfolded hangs_up_def, rule_format, OF m(1)]
  show "set (backlog t) \<subseteq> set (backlog s) \<and> (Q b \<longrightarrow> (\<exists>conn \<in> set (backlog s). parted disconnecting conn (rx t)))"
  proof (cases "R a")
    case True
    with assms(2) m(2) have "rx t = rx u" "backlog t = backlog u" unfolding still_def by blast+
    with u True show ?thesis by auto
  next
    case False
    from assms(3)[OF this, unfolded hangs_up_def, rule_format, OF m(2)] u show ?thesis by auto
  qed
qed

lemma hangs_up_collects:
  assumes "hangs_up (\<lambda>_. True) m" "collects m s = (Inr [], t) \<or> collects_narrow m s = (Inr [], t)"
  shows "\<exists>conn \<in> set (backlog s). parted disconnecting conn (rx t)"
proof -
  have "m s = (Inr (), t)"
    using assms(2) by (auto simp: collects_def collects_narrow_def catchM_def bindM_def ret_def raise_def
        split: prod.splits sum.splits if_splits)
  then show ?thesis using assms(1) unfolding hangs_up_def by blast
qed

lemma ext_hangs_up: "hangs_up (\<lambda>_. True) (steps_then [ext_first_connection operation]
   (thenM (ext_session (ext_transfer operation interval zero)) (late_connection msg)))"
proof -
  have memory: "consumes (ext_memory operation interval)"
    unfolding ext_memory_def by (intro hang_intros dl_hangup) (simp add: mem_loop_parts)
  have finish: "consumes (ext_download_end r)" for r
    unfolding ext_download_end_def by (intro hang_intros)
  have download: "consumes ext_download"
    unfolding ext_download_def ext_download_start_def steps_then.simps case_prod_unfold
    by (intro hang_intros dl_hangup finish) (simp add: ext_download_loop_parts)
  have body: "consumes (ext_transfer operation interval zero)"
    unfolding ext_transfer_def by (intro hang_intros dl_hangup memory download)
  have "hangs_up (\<lambda>_. True) (ext_session (ext_transfer operation interval zero))"
    unfolding ext_session_def by (intro connection_hangs_up dl_setup_consumes body ext_transfer_parts)
  moreover have "still (late_connection msg)"
    by (auto simp: still_def late_connection_def bindM_def wait_def thenM_def failing_def raise_def ret_def
        split: list.splits prod.splits sum.splits if_splits)
  ultimately have main: "hangs_up (\<lambda>_. True) (thenM (ext_session (ext_transfer operation interval zero)) (late_connection msg))"
    unfolding thenM_def by (rule hangs_up_then) simp_all
  have "hangs_up id (ext_session (on_request (\<lambda>_. after_delay (ret False))))"
    unfolding ext_session_def by (intro connection_hangs_up dl_setup_consumes hang_intros part_intros parts_ret) simp
  moreover have "hangs_up id (ret False)" by (simp add: hangs_up_def ret_def)
  ultimately have "hangs_up id (ext_first_connection operation)" by (simp add: ext_first_connection_def)
  then show ?thesis unfolding steps_then.simps by (rule hangs_up_then) (auto simp: main intro: still_quiet)
qed

lemma transfer_consumes: "consumes (transfer_conversation operation no_request)"
  unfolding transfer_conversation_def
  by (intro hang_intros dl_hangup consumes_steps) (auto simp: transfer_round_parts transfer_ends_parts)

lemma fault_hangs_up:
  assumes "mutation \<noteq> ''disconnect''" "phase < phases operation"
  shows "hangs_up (\<lambda>_. True) (bindM (ext_session (fault_conversation operation phase mutation)) (\<lambda>_. ret ()))"
proof (rule hangs_up_then[where R = "\<lambda>_. True"])
  show "hangs_up (\<lambda>_. True) (ext_session (fault_conversation operation phase mutation))"
    unfolding ext_session_def
    by (intro connection_hangs_up dl_setup_consumes fault_parts assms) (simp add: fault_conversation_def hang_intros fault_round_parts)
qed (simp_all add: still_quiet)


lemma prov_hangs_up:
  assumes "mode \<noteq> ''drop''"
  shows "hangs_up (\<lambda>_. True) (accepting (bindM receive (\<lambda>cr. thenM (send_confirm cr)
     (bindM take_request (\<lambda>setup_pdu. thenM (reply (p setup_pdu))
        (if mode = ''duplicates'' then thenM (prov_duplicates pdu) prov_hangup else prov_long mode pdu))))))"
proof (rule accepting_hangs_up)
  have ex: "consumes (prov_exchange n e st)" for n e st
    unfolding prov_exchange_def prov_reply_def take_request_def receive_def by (intro hang_intros)
  then have m: "consumes (prov_marker mode pdu)"
    by (auto simp: prov_marker_def unless_def intro: consumes_quiet)
  have c: "consumes (prov_chunk mode pdu x)" for x
    unfolding prov_chunk_def prov_reply_def take_request_def receive_def case_prod_unfold Let_def by (intro hang_intros)
  have h: "consumes prov_hangup" unfolding prov_hangup_def receive_def by (intro hang_intros)
  have body: "consumes (if mode = ''duplicates'' then thenM (prov_duplicates pdu) prov_hangup else prov_long mode pdu)"
    unfolding prov_duplicates_def prov_long_def by (intro hang_intros ex m c h)
  show "consumes (bindM receive (\<lambda>cr. thenM (send_confirm cr) (bindM take_request (\<lambda>setup_pdu. thenM (reply (p setup_pdu))
        (if mode = ''duplicates'' then thenM (prov_duplicates pdu) prov_hangup else prov_long mode pdu)))))"
    unfolding receive_def take_request_def by (intro consumes_bindM consumes_thenM consumes_receive body consumes_quiet consumes_reply)
  have last_part: "parts (\<lambda>_. True) (if mode = ''duplicates'' then thenM (prov_duplicates pdu) prov_hangup else prov_long mode pdu)"
    using prov_parts[OF assms] by simp
  show "parts (\<lambda>_. True) (bindM receive (\<lambda>cr. thenM (send_confirm cr) (bindM take_request (\<lambda>setup_pdu. thenM (reply (p setup_pdu))
        (if mode = ''duplicates'' then thenM (prov_duplicates pdu) prov_hangup else prov_long mode pdu)))))"
    unfolding receive_def take_request_def
    by (rule parts_bindM, rule consumes_receive, rule parts_thenM, rule consumes_reply, rule parts_bindM, intro hang_intros,
        rule parts_thenM, rule consumes_reply, rule last_part)
qed

section \<open>The scenarios that break the connection themselves\<close>

definition cuts :: "('a \<Rightarrow> bool) \<Rightarrow> (net, 'a) prog \<Rightarrow> bool" where
  "cuts Q m \<longleftrightarrow> (\<forall>s r t. m s = (Inr r, t) \<and> Q r \<longrightarrow> Shutdown \<in> set (io_log t))"

lemma cuts_bindM: "(\<And>a. cuts Q (f a)) \<Longrightarrow> cuts Q (bindM m f)"
  unfolding cuts_def bindM_def by (auto split: prod.splits sum.splits)

lemma cuts_thenM: "cuts Q n \<Longrightarrow> cuts Q (thenM m n)"
  unfolding thenM_def by (rule cuts_bindM)

lemma cuts_first: "cuts Q m \<Longrightarrow> (\<And>a. \<not> Q a \<Longrightarrow> cuts R (f a)) \<Longrightarrow> (\<And>a. Q a \<Longrightarrow> f a = ret (g a)) \<Longrightarrow> cuts R (bindM m f)"
  unfolding cuts_def bindM_def by (fastforce simp: ret_def split: prod.splits sum.splits)

lemma cuts_note: "cuts Q (thenM (note_io Shutdown) (ret x))"
  by (auto simp: cuts_def thenM_def bindM_def note_io_def ret_def)

lemma cuts_never: "(\<And>s r t. m s = (Inr r, t) \<Longrightarrow> \<not> Q r) \<Longrightarrow> cuts Q m"
  unfolding cuts_def by blast

lemma cuts_loopM: "(\<And>x. cuts id (f x)) \<Longrightarrow> cuts id (loopM f xs)"
proof (induction xs)
  case (Cons x xs)
  show ?case
    unfolding loopM.simps by (rule cuts_first[where Q = id and g = "\<lambda>_. True"]) (use Cons in \<open>simp_all add: id_def\<close>)
qed (simp add: cuts_def ret_def)

lemma cuts_connection: "cuts Q m \<Longrightarrow> cuts Q (with_connection m)"
  unfolding cuts_def with_connection_def finallyM_def close_def by (auto split: prod.splits sum.splits if_splits)

lemma cuts_collects:
  assumes "cuts (\<lambda>_. True) m" "collects m s = (Inr [], t) \<or> collects_narrow m s = (Inr [], t)"
  shows "Shutdown \<in> set (io_log t)"
proof -
  have "m s = (Inr (), t)"
    using assms(2) by (auto simp: collects_def collects_narrow_def catchM_def bindM_def ret_def raise_def
        split: prod.splits sum.splits if_splits)
  then show ?thesis using assms(1) unfolding cuts_def by blast
qed

lemma fault_cuts:
  assumes "phase < phases operation"
  shows "cuts (\<lambda>_. True) (bindM (ext_session (fault_conversation operation phase ''disconnect'')) (\<lambda>_. ret ()))"
proof -
  have round: "cuts id (fault_round operation phase ''disconnect'' index)" for index
  proof (cases "index = phase")
    case True
    then show ?thesis unfolding fault_round_def by (auto intro!: cuts_bindM cuts_note)
  next
    case False
    then show ?thesis
      by (intro cuts_never) (auto simp: fault_round_def bindM_def thenM_def ret_def split: prod.splits sum.splits)
  qed
  have "fault_round operation phase ''disconnect'' phase s \<noteq> (Inr False, t)" for s t
    by (auto simp: fault_round_def bindM_def thenM_def ret_def split: prod.splits sum.splits)
  then have "fault_conversation operation phase ''disconnect'' s \<noteq> (Inr False, t)" for s t
    unfolding fault_conversation_def
    by (rule loopM_returns[rotated, where x = phase]) (use assms in \<open>auto simp: phases_def split: if_splits\<close>)
  moreover have "cuts id (fault_conversation operation phase ''disconnect'')"
    unfolding fault_conversation_def by (rule cuts_loopM) (rule round)
  ultimately have "cuts (\<lambda>_. True) (fault_conversation operation phase ''disconnect'')" unfolding cuts_def by (metis id_apply)
  then have "cuts (\<lambda>_. True) (ext_session (fault_conversation operation phase ''disconnect''))"
    unfolding ext_session_def by (intro cuts_thenM cuts_connection)
  then show ?thesis by (rule cuts_first) (simp_all)
qed

lemma drop_chunk: "0 < limit \<Longrightarrow> limit < amount \<Longrightarrow> \<exists>n. (limit, n) \<in> set (chunks limit amount)"
  unfolding chunks_def by (subst chunks_from_step, simp, simp, subst chunks_from_step) auto

lemma prov_cuts:
  assumes "28 < pdu" "pdu < 728"
  shows "cuts (\<lambda>_. True) (prov_long ''drop'' pdu)"
proof -
  have chunk: "cuts id (prov_chunk ''drop'' pdu x)" for x
  proof (cases "fst x = pdu - 28")
    case True
    then show ?thesis unfolding prov_chunk_def by (auto intro!: cuts_bindM cuts_thenM cuts_note split: prod.split)
  next
    case False
    then show ?thesis
      by (intro cuts_never) (auto simp: prov_chunk_def bindM_def thenM_def ret_def Let_def split: prod.splits sum.splits)
  qed
  obtain n where n: "(pdu - 28, n) \<in> set (chunks (pdu - 28) 700)" using drop_chunk[of "pdu - 28" 700] assms by auto
  have "prov_chunk ''drop'' pdu (pdu - 28, n) s \<noteq> (Inr False, t)" for s t
    by (auto simp: prov_chunk_def bindM_def thenM_def ret_def split: prod.splits sum.splits)
  then have "loopM (prov_chunk ''drop'' pdu) (chunks (pdu - 28) 700) s \<noteq> (Inr False, t)" for s t
    by (rule loopM_returns[OF n])
  moreover have "cuts id (loopM (prov_chunk ''drop'' pdu) (chunks (pdu - 28) 700))" by (rule cuts_loopM) (rule chunk)
  ultimately have "cuts (\<lambda>_. True) (bindM (loopM (prov_chunk ''drop'' pdu) (chunks (pdu - 28) 700)) (\<lambda>stopped.
      if stopped \<and> ''drop'' = ''drop'' then ret () else thenM (prov_marker ''drop'' pdu) prov_hangup))"
    unfolding cuts_def bindM_def by (fastforce simp: ret_def split: prod.splits sum.splits if_splits)
  then show ?thesis unfolding prov_long_def by (rule cuts_thenM)
qed

lemma broken_off:
  "phase < phases operation \<Longrightarrow> fault_serve operation phase ''disconnect'' s = (Inr [], t) \<Longrightarrow> Shutdown \<in> set (io_log t)"
  "28 < pdu \<Longrightarrow> pdu < 728 \<Longrightarrow> prov_serve ''drop'' pdu s = (Inr [], t) \<Longrightarrow> Shutdown \<in> set (io_log t)"
proof -
  show "phase < phases operation \<Longrightarrow> fault_serve operation phase ''disconnect'' s = (Inr [], t) \<Longrightarrow> Shutdown \<in> set (io_log t)"
    using cuts_collects[OF fault_cuts] unfolding fault_serve_def by blast
  assume "28 < pdu" "pdu < 728" and run: "prov_serve ''drop'' pdu s = (Inr [], t)"
  then have "cuts (\<lambda>_. True) (accepting (bindM receive (\<lambda>cr. thenM (send_confirm cr) (bindM take_request (\<lambda>setup_pdu.
      thenM (reply (prov_setup pdu setup_pdu))
        (if ''drop'' = ''duplicates'' then thenM (prov_duplicates pdu) prov_hangup else prov_long ''drop'' pdu))))))"
    unfolding accepting_def by (intro cuts_thenM cuts_connection cuts_bindM) (simp add: prov_cuts)
  from cuts_collects[OF this] run show "Shutdown \<in> set (io_log t)" unfolding prov_serve_def serving_def by blast
qed

section \<open>The claim\<close>

text \<open>C26: A peer without complaint has seen its client hang up, or broke the connection itself: when the transfer peer, the
  extended one, the one with a fault in one of its phases or the provenance peer records no error, the last octets it took off one of
  the connections are one whole TPKT frame whose TPDU is a COTP disconnect request; in the scenarios disconnect and
  drop (at a negotiated size with a second chunk), where the peer is to break the connection, it has shut it down.\<close>
theorem deadline_peers_see_disconnect:
  assumes "m s = (Inr [], t)"
    and "(m, broken) \<in> {(transfer_serve operation no_request, False), (ext_serve operation interval zero, False),
      (fault_serve operation phase mutation, mutation = ''disconnect''), (prov_serve mode pdu, mode = ''drop'')}"
    and "phase < phases operation" and "28 < pdu" "pdu < 728"
  shows "if broken then Shutdown \<in> set (io_log t) else \<exists>conn \<in> set (backlog s). parted disconnecting conn (rx t)"
proof -
  consider (transfer) "m = transfer_serve operation no_request" "\<not> broken" | (ext) "m = ext_serve operation interval zero" "\<not> broken"
    | (fault) "m = fault_serve operation phase mutation" "mutation \<noteq> ''disconnect''" "\<not> broken"
    | (cut) "m = fault_serve operation phase ''disconnect''" broken
    | (prov) "m = prov_serve mode pdu" "mode \<noteq> ''drop''" "\<not> broken" | (dropped) "m = prov_serve ''drop'' pdu" broken
    using assms(2) by (elim insertE emptyE) auto
  then show ?thesis
  proof cases
    case transfer
    with assms(1) show ?thesis
      using hangs_up_collects[OF accepting_hangs_up[OF transfer_consumes transfer_parts]]
      unfolding transfer_serve_def serving_def by metis
  next
    case ext
    with assms(1) show ?thesis using hangs_up_collects[OF ext_hangs_up] unfolding ext_serve_def by metis
  next
    case fault
    with assms(1) show ?thesis using hangs_up_collects[OF fault_hangs_up[OF fault(2) assms(3)]] unfolding fault_serve_def by metis
  next
    case prov
    with assms(1) show ?thesis
      using hangs_up_collects[OF prov_hangs_up[OF prov(2), where p = "prov_setup pdu" and pdu = pdu]]
      unfolding prov_serve_def serving_def by metis
  next
    case cut
    with assms(1) show ?thesis using broken_off(1)[OF assms(3)] by simp
  next
    case dropped
    with assms(1) show ?thesis using broken_off(2)[OF assms(4,5)] by simp
  qed
qed

definition ex_hangup :: arrival where
  "ex_hangup = Chunk ([3, 0, 0, 11, 6, 0xe0, 0, 0, 0, 1, 0] @ [3, 0, 0, 17, 2, 0xf0, 0x80, 0x32, 1, 0, 0, 0, 1, 0, 0, 0, 0]
     @ [3, 0, 0, 11, 6, 0x80, 0, 1, 0, 2, 0])"

theorem deadline_peers_see_disconnect_witness:
  "\<exists>t. transfer_serve ''szl'' True (start [[ex_hangup]]) = (Inr [], t) \<and> parted disconnecting [ex_hangup] (rx t)"
proof -
  have "fst (transfer_serve ''szl'' True (start [[ex_hangup]])) = Inr []"
    unfolding ex_hangup_def by code_simp
  then obtain t where t: "transfer_serve ''szl'' True (start [[ex_hangup]]) = (Inr [], t)"
    by (cases "transfer_serve ''szl'' True (start [[ex_hangup]])") simp
  then have "if False then Shutdown \<in> set (io_log t) else \<exists>conn \<in> set (backlog (start [[ex_hangup]])). parted disconnecting conn (rx t)"
    by (rule deadline_peers_see_disconnect[where operation = "''szl''" and no_request = True and phase = 0 and pdu = 240])
      (simp_all add: phases_def)
  then show ?thesis using t by (simp add: start_def)
qed

end
