(* ===== verification/Histories.thy ===== *)
theory Histories
  imports Fuzz
begin

text \<open>
  The histories the generator of \<^verbatim>\<open>session_fuzz.py\<close> draws, read back through the validators of the
  corpus: every dictionary it builds has the type the oracle expects, for every seed.
\<close>

section \<open>Every generated value has its type\<close>

definition drawn_ok :: "sevent \<Rightarrow> bool" where
  "drawn_ok e = (case e of ResponseEvent pdu \<Rightarrow> length pdu \<le> 87 | _ \<Rightarrow> True)"

lemma byte_list_read: "length bs \<le> 65535 \<Longrightarrow> octets (byte_list bs) = Inr bs"
proof -
  assume l: "length bs \<le> 65535"
  have "mapE (\<lambda>x. bindE (integer x 255) (\<lambda>i. Inr (byte i))) (map JInt (ints_of bs)) = Inr bs"
  proof (induction bs)
    case (Cons b bs)
    then show ?case using uint_byte_bounds[of b] by (simp add: integer_def ints_of_def)
  qed (simp add: ints_of_def)
  with l show ?thesis by (simp add: octets_def byte_list_def) (simp add: ints_of_def)
qed

lemma kind_name_read: "enum_of error_kinds (jtext (kind_name k)) = Inr k"
  by (cases k) (simp_all add: error_kinds_def)

lemma event_json_read: "drawn_ok e \<Longrightarrow> parse_sevent (event_json e) = Inr e"
  by (cases e) (auto simp: parse_sevent_def parse_failure_def parse_response_def shape_def kind_name_read byte_list_read
      drawn_ok_def insert_commute)

lemma events_read: "list_all drawn_ok evs \<Longrightarrow> mapE parse_sevent (map event_json evs) = Inr evs"
  by (induction evs) (simp_all add: event_json_read)

definition fuzz_range :: "mem_range \<Rightarrow> bool" where
  "fuzz_range r \<longleftrightarrow> mr_db r \<in> {0, 1, 65535} \<and> 0 \<le> mr_start r \<and> mr_start r < 128 \<and> 1 \<le> mr_count r \<and> mr_count r \<le> 7"

definition fuzz_location :: "location \<Rightarrow> bool" where
  "fuzz_location l \<longleftrightarrow> fuzz_range (loc_range l) \<and> (\<exists>i. loc_item l = Some i \<and> 0 \<le> i \<and> i \<le> 0xFFFFFFFF)
     \<and> 0 \<le> loc_offset l \<and> loc_offset l < 8"

lemma range_json_read: "fuzz_range r \<Longrightarrow> memory_range (range_json r) = Inr r"
  by (cases r) (auto simp: fuzz_range_def range_json_def memory_range_def shape_def integer_def)

lemma location_json_read: "fuzz_location l \<Longrightarrow> location (location_json l) = Inr l"
proof -
  assume l: "fuzz_location l"
  then obtain i where i: "loc_item l = Some i" "0 \<le> i" "i \<le> 0xFFFFFFFF" by (auto simp: fuzz_location_def)
  have "memory_range (range_json (loc_range l)) = Inr (loc_range l)" using l by (simp add: fuzz_location_def range_json_read)
  then show ?thesis using l i
    by (cases l) (auto simp: fuzz_location_def location_json_def location_def shape_def integer_def)
qed

lemma locations_read: "list_all fuzz_location ls \<Longrightarrow> mapE location (map location_json ls) = Inr ls"
  by (induction ls) (simp_all add: location_json_read)

lemma fuzz_address: "fuzz_range r \<Longrightarrow> \<exists>a. address r = Inr a \<and> length a = 12"
  by (auto simp: fuzz_range_def address_def pack_def to_bytes_def simp del: be_bytes_numeral)

lemma fuzz_addresses: "list_all fuzz_range rs \<Longrightarrow> \<exists>a. concatE (map address rs) = Inr a \<and> length a = 12 * length rs"
proof (induction rs)
  case (Cons r rs)
  then obtain a where "concatE (map address rs) = Inr a" "length a = 12 * length rs" by auto
  then show ?case using fuzz_address[of r] Cons.prems by auto
qed simp

lemma fuzz_write_items: "list_all fuzz_range rs \<Longrightarrow> \<exists>a. write_items rs = Inr a \<and> length a \<le> 12 * length rs"
proof (induction rs)
  case (Cons r rs)
  then obtain a where a: "write_items rs = Inr a" "length a \<le> 12 * length rs" by auto
  have c: "len (payload r) * 8 < 65536" "length (payload r) \<le> 7"
    using Cons.prems by (auto simp: fuzz_range_def len_def)
  then show ?case using a by (auto simp: pack_def Let_def simp del: be_bytes_numeral payload_length)
qed simp

lemma fuzz_request:
  assumes "list_all fuzz_range rs" "1 \<le> length rs" "length rs \<le> 6" "0 \<le> reference" "reference < 65536"
  shows "\<exists>pdu. request reference rs w = Inr (Some pdu) \<and> length pdu \<le> 65535"
proof -
  obtain specs where specs: "concatE (map address rs) = Inr specs" "length specs = 12 * length rs"
    using fuzz_addresses[OF assms(1)] by blast
  obtain data where data: "(if w then write_items rs else Inr []) = Inr data" "length data \<le> 12 * length rs"
    using fuzz_write_items[OF assms(1)] by (cases w) auto
  have ok: "\<not> list_ex (\<lambda>item. mr_count item = 0 \<or> mr_start item + mr_count item > 0x200000
                \<or> w \<and> mr_count item * 8 > 65535) rs"
    using assms(1) by (induction rs) (auto simp: fuzz_range_def)
  have ne: "\<not> (rs = [] \<or> length rs > 20)" using assms(2,3) by auto
  have big: "\<not> length data > 65535" using data(2) assms(3) by simp
  obtain hd' where hd': "bytes_of [if w then 5 else 4, len rs] = Inr hd'" "length hd' = 2"
    using assms(3) by (auto simp: bytes_of_Inr_iff len_def)
  obtain pdu where pdu: "packet 1 reference (hd' @ specs) data = Inr pdu"
    using packet_ok[of 1 reference "hd' @ specs" data] assms(3-5) specs(2) data(2) hd'(2) by auto
  have "length pdu \<le> 65535" using packet_length[OF pdu] specs(2) data(2) hd'(2) assms(3) by simp
  then show ?thesis
    unfolding request_def if_not_P[OF ne] if_not_P[OF ok] hd'(1) specs(1) data(1) bindE.simps if_not_P[OF big] pdu by simp
qed

definition fuzz_typed :: "config \<times> bytes \<Rightarrow> bool" where
  "fuzz_typed = (\<lambda>(c, pdu). small_config c \<and> cf_locations c \<noteq> [] \<and> configuration (config_json c pdu) = Inr c)"

lemma config_json_read:
  assumes "list_all fuzz_location (cf_locations c)" "1 \<le> length (cf_locations c)" "length (cf_locations c) \<le> 6"
    "0 \<le> cf_reference c" "cf_reference c < 65536" "0 \<le> cf_budget c" "cf_budget c < 5"
    "request (cf_reference c) (map loc_range (cf_locations c)) (cf_write c) = Inr (Some pdu)" "length pdu \<le> 65535"
  shows "fuzz_typed (c, pdu)"
proof -
  have "small_config c" using assms(1-5)
    by (auto simp: small_config_def list_all_iff fuzz_location_def fuzz_range_def)
  moreover have "shape (config_json c pdu) [''write'', ''safety'', ''allow_potentially_mutating'', ''budget'', ''reference'',
        ''locations'', ''request_pdu''] = Inr ()"
    by (simp add: shape_def config_json_def)
  moreover have "integer (JInt (cf_budget c)) 16 = Inr (cf_budget c)" "integer (JInt (cf_reference c)) 65535 = Inr (cf_reference c)"
    using assms(4-7) by (simp_all add: integer_def)
  moreover have "wire (byte_list pdu) (Some pdu) = Inr ()"
    using byte_list_read[OF assms(9)] by (simp add: wire_def) (simp add: byte_list_def)
  moreover note locations_read[OF assms(1)]
  ultimately show ?thesis
    using assms(2,3,8) by (cases c) (auto simp: fuzz_typed_def configuration_def config_json_def)
qed

lemma always_fuzz_locations:
  assumes "list_all fuzz_location locs" "length locs + n \<le> 6"
  shows "always (\<lambda>ls. list_all fuzz_location ls \<and> length ls = length locs + n) (fuzz_locations n locs)"
  using assms
proof (induction n arbitrary: locs)
  case 0
  then show ?case by (simp add: always_ret)
next
  case (Suc n)
  show ?case
    unfolding fuzz_locations.simps
    apply (rule always_bind[OF always_pick], simp)
    apply (rule always_bind[OF always_draw], simp)
    apply (rule always_bind[OF always_draw], simp)
    apply (rule always_bind[where Q = "\<lambda>again. again \<longrightarrow> locs \<noteq> []"])
    subgoal by (auto intro!: always_ret always_bind[OF always_draw])
    apply (rule always_bind[where Q = fuzz_range])
    subgoal
      using Suc.prems(1) by (auto intro!: always_ret always_bind[OF always_pick] simp: fuzz_range_def list_all_iff fuzz_location_def)
    apply (rule always_bind[OF always_draw], simp)
    apply (rule always_mono[OF Suc.IH])
    using Suc.prems by (auto simp: fuzz_location_def len_def)
qed

lemma always_fuzz_config: "always fuzz_typed fuzz_config"
  unfolding fuzz_config_def
  apply (rule always_bind[OF always_draw], simp)
  apply (rule always_bind[OF always_draw], simp)
  subgoal for w n
    apply (rule always_bind[where Q = "\<lambda>ls. list_all fuzz_location ls \<and> 1 \<le> length ls \<and> length ls \<le> 6"])
    subgoal using always_fuzz_locations[of "[]" "nat n"] by (rule always_mono) auto
    apply (rule always_bind[OF always_draw], simp)
    apply (rule always_bind[OF always_draw], simp)
    apply (rule always_bind[OF always_draw], simp)
    apply (rule always_bind[OF always_pick], simp)
    subgoal for locs allow budget x reference
      using fuzz_request[of "map loc_range locs" reference "w \<noteq> 0"] config_json_read
      by (auto simp: list_all_iff fuzz_location_def liftE_ret intro!: always_ret)
    done
  done

lemma or_one_range: "0 \<le> or (uint (b :: byte)) 1 \<and> or (uint b) 1 < 256"
proof -
  have "or (uint b) 1 = uint (or b 1)" by (simp add: unsigned_or_eq)
  then show ?thesis using uint_byte_bounds by metis
qed

lemma always_fuzz_reply:
  assumes "small_config c" "0 \<le> m" "m < 16"
  shows "always drawn_ok (fuzz_reply c m)"
proof -
  have "always (\<lambda>bs. length bs \<le> 87) (mutate c m pdu)" if f: "framed c pdu" for pdu
  proof -
    obtain r1 r2 n data where pdu: "pdu = [0x32, 3, 0, 0, r1, r2, 0, 2, 0, byte (len data), 0, 0,
        if cf_write c then 5 else 4, byte n] @ data" "n = len (cf_locations c)" "n \<le> 6" "length data \<le> 72"
        "body_verdict c data = None" "data \<noteq> []"
      using f unfolding framed_def by metis
    have "4 \<le> length data" if "\<not> cf_write c"
      using that pdu(5,6) by (cases "cf_locations c") (auto simp: body_verdict_def split: if_splits)
    then have l: "18 \<le> length pdu \<or> cf_write c" "15 \<le> length pdu" "length pdu \<le> 86"
      using pdu(4,6) by (cases data; auto simp: pdu(1))+
    have n: "uint (pdu ! 13) + 1 < 256" using pdu(2,3) by (simp add: pdu(1) uint_byte_id len_def)
    have ne: "pdu \<noteq> []" "0 < len pdu" using l(2) by (auto simp: len_def)
    have ch: "i < length pdu \<Longrightarrow> \<exists>bs. change i (\<lambda>v. xor v 1) pdu = Inr bs \<and> length bs = length pdu"
      "\<exists>bs. change 13 (\<lambda>v. v + 1) pdu = Inr bs \<and> length bs = length pdu"
      "i < length pdu \<Longrightarrow> \<exists>bs. change i (\<lambda>v. or v 1) pdu = Inr bs \<and> length bs = length pdu"
      "i < length pdu \<Longrightarrow> 0 \<le> v \<Longrightarrow> v < 256 \<Longrightarrow> \<exists>bs. put i v pdu = Inr bs \<and> length bs = length pdu" for i v
      using l(2) n uint_byte_bounds[of "pdu ! 13"] or_one_range[of "pdu ! i"] xor_one_range[of "pdu ! i"]
      by (auto simp: change_xor change_def put_def at_def)
    have lift: "\<exists>bs. r = Inr bs \<and> length bs = length pdu \<Longrightarrow> always (\<lambda>bs. length bs \<le> 87) (liftE r)" for r
      using l(3) by (auto intro!: always_lift)
    show ?thesis
      unfolding mutate_def
      using l ne
      by (auto intro!: always_if lift ch always_ret always_bind[OF always_draw] simp: splice_def)
  qed
  then show ?thesis
    unfolding fuzz_reply_def
    by (auto intro!: always_bind[OF always_reply_pdu[OF assms(1)]] always_bind[of "\<lambda>bs. length bs \<le> 87"] always_ret simp: drawn_ok_def)
qed

lemma always_choice_event:
  "xs \<noteq> [] \<Longrightarrow> always drawn_ok (bindM (pick xs) (\<lambda>k. ret (FailureEvent k)))"
  by (auto intro!: always_bind[OF always_pick] always_ret simp: drawn_ok_def)

lemma always_drawn_reply: "small_config c \<Longrightarrow> always drawn_ok (bindM (draw 0 16) (fuzz_reply c))"
  by (rule always_bind[OF always_draw]) (auto intro: always_fuzz_reply)

lemma always_flip: "always P m \<Longrightarrow> always P n \<Longrightarrow> always P (bindM (draw 0 2) (\<lambda>r. if r \<noteq> 0 then m else n))"
  by (rule always_bind[OF always_draw]) simp_all

lemma plain_events:
  "always drawn_ok (ret Begin)" "always drawn_ok (ret SendRequest)" "always drawn_ok (ret (FailureEvent k))"
  "always drawn_ok (ret ReconnectSetup)" "always drawn_ok (ret ReconnectedEvent)" "always drawn_ok (ret DisconnectEvent)"
  by (simp_all add: always_ret drawn_ok_def)

lemma always_fuzz_event:
  assumes "small_config c"
  shows "always drawn_ok (fuzz_event c ph)"
proof -
  have s: "always drawn_ok (steered c ph)"
    using always_drawn_reply[OF assms] always_choice_event[of "[Timeout, TransportError, DisconnectedError]"]
      always_choice_event[of "[Timeout, TransportError, DisconnectedError, ProtocolError, PlcRejected]"]
    by (cases ph) (simp_all add: steered_def always_flip plain_events)
  have u: "always drawn_ok (unsteered c)"
    unfolding unsteered_def
    by (rule always_bind[OF always_pick]) (simp_all add: always_drawn_reply[OF assms] plain_events)
  show ?thesis
    unfolding fuzz_event_def
    by (rule always_bind[where Q = "\<lambda>_. True"]) (auto intro!: always_coin always_ret s u)
qed

section \<open>Every history is one the oracle accepts\<close>

lemma events_run:
  assumes "configuration cfg = Inr c" "list_all drawn_ok evs" "evs \<noteq> []" "length evs \<le> 1024"
  shows "\<exists>steps. strace cfg (JArr (map event_json evs)) = Inr steps \<and> length steps = length evs"
  using strace_total_from[OF sess_inv_init[OF configuration_ok(1)[OF assms(1)]] configuration_ok(1)[OF assms(1)] events_read[OF assms(2)]]
    assms(1,3,4)
  by (cases evs) (auto simp: strace_def)

lemma always_fuzz_events:
  assumes "configuration cfg = Inr c" "small_config c" "list_all drawn_ok evs" "evs \<noteq> []" "length evs + n \<le> 1024"
  shows "always (\<lambda>es. list_all drawn_ok es \<and> length es = length evs + n \<and> es \<noteq> []) (fuzz_events cfg c n evs)"
  using assms
proof (induction n arbitrary: evs)
  case 0
  then show ?case by (simp add: always_ret)
next
  case (Suc n)
  obtain steps where steps: "strace cfg (JArr (map event_json evs)) = Inr steps"
    using events_run[OF Suc.prems(1,3,4)] Suc.prems(5) by auto
  show ?case
    unfolding fuzz_events.simps steps liftE_ret ret_bind
    apply (rule always_bind[OF always_fuzz_event[OF Suc.prems(2)]])
    apply (rule always_mono[OF Suc.IH])
    using Suc.prems by auto
qed

lemma strace_from_append:
  "strace_from c s (es @ fs) = Inr steps \<Longrightarrow>
     \<exists>s' rest. strace_from c s' fs = Inr rest \<and> steps = take (length es) steps @ rest"
proof (induction es arbitrary: s steps)
  case Nil
  then show ?case by auto
next
  case (Cons e es)
  then show ?case by (fastforce split: prod.splits)
qed

lemma closing_run: "\<exists>steps. strace_from c s (map event_json closing) = Inr steps \<and> steps \<noteq> [] \<and> st_phase (last steps) = ClosedPhase"
  by (simp add: closing_def event_json_read drawn_ok_def sess_snapshot_def del: event_json.simps)

definition accepted_case :: "fuzz_case \<Rightarrow> bool" where
  "accepted_case cs \<longleftrightarrow> (\<exists>c steps. configuration (fz_config cs) = Inr c
     \<and> mapE parse_sevent (map event_json (fz_events cs)) = Inr (fz_events cs)
     \<and> replay_check (case_json cs) = Inr steps \<and> length steps = length (fz_events cs)
     \<and> 15 \<le> length (fz_events cs) \<and> length (fz_events cs) \<le> 31 \<and> st_phase (last steps) = ClosedPhase)"

lemma closed_history:
  assumes "configuration cfg = Inr c" "list_all drawn_ok evs" "11 \<le> length evs" "length evs \<le> 27"
    "0 \<le> seed" "seed \<le> 0xFFFFFFFF" "index \<le> 4095"
  shows "accepted_case \<lparr>fz_seed = seed, fz_index = index, fz_config = cfg, fz_events = evs @ closing\<rparr>"
proof -
  let ?es = "evs @ closing"
  have ok: "list_all drawn_ok ?es" using assms(2) by (simp add: closing_def drawn_ok_def)
  have l: "15 \<le> length ?es" "length ?es \<le> 31" "?es \<noteq> []" using assms(3,4) by (simp_all add: closing_def)
  obtain steps where steps: "strace cfg (JArr (map event_json ?es)) = Inr steps" "length steps = length ?es"
    using events_run[OF assms(1) ok l(3)] l(2) by auto
  then have "strace_from c sess_init (map event_json evs @ map event_json closing) = Inr steps"
    using assms(1) by (auto simp: strace_def)
  then have "st_phase (last steps) = ClosedPhase"
    using strace_from_append[of c sess_init "map event_json evs" "map event_json closing" steps] closing_run[of c]
    by (metis Inr_inject last_appendR)
  moreover have "replay_check (JObj [(''seed'', JInt seed), (''case_index'', JInt (int index)),
      (''config'', cfg), (''events'', JArr (map event_json ?es))]) = Inr steps"
    using steps l assms(1,5-7)
    by (simp add: replay_check_def shape_def integer_def del: map_append)
  ultimately show ?thesis
    using assms(1) events_read[OF ok] l steps(2) unfolding accepted_case_def case_json_def by auto
qed

lemma always_fuzz_history:
  assumes "0 \<le> seed" "seed \<le> 0xFFFFFFFF" "index \<le> 4095"
  shows "always (\<lambda>cs. accepted_case cs \<and> fz_index cs = index) (fuzz_history seed index)"
proof -
  have third: "always drawn_ok (if index mod 4 \<in> {0, 2} then ret (FailureEvent DisconnectedError)
      else fuzz_reply c (if index mod 4 = 1 then int (index div 4 mod 16) else 0))" if "small_config c" for c
    using always_fuzz_reply[OF that] by (auto simp: plain_events)
  have rest: "always (\<lambda>cs. accepted_case cs \<and> fz_index cs = index)
      (bindM (draw 8 25) (\<lambda>n. bindM (fuzz_events cfg c (nat n) [Begin, SendRequest, e]) (\<lambda>evs.
       ret \<lparr>fz_seed = seed, fz_index = index, fz_config = cfg, fz_events = evs @ closing\<rparr>)))"
    if "configuration cfg = Inr c" "small_config c" "drawn_ok e" for cfg c e
    apply (rule always_bind[OF always_draw], simp)
    subgoal for n
      apply (rule always_bind[OF always_fuzz_events[OF that(1,2)]])
      using that(3) apply (simp_all add: drawn_ok_def)[3]
      using closed_history[OF that(1) _ _ _ assms] apply (auto intro!: always_ret)
      done
    done
  show ?thesis
    unfolding fuzz_history_def
  proof (rule always_bind[OF always_fuzz_config])
    fix a assume t: "fuzz_typed a"
    obtain c pdu where a: "a = (c, pdu)" by (cases a)
    show "always (\<lambda>cs. accepted_case cs \<and> fz_index cs = index) ((\<lambda>(c, pdu). let cfg = config_json c pdu in
       bindM (if index mod 4 \<in> {0, 2} then ret (FailureEvent DisconnectedError)
              else fuzz_reply c (if index mod 4 = 1 then int (index div 4 mod 16) else 0)) (\<lambda>third.
       bindM (draw 8 25) (\<lambda>n. bindM (fuzz_events cfg c (nat n) [Begin, SendRequest, third]) (\<lambda>evs.
       ret \<lparr>fz_seed = seed, fz_index = index, fz_config = cfg, fz_events = evs @ closing\<rparr>)))) a)"
      using t unfolding a prod.case Let_def fuzz_typed_def
      by (intro always_bind[OF third] rest) blast+
  qed
qed

lemma always_fuzz_generate:
  assumes "0 \<le> seed" "seed \<le> 0xFFFFFFFF" "list_all (\<lambda>i. i \<le> 4095) indices"
  shows "always (\<lambda>css. map fz_index css = indices \<and> list_all accepted_case css) (fuzz_generate seed indices)"
  using assms(3)
proof (induction indices)
  case Nil
  show ?case by (simp add: always_ret)
next
  case (Cons i indices)
  then show ?case
    by (auto intro!: always_bind[OF always_fuzz_history[OF assms(1,2)]] always_bind[of "\<lambda>css. map fz_index css = indices \<and> list_all accepted_case css"] always_ret)
qed

text \<open>C20: The generator of session histories is well typed: for every seed and every draw it never raises, gives the
  asked number of cases in order, and each case is one the replay check accepts, with a valid configuration, events
  that read back as themselves, 15 to 31 steps of the session oracle, and a closed session at the end.\<close>
theorem generated_histories_accepted:
  assumes "0 \<le> seed" "seed \<le> 0xFFFFFFFF" "cnt \<le> 4096"
  shows "\<exists>cases d'. generate_histories seed cnt d = (Inr cases, d')
    \<and> map fz_index cases = [0..<cnt] \<and> list_all accepted_case cases"
  using always_fuzz_generate[OF assms(1,2), of "[0..<cnt]"] assms(3)
  by (auto simp: generate_histories_def always_def list_all_iff)

section \<open>A run of the generator\<close>

theorem generated_histories_accepted_witness:
  "\<exists>cases d'. generate_histories 2026 64 (\<lambda>_. 0) = (Inr cases, d') \<and> length cases = 64 \<and> list_all accepted_case cases"
proof -
  obtain cases d' where c: "generate_histories 2026 64 (\<lambda>_. 0) = (Inr cases, d')" "map fz_index cases = [0..<64]"
    "list_all accepted_case cases"
    using generated_histories_accepted[of 2026 64 "\<lambda>_. 0"] by auto
  have "length cases = 64" using arg_cong[OF c(2), of length] by simp
  with c show ?thesis by auto
qed

end
