(* ===== verification/Emulator.thy ===== *)
theory Emulator
  imports Faults
begin

text \<open>
  \<^verbatim>\<open>MultiItemServer\<close> of \<^verbatim>\<open>run.py\<close>, the emulated PLC. Its base class, \<^verbatim>\<open>snap7.server.Server\<close>, and the enumerations of
  \<^verbatim>\<open>snap7.s7protocol\<close> belong to python-snap7: what the class calls of them are the fields of \<open>library\<close>, over a base
  state of any type. What its handlers add, overridden reads and writes, and the three dictionaries of transfers in progress,
  one entry per client address, is modelled as it is.
\<close>

section \<open>The library\<close>

type_synonym client = "string \<times> int"

text \<open>The entries of a parsed request that are used; \<open>rq_data\<close> is \<^verbatim>\<open>request["data"]["data"]\<close> where there is one.\<close>

record emu_request =
  rq_sequence :: int
  rq_parameters :: bytes
  rq_data :: "bytes option"
  rq_raw :: bytes

record emu_spec =
  sp_area :: int
  sp_db :: int
  sp_start :: int
  sp_count :: int
  sp_word :: int

text \<open>The dictionary of USER_DATA parameters.\<close>

type_synonym userdata_params = "string \<rightharpoonup> int"

record 'b library =
  li_parse :: "bytes \<Rightarrow> emu_request result"
  li_address :: "bytes \<Rightarrow> emu_spec option result"
  li_read_area :: "emu_request \<Rightarrow> client \<Rightarrow> ('b, bytes) prog"
  li_write_area :: "emu_request \<Rightarrow> client \<Rightarrow> ('b, bytes) prog"
  li_read_memory :: "int \<Rightarrow> int \<Rightarrow> int \<Rightarrow> int \<Rightarrow> ('b, bytes option) prog"
  li_write_memory :: "int \<Rightarrow> int \<Rightarrow> int \<Rightarrow> bytes \<Rightarrow> ('b, bool) prog"
  li_blocks :: "'b \<Rightarrow> int \<Rightarrow> bytes option"
  li_cpu_state :: "'b \<Rightarrow> int"
  li_success :: "emu_request \<Rightarrow> userdata_params \<Rightarrow> bytes \<Rightarrow> bytes result"
  li_userdata_error :: "emu_request \<Rightarrow> int \<Rightarrow> bytes result"
  li_error :: "emu_request \<Rightarrow> int \<Rightarrow> bytes result"
  li_ack :: int
  li_userdata :: int
  li_read_code :: int
  li_write_code :: int
  li_start_upload :: int
  li_upload :: int
  li_timer :: int
  li_counter :: int
  li_word :: int
  li_dword :: int
  li_real :: int

section \<open>The state\<close>

record upload_context =
  up_id :: int
  up_payload :: bytes
  up_offset :: nat

record 'b emulator =
  em_base :: 'b
  em_szl :: "client \<rightharpoonup> bytes list"
  em_lists :: "client \<rightharpoonup> bytes list"
  em_uploads :: "client \<rightharpoonup> upload_context"

definition emu_init :: "'b \<Rightarrow> 'b emulator" where
  "emu_init b = \<lparr>em_base = b, em_szl = (\<lambda>_. None), em_lists = (\<lambda>_. None), em_uploads = (\<lambda>_. None)\<rparr>"

definition on_base :: "('b, 'a) prog \<Rightarrow> ('b emulator, 'a) prog" where
  "on_base m s = (case m (em_base s) of (r, b) \<Rightarrow> (r, s\<lparr>em_base := b\<rparr>))"

definition emu_get :: "('b emulator \<Rightarrow> 'a) \<Rightarrow> ('b emulator, 'a) prog" where
  "emu_get f s = (Inr (f s), s)"

definition emu_set :: "('b emulator \<Rightarrow> 'b emulator) \<Rightarrow> ('b emulator, unit) prog" where
  "emu_set f s = (Inr (), f s)"

section \<open>Requests and items\<close>

definition emu_parse :: "'b library \<Rightarrow> bytes \<Rightarrow> emu_request result" where
  "emu_parse L pdu =
     bindE (li_parse L pdu) (\<lambda>req.
     bindE (guardE (10 \<le> length pdu) StructError) (\<lambda>_.
     let data_start = 10 + nat (be_int (slice 6 8 pdu)) in
       Inr (req\<lparr>rq_raw := slice data_start (data_start + nat (be_int (slice 8 10 pdu))) pdu\<rparr>)))"

definition word_size :: "'b library \<Rightarrow> int \<Rightarrow> int" where
  "word_size L w =
     (if w \<in> {li_timer L, li_counter L, li_word L} then 2 else if w \<in> {li_dword L, li_real L} then 4 else 1)"

definition emu_address :: "'b library \<Rightarrow> bytes \<Rightarrow> emu_spec option result" where
  "emu_address L addr_spec =
     bindE (li_address L addr_spec) (\<lambda>spec. Inr (case spec of None \<Rightarrow> None
       | Some sp \<Rightarrow> Some (if sp_word sp \<in> {li_timer L, li_counter L} then sp\<lparr>sp_start := be_int (slice 9 12 addr_spec)\<rparr> else sp)))"

definition multi_specs :: "'b library \<Rightarrow> emu_request \<Rightarrow> emu_spec option list result" where
  "multi_specs L req =
     bindE (at (rq_parameters req) 1) (\<lambda>items.
       mapE (\<lambda>index. emu_address L (slice (2 + index * 12) (14 + index * 12) (rq_parameters req))) [0..<unat items])"

text \<open>The field of an empty address dictionary raises.\<close>

definition spec_of :: "emu_spec option \<Rightarrow> emu_spec result" where
  "spec_of sp = (case sp of None \<Rightarrow> Inl KeyError | Some x \<Rightarrow> Inr x)"

definition response_header :: "'b library \<Rightarrow> emu_request \<Rightarrow> int \<Rightarrow> int \<Rightarrow> bytes \<Rightarrow> bytes result" where
  "response_header L req function items data =
     concatE [pack 1 0x32, pack 1 (li_ack L), pack 2 0, pack 2 (rq_sequence req), pack 2 2, pack 2 (len data), pack 1 0, pack 1 0,
       pack 1 function, pack 1 items, Inr data]"

text \<open>The test both area handlers open with: a single item that is no timer or counter is the base class's.\<close>

definition is_single :: "'b library \<Rightarrow> emu_request \<Rightarrow> (int \<times> bool) result" where
  "is_single L req =
     bindE (at (rq_parameters req) 1) (\<lambda>items.
       if items = 1 then bindE (at (rq_parameters req) 5) (\<lambda>w. Inr (1, uint w \<notin> {li_timer L, li_counter L}))
       else Inr (uint items, False))"

section \<open>Reading and writing areas\<close>

definition timed :: "'b library \<Rightarrow> emu_spec \<Rightarrow> bool" where
  "timed L sp \<longleftrightarrow> sp_word sp \<in> {li_timer L, li_counter L}"

text \<open>The octets one item adds to a read reply.\<close>

definition read_entry :: "'b library \<Rightarrow> emu_spec \<Rightarrow> bool \<Rightarrow> bytes option \<Rightarrow> bytes result" where
  "read_entry L sp again answer =
     (case answer of
        None \<Rightarrow> concatE [pack 1 0x0a, pack 1 0, pack 2 0]
      | Some content \<Rightarrow>
          concatE [pack 1 0xff, pack 1 (if timed L sp then 9 else 4), pack 2 (if timed L sp then len content else len content * 8),
            Inr content, Inr (if again \<and> odd (length content) then [0] else [])])"

definition read_one :: "'b library \<Rightarrow> int \<Rightarrow> nat \<times> emu_spec option \<Rightarrow> bytes \<Rightarrow> ('b emulator, bytes) prog" where
  "read_one L items x data =
     (case x of (index, sp) \<Rightarrow>
        bindM (liftE (spec_of sp)) (\<lambda>sp.
        bindM (on_base (li_read_memory L (sp_area sp) (sp_db sp) (sp_start sp) (sp_count sp * word_size L (sp_word sp)))) (\<lambda>answer.
        bindM (liftE (read_entry L sp (int index + 1 < items) answer)) (\<lambda>entry. ret (data @ entry)))))"

definition handle_read_area :: "'b library \<Rightarrow> emu_request \<Rightarrow> client \<Rightarrow> ('b emulator, bytes) prog" where
  "handle_read_area L req who =
     bindM (liftE (is_single L req)) (\<lambda>(items, single).
     if single then on_base (li_read_area L req who)
     else bindM (liftE (multi_specs L req)) (\<lambda>specs.
       bindM (foldM (read_one L items) (List.enumerate 0 specs) []) (\<lambda>data.
         liftE (response_header L req (li_read_code L) items data))))"

text \<open>One written item: its data are taken at the running offset, the outcome is one octet.\<close>

definition write_one :: "'b library \<Rightarrow> bytes \<Rightarrow> int \<Rightarrow> nat \<times> emu_spec option \<Rightarrow> nat \<times> bytes \<Rightarrow> ('b emulator, nat \<times> bytes) prog" where
  "write_one L data items x acc =
     (case (x, acc) of ((index, sp), (offset, results)) \<Rightarrow>
        let header = slice offset (offset + 4) data in
        bindM (liftE (guardE (length header = 4) StructError)) (\<lambda>_.
        let encoded = nat (be_int (slice 2 4 header));
            amount = (if header ! 1 = 9 then encoded else encoded div 8)
        in bindM (liftE (spec_of sp)) (\<lambda>sp.
           bindM (on_base (li_write_memory L (sp_area sp) (sp_db sp) (sp_start sp) (slice (offset + 4) (offset + 4 + amount) data))) (\<lambda>success.
             ret (offset + 4 + amount + (if int index + 1 < items \<and> odd amount then 1 else 0),
               results @ [if success then 0xff else 0x0a])))))"

definition handle_write_area :: "'b library \<Rightarrow> emu_request \<Rightarrow> client \<Rightarrow> ('b emulator, bytes) prog" where
  "handle_write_area L req who =
     bindM (liftE (is_single L req)) (\<lambda>(items, single).
     if single then on_base (li_write_area L req who)
     else bindM (liftE (multi_specs L req)) (\<lambda>specs.
       bindM (foldM (write_one L (rq_raw req) items) (List.enumerate 0 specs) (0, [])) (\<lambda>(_, results).
         liftE (response_header L req (li_write_code L) items results))))"

section \<open>Block information\<close>

definition ascii_bytes :: "string \<Rightarrow> bytes" where
  "ascii_bytes s = List.map (\<lambda>c. byte (int c)) (ascii s)"

definition decimal_octets :: "bytes \<Rightarrow> int" where
  "decimal_octets = foldl (\<lambda>n d. 10 * n + (uint d - 48)) 0"

definition block_info_payload :: "int \<Rightarrow> nat \<Rightarrow> bytes result" where
  "block_info_payload block octets_held =
     bindE (pack 2 block) (\<lambda>n. bindE (pack 4 (int octets_held)) (\<lambda>s4. bindE (pack 2 (int octets_held)) (\<lambda>s2.
       Inr ([0x30, 0x41] @ replicate 9 0 @ [0x0a] @ n @ s4 @ replicate 22 0 @ s2
         @ ascii_bytes ''SNAP7EMU'' @ ascii_bytes ''EMULATOR'' @ ascii_bytes ''DB'' @ replicate 6 0 @ [1] @ replicate 11 0))))"

definition block_info_rejected :: "'b library \<Rightarrow> emu_request \<Rightarrow> userdata_params \<Rightarrow> bytes result" where
  "block_info_rejected L req params = bindE (li_success L req params []) (\<lambda>r. Inr (take 20 r @ [0x81, 4] @ drop 22 r))"

definition handle_get_block_info :: "'b library \<Rightarrow> emu_request \<Rightarrow> userdata_params \<Rightarrow> client \<Rightarrow> ('b emulator, bytes) prog" where
  "handle_get_block_info L req params who =
     bindM (emu_get (\<lambda>s. li_blocks L (em_base s))) (\<lambda>blocks.
     let raw = (case rq_data req of None \<Rightarrow> [] | Some d \<Rightarrow> d) in
     liftE (if length raw \<noteq> 8 \<or> take 2 raw \<noteq> [0x30, 0x41] \<or> raw ! 7 \<noteq> 0x41
              \<or> \<not> list_all (\<lambda>d. 0x30 \<le> d \<and> d \<le> 0x39) (slice 2 7 raw)
            then block_info_rejected L req params
            else let block = decimal_octets (slice 2 7 raw) in
              case blocks block of
                None \<Rightarrow> block_info_rejected L req params
              | Some memory \<Rightarrow>
                  if 65535 < block \<or> 65535 < length memory then block_info_rejected L req params
                  else bindE (block_info_payload block (length memory)) (li_success L req params)))"

section \<open>System status lists\<close>

text \<open>\<^verbatim>\<open>value[:w].ljust(w, b"\x00")\<close>.\<close>

definition ljust :: "nat \<Rightarrow> bytes \<Rightarrow> bytes" where
  "ljust w s = take w s @ replicate (w - length (take w s)) 0"

definition szl_record :: "nat \<Rightarrow> bytes list \<Rightarrow> bytes result" where
  "szl_record record_length records =
     bindE (guardE (list_all (\<lambda>r. length r = record_length) records) AssertionError) (\<lambda>_.
       concatE [pack 2 (int record_length), pack 2 (len records), Inr (concat records)])"

definition words_of :: "(nat \<times> int) list \<Rightarrow> bytes result" where
  "words_of entries = concatE (List.map (\<lambda>(width, v). pack width v) entries)"

definition szl_names :: "string list" where
  "szl_names = [''SNAP7-SERVER'', ''CPU 315-2 PN/DP'', ''unused'', ''Original Siemens Equipment'', ''S C-C2UR28922012'', ''CPU 315-2 PN/DP'']"

text \<open>\<^verbatim>\<open>_get_szl_data\<close>; \<open>None\<close> is Python's.\<close>

definition get_szl_data :: "int \<Rightarrow> int \<Rightarrow> int \<Rightarrow> bytes option result" where
  "get_szl_data cpu_state szl_id szl_index =
     (let made = (\<lambda>record_length records. bindE (mapE words_of records) (\<lambda>rs. bindE (szl_record record_length rs) (\<lambda>r. Inr (Some r)))) in
      if szl_id = 0 then made 2 (List.map (\<lambda>v. [(2, v)]) [0x0000, 0x0011, 0x001C, 0x0025, 0x0131, 0x0232, 0x0424])
      else if szl_id = 0x0011 then
        bindE (szl_record 26 [[0, 1] @ ljust 20 (ascii_bytes ''6ES7 315-2EH14-0AB0'') @ [0, 3, 3, 0]]) (\<lambda>r. Inr (Some r))
      else if szl_id = 0x001C then
        bindE (mapE (\<lambda>(index, name). bindE (pack 2 (int index + 1)) (\<lambda>n. Inr (n @ ljust 32 (ascii_bytes name)))) (List.enumerate 0 szl_names))
          (\<lambda>rs. bindE (szl_record 34 rs) (\<lambda>r. Inr (Some r)))
      else if szl_id = 0x0131 \<and> szl_index = 1 then made 14 [[(2, 1), (2, 480), (2, 32), (4, 12000000), (4, 100000000)]]
      else if szl_id = 0x0232 \<and> szl_index = 4 then made 12 [[(2, 4), (2, 1), (2, 0), (2, 0), (2, 2), (2, 0)]]
      else if szl_id = 0x0424 then made 4 [[(2, 0), (1, 0), (1, cpu_state)]]
      else if szl_id = 0x0025 then made 8 [[(2, 0x81), (2, 12), (1, 3), (1, 1), (2, 0)], [(2, 0x82), (2, 20), (1, 7), (1, 0), (2, 0)]]
      else Inr None)"

definition fragment_response :: "'b library \<Rightarrow> emu_request \<Rightarrow> int \<Rightarrow> bool \<Rightarrow> bytes \<Rightarrow> int \<Rightarrow> int \<Rightarrow> bytes result" where
  "fragment_response L req sequence has_more content grp subfunction =
     bindE (concatE [pack 1 0, pack 1 1, pack 1 0x12, pack 1 8, pack 1 0x12, pack 1 (or 0x80 grp), pack 1 subfunction, pack 1 sequence,
         pack 1 1, pack 1 (of_bool has_more), pack 1 0, pack 1 0]) (\<lambda>parameters.
     bindE (concatE [pack 1 0xff, pack 1 9, pack 2 (len content), Inr content]) (\<lambda>data.
       concatE [pack 1 0x32, pack 1 (li_userdata L), pack 2 0, pack 2 (rq_sequence req), pack 2 (len parameters), pack 2 (len data),
         Inr parameters, Inr data]))"

text \<open>Pieces of 48 octets.\<close>

fun cut_every :: "nat \<Rightarrow> bytes \<Rightarrow> bytes list" where
  "cut_every n [] = []"
| "cut_every n (b # bs) = (if n = 0 then [] else take n (b # bs) # cut_every n (drop n (b # bs)))"

definition token_of :: "userdata_params \<Rightarrow> int" where
  "token_of params = (case params ''sequence'' of None \<Rightarrow> 0 | Some q \<Rightarrow> q)"

text \<open>\<^verbatim>\<open>fragments.pop(0)\<close> on the list kept for a client, whose entry goes with its last fragment.\<close>

definition pop_fragment :: "client \<Rightarrow> (client \<rightharpoonup> bytes list) \<Rightarrow> (bytes \<times> bool \<times> (client \<rightharpoonup> bytes list)) option" where
  "pop_fragment who kept =
     (case kept who of
        Some (content # rest) \<Rightarrow> Some (content, rest \<noteq> [], if rest = [] then kept(who := None) else kept(who \<mapsto> rest))
      | _ \<Rightarrow> None)"

definition handle_szl :: "'b library \<Rightarrow> emu_request \<Rightarrow> userdata_params \<Rightarrow> client \<Rightarrow> ('b emulator, bytes) prog" where
  "handle_szl L req params who =
     bindM (emu_get id) (\<lambda>s.
     if token_of params \<noteq> 0 then
       (case pop_fragment who (em_szl s) of
          None \<Rightarrow> liftE (li_userdata_error L req 0x8104)
        | Some (content, again, kept) \<Rightarrow>
            thenM (emu_set (em_szl_update (\<lambda>_. kept))) (liftE (fragment_response L req (token_of params) again content 4 1)))
     else
       let raw = (case rq_data req of None \<Rightarrow> [] | Some d \<Rightarrow> d); szl_id = be_int (slice 0 2 raw); szl_index = be_int (slice 2 4 raw) in
       if length raw < 4 then liftE (li_userdata_error L req 0x8104)
       else bindM (liftE (get_szl_data (li_cpu_state L (em_base s)) szl_id szl_index)) (\<lambda>found.
         case found of
           None \<Rightarrow> liftE (li_userdata_error L req 0x8104)
         | Some content \<Rightarrow>
             (case cut_every 48 (take 4 raw @ content) of
                [] \<Rightarrow> raise IndexError
              | first # rest \<Rightarrow>
                  thenM (if rest \<noteq> [] then emu_set (em_szl_update (\<lambda>kept. kept(who \<mapsto> rest))) else ret ())
                    (liftE (fragment_response L req 1 (rest \<noteq> []) first 4 1)))))"

definition handle_list_blocks :: "'b library \<Rightarrow> emu_request \<Rightarrow> userdata_params \<Rightarrow> client \<Rightarrow> ('b emulator, bytes) prog" where
  "handle_list_blocks L req params who =
     bindM (emu_get id) (\<lambda>s.
     if token_of params \<noteq> 0 then
       (case pop_fragment who (em_lists s) of
          None \<Rightarrow> liftE (li_userdata_error L req 0x8104)
        | Some (content, again, kept) \<Rightarrow>
            thenM (emu_set (em_lists_update (\<lambda>_. kept))) (liftE (fragment_response L req (token_of params) again content 3 2)))
     else if rq_data req \<noteq> Some [0x30, 0x41] then liftE (li_userdata_error L req 0x8104)
     else thenM (emu_set (em_lists_update (\<lambda>kept. kept(who \<mapsto> [[0, 0]])))) (liftE (fragment_response L req 1 True [0, 1] 3 2)))"

definition handle_get_clock :: "'b library \<Rightarrow> emu_request \<Rightarrow> userdata_params \<Rightarrow> client \<Rightarrow> ('b emulator, bytes) prog" where
  "handle_get_clock L req params who = liftE (li_success L req params [0, 0x19, 0x26, 9, 7, 0x14, 5, 0x59, 0, 1])"

section \<open>Uploads\<close>

definition compact_block :: "int \<Rightarrow> bytes \<Rightarrow> bytes result" where
  "compact_block block mc7 =
     bindE (pack 2 block) (\<lambda>n. bindE (pack 4 (36 + len mc7)) (\<lambda>load. bindE (pack 2 (len mc7)) (\<lambda>body.
       Inr (replicate 5 0 @ [0x0a] @ n @ load @ replicate 22 0 @ body @ mc7))))"

definition standard_response :: "'b library \<Rightarrow> emu_request \<Rightarrow> bytes \<Rightarrow> bytes \<Rightarrow> bytes result" where
  "standard_response L req parameters data =
     concatE [pack 1 0x32, pack 1 (li_ack L), pack 2 0, pack 2 (rq_sequence req), pack 2 (len parameters), pack 2 (len data),
       pack 1 0, pack 1 0, Inr parameters, Inr data]"

text \<open>\<^verbatim>\<open>parameters[9:12]\<close> and the block number; \<open>None\<close> is the refusal.\<close>

definition upload_block :: "bytes \<Rightarrow> int option result" where
  "upload_block parameters =
     (if length parameters \<noteq> 18 \<or> slice 9 12 parameters \<noteq> [0x5f, 0x30, 0x41] then Inr None
      else case octets_int (slice 12 17 parameters) of
          Inl e \<Rightarrow> if e = ValueError then Inr None else Inl e
        | Inr n \<Rightarrow> Inr (if parameters ! 11 \<noteq> 0x41 then None else Some n))"

definition handle_start_upload :: "'b library \<Rightarrow> emu_request \<Rightarrow> client \<Rightarrow> ('b emulator, bytes) prog" where
  "handle_start_upload L req who =
     bindM (emu_get (\<lambda>s. li_blocks L (em_base s))) (\<lambda>blocks.
     bindM (liftE (upload_block (rq_parameters req))) (\<lambda>found.
     case Option.bind found (\<lambda>block. map_option (Pair block) (blocks block)) of
       None \<Rightarrow> liftE (li_error L req 0x8104)
     | Some (block, mc7) \<Rightarrow>
         bindM (liftE (compact_block block mc7)) (\<lambda>complete.
         thenM (emu_set (em_uploads_update (\<lambda>kept. kept(who \<mapsto> \<lparr>up_id = 1, up_payload = complete, up_offset = 0\<rparr>))))
           (liftE (bindE (bytes_of [li_start_upload L]) (\<lambda>f.
              standard_response L req (f @ replicate 6 0 @ [1] @ replicate 3 0 @ digits5 (length complete)) []))))))"

definition handle_upload :: "'b library \<Rightarrow> emu_request \<Rightarrow> client \<Rightarrow> ('b emulator, bytes) prog" where
  "handle_upload L req who =
     bindM (emu_get (\<lambda>s. em_uploads s who)) (\<lambda>found. case found of
       None \<Rightarrow> liftE (li_error L req 0x8104)
     | Some context \<Rightarrow>
         let chunk = slice (up_offset context) (up_offset context + 200) (up_payload context);
             context' = context\<lparr>up_offset := up_offset context + length chunk\<rparr>;
             is_last = (up_offset context' = length (up_payload context))
         in thenM (emu_set (em_uploads_update (\<lambda>kept. kept(who \<mapsto> context'))))
              (liftE (bindE (bytes_of [li_upload L, of_bool (\<not> is_last)]) (\<lambda>parameters.
                bindE (concatE [pack 2 (len chunk), pack 2 0x00fb, Inr chunk]) (standard_response L req parameters)))))"

end
