(* ===== verification/Emulation.thy ===== *)
theory Emulation
  imports Emulator
begin

text \<open>What the emulated PLC of \<open>Emulator\<close> promises a client, as the independent decoders see it.\<close>

section \<open>Conversations with the emulator\<close>

text \<open>The protocol numbers python-snap7's enumerations document.\<close>

definition conventions :: "'b library \<Rightarrow> bool" where
  "conventions L \<longleftrightarrow> li_ack L = 3 \<and> li_userdata L = 7 \<and> li_read_code L = 4 \<and> li_write_code L = 5
     \<and> li_start_upload L = 0x1d \<and> li_upload L = 0x1e"

definition referenced :: "emu_request \<Rightarrow> bool" where
  "referenced req \<longleftrightarrow> 0 \<le> rq_sequence req \<and> rq_sequence req < 65536"

text \<open>One call after the other, each of which must succeed.\<close>

fun each_reply :: "('s, 'a) prog list \<Rightarrow> ('s, 'a list) prog" where
  "each_reply [] = ret []"
| "each_reply (m # ms) = bindM m (\<lambda>a. bindM (each_reply ms) (\<lambda>as. ret (a # as)))"

lemma each_reply_Cons:
  "m s = (Inr a, t) \<Longrightarrow> each_reply ms t = (Inr as, u) \<Longrightarrow> each_reply (m # ms) s = (Inr (a # as), u)"
  by (simp add: pyeval ret_def)

lemma fragment_response_decodes:
  assumes "conventions L" "referenced req" "(grp, subfunction) \<in> {(4, 1), (3, 2)}" "0 \<le> q" "q < 256" "length content < 1000"
  obtains pdu where "fragment_response L req q again content grp subfunction = Inr pdu"
    "mgmt_decode pdu (rq_sequence req) grp subfunction = Accept \<lparr>rb_payload = content, rb_sequence = byte q, rb_unit = 1,
       rb_more = again, rb_code = 255, rb_transport = 9\<rparr>"
proof -
  let ?b = "\<lparr>rb_payload = content, rb_sequence = byte q, rb_unit = 1, rb_more = again, rb_code = 255, rb_transport = 9\<rparr>"
  let ?p = "[0, 1, 0x12, 8, 0x12, byte (128 + grp), byte subfunction, byte q, 1, if again then 1 else 0, 0, 0] :: bytes"
  let ?d = "[255, 9] @ be_bytes 2 (len content) @ content"
  have g: "0 \<le> grp" "grp < 16" "0 \<le> subfunction" "subfunction < 256" using assms(3) by auto
  have fits: "reply_fits (rq_sequence req) grp subfunction ?b"
    using assms g by (simp add: reply_fits_def referenced_def null_ack_def)
  have one: "pack 1 (of_bool again) = Inr [if again then 1 else 0]" by (simp add: pack1 byte_def)
  have p: "concatE [pack 1 0, pack 1 1, pack 1 0x12, pack 1 8, pack 1 0x12, pack 1 (or 0x80 grp), pack 1 subfunction, pack 1 q,
         pack 1 1, pack 1 (of_bool again), pack 1 0, pack 1 0] = Inr ?p"
    unfolding one or_128[OF g(1,2)] using g assms(4,5) by (simp add: concatE_def pack1 byte_def)
  have d: "concatE [pack 1 0xff, pack 1 9, pack 2 (len content), Inr content] = Inr ?d"
    using assms(6) by (simp add: concatE_def pack1 pack2 byte_def len_def del: be_bytes_numeral)
  have zero: "be_bytes 2 0 = [0, 0]" by (simp add: byte_def)
  have l: "len ?p = 12" "len ?d = 4 + len content" by (simp_all add: len_def)
  have "fragment_response L req q again content grp subfunction = Inr (reply_layout [0, 0] (rq_sequence req) grp subfunction ?b)"
    unfolding fragment_response_def p d bindE.simps l using assms(1,2,6)
    by (simp add: concatE_def pack1 pack2 byte_def reply_layout_def conventions_def referenced_def len_def zero del: be_bytes_numeral)
  then show thesis using that layout_decodes[OF _ fits, of "[0, 0]"] by simp
qed

section \<open>Lists that come in fragments\<close>

definition first_ask :: userdata_params where
  "first_ask = (\<lambda>_. None)"

definition next_ask :: userdata_params where
  "next_ask = [''sequence'' \<mapsto> 1]"

lemma tokens [simp]: "token_of first_ask = 0" "token_of next_ask = 1"
  by (simp_all add: token_of_def first_ask_def next_ask_def)

text \<open>What the decoder should make of fragments \<open>cs\<close>.\<close>

fun reply_bodies :: "bytes list \<Rightarrow> reply_body list" where
  "reply_bodies [] = []"
| "reply_bodies (c # cs) = \<lparr>rb_payload = c, rb_sequence = 1, rb_unit = 1, rb_more = (cs \<noteq> []), rb_code = 255, rb_transport = 9\<rparr> # reply_bodies cs"

definition decoded :: "int \<Rightarrow> int \<Rightarrow> emu_request list \<Rightarrow> bytes list \<Rightarrow> reply_body list \<Rightarrow> bool" where
  "decoded grp subfunction reqs pdus bs \<longleftrightarrow> length pdus = length reqs
     \<and> list_all2 (\<lambda>(req, pdu) b. mgmt_decode pdu (rq_sequence req) grp subfunction = Accept b) (zip reqs pdus) bs"

lemma decoded_Cons [simp]:
  "decoded grp subfunction (req # reqs) (pdu # pdus) (b # bs) \<longleftrightarrow>
     mgmt_decode pdu (rq_sequence req) grp subfunction = Accept b \<and> decoded grp subfunction reqs pdus bs"
  "decoded grp subfunction [] [] []"
  by (auto simp: decoded_def)

lemma reply_bodies_payload [simp]: "concat (List.map rb_payload (reply_bodies cs)) = concat cs"
  by (induction cs) simp_all

lemma reply_bodies_more: "List.map rb_more (reply_bodies cs) = List.map (\<lambda>i. i + 1 < length cs) [0..<length cs]"
proof (induction cs)
  case (Cons c cs)
  have "[0..<length (c # cs)] = 0 # List.map Suc [0..<length cs]" by (simp add: upt_conv_Cons map_Suc_upt del: upt_Suc)
  with Cons show ?case by (simp del: upt_Suc)
qed simp

lemma szl_continues:
  assumes "conventions L" "list_all referenced reqs" "list_all (\<lambda>c. length c < 1000) cs"
    and "length reqs = length cs" "cs \<noteq> []" "em_szl s who = Some cs"
  shows "\<exists>pdus. each_reply (List.map (\<lambda>req. handle_szl L req next_ask who) reqs) s
      = (Inr pdus, s\<lparr>em_szl := (em_szl s)(who := None)\<rparr>) \<and> decoded 4 1 reqs pdus (reply_bodies cs)"
  using assms(2-)
proof (induction cs arbitrary: s reqs)
  case (Cons c cs)
  then obtain req reqs' where r: "reqs = req # reqs'" "length reqs' = length cs" by (cases reqs) auto
  let ?t = "s\<lparr>em_szl := if cs = [] then (em_szl s)(who := None) else (em_szl s)(who \<mapsto> cs)\<rparr>"
  have "referenced req" "length c < 1000" using Cons.prems r by auto
  then obtain pdu where p: "fragment_response L req 1 (cs \<noteq> []) c 4 1 = Inr pdu"
    "mgmt_decode pdu (rq_sequence req) 4 1 = Accept \<lparr>rb_payload = c, rb_sequence = byte 1, rb_unit = 1, rb_more = (cs \<noteq> []), rb_code = 255, rb_transport = 9\<rparr>"
    using fragment_response_decodes[OF assms(1), of req 4 1 1 c "cs \<noteq> []"] by auto
  have one: "byte 1 = 1" by (simp add: byte_def)
  have run: "handle_szl L req next_ask who s = (Inr pdu, ?t)"
    using Cons.prems(5) p(1) by (simp add: handle_szl_def pop_fragment_def prog_defs emu_get_def emu_set_def)
  show ?case
  proof (cases "cs = []")
    case True
    then show ?thesis using run p(2) r one by (simp add: pyeval ret_def fun_upd_def)
  next
    case False
    have "list_all referenced reqs'" "list_all (\<lambda>c. length c < 1000) cs" "em_szl ?t who = Some cs" using Cons.prems r False by auto
    from Cons.IH[OF this(1,2) r(2) False this(3)] obtain pdus where
      "each_reply (List.map (\<lambda>req. handle_szl L req next_ask who) reqs') ?t = (Inr pdus, ?t\<lparr>em_szl := (em_szl ?t)(who := None)\<rparr>)"
      and d: "decoded 4 1 reqs' pdus (reply_bodies cs)" by blast
    moreover have "?t\<lparr>em_szl := (em_szl ?t)(who := None)\<rparr> = s\<lparr>em_szl := (em_szl s)(who := None)\<rparr>" using False by simp
    ultimately have "each_reply (handle_szl L req next_ask who # List.map (\<lambda>req. handle_szl L req next_ask who) reqs') s
        = (Inr (pdu # pdus), s\<lparr>em_szl := (em_szl s)(who := None)\<rparr>)"
      using each_reply_Cons[where m = "handle_szl L req next_ask who", OF run] by metis
    moreover have "decoded 4 1 reqs (pdu # pdus) (reply_bodies (c # cs))" using d p(2) one r by simp
    ultimately show ?thesis unfolding r(1) list.map by (intro exI conjI)
  qed
qed simp

lemma pieces_of_concat: "0 < n \<Longrightarrow> concat (cut_every n bs) = bs"
  by (induction n bs rule: cut_every.induct) simp_all

lemma pieces_of_short: "list_all (\<lambda>c. length c \<le> n) (cut_every n bs)"
  by (induction n bs rule: cut_every.induct) simp_all

definition szl_transfer :: "'b library \<Rightarrow> client \<Rightarrow> emu_request \<Rightarrow> emu_request list \<Rightarrow> ('b emulator, bytes list) prog" where
  "szl_transfer L who req reqs =
     each_reply (handle_szl L req first_ask who # List.map (\<lambda>req. handle_szl L req next_ask who) reqs)"

text \<open>A transfer as a corpus records it: each reply with its reference and the request the machine expects before it.\<close>

definition recorded_leg :: "int option \<Rightarrow> emu_request \<Rightarrow> bytes \<Rightarrow> leg" where
  "recorded_leg token req pdu = \<lparr>lg_reference = rq_sequence req,
     lg_request = (case mgmt_request (rq_sequence req) 4 1 token of Inl _ \<Rightarrow> [] | Inr q \<Rightarrow> q), lg_response = pdu\<rparr>"

definition recorded :: "emu_request \<Rightarrow> emu_request list \<Rightarrow> bytes list \<Rightarrow> leg list" where
  "recorded req reqs pdus = (case pdus of [] \<Rightarrow> [] | pdu # rest \<Rightarrow> recorded_leg None req pdu # map2 (recorded_leg (Some 1)) reqs rest)"

lemma recorded_request:
  assumes "referenced req" "token \<in> {None, Some 1}"
  shows "mgmt_request (rq_sequence req) 4 1 token = Inr (lg_request (recorded_leg token req pdu))"
proof -
  have "bytes_of [0, 1, 0x12, 4, 0x11, or 0x40 4, 1, 0] = Inr [0, 1, 0x12, 4, 0x11, 0x44, 1, 0]"
    "bytes_of [0, 1, 0x12, 8, 0x12, or 0x40 4, 1, 1, 0, 0, 0, 0] = Inr [0, 1, 0x12, 8, 0x12, 0x44, 1, 1, 0, 0, 0, 0]"
    by (simp_all add: bytes_of_def byte_def)
  then show ?thesis
    using assms packet_ok[of 7 "rq_sequence req"] by (auto simp: recorded_leg_def referenced_def mgmt_request_def)
qed

lemma recorded_rest:
  "list_all referenced reqs \<Longrightarrow> decoded 4 1 reqs pdus (reply_bodies cs) \<Longrightarrow>
     list_all2 (\<lambda>leg b. leg_reply 4 1 leg = Accept b) (map2 (recorded_leg (Some 1)) reqs pdus) (reply_bodies cs)
     \<and> driven 4 1 (Some 1) (map2 (recorded_leg (Some 1)) reqs pdus) (reply_bodies cs)"
proof (induction cs arbitrary: reqs pdus)
  case (Cons c cs)
  then obtain req reqs' pdu pdus' where l: "reqs = req # reqs'" "pdus = pdu # pdus'"
    by (cases reqs; cases pdus) (auto simp: decoded_def)
  have leg: "lg_reference (recorded_leg (Some 1) req pdu) = rq_sequence req" "lg_response (recorded_leg (Some 1) req pdu) = pdu"
    by (simp_all add: recorded_leg_def)
  have "list_all referenced reqs'" "decoded 4 1 reqs' pdus' (reply_bodies cs)" using Cons.prems l by auto
  note rest = Cons.IH[OF this]
  show ?case using rest Cons.prems recorded_request[of req "Some 1" pdu] by (simp add: l leg)
qed (auto simp: decoded_def)

lemma recorded_run:
  assumes "list_all referenced (req # reqs)" "decoded 4 1 (req # reqs) pdus (reply_bodies cs)"
    and "length (concat cs) \<le> 16 * 1024 * 1024"
  shows "cont_run 4 1 (length pdus) 0 (recorded req reqs pdus) cont_init
    = Inr \<lparr>ct_payload = concat cs, ct_unit = Some 1, ct_token = Some 1, ct_failure = None\<rparr>"
proof -
  have n: "length (reply_bodies l) = length l" for l by (induction l) simp_all
  obtain c cs' where c: "cs = c # cs'" using assms(2) by (cases cs) (auto simp: decoded_def)
  obtain pdu pdus' where p: "pdus = pdu # pdus'" using assms(2) by (cases pdus) (auto simp: decoded_def)
  have leg: "lg_reference (recorded_leg None req pdu) = rq_sequence req" "lg_response (recorded_leg None req pdu) = pdu"
    by (simp_all add: recorded_leg_def)
  have rest: "list_all referenced reqs" "decoded 4 1 reqs pdus' (reply_bodies cs')" using assms(1,2) c p by auto
  have len: "length pdus = length cs" using assms(2) n[of cs] by (auto simp: decoded_def list_all2_iff)
  have units: "list_all (\<lambda>b. rb_unit b = 1) (reply_bodies l)" for l by (induction l) simp_all
  have r: "recorded req reqs pdus = recorded_leg None req pdu # map2 (recorded_leg (Some 1)) reqs pdus'" by (simp add: recorded_def p)
  have first: "mgmt_decode pdu (rq_sequence req) 4 1 = Accept (hd (reply_bodies cs))" using assms(2) by (simp add: c p)
  have accepted: "list_all2 (\<lambda>leg b. leg_reply 4 1 leg = Accept b) (recorded req reqs pdus) (reply_bodies cs)"
    unfolding r using recorded_rest[OF rest] first by (simp add: c leg)
  have asked: "driven 4 1 (ct_token cont_init) (recorded req reqs pdus) (reply_bodies cs)"
    unfolding r using recorded_rest[OF rest] recorded_request[of req None pdu] assms(1) by (simp add: c leg cont_init_def)
  have run: "cont_run 4 1 (length pdus) 0 (recorded req reqs pdus) cont_init = Inr (cont_after cont_init (reply_bodies cs))"
    by (rule cont_run_continues[OF _ accepted asked _ units]) (use assms(3) in \<open>simp_all add: cont_init_def reply_bodies_more n len\<close>)
  have after: "cont_after s (reply_bodies l) = s\<lparr>ct_payload := ct_payload s @ concat l, ct_unit := Some 1, ct_token := Some 1\<rparr>"
    if "l \<noteq> []" for s and l :: "bytes list"
    using that
  proof (induction l arbitrary: s)
    case (Cons d l)
    then show ?case by (cases "l = []") simp_all
  qed simp
  have "cs \<noteq> []" by (simp add: c)
  then show ?thesis unfolding run after[OF \<open>cs \<noteq> []\<close>] by (simp add: cont_init_def)
qed

lemma length_ljust [simp]: "length (ljust w s) = w"
  by (simp add: ljust_def)

lemma length_concat_same: "list_all (\<lambda>r. length r = n) rs \<Longrightarrow> length (concat rs) = n * length rs"
  by (induction rs) auto

lemma szl_record_length: "szl_record n records = Inr r \<Longrightarrow> length r = 4 + n * length records"
  by (auto simp: szl_record_def concatE_def length_concat_same bindE_Inr_iff split: if_splits)

lemma szl_short: "get_szl_data cpu szl_id szl_index = Inr (Some content) \<Longrightarrow> length content \<le> 1000"
  by (auto simp: get_szl_data_def szl_names_def Let_def bindE_Inr_iff dest!: szl_record_length mapE_length split: if_splits)

text \<open>C33: A system status list arrives whole: an opening request and as many continuations as the list has further pieces of 48
  octets are all answered, the independent decoder accepts every reply with the reference of its request, the continuation
  flag is clear on the last reply alone, and nothing is left over for the client while the other clients' transfers are as
  they were. The continuation machine, given the replies with the requests the oracle encodes for them, accepts every leg
  and ends without a failure, in one data unit, with identifier, index and list as its payload.\<close>
theorem emulator_szl_complete:
  assumes "conventions L" and "list_all referenced (req # reqs)"
    and "rq_data req = Some (be_bytes 2 szl_id @ be_bytes 2 szl_index @ more_data)"
    and "0 \<le> szl_id" "szl_id < 65536" "0 \<le> szl_index" "szl_index < 65536"
    and "get_szl_data (li_cpu_state L (em_base s)) szl_id szl_index = Inr (Some content)"
    and "length (req # reqs) = length (cut_every 48 (be_bytes 2 szl_id @ be_bytes 2 szl_index @ content))"
  shows "\<exists>pdus bs. szl_transfer L who req reqs s
      = (Inr pdus, if reqs = [] then s else s\<lparr>em_szl := (em_szl s)(who := None)\<rparr>)
    \<and> decoded 4 1 (req # reqs) pdus bs
    \<and> concat (List.map rb_payload bs) = be_bytes 2 szl_id @ be_bytes 2 szl_index @ content
    \<and> List.map rb_more bs = List.map (\<lambda>i. i + 1 < length bs) [0..<length bs]
    \<and> cont_run 4 1 (length pdus) 0 (recorded req reqs pdus) cont_init
      = Inr \<lparr>ct_payload = be_bytes 2 szl_id @ be_bytes 2 szl_index @ content, ct_unit = Some 1, ct_token = Some 1, ct_failure = None\<rparr>"
proof -
  let ?all = "be_bytes 2 szl_id @ be_bytes 2 szl_index @ content"
  obtain first cs where ps: "cut_every 48 ?all = first # cs" using assms(9) by (cases "cut_every 48 ?all") auto
  then have cs: "length reqs = length cs" "list_all (\<lambda>c. length c < 1000) (first # cs)"
    using assms(9) pieces_of_short[of 48 ?all] by (auto simp: list_all_iff)
  obtain i1 i2 where i: "be_bytes 2 szl_id = [i1, i2]" by simp
  obtain x1 x2 where x: "be_bytes 2 szl_index = [x1, x2]" by simp
  have v: "be_int [i1, i2] = szl_id" "be_int [x1, x2] = szl_index"
    using be_int_2[of szl_id] be_int_2[of szl_index] assms(4-7) i x by (simp_all del: be_bytes_numeral be_int_Cons)
  obtain pdu where p: "fragment_response L req 1 (cs \<noteq> []) first 4 1 = Inr pdu"
    "mgmt_decode pdu (rq_sequence req) 4 1 = Accept \<lparr>rb_payload = first, rb_sequence = byte 1, rb_unit = 1, rb_more = (cs \<noteq> []), rb_code = 255, rb_transport = 9\<rparr>"
    using fragment_response_decodes[OF assms(1), of req 4 1 1 first "cs \<noteq> []"] assms(2) cs(2) by auto
  let ?t = "if cs = [] then s else s\<lparr>em_szl := (em_szl s)(who \<mapsto> cs)\<rparr>"
  have run: "handle_szl L req first_ask who s = (Inr pdu, ?t)"
    using assms(3,8) p(1) ps unfolding i x
    by (simp add: handle_szl_def prog_defs emu_get_def emu_set_def slice_def v numeral_2_eq_2 del: be_int_Cons)
  have one: "byte 1 = 1" by (simp add: byte_def)
  obtain pdus where pdus: "szl_transfer L who req reqs s = (Inr pdus, if reqs = [] then s else s\<lparr>em_szl := (em_szl s)(who := None)\<rparr>)"
      "decoded 4 1 (req # reqs) pdus (reply_bodies (first # cs))"
  proof (cases "cs = []")
    case True
    then show ?thesis using that run p(2) cs(1) one by (simp add: szl_transfer_def pyeval ret_def)
  next
    case False
    then have "em_szl ?t who = Some cs" by simp
    with szl_continues[OF assms(1), of reqs cs ?t who] assms(2) cs False obtain pdus where
      "each_reply (List.map (\<lambda>req. handle_szl L req next_ask who) reqs) ?t = (Inr pdus, ?t\<lparr>em_szl := (em_szl ?t)(who := None)\<rparr>)"
      "decoded 4 1 reqs pdus (reply_bodies cs)" by auto
    then show ?thesis unfolding szl_transfer_def
      using each_reply_Cons[where m = "handle_szl L req first_ask who", OF run] p(2) cs(1) one False
      by (intro that[of "pdu # pdus"]) (auto simp: szl_transfer_def)
  qed
  have n: "length (reply_bodies l) = length l" for l by (induction l) simp_all
  have joined: "concat (first # cs) = ?all" using pieces_of_concat[of 48 ?all] unfolding ps by (simp only: zero_less_numeral simp_thms)
  then have "length (concat (first # cs)) \<le> 16 * 1024 * 1024" using szl_short[OF assms(8)] by simp
  note reassembled = recorded_run[OF assms(2) pdus(2) this, unfolded joined]
  show ?thesis
    by (rule exI[of _ pdus], rule exI[of _ "reply_bodies (first # cs)"])
      (use pdus reassembled reply_bodies_more[of "first # cs"] joined in \<open>simp only: reply_bodies_payload n simp_thms\<close>)
qed

section \<open>Uploads\<close>

lemma standard_response_sections:
  assumes "conventions L" "referenced req" "length p < 65536" "length d < 65536"
  obtains pdu where "standard_response L req p d = Inr pdu" "sections pdu 3 (rq_sequence req) = Inr (p, d)"
proof -
  have "standard_response L req p d = packet 3 (rq_sequence req) p d"
    using assms(1) by (simp add: standard_response_def s7_response_packet[symmetric] s7_response_def conventions_def)
  then show thesis
    using that packet_ok[of 3 "rq_sequence req" p d] sections_packet assms(2-4) by (auto simp: referenced_def)
qed

text \<open>The pieces with the flag that says another one follows.\<close>

fun flagged :: "bytes list \<Rightarrow> (bytes \<times> bool) list" where
  "flagged [] = []"
| "flagged (c # cs) = (c, cs \<noteq> []) # flagged cs"

definition uploaded :: "emu_request \<times> bytes \<Rightarrow> bytes \<times> bool \<Rightarrow> bool" where
  "uploaded x y \<longleftrightarrow> (case (x, y) of ((req, pdu), (chunk, again)) \<Rightarrow>
     sections pdu 3 (rq_sequence req) = Inr ([0x1e, of_bool again], be_bytes 2 (len chunk) @ [0, 0xfb] @ chunk))"

lemma upload_step:
  assumes "conventions L" "referenced req" "em_uploads s who = Some \<lparr>up_id = 1, up_payload = done @ rest, up_offset = length done\<rparr>"
  obtains pdu where "handle_upload L req who s
      = (Inr pdu, s\<lparr>em_uploads := (em_uploads s)(who \<mapsto> \<lparr>up_id = 1, up_payload = done @ rest, up_offset = length (done @ take 200 rest)\<rparr>)\<rparr>)"
    "uploaded (req, pdu) (take 200 rest, drop 200 rest \<noteq> [])"
proof -
  let ?chunk = "take 200 rest"
  have c: "slice (length done) (length done + 200) (done @ rest) = ?chunk" by (simp add: slice_def)
  have last: "length done + length ?chunk = length (done @ rest) \<longleftrightarrow> drop 200 rest = []" by (auto simp: min_def)
  have p: "bytes_of [li_upload L, of_bool (drop 200 rest \<noteq> [])] = Inr [0x1e, of_bool (drop 200 rest \<noteq> [])]"
    using assms(1) by (simp add: conventions_def bytes_of_Inr_iff byte_def)
  have d: "concatE [pack 2 (len ?chunk), pack 2 0x00fb, Inr ?chunk] = Inr (be_bytes 2 (len ?chunk) @ [0, 0xfb] @ ?chunk)"
    by (simp add: concatE_def pack2 len_def byte_def)
  have l: "length [0x1e, of_bool (drop 200 rest \<noteq> []) :: byte] < 65536"
    "length (be_bytes 2 (len ?chunk) @ [0, 0xfb] @ ?chunk) < 65536" by simp_all
  obtain pdu where pdu: "standard_response L req [0x1e, of_bool (drop 200 rest \<noteq> [])] (be_bytes 2 (len ?chunk) @ [0, 0xfb] @ ?chunk) = Inr pdu"
    "sections pdu 3 (rq_sequence req) = Inr ([0x1e, of_bool (drop 200 rest \<noteq> [])], be_bytes 2 (len ?chunk) @ [0, 0xfb] @ ?chunk)"
    by (rule standard_response_sections[OF assms(1,2) l])
  have "handle_upload L req who s
      = (Inr pdu, s\<lparr>em_uploads := (em_uploads s)(who \<mapsto> \<lparr>up_id = 1, up_payload = done @ rest, up_offset = length (done @ take 200 rest)\<rparr>)\<rparr>)"
    using pdu(1) p d last by (simp add: handle_upload_def prog_defs emu_get_def emu_set_def assms(3) c Let_def del: be_bytes_numeral)
  with that pdu(2) show thesis by (simp add: uploaded_def)
qed

lemma uploads_continue:
  assumes "conventions L" "list_all referenced reqs" "length reqs = length (cut_every 200 rest)" "rest \<noteq> []"
    and "em_uploads s who = Some \<lparr>up_id = 1, up_payload = done @ rest, up_offset = length done\<rparr>"
  shows "\<exists>pdus. each_reply (List.map (\<lambda>req. handle_upload L req who) reqs) s
      = (Inr pdus, s\<lparr>em_uploads := (em_uploads s)(who \<mapsto> \<lparr>up_id = 1, up_payload = done @ rest, up_offset = length (done @ rest)\<rparr>)\<rparr>)
    \<and> list_all2 uploaded (zip reqs pdus) (flagged (cut_every 200 rest))"
  using assms(2-)
proof (induction reqs arbitrary: s "done" rest)
  case (Cons req reqs)
  obtain b bs where b: "rest = b # bs" using Cons.prems(3) by (cases rest) auto
  then have pieces: "cut_every 200 rest = take 200 rest # cut_every 200 (drop 200 rest)" by simp
  let ?t = "s\<lparr>em_uploads := (em_uploads s)(who \<mapsto> \<lparr>up_id = 1, up_payload = done @ rest, up_offset = length (done @ take 200 rest)\<rparr>)\<rparr>"
  obtain pdu where run: "handle_upload L req who s = (Inr pdu, ?t)" and u: "uploaded (req, pdu) (take 200 rest, drop 200 rest \<noteq> [])"
    using upload_step[OF assms(1) _ Cons.prems(4), of req] Cons.prems(1) by auto
  have more: "cut_every 200 (drop 200 rest) = [] \<longleftrightarrow> drop 200 rest = []" by (cases "drop 200 rest") simp_all
  have n: "length reqs = length (cut_every 200 (drop 200 rest))" using Cons.prems(2) pieces by simp
  show ?case
  proof (cases "drop 200 rest = []")
    case True
    then have "reqs = []" "take 200 rest = rest" using n by simp_all
    moreover have "length (done @ take 200 rest) = length (done @ rest)" using True by simp
    ultimately have "each_reply (List.map (\<lambda>req. handle_upload L req who) (req # reqs)) s = (Inr [pdu],
        s\<lparr>em_uploads := (em_uploads s)(who \<mapsto> \<lparr>up_id = 1, up_payload = done @ rest, up_offset = length (done @ rest)\<rparr>)\<rparr>)"
      "list_all2 uploaded (zip (req # reqs) [pdu]) (flagged (cut_every 200 rest))"
      using run u pieces more True by (simp_all add: pyeval ret_def)
    then show ?thesis by (intro exI conjI)
  next
    case False
    have all: "done @ rest = (done @ take 200 rest) @ drop 200 rest" by simp
    have "em_uploads ?t who = Some \<lparr>up_id = 1, up_payload = (done @ take 200 rest) @ drop 200 rest, up_offset = length (done @ take 200 rest)\<rparr>"
      by simp
    moreover have "list_all referenced reqs" using Cons.prems(1) by simp
    ultimately obtain pdus where d: "each_reply (List.map (\<lambda>req. handle_upload L req who) reqs) ?t
        = (Inr pdus, ?t\<lparr>em_uploads := (em_uploads ?t)(who \<mapsto> \<lparr>up_id = 1, up_payload = done @ rest, up_offset = length (done @ rest)\<rparr>)\<rparr>)"
        "list_all2 uploaded (zip reqs pdus) (flagged (cut_every 200 (drop 200 rest)))"
      using Cons.IH[OF _ n False, of ?t "done @ take 200 rest"] unfolding all[symmetric] by blast
    have "each_reply (handle_upload L req who # List.map (\<lambda>req. handle_upload L req who) reqs) s = (Inr (pdu # pdus),
        s\<lparr>em_uploads := (em_uploads s)(who \<mapsto> \<lparr>up_id = 1, up_payload = done @ rest, up_offset = length (done @ rest)\<rparr>)\<rparr>)"
      using each_reply_Cons[where m = "handle_upload L req who", OF run d(1)] by simp
    moreover have "list_all2 uploaded (zip (req # reqs) (pdu # pdus)) (flagged (cut_every 200 rest))"
      using u d(2) more pieces by simp
    ultimately show ?thesis unfolding list.map by (intro exI conjI)
  qed
next
  case Nil
  then show ?case by (cases rest) auto
qed

definition upload_transfer :: "'b library \<Rightarrow> client \<Rightarrow> emu_request \<Rightarrow> emu_request list \<Rightarrow> ('b emulator, bytes \<times> bytes list) prog" where
  "upload_transfer L who req reqs =
     bindM (handle_start_upload L req who) (\<lambda>first.
     bindM (each_reply (List.map (\<lambda>req. handle_upload L req who) reqs)) (\<lambda>pdus. ret (first, pdus)))"

text \<open>C32: A block arrives whole: the reply to the start names the length of the compact block, the uploads that follow are answered
  with its pieces of 200 octets in order, the flag of the last one alone is clear, and joined they are the header and the
  memory of the data block, whatever other clients were uploading.\<close>
theorem emulator_upload_complete:
  assumes "conventions L" and "list_all referenced (req # reqs)"
    and "upload_block (rq_parameters req) = Inr (Some block)" and "li_blocks L (em_base s) block = Some mc7"
    and "compact_block block mc7 = Inr complete" and "length reqs = length (cut_every 200 complete)"
  shows "\<exists>first pdus chunks. upload_transfer L who req reqs s = (Inr (first, pdus),
        s\<lparr>em_uploads := (em_uploads s)(who \<mapsto> \<lparr>up_id = 1, up_payload = complete, up_offset = length complete\<rparr>)\<rparr>)
    \<and> sections first 3 (rq_sequence req) = Inr ([0x1d] @ replicate 6 0 @ [1] @ replicate 3 0 @ digits5 (length complete), [])
    \<and> list_all2 uploaded (zip reqs pdus) (flagged chunks)
    \<and> concat chunks = complete \<and> drop 36 complete = mc7"
proof -
  have body: "drop 36 complete = mc7" "complete \<noteq> []" "length complete < 70000"
    using assms(5) by (auto simp: compact_block_def pack_def len_def length_be_bytes split: if_splits)
  have "length (zero_pad 5 (length complete)) = 5" using body(3) by (simp add: length_zero_pad)
  then have "length ([0x1d] @ replicate 6 0 @ [1] @ replicate 3 0 @ digits5 (length complete)) < 65536" by (simp add: digits5_def)
  from standard_response_sections[OF assms(1) _ this, of req "[]"] obtain first where
    f: "standard_response L req ([0x1d] @ replicate 6 0 @ [1] @ replicate 3 0 @ digits5 (length complete)) [] = Inr first"
       "sections first 3 (rq_sequence req) = Inr ([0x1d] @ replicate 6 0 @ [1] @ replicate 3 0 @ digits5 (length complete), [])"
    using assms(2) by auto
  let ?t = "s\<lparr>em_uploads := (em_uploads s)(who \<mapsto> \<lparr>up_id = 1, up_payload = complete, up_offset = 0\<rparr>)\<rparr>"
  have code: "bytes_of [li_start_upload L] = Inr [0x1d]" using assms(1) by (simp add: conventions_def bytes_of_Inr_iff byte_def)
  have run: "handle_start_upload L req who s = (Inr first, ?t)"
    using assms(3-5) f(1) code by (simp add: handle_start_upload_def prog_defs emu_get_def emu_set_def)
  obtain pdus where p: "each_reply (List.map (\<lambda>req. handle_upload L req who) reqs) ?t
      = (Inr pdus, ?t\<lparr>em_uploads := (em_uploads ?t)(who \<mapsto> \<lparr>up_id = 1, up_payload = complete, up_offset = length complete\<rparr>)\<rparr>)"
      "list_all2 uploaded (zip reqs pdus) (flagged (cut_every 200 complete))"
    using uploads_continue[OF assms(1) _ assms(6) body(2), of ?t who "[]"] assms(2) by auto
  have "upload_transfer L who req reqs s = (Inr (first, pdus),
        s\<lparr>em_uploads := (em_uploads s)(who \<mapsto> \<lparr>up_id = 1, up_payload = complete, up_offset = length complete\<rparr>)\<rparr>)"
    using run p(1) by (simp add: upload_transfer_def pyeval ret_def)
  with f(2) p(2) body(1) pieces_of_concat[of 200 complete] show ?thesis by (intro exI conjI) auto
qed

section \<open>Clients side by side\<close>

text \<open>The requests that are answered from the memory and the transfers of the client.\<close>

datatype emu_call =
    AskSzl emu_request userdata_params
  | AskList emu_request userdata_params
  | AskInfo emu_request userdata_params
  | AskClock emu_request userdata_params
  | AskStart emu_request
  | AskUpload emu_request
  | AskRead emu_request
  | AskWrite emu_request

fun emu_answer :: "'b library \<Rightarrow> client \<Rightarrow> emu_call \<Rightarrow> ('b emulator, bytes) prog" where
  "emu_answer L who (AskSzl req params) = handle_szl L req params who"
| "emu_answer L who (AskList req params) = handle_list_blocks L req params who"
| "emu_answer L who (AskInfo req params) = handle_get_block_info L req params who"
| "emu_answer L who (AskClock req params) = handle_get_clock L req params who"
| "emu_answer L who (AskStart req) = handle_start_upload L req who"
| "emu_answer L who (AskUpload req) = handle_upload L req who"
| "emu_answer L who (AskRead req) = handle_read_area L req who"
| "emu_answer L who (AskWrite req) = handle_write_area L req who"

text \<open>Requests as they come in; a handler that raises answers nothing and the server goes on.\<close>

fun served :: "('who \<Rightarrow> 'c \<Rightarrow> 's \<Rightarrow> 'r \<times> 's) \<Rightarrow> ('who \<times> 'c) list \<Rightarrow> 's \<Rightarrow> ('who \<times> 'r) list" where
  "served answer [] s = []"
| "served answer ((who, c) # calls) s = (case answer who c s of (r, t) \<Rightarrow> (who, r) # served answer calls t)"

definition emu_run :: "'b library \<Rightarrow> (client \<times> emu_call) list \<Rightarrow> 'b emulator \<Rightarrow> (client \<times> bytes result) list" where
  "emu_run L = served (emu_answer L)"

definition called_by :: "'who \<Rightarrow> 'who \<times> 'a \<Rightarrow> bool" where
  "called_by who x \<longleftrightarrow> fst x = who"

text \<open>
  What it takes for a server to keep its clients apart: another client's call leaves the part of the state a client
  can see as it is, and an answer to the client and what it can see afterwards depend on what it could see before. The calls
  the client makes, and those the others make, may be restricted.
\<close>

locale separated =
  fixes answer :: "'who \<Rightarrow> 'c \<Rightarrow> 's \<Rightarrow> 'r \<times> 's" and view :: "'who \<Rightarrow> 's \<Rightarrow> 'v"
    and mine :: "'c \<Rightarrow> bool" and others :: "'c \<Rightarrow> bool"
  assumes respects_others: "who \<noteq> me \<Longrightarrow> others c \<Longrightarrow> view me (snd (answer who c s)) = view me s"
    and depends_on_view: "mine c \<Longrightarrow> view me s = view me t \<Longrightarrow>
      fst (answer me c s) = fst (answer me c t) \<and> view me (snd (answer me c s)) = view me (snd (answer me c t))"
begin

lemma served_view:
  "list_all (\<lambda>(who, c). if who = me then mine c else others c) calls \<Longrightarrow> view me s = view me t \<Longrightarrow>
     filter (called_by me) (served answer calls s) = served answer (filter (called_by me) calls) t"
proof (induction calls arbitrary: s t)
  case (Cons x calls)
  obtain who c where x: "x = (who, c)" by (cases x)
  have rest: "list_all (\<lambda>(who, c). if who = me then mine c else others c) calls" using Cons.prems(1) by simp
  show ?case
  proof (cases "who = me")
    case True
    then have "mine c" using Cons.prems(1) x by simp
    note same = depends_on_view[OF this Cons.prems(2)]
    from Cons.IH[OF rest conjunct2[OF same]] same True x show ?thesis by (simp add: called_by_def split_beta)
  next
    case False
    then have "others c" using Cons.prems(1) x by simp
    have "view me (snd (answer who c s)) = view me t" by (rule trans[OF respects_others[OF False \<open>others c\<close>] Cons.prems(2)])
    from Cons.IH[OF rest this] False x show ?thesis by (simp add: called_by_def split_beta)
  qed
qed simp

end

text \<open>Programs on the memory alone, and those of them that leave it as it is.\<close>

definition based :: "('b emulator, 'a) prog \<Rightarrow> bool" where
  "based m \<longleftrightarrow> (\<exists>f. m = on_base f)"

definition unmoved :: "('s, 'a) prog \<Rightarrow> bool" where
  "unmoved m \<longleftrightarrow> (\<forall>s. snd (m s) = s)"

named_theorems base_intros \<open>programs on the memory of the emulator\<close>

lemma based_on [base_intros]: "based (on_base f)"
  by (auto simp: based_def)

lemma based_ret [base_intros]: "based (ret a)" and based_liftE [base_intros]: "based (liftE r)"
proof -
  have "ret a = on_base (ret a)" "liftE r = on_base (liftE r)" by (auto simp: fun_eq_iff on_base_def ret_def liftE_def)
  then show "based (ret a)" "based (liftE r)" unfolding based_def by blast+
qed

lemma based_bindM [base_intros]:
  assumes "based m" "\<And>a. based (k a)"
  shows "based (bindM m k)"
proof -
  obtain f where f: "m = on_base f" using assms(1) by (auto simp: based_def)
  obtain g where g: "\<And>a. k a = on_base (g a)" using assms(2) unfolding based_def by metis
  have "bindM m k = on_base (bindM f g)"
    by (auto simp: fun_eq_iff f g bindM_def on_base_def split: prod.split sum.split)
  then show ?thesis by (auto simp: based_def)
qed

lemma based_if [base_intros]: "based m \<Longrightarrow> based n \<Longrightarrow> based (if b then m else n)" by simp

lemma based_foldM [base_intros]: "(\<And>x a. based (f x a)) \<Longrightarrow> based (foldM f xs a)"
  by (induction xs arbitrary: a) (auto intro!: base_intros)

lemma unmoved_ret [base_intros]: "unmoved (ret a)" and unmoved_liftE [base_intros]: "unmoved (liftE r)"
  by (simp_all add: unmoved_def ret_def liftE_def)

lemma unmoved_bindM [base_intros]: "unmoved m \<Longrightarrow> (\<And>a. unmoved (k a)) \<Longrightarrow> unmoved (bindM m k)"
  unfolding unmoved_def bindM_def by (metis (mono_tags, lifting) case_prod_beta old.sum.simps(5) old.sum.simps(6) snd_conv sum.exhaust)

lemma unmoved_if [base_intros]: "unmoved m \<Longrightarrow> unmoved n \<Longrightarrow> unmoved (if b then m else n)" by simp

lemma unmoved_foldM [base_intros]: "(\<And>x a. unmoved (f x a)) \<Longrightarrow> unmoved (foldM f xs a)"
  by (induction xs arbitrary: a) (auto intro!: base_intros)

lemma unmoved_on [base_intros]: "unmoved f \<Longrightarrow> unmoved (on_base f)"
  by (auto simp: unmoved_def on_base_def split_beta)

lemma area_handlers_based: "based (handle_read_area L req who)" "based (handle_write_area L req who)"
  unfolding handle_read_area_def handle_write_area_def read_one_def write_one_def case_prod_unfold Let_def by (intro base_intros)+

text \<open>Reading memory leaves it alone.\<close>

definition reads_only :: "'b library \<Rightarrow> bool" where
  "reads_only L \<longleftrightarrow> (\<forall>req who. unmoved (li_read_area L req who)) \<and> (\<forall>area db first n. unmoved (li_read_memory L area db first n))"

lemma read_area_unmoved: "reads_only L \<Longrightarrow> unmoved (handle_read_area L req who)"
  unfolding handle_read_area_def read_one_def case_prod_unfold reads_only_def by (cases who) (intro base_intros; simp)

text \<open>The part of the state a client can see.\<close>

definition seen :: "client \<Rightarrow> 'b emulator \<Rightarrow> 'b \<times> bytes list option \<times> bytes list option \<times> upload_context option" where
  "seen who s = (em_base s, em_szl s who, em_lists s who, em_uploads s who)"

lemmas handler_defs = handle_szl_def handle_list_blocks_def handle_get_block_info_def handle_get_clock_def handle_start_upload_def
  handle_upload_def pop_fragment_def prog_defs emu_get_def emu_set_def Let_def

lemma based_view:
  "based m \<Longrightarrow> seen me s = seen me t \<Longrightarrow> fst (m s) = fst (m t) \<and> seen me (snd (m s)) = seen me (snd (m t))"
  by (auto simp: based_def on_base_def seen_def split_beta)

definition transfers :: "client \<Rightarrow> 'b emulator \<Rightarrow> bytes list option \<times> bytes list option \<times> upload_context option" where
  "transfers who s = (em_szl s who, em_lists s who, em_uploads s who)"

lemma based_transfers: "based m \<Longrightarrow> transfers me (snd (m s)) = transfers me s"
  by (auto simp: based_def on_base_def transfers_def split_beta)

text \<open>The calls that go on with a transfer, and those that may change the memory.\<close>

fun continues :: "emu_call \<Rightarrow> bool" where
  "continues (AskSzl req params) \<longleftrightarrow> token_of params \<noteq> 0"
| "continues (AskList req params) \<longleftrightarrow> True"
| "continues (AskClock req params) \<longleftrightarrow> True"
| "continues (AskUpload req) \<longleftrightarrow> True"
| "continues _ \<longleftrightarrow> False"

fun writes :: "emu_call \<Rightarrow> bool" where
  "writes (AskWrite req) \<longleftrightarrow> True"
| "writes _ \<longleftrightarrow> False"

fun is_read :: "emu_call \<Rightarrow> bool" where
  "is_read (AskRead req) \<longleftrightarrow> True"
| "is_read _ \<longleftrightarrow> False"

lemma seen_other:
  "who \<noteq> me \<Longrightarrow> \<not> writes c \<and> (is_read c \<longrightarrow> reads_only L) \<Longrightarrow> seen me (snd (emu_answer L who c s)) = seen me s"
proof (cases c)
  case (AskRead req)
  assume "\<not> writes c \<and> (is_read c \<longrightarrow> reads_only L)"
  then have "unmoved (handle_read_area L req who)" using AskRead read_area_unmoved by simp
  then show ?thesis using AskRead by (simp add: unmoved_def)
qed (auto simp: seen_def handler_defs split: option.splits list.splits sum.splits)

lemma seen_same:
  assumes "seen me s = seen me t"
  shows "fst (emu_answer L me c s) = fst (emu_answer L me c t) \<and> seen me (snd (emu_answer L me c s)) = seen me (snd (emu_answer L me c t))"
proof (cases c)
  case (AskRead req)
  then show ?thesis using based_view[OF area_handlers_based(1) assms] by simp
next
  case (AskWrite req)
  then show ?thesis using based_view[OF area_handlers_based(2) assms] by simp
qed (use assms in \<open>auto simp: seen_def handler_defs split: option.splits list.splits sum.splits\<close>)

interpretation emulated: separated "emu_answer L" seen "\<lambda>_. True" "\<lambda>c. \<not> writes c \<and> (is_read c \<longrightarrow> reads_only L)" for L :: "'b library"
  by unfold_locales (rule seen_other, assumption, assumption, rule seen_same, assumption)

lemma transfers_other: "who \<noteq> me \<Longrightarrow> transfers me (snd (emu_answer L who c s)) = transfers me s"
proof (cases c)
  case (AskRead req)
  then show ?thesis by (simp add: based_transfers[OF area_handlers_based(1)])
next
  case (AskWrite req)
  then show ?thesis by (simp add: based_transfers[OF area_handlers_based(2)])
qed (auto simp: transfers_def handler_defs split: option.splits list.splits sum.splits)

lemma transfers_same:
  assumes "continues c" "transfers me s = transfers me t"
  shows "fst (emu_answer L me c s) = fst (emu_answer L me c t)
    \<and> transfers me (snd (emu_answer L me c s)) = transfers me (snd (emu_answer L me c t))"
  using assms by (cases c) (auto simp: transfers_def handler_defs split: option.splits list.splits sum.splits)

interpretation under_way: separated "emu_answer L" transfers continues "\<lambda>_. True" for L :: "'b library"
  by unfold_locales (rule transfers_other, assumption, rule transfers_same, assumption, assumption)

text \<open>C34: How far clients are kept apart. Where the others write no memory, and reading leaves it alone, a client is answered
  as if it were alone, whatever lists, blocks, uploads, clocks and areas the others ask for in between. And whatever the others
  ask for, writes included, the fragments and upload chunks of the transfers a client has under way are those it gets alone.\<close>
theorem emulator_clients_apart:
  assumes "reads_only L \<and> list_all (\<lambda>(who, c). who = me \<or> \<not> writes c) calls
    \<or> list_all (\<lambda>(who, c). if who = me then continues c else True) calls"
  shows "filter (called_by me) (emu_run L calls s) = emu_run L (filter (called_by me) calls) s"
  using assms
proof
  assume a: "reads_only L \<and> list_all (\<lambda>(who, c). who = me \<or> \<not> writes c) calls"
  then have "list_all (\<lambda>(who, c). if who = me then True else \<not> writes c \<and> (is_read c \<longrightarrow> reads_only L)) calls"
    by (auto simp: list_all_iff)
  then show ?thesis unfolding emu_run_def by (rule emulated.served_view) (rule refl)
next
  assume "list_all (\<lambda>(who, c). if who = me then continues c else True) calls"
  then show ?thesis unfolding emu_run_def by (rule under_way.served_view) (rule refl)
qed

section \<open>Multi-item reads\<close>

text \<open>What an item reads as, on the wire and to the decoder.\<close>

definition item_entry :: "bool \<Rightarrow> bytes option \<Rightarrow> bytes" where
  "item_entry again answer = (case answer of None \<Rightarrow> [0x0a, 0, 0, 0]
     | Some p \<Rightarrow> [255, 4] @ be_bytes 2 (len p * 8) @ p @ (if again \<and> odd (length p) then [0] else []))"

fun entries_of :: "(mem_range \<Rightarrow> bytes option) \<Rightarrow> mem_range list \<Rightarrow> bytes" where
  "entries_of mem [] = []"
| "entries_of mem (r # rs) = item_entry (rs \<noteq> []) (mem r) @ entries_of mem rs"

definition item_outcome :: "bytes option \<Rightarrow> item_result" where
  "item_outcome answer = (case answer of None \<Rightarrow> ItemFailure 10 | Some p \<Rightarrow> ItemSuccess (Some p))"

definition readable :: "(mem_range \<Rightarrow> bytes option) \<Rightarrow> mem_range \<Rightarrow> bool" where
  "readable mem r \<longleftrightarrow> (case mem r of None \<Rightarrow> True | Some p \<Rightarrow> len p = mr_count r \<and> mr_count r < 8192)"

lemma read_item_entry:
  assumes "readable mem r" "rest \<noteq> [] \<longleftrightarrow> again"
  shows "read_item (pre @ item_entry again (mem r) @ rest) (length pre) r again
    = Inr (item_outcome (mem r), length pre + length (item_entry again (mem r)))"
proof (cases "mem r")
  case None
  then show ?thesis
    by (auto simp: read_item_def item_entry_def item_outcome_def outcome_item_def nth_append slice_def Let_def)
next
  case (Some p)
  define pad where "pad = (if again \<and> odd (length p) then [0 :: byte] else [])"
  have l: "len p = mr_count r" "length p < 8192" using assms(1) Some by (auto simp: readable_def len_def)
  obtain s1 s2 where s: "be_bytes 2 (len p * 8) = [s1, s2]" by simp
  have v: "nat (be_int [s1, s2]) = length p * 8"
    using be_int_2[of "len p * 8"] l s by (simp add: len_def nat_mult_distrib del: be_bytes_numeral be_int_Cons)
  define data where "data = pre @ [255, 4, s1, s2] @ p @ pad @ rest"
  have d: "pre @ item_entry again (mem r) @ rest = data" using Some s by (simp add: item_entry_def data_def pad_def)
  have e: "length (item_entry again (mem r)) = 4 + length p + length pad" using Some by (simp add: item_entry_def pad_def)
  have parts: "data ! length pre = 255" "data ! (length pre + 1) = 4" "slice (length pre + 2) (length pre + 4) data = [s1, s2]"
      "slice (length pre + 4) (length pre + 4 + length p) data = p"
      "length data = length pre + 4 + length p + length pad + length rest"
    by (simp_all add: nth_append slice_def data_def)
  have ok: "\<not> (again \<and> odd (length p) \<and> length pre + 4 + length p \<ge> length data)" "length pad = of_bool (again \<and> odd (length p))"
    using assms(2) parts(5) by (auto simp: pad_def)
  show ?thesis
    unfolding d read_item_def Let_def parts(1-4) v e using l(1) ok parts(5)
    by (simp add: parts(4) Some item_outcome_def outcome_item_def len_def)
qed

lemma decode_items_entries:
  "list_all (readable mem) rs \<Longrightarrow>
     decode_items False (pre @ entries_of mem rs) (length pre) rs
       = Inr (List.map (\<lambda>r. item_outcome (mem r)) rs, length pre + length (entries_of mem rs))"
proof (induction rs arbitrary: pre)
  case (Cons r rs)
  have ne: "item_entry b a \<noteq> []" for b a by (auto simp: item_entry_def split: option.splits)
  have "entries_of mem rs \<noteq> [] \<longleftrightarrow> rs \<noteq> []" by (cases rs) (simp_all add: ne)
  then have "read_item (pre @ item_entry (rs \<noteq> []) (mem r) @ entries_of mem rs) (length pre) r (rs \<noteq> [])
      = Inr (item_outcome (mem r), length pre + length (item_entry (rs \<noteq> []) (mem r)))"
    using Cons.prems by (intro read_item_entry) simp_all
  moreover have "decode_items False ((pre @ item_entry (rs \<noteq> []) (mem r)) @ entries_of mem rs)
      (length (pre @ item_entry (rs \<noteq> []) (mem r))) rs
      = Inr (List.map (\<lambda>r. item_outcome (mem r)) rs, length (pre @ item_entry (rs \<noteq> []) (mem r)) + length (entries_of mem rs))"
    using Cons.prems by (intro Cons.IH) simp
  ultimately show ?case by simp
qed simp

text \<open>What python-snap7 does with byte ranges of data blocks: the address bytes of the oracle's encoder parse to the range with a word
  length that is one octet, and a read leaves the memory alone.\<close>

definition locates :: "'b library \<Rightarrow> int \<Rightarrow> int \<Rightarrow> mem_range \<Rightarrow> bool" where
  "locates L area w r \<longleftrightarrow>
     (case address r of Inl e \<Rightarrow> True
      | Inr a \<Rightarrow> li_address L a = Inr (Some \<lparr>sp_area = area, sp_db = mr_db r, sp_start = mr_start r, sp_count = mr_count r, sp_word = w\<rparr>))"

definition reads_bytes :: "'b library \<Rightarrow> int \<Rightarrow> (mem_range \<Rightarrow> bytes option) \<Rightarrow> 'b \<Rightarrow> mem_range \<Rightarrow> bool" where
  "reads_bytes L area mem b r \<longleftrightarrow> li_read_memory L area (mr_db r) (mr_start r) (mr_count r) b = (Inr (mem r), b)"

definition octet_word :: "'b library \<Rightarrow> int \<Rightarrow> bool" where
  "octet_word L w \<longleftrightarrow> w \<notin> {li_timer L, li_counter L, li_word L, li_dword L, li_real L}"

lemma read_one_entry:
  assumes "octet_word L w" "reads_bytes L area mem (em_base s) r" "readable mem r"
  shows "read_one L n (index, Some \<lparr>sp_area = area, sp_db = mr_db r, sp_start = mr_start r, sp_count = mr_count r, sp_word = w\<rparr>) data s
    = (Inr (data @ item_entry (int index + 1 < n) (mem r)), s)"
proof -
  have u: "\<not> timed L \<lparr>sp_area = area, sp_db = mr_db r, sp_start = mr_start r, sp_count = mr_count r, sp_word = w\<rparr>" "word_size L w = 1"
    using assms(1) by (simp_all add: timed_def word_size_def octet_word_def)
  have e: "read_entry L \<lparr>sp_area = area, sp_db = mr_db r, sp_start = mr_start r, sp_count = mr_count r, sp_word = w\<rparr> b (mem r)
      = Inr (item_entry b (mem r))" for b
  proof (cases "mem r")
    case None
    then show ?thesis by (simp add: read_entry_def item_entry_def concatE_def pack1 pack2 byte_def)
  next
    case (Some p)
    then have "pack 2 (len p * 8) = Inr (be_bytes 2 (len p * 8))" "pack 1 255 = Inr [255]" "pack 1 4 = Inr [4]"
      using assms(3) by (simp_all add: pack1 pack2 byte_def len_def readable_def del: be_bytes_numeral)
    with Some u(1) show ?thesis by (simp add: read_entry_def item_entry_def concatE_def del: be_bytes_numeral)
  qed
  have "li_read_memory L area (mr_db r) (mr_start r) (mr_count r) (em_base s) = (Inr (mem r), em_base s)"
    using assms(2) by (simp add: reads_bytes_def)
  then show ?thesis by (simp add: read_one_def spec_of_def on_base_def prog_defs u e)
qed

lemma read_all_entries:
  assumes "octet_word L w" "list_all (reads_bytes L area mem (em_base s)) rs" "list_all (readable mem) rs" "n = int (k + length rs)"
  shows "foldM (read_one L n) (List.enumerate k (List.map (\<lambda>r. Some \<lparr>sp_area = area, sp_db = mr_db r, sp_start = mr_start r,
      sp_count = mr_count r, sp_word = w\<rparr>) rs)) data s = (Inr (data @ entries_of mem rs), s)"
  using assms(2-)
proof (induction rs arbitrary: k data)
  case (Cons r rs)
  have "int k + 1 < n \<longleftrightarrow> rs \<noteq> []" using Cons.prems(3) by auto
  then show ?case using Cons read_one_entry[OF assms(1), of area mem s r n k data] by (simp add: pyeval)
qed (simp add: ret_def)

lemma specs_read:
  assumes "octet_word L w" "list_all2 (\<lambda>r x. address r = Inr x) rs xs" "list_all (locates L area w) rs" "length pre = 2 + k * 12"
  shows "mapE (\<lambda>index. emu_address L (slice (2 + index * 12) (14 + index * 12) (pre @ concat xs))) [k..<k + length rs]
    = Inr (List.map (\<lambda>r. Some \<lparr>sp_area = area, sp_db = mr_db r, sp_start = mr_start r, sp_count = mr_count r, sp_word = w\<rparr>) rs)"
  using assms(2-)
proof (induction rs arbitrary: k pre xs)
  case (Cons r rs)
  then obtain x ys where x: "xs = x # ys" "address r = Inr x" "list_all2 (\<lambda>r x. address r = Inr x) rs ys"
    by (cases xs) auto
  have lx: "length x = 12" using address_length[OF x(2)] .
  have "slice (2 + k * 12) (14 + k * 12) (pre @ x @ concat ys) = x" using Cons.prems(3) lx by (simp add: slice_def)
  then have here: "emu_address L (slice (2 + k * 12) (14 + k * 12) (pre @ concat xs))
      = Inr (Some \<lparr>sp_area = area, sp_db = mr_db r, sp_start = mr_start r, sp_count = mr_count r, sp_word = w\<rparr>)"
    using Cons.prems(2) x(1,2) assms(1) by (simp add: emu_address_def locates_def octet_word_def)
  have "list_all (locates L area w) rs" "length (pre @ x) = 2 + Suc k * 12" using Cons.prems(2,3) lx by simp_all
  from Cons.IH[OF x(3) this] here x(1) show ?case by (simp add: upt_conv_Cons del: upt_Suc)
qed simp

text \<open>What the emulator makes of a request the conversation oracle encodes: the library's parse is the parameter section, the data
  section is cut out by \<^verbatim>\<open>_parse_request\<close> itself.\<close>

definition requests :: "emu_request \<Rightarrow> bytes \<Rightarrow> int \<Rightarrow> bool" where
  "requests req pdu reference \<longleftrightarrow> rq_sequence req = reference \<and> sections pdu 1 reference = Inr (rq_parameters req, rq_raw req)"

text \<open>What \<open>_parse_request\<close> needs of the library's parse: the reference and the parameter section.\<close>

definition parses :: "'b library \<Rightarrow> bytes \<Rightarrow> int \<Rightarrow> bool" where
  "parses L pdu reference \<longleftrightarrow> (case (li_parse L pdu, sections pdu 1 reference) of
      (Inr req, Inr (parameters, _)) \<Rightarrow> rq_sequence req = reference \<and> rq_parameters req = parameters
    | _ \<Rightarrow> False)"

lemma emu_parse_requests:
  assumes "parses L pdu reference" "emu_parse L pdu = Inr req"
  shows "requests req pdu reference"
proof -
  obtain r p d where l: "li_parse L pdu = Inr r" "sections pdu 1 reference = Inr (p, d)" "rq_sequence r = reference" "rq_parameters r = p"
    using assms(1) by (auto simp: parses_def split: sum.splits)
  let ?n = "nat (be_int (slice 6 8 pdu))" and ?m = "nat (be_int (slice 8 10 pdu))"
  have s: "length pdu = 10 + ?n + ?m" "d = drop (10 + ?n) pdu"
    using l(2) by (auto simp: sections_def Let_def bindE_Inr_iff split: if_splits)
  have cut: "slice a (a + m) xs = drop a xs" if "length xs = a + m" for a m and xs :: bytes using that by (simp add: slice_def)
  have "req = r\<lparr>rq_raw := slice (10 + ?n) (10 + ?n + ?m) pdu\<rparr>"
    using assms(2) l(1) by (auto simp: emu_parse_def Let_def bindE_Inr_iff)
  moreover have "slice (10 + ?n) (10 + ?n + ?m) pdu = d" using cut[OF s(1)] s(2) by (simp only:)
  ultimately have "req = r\<lparr>rq_raw := d\<rparr>" by (simp only:)
  then show ?thesis using l(2-4) by (simp add: requests_def)
qed

lemma encoded_request:
  assumes "octet_word L w" "request reference ranges wr = Inr (Some pdu)" "length ranges \<noteq> 1" "requests req pdu reference"
    "list_all (locates L area w) ranges"
  obtains data where "(if wr then write_items ranges else Inr []) = Inr data" "rq_raw req = data"
    "bytes_of [function_code wr, len ranges] = Inr [byte (function_code wr), byte (len ranges)]" "length ranges < 256" "referenced req"
    "is_single L req = Inr (len ranges, False)"
    "multi_specs L req = Inr (List.map (\<lambda>r. Some \<lparr>sp_area = area, sp_db = mr_db r, sp_start = mr_start r, sp_count = mr_count r, sp_word = w\<rparr>) ranges)"
proof -
  obtain h specs data where h: "bytes_of [function_code wr, len ranges] = Inr h"
    and specs: "concatE (List.map address ranges) = Inr specs" and data: "(if wr then write_items ranges else Inr []) = Inr data"
    and pdu: "packet 1 reference (h @ specs) data = Inr pdu"
    using assms(2) by (auto simp: request_def function_code_def split: if_splits)
  obtain xs where xs: "list_all2 (\<lambda>item x. address item = Inr x) ranges xs" and sx: "specs = concat xs"
    using specs by (auto simp: concatE_Inr_iff list_all2_map1)
  have p: "rq_parameters req = h @ concat xs" "rq_raw req = data" using assms(4) sections_packet[OF pdu] sx by (auto simp: requests_def)
  have n: "length ranges < 256" "h = [byte (function_code wr), byte (len ranges)]" using h by (auto simp: bytes_of_Inr_iff len_def byte_def)
  have b: "unat (byte (len ranges)) = length ranges"
    using n(1) uint_byte_id[of "len ranges"] by (simp add: len_def unat_eq_nat_uint)
  have one: "byte (len ranges) \<noteq> 1" using b assms(3) by (metis unat_1)
  have r: "referenced req" using packet_bounds[OF pdu] assms(4) by (simp add: referenced_def requests_def)
  have single: "is_single L req = Inr (len ranges, False)"
    using one n by (simp add: is_single_def at_def p uint_byte_id len_def)
  have "multi_specs L req = Inr (List.map (\<lambda>r. Some \<lparr>sp_area = area, sp_db = mr_db r, sp_start = mr_start r, sp_count = mr_count r, sp_word = w\<rparr>) ranges)"
    using specs_read[OF assms(1) xs assms(5), of h 0] n(2) b by (simp add: multi_specs_def at_def p)
  from that[OF data p(2) _ n(1) r single this] h n(2) show thesis by simp
qed

lemma response_header_sections:
  assumes "conventions L" "referenced req" "0 \<le> code" "code < 256" "0 \<le> items" "items < 256" "length data < 65536"
  obtains resp where "response_header L req code items data = Inr resp"
    "sections resp 3 (rq_sequence req) = Inr ([byte code, byte items], data)"
proof -
  let ?p = "[byte code, byte items]"
  have "pack 1 items = Inr [byte items]" "pack 1 code = Inr [byte code]" "pack 1 0x32 = Inr [byte 0x32]" "pack 1 3 = Inr [byte 3]"
      "pack 1 0 = Inr [0]" "pack 2 0 = Inr (be_bytes 2 0)" "pack 2 2 = Inr (be_bytes 2 2)" "pack 2 (rq_sequence req) = Inr (be_bytes 2 (rq_sequence req))"
      "pack 2 (len data) = Inr (be_bytes 2 (len data))"
    using assms(2-) by (simp_all add: pack1 pack2 byte_def len_def referenced_def del: be_bytes_numeral)
  then have "response_header L req code items data = Inr (byte 0x32 # byte 3 # be_bytes 2 0 @ be_bytes 2 (rq_sequence req)
      @ be_bytes 2 2 @ be_bytes 2 (len data) @ [0, 0] @ ?p @ data)"
    using assms(1) by (simp add: response_header_def conventions_def concatE_def del: be_bytes_numeral)
  moreover have "len ?p = 2" by (simp add: len_def)
  ultimately have r: "response_header L req code items data = packet 3 (rq_sequence req) ?p data"
    using packet_ok[of 3 "rq_sequence req" ?p data] assms(2,7) by (simp add: referenced_def del: be_bytes_numeral)
  obtain resp where "packet 3 (rq_sequence req) ?p data = Inr resp"
    using packet_ok[of 3 "rq_sequence req" ?p data] assms(2,7) by (auto simp: referenced_def)
  with that r sections_packet show thesis by simp
qed

text \<open>C30: The independent readings of a multi-item read agree. For every request the conversation oracle encodes with other than
  one item, the emulated PLC answers with a reply of which the sequence oracle recovers, item by item and in order, exactly what the
  memory holds or that it holds nothing, and the PLC's state is unchanged.\<close>
theorem emulator_multi_read:
  assumes "conventions L" "octet_word L w" and "request reference ranges False = Inr (Some pdu)" and "length ranges \<noteq> 1"
    and "requests req pdu reference" "list_all (locates L area w) ranges"
    and "list_all (reads_bytes L area mem (em_base s)) ranges" "list_all (readable mem) ranges"
    and "length (entries_of mem ranges) < 65536"
  shows "\<exists>resp. handle_read_area L req who s = (Inr resp, s)
    \<and> decode_multi \<lparr>ex_reference = reference, ex_write = False, ex_ranges = ranges, ex_request_pdu = pdu, ex_response_pdu = resp\<rparr>
      = Inr (List.map (\<lambda>r. item_outcome (mem r)) ranges)"
proof -
  obtain data where q: "bytes_of [function_code False, len ranges] = Inr [byte (function_code False), byte (len ranges)]" "length ranges < 256"
      "referenced req" "is_single L req = Inr (len ranges, False)"
      "multi_specs L req = Inr (List.map (\<lambda>r. Some \<lparr>sp_area = area, sp_db = mr_db r, sp_start = mr_start r, sp_count = mr_count r, sp_word = w\<rparr>) ranges)"
    by (rule encoded_request[OF assms(2-6)])
  have "foldM (read_one L (len ranges)) (List.enumerate 0 (List.map (\<lambda>r. Some \<lparr>sp_area = area, sp_db = mr_db r, sp_start = mr_start r,
      sp_count = mr_count r, sp_word = w\<rparr>) ranges)) [] s = (Inr (entries_of mem ranges), s)"
    using read_all_entries[OF assms(2,7,8), of "len ranges" 0 "[]"] by (simp add: len_def)
  moreover obtain resp where resp: "response_header L req 4 (len ranges) (entries_of mem ranges) = Inr resp"
      "sections resp 3 (rq_sequence req) = Inr ([byte 4, byte (len ranges)], entries_of mem ranges)"
    using response_header_sections[OF assms(1) q(3) _ _ _ _ assms(9), of 4 "len ranges"] q(2) by (auto simp: len_def)
  ultimately have "handle_read_area L req who s = (Inr resp, s)"
    using assms(1) by (simp add: handle_read_area_def prog_defs q conventions_def)
  moreover have "decode_multi \<lparr>ex_reference = reference, ex_write = False, ex_ranges = ranges, ex_request_pdu = pdu, ex_response_pdu = resp\<rparr>
      = Inr (List.map (\<lambda>r. item_outcome (mem r)) ranges)"
    using resp(2) q(1) assms(5) decode_items_entries[OF assms(8), of "[]"] by (simp add: decode_multi_def function_code_def requests_def)
  ultimately show ?thesis by blast
qed

section \<open>Multi-item writes\<close>

text \<open>The reference: each payload goes to the memory at its range, in order.\<close>

definition store_one :: "'b library \<Rightarrow> int \<Rightarrow> mem_range \<Rightarrow> bool list \<Rightarrow> ('b emulator, bool list) prog" where
  "store_one L area r oks =
     bindM (on_base (li_write_memory L area (mr_db r) (mr_start r) (payload r))) (\<lambda>ok. ret (oks @ [ok]))"

definition status_octets :: "bool list \<Rightarrow> bytes" where
  "status_octets = List.map (\<lambda>ok. if ok then 255 else 10)"

definition write_outcome :: "bool \<Rightarrow> item_result" where
  "write_outcome ok = (if ok then ItemSuccess None else ItemFailure 10)"

lemma write_all_stored:
  assumes "write_items rs = Inr bs" "n = int (k + length rs)" "list_all (\<lambda>r. 0 \<le> mr_count r) rs"
  shows "foldM (write_one L (pre @ bs) n) (List.enumerate k (List.map (\<lambda>r. Some \<lparr>sp_area = area, sp_db = mr_db r, sp_start = mr_start r,
      sp_count = mr_count r, sp_word = w\<rparr>) rs)) (length pre, status_octets oks) s
    = (case foldM (store_one L area) rs oks s of (Inl e, t) \<Rightarrow> (Inl e, t) | (Inr oks', t) \<Rightarrow> (Inr (length pre + length bs, status_octets oks'), t))"
  using assms
proof (induction rs arbitrary: k pre bs oks s)
  case (Cons r rs)
  define pad where "pad = (if rs \<noteq> [] \<and> odd (nat (mr_count r)) then [0 :: byte] else [])"
  obtain m tail where m: "pack 2 (mr_count r * 8) = Inr m" and tail: "write_items rs = Inr tail"
    and bs: "bs = [0, 4] @ m @ payload r @ pad @ tail"
    using Cons.prems by (auto simp: Let_def len_def pad_def simp del: be_bytes_numeral)
  have v: "m = be_bytes 2 (mr_count r * 8)" "0 \<le> mr_count r * 8" "mr_count r * 8 < 65536"
    using m Cons.prems(3) by (auto simp: pack_def split: if_splits)
  obtain m1 m2 where m12: "m = [m1, m2]" using v(1) by simp
  have size: "nat (be_int [m1, m2]) div 8 = nat (mr_count r)"
    using be_int_2[OF v(2,3)] v(1) m12 by (simp add: nat_mult_distrib del: be_bytes_numeral be_int_Cons)
  define data where "data = pre @ bs"
  have header: "slice (length pre) (length pre + 4) data = [0, 4, m1, m2]"
      "slice (length pre + 4) (length pre + 4 + nat (mr_count r)) data = payload r"
    by (simp_all add: data_def bs m12 slice_def)
  have again: "int k + 1 < n \<longleftrightarrow> rs \<noteq> []" using Cons.prems(2) by auto
  have next_at: "length pre + 4 + nat (mr_count r) + (if rs \<noteq> [] \<and> odd (nat (mr_count r)) then 1 else 0)
      = length (pre @ [0, 4] @ m @ payload r @ pad)"
    by (simp add: pad_def m12)
  have all: "data = (pre @ [0, 4] @ m @ payload r @ pad) @ tail" "length pre + length bs = length (pre @ [0, 4] @ m @ payload r @ pad) + length tail"
    by (simp_all add: data_def bs)
  have quarter: "slice 2 4 [0, 4, m1, m2] = [m1, m2]" by (simp add: slice_def)
  have one: "write_one L data n (k, Some \<lparr>sp_area = area, sp_db = mr_db r, sp_start = mr_start r, sp_count = mr_count r, sp_word = w\<rparr>)
      (length pre, status_octets oks) s
    = (case store_one L area r oks s of (Inl e, t) \<Rightarrow> (Inl e, t)
       | (Inr oks', t) \<Rightarrow> (Inr (length (pre @ [0, 4] @ m @ payload r @ pad), status_octets oks'), t))"
    unfolding write_one_def prod.case Let_def header(1) quarter size again
    by (simp add: header(2) next_at[symmetric] store_one_def status_octets_def prog_defs on_base_def spec_of_def
        split: sum.split prod.split) (simp add: pad_def m12)
  show ?case
  proof (cases "store_one L area r oks s")
    case (Pair q t)
    show ?thesis
    proof (cases q)
      case (Inl e)
      then show ?thesis using one Pair unfolding data_def[symmetric] by (simp add: pyeval)
    next
      case (Inr oks')
      have "foldM (write_one L data n) (List.enumerate (Suc k) (List.map (\<lambda>r. Some \<lparr>sp_area = area, sp_db = mr_db r, sp_start = mr_start r,
          sp_count = mr_count r, sp_word = w\<rparr>) rs)) (length (pre @ [0, 4] @ m @ payload r @ pad), status_octets oks') t
        = (case foldM (store_one L area) rs oks' t of (Inl e, t) \<Rightarrow> (Inl e, t)
           | (Inr oks', t) \<Rightarrow> (Inr (length pre + length bs, status_octets oks'), t))"
        unfolding all by (rule Cons.IH[OF tail]) (use Cons.prems in auto)
      then show ?thesis using one Pair Inr unfolding data_def[symmetric] by (simp add: pyeval)
    qed
  qed
qed (simp add: ret_def)

lemma store_length: "foldM (store_one L area) rs oks s = (Inr oks', t) \<Longrightarrow> length oks' = length oks + length rs"
  by (induction rs arbitrary: oks s) (auto simp: store_one_def prog_defs split: prod.splits sum.splits)

lemma decode_status:
  "length oks = length rs \<Longrightarrow> decode_items True (pre @ status_octets oks) (length pre) rs
     = Inr (List.map write_outcome oks, length pre + length oks)"
proof (induction oks rs arbitrary: pre rule: list_induct2)
  case (Cons ok oks r rs)
  have "decode_items True ((pre @ [if ok then 255 else 10]) @ status_octets oks) (length (pre @ [if ok then 255 else 10 :: byte])) rs
      = Inr (List.map write_outcome oks, length (pre @ [if ok then 255 else 10 :: byte]) + length oks)" by (rule Cons.IH)
  then show ?case
    by (simp add: status_octets_def write_item_def write_outcome_def outcome_item_def nth_append)
qed (simp add: status_octets_def)

text \<open>C31: A multi-item write does what it says. For every write request the conversation oracle encodes with other than one item,
  parsed by the emulated PLC itself (or handed to it as the same sections), the PLC hands the memory exactly the oracle's
  payloads, each at its range and in order; if the memory raises, so does the handler, and otherwise the sequence oracle reads
  from the reply which of the writes the memory took.\<close>
theorem emulator_multi_write:
  assumes "conventions L" "octet_word L w" and "request reference ranges True = Inr (Some pdu)" and "length ranges \<noteq> 1"
    and "requests req pdu reference \<or> parses L pdu reference \<and> emu_parse L pdu = Inr req" "list_all (locates L area w) ranges"
  shows "case foldM (store_one L area) ranges [] s of
      (Inl e, t) \<Rightarrow> handle_write_area L req who s = (Inl e, t)
    | (Inr oks, t) \<Rightarrow> \<exists>resp. handle_write_area L req who s = (Inr resp, t)
        \<and> decode_multi \<lparr>ex_reference = reference, ex_write = True, ex_ranges = ranges, ex_request_pdu = pdu, ex_response_pdu = resp\<rparr>
          = Inr (List.map write_outcome oks)"
proof -
  have req: "requests req pdu reference" using assms(5) emu_parse_requests by blast
  obtain data where q: "write_items ranges = Inr data" "rq_raw req = data"
      "bytes_of [function_code True, len ranges] = Inr [byte (function_code True), byte (len ranges)]" "length ranges < 256"
      "referenced req" "is_single L req = Inr (len ranges, False)"
      "multi_specs L req = Inr (List.map (\<lambda>r. Some \<lparr>sp_area = area, sp_db = mr_db r, sp_start = mr_start r, sp_count = mr_count r, sp_word = w\<rparr>) ranges)"
    by (rule encoded_request[OF assms(2-4) req assms(6)]) simp
  have c: "list_all (\<lambda>r. 0 \<le> mr_count r) ranges"
    using assms(3) address_count by (auto simp: request_def list_all_iff concatE_Inr_iff list_all2_map1 list_all2_conv_all_nth in_set_conv_nth split: if_splits)
  note all = write_all_stored[OF q(1) _ c, of "len ranges" 0 L "[]" area w "[]" s]
  show ?thesis
  proof (cases "foldM (store_one L area) ranges [] s")
    case (Pair r t)
    show ?thesis
    proof (cases r)
      case (Inl e)
      with all Pair show ?thesis by (simp add: handle_write_area_def prog_defs q status_octets_def len_def)
    next
      case (Inr oks)
      have l: "length oks = length ranges" using store_length Pair Inr by fastforce
      obtain resp where resp: "response_header L req 5 (len ranges) (status_octets oks) = Inr resp"
          "sections resp 3 (rq_sequence req) = Inr ([byte 5, byte (len ranges)], status_octets oks)"
        using response_header_sections[OF assms(1) q(5), of 5 "len ranges" "status_octets oks"] q(4) l
        by (auto simp: len_def status_octets_def)
      then have "handle_write_area L req who s = (Inr resp, t)"
        using all Pair Inr assms(1) by (simp add: handle_write_area_def prog_defs q conventions_def status_octets_def len_def)
      moreover have "decode_multi \<lparr>ex_reference = reference, ex_write = True, ex_ranges = ranges, ex_request_pdu = pdu, ex_response_pdu = resp\<rparr>
          = Inr (List.map write_outcome oks)"
        using resp(2) q(3) req decode_status[OF l, of "[]"] l by (simp add: decode_multi_def function_code_def requests_def status_octets_def)
      ultimately show ?thesis using Pair Inr by simp
    qed
  qed
qed

section \<open>Witnesses\<close>

text \<open>A library with one data block of four octets.\<close>

definition ex_memory :: "mem_range \<Rightarrow> bytes option" where
  "ex_memory r = (if mr_db r = 1 \<and> 0 \<le> mr_start r \<and> mr_start r + mr_count r \<le> 4
     then Some (slice (nat (mr_start r)) (nat (mr_start r + mr_count r)) [1, 2, 3, 4]) else None)"

definition ex_library :: "unit library" where
  "ex_library = \<lparr>
     li_parse = (\<lambda>pdu. Inr \<lparr>rq_sequence = be_int (slice 4 6 pdu), rq_parameters = slice 10 (10 + nat (be_int (slice 6 8 pdu))) pdu,
       rq_data = None, rq_raw = []\<rparr>),
     li_address = (\<lambda>a. Inr (Some \<lparr>sp_area = 132, sp_db = be_int (slice 6 8 a), sp_start = be_int (slice 9 12 a) div 8,
       sp_count = be_int (slice 4 6 a), sp_word = 2\<rparr>)),
     li_read_area = (\<lambda>_ _. ret []), li_write_area = (\<lambda>_ _. ret []),
     li_read_memory = (\<lambda>_ db place n. ret (ex_memory \<lparr>mr_db = db, mr_start = place, mr_count = n\<rparr>)),
     li_write_memory = (\<lambda>_ _ _ _. ret False),
     li_blocks = (\<lambda>_ n. if n = 1 then Some [1, 2, 3, 4] else None), li_cpu_state = (\<lambda>_. 8),
     li_success = (\<lambda>_ _ _. Inr []), li_userdata_error = (\<lambda>_ _. Inr []), li_error = (\<lambda>_ _. Inr []),
     li_ack = 3, li_userdata = 7, li_read_code = 4, li_write_code = 5, li_start_upload = 29, li_upload = 30,
     li_timer = 29, li_counter = 28, li_word = 4, li_dword = 6, li_real = 8\<rparr>"

lemma ex_conventions: "conventions ex_library" "octet_word ex_library 2"
  by (simp_all add: conventions_def octet_word_def ex_library_def)

definition ex_ask :: "int \<Rightarrow> bytes \<Rightarrow> bytes option \<Rightarrow> emu_request" where
  "ex_ask reference parameters data = \<lparr>rq_sequence = reference, rq_parameters = parameters, rq_data = data, rq_raw = []\<rparr>"

definition ex_names :: bytes where
  "ex_names = (case get_szl_data 8 28 0 of Inr (Some c) \<Rightarrow> c | _ \<Rightarrow> [])"

lemma ex_names_found: "get_szl_data 8 28 0 = Inr (Some ex_names)" "length (cut_every 48 ([0, 28] @ [0, 0] @ ex_names)) = 5"
  by code_simp+

theorem emulator_szl_complete_witness:
  "\<exists>pdus bs t. szl_transfer ex_library (''client'', 1) (ex_ask 5 [] (Some [0, 28, 0, 0])) (replicate 4 (ex_ask 6 [] None)) (emu_init ())
     = (Inr pdus, t) \<and> decoded 4 1 (ex_ask 5 [] (Some [0, 28, 0, 0]) # replicate 4 (ex_ask 6 [] None)) pdus bs
     \<and> concat (List.map rb_payload bs) = [0, 28] @ [0, 0] @ ex_names
     \<and> cont_run 4 1 (length pdus) 0 (recorded (ex_ask 5 [] (Some [0, 28, 0, 0])) (replicate 4 (ex_ask 6 [] None)) pdus) cont_init
       = Inr \<lparr>ct_payload = [0, 28] @ [0, 0] @ ex_names, ct_unit = Some 1, ct_token = Some 1, ct_failure = None\<rparr>"
proof -
  have b: "be_bytes 2 28 = [0, 28]" "be_bytes 2 0 = [0, 0]" by (simp_all add: byte_def)
  have "rq_data (ex_ask 5 [] (Some [0, 28, 0, 0])) = Some (be_bytes 2 28 @ be_bytes 2 0 @ [])" unfolding b by (simp add: ex_ask_def)
  moreover have "list_all referenced (ex_ask 5 [] (Some [0, 28, 0, 0]) # replicate 4 (ex_ask 6 [] None))"
    by (simp add: referenced_def ex_ask_def eval_nat_numeral)
  moreover have "get_szl_data (li_cpu_state ex_library (em_base (emu_init ()))) 28 0 = Inr (Some ex_names)"
    using ex_names_found(1) by (simp add: ex_library_def)
  moreover have "length (ex_ask 5 [] (Some [0, 28, 0, 0]) # replicate 4 (ex_ask 6 [] None)) = length (cut_every 48 (be_bytes 2 28 @ be_bytes 2 0 @ ex_names))"
    unfolding b ex_names_found(2) by simp
  ultimately show ?thesis
    using emulator_szl_complete[OF ex_conventions(1), of "ex_ask 5 [] (Some [0, 28, 0, 0])" "replicate 4 (ex_ask 6 [] None)" 28 0 "[]" "emu_init ()" ex_names "(''client'', 1)"]
    unfolding b by auto
qed

definition ex_block :: bytes where
  "ex_block = (case compact_block 1 [1, 2, 3, 4] of Inr c \<Rightarrow> c | Inl _ \<Rightarrow> [])"

definition ex_upload_parameters :: bytes where
  "ex_upload_parameters = [29, 0, 0, 0, 0, 0, 0, 0, 9, 95, 48, 65, 48, 48, 48, 48, 49, 65]"

lemma ex_block_found: "compact_block 1 [1, 2, 3, 4] = Inr ex_block" "length (cut_every 200 ex_block) = 1"
  "upload_block ex_upload_parameters = Inr (Some 1)"
  by code_simp+

theorem emulator_upload_complete_witness:
  "\<exists>first pdus chunks t. upload_transfer ex_library (''client'', 1) (ex_ask 5 ex_upload_parameters None) [ex_ask 6 [] None] (emu_init ())
      = (Inr (first, pdus), t) \<and> list_all2 uploaded (zip [ex_ask 6 [] None] pdus) (flagged chunks)
    \<and> concat chunks = ex_block \<and> drop 36 ex_block = [1, 2, 3, 4]"
proof -
  have "list_all referenced [ex_ask 5 ex_upload_parameters None, ex_ask 6 [] None]" by (simp add: referenced_def ex_ask_def)
  moreover have "upload_block (rq_parameters (ex_ask 5 ex_upload_parameters None)) = Inr (Some 1)" using ex_block_found(3) by (simp add: ex_ask_def)
  moreover have "li_blocks ex_library (em_base (emu_init ())) 1 = Some [1, 2, 3, 4]" by (simp add: ex_library_def)
  moreover have "length [ex_ask 6 [] None] = length (cut_every 200 ex_block)" using ex_block_found(2) by simp
  ultimately show ?thesis using emulator_upload_complete[OF ex_conventions(1) _ _ _ ex_block_found(1)] by blast
qed

definition ex_ranges :: "mem_range list" where
  "ex_ranges = [\<lparr>mr_db = 1, mr_start = 1, mr_count = 3\<rparr>, \<lparr>mr_db = 2, mr_start = 0, mr_count = 2\<rparr>]"

definition ex_read_request :: bytes where
  "ex_read_request = [50, 1, 0, 0, 0, 9, 0, 26, 0, 0, 4, 2, 18, 10, 16, 2, 0, 3, 0, 1, 132, 0, 0, 8, 18, 10, 16, 2, 0, 2, 0, 2, 132, 0, 0, 0]"

lemma ex_addresses: "address \<lparr>mr_db = 1, mr_start = 1, mr_count = 3\<rparr> = Inr [18, 10, 16, 2, 0, 3, 0, 1, 132, 0, 0, 8]"
  "address \<lparr>mr_db = 2, mr_start = 0, mr_count = 2\<rparr> = Inr [18, 10, 16, 2, 0, 2, 0, 2, 132, 0, 0, 0]"
  by (simp_all add: address_def concatE_def pack_def to_bytes_def byte_def)

lemma ex_read_request: "request 9 ex_ranges False = Inr (Some ex_read_request)"
  by (simp add: request_def ex_ranges_def ex_addresses ex_read_request_def concatE_def packet_def pack_def bytes_of_def byte_def len_def)

lemma ex_read_sections: "sections ex_read_request 1 9 = Inr (slice 10 36 ex_read_request, [])"
  by (simp add: sections_def ex_read_request_def slice_def bytes_of_def byte_def)

lemma ex_reads: "list_all (locates ex_library 132 2) ex_ranges" "list_all (reads_bytes ex_library 132 ex_memory ()) ex_ranges"
  "list_all (readable ex_memory) ex_ranges" "length (entries_of ex_memory ex_ranges) < 65536"
  "List.map (\<lambda>r. item_outcome (ex_memory r)) ex_ranges = [ItemSuccess (Some [2, 3, 4]), ItemFailure 10]"
  by (simp_all add: locates_def reads_bytes_def ex_ranges_def ex_addresses ex_library_def ex_memory_def readable_def item_entry_def item_outcome_def
      slice_def len_def ret_def)

theorem emulator_multi_read_witness:
  "\<exists>resp. handle_read_area ex_library (ex_ask 9 (slice 10 36 ex_read_request) None) (''client'', 1) (emu_init ()) = (Inr resp, emu_init ())
    \<and> decode_multi \<lparr>ex_reference = 9, ex_write = False, ex_ranges = ex_ranges, ex_request_pdu = ex_read_request, ex_response_pdu = resp\<rparr>
      = Inr [ItemSuccess (Some [2, 3, 4]), ItemFailure 10]"
proof -
  have "length ex_ranges \<noteq> 1" "requests (ex_ask 9 (slice 10 36 ex_read_request) None) ex_read_request 9"
    using ex_read_sections by (simp_all add: ex_ranges_def ex_ask_def requests_def)
  moreover have "list_all (reads_bytes ex_library 132 ex_memory (em_base (emu_init ()))) ex_ranges" using ex_reads(2) by (simp add: emu_init_def)
  ultimately show ?thesis
    using emulator_multi_read[OF ex_conventions ex_read_request _ _ ex_reads(1) _ ex_reads(3,4)] unfolding ex_reads(5) by blast
qed

definition ex_writes :: "mem_range list" where
  "ex_writes = [\<lparr>mr_db = 1, mr_start = 1, mr_count = 1\<rparr>, \<lparr>mr_db = 2, mr_start = 0, mr_count = 1\<rparr>]"

definition ex_write_request :: bytes where
  "ex_write_request = [50, 1, 0, 0, 0, 9, 0, 26, 0, 11, 5, 2, 18, 10, 16, 2, 0, 1, 0, 1, 132, 0, 0, 8, 18, 10, 16, 2, 0, 1, 0, 2, 132, 0, 0, 0,
     0, 4, 0, 8, 7, 0, 0, 4, 0, 8, 0]"

lemma ex_write_request: "request 9 ex_writes True = Inr (Some ex_write_request)"
  by (simp add: request_def ex_writes_def address_def to_bytes_def payload_def ex_write_request_def concatE_def packet_def pack_def
      bytes_of_def byte_def len_def upt_rec)

lemma ex_write_sections: "sections ex_write_request 1 9 = Inr (slice 10 36 ex_write_request, drop 36 ex_write_request)"
  by (simp add: sections_def ex_write_request_def slice_def bytes_of_def byte_def)

lemma ex_write_places: "list_all (locates ex_library 132 2) ex_writes"
  by (simp add: locates_def ex_writes_def address_def concatE_def pack_def to_bytes_def byte_def ex_library_def slice_def)

text \<open>The same block in a memory that keeps what is written.\<close>

definition ex_inside :: "bytes \<Rightarrow> int \<Rightarrow> int \<Rightarrow> int \<Rightarrow> bool" where
  "ex_inside memory db place n \<longleftrightarrow> db = 1 \<and> 0 \<le> place \<and> 0 \<le> n \<and> place + n \<le> len memory"

definition ex_store :: "bytes library" where
  "ex_store = \<lparr>
     li_parse = li_parse ex_library, li_address = li_address ex_library,
     li_read_area = (\<lambda>_ _. ret []), li_write_area = (\<lambda>_ _. ret []),
     li_read_memory = (\<lambda>_ db place n b.
       (Inr (if ex_inside b db place n then Some (slice (nat place) (nat (place + n)) b) else None), b)),
     li_write_memory = (\<lambda>_ db place d b.
       if ex_inside b db place (len d) then (Inr True, take (nat place) b @ d @ drop (nat (place + len d)) b) else (Inr False, b)),
     li_blocks = (\<lambda>b n. if n = 1 then Some b else None), li_cpu_state = (\<lambda>_. 8),
     li_success = (\<lambda>_ _ _. Inr []), li_userdata_error = (\<lambda>_ _. Inr []), li_error = (\<lambda>_ _. Inr []),
     li_ack = 3, li_userdata = 7, li_read_code = 4, li_write_code = 5, li_start_upload = 29, li_upload = 30,
     li_timer = 29, li_counter = 28, li_word = 4, li_dword = 6, li_real = 8\<rparr>"

lemma ex_store_conventions: "conventions ex_store" "octet_word ex_store 2"
  by (simp_all add: conventions_def octet_word_def ex_store_def)

lemma ex_store_places: "list_all (locates ex_store 132 2) ex_writes"
  by (simp add: locates_def ex_writes_def address_def concatE_def pack_def to_bytes_def byte_def ex_store_def ex_library_def slice_def)

definition ex_write_parsed :: emu_request where
  "ex_write_parsed = (ex_ask 9 (slice 10 36 ex_write_request) None)\<lparr>rq_raw := drop 36 ex_write_request\<rparr>"

lemma ex_write_parse: "parses ex_store ex_write_request 9" "emu_parse ex_store ex_write_request = Inr ex_write_parsed"
proof -
  show "parses ex_store ex_write_request 9" unfolding parses_def ex_write_sections
    by (simp add: ex_store_def ex_library_def ex_write_request_def slice_def)
  show "emu_parse ex_store ex_write_request = Inr ex_write_parsed"
    by (simp add: emu_parse_def ex_store_def ex_library_def ex_write_parsed_def ex_ask_def ex_write_request_def slice_def)
qed

lemma ex_stored: "foldM (store_one ex_store 132) ex_writes [] (emu_init [1, 2, 3, 4]) = (Inr [True, False], emu_init [1, 7, 3, 4])"
  by (simp add: ex_writes_def store_one_def ex_store_def ex_inside_def prog_defs on_base_def payload_def emu_init_def len_def upt_rec byte_def)

theorem emulator_multi_write_witness:
  "\<exists>req resp. emu_parse ex_store ex_write_request = Inr req
    \<and> handle_write_area ex_store req (''client'', 1) (emu_init [1, 2, 3, 4]) = (Inr resp, emu_init [1, 7, 3, 4])
    \<and> decode_multi \<lparr>ex_reference = 9, ex_write = True, ex_ranges = ex_writes, ex_request_pdu = ex_write_request, ex_response_pdu = resp\<rparr>
      = Inr [ItemSuccess None, ItemFailure 10]"
proof -
  have "length ex_writes \<noteq> 1" by (simp add: ex_writes_def)
  moreover have "requests ex_write_parsed ex_write_request 9 \<or> parses ex_store ex_write_request 9 \<and> emu_parse ex_store ex_write_request = Inr ex_write_parsed"
    using ex_write_parse by simp
  ultimately show ?thesis
    using emulator_multi_write[OF ex_store_conventions ex_write_request _ _ ex_store_places, where s = "emu_init [1, 2, 3, 4]" and who = "(''client'', 1)"]
      ex_write_parse(2) ex_stored
    by (fastforce simp: write_outcome_def)
qed

definition ex_calls :: "(client \<times> emu_call) list" where
  "ex_calls = [((''a'', 1), AskStart (ex_ask 5 ex_upload_parameters None)), ((''b'', 2), AskRead (ex_ask 9 (slice 10 36 ex_read_request) None)),
     ((''a'', 1), AskUpload (ex_ask 6 [] None)), ((''b'', 2), AskStart (ex_ask 5 ex_upload_parameters None))]"

definition ex_late_calls :: "(client \<times> emu_call) list" where
  "ex_late_calls = [((''b'', 2), AskWrite ex_write_parsed), ((''a'', 1), AskUpload (ex_ask 6 [] None))]"

theorem emulator_clients_apart_witness:
  "filter (called_by (''a'', 1)) (emu_run ex_store ex_calls (emu_init [1, 2, 3, 4]))
      = emu_run ex_store [((''a'', 1), AskStart (ex_ask 5 ex_upload_parameters None)), ((''a'', 1), AskUpload (ex_ask 6 [] None))] (emu_init [1, 2, 3, 4])
    \<and> filter (called_by (''a'', 1)) (emu_run ex_store ex_late_calls ((emu_init [1, 2, 3, 4])\<lparr>em_uploads := (\<lambda>_. Some \<lparr>up_id = 1, up_payload = ex_block, up_offset = 0\<rparr>)\<rparr>))
      = emu_run ex_store [((''a'', 1), AskUpload (ex_ask 6 [] None))] ((emu_init [1, 2, 3, 4])\<lparr>em_uploads := (\<lambda>_. Some \<lparr>up_id = 1, up_payload = ex_block, up_offset = 0\<rparr>)\<rparr>)"
proof -
  have "reads_only ex_store" by (simp add: reads_only_def unmoved_def ex_store_def ret_def)
  then have "reads_only ex_store \<and> list_all (\<lambda>(who, c). who = (''a'', 1) \<or> \<not> writes c) ex_calls" by (simp add: ex_calls_def)
  moreover have "list_all (\<lambda>(who, c). if who = (''a'', 1) then continues c else True) ex_late_calls" by (simp add: ex_late_calls_def)
  moreover have "filter (called_by (''a'', 1)) ex_calls = [((''a'', 1), AskStart (ex_ask 5 ex_upload_parameters None)), ((''a'', 1), AskUpload (ex_ask 6 [] None))]"
    "filter (called_by (''a'', 1)) ex_late_calls = [((''a'', 1), AskUpload (ex_ask 6 [] None))]"
    by (simp_all add: ex_calls_def ex_late_calls_def called_by_def)
  ultimately show ?thesis using emulator_clients_apart[of ex_store] by metis
qed

end
