(* ===== verification/Import_Boundaries.thy ===== *)
theory Import_Boundaries
  imports Analysis Corpora
begin

text \<open>
  \<^verbatim>\<open>import_boundaries.py\<close>: the imports a Lean source line names, the graph of modules, and the depth-first search that
  keeps test tooling off the client's import paths, with the graphs its own test must refuse.
\<close>

section \<open>Imports of a source line\<close>

text \<open>\<^verbatim>\<open>re.fullmatch(r"\s*import\s+([A-Za-z0-9_. ]+?)\s*(?:--.*)?", line)\<close>: the names end where a comment starts, and nothing
  else of the line holds a hyphen.\<close>

definition name_char :: "nat \<Rightarrow> bool" where
  "name_char c \<longleftrightarrow> 65 \<le> c \<and> c \<le> 90 \<or> 97 \<le> c \<and> c \<le> 122 \<or> is_digit c \<or> c = 95 \<or> c = 46 \<or> c = 32"

definition before_comment :: "ustr \<Rightarrow> ustr option" where
  "before_comment cs =
     (let names = takeWhile (\<lambda>c. c \<noteq> 45) cs; comment = dropWhile (\<lambda>c. c \<noteq> 45) cs in
      if comment = [] \<or> take 2 comment = [45, 45] then Some names else None)"

text \<open>White space, then characters of names, at least one of each, then white space.\<close>

definition names_part :: "ustr \<Rightarrow> bool" where
  "names_part cs \<longleftrightarrow> list_ex (\<lambda>i. list_ex (\<lambda>j. 0 < i \<and> i < j \<and> list_all is_space (take i cs) \<and> list_all name_char (slice i j cs)
      \<and> list_all is_space (drop j cs)) [0..<Suc (length cs)]) [0..<Suc (length cs)]"

definition import_words :: "ustr \<Rightarrow> ustr list" where
  "import_words line =
     (let cs = dropWhile is_space line in
      if \<not> starts_with (ascii ''import'') cs then []
      else (case before_comment (drop 6 cs) of
          None \<Rightarrow> []
        | Some names \<Rightarrow> if names_part names then split_words [] names else []))"

definition imports_of :: "ustr list \<Rightarrow> ustr list" where
  "imports_of lines = concat (List.map import_words lines)"

section \<open>The search\<close>

type_synonym import_graph = "(ustr \<times> ustr list) list"

definition import_roots :: "ustr list" where
  "import_roots = List.map ascii [''LeanS7'', ''LeanS7.Client'', ''LeanS7.Assurance'', ''Main'', ''CliMain'', ''DecodeMain'']"

definition tooling :: "ustr list" where
  "tooling = List.map ascii [''LeanS7.SessionConformance'', ''LeanS7.SessionAssurance'', ''LeanS7.SessionFuzz'', ''LeanS7.ManagementConformance'',
     ''LeanS7.S7Conformance'', ''LeanS7.OperationConformance'', ''LeanS7.ValueConformance'', ''LeanS7.ConversationConformance'']"

definition is_tooling :: "ustr \<Rightarrow> bool" where
  "is_tooling name \<longleftrightarrow> name \<in> set tooling \<or> name = ascii ''Lean.Data.Json'' \<or> starts_with (ascii ''Lean.Data.Json.'') name"

definition is_command :: "ustr \<Rightarrow> bool" where
  "is_command name \<longleftrightarrow> name \<in> {ascii ''CliMain'', ascii ''DecodeMain''}"

definition dependencies :: "import_graph \<Rightarrow> ustr \<Rightarrow> ustr list" where
  "dependencies graph name = (case map_of graph name of None \<Rightarrow> [] | Some ds \<Rightarrow> ds)"

definition boundary :: "ustr \<Rightarrow> ustr list \<Rightarrow> unit result" where
  "boundary name path = guardE (\<not> (is_command name \<and> path \<noteq> [] \<or> is_tooling name)) ValueError"

text \<open>\<^verbatim>\<open>visit\<close> of each of the names in turn, as the loop over a module's dependencies calls it.\<close>

function visit :: "import_graph \<Rightarrow> ustr list \<Rightarrow> ustr list \<Rightarrow> ustr set \<Rightarrow> ustr set result" where
  "visit graph [] path seen = Inr seen"
| "visit graph (name # names) path seen =
     bindE (boundary name path) (\<lambda>_.
     if name \<in> seen then visit graph names path seen
     else bindE (visit graph (dependencies graph name) (path @ [name]) (insert name seen)) (visit graph names path))"
  by pat_completeness auto

lemma visit_grows: "visit_dom (graph, names, path, seen) \<Longrightarrow> visit graph names path seen = Inr seen' \<Longrightarrow> seen \<subseteq> seen'"
proof (induction graph names path seen arbitrary: seen' rule: visit.pinduct)
  case (1 graph path seen)
  then show ?case by (simp add: visit.psimps)
next
  case (2 graph name names path seen)
  note run = 2(5)[unfolded visit.psimps(2)[OF 2(1)]]
  then have b: "boundary name path = Inr ()" by auto
  show ?case
  proof (cases "name \<in> seen")
    case True
    then show ?thesis using 2(2)[OF b True] run b by simp
  next
    case False
    then obtain s where s: "visit graph (dependencies graph name) (path @ [name]) (insert name seen) = Inr s" "visit graph names path s = Inr seen'"
      using run b by auto
    from 2(3)[OF b False s(1)] 2(4)[OF b False s] show ?thesis by blast
  qed
qed

lemma dependencies_outside: "name \<notin> fst ` set graph \<Longrightarrow> dependencies graph name = []"
  using map_of_eq_None_iff[of graph name] by (simp add: dependencies_def)

termination visit
proof (relation "measures [\<lambda>(graph, names, path, seen). card (fst ` set graph - seen), \<lambda>(graph, names, path, seen). length names]",
    goal_cases)
  case (3 graph name names path seen u)
  then show ?case
  proof (cases "name \<in> fst ` set graph")
    case True
    with 3 have "fst ` set graph - insert name seen \<subset> fst ` set graph - seen" by blast
    then show ?thesis by (simp add: psubset_card_mono)
  next
    case False
    then have "fst ` set graph - insert name seen = fst ` set graph - seen" by blast
    with dependencies_outside[of name graph] False show ?thesis by simp
  qed
next
  case (4 graph name names path seen u seen')
  then have "insert name seen \<subseteq> seen'" using visit_grows by blast
  then have "card (fst ` set graph - seen') \<le> card (fst ` set graph - seen)" by (intro card_mono) auto
  then show ?case by auto
qed auto

definition check_imports :: "import_graph \<Rightarrow> ustr list \<Rightarrow> unit result" where
  "check_imports graph roots = bindE (mapE (\<lambda>root. visit graph [root] [] {}) roots) (\<lambda>_. Inr ())"

definition regressions :: "import_graph list" where
  "regressions = List.map (List.map (\<lambda>(name, names). (ascii name, List.map ascii names))) [
     [(''LeanS7'', [''Lean.Data.Json''])],
     [(''Main'', [''LeanS7.SessionFuzz''])],
     [(''LeanS7.Assurance'', [''Helper'']), (''Helper'', [''Lean.Data.Json.Parser''])],
     [(''LeanS7.Assurance'', [''LeanS7.SessionAssurance''])],
     [(''LeanS7'', [''CliMain'']), (''CliMain'', [''LeanS7''])],
     [(''CliMain'', [''LeanS7.SessionFuzz''])]]"

definition run_boundaries :: "(ustr \<times> ustr list) list \<Rightarrow> unit result" where
  "run_boundaries sources =
     bindE (check_imports (List.map (\<lambda>(name, lines). (name, imports_of lines)) sources) import_roots) (\<lambda>_.
     eachE (\<lambda>changed. case check_imports changed import_roots of
         Inr _ \<Rightarrow> Inl AssertionError
       | Inl e \<Rightarrow> if e = ValueError then Inr () else Inl e) regressions)"

section \<open>Reachability\<close>

definition imports_rel :: "import_graph \<Rightarrow> (ustr \<times> ustr) set" where
  "imports_rel graph = {(m, d). d \<in> set (dependencies graph m)}"

lemma boundary_Inr: "boundary name path = Inr u \<longleftrightarrow> \<not> is_tooling name \<and> (path = [] \<or> \<not> is_command name)"
  by (auto simp: boundary_def)

lemma visit_boundary: "visit graph names path seen = Inr seen' \<Longrightarrow> d \<in> set names \<Longrightarrow> boundary d path = Inr ()"
  by (induction graph names path seen arbitrary: seen' rule: visit.induct) (auto split: if_splits)

text \<open>What a search that returns has seen: the names, and with every module its imports, none of them out of bounds.\<close>

lemma visit_closed:
  "visit graph names path seen = Inr seen' \<Longrightarrow> seen \<subseteq> seen' \<and> set names \<subseteq> seen'
    \<and> (\<forall>m \<in> seen' - seen. \<not> is_tooling m \<and> (\<forall>d \<in> set (dependencies graph m). d \<in> seen' \<and> \<not> is_command d))"
proof (induction graph names path seen arbitrary: seen' rule: visit.induct)
  case (2 graph name names path seen)
  from 2(4) have b: "boundary name path = Inr ()" by auto
  then have ok: "\<not> is_tooling name" by (simp add: boundary_Inr)
  show ?case
  proof (cases "name \<in> seen")
    case True
    then show ?thesis using 2(1)[OF b True, of seen'] 2(4) b by auto
  next
    case False
    then obtain s where s: "visit graph (dependencies graph name) (path @ [name]) (insert name seen) = Inr s" "visit graph names path s = Inr seen'"
      using 2(4) b by auto
    note inner = 2(2)[OF b False s(1)] and outer = 2(3)[OF b False s]
    have sub: "insert name seen \<subseteq> s" "set (dependencies graph name) \<subseteq> s" "s \<subseteq> seen'" "set names \<subseteq> seen'"
      using inner outer by blast+
    have "\<not> is_tooling m \<and> (\<forall>d \<in> set (dependencies graph m). d \<in> seen' \<and> \<not> is_command d)" if m: "m \<in> seen' - seen" for m
    proof -
      consider "m = name" | "m \<in> s - insert name seen" | "m \<in> seen' - s" using m by blast
      then show ?thesis
      proof cases
        case 1
        then show ?thesis using ok sub visit_boundary[OF s(1)] by (auto simp: boundary_Inr)
      next
        case 2
        then show ?thesis using inner sub(3) by blast
      next
        case 3
        then show ?thesis using outer by blast
      qed
    qed
    then show ?thesis using sub by auto
  qed
qed simp

text \<open>A search that raises has met a module out of bounds.\<close>

definition strays :: "import_graph \<Rightarrow> ustr list \<Rightarrow> ustr \<Rightarrow> bool" where
  "strays graph path n \<longleftrightarrow> (\<exists>m. (n, m) \<in> (imports_rel graph)\<^sup>* \<and> is_tooling m) \<or> (\<exists>m. (n, m) \<in> (imports_rel graph)\<^sup>+ \<and> is_command m)
     \<or> path \<noteq> [] \<and> is_command n"

lemma strays_import: "d \<in> set (dependencies graph n) \<Longrightarrow> strays graph (path @ [n]) d \<Longrightarrow> strays graph path' n"
  unfolding strays_def imports_rel_def by (auto intro: converse_rtrancl_into_rtrancl trancl_into_trancl2)

lemma visit_raises: "visit graph names path seen = Inl e \<Longrightarrow> e = ValueError \<and> (\<exists>n \<in> set names. strays graph path n)"
proof (induction graph names path seen rule: visit.induct)
  case (2 graph name names path seen)
  show ?case
  proof (cases "boundary name path")
    case (Inl x)
    then show ?thesis using 2(4) by (auto simp: boundary_def strays_def guardE_def split: if_splits)
  next
    case (Inr u)
    show ?thesis
    proof (cases "name \<in> seen")
      case True
      then show ?thesis using 2(1)[OF Inr True] 2(4) Inr by auto
    next
      case False
      show ?thesis
      proof (cases "visit graph (dependencies graph name) (path @ [name]) (insert name seen)")
        case (Inl x)
        then have "x = e" using 2(4) Inr False by simp
        with 2(2)[OF \<open>boundary name path = Inr u\<close> False] Inl show ?thesis using strays_import by fastforce
      next
        case (Inr s)
        then show ?thesis using 2(3)[OF \<open>boundary name path = Inr u\<close> False Inr] 2(4) False \<open>boundary name path = Inr u\<close> by auto
      qed
    qed
  qed
qed simp

lemma root_clean:
  assumes "visit graph [root] [] {} = Inr seen"
  shows "(root, m) \<in> (imports_rel graph)\<^sup>* \<Longrightarrow> m \<in> seen \<and> \<not> is_tooling m"
    and "(root, m) \<in> (imports_rel graph)\<^sup>+ \<Longrightarrow> \<not> is_command m"
proof -
  note closed = visit_closed[OF assms]
  show star: "m \<in> seen \<and> \<not> is_tooling m" if "(root, m) \<in> (imports_rel graph)\<^sup>*" for m
    using that by (induction rule: rtrancl_induct) (use closed in \<open>auto simp: imports_rel_def\<close>)
  show "\<not> is_command m" if "(root, m) \<in> (imports_rel graph)\<^sup>+"
  proof -
    from tranclD2[OF that] obtain y where "(root, y) \<in> (imports_rel graph)\<^sup>*" "(y, m) \<in> imports_rel graph" by blast
    with star[of y] closed show ?thesis by (auto simp: imports_rel_def)
  qed
qed

lemma mapE_raises: "mapE f xs = Inl e \<Longrightarrow> (\<And>x. x \<in> set xs \<Longrightarrow> f x = Inl e \<Longrightarrow> thesis) \<Longrightarrow> thesis"
proof (induction xs)
  case (Cons x xs)
  then show ?case by (cases "f x"; cases "mapE f xs") auto
qed simp

text \<open>C37: The import check decides reachability: for every graph of modules, cyclic ones included, the search ends, and it returns
  exactly when no test tooling can be reached from a root by imports and no command-line tool by one import or more;
  otherwise it raises the error that its callers expect.\<close>
theorem check_imports_exact:
  "check_imports graph roots =
     (if (imports_rel graph)\<^sup>* `` set roots \<inter> Collect is_tooling = {} \<and> (imports_rel graph)\<^sup>+ `` set roots \<inter> Collect is_command = {}
      then Inr () else Inl ValueError)"
proof (cases "mapE (\<lambda>root. visit graph [root] [] {}) roots")
  case (Inl e)
  then obtain root where r: "root \<in> set roots" "visit graph [root] [] {} = Inl e" by (rule mapE_raises)
  from visit_raises[OF r(2)] have "e = ValueError" "strays graph [] root" by auto
  then have "\<not> ((imports_rel graph)\<^sup>* `` set roots \<inter> Collect is_tooling = {} \<and> (imports_rel graph)\<^sup>+ `` set roots \<inter> Collect is_command = {})"
    using r(1) unfolding strays_def by blast
  with Inl \<open>e = ValueError\<close> show ?thesis by (simp add: check_imports_def)
next
  case (Inr seens)
  have "\<exists>seen. visit graph [root] [] {} = Inr seen" if "root \<in> set roots" for root
    using Inr that by (auto simp: mapE_Inr_iff list_all2_conv_all_nth in_set_conv_nth)
  then have "(imports_rel graph)\<^sup>* `` set roots \<inter> Collect is_tooling = {}" "(imports_rel graph)\<^sup>+ `` set roots \<inter> Collect is_command = {}"
    using root_clean by blast+
  then show ?thesis using Inr by (simp add: check_imports_def)
qed

text \<open>The graphs of the script's own test are all refused, whatever the sources.\<close>

lemma regressions_refused:
  "run_boundaries sources = check_imports (List.map (\<lambda>(name, lines). (name, imports_of lines)) sources) import_roots"
proof -
  have "list_all (\<lambda>changed. check_imports changed import_roots = Inl ValueError) regressions"
    by (simp add: regressions_def import_roots_def check_imports_def boundary_def is_tooling_def is_command_def tooling_def
        dependencies_def starts_with_def ascii_def)
  then show ?thesis
    by (cases "check_imports (List.map (\<lambda>(name, lines). (name, imports_of lines)) sources) import_roots")
      (simp_all add: run_boundaries_def eachE_iff list_all_iff)
qed

end
