(* ===== verification/Spec2Isabelle.thy ===== *)
theory Spec2Isabelle
  imports Operation Streams Hangups Assurance Histories Emulation Analysis Management_Controls Import_Boundaries Wireshark Stubs
begin

text \<open>
  A development of the Python test infrastructure of lean-s7 (\<^verbatim>\<open>src/integration\<close>): the oracles that replay a corpus of
  JSON cases against an independent reading of the S7 protocol, the emulated PLCs ("peers") that the Lean client is
  run against over a socket, and the scripts that judge captures and dissections. The Lean client itself, the processes that start
  it, python-snap7 and tshark are outside: where a modelled function uses one of them it is a parameter or an event of the
  environment.

  \<^bold>\<open>The ground.\<close> \<open>Prelude\<close> has Python's exceptions as the values \<open>exn\<close>, \<open>'a result = exn + 'a\<close> with
  its sequencing, and \<open>('s, 'a) prog\<close> for code that also changes a state; bytes are lists of \<open>8 word\<close>, indexed and sliced as
  Python does, and \<^verbatim>\<open>struct.pack\<close> and \<^verbatim>\<open>to_bytes\<close> check their range. \<open>Json\<close> has what \<^verbatim>\<open>json.loads\<close> returns
  (\<^verbatim>\<open>True\<close> is not an integer), \<open>Decimal\<close> Python's \<^verbatim>\<open>str\<close> and \<^verbatim>\<open>int\<close>, \<open>Text_Codec\<close> Latin-1,
  UTF-16 and hexadecimal digits. Python's integers are \<open>int\<close>.

  \<^bold>\<open>The oracles.\<close>
  \<^item> \<open>Conversation\<close> (\<^verbatim>\<open>conversation_conformance.py\<close>): the validators \<^verbatim>\<open>shape\<close> to \<^verbatim>\<open>payload\<close>, the
    independent encoder \<open>Wire.packet\<close> and \<^verbatim>\<open>request\<close>, and \<^verbatim>\<open>trace\<close>, the machine over lifecycle, retry,
    send, acknowledge and read events; \<open>conv\<close> is its local variables, \<open>conv_step\<close> one event.
  \<^item> \<open>Session\<close> (\<^verbatim>\<open>session_conformance.py\<close>): configuration, the response decoder and the machine of one active
    request with a reconnect budget; \<open>Session_Wire\<close> compares its decoder with the one of \<open>Sequence\<close>
    (\<^verbatim>\<open>sequence_conformance.py\<close>: multi-item check and decoder, USER_DATA fragment assembly).
  \<^item> \<open>Management\<close>, \<open>Values\<close>, \<open>Operation\<close> (\<^verbatim>\<open>management_\<close>, \<^verbatim>\<open>value_\<close> and
    \<^verbatim>\<open>operation_conformance.py\<close>): USER_DATA replies and continuations; integers, text fields and clocks; two-step text
    reads and progress histories. \<open>Corpora\<close> has the checks of whole corpus files, with the ids they collect.
  \<^item> \<open>Edits\<close> has the changes a script's self test makes to a copy of its corpus; \<open>Management_Controls\<close> is the self
    test of \<^verbatim>\<open>management_conformance.py\<close> and the script around it.
  \<^item> \<open>Ledger\<close> states as a locale what every write history keeps (an open location is settled at most once and never
    lost); the conversation and progress machines interpret it, and their claims rest on those facts.

  \<^bold>\<open>The peers.\<close>
  \<^item> \<open>Sockets\<close>: the state \<open>net\<close> of a peer (waiting connections, the script of what \<^verbatim>\<open>recv\<close> meets, open
    handles, failing sends, answers of \<^verbatim>\<open>select\<close> and \<^verbatim>\<open>Event.wait\<close>, a log of what the peer did), the
    receive loop, TPKT and COTP framing. The locale \<open>transport\<close> is the framing contract (what is put is got, no
    dependence on segmentation), interpreted on the framing of \<^verbatim>\<open>multi_batching.py\<close>, of \<^verbatim>\<open>run.py\<close> and on S7
    above them.
  \<^item> \<open>Peers\<close>: draws of \<^verbatim>\<open>random.Random\<close> as an arbitrary stream (so what is proved holds for every seed),
    transfers in chunks, plan texts, the masked wire check, the checks after a terminal event.
  \<^item> \<open>Boundary\<close>, \<open>Overlap\<close>, \<open>Mixed\<close>, \<open>Queued\<close>, \<open>Live\<close>, \<open>Concurrent\<close>,
    \<open>Retries\<close>: the generators and peers of the scripts their texts name; \<open>Faults\<close> the fault peers of
    \<^verbatim>\<open>run.py\<close>; \<open>Deadlines\<close> the slow peers and those that lose a connection or a write; \<open>Services\<close> the USER_DATA,
    connection budget, compound operation and multi-item semantics peers. A \<^verbatim>\<open>_serve\<close> function is a program over \<open>net\<close>
    whose value is the error list the code appends to.
  \<^item> \<open>Reduction\<close>: the two deletion reducers, with a locale \<open>reducer\<close> for what a campaign needs of one, interpreted
    on both; \<open>Mixed\<close> has the campaigns that use them.
  \<^item> \<open>Fuzz\<close> (\<^verbatim>\<open>session_fuzz.py\<close>): the mutations of a reply, the generator of session histories, the replay check, the
    trace comparison and the minimizer; \<open>Histories\<close> shows the generator well typed.
  \<^item> \<open>Emulator\<close> (\<^verbatim>\<open>MultiItemServer\<close> of \<^verbatim>\<open>run.py\<close>): the emulated PLC as programs over the record \<open>emulator\<close>,
    the base state and the three dictionaries of transfers in progress. Its base class in python-snap7 is the parameter
    \<open>library\<close>: the memory map, the response builders and the protocol numbers the code takes from it. \<open>Emulation\<close> states what it promises a client, under
    \<open>conventions\<close>, the documented protocol numbers.
  \<^item> \<open>Benches\<close> (\<^verbatim>\<open>scalability_bench.py\<close>, \<^verbatim>\<open>resource_stress.py\<close>, \<^verbatim>\<open>transport_resources.py\<close>,
    \<^verbatim>\<open>block_info_identity.py\<close>): the peers of the measuring scripts and the plateau check of their samples. \<open>Stubs\<close>
    (\<^verbatim>\<open>native_client_requests.py\<close>, \<^verbatim>\<open>native_client_chunks.py\<close>): the stubs that record what the native client sends;
    the client is the script of the connection.
  \<^item> Claims that span peers: \<open>Streams\<close> (none can tell how TCP cut the stream), \<open>Hangups\<close> (a slow peer is content only
    with a client that hangs up), \<open>Assurance\<close> (what the service peers accept and send, as the management oracle sees it).

  \<^bold>\<open>The judges.\<close>
  \<^item> \<open>Captures\<close> and \<open>Reassembly\<close> (\<^verbatim>\<open>real_captures.py\<close>): pcap and TCP segments, per-flow reassembly, TPKT and COTP
    down to S7 messages, and the synthetic captures of \<^verbatim>\<open>wireshark_corpus.py\<close>; \<open>Analysis\<close> the questions a capture raises for
    the Lean decoder and the judgement of its answers. The decoder is the parameter \<open>oracle\<close>.
  \<^item> \<open>Wireshark\<close> (\<^verbatim>\<open>wireshark_corpus.py\<close>): the probes made of the corpora, the fields a dissected row is compared with, the
    four-way verdict and the reviewed baseline. The dissector is the parameter \<open>tshark\<close>, from a capture to printed lines.
  \<^item> \<open>Import_Boundaries\<close> (\<^verbatim>\<open>import_boundaries.py\<close>): the import lines of a Lean source and the search that keeps test tooling
    off the client's imports.

  \<^bold>\<open>What is shown.\<close> Of the machines: conservation, finality and correlation of write records, budgets, totality after
  parsing. Of the decoders: exactness on their layout, agreement with each other, round trips. Of the corpus checks: they accept exactly
  the corpora that the machines replay, and the management script with its self test exactly those whose controls can be refused. Of the
  generators: for every draw the plans cover what they are meant to cover, stay in bounds and survive encoding. Of the peers: the
  memory peer refines an array, batches stay within the negotiated size, the endless loops end, a retry peer passes exactly the clients
  that make the allowed number of attempts. Of the emulator: reads, writes, uploads and lists arrive whole at the independent decoders,
  and the transfers of a client are its own (its answers change only with the memory). Of reassembly: while sequence numbers do not
  wrap it refines the byte stream and undoes segmentation and duplication; flows share nothing but the errors that end the run.
  Of the reducers: the result still fails, is a part of the plan, and the search ends. Of the import search: it ends, and reports
  exactly the reachable tooling.

  \<^bold>\<open>Bounds.\<close> Loops whose end the code does not show are functions with a measure, or carry a bound that is proved enough:
  the receive loop, the memory loop, the USER_DATA close, the loops of the measuring peers and stubs and the draining loops shorten the
  stream; \<open>conc_fuel\<close> is 66 because sixteen
  reads of four chunks leave no room for another request (\<open>conc_loop_ends\<close>); the download loops end because the sixteen-bit job
  reference runs out and packing it raises; the import search marks a module before it enters it; chunk loops need a positive limit, which
  holds at the sizes of 240 and 480 octets the drivers use. A round of \<^verbatim>\<open>multi_batching.py\<close> that holds no item would repeat
  there and is \<open>AssertionError\<close> here.

  \<^bold>\<open>Time.\<close> Timeouts are events: a script that ends, or says \<open>Silence\<close>, makes \<^verbatim>\<open>recv\<close> time out, and an empty
  backlog makes \<^verbatim>\<open>accept\<close> time out. The texts of errors are kept up to what the code formats into them.

  \<^bold>\<open>Not modelled.\<close> Reading corpus files and starting, timing and killing processes (the \<^verbatim>\<open>run_*\<close> drivers around the
  peers, packaging, the sampling of process resources); the scripts that drive python-snap7 or the native library, and the part of
  \<^verbatim>\<open>real_captures.py\<close> that compares with them; the self tests other than the one of the management oracle, which assert on
  samples what the theorems here show in general.
\<close>

end
